(* ===== verification/Prelude.thy ===== *)
theory Prelude
  imports Main "HOL-Library.Word"
begin

text \<open>
  Shared vocabulary of the development: Rust strings as lists of Unicode scalar values, the
  string operations of the standard library that the modelled code calls, the part of the Unicode
  tables that stays a parameter, and generic lemmas on lists that several components use.
\<close>

section \<open>Rust characters and strings\<close>

text \<open>
  A Rust \<open>char\<close> is a Unicode scalar value, kept here as an \<open>int\<close>; a \<open>String\<close> or \<open>&str\<close> is the
  list of its characters, so \<open>s.chars().count()\<close> is \<open>length s\<close>. \<open>str\<close> reads an ASCII literal.
\<close>

type_synonym rchar = int
type_synonym rstr = "rchar list"

definition str :: "string \<Rightarrow> rstr" where
  "str s = map of_char s"

named_theorems rust_eval \<open>unfolding rules that evaluate string operations on concrete input\<close>

declare str_def [rust_eval]

abbreviation mem :: "'a \<Rightarrow> 'a list \<Rightarrow> bool" where
  "mem x xs \<equiv> x \<in> set xs"

subsection \<open>Characters\<close>

definition is_ascii :: "rchar \<Rightarrow> bool" where
  "is_ascii c \<longleftrightarrow> 0 \<le> c \<and> c < 128"

definition is_ascii_digit :: "rchar \<Rightarrow> bool" where
  "is_ascii_digit c \<longleftrightarrow> 48 \<le> c \<and> c \<le> 57"

definition is_ascii_upper :: "rchar \<Rightarrow> bool" where
  "is_ascii_upper c \<longleftrightarrow> 65 \<le> c \<and> c \<le> 90"

definition is_ascii_lower :: "rchar \<Rightarrow> bool" where
  "is_ascii_lower c \<longleftrightarrow> 97 \<le> c \<and> c \<le> 122"

definition is_ascii_alphabetic :: "rchar \<Rightarrow> bool" where
  "is_ascii_alphabetic c \<longleftrightarrow> is_ascii_upper c \<or> is_ascii_lower c"

definition to_ascii_lower_char :: "rchar \<Rightarrow> rchar" where
  "to_ascii_lower_char c = (if is_ascii_upper c then c + 32 else c)"

definition to_ascii_upper_char :: "rchar \<Rightarrow> rchar" where
  "to_ascii_upper_char c = (if is_ascii_lower c then c - 32 else c)"

text \<open>\<open>char::is_whitespace\<close>: the Unicode property \<open>White_Space\<close>, in full.\<close>

definition is_whitespace :: "rchar \<Rightarrow> bool" where
  "is_whitespace c \<longleftrightarrow>
     (9 \<le> c \<and> c \<le> 13) \<or> c = 32 \<or> c = 133 \<or> c = 160 \<or> c = 5760 \<or>
     (8192 \<le> c \<and> c \<le> 8202) \<or> c = 8232 \<or> c = 8233 \<or> c = 8239 \<or> c = 8287 \<or> c = 12288"

text \<open>\<open>char::is_ascii_whitespace\<close>: tab, line feed, form feed, carriage return, space.\<close>

definition is_ascii_whitespace :: "rchar \<Rightarrow> bool" where
  "is_ascii_whitespace c \<longleftrightarrow> c = 9 \<or> c = 10 \<or> c = 12 \<or> c = 13 \<or> c = 32"

declare is_ascii_def [rust_eval] is_ascii_digit_def [rust_eval] is_ascii_upper_def [rust_eval]
  is_ascii_lower_def [rust_eval] is_ascii_alphabetic_def [rust_eval]
  to_ascii_lower_char_def [rust_eval] to_ascii_upper_char_def [rust_eval]
  is_whitespace_def [rust_eval] is_ascii_whitespace_def [rust_eval]

lemma to_ascii_lower_char_idem [simp]:
  "to_ascii_lower_char (to_ascii_lower_char c) = to_ascii_lower_char c"
  by (simp add: to_ascii_lower_char_def is_ascii_upper_def)

subsection \<open>The Unicode tables the code relies on\<close>

text \<open>
  Beyond ASCII, letter classes and case mappings come from the Unicode tables compiled into the
  Rust standard library. They are parameters: a record of functions that is consulted only for
  characters (or strings) that are not ASCII. The ASCII part is written out below.
\<close>

record unicode =
  u_lowercase_str :: "rstr \<Rightarrow> rstr"
  u_uppercase_char :: "rchar \<Rightarrow> rstr"
  u_is_upper :: "rchar \<Rightarrow> bool"
  u_is_lower :: "rchar \<Rightarrow> bool"
  u_is_alphabetic :: "rchar \<Rightarrow> bool"
  u_is_numeric :: "rchar \<Rightarrow> bool"

definition to_lowercase :: "unicode \<Rightarrow> rstr \<Rightarrow> rstr" where
  "to_lowercase U s =
     (if list_all is_ascii s then map to_ascii_lower_char s else u_lowercase_str U s)"

definition to_uppercase_char :: "unicode \<Rightarrow> rchar \<Rightarrow> rstr" where
  "to_uppercase_char U c = (if is_ascii c then [to_ascii_upper_char c] else u_uppercase_char U c)"

definition char_is_uppercase :: "unicode \<Rightarrow> rchar \<Rightarrow> bool" where
  "char_is_uppercase U c = (if is_ascii c then is_ascii_upper c else u_is_upper U c)"

definition char_is_lowercase :: "unicode \<Rightarrow> rchar \<Rightarrow> bool" where
  "char_is_lowercase U c = (if is_ascii c then is_ascii_lower c else u_is_lower U c)"

definition char_is_alphabetic :: "unicode \<Rightarrow> rchar \<Rightarrow> bool" where
  "char_is_alphabetic U c = (if is_ascii c then is_ascii_alphabetic c else u_is_alphabetic U c)"

definition char_is_alphanumeric :: "unicode \<Rightarrow> rchar \<Rightarrow> bool" where
  "char_is_alphanumeric U c =
     (if is_ascii c then is_ascii_alphabetic c \<or> is_ascii_digit c
      else u_is_alphabetic U c \<or> u_is_numeric U c)"

declare to_lowercase_def [rust_eval] to_uppercase_char_def [rust_eval]
  char_is_uppercase_def [rust_eval] char_is_lowercase_def [rust_eval]
  char_is_alphabetic_def [rust_eval] char_is_alphanumeric_def [rust_eval]

text \<open>The tables of a world without letters beyond ASCII, for concrete evaluation.\<close>

definition ascii_tables :: unicode where
  "ascii_tables = \<lparr>u_lowercase_str = (\<lambda>s. s), u_uppercase_char = (\<lambda>c. [c]), u_is_upper = (\<lambda>_. False),
     u_is_lower = (\<lambda>_. False), u_is_alphabetic = (\<lambda>_. False), u_is_numeric = (\<lambda>_. False)\<rparr>"

declare ascii_tables_def [rust_eval]

subsection \<open>Numbers and iterators\<close>

text \<open>\<open>min_by_key\<close>: the first of the least.\<close>

fun min_index :: "('a \<Rightarrow> nat) \<Rightarrow> 'a list \<Rightarrow> nat option" where
  "min_index f [] = None"
| "min_index f (x # xs) =
     (case min_index f xs of
        None \<Rightarrow> Some 0
      | Some i \<Rightarrow> if f x \<le> f (xs ! i) then Some 0 else Some (Suc i))"

definition abs_diff :: "nat \<Rightarrow> nat \<Rightarrow> nat" where
  "abs_diff a b = (if a \<le> b then b - a else a - b)"

subsection \<open>String operations\<close>

definition to_ascii_lowercase :: "rstr \<Rightarrow> rstr" where
  "to_ascii_lowercase s = map to_ascii_lower_char s"

definition eq_ignore_ascii_case :: "rstr \<Rightarrow> rstr \<Rightarrow> bool" where
  "eq_ignore_ascii_case a b \<longleftrightarrow> to_ascii_lowercase a = to_ascii_lowercase b"

definition trim_start_matches :: "(rchar \<Rightarrow> bool) \<Rightarrow> rstr \<Rightarrow> rstr" where
  "trim_start_matches p s = dropWhile p s"

definition trim_end_matches :: "(rchar \<Rightarrow> bool) \<Rightarrow> rstr \<Rightarrow> rstr" where
  "trim_end_matches p s = rev (dropWhile p (rev s))"

definition trim_matches :: "(rchar \<Rightarrow> bool) \<Rightarrow> rstr \<Rightarrow> rstr" where
  "trim_matches p s = trim_end_matches p (trim_start_matches p s)"

definition trim :: "rstr \<Rightarrow> rstr" where
  "trim s = trim_matches is_whitespace s"

fun starts_with :: "rstr \<Rightarrow> rstr \<Rightarrow> bool" where
  "starts_with [] s = True"
| "starts_with (p # ps) [] = False"
| "starts_with (p # ps) (c # s) = (p = c \<and> starts_with ps s)"

definition strip_prefix :: "rstr \<Rightarrow> rstr \<Rightarrow> rstr option" where
  "strip_prefix p s = (if starts_with p s then Some (drop (length p) s) else None)"

definition ends_with :: "rstr \<Rightarrow> rstr \<Rightarrow> bool" where
  "ends_with p s \<longleftrightarrow> starts_with (rev p) (rev s)"

definition strip_suffix :: "rstr \<Rightarrow> rstr \<Rightarrow> rstr option" where
  "strip_suffix p s = (if ends_with p s then Some (take (length s - length p) s) else None)"

text \<open>\<open>str::contains\<close> with a string pattern.\<close>

fun contains :: "rstr \<Rightarrow> rstr \<Rightarrow> bool" where
  "contains p [] = (p = [])"
| "contains p (c # s) = (starts_with p (c # s) \<or> contains p s)"

text \<open>\<open>str::replace(p, r)\<close> for a nonempty pattern: left to right, without overlaps.\<close>

function replace_str :: "rstr \<Rightarrow> rstr \<Rightarrow> rstr \<Rightarrow> rstr" where
  "replace_str p r [] = []"
| "replace_str p r (c # s) =
     (if p \<noteq> [] \<and> starts_with p (c # s) then r @ replace_str p r (drop (length p) (c # s))
      else c # replace_str p r s)"
  by pat_completeness auto

termination replace_str
  by (relation "measure (\<lambda>(p, r, s). length s)") auto

text \<open>\<open>split_whitespace\<close>: the maximal runs of characters that are not white space.\<close>

function split_whitespace :: "rstr \<Rightarrow> rstr list" where
  "split_whitespace s =
     (case dropWhile is_whitespace s of [] \<Rightarrow> []
      | c # cs \<Rightarrow> takeWhile (\<lambda>x. \<not> is_whitespace x) (c # cs)
                 # split_whitespace (dropWhile (\<lambda>x. \<not> is_whitespace x) (c # cs)))"
  by pat_completeness auto

lemma dropWhile_Cons_facts:
  assumes "dropWhile p s = c # cs"
  shows "\<not> p c" and "length cs < length s"
proof -
  show "\<not> p c" using assms by (induction s) (auto split: if_splits)
  have "length (dropWhile p s) \<le> length s" by (rule length_dropWhile_le)
  with assms show "length cs < length s" by simp
qed

termination split_whitespace
proof (relation "measure length")
  fix s c cs
  assume e: "dropWhile is_whitespace s = c # cs"
  have "length (dropWhile (\<lambda>x. \<not> is_whitespace x) (c # cs)) \<le> length cs"
    using dropWhile_Cons_facts(1) [OF e] by (simp add: length_dropWhile_le)
  with dropWhile_Cons_facts(2) [OF e]
  show "(dropWhile (\<lambda>x. \<not> is_whitespace x) (c # cs), s) \<in> measure length" by simp
qed simp

declare split_whitespace.simps [simp del]

text \<open>\<open>slice.join(sep)\<close>.\<close>

fun join :: "rstr \<Rightarrow> rstr list \<Rightarrow> rstr" where
  "join sep [] = []"
| "join sep [x] = x"
| "join sep (x # y # zs) = x @ sep @ join sep (y # zs)"

text \<open>\<open>str::split(c)\<close> on one character: always at least one (possibly empty) part.\<close>

fun split_char :: "rchar \<Rightarrow> rstr \<Rightarrow> rstr list" where
  "split_char d [] = [[]]"
| "split_char d (c # s) =
     (if c = d then [] # split_char d s
      else (case split_char d s of [] \<Rightarrow> [[c]] | w # ws \<Rightarrow> (c # w) # ws))"

text \<open>Decimal rendering of an unsigned integer (\<open>to_string\<close>), and its digits.\<close>

fun dec_digits :: "nat \<Rightarrow> nat list" where
  "dec_digits n = (if n < 10 then [n] else dec_digits (n div 10) @ [n mod 10])"

declare dec_digits.simps [simp del]

definition nat_to_string :: "nat \<Rightarrow> rstr" where
  "nat_to_string n = map (\<lambda>d. 48 + int d) (dec_digits n)"

text \<open>\<open>{n:0w}\<close>: decimal, padded with zeros to the width.\<close>

definition pad_zeros :: "nat \<Rightarrow> nat \<Rightarrow> rstr" where
  "pad_zeros w n = (let s = nat_to_string n in replicate (w - length s) 48 @ s)"

text \<open>
  \<open>str::parse::<uN>()\<close>: an optional \<open>+\<close>, then one or more ASCII digits, in range of the type.
\<close>

definition digits_value :: "rstr \<Rightarrow> nat" where
  "digits_value s = foldl (\<lambda>a c. 10 * a + nat (c - 48)) 0 s"

definition parse_unsigned :: "nat \<Rightarrow> rstr \<Rightarrow> nat option" where
  "parse_unsigned w s =
     (let ds = (if s \<noteq> [] \<and> hd s = 43 then tl s else s)
      in if ds \<noteq> [] \<and> list_all is_ascii_digit ds \<and> digits_value ds < 2 ^ w
         then Some (digits_value ds) else None)"

declare pad_zeros_def [rust_eval] to_ascii_lowercase_def [rust_eval] eq_ignore_ascii_case_def [rust_eval]
  trim_start_matches_def [rust_eval] trim_end_matches_def [rust_eval]
  trim_matches_def [rust_eval] trim_def [rust_eval] strip_prefix_def [rust_eval]
  ends_with_def [rust_eval] strip_suffix_def [rust_eval]
  split_whitespace.simps [rust_eval] dec_digits.simps [rust_eval] nat_to_string_def [rust_eval]
  digits_value_def [rust_eval] parse_unsigned_def [rust_eval]

lemma eq_ignore_ascii_case_refl [simp]: "eq_ignore_ascii_case a a"
  by (simp add: eq_ignore_ascii_case_def)

lemma eq_ignore_ascii_case_sym: "eq_ignore_ascii_case a b = eq_ignore_ascii_case b a"
  by (auto simp: eq_ignore_ascii_case_def)

lemma starts_with_append: "starts_with p s \<longleftrightarrow> (\<exists>t. s = p @ t)"
  by (induction p s rule: starts_with.induct) auto

lemma contains_append: "contains p s \<longleftrightarrow> (\<exists>a b. s = a @ p @ b)"
proof (induction s)
  case Nil
  then show ?case by auto
next
  case (Cons c s)
  have "(\<exists>a b. c # s = a @ p @ b) \<longleftrightarrow> (\<exists>b. c # s = p @ b) \<or> (\<exists>a b. s = a @ p @ b)"
    by (metis append_Cons append_Nil list.exhaust list.inject)
  with Cons show ?case by (simp add: starts_with_append)
qed

lemma contains_middle: "contains p (a @ p @ b)"
  by (auto simp: contains_append)

lemma ends_with_append: "ends_with p s \<longleftrightarrow> (\<exists>t. s = t @ p)"
proof -
  have "ends_with p s \<longleftrightarrow> (\<exists>t. rev s = rev p @ t)"
    by (simp add: ends_with_def starts_with_append)
  also have "\<dots> \<longleftrightarrow> (\<exists>t. s = t @ p)"
    by (metis rev_append rev_rev_ident)
  finally show ?thesis .
qed

lemma strip_suffix_Some: "strip_suffix p s = Some t \<longleftrightarrow> s = t @ p"
  by (auto simp: strip_suffix_def ends_with_append)

subsection \<open>Paths\<close>

text \<open>
  \<open>Path::file_name\<close>, \<open>file_stem\<close> and \<open>extension\<close> on a Unix path: empty and \<open>.\<close> components do not
  count, a last component \<open>..\<close> is no file name, and a leading dot does not start an extension.
\<close>

definition path_file_name :: "rstr \<Rightarrow> rstr option" where
  "path_file_name p =
     (case filter (\<lambda>c. c \<noteq> [] \<and> c \<noteq> str ''.'') (split_char 47 p) of
        [] \<Rightarrow> None
      | c # cs \<Rightarrow> if last (c # cs) = str ''..'' then None else Some (last (c # cs)))"

definition file_stem :: "rstr \<Rightarrow> rstr" where
  "file_stem name =
     (let parts = split_char 46 name; stem = join (str ''.'') (butlast parts)
      in if length parts \<le> 1 \<or> stem = [] then name else stem)"

definition file_extension :: "rstr \<Rightarrow> rstr option" where
  "file_extension name =
     (let parts = split_char 46 name; stem = join (str ''.'') (butlast parts)
      in if length parts \<le> 1 \<or> stem = [] then None else Some (last parts))"

subsection \<open>Results\<close>

text \<open>\<open>Result<T, E>\<close> is the sum \<open>'e + 'a\<close>; \<open>?\<close> is its bind.\<close>

definition bind_res :: "'e + 'a \<Rightarrow> ('a \<Rightarrow> 'e + 'b) \<Rightarrow> 'e + 'b" where
  "bind_res r f = (case r of Inl e \<Rightarrow> Inl e | Inr a \<Rightarrow> f a)"

lemma bind_res_simps [simp]:
  "bind_res (Inl e) f = Inl e"
  "bind_res (Inr a) f = f a"
  by (simp_all add: bind_res_def)

lemma bind_res_Inr_iff: "bind_res r f = Inr b \<longleftrightarrow> (\<exists>a. r = Inr a \<and> f a = Inr b)"
  by (cases r) auto

lemma bind_res_Inl_iff: "bind_res r f = Inl e \<longleftrightarrow> r = Inl e \<or> (\<exists>a. r = Inr a \<and> f a = Inl e)"
  by (cases r) auto

text \<open>\<open>map_err\<close>.\<close>

definition map_err :: "('e \<Rightarrow> 'f) \<Rightarrow> 'e + 'a \<Rightarrow> 'f + 'a" where
  "map_err f r = (case r of Inl e \<Rightarrow> Inl (f e) | Inr a \<Rightarrow> Inr a)"

lemma map_err_iff:
  "map_err f r = Inr a \<longleftrightarrow> r = Inr a"
  "map_err f r = Inl e \<longleftrightarrow> (\<exists>x. r = Inl x \<and> e = f x)"
  by (auto simp: map_err_def split: sum.splits)

lemma map_sum_Inr_iff: "map_sum id f r = Inr b \<longleftrightarrow> (\<exists>a. r = Inr a \<and> f a = b)"
  by (cases r) auto

lemma bind_res_cong [fundef_cong]:
  "r = r' \<Longrightarrow> (\<And>a. r' = Inr a \<Longrightarrow> f a = g a) \<Longrightarrow> bind_res r f = bind_res r' g"
  by (cases r') auto

section \<open>Splits of a list that lose nothing\<close>

text \<open>
  Several passes cut a list of words into runs: the long-turn split, the long-pause split, the
  split by assignments. Their shared contract is that the runs, in order, are the input.
\<close>

locale lossless_split =
  fixes split :: "'a list \<Rightarrow> 'a list list"
  assumes concat_split: "concat (split xs) = xs"
begin

lemma split_length: "sum_list (map length (split xs)) = length xs"
  using concat_split [of xs] by (metis length_concat)

lemma split_elem: "ys \<in> set (split xs) \<Longrightarrow> set ys \<subseteq> set xs"
  using concat_split [of xs] by (metis Union_upper image_eqI set_concat set_map)

lemma split_covers: "x \<in> set xs \<Longrightarrow> \<exists>ys \<in> set (split xs). x \<in> set ys"
  using concat_split [of xs] by (metis UN_E set_concat)

lemma split_map_order: "map f xs = concat (map (map f) (split xs))"
  using concat_split [of xs] by (metis map_concat)

end

section \<open>Lists\<close>

lemma upt_Suc_append_conv: "[0..<Suc n] = [0..<n] @ [n]"
  by simp

lemma take_Suc_nth: "i < length xs \<Longrightarrow> take (Suc i) xs = take i xs @ [xs ! i]"
  by (simp add: take_Suc_conv_app_nth)

lemma fold_invariant_upt:
  assumes "P 0 s" and "\<And>k s. k < n \<Longrightarrow> P k s \<Longrightarrow> P (Suc k) (f k s)"
  shows "P n (fold f [0..<n] s)"
  using assms by (induction n) auto

lemma fold_invariant_upt_from:
  assumes "m \<le> n" and "P m s" and "\<And>k s. m \<le> k \<Longrightarrow> k < n \<Longrightarrow> P k s \<Longrightarrow> P (Suc k) (f k s)"
  shows "P n (fold f [m..<n] s)"
  using assms by (induction n rule: dec_induct) auto

end
