(* ===== verification/EditDistance.thy ===== *)
theory EditDistance
  imports Prelude
begin

text \<open>
  The specification both sequence aligners of the program are measured against: the least number
  of unmatched elements over all order-preserving alignments of two lists, for an arbitrary match
  relation. A substitution counts 2 (one deletion and one insertion), as in both aligners.
\<close>

section \<open>Alignments and their cost\<close>

inductive aligned :: "('a \<Rightarrow> 'b \<Rightarrow> bool) \<Rightarrow> 'a list \<Rightarrow> 'b list \<Rightarrow> nat \<Rightarrow> bool" for m where
  empty: "aligned m [] [] 0"
| skip_left: "aligned m xs ys c \<Longrightarrow> aligned m (x # xs) ys (Suc c)"
| skip_right: "aligned m xs ys c \<Longrightarrow> aligned m xs (y # ys) (Suc c)"
| pair: "m x y \<Longrightarrow> aligned m xs ys c \<Longrightarrow> aligned m (x # xs) (y # ys) c"

inductive_cases aligned_NilE: "aligned m [] ys c"
inductive_cases aligned_Nil2E: "aligned m xs [] c"
inductive_cases aligned_ConsE: "aligned m (x # xs) ys c"
inductive_cases aligned_ConsConsE: "aligned m (x # xs) (y # ys) c"

lemma aligned_ConsCons_cases [consumes 1]:
  assumes "aligned m (x # xs) (y # ys) c"
  obtains (skip_left) d where "c = Suc d" "aligned m xs (y # ys) d"
    | (skip_right) d where "c = Suc d" "aligned m (x # xs) ys d"
    | (pair) "m x y" "aligned m xs ys c"
  using assms by (auto elim: aligned_ConsConsE)

fun edit_distance :: "('a \<Rightarrow> 'b \<Rightarrow> bool) \<Rightarrow> 'a list \<Rightarrow> 'b list \<Rightarrow> nat" where
  "edit_distance m [] ys = length ys"
| "edit_distance m (x # xs) [] = Suc (length xs)"
| "edit_distance m (x # xs) (y # ys) =
     min (min (Suc (edit_distance m xs (y # ys))) (Suc (edit_distance m (x # xs) ys)))
         ((if m x y then 0 else 2) + edit_distance m xs ys)"

lemma aligned_left_only: "aligned m xs [] (length xs)"
  by (induction xs) (auto intro: aligned.intros)

lemma aligned_left_length: "aligned m xs [] c \<Longrightarrow> c = length xs"
  by (induction xs arbitrary: c) (auto elim: aligned_Nil2E aligned_ConsE)

lemma aligned_right_only: "aligned m [] ys (length ys)"
  by (induction ys) (auto intro: aligned.intros)

lemma aligned_edit_distance: "aligned m xs ys (edit_distance m xs ys)"
proof (induction m xs ys rule: edit_distance.induct)
  case (1 m ys)
  show ?case by (simp add: aligned_right_only)
next
  case (2 m x xs)
  show ?case using aligned_left_only [of m "x # xs"] by simp
next
  case (3 m x xs y ys)
  have sub: "aligned m (x # xs) (y # ys) ((if m x y then 0 else 2) + edit_distance m xs ys)"
    using "3.IH"(3) by (auto intro: aligned.intros simp: eval_nat_numeral)
  show ?case
    using "3.IH"(1,2) sub by (auto simp: min_def intro: aligned.intros)
qed

lemma aligned_length_diff: "aligned m xs ys c \<Longrightarrow> length xs \<le> length ys + c \<and> length ys \<le> length xs + c"
  by (induction rule: aligned.induct) auto

lemma edit_distance_minimal: "aligned m xs ys c \<Longrightarrow> edit_distance m xs ys \<le> c"
proof (induction m xs ys arbitrary: c rule: edit_distance.induct)
  case (1 m ys)
  then show ?case using aligned_length_diff by fastforce
next
  case (2 m x xs)
  then show ?case using aligned_length_diff by fastforce
next
  case (3 m x xs y ys)
  from "3.prems" show ?case
  proof (cases rule: aligned_ConsCons_cases)
    case (skip_left d)
    with "3.IH"(1) [of d] show ?thesis by simp
  next
    case (skip_right d)
    with "3.IH"(2) [of d] show ?thesis by simp
  next
    case pair
    with "3.IH"(3) [of c] show ?thesis by simp
  qed
qed

lemma edit_distance_eqI:
  "aligned m xs ys c \<Longrightarrow> (\<And>d. aligned m xs ys d \<Longrightarrow> c \<le> d) \<Longrightarrow> edit_distance m xs ys = c"
  by (meson aligned_edit_distance edit_distance_minimal le_antisym)

section \<open>Concatenation, reversal and exchange of the arguments\<close>

lemma aligned_append:
  "aligned m xs ys c \<Longrightarrow> aligned m us vs d \<Longrightarrow> aligned m (xs @ us) (ys @ vs) (c + d)"
  by (induction rule: aligned.induct) (auto intro: aligned.intros)

lemma aligned_rev: "aligned m xs ys c \<Longrightarrow> aligned m (rev xs) (rev ys) c"
proof (induction rule: aligned.induct)
  case empty
  show ?case by (simp add: aligned.empty)
next
  case (skip_left xs ys c x)
  have "aligned m [x] [] 1" using aligned_left_only [of m "[x]"] by simp
  with aligned_append [OF skip_left.IH] show ?case by fastforce
next
  case (skip_right xs ys c y)
  have "aligned m [] [y] 1" using aligned_right_only [of m "[y]"] by simp
  with aligned_append [OF skip_right.IH] show ?case by fastforce
next
  case (pair x y xs ys c)
  have "aligned m [x] [y] 0" using pair.hyps(1) by (auto intro: aligned.intros)
  with aligned_append [OF pair.IH] show ?case by fastforce
qed

lemma aligned_rev_iff: "aligned m (rev xs) (rev ys) c \<longleftrightarrow> aligned m xs ys c"
  using aligned_rev [of m xs ys c] aligned_rev [of m "rev xs" "rev ys" c] by auto

lemma edit_distance_rev: "edit_distance m (rev xs) (rev ys) = edit_distance m xs ys"
  by (rule edit_distance_eqI)
    (auto simp: aligned_rev_iff intro: aligned_edit_distance edit_distance_minimal)

lemma aligned_swap: "aligned m xs ys c \<Longrightarrow> aligned (\<lambda>y x. m x y) ys xs c"
  by (induction rule: aligned.induct) (auto intro: aligned.intros)

lemma edit_distance_swap: "edit_distance (\<lambda>y x. m x y) ys xs = edit_distance m xs ys"
  by (rule edit_distance_eqI)
    (auto intro: aligned_swap aligned_edit_distance edit_distance_minimal dest: aligned_swap)

lemma edit_distance_append_le:
  "edit_distance m (xs @ us) (ys @ vs) \<le> edit_distance m xs ys + edit_distance m us vs"
  by (intro edit_distance_minimal aligned_append aligned_edit_distance)

text \<open>
  Every alignment of a concatenation on the left splits the right list somewhere: the fact that
  makes divide and conquer work.
\<close>

lemma aligned_split_left:
  "aligned m (xs @ us) zs c \<Longrightarrow>
     \<exists>k \<le> length zs. \<exists>d e. c = d + e \<and> aligned m xs (take k zs) d \<and> aligned m us (drop k zs) e"
proof (induction m xs zs arbitrary: c rule: edit_distance.induct)
  case (1 m zs)
  then have "c = 0 + c \<and> aligned m [] (take 0 zs) 0 \<and> aligned m us (drop 0 zs) c"
    by (simp add: aligned.empty)
  then show ?case by blast
next
  case (2 m x xs)
  from "2.prems" have "c = length (x # xs) + length us"
    using aligned_left_length by fastforce
  then have "c = length (x # xs) + length us \<and> aligned m (x # xs) (take 0 []) (length (x # xs)) \<and>
      aligned m us (drop 0 []) (length us)"
    by (simp only: take_0 drop_0 aligned_left_only simp_thms)
  then show ?case by blast
next
  case (3 m x xs y ys)
  from "3.prems" have a: "aligned m (x # (xs @ us)) (y # ys) c" by simp
  from a show ?case
  proof (cases rule: aligned_ConsCons_cases)
    case (skip_left d)
    from "3.IH"(1) [OF this(2)] obtain k d' e where
      "k \<le> length (y # ys)" "d = d' + e" "aligned m xs (take k (y # ys)) d'"
      "aligned m us (drop k (y # ys)) e" by blast
    with skip_left show ?thesis
      by (intro exI [of _ k]) (metis add_Suc aligned.skip_left)
  next
    case (skip_right d)
    then have "aligned m ((x # xs) @ us) ys d" by simp
    from "3.IH"(2) [OF this] obtain k d' e where
      k: "k \<le> length ys" "d = d' + e" "aligned m (x # xs) (take k ys) d'"
      "aligned m us (drop k ys) e" by blast
    have "aligned m (x # xs) (take (Suc k) (y # ys)) (Suc d')"
      using k by (auto intro: aligned.skip_right)
    with k skip_right show ?thesis
      by (intro exI [of _ "Suc k"]) (metis add_Suc drop_Suc_Cons length_Cons not_less_eq_eq)
  next
    case pair
    from "3.IH"(3) [OF pair(2)] obtain k d' e where
      k: "k \<le> length ys" "c = d' + e" "aligned m xs (take k ys) d'" "aligned m us (drop k ys) e"
      by blast
    have "aligned m (x # xs) (take (Suc k) (y # ys)) d'"
      using k pair by (auto intro: aligned.pair)
    with k show ?thesis
      by (intro exI [of _ "Suc k"]) (metis drop_Suc_Cons length_Cons not_less_eq_eq)
  qed
qed

lemma edit_distance_split:
  "\<exists>k \<le> length zs. edit_distance m (xs @ us) zs =
     edit_distance m xs (take k zs) + edit_distance m us (drop k zs)"
proof -
  from aligned_split_left [OF aligned_edit_distance] obtain k d e where
    k: "k \<le> length zs" "edit_distance m (xs @ us) zs = d + e"
    "aligned m xs (take k zs) d" "aligned m us (drop k zs) e" by blast
  have "edit_distance m (xs @ us) zs \<le>
      edit_distance m xs (take k zs) + edit_distance m us (drop k zs)"
    using edit_distance_append_le [of m xs us "take k zs" "drop k zs"] by simp
  moreover have "edit_distance m xs (take k zs) + edit_distance m us (drop k zs) \<le> d + e"
    using k edit_distance_minimal by (meson add_mono)
  ultimately show ?thesis using k by (intro exI [of _ k]) simp
qed

section \<open>Greedy matching at the ends\<close>

lemma aligned_drop_right: "aligned m xs (y # ys) c \<Longrightarrow> \<exists>d \<le> Suc c. aligned m xs ys d"
proof (induction xs "y # ys" c rule: aligned.induct)
  case (skip_left xs c x)
  then obtain d where "d \<le> Suc c" "aligned m xs ys d" by blast
  then show ?case by (meson Suc_le_mono aligned.skip_left)
next
  case (skip_right xs c)
  then show ?case by (meson le_SucI le_refl)
next
  case (pair x xs c)
  then show ?case by (meson aligned.skip_left le_refl)
qed

lemma aligned_drop_left:
  assumes "aligned m (x # xs) ys c"
  shows "\<exists>d \<le> Suc c. aligned m xs ys d"
  using aligned_drop_right [OF aligned_swap [OF assms]] aligned_swap by fastforce

lemma edit_distance_match_Cons:
  assumes "m x y"
  shows "edit_distance m (x # xs) (y # ys) = edit_distance m xs ys"
proof (rule edit_distance_eqI)
  show "aligned m (x # xs) (y # ys) (edit_distance m xs ys)"
    using assms by (intro aligned.pair aligned_edit_distance)
  fix d assume "aligned m (x # xs) (y # ys) d"
  then show "edit_distance m xs ys \<le> d"
  proof (cases rule: aligned_ConsCons_cases)
    case (skip_left e)
    then show ?thesis using aligned_drop_right edit_distance_minimal by (metis le_trans)
  next
    case (skip_right e)
    then show ?thesis using aligned_drop_left edit_distance_minimal by (metis le_trans)
  next
    case pair
    then show ?thesis by (simp add: edit_distance_minimal)
  qed
qed

lemma edit_distance_common_prefix:
  assumes "list_all2 m us vs"
  shows "edit_distance m (us @ xs) (vs @ ys) = edit_distance m xs ys"
  using assms by (induction rule: list_all2_induct) (auto simp: edit_distance_match_Cons simp del: edit_distance.simps)

lemma edit_distance_common_suffix:
  assumes "list_all2 m us vs"
  shows "edit_distance m (xs @ us) (ys @ vs) = edit_distance m xs ys"
proof -
  have "edit_distance m (xs @ us) (ys @ vs) = edit_distance m (rev us @ rev xs) (rev vs @ rev ys)"
    by (metis edit_distance_rev rev_append)
  also have "\<dots> = edit_distance m (rev xs) (rev ys)"
    using assms by (intro edit_distance_common_prefix) (simp add: list_all2_rev)
  finally show ?thesis by (simp add: edit_distance_rev)
qed

text \<open>The recurrence at the right ends, the form in which the tables compute it.\<close>

lemma edit_distance_Nil2 [simp]: "edit_distance m xs [] = length xs"
  by (cases xs) auto

lemma edit_distance_snoc:
  "edit_distance m (xs @ [x]) (ys @ [y]) =
     min (min (Suc (edit_distance m xs (ys @ [y]))) (Suc (edit_distance m (xs @ [x]) ys)))
         ((if m x y then 0 else 2) + edit_distance m xs ys)"
  using edit_distance.simps(3) [of m x "rev xs" y "rev ys"]
    edit_distance_rev [of m "xs @ [x]" "ys @ [y]"] edit_distance_rev [of m xs "ys @ [y]"]
    edit_distance_rev [of m "xs @ [x]" ys] edit_distance_rev [of m xs ys]
  by simp

lemma edit_distance_le: "edit_distance m xs ys \<le> length xs + length ys"
  using edit_distance_minimal [OF aligned_append [OF aligned_left_only aligned_right_only]] by simp

section \<open>The contract of an aligner\<close>

text \<open>
  What a client may rely on when it counts matches and gaps: the gaps are the edit distance and
  every element is in a match or in a gap. The number of matches is then the greatest possible.
\<close>

locale edit_aligner =
  fixes mt :: "'a \<Rightarrow> 'b \<Rightarrow> bool" and aln :: "'a list \<Rightarrow> 'b list \<Rightarrow> 'r"
    and matches :: "'r \<Rightarrow> nat" and gaps :: "'r \<Rightarrow> nat"
  assumes aln_gaps: "gaps (aln xs ys) = edit_distance mt xs ys"
    and aln_total: "2 * matches (aln xs ys) + gaps (aln xs ys) = length xs + length ys"
begin

lemma matches_greatest: "aligned mt xs ys c \<Longrightarrow> length xs + length ys \<le> 2 * matches (aln xs ys) + c"
  using edit_distance_minimal [of mt xs ys c] aln_gaps [of xs ys] aln_total [of xs ys] by simp

lemma matches_le: "matches (aln xs ys) \<le> length xs \<and> matches (aln xs ys) \<le> length ys"
  using aligned_length_diff [OF aligned_edit_distance [of mt xs ys]] aln_gaps [of xs ys] aln_total [of xs ys]
  by simp

lemma all_match: "list_all2 mt xs ys \<Longrightarrow> matches (aln xs ys) = length xs"
  using edit_distance_common_prefix [of mt xs ys "[]" "[]"] aln_gaps [of xs ys] aln_total [of xs ys]
  by (simp add: list_all2_lengthD)

lemma some_match:
  assumes "x \<in> set xs" "y \<in> set ys" "mt x y"
  shows "0 < matches (aln xs ys)"
proof -
  obtain as bs cs ds where xs: "xs = as @ x # bs" and ys: "ys = cs @ y # ds"
    using assms(1,2) by (metis split_list)
  have p: "aligned mt [x] [y] 0" using assms(3) by (auto intro: aligned.intros)
  have gap: "aligned mt us vs (length us + length vs)" for us :: "'a list" and vs :: "'b list"
    using aligned_append [OF aligned_left_only [of mt us] aligned_right_only [of mt vs]] by simp
  have "aligned mt ((as @ [x]) @ bs) ((cs @ [y]) @ ds) ((length as + length cs + 0) + (length bs + length ds))"
    by (intro aligned_append gap p)
  then have "edit_distance mt xs ys + 2 \<le> length xs + length ys"
    using edit_distance_minimal xs ys by fastforce
  then show ?thesis using aln_gaps [of xs ys] aln_total [of xs ys] by simp
qed

end

end
