(* ===== verification/CompareAlign.thy ===== *)
theory CompareAlign
  imports EditDistance
begin

text \<open>
  \<^verbatim>\<open>batchalign-core/src/backends/compare.rs\<close>, the token aligner of the Compare backend:
  the parenthesis-tolerant token equality and the Levenshtein alignment with its traceback. The
  lemmas show that the alignment covers both token lists in order and that its number of matches
  is the greatest possible, whatever relation the token equality is.
\<close>

section \<open>Token equality\<close>

definition strip_all :: "rstr \<Rightarrow> rstr" where
  "strip_all s = filter (\<lambda>c. c \<noteq> 40 \<and> c \<noteq> 41) s"

text \<open>The depth counter is an \<open>i32\<close> that only moves between 0 and the number of open groups.\<close>

fun strip_paren_group_from :: "nat \<Rightarrow> rstr \<Rightarrow> rstr" where
  "strip_paren_group_from depth [] = []"
| "strip_paren_group_from depth (c # s) =
     (if c = 40 then strip_paren_group_from (depth + 1) s
      else if c = 41 then strip_paren_group_from (if depth > 0 then depth - 1 else depth) s
      else if depth = 0 then c # strip_paren_group_from depth s
      else strip_paren_group_from depth s)"

definition strip_paren_group :: "rstr \<Rightarrow> rstr" where
  "strip_paren_group s = strip_paren_group_from 0 s"

definition match_fn :: "unicode \<Rightarrow> rstr \<Rightarrow> rstr \<Rightarrow> bool" where
  "match_fn U x y =
     (let xl = to_lowercase U x; yl = to_lowercase U y
      in if xl = yl then True
         else if strip_all xl = strip_all yl then True
         else strip_paren_group yl = xl \<or> strip_paren_group xl = yl)"

lemma match_fn_refl [simp]: "match_fn U x x"
  by (simp add: match_fn_def)

lemma match_fn_sym: "match_fn U x y = match_fn U y x"
  by (auto simp: match_fn_def Let_def)

section \<open>Levenshtein alignment\<close>

datatype align_item =
    ItemMatch (item_i: nat) (item_j: nat)
  | ItemInsert (item_i: nat)
  | ItemDelete (item_j: nat)

definition SUB_COST :: nat where "SUB_COST = 2"

definition dp_set :: "nat list list \<Rightarrow> nat \<Rightarrow> nat \<Rightarrow> nat \<Rightarrow> nat list list" where
  "dp_set dp i j v = dp[i := (dp ! i)[j := v]]"

definition lev_init :: "nat \<Rightarrow> nat \<Rightarrow> nat list list" where
  "lev_init n m =
     fold (\<lambda>j dp. dp_set dp 0 j j) [0..<m + 1]
       (fold (\<lambda>i dp. dp_set dp i 0 i) [0..<n + 1]
         (replicate (n + 1) (replicate (m + 1) 0)))"

definition lev_cell :: "('a \<Rightarrow> 'a \<Rightarrow> bool) \<Rightarrow> 'a list \<Rightarrow> 'a list \<Rightarrow> nat list list \<Rightarrow> nat \<Rightarrow> nat \<Rightarrow> nat" where
  "lev_cell match main gold dp i j =
     (let cost_sub = (if match (main ! (i - 1)) (gold ! (j - 1)) then 0 else SUB_COST);
          sub = dp ! (i - 1) ! (j - 1) + cost_sub;
          del = dp ! i ! (j - 1) + 1;
          ins = dp ! (i - 1) ! j + 1
      in min (min sub del) ins)"

definition lev_row :: "('a \<Rightarrow> 'a \<Rightarrow> bool) \<Rightarrow> 'a list \<Rightarrow> 'a list \<Rightarrow> nat \<Rightarrow> nat list list \<Rightarrow> nat list list" where
  "lev_row match main gold i dp =
     fold (\<lambda>j dp. dp_set dp i j (lev_cell match main gold dp i j)) [1..<length gold + 1] dp"

definition lev_table :: "('a \<Rightarrow> 'a \<Rightarrow> bool) \<Rightarrow> 'a list \<Rightarrow> 'a list \<Rightarrow> nat list list" where
  "lev_table match main gold =
     fold (lev_row match main gold) [1..<length main + 1] (lev_init (length main) (length gold))"

text \<open>The traceback; \<open>out\<close> is in push order and reversed by the caller.\<close>

function lev_traceback ::
    "('a \<Rightarrow> 'a \<Rightarrow> bool) \<Rightarrow> 'a list \<Rightarrow> 'a list \<Rightarrow> nat list list \<Rightarrow> nat \<Rightarrow> nat \<Rightarrow> align_item list \<Rightarrow> align_item list" where
  "lev_traceback match main gold dp i j out =
     (if i > 0 \<or> j > 0 then
        (if i > 0 \<and> j > 0 \<and>
            dp ! i ! j = dp ! (i - 1) ! (j - 1) +
              (if match (main ! (i - 1)) (gold ! (j - 1)) then 0 else SUB_COST)
         then
           (if match (main ! (i - 1)) (gold ! (j - 1))
            then lev_traceback match main gold dp (i - 1) (j - 1) (out @ [ItemMatch (i - 1) (j - 1)])
            else lev_traceback match main gold dp (i - 1) (j - 1)
                   (out @ [ItemInsert (i - 1), ItemDelete (j - 1)]))
         else if j > 0 \<and> (i = 0 \<or> dp ! i ! j = dp ! i ! (j - 1) + 1)
         then lev_traceback match main gold dp i (j - 1) (out @ [ItemDelete (j - 1)])
         else lev_traceback match main gold dp (i - 1) j (out @ [ItemInsert (i - 1)]))
      else out)"
  by pat_completeness auto
termination
  by (relation "measure (\<lambda>(match, main, gold, dp, i, j, out). i + j)") auto

declare lev_traceback.simps [simp del]

definition lev_generic :: "('a \<Rightarrow> 'a \<Rightarrow> bool) \<Rightarrow> 'a list \<Rightarrow> 'a list \<Rightarrow> align_item list" where
  "lev_generic match main gold =
     (let n = length main; m = length gold
      in if n = 0 \<and> m = 0 then []
         else if n = 0 then map ItemDelete [0..<m]
         else if m = 0 then map ItemInsert [0..<n]
         else rev (lev_traceback match main gold (lev_table match main gold) n m []))"

definition levenshtein_align :: "unicode \<Rightarrow> rstr list \<Rightarrow> rstr list \<Rightarrow> align_item list" where
  "levenshtein_align U main gold = lev_generic (match_fn U) main gold"

fun is_item_match :: "align_item \<Rightarrow> bool" where
  "is_item_match (ItemMatch i j) = True"
| "is_item_match _ = False"

definition align_matches :: "align_item list \<Rightarrow> nat" where
  "align_matches items = length (filter is_item_match items)"

section \<open>The table\<close>

text \<open>
  \<open>items_valid mt i0 j0 main gold items\<close>: the items consume the two lists completely and in
  order, the indices count from \<open>i0\<close> and \<open>j0\<close>, and a match pairs two elements that match.
\<close>

fun items_valid ::
    "('a \<Rightarrow> 'a \<Rightarrow> bool) \<Rightarrow> nat \<Rightarrow> nat \<Rightarrow> 'a list \<Rightarrow> 'a list \<Rightarrow> align_item list \<Rightarrow> bool" where
  "items_valid mt i0 j0 main gold [] = (main = [] \<and> gold = [])"
| "items_valid mt i0 j0 main gold (ItemMatch i j # items) =
     (main \<noteq> [] \<and> gold \<noteq> [] \<and> mt (hd main) (hd gold) \<and> i = i0 \<and> j = j0 \<and>
      items_valid mt (Suc i0) (Suc j0) (tl main) (tl gold) items)"
| "items_valid mt i0 j0 main gold (ItemInsert i # items) =
     (main \<noteq> [] \<and> i = i0 \<and> items_valid mt (Suc i0) j0 (tl main) gold items)"
| "items_valid mt i0 j0 main gold (ItemDelete j # items) =
     (gold \<noteq> [] \<and> j = j0 \<and> items_valid mt i0 (Suc j0) main (tl gold) items)"

definition items_cost :: "align_item list \<Rightarrow> nat" where
  "items_cost items = length (filter (\<lambda>it. \<not> is_item_match it) items)"

lemma items_cost_simps [simp]:
  "items_cost [] = 0"
  "items_cost (ItemMatch i j # items) = items_cost items"
  "items_cost (ItemInsert i # items) = Suc (items_cost items)"
  "items_cost (ItemDelete j # items) = Suc (items_cost items)"
  "items_cost (items @ items') = items_cost items + items_cost items'"
  by (simp_all add: items_cost_def)

lemma align_matches_simps [simp]:
  "align_matches [] = 0"
  "align_matches (ItemMatch i j # items) = Suc (align_matches items)"
  "align_matches (ItemInsert i # items) = align_matches items"
  "align_matches (ItemDelete j # items) = align_matches items"
  by (simp_all add: align_matches_def)

lemma items_valid_append:
  "items_valid mt i0 j0 main gold items \<Longrightarrow>
   items_valid mt (i0 + length main) (j0 + length gold) main' gold' items' \<Longrightarrow>
   items_valid mt i0 j0 (main @ main') (gold @ gold') (items @ items')"
proof (induction mt i0 j0 main gold items rule: items_valid.induct)
  case (2 mt i0 j0 main gold i j items)
  then show ?case by (cases main; cases gold) auto
next
  case (3 mt i0 j0 main gold i items)
  then show ?case by (cases main) auto
next
  case (4 mt i0 j0 main gold j items)
  then show ?case by (cases gold) auto
qed auto

lemma items_valid_aligned:
  "items_valid mt i0 j0 main gold items \<Longrightarrow> aligned mt main gold (items_cost items)"
proof (induction mt i0 j0 main gold items rule: items_valid.induct)
  case (1 mt i0 j0 main gold)
  then show ?case by (simp add: aligned.empty)
next
  case (2 mt i0 j0 main gold i j items)
  then show ?case by (cases main; cases gold) (auto intro: aligned.pair)
next
  case (3 mt i0 j0 main gold i items)
  then show ?case by (cases main) (auto intro: aligned.skip_left)
next
  case (4 mt i0 j0 main gold j items)
  then show ?case by (cases gold) (auto intro: aligned.skip_right)
qed

lemma items_valid_lengths:
  "items_valid mt i0 j0 main gold items \<Longrightarrow>
   2 * align_matches items + items_cost items = length main + length gold"
proof (induction mt i0 j0 main gold items rule: items_valid.induct)
  case (2 mt i0 j0 main gold i j items)
  then show ?case by (cases main; cases gold) auto
next
  case (3 mt i0 j0 main gold i items)
  then show ?case by (cases main) auto
next
  case (4 mt i0 j0 main gold j items)
  then show ?case by (cases gold) auto
qed auto

lemma items_valid_deletes:
  "k = j0 + length gold \<Longrightarrow> items_valid mt i0 j0 [] gold (map ItemDelete [j0..<k])"
  by (induction gold arbitrary: j0) (auto simp: upt_conv_Cons simp del: upt_Suc)

lemma items_valid_inserts:
  "k = i0 + length main \<Longrightarrow> items_valid mt i0 j0 main [] (map ItemInsert [i0..<k])"
  by (induction main arbitrary: i0) (auto simp: upt_conv_Cons simp del: upt_Suc)

abbreviation lev_at :: "('a \<Rightarrow> 'a \<Rightarrow> bool) \<Rightarrow> 'a list \<Rightarrow> 'a list \<Rightarrow> nat \<Rightarrow> nat \<Rightarrow> nat" where
  "lev_at mt main gold i j \<equiv> edit_distance mt (take i main) (take j gold)"

lemma lev_at_Suc:
  assumes "i < length main" "j < length gold"
  shows "lev_at mt main gold (Suc i) (Suc j) =
     min (min (lev_at mt main gold i j + (if mt (main ! i) (gold ! j) then 0 else SUB_COST))
              (lev_at mt main gold (Suc i) j + 1))
         (lev_at mt main gold i (Suc j) + 1)"
proof -
  have "lev_at mt main gold (Suc i) (Suc j) =
      min (min (Suc (lev_at mt main gold i (Suc j))) (Suc (lev_at mt main gold (Suc i) j)))
          ((if mt (main ! i) (gold ! j) then 0 else 2) + lev_at mt main gold i j)"
    using edit_distance_snoc [of mt "take i main" "main ! i" "take j gold" "gold ! j"] assms
    by (simp only: take_Suc_nth)
  then show ?thesis
    by (simp only: SUB_COST_def Suc_eq_plus1 min.assoc min.commute min.left_commute add.commute)
qed

definition lev_filled :: "('a \<Rightarrow> 'a \<Rightarrow> bool) \<Rightarrow> 'a list \<Rightarrow> 'a list \<Rightarrow> (nat \<times> nat) set \<Rightarrow> nat list list \<Rightarrow> bool" where
  "lev_filled mt main gold S dp \<longleftrightarrow>
     length dp = length main + 1 \<and> (\<forall>i \<le> length main. length (dp ! i) = length gold + 1) \<and>
     (\<forall>(i, j) \<in> S. dp ! i ! j = lev_at mt main gold i j)"

lemma lev_filled_set:
  assumes "lev_filled mt main gold S dp" "i \<le> length main" "j \<le> length gold"
    and "v = lev_at mt main gold i j"
  shows "lev_filled mt main gold (insert (i, j) S) (dp_set dp i j v)"
proof -
  have "dp_set dp i j v ! i' ! j' = (if i' = i \<and> j' = j then v else dp ! i' ! j')" for i' j'
    using assms by (cases "i' = i"; cases "j' = j") (auto simp: dp_set_def lev_filled_def)
  moreover have "length (dp_set dp i j v) = length dp" by (simp add: dp_set_def)
  moreover have "length (dp_set dp i j v ! i') = length (dp ! i')" for i'
    by (cases "i' = i"; cases "i < length dp") (simp_all add: dp_set_def list_update_beyond)
  ultimately show ?thesis using assms(1,4) unfolding lev_filled_def by auto
qed

lemma lev_filled_subset: "lev_filled mt main gold S dp \<Longrightarrow> T \<subseteq> S \<Longrightarrow> lev_filled mt main gold T dp"
  by (auto simp: lev_filled_def)

lemma lev_filled_at: "lev_filled mt main gold S dp \<Longrightarrow> (i, j) \<in> S \<Longrightarrow> dp ! i ! j = lev_at mt main gold i j"
  by (auto simp: lev_filled_def)

lemma lev_init_filled:
  "lev_filled mt main gold ({0..length main} \<times> {0} \<union> {0} \<times> {0..length gold})
     (lev_init (length main) (length gold))"
proof -
  let ?F = "lev_filled mt main gold"
  define dp1 :: "nat list list" where "dp1 = fold (\<lambda>i dp. dp_set dp i 0 i) [0..<length main + 1]
    (replicate (length main + 1) (replicate (length gold + 1) 0))"
  have "?F ({0..<length main + 1} \<times> {0}) dp1"
    unfolding dp1_def
  proof (rule fold_invariant_upt [where P = "\<lambda>k. ?F ({0..<k} \<times> {0})"])
    show "?F ({0..<0} \<times> {0}) (replicate (length main + 1) (replicate (length gold + 1) 0))"
      by (simp add: lev_filled_def del: replicate_Suc)
  next
    fix k dp assume "k < length main + 1" "?F ({0..<k} \<times> {0}) dp"
    then have "?F (insert (k, 0) ({0..<k} \<times> {0})) (dp_set dp k 0 k)"
      by (intro lev_filled_set) auto
    then show "?F ({0..<Suc k} \<times> {0}) (dp_set dp k 0 k)" by (rule lev_filled_subset) auto
  qed
  then have "?F ({0..length main} \<times> {0} \<union> {0} \<times> {0..<length gold + 1})
      (fold (\<lambda>j dp. dp_set dp 0 j j) [0..<length gold + 1] dp1)"
  proof (intro fold_invariant_upt [where P = "\<lambda>k. ?F ({0..length main} \<times> {0} \<union> {0} \<times> {0..<k})"])
    fix k dp assume "k < length gold + 1" "?F ({0..length main} \<times> {0} \<union> {0} \<times> {0..<k}) dp"
    then have "?F (insert (0, k) ({0..length main} \<times> {0} \<union> {0} \<times> {0..<k})) (dp_set dp 0 k k)"
      by (intro lev_filled_set) auto
    then show "?F ({0..length main} \<times> {0} \<union> {0} \<times> {0..<Suc k}) (dp_set dp 0 k k)"
      by (rule lev_filled_subset) auto
  qed (auto simp: atLeastLessThanSuc_atLeastAtMost)
  then show ?thesis by (simp add: lev_init_def dp1_def atLeastLessThanSuc_atLeastAtMost)
qed

lemma lev_cell_correct:
  assumes f: "lev_filled mt main gold S dp" and "i < length main" "j < length gold"
    and "(i, j) \<in> S" "(Suc i, j) \<in> S" "(i, Suc j) \<in> S"
  shows "lev_cell mt main gold dp (Suc i) (Suc j) = lev_at mt main gold (Suc i) (Suc j)"
  unfolding lev_at_Suc [OF assms(2,3)]
  by (simp only: lev_cell_def Let_def diff_Suc_1 lev_filled_at [OF f assms(4)]
      lev_filled_at [OF f assms(5)] lev_filled_at [OF f assms(6)])

lemma lev_row_filled:
  assumes f: "lev_filled mt main gold S dp" and i: "i < length main"
    and S: "{i} \<times> {0..length gold} \<subseteq> S" "(Suc i, 0) \<in> S"
  shows "lev_filled mt main gold (S \<union> {Suc i} \<times> {0..length gold}) (lev_row mt main gold (Suc i) dp)"
proof -
  let ?F = "lev_filled mt main gold"
  have "?F (S \<union> {Suc i} \<times> {0..<length gold + 1}) (lev_row mt main gold (Suc i) dp)"
    unfolding lev_row_def
  proof (rule fold_invariant_upt_from [where P = "\<lambda>k. ?F (S \<union> {Suc i} \<times> {0..<k})"])
    show "?F (S \<union> {Suc i} \<times> {0..<1}) dp" using S(2) by (intro lev_filled_subset [OF f]) auto
  next
    fix k dp' assume k: "1 \<le> k" "k < length gold + 1" and f': "?F (S \<union> {Suc i} \<times> {0..<k}) dp'"
    then obtain k' where k': "k = Suc k'" by (cases k) auto
    have "lev_cell mt main gold dp' (Suc i) (Suc k') = lev_at mt main gold (Suc i) (Suc k')"
      using k k' S i by (intro lev_cell_correct [OF f']) auto
    then have "?F (insert (Suc i, k) (S \<union> {Suc i} \<times> {0..<k}))
        (dp_set dp' (Suc i) k (lev_cell mt main gold dp' (Suc i) k))"
      using f' i k k' by (intro lev_filled_set) auto
    then show "?F (S \<union> {Suc i} \<times> {0..<Suc k}) (dp_set dp' (Suc i) k (lev_cell mt main gold dp' (Suc i) k))"
      by (rule lev_filled_subset) auto
  qed simp
  then show ?thesis by (simp add: atLeastLessThanSuc_atLeastAtMost)
qed

lemma lev_table_filled:
  "lev_filled mt main gold ({0..length main} \<times> {0..length gold}) (lev_table mt main gold)"
proof -
  let ?F = "lev_filled mt main gold"
  let ?B = "{0..length main} \<times> {0} \<union> {0} \<times> {0..length gold}"
  have "?F (?B \<union> {0..<length main + 1} \<times> {0..length gold}) (lev_table mt main gold)"
    unfolding lev_table_def
  proof (rule fold_invariant_upt_from [where P = "\<lambda>k. ?F (?B \<union> {0..<k} \<times> {0..length gold})"])
    show "?F (?B \<union> {0..<1} \<times> {0..length gold}) (lev_init (length main) (length gold))"
      by (rule lev_filled_subset [OF lev_init_filled]) auto
  next
    fix k dp assume k: "1 \<le> k" "k < length main + 1" and f: "?F (?B \<union> {0..<k} \<times> {0..length gold}) dp"
    then obtain k' where k': "k = Suc k'" by (cases k) auto
    have "?F ((?B \<union> {0..<k} \<times> {0..length gold}) \<union> {Suc k'} \<times> {0..length gold})
        (lev_row mt main gold (Suc k') dp)"
      using k k' by (intro lev_row_filled [OF f]) auto
    then show "?F (?B \<union> {0..<Suc k} \<times> {0..length gold}) (lev_row mt main gold k dp)"
      unfolding k' by (rule lev_filled_subset) auto
  qed simp
  then show ?thesis by (rule lev_filled_subset) auto
qed

section \<open>The traceback\<close>

lemma min3_last: "(v :: nat) = min (min a b) c \<Longrightarrow> v \<noteq> a \<Longrightarrow> v \<noteq> b \<Longrightarrow> v = c"
  by (auto simp: min_def split: if_splits)

lemma lev_traceback_correct:
  assumes f: "lev_filled mt main gold ({0..length main} \<times> {0..length gold}) dp"
  shows "i \<le> length main \<Longrightarrow> j \<le> length gold \<Longrightarrow>
    \<exists>new. lev_traceback mt main gold dp i j out = out @ new \<and>
      items_valid mt 0 0 (take i main) (take j gold) (rev new) \<and>
      items_cost (rev new) = lev_at mt main gold i j"
proof (induction "i + j" arbitrary: i j out rule: less_induct)
  case less
  have at: "i' \<le> length main \<Longrightarrow> j' \<le> length gold \<Longrightarrow> dp ! i' ! j' = lev_at mt main gold i' j'" for i' j'
    by (rule lev_filled_at [OF f]) simp
  have step: "\<exists>new. lev_traceback mt main gold dp i j out = out @ new \<and>
        items_valid mt 0 0 (take i main) (take j gold) (rev new) \<and>
        items_cost (rev new) = lev_at mt main gold i j"
    if unf: "lev_traceback mt main gold dp i j out = lev_traceback mt main gold dp i' j' (out @ xs)"
      and dec: "i' + j' < i + j" "i' \<le> length main" "j' \<le> length gold"
      and ms: "take i main = take i' main @ ms" and gs: "take j gold = take j' gold @ gs"
      and v: "items_valid mt i' j' ms gs (rev xs)"
      and cost: "lev_at mt main gold i j = lev_at mt main gold i' j' + items_cost (rev xs)"
    for i' j' xs ms gs
  proof -
    from less.hyps [OF dec, of "out @ xs"] obtain new where
      new: "lev_traceback mt main gold dp i' j' (out @ xs) = (out @ xs) @ new"
      "items_valid mt 0 0 (take i' main) (take j' gold) (rev new)"
      "items_cost (rev new) = lev_at mt main gold i' j'" by blast
    have "items_valid mt 0 0 (take i main) (take j gold) (rev new @ rev xs)"
      unfolding ms gs using v dec by (intro items_valid_append [OF new(2)]) (simp add: min_def)
    with new unf cost show ?thesis by (intro exI [of _ "xs @ new"]) simp
  qed
  note unf = lev_traceback.simps [of mt main gold dp i j out]
  let ?sub = "i > 0 \<and> j > 0 \<and> dp ! i ! j = dp ! (i - 1) ! (j - 1) +
    (if mt (main ! (i - 1)) (gold ! (j - 1)) then 0 else SUB_COST)"
  let ?del = "j > 0 \<and> (i = 0 \<or> dp ! i ! j = dp ! i ! (j - 1) + 1)"
  consider (origin) "i = 0" "j = 0" | (sub) "?sub" | (del) "\<not> ?sub" "?del"
    | (ins) "\<not> ?sub" "\<not> ?del" "i > 0" by blast
  then show ?case
  proof cases
    case origin
    then show ?thesis by (intro exI [of _ "[]"]) (simp add: lev_traceback.simps)
  next
    case sub
    then obtain i' j' where ij: "i = Suc i'" "j = Suc j'" by (metis gr0_implies_Suc)
    note tk = take_Suc_nth [of i' main] take_Suc_nth [of j' gold]
    have eq: "lev_at mt main gold i j = lev_at mt main gold i' j' +
        (if mt (main ! i') (gold ! j') then 0 else SUB_COST)"
      using sub less.prems ij at [of i j] at [of i' j'] by simp
    show ?thesis
    proof (cases "mt (main ! i') (gold ! j')")
      case True
      with sub have "lev_traceback mt main gold dp i j out =
          lev_traceback mt main gold dp i' j' (out @ [ItemMatch i' j'])"
        unfolding unf using ij by simp
      then show ?thesis
        by (rule step [where ms = "[main ! i']" and gs = "[gold ! j']"])
          (use True less.prems ij tk eq in simp_all)
    next
      case False
      with sub have "lev_traceback mt main gold dp i j out =
          lev_traceback mt main gold dp i' j' (out @ [ItemInsert i', ItemDelete j'])"
        unfolding unf using ij by simp
      then show ?thesis
        by (rule step [where ms = "[main ! i']" and gs = "[gold ! j']"])
          (use False less.prems ij tk eq in \<open>simp_all add: SUB_COST_def\<close>)
    qed
  next
    case del
    then obtain j' where j: "j = Suc j'" by (metis gr0_implies_Suc)
    have tb: "lev_traceback mt main gold dp i j out =
        lev_traceback mt main gold dp i j' (out @ [ItemDelete j'])"
      unfolding unf using del j by (simp only: if_False if_True simp_thms zero_less_Suc diff_Suc_1)
    have "lev_at mt main gold i j = lev_at mt main gold i j' + 1"
      using del j less.prems at [of i j] at [of i j'] by auto
    with less.prems j show ?thesis
      by (intro step [OF tb, where ms = "[]" and gs = "[gold ! j']"]) (simp_all add: take_Suc_nth)
  next
    case ins
    then obtain i' where i: "i = Suc i'" by (metis gr0_implies_Suc)
    have tb: "lev_traceback mt main gold dp i j out =
        lev_traceback mt main gold dp i' j (out @ [ItemInsert i'])"
      unfolding unf using ins i by (simp only: if_False if_True simp_thms zero_less_Suc diff_Suc_1)
    have "lev_at mt main gold i j = lev_at mt main gold i' j + 1"
    proof (cases j)
      case 0
      then show ?thesis using i less.prems by simp
    next
      case (Suc j')
      have ne: "lev_at mt main gold i j \<noteq> lev_at mt main gold i' j' +
          (if mt (main ! i') (gold ! j') then 0 else SUB_COST)"
        "lev_at mt main gold i j \<noteq> lev_at mt main gold i j' + 1"
        using ins i Suc less.prems at [of i j] at [of i' j'] at [of i j'] by auto
      have "i' < length main" "j' < length gold" using i Suc less.prems by auto
      from min3_last [OF lev_at_Suc [OF this, of mt, folded i Suc] ne] show ?thesis .
    qed
    with less.prems i show ?thesis
      by (intro step [OF tb, where ms = "[main ! i']" and gs = "[]"]) (simp_all add: take_Suc_nth)
  qed
qed

lemma lev_generic_correct:
  "items_valid mt 0 0 main gold (lev_generic mt main gold) \<and>
   items_cost (lev_generic mt main gold) = edit_distance mt main gold"
proof -
  have dels: "items_cost (map ItemDelete ks) = length ks" for ks by (induction ks) auto
  have inss: "items_cost (map ItemInsert ks) = length ks" for ks by (induction ks) auto
  consider "main = []" | "main \<noteq> []" "gold = []" | "main \<noteq> []" "gold \<noteq> []" by blast
  then show ?thesis
  proof cases
    case 1
    then show ?thesis using items_valid_deletes [of _ 0 gold mt 0] dels [of "[0..<length gold]"]
      by (simp add: lev_generic_def Let_def)
  next
    case 2
    then show ?thesis using items_valid_inserts [of _ 0 main mt 0] inss [of "[0..<length main]"]
      by (simp add: lev_generic_def Let_def)
  next
    case 3
    then show ?thesis
      using lev_traceback_correct [OF lev_table_filled [of mt main gold], of "length main" "length gold" "[]"]
      by (auto simp: lev_generic_def Let_def)
  qed
qed

text \<open>The aligner keeps the contract for every match relation.\<close>

interpretation lev: edit_aligner mt "lev_generic mt" align_matches items_cost for mt
  using lev_generic_correct items_valid_lengths by unfold_locales blast+

lemma levenshtein_align_valid:
  "items_valid (match_fn U) 0 0 main gold (levenshtein_align U main gold)"
  using lev_generic_correct [of "match_fn U" main gold] by (simp add: levenshtein_align_def)

section \<open>Properties\<close>

text \<open>C4: The token alignment of Compare covers the main and the gold tokens completely and in
  order, pairs only tokens that \<open>match_fn\<close> accepts, and leaves the least possible number of
  tokens unmatched over all alignments of the two lists.\<close>

theorem levenshtein_align_optimal:
  "items_valid (match_fn U) 0 0 main gold (levenshtein_align U main gold) \<and>
   items_cost (levenshtein_align U main gold) = edit_distance (match_fn U) main gold \<and>
   2 * align_matches (levenshtein_align U main gold) + items_cost (levenshtein_align U main gold) =
     length main + length gold"
  using lev_generic_correct [of "match_fn U" main gold] lev.aln_total [of "match_fn U" main gold]
  by (simp add: levenshtein_align_def)

end
