(* ===== verification/CompareWindows.thy ===== *)
theory CompareWindows
  imports CompareAlign Complex_Main "HOL-Library.Product_Lexorder"
begin

text \<open>
  \<^verbatim>\<open>batchalign-core/src/backends/compare.rs\<close>, phase 1 of the Compare backend: for every gold
  utterance a window of the main tokens is searched and snapped to one main utterance, and the
  majority main utterance of that window is where the gold utterance belongs. The lemmas show that
  the windows are disjoint, in order and within bounds, and that the resulting map is monotone.
\<close>

section \<open>The majority value\<close>

text \<open>
  The counting map as an association list from a value to its count and first index. A hash map
  iterates in an unspecified order; \<open>majority_of\<close> is the \<open>max_by\<close> of the code over the entries in
  any order (the last of the greatest wins).
\<close>

fun count_entry :: "(nat \<times> nat \<times> nat) list \<Rightarrow> nat \<Rightarrow> nat \<Rightarrow> (nat \<times> nat \<times> nat) list" where
  "count_entry [] i v = [(v, 1, i)]"
| "count_entry ((w, c, k) # es) i v =
     (if w = v then (w, c + 1, k) # es else (w, c, k) # count_entry es i v)"

definition maj_counts :: "nat list \<Rightarrow> (nat \<times> nat \<times> nat) list" where
  "maj_counts vals = fold (\<lambda>(i, v) es. count_entry es i v) (enumerate 0 vals) []"

text \<open>Whether the comparator orders \<open>a\<close> strictly above \<open>b\<close>.\<close>

definition maj_greater :: "nat \<times> nat \<times> nat \<Rightarrow> nat \<times> nat \<times> nat \<Rightarrow> bool" where
  "maj_greater a b =
     (case a of (_, ca, ia) \<Rightarrow> case b of (_, cb, ib) \<Rightarrow> if ca = cb then ia < ib else cb < ca)"

definition majority_of :: "(nat \<times> nat \<times> nat) list \<Rightarrow> nat" where
  "majority_of es =
     (case es of [] \<Rightarrow> 0 | e # es' \<Rightarrow> fst (foldl (\<lambda>x y. if maj_greater x y then x else y) e es'))"

definition majority_value :: "nat list \<Rightarrow> nat" where
  "majority_value vals = majority_of (maj_counts vals)"

section \<open>Searching a window\<close>

definition subslice :: "'a list \<Rightarrow> nat \<Rightarrow> nat \<Rightarrow> 'a list" where
  "subslice xs a b = drop a (take b xs)"

text \<open>The two loops that trim the tokens of other utterances at both ends of a candidate.\<close>

function trim_left :: "nat list \<Rightarrow> nat \<Rightarrow> nat \<Rightarrow> nat \<Rightarrow> nat" where
  "trim_left utts maj ts e = (if ts < e \<and> utts ! ts \<noteq> maj then trim_left utts maj (ts + 1) e else ts)"
  by pat_completeness auto
termination by (relation "measure (\<lambda>(utts, maj, ts, e). e - ts)") auto

fun trim_right :: "nat list \<Rightarrow> nat \<Rightarrow> nat \<Rightarrow> nat \<Rightarrow> nat" where
  "trim_right utts maj ts te =
     (if te > ts \<and> utts ! (te - 1) \<noteq> maj then trim_right utts maj ts (te - 1) else te)"

declare trim_left.simps [simp del] trim_right.simps [simp del]

text \<open>The sum over the window's distinct tokens does not depend on the order of the hash map.\<close>

definition bow_overlap :: "rstr list \<Rightarrow> rstr list \<Rightarrow> nat" where
  "bow_overlap gold window =
     sum_list (map (\<lambda>k. min (count_list window k) (count_list gold k)) (remdups window))"

definition F64_EPSILON :: rat where "F64_EPSILON = 1 / 2 ^ 52"

record seg_state =
  seg_best :: "nat \<times> nat"
  seg_score :: rat
  seg_waste :: "int option"
  seg_align_matches :: int

text \<open>The body of the search loop for the candidate window from \<open>start\<close> to \<open>end'\<close>.\<close>

definition seg_step ::
    "unicode \<Rightarrow> rstr list \<Rightarrow> rstr list \<Rightarrow> nat list \<Rightarrow> nat \<Rightarrow> nat \<Rightarrow> seg_state \<Rightarrow> seg_state" where
  "seg_step U gold main main_utts start end' st =
     (let majority = majority_value (subslice main_utts start end');
          ts = trim_left main_utts majority start end';
          te = trim_right main_utts majority ts end'
      in if te \<le> ts then st
         else
           (let window = subslice main ts te;
                overlap = bow_overlap gold window;
                score = of_nat overlap / of_nat (length gold);
                waste = int (te - ts) - int overlap;
                align_matches = int (align_matches (levenshtein_align U window gold))
            in if score > seg_score st then
                 \<lparr>seg_best = (ts, te), seg_score = score, seg_waste = Some waste,
                  seg_align_matches = align_matches\<rparr>
               else if \<bar>score - seg_score st\<bar> < F64_EPSILON then
                 (if align_matches > seg_align_matches st then
                    st\<lparr>seg_best := (ts, te), seg_waste := Some waste, seg_align_matches := align_matches\<rparr>
                  else if align_matches = seg_align_matches st then
                    (if te > snd (seg_best st) then
                       st\<lparr>seg_best := (ts, te), seg_waste := Some waste\<rparr>
                     else if te = snd (seg_best st) \<and>
                             (case seg_waste st of None \<Rightarrow> True | Some prev \<Rightarrow> waste < prev) then
                       st\<lparr>seg_best := (ts, te), seg_waste := Some waste\<rparr>
                     else st)
                  else st)
               else st))"

definition find_best_segment :: "unicode \<Rightarrow> rstr list \<Rightarrow> rstr list \<Rightarrow> nat list \<Rightarrow> nat \<times> nat" where
  "find_best_segment U gold main main_utts =
     (if gold = [] \<or> main = [] then (0, 0)
      else
        (let gold_len = length gold; main_len = length main;
             min_window = max (gold_len - 2) 1;
             max_window = min (gold_len + 2) main_len;
             st = fold (\<lambda>span st.
                    if span > main_len then st
                    else fold (\<lambda>start. seg_step U gold main main_utts start (start + span))
                           [0..<main_len - span + 1] st)
                  [min_window..<max_window + 1]
                  \<lparr>seg_best = (0, min gold_len main_len), seg_score = -1, seg_waste = None,
                   seg_align_matches = -1\<rparr>
         in if seg_score st \<le> 0 then (0, 0) else seg_best st))"

section \<open>Snapping a window to an utterance\<close>

definition leading_deletes :: "align_item list \<Rightarrow> nat" where
  "leading_deletes items = length (takeWhile (\<lambda>it. case it of ItemDelete j \<Rightarrow> True | _ \<Rightarrow> False) items)"

fun extend_left :: "nat list \<Rightarrow> nat \<Rightarrow> nat \<Rightarrow> nat \<Rightarrow> nat \<Rightarrow> nat" where
  "extend_left utts maj search_start 0 abs_start = abs_start"
| "extend_left utts maj search_start (Suc budget) abs_start =
     (if abs_start > search_start \<and> utts ! (abs_start - 1) = maj
      then extend_left utts maj search_start budget (abs_start - 1) else abs_start)"

definition snap_window_to_majority_utt ::
    "unicode \<Rightarrow> nat \<Rightarrow> nat \<Rightarrow> nat \<Rightarrow> rstr list \<Rightarrow> nat list \<Rightarrow> rstr list \<Rightarrow> nat \<times> nat" where
  "snap_window_to_majority_utt U abs_start abs_end search_start conformed_main main_utts gold_tokens =
     (if abs_end \<le> abs_start then (abs_start, abs_end)
      else
        (let majority = majority_value (subslice main_utts abs_start abs_end);
             abs_end' = trim_right main_utts majority abs_start abs_end
         in if abs_end' \<le> abs_start then (abs_start, abs_end')
            else
              (let window_main = subslice conformed_main abs_start abs_end';
                   leading_refs = leading_deletes (levenshtein_align U window_main gold_tokens)
               in (extend_left main_utts majority search_start leading_refs abs_start, abs_end'))))"

text \<open>The rotation search of the file; the code above does not call it.\<close>

definition best_rotation :: "unicode \<Rightarrow> rstr list \<Rightarrow> rstr list \<Rightarrow> nat" where
  "best_rotation U window gold =
     (if length window \<le> 1 then 0
      else fst (fold (\<lambda>r (best_r, best_matches).
                  let ms = int (align_matches (levenshtein_align U (drop r window @ take r window) gold))
                  in if ms > best_matches then (r, ms) else (best_r, best_matches))
                [0..<length window] (0, -1 :: int)))"

section \<open>The mapping pass\<close>

text \<open>The window of one gold utterance: phases A and B of the loop body.\<close>

definition gold_window :: "unicode \<Rightarrow> rstr list \<Rightarrow> nat list \<Rightarrow> nat \<Rightarrow> rstr list \<Rightarrow> nat \<times> nat" where
  "gold_window U main_text main_utts search_start g_text =
     (case find_best_segment U g_text (drop search_start main_text) (drop search_start main_utts) of
        (win_start, win_end) \<Rightarrow>
          snap_window_to_majority_utt U (search_start + win_start) (search_start + win_end)
            search_start main_text main_utts g_text)"

definition map_gold ::
    "unicode \<Rightarrow> rstr list \<Rightarrow> nat list \<Rightarrow> nat \<times> rstr list \<Rightarrow> nat option list \<times> nat \<Rightarrow> nat option list \<times> nat" where
  "map_gold U main_text main_utts = (\<lambda>(gold_utt_idx, g_text) (gold_to_main, search_start).
     if g_text = [] then (gold_to_main, search_start)
     else (case gold_window U main_text main_utts search_start g_text of (abs_start, abs_end) \<Rightarrow>
       ((if abs_end > abs_start
         then gold_to_main[gold_utt_idx := Some (majority_value (subslice main_utts abs_start abs_end))]
         else gold_to_main), abs_end)))"

definition gold_to_main :: "unicode \<Rightarrow> rstr list \<Rightarrow> nat list \<Rightarrow> rstr list list \<Rightarrow> nat option list" where
  "gold_to_main U main_text main_utts gold_texts =
     fst (fold (map_gold U main_text main_utts) (enumerate 0 gold_texts)
            (replicate (length gold_texts) None, 0))"

section \<open>The majority is the most frequent value, the earliest on ties\<close>

definition first_idx :: "nat list \<Rightarrow> nat \<Rightarrow> nat" where
  "first_idx xs v = length (takeWhile (\<lambda>w. w \<noteq> v) xs)"

lemma first_idx_append: "first_idx (xs @ [w]) v = (if v \<in> set xs then first_idx xs v else if w = v then length xs else length xs + 1)"
  unfolding first_idx_def by (induction xs) auto

lemma first_idx_nth: "v \<in> set xs \<Longrightarrow> first_idx xs v < length xs \<and> xs ! first_idx xs v = v"
  unfolding first_idx_def by (induction xs) auto

lemma first_idx_inj: "v \<in> set xs \<Longrightarrow> w \<in> set xs \<Longrightarrow> first_idx xs v = first_idx xs w \<Longrightarrow> v = w"
  using first_idx_nth by metis

lemma count_entry_set:
  "distinct (map fst es) \<Longrightarrow>
   set (count_entry es i v) =
     (if v \<in> fst ` set es then {(w, c, k). \<exists>c'. (w, c', k) \<in> set es \<and> c = (if w = v then c' + 1 else c')}
      else insert (v, 1, i) (set es))"
  by (induction es i v rule: count_entry.induct) (auto simp: image_iff split: if_splits)

lemma count_entry_keys: "fst ` set (count_entry es i v) = insert v (fst ` set es)"
  by (induction es i v rule: count_entry.induct) auto

lemma count_entry_distinct: "distinct (map fst es) \<Longrightarrow> distinct (map fst (count_entry es i v))"
  by (induction es i v rule: count_entry.induct) (auto simp: count_entry_keys)

lemma maj_counts_mem:
  "distinct (map fst (maj_counts xs)) \<and> fst ` set (maj_counts xs) = set xs \<and>
   (\<forall>w c k. (w, c, k) \<in> set (maj_counts xs) \<longleftrightarrow>
      w \<in> set xs \<and> c = count_list xs w \<and> k = first_idx xs w)"
proof (induction xs rule: rev_induct)
  case Nil
  show ?case by (simp add: maj_counts_def)
next
  case (snoc x xs)
  have e: "maj_counts (xs @ [x]) = count_entry (maj_counts xs) (length xs) x"
    by (simp add: maj_counts_def enumerate_append_eq)
  have IH: "distinct (map fst (maj_counts xs))" "fst ` set (maj_counts xs) = set xs"
    "\<And>w c k. (w, c, k) \<in> set (maj_counts xs) \<longleftrightarrow> w \<in> set xs \<and> c = count_list xs w \<and> k = first_idx xs w"
    using snoc by auto
  have mem: "(w, c, k) \<in> set (maj_counts (xs @ [x])) \<longleftrightarrow>
      w \<in> set (xs @ [x]) \<and> c = count_list (xs @ [x]) w \<and> k = first_idx (xs @ [x]) w" for w c k
  proof (cases "x \<in> set xs")
    case True
    then have "(w, c, k) \<in> set (maj_counts (xs @ [x])) \<longleftrightarrow>
        (\<exists>c'. (w, c', k) \<in> set (maj_counts xs) \<and> c = (if w = x then c' + 1 else c'))"
      unfolding e count_entry_set [OF IH(1)] IH(2) by simp
    also have "\<dots> \<longleftrightarrow> w \<in> set xs \<and> k = first_idx xs w \<and> c = (if w = x then count_list xs w + 1 else count_list xs w)"
      unfolding IH(3) by blast
    also have "\<dots> \<longleftrightarrow> w \<in> set (xs @ [x]) \<and> c = count_list (xs @ [x]) w \<and> k = first_idx (xs @ [x]) w"
      using True by (auto simp: first_idx_append)
    finally show ?thesis .
  next
    case False
    then have "(w, c, k) \<in> set (maj_counts (xs @ [x])) \<longleftrightarrow>
        (w, c, k) = (x, 1, length xs) \<or> (w, c, k) \<in> set (maj_counts xs)"
      unfolding e count_entry_set [OF IH(1)] IH(2) by simp
    also have "\<dots> \<longleftrightarrow> w \<in> set (xs @ [x]) \<and> c = count_list (xs @ [x]) w \<and> k = first_idx (xs @ [x]) w"
      unfolding IH(3) using False by (cases "w = x") (simp_all add: first_idx_append)
    finally show ?thesis .
  qed
  show ?case
    using IH(1,2) mem by (simp add: e count_entry_distinct count_entry_keys)
qed

lemma maj_counts_spec: "set (maj_counts xs) = (\<lambda>v. (v, count_list xs v, first_idx xs v)) ` set xs"
  using maj_counts_mem [of xs] by (auto simp: image_iff)

text \<open>
  \<open>maj_greater\<close> is a strict linear order on entries with different first indices, so the fold
  yields the one greatest entry.
\<close>

lemma foldl_max_greatest:
  assumes "\<forall>a \<in> set (e # es). \<forall>b \<in> set (e # es). a = b \<or> maj_greater a b \<or> maj_greater b a"
  shows "let r = foldl (\<lambda>x y. if maj_greater x y then x else y) e es in
    r \<in> set (e # es) \<and> (\<forall>a \<in> set (e # es). a = r \<or> maj_greater r a)"
  using assms
proof (induction es rule: rev_induct)
  case Nil
  then show ?case by simp
next
  case (snoc x es)
  define r where "r = foldl (\<lambda>x y. if maj_greater x y then x else y) e es"
  from snoc have r: "r \<in> set (e # es)" "\<forall>a \<in> set (e # es). a = r \<or> maj_greater r a"
    by (auto simp: r_def Let_def)
  have trans: "maj_greater a b \<Longrightarrow> maj_greater b c \<Longrightarrow> maj_greater a c" for a b c
    by (auto simp: maj_greater_def split: prod.splits if_splits)
  show ?case
  proof (cases "maj_greater r x")
    case True
    then show ?thesis using r by (auto simp: r_def [symmetric] Let_def)
  next
    case False
    then have x: "r = x \<or> maj_greater x r" using snoc.prems r(1) by auto
    have "\<forall>a \<in> set (e # es). a = x \<or> maj_greater x a" using r x trans by metis
    then show ?thesis using False by (simp add: r_def [symmetric] Let_def)
  qed
qed

lemma maj_greater_entries:
  "v \<in> set xs \<Longrightarrow> w \<in> set xs \<Longrightarrow>
   maj_greater (v, count_list xs v, first_idx xs v) (w, count_list xs w, first_idx xs w) \<longleftrightarrow>
     count_list xs w < count_list xs v \<or> count_list xs w = count_list xs v \<and> first_idx xs v < first_idx xs w"
  by (auto simp: maj_greater_def)

lemma majority_of_spec:
  assumes es: "set es = set (maj_counts xs)" and ne: "xs \<noteq> []"
  shows "majority_of es \<in> set xs \<and>
    (\<forall>w \<in> set xs. w = majority_of es \<or> count_list xs w < count_list xs (majority_of es) \<or>
       count_list xs w = count_list xs (majority_of es) \<and> first_idx xs (majority_of es) < first_idx xs w)"
proof -
  let ?f = "\<lambda>v. (v, count_list xs v, first_idx xs v)"
  have set_es: "set es = ?f ` set xs" using es maj_counts_spec by simp
  then obtain e es' where e: "es = e # es'" using ne by (cases es) auto
  have "\<forall>a \<in> set (e # es'). \<forall>b \<in> set (e # es'). a = b \<or> maj_greater a b \<or> maj_greater b a"
    unfolding e [symmetric] set_es using first_idx_inj by (fastforce simp: maj_greater_entries)
  from foldl_max_greatest [OF this] have
    r: "foldl (\<lambda>x y. if maj_greater x y then x else y) e es' \<in> ?f ` set xs"
    "\<forall>a \<in> ?f ` set xs. a = foldl (\<lambda>x y. if maj_greater x y then x else y) e es' \<or>
       maj_greater (foldl (\<lambda>x y. if maj_greater x y then x else y) e es') a"
    unfolding e [symmetric] set_es by (simp_all add: Let_def)
  from r(1) obtain v where v: "v \<in> set xs" "foldl (\<lambda>x y. if maj_greater x y then x else y) e es' = ?f v"
    by blast
  then have "majority_of es = v" by (simp add: majority_of_def e)
  with v r(2) show ?thesis by (auto simp: maj_greater_entries)
qed

lemma majority_of_unique:
  assumes "set es = set (maj_counts xs)"
  shows "majority_of es = majority_value xs"
proof (cases "xs = []")
  case True
  then show ?thesis using assms by (simp add: maj_counts_def majority_value_def majority_of_def)
next
  case False
  from majority_of_spec [OF assms False] majority_of_spec [OF refl False]
  show ?thesis unfolding majority_value_def by (metis less_irrefl less_asym)
qed

lemma majority_value_in: "xs \<noteq> [] \<Longrightarrow> majority_value xs \<in> set xs"
  using majority_of_spec [OF refl] unfolding majority_value_def by blast

lemma majority_value_spec:
  assumes "xs \<noteq> []"
  shows "majority_value xs \<in> set xs"
    and "w \<in> set xs \<Longrightarrow> count_list xs w \<le> count_list xs (majority_value xs)"
    and "w \<in> set xs \<Longrightarrow> count_list xs w = count_list xs (majority_value xs) \<Longrightarrow>
      first_idx xs (majority_value xs) \<le> first_idx xs w"
  using majority_of_spec [OF refl assms] unfolding majority_value_def by (blast, force, force)

section \<open>Windows stay within bounds\<close>

lemma trim_left_bounds:
  "ts \<le> e \<Longrightarrow> ts \<le> trim_left utts maj ts e \<and> trim_left utts maj ts e \<le> e \<and>
   (trim_left utts maj ts e < e \<longrightarrow> utts ! trim_left utts maj ts e = maj)"
proof (induction utts maj ts e rule: trim_left.induct)
  case (1 utts maj ts e)
  show ?case
  proof (cases "ts < e \<and> utts ! ts \<noteq> maj")
    case True
    then have "trim_left utts maj ts e = trim_left utts maj (ts + 1) e"
      by (subst trim_left.simps) simp
    with 1 True show ?thesis by simp
  next
    case False
    then have "trim_left utts maj ts e = ts" by (subst trim_left.simps) auto
    with 1 False show ?thesis by auto
  qed
qed

lemma trim_right_bounds:
  "ts \<le> te \<Longrightarrow> ts \<le> trim_right utts maj ts te \<and> trim_right utts maj ts te \<le> te \<and>
   (ts < trim_right utts maj ts te \<longrightarrow> utts ! (trim_right utts maj ts te - 1) = maj)"
proof (induction utts maj ts te rule: trim_right.induct)
  case (1 utts maj ts te)
  show ?case
  proof (cases "te > ts \<and> utts ! (te - 1) \<noteq> maj")
    case True
    then have "trim_right utts maj ts te = trim_right utts maj ts (te - 1)"
      by (subst trim_right.simps) simp
    moreover have "ts \<le> te - 1" using True by linarith
    moreover have "r \<le> te - 1 \<Longrightarrow> r \<le> te" for r by linarith
    ultimately show ?thesis using 1 True by auto
  next
    case False
    then have "trim_right utts maj ts te = te" by (subst trim_right.simps) auto
    with 1 False show ?thesis by auto
  qed
qed

lemma extend_left_bounds:
  "search_start \<le> abs_start \<Longrightarrow>
   search_start \<le> extend_left utts maj search_start budget abs_start \<and>
   extend_left utts maj search_start budget abs_start \<le> abs_start"
proof (induction utts maj search_start budget abs_start rule: extend_left.induct)
  case (2 utts maj search_start budget abs_start)
  show ?case
  proof (cases "abs_start > search_start \<and> utts ! (abs_start - 1) = maj")
    case True
    then have "search_start \<le> abs_start - 1" by linarith
    with 2 True have "search_start \<le> extend_left utts maj search_start budget (abs_start - 1) \<and>
        extend_left utts maj search_start budget (abs_start - 1) \<le> abs_start - 1" by simp
    moreover have "r \<le> abs_start - 1 \<Longrightarrow> r \<le> abs_start" for r by linarith
    ultimately show ?thesis using True by auto
  next
    case False
    with 2 show ?thesis by auto
  qed
qed simp

text \<open>The candidate windows, in the order the two loops visit them, and their projection.\<close>

definition candidates :: "nat \<Rightarrow> nat \<Rightarrow> (nat \<times> nat) list" where
  "candidates gold_len main_len =
     concat (map (\<lambda>span. map (\<lambda>start. (start, start + span)) [0..<main_len - span + 1])
       [max (gold_len - 2) 1..<min (gold_len + 2) main_len + 1])"

definition projected :: "nat list \<Rightarrow> nat \<times> nat \<Rightarrow> nat \<times> nat" where
  "projected utts = (\<lambda>(start, end').
     (let maj = majority_value (subslice utts start end'); ts = trim_left utts maj start end'
      in (ts, trim_right utts maj ts end')))"

lemma fold_concat: "fold f (concat xss) s = fold (\<lambda>xs. fold f xs) xss s"
  by (induction xss arbitrary: s) auto

lemma find_best_segment_fold:
  assumes "gold \<noteq> []" "main \<noteq> []"
  shows "find_best_segment U gold main utts =
    (let st = fold (\<lambda>(start, end'). seg_step U gold main utts start end') (candidates (length gold) (length main))
                \<lparr>seg_best = (0, min (length gold) (length main)), seg_score = -1, seg_waste = None,
                 seg_align_matches = -1\<rparr>
     in if seg_score st \<le> 0 then (0, 0) else seg_best st)"
proof -
  have "fold (\<lambda>span st. if span > length main then st
          else fold (\<lambda>start. seg_step U gold main utts start (start + span)) [0..<length main - span + 1] st)
        [max (length gold - 2) 1..<min (length gold + 2) (length main) + 1] st =
      fold (\<lambda>(start, end'). seg_step U gold main utts start end') (candidates (length gold) (length main)) st"
    for st
    unfolding candidates_def fold_concat fold_map
    by (rule fold_cong) (auto simp: fold_map o_def)
  then show ?thesis using assms unfolding find_best_segment_def by (simp only: if_False Let_def simp_thms)
qed

lemma candidates_bounds: "(start, end') \<in> set (candidates gl ml) \<Longrightarrow> start < end' \<and> end' \<le> ml"
  by (auto simp: candidates_def)

text \<open>The rank of a window: token overlap, then matches of the alignment, then its end, then its start.\<close>

definition window_key :: "unicode \<Rightarrow> rstr list \<Rightarrow> rstr list \<Rightarrow> nat \<times> nat \<Rightarrow> nat \<times> nat \<times> nat \<times> nat" where
  "window_key U gold main = (\<lambda>(ts, te).
     (bow_overlap gold (subslice main ts te),
      align_matches (levenshtein_align U (subslice main ts te) gold), te, ts))"

text \<open>The state of the search loop when \<open>w\<close> is the best window.\<close>

definition seg_of :: "unicode \<Rightarrow> rstr list \<Rightarrow> rstr list \<Rightarrow> nat \<times> nat \<Rightarrow> seg_state" where
  "seg_of U gold main w =
     \<lparr>seg_best = w, seg_score = of_nat (fst (window_key U gold main w)) / of_nat (length gold),
      seg_waste = Some (int (snd w - fst w) - int (fst (window_key U gold main w))),
      seg_align_matches = int (fst (snd (window_key U gold main w)))\<rparr>"

definition seg_inv :: "unicode \<Rightarrow> rstr list \<Rightarrow> rstr list \<Rightarrow> nat list \<Rightarrow> (nat \<times> nat) set \<Rightarrow> seg_state \<Rightarrow> bool" where
  "seg_inv U gold main utts seen st \<longleftrightarrow>
     seg_score st = -1 \<and> (\<forall>c \<in> seen. snd (projected utts c) \<le> fst (projected utts c)) \<or>
     (\<exists>w. st = seg_of U gold main w \<and> fst w < snd w \<and> snd w \<le> length main \<and>
       (\<forall>c \<in> seen. fst (projected utts c) < snd (projected utts c) \<longrightarrow>
          window_key U gold main (projected utts c) \<le> window_key U gold main w))"

lemma eps_eq:
  fixes x y g :: nat
  assumes "0 < g" "g \<le> 2 ^ 52"
  shows "\<bar>of_nat x / of_nat g - of_nat y / of_nat g\<bar> < F64_EPSILON \<longleftrightarrow> x = y"
proof
  assume a: "\<bar>of_nat x / of_nat g - of_nat y / of_nat g\<bar> < F64_EPSILON"
  have "\<bar>of_nat x / of_nat g - of_nat y / of_nat g :: rat\<bar> = \<bar>of_nat x - of_nat y\<bar> / of_nat g"
    using assms(1) by (simp add: diff_divide_distrib [symmetric])
  with a have "\<bar>of_nat x - of_nat y :: rat\<bar> < of_nat g / 2 ^ 52"
    using assms(1) by (simp add: F64_EPSILON_def field_simps)
  also have "\<dots> \<le> 1"
  proof -
    have "(of_nat g :: rat) \<le> of_nat (2 ^ 52)" using assms(2) by (simp only: of_nat_le_iff)
    then show ?thesis by simp
  qed
  finally have "\<bar>of_nat x - of_nat y :: rat\<bar> < 1" .
  then have "\<bar>of_int (int x) - of_int (int y) :: rat\<bar> < of_int 1" by simp
  then have "\<bar>int x - int y\<bar> < 1" by (simp only: of_int_diff [symmetric] of_int_abs [symmetric] of_int_less_iff)
  then show "x = y" by simp
qed (simp add: F64_EPSILON_def)

lemma seg_step_projected:
  assumes "projected utts (start, end') = (ts, te)"
  shows "seg_step U gold main utts start end' st =
    (if te \<le> ts then st
     else
       (let ov = fst (window_key U gold main (ts, te)); am = int (fst (snd (window_key U gold main (ts, te))));
            score = of_nat ov / of_nat (length gold); waste = int (te - ts) - int ov
        in if score > seg_score st then seg_of U gold main (ts, te)
           else if \<bar>score - seg_score st\<bar> < F64_EPSILON then
             (if am > seg_align_matches st then
                st\<lparr>seg_best := (ts, te), seg_waste := Some waste, seg_align_matches := am\<rparr>
              else if am = seg_align_matches st then
                (if te > snd (seg_best st) then
                   st\<lparr>seg_best := (ts, te), seg_waste := Some waste\<rparr>
                 else if te = snd (seg_best st) \<and>
                         (case seg_waste st of None \<Rightarrow> True | Some prev \<Rightarrow> waste < prev) then
                   st\<lparr>seg_best := (ts, te), seg_waste := Some waste\<rparr>
                 else st)
              else st)
           else st))"
proof -
  have ts: "trim_left utts (majority_value (subslice utts start end')) start end' = ts"
    and te: "trim_right utts (majority_value (subslice utts start end')) ts end' = te"
    using assms by (auto simp: projected_def Let_def)
  show ?thesis
    by (simp only: seg_step_def window_key_def seg_of_def Let_def ts te prod.case fst_conv snd_conv)
qed

lemma seg_step_best:
  assumes p: "projected utts (start, end') = (ts, te)" and w: "ts < te" "a < b"
    and g: "0 < length gold" "length gold \<le> 2 ^ 52"
  shows "seg_step U gold main utts start end' (seg_of U gold main (a, b)) =
    (if window_key U gold main (a, b) < window_key U gold main (ts, te)
     then seg_of U gold main (ts, te) else seg_of U gold main (a, b))"
proof -
  obtain ov am where k: "window_key U gold main (ts, te) = (ov, am, te, ts)" by (simp add: window_key_def)
  obtain ov' am' where k': "window_key U gold main (a, b) = (ov', am', b, a)" by (simp add: window_key_def)
  have lt: "(of_nat ov' / of_nat (length gold) < (of_nat ov / of_nat (length gold) :: rat)) = (ov' < ov)"
    using g(1) by (simp add: divide_less_cancel)
  have waste: "(int (te - ts) - int ov < int (te - a) - int ov) = (a < ts)" if "a < te"
    using that w by auto
  consider "ov' < ov" | "ov < ov'" | "ov' = ov" "am' < am" | "ov' = ov" "am < am'"
    | "ov' = ov" "am' = am" "b < te" | "ov' = ov" "am' = am" "te < b" | "ov' = ov" "am' = am" "b = te"
    by linarith
  then show ?thesis
    using w waste eps_eq [OF g, of ov ov'] lt k k'
    by cases (simp_all add: seg_step_projected [OF p] seg_of_def Let_def)
qed

lemma seg_step_inv:
  assumes inv: "seg_inv U gold main utts seen st" and c: "start < end'" "end' \<le> length main"
    and g: "0 < length gold" "length gold \<le> 2 ^ 52"
  shows "seg_inv U gold main utts (insert (start, end') seen) (seg_step U gold main utts start end' st)"
proof -
  obtain ts te where p: "projected utts (start, end') = (ts, te)" by fastforce
  have te: "te \<le> length main"
  proof -
    define maj where "maj = majority_value (subslice utts start end')"
    have "trim_left utts maj start end' \<le> end'" using trim_left_bounds c(1) by simp
    then have "trim_right utts maj (trim_left utts maj start end') end' \<le> end'"
      using trim_right_bounds by simp
    moreover have "te = trim_right utts maj (trim_left utts maj start end') end'"
      using p by (auto simp: projected_def Let_def maj_def)
    ultimately show ?thesis using c(2) by simp
  qed
  show ?thesis
  proof (cases "te \<le> ts")
    case True
    then have "seg_step U gold main utts start end' st = st" by (simp add: seg_step_projected [OF p])
    with inv True p show ?thesis by (auto simp: seg_inv_def)
  next
    case False
    from inv consider (none) "seg_score st = -1" "\<forall>c \<in> seen. snd (projected utts c) \<le> fst (projected utts c)"
      | (best) w where "st = seg_of U gold main w" "fst w < snd w" "snd w \<le> length main"
        "\<forall>c \<in> seen. fst (projected utts c) < snd (projected utts c) \<longrightarrow>
          window_key U gold main (projected utts c) \<le> window_key U gold main w"
      unfolding seg_inv_def by blast
    then show ?thesis
    proof cases
      case none
      have "(-1 :: rat) < of_nat n / of_nat (length gold)" for n
        by (rule less_le_trans [of _ 0]) simp_all
      then have "seg_step U gold main utts start end' st = seg_of U gold main (ts, te)"
        by (simp only: seg_step_projected [OF p] Let_def none(1) False if_True if_False)
      with none False te p show ?thesis
        unfolding seg_inv_def by (intro disjI2 exI [of _ "(ts, te)"]) (auto simp: not_less [symmetric])
    next
      case best
      obtain a b where w: "w = (a, b)" by (cases w)
      note some = best [unfolded w fst_conv snd_conv]
      show ?thesis
      proof (cases "window_key U gold main (a, b) < window_key U gold main (ts, te)")
        case True
        then have "seg_step U gold main utts start end' st = seg_of U gold main (ts, te)"
          using some(1) seg_step_best [OF p _ some(2) g, of U main] False by simp
        with some False te p True show ?thesis
          unfolding seg_inv_def by (intro disjI2 exI [of _ "(ts, te)"]) (auto intro: order_trans less_imp_le)
      next
        case le: False
        then have "seg_step U gold main utts start end' st = seg_of U gold main (a, b)"
          using some(1) seg_step_best [OF p _ some(2) g, of U main] False by simp
        with some p le show ?thesis
          unfolding seg_inv_def by (intro disjI2 exI [of _ "(a, b)"]) (auto simp: not_less)
      qed
    qed
  qed
qed

lemma fold_seg_inv:
  assumes "set cs \<subseteq> {(a, b). a < b \<and> b \<le> length main}" and g: "0 < length gold" "length gold \<le> 2 ^ 52"
    and "seg_inv U gold main utts {} st"
  shows "seg_inv U gold main utts (set cs) (fold (\<lambda>(start, end'). seg_step U gold main utts start end') cs st)"
  using assms(1)
proof (induction cs rule: rev_induct)
  case Nil
  then show ?case using assms(4) by simp
next
  case (snoc c cs)
  obtain start end' where c: "c = (start, end')" by (cases c)
  have "seg_inv U gold main utts (insert (start, end') (set cs))
      (seg_step U gold main utts start end' (fold (\<lambda>(start, end'). seg_step U gold main utts start end') cs st))"
    using snoc c g by (intro seg_step_inv) auto
  then show ?case by (simp add: c)
qed

lemma find_best_segment_key:
  assumes ne: "gold \<noteq> []" "main \<noteq> []" and g: "length gold \<le> 2 ^ 52"
    and r: "find_best_segment U gold main utts = (a, b)"
    and c: "c \<in> set (candidates (length gold) (length main))"
    and w: "projected utts c = (ts, te)" "ts < te" "0 < bow_overlap gold (subslice main ts te)"
  shows "window_key U gold main (ts, te) \<le> window_key U gold main (a, b)"
proof -
  define st where "st = fold (\<lambda>(start, end'). seg_step U gold main utts start end')
    (candidates (length gold) (length main))
    \<lparr>seg_best = (0, min (length gold) (length main)), seg_score = -1, seg_waste = None, seg_align_matches = -1\<rparr>"
  have res: "(a, b) = (if seg_score st \<le> 0 then (0, 0) else seg_best st)"
    unfolding r [symmetric] find_best_segment_fold [OF ne] Let_def st_def by (rule refl)
  have "seg_inv U gold main utts (set (candidates (length gold) (length main))) st"
    unfolding st_def using ne g candidates_bounds
    by (intro fold_seg_inv) (auto simp: seg_inv_def)
  then obtain v where v: "st = seg_of U gold main v" "window_key U gold main (ts, te) \<le> window_key U gold main v"
    using c w unfolding seg_inv_def by (metis fst_conv snd_conv not_less)
  have "0 < fst (window_key U gold main (ts, te))" using w by (simp add: window_key_def)
  also have "\<dots> \<le> fst (window_key U gold main v)" using v(2) by (auto simp: less_eq_prod_def)
  finally have "0 < seg_score st" using v(1) ne by (simp add: seg_of_def)
  then show ?thesis using res v by (simp add: seg_of_def)
qed

text \<open>Bounds need no assumption on the lengths, so they are a separate invariant.\<close>

lemma seg_step_bounds:
  assumes "start < end'" "end' \<le> length main"
    and "fst (seg_best st) \<le> snd (seg_best st) \<and> snd (seg_best st) \<le> length main"
  shows "fst (seg_best (seg_step U gold main utts start end' st)) \<le> snd (seg_best (seg_step U gold main utts start end' st)) \<and>
    snd (seg_best (seg_step U gold main utts start end' st)) \<le> length main"
proof -
  obtain ts te where p: "projected utts (start, end') = (ts, te)" by fastforce
  define maj where "maj = majority_value (subslice utts start end')"
  have "trim_left utts maj start end' \<le> end'" using trim_left_bounds assms(1) by simp
  then have "trim_right utts maj (trim_left utts maj start end') end' \<le> end'"
    using trim_right_bounds by simp
  moreover have "te = trim_right utts maj (trim_left utts maj start end') end'"
    using p by (auto simp: projected_def Let_def maj_def)
  ultimately have "te \<le> length main" using assms(2) by simp
  moreover have "seg_best (seg_step U gold main utts start end' st) = seg_best st \<or>
      seg_best (seg_step U gold main utts start end' st) = (ts, te) \<and> ts < te"
    by (auto simp: seg_step_projected [OF p] seg_of_def Let_def)
  ultimately show ?thesis using assms(3) by auto
qed

lemma find_best_segment_bounds:
  "fst (find_best_segment U gold main utts) \<le> snd (find_best_segment U gold main utts) \<and>
   snd (find_best_segment U gold main utts) \<le> length main"
proof (cases "gold = [] \<or> main = []")
  case True
  then show ?thesis by (auto simp: find_best_segment_def)
next
  case False
  define s0 where "s0 = \<lparr>seg_best = (0, min (length gold) (length main)), seg_score = -1 :: rat,
    seg_waste = None :: int option, seg_align_matches = -1 :: int\<rparr>"
  have "set cs \<subseteq> set (candidates (length gold) (length main)) \<Longrightarrow>
      (let st = fold (\<lambda>(start, end'). seg_step U gold main utts start end') cs s0
       in fst (seg_best st) \<le> snd (seg_best st) \<and> snd (seg_best st) \<le> length main)" for cs
  proof (induction cs rule: rev_induct)
    case Nil
    show ?case by (simp add: s0_def)
  next
    case (snoc c cs)
    obtain start end' where c: "c = (start, end')" by (cases c)
    have "start < end'" "end' \<le> length main"
      using snoc.prems c candidates_bounds by auto
    from seg_step_bounds [OF this] snoc c show ?case by (simp add: Let_def)
  qed
  from this [OF subset_refl] show ?thesis
    using False by (simp add: find_best_segment_fold s0_def Let_def)
qed

lemma snap_bounds:
  assumes "search_start \<le> a" "a \<le> b"
    and "snap_window_to_majority_utt U a b search_start main utts gold = (a', b')"
  shows "search_start \<le> a' \<and> a' \<le> b' \<and> b' \<le> b"
proof (cases "b \<le> a")
  case True
  then show ?thesis using assms by (simp add: snap_window_to_majority_utt_def)
next
  case False
  define maj where "maj = majority_value (subslice utts a b)"
  define e where "e = trim_right utts maj a b"
  have e: "a \<le> e" "e \<le> b" using trim_right_bounds [of a b utts maj] assms(2) by (simp_all add: e_def)
  define n where "n = leading_deletes (levenshtein_align U (subslice main a e) gold)"
  have "snap_window_to_majority_utt U a b search_start main utts gold =
      (if e \<le> a then (a, e) else (extend_left utts maj search_start n a, e))"
    using False by (simp add: snap_window_to_majority_utt_def maj_def e_def n_def Let_def)
  then show ?thesis
    using assms e extend_left_bounds [OF assms(1), of utts maj n] by (auto split: if_splits)
qed

lemma gold_window_bounds:
  assumes "search_start \<le> length main"
    and "gold_window U main utts search_start gold = (a, b)"
  shows "search_start \<le> a \<and> a \<le> b \<and> b \<le> length main"
proof -
  obtain ws we where w: "find_best_segment U gold (drop search_start main) (drop search_start utts) = (ws, we)"
    by fastforce
  have "ws \<le> we" "we \<le> length main - search_start"
    using find_best_segment_bounds [of U gold "drop search_start main" "drop search_start utts"] w by simp_all
  moreover have "snap_window_to_majority_utt U (search_start + ws) (search_start + we) search_start main utts gold = (a, b)"
    using assms(2) w by (simp add: gold_window_def)
  ultimately show ?thesis
    using snap_bounds [of search_start "search_start + ws" "search_start + we"] assms(1) by fastforce
qed

section \<open>The mapping is monotone\<close>

text \<open>
  After \<open>k\<close> gold utterances: the cursor is within bounds; the entries from \<open>k\<close> on are untouched;
  an entry names the utterance of some token before the cursor; entries do not decrease.
\<close>

definition mapping_inv :: "nat list \<Rightarrow> nat \<Rightarrow> nat \<Rightarrow> nat option list \<times> nat \<Rightarrow> bool" where
  "mapping_inv utts n k = (\<lambda>(g2m, cursor).
     length g2m = n \<and> cursor \<le> length utts \<and> (\<forall>i < n. k \<le> i \<longrightarrow> g2m ! i = None) \<and>
     (\<forall>i < n. \<forall>m. g2m ! i = Some m \<longrightarrow> (\<exists>t < cursor. utts ! t = m)) \<and>
     (\<forall>i j m m'. i < j \<longrightarrow> j < n \<longrightarrow> g2m ! i = Some m \<longrightarrow> g2m ! j = Some m' \<longrightarrow> m \<le> m'))"

lemma subslice_mem: "x \<in> set (subslice xs a b) \<Longrightarrow> \<exists>t. a \<le> t \<and> t < b \<and> t < length xs \<and> xs ! t = x"
proof -
  assume "x \<in> set (subslice xs a b)"
  then obtain i where "i < min (length xs) b - a" "x = drop a (take b xs) ! i"
    unfolding subslice_def by (auto simp: in_set_conv_nth)
  moreover from this have "drop a (take b xs) ! i = xs ! (a + i)"
    by (subst nth_drop) auto
  ultimately show ?thesis by (intro exI [of _ "a + i"]) auto
qed

lemma mapping_invI:
  assumes "length g = n" "c \<le> length utts" "\<And>i. i < n \<Longrightarrow> k \<le> i \<Longrightarrow> g ! i = None"
    and "\<And>i m. i < n \<Longrightarrow> g ! i = Some m \<Longrightarrow> \<exists>t < c. utts ! t = m"
    and "\<And>i j m m'. i < j \<Longrightarrow> j < n \<Longrightarrow> g ! i = Some m \<Longrightarrow> g ! j = Some m' \<Longrightarrow> m \<le> m'"
  shows "mapping_inv utts n k (g, c)"
  unfolding mapping_inv_def prod.case using assms by blast

lemma mapping_invD:
  assumes "mapping_inv utts n k (g, c)"
  shows "length g = n" "c \<le> length utts" "i < n \<Longrightarrow> k \<le> i \<Longrightarrow> g ! i = None"
    "i < n \<Longrightarrow> g ! i = Some m \<Longrightarrow> \<exists>t < c. utts ! t = m"
    "i < j \<Longrightarrow> j < n \<Longrightarrow> g ! i = Some m \<Longrightarrow> g ! j = Some m' \<Longrightarrow> m \<le> m'"
  using assms unfolding mapping_inv_def prod.case by blast+

lemma map_gold_inv:
  assumes inv: "mapping_inv utts n k s" and k: "k < n"
    and len: "length utts = length main" and srt: "sorted utts"
  shows "mapping_inv utts n (Suc k) (map_gold U main utts (k, gold) s)"
proof -
  obtain g cursor where s: "s = (g, cursor)" by (cases s)
  note i = mapping_invD [OF inv [unfolded s]]
  obtain a b where ab: "gold_window U main utts cursor gold = (a, b)" by fastforce
  have cur: "cursor \<le> length main" using i(2) len by simp
  note bd = gold_window_bounds [OF cur ab]
  consider "gold = []" | "gold \<noteq> []" "\<not> b > a" | "gold \<noteq> []" "b > a" by blast
  then show ?thesis
  proof cases
    case 1
    then have "map_gold U main utts (k, gold) s = (g, cursor)" by (simp add: map_gold_def s)
    then show ?thesis using i by (auto intro!: mapping_invI)
  next
    case 2
    then have step: "map_gold U main utts (k, gold) s = (g, b)" using ab by (simp add: map_gold_def s)
    show ?thesis unfolding step
    proof (rule mapping_invI)
      fix i' m' assume "i' < n" "g ! i' = Some m'"
      with i(4) obtain t where t: "t < cursor" "utts ! t = m'" by blast
      then have "t < b" using bd by linarith
      with t show "\<exists>t < b. utts ! t = m'" by blast
    next
      fix i' j m1 m2 assume "i' < j" "j < n" "g ! i' = Some m1" "g ! j = Some m2"
      then show "m1 \<le> m2" by (rule i(5))
    qed (use i(1,3) bd len in auto)
  next
    case 3
    define m where "m = majority_value (subslice utts a b)"
    have step: "map_gold U main utts (k, gold) s = (g[k := Some m], b)"
      using 3 ab by (simp add: map_gold_def s m_def)
    have "subslice utts a b \<noteq> []" using 3 bd len by (simp add: subslice_def)
    from subslice_mem [OF majority_value_in [OF this]] obtain t where
      t: "a \<le> t" "t < b" "t < length utts" "utts ! t = m" unfolding m_def by blast
    have old: "m' \<le> m" if i': "i' < n" "g ! i' = Some m'" for i' m'
    proof -
      from i(4) [OF i'] obtain t' where t': "t' < cursor" "utts ! t' = m'" by blast
      then have "utts ! t' \<le> utts ! t" using t bd by (intro sorted_nth_mono [OF srt]) simp_all
      with t t' show ?thesis by simp
    qed
    show ?thesis unfolding step
    proof (rule mapping_invI)
      fix i' m' assume a: "i' < n" "g[k := Some m] ! i' = Some m'"
      show "\<exists>t < b. utts ! t = m'"
      proof (cases "i' = k")
        case True
        with a i(1) t show ?thesis by auto
      next
        case False
        with a i(4) [of i' m'] obtain t' where t': "t' < cursor" "utts ! t' = m'" by auto
        then have "t' < b" using bd by linarith
        with t' show ?thesis by blast
      qed
    next
      fix i' j m1 m2
      assume a: "i' < j" "j < n" "g[k := Some m] ! i' = Some m1" "g[k := Some m] ! j = Some m2"
      consider "j = k" | "j < k" | "k < j" by linarith
      then show "m1 \<le> m2"
      proof cases
        case 1
        then have "g ! i' = Some m1" "m2 = m" using a i(1) by auto
        then show ?thesis using old [of i'] a by simp
      next
        case 2
        then show ?thesis using a i(5) [of i' j m1 m2] by simp
      next
        case 3
        then have "g ! j = None" using i(3) [of j] a by simp
        then show ?thesis using a 3 by simp
      qed
    qed (use i(1,3) bd len in auto)
  qed
qed

lemma gold_to_main_inv:
  assumes "length utts = length main" "sorted utts"
  shows "mapping_inv utts (length golds) (length golds)
    (fold (map_gold U main utts) (enumerate 0 golds) (replicate (length golds) None, 0))"
proof -
  have "k \<le> length golds \<Longrightarrow> mapping_inv utts (length golds) k
      (fold (map_gold U main utts) (enumerate 0 (take k golds)) (replicate (length golds) None, 0))" for k
  proof (induction k)
    case 0
    show ?case by (simp add: mapping_inv_def)
  next
    case (Suc k)
    then have "enumerate 0 (take (Suc k) golds) = enumerate 0 (take k golds) @ [(k, golds ! k)]"
      by (simp add: take_Suc_nth enumerate_append_eq)
    with Suc map_gold_inv [OF _ _ assms] show ?case by simp
  qed
  from this [of "length golds"] show ?thesis by simp
qed

section \<open>Properties\<close>

text \<open>The majority value of a non-empty slice is a most frequent value of it, the one seen
  first when several are, and the result does not depend on the order in which the hash map of
  counts is iterated.\<close>

lemma majority_value_correct:
  assumes "xs \<noteq> []" and "set entries = set (maj_counts xs)" and "w \<in> set xs"
  shows "majority_of entries = majority_value xs \<and> majority_value xs \<in> set xs \<and>
    (count_list xs w < count_list xs (majority_value xs) \<or>
     count_list xs w = count_list xs (majority_value xs) \<and>
       first_idx xs (majority_value xs) \<le> first_idx xs w)"
  using majority_of_unique [OF assms(2)] majority_value_spec(1) [OF assms(1)]
    majority_value_spec(2,3) [OF assms(1,3)] by (auto simp: le_less)

lemma majority_value_correct_witness:
  "majority_of [(5, 2, 1), (3, 1, 0)] = majority_value [3, 5, 5] \<and> majority_value [3, 5, 5] \<in> {3, 5}"
  using majority_value_correct [of "[3, 5, 5]" "[(5, 2, 1), (3, 1, 0)]" 3]
  by (simp add: maj_counts_def insert_commute numeral_2_eq_2)

text \<open>The window search returns the best candidate: no projected candidate window that shares
  a token with the gold utterance ranks above the result, by token overlap, then by the matches
  of the alignment, then by its end, then by its start (that is, by less waste).\<close>

lemma find_best_segment_greatest:
  assumes "gold \<noteq> []" "main \<noteq> []" "length gold \<le> 2 ^ 52"
    and "c \<in> set (candidates (length gold) (length main))"
    and "projected main_utts c = (ts, te)" "ts < te" "0 < bow_overlap gold (subslice main ts te)"
  shows "window_key U gold main (ts, te) \<le>
    window_key U gold main (find_best_segment U gold main main_utts)"
  using find_best_segment_key [OF assms(1-3) _ assms(4-7)] by (metis surj_pair)

lemma find_best_segment_greatest_witness:
  "window_key ascii_tables [str ''b''] [str ''a'', str ''b''] (1, 2) \<le>
   window_key ascii_tables [str ''b''] [str ''a'', str ''b'']
     (find_best_segment ascii_tables [str ''b''] [str ''a'', str ''b''] [0, 1])"
proof (rule find_best_segment_greatest [where c = "(1, 2)"])
  have "majority_value [1] = 1" by (simp add: majority_value_def maj_counts_def majority_of_def)
  then show "projected [0, 1] (1, 2) = (1, 2)"
    by (simp add: projected_def subslice_def trim_left.simps trim_right.simps)
  show "0 < bow_overlap [str ''b''] (subslice [str ''a'', str ''b''] 1 2)"
    by (simp add: bow_overlap_def subslice_def)
qed (simp_all add: candidates_def)

text \<open>The window of a gold utterance lies between the cursor and the end of the main tokens,
  so that no slice of the mapping pass is out of bounds and the cursor never moves back.\<close>

lemma gold_window_within:
  assumes "search_start \<le> length main_text"
  shows "case gold_window U main_text main_utts search_start g_text of (abs_start, abs_end) \<Rightarrow>
    search_start \<le> abs_start \<and> abs_start \<le> abs_end \<and> abs_end \<le> length main_text"
  using gold_window_bounds [OF assms] by (auto split: prod.splits)

lemma gold_window_within_witness:
  "case gold_window ascii_tables [str ''a''] [0] 1 [str ''a''] of (abs_start, abs_end) \<Rightarrow>
    1 \<le> abs_start \<and> abs_start \<le> abs_end \<and> abs_end \<le> 1"
  using gold_window_within [of 1 "[str ''a'']" ascii_tables "[0]" "[str ''a'']"] by simp

text \<open>C6: The mapping from gold to main utterances is monotone: when the main tokens are in
  utterance order, a later gold utterance is never mapped to an earlier main utterance, and every
  mapped index is the utterance of some main token.\<close>

theorem gold_to_main_monotone:
  assumes "length main_utts = length main_text" "sorted main_utts"
    and "i < j" "j < length gold_texts"
    and "gold_to_main U main_text main_utts gold_texts ! i = Some m"
    and "gold_to_main U main_text main_utts gold_texts ! j = Some m'"
  shows "m \<le> m' \<and> m \<in> set main_utts \<and> m' \<in> set main_utts"
proof -
  obtain g c where gc: "fold (map_gold U main_text main_utts) (enumerate 0 gold_texts)
      (replicate (length gold_texts) None, 0) = (g, c)" by fastforce
  note inv = mapping_invD [OF gold_to_main_inv [OF assms(1,2), of gold_texts U, unfolded gc]]
  have g: "g ! i = Some m" "g ! j = Some m'" using assms(5,6) gc by (simp_all add: gold_to_main_def)
  have "m \<le> m'" using inv(5) assms(3,4) g by blast
  moreover have "x \<in> set main_utts" if "k < length gold_texts" "g ! k = Some x" for k x
    using inv(4) [OF that] inv(2) by (metis less_le_trans nth_mem)
  ultimately show ?thesis using g assms(3,4) by (meson less_trans)
qed

lemma gold_to_main_monotone_witness:
  "gold_to_main ascii_tables [[97], [98]] [0, 1] [[[97]], [[98]]] = [Some 0, Some 1] \<and> (0 :: nat) \<le> 1"
proof -
  have e: "gold_to_main ascii_tables [[97], [98]] [0, 1] [[[97]], [[98]]] = [Some 0, Some 1]"
    by code_simp
  with gold_to_main_monotone [of "[0, 1]" "[[97], [98]]" 0 1 "[[[97]], [[98]]]" ascii_tables 0 1]
  show ?thesis by simp
qed

end
