(* ===== verification/ChatDoc.thy ===== *)
theory ChatDoc
  imports Prelude
begin

text \<open>
  The shared vocabulary of \<^verbatim>\<open>batchalign-core/src/utils.rs\<close>: the error type, source identifiers,
  the view of a CHAT document that the runners edit (its header and utterance lines), the
  linkage flag of the media header and the provenance stamps with their UTC time.
\<close>

section \<open>Errors\<close>

datatype audio_error = AudioIo rstr | AudioDecode rstr | AudioResample rstr

datatype ba_error =
    ParseError rstr
  | ValidationError rstr
  | SerializeError rstr
  | JsonError rstr
  | WorkerError rstr
  | AudioFailure audio_error
  | Capability (cap_lang: rstr) (cap_engine: rstr)
  | Cancelled
  | InternalError rstr
  | IoError rstr

type_synonym 'a ba_result = "ba_error + 'a"

text \<open>The text of an error, as \<open>Display\<close> renders it (the messages the code stores and compares).\<close>

definition ba_error_message :: "(audio_error \<Rightarrow> rstr) \<Rightarrow> ba_error \<Rightarrow> rstr" where
  "ba_error_message audio e =
     (case e of
        ParseError m \<Rightarrow> str ''CHAT parse error: '' @ m
      | ValidationError m \<Rightarrow> str ''CHAT validation failed: '' @ m
      | SerializeError m \<Rightarrow> str ''CHAT serialize error: '' @ m
      | JsonError m \<Rightarrow> str ''json error: '' @ m
      | WorkerError m \<Rightarrow> str ''worker dispatch failed: '' @ m
      | AudioFailure a \<Rightarrow> str ''audio: '' @ audio a
      | Capability lang engine \<Rightarrow>
          str ''unsupported language/engine combo: '' @ lang @ str '' on '' @ engine
      | Cancelled \<Rightarrow> str ''operation cancelled''
      | InternalError m \<Rightarrow> str ''internal: '' @ m
      | IoError m \<Rightarrow> str ''io: '' @ m)"

section \<open>Source identifiers\<close>

definition source_id_try_new :: "rstr \<Rightarrow> rstr ba_result" where
  "source_id_try_new s =
     (let t = trim s
      in if t = [] then Inl (InternalError (str ''source_id must be non-empty'')) else Inr t)"

section \<open>The lines of a document\<close>

text \<open>
  The document model is a third-party crate; the lines below are the part of it this library reads
  and writes. A comment is kept as the text it serializes to, and headers that no modelled code
  inspects are opaque. The utterance type is left open.
\<close>

datatype media_status = Unlinked | Missing | Notrans

datatype header =
    Utf8Header
  | BeginHeader
  | EndHeader
  | IdHeader rstr
  | BirthHeader rstr
  | BirthplaceHeader rstr
  | L1OfHeader rstr
  | MediaHeader rstr "media_status option"
  | CommentHeader rstr
  | OtherHeader rstr

datatype 'u line = HeaderLine header | UtteranceLine 'u

fun is_utterance :: "'u line \<Rightarrow> bool" where
  "is_utterance (UtteranceLine u) = True"
| "is_utterance (HeaderLine h) = False"

fun utterances :: "'u line list \<Rightarrow> 'u list" where
  "utterances [] = []"
| "utterances (UtteranceLine u # ls) = u # utterances ls"
| "utterances (HeaderLine h # ls) = utterances ls"

text \<open>\<open>position\<close> and \<open>rposition\<close>, and the insertion at an index that \<open>Vec::insert\<close> does.\<close>

fun position :: "('a \<Rightarrow> bool) \<Rightarrow> 'a list \<Rightarrow> nat option" where
  "position p [] = None"
| "position p (x # xs) = (if p x then Some 0 else map_option Suc (position p xs))"

definition rposition :: "('a \<Rightarrow> bool) \<Rightarrow> 'a list \<Rightarrow> nat option" where
  "rposition p xs = map_option (\<lambda>i. length xs - 1 - i) (position p (rev xs))"

definition insert_at :: "nat \<Rightarrow> 'a \<Rightarrow> 'a list \<Rightarrow> 'a list" where
  "insert_at i x xs = take i xs @ x # drop i xs"

lemma position_Some: "position p xs = Some i \<Longrightarrow> i < length xs \<and> p (xs ! i) \<and> (\<forall>j < i. \<not> p (xs ! j))"
proof (induction xs arbitrary: i)
  case (Cons x xs)
  then show ?case
  proof (cases "p x")
    case False
    with Cons.prems obtain k where "position p xs = Some k" "i = Suc k" by auto
    with Cons.IH [of k] False show ?thesis by (auto simp: less_Suc_eq_0_disj)
  qed auto
qed simp

lemma position_None: "position p xs = None \<longleftrightarrow> (\<forall>x \<in> set xs. \<not> p x)"
  by (induction xs) auto

section \<open>The media header\<close>

definition clear_media_unlinked :: "'u line list \<Rightarrow> 'u line list" where
  "clear_media_unlinked lines = map (\<lambda>l.
     case l of HeaderLine (MediaHeader f st) \<Rightarrow>
       if st = Some Unlinked then HeaderLine (MediaHeader f None) else l
     | _ \<Rightarrow> l) lines"

section \<open>Provenance stamps\<close>

text \<open>Howard Hinnant's civil-from-days, on the integers the code computes with.\<close>

definition civil_from_unix_days :: "int \<Rightarrow> int \<times> int \<times> int" where
  "civil_from_unix_days days =
     (let z = days + 719468;
          era = z div 146097;
          doe = z mod 146097;
          yoe = (doe - doe div 1460 + doe div 36524 - doe div 146096) div 365;
          y = yoe + era * 400;
          doy = doe - (365 * yoe + yoe div 4 - yoe div 100);
          mp = (5 * doy + 2) div 153;
          d = doy - (153 * mp + 2) div 5 + 1;
          m = (if mp < 10 then mp + 3 else mp - 9);
          y' = (if m \<le> 2 then y + 1 else y)
      in (y', m, d))"

text \<open>The rendering of the seconds since the epoch (0 when the clock is before it).\<close>

definition current_utc_timestamp :: "nat \<Rightarrow> rstr" where
  "current_utc_timestamp secs =
     (case civil_from_unix_days (int (secs div 86400)) of (y, mo, d) \<Rightarrow>
       (let tod = secs mod 86400;
            h = tod div 3600; mi = (tod mod 3600) div 60; s = tod mod 60
        in pad_zeros 4 (nat y) @ str ''-'' @ pad_zeros 2 (nat mo) @ str ''-'' @ pad_zeros 2 (nat d) @
           str ''T'' @ pad_zeros 2 h @ str '':'' @ pad_zeros 2 mi @ str '':'' @ pad_zeros 2 s @ str ''Z''))"

definition PROVENANCE_PREFIX :: rstr where "PROVENANCE_PREFIX = str ''batchalign ''"

definition stage_marker :: "rstr \<Rightarrow> rstr" where
  "stage_marker stage = str ''| '' @ stage @ str '': ''"

definition provenance_stamp :: "rstr \<Rightarrow> rstr \<Rightarrow> rstr option \<Rightarrow> nat \<Rightarrow> rstr" where
  "provenance_stamp sha stage engine secs =
     PROVENANCE_PREFIX @ sha @ str '' | '' @ stage @ str '': '' @
       (case engine of Some e \<Rightarrow> e | None \<Rightarrow> str ''<unknown>'') @ str '' | '' @ current_utc_timestamp secs"

text \<open>A line that the loop recognizes as the earlier stamp of a stage.\<close>

definition is_stamp_of :: "rstr \<Rightarrow> 'u line \<Rightarrow> bool" where
  "is_stamp_of stage l =
     (case l of HeaderLine (CommentHeader t) \<Rightarrow>
        (starts_with PROVENANCE_PREFIX t \<or> starts_with (str ''batchalign3 '') t) \<and>
        contains (stage_marker stage) t
      | _ \<Rightarrow> False)"

fun is_participant_header :: "'u line \<Rightarrow> bool" where
  "is_participant_header (HeaderLine (IdHeader t)) = True"
| "is_participant_header (HeaderLine (BirthHeader t)) = True"
| "is_participant_header (HeaderLine (BirthplaceHeader t)) = True"
| "is_participant_header (HeaderLine (L1OfHeader t)) = True"
| "is_participant_header _ = False"

definition stamp_position :: "'u line list \<Rightarrow> nat" where
  "stamp_position lines =
     (case rposition is_participant_header lines of
        Some i \<Rightarrow> i + 1
      | None \<Rightarrow>
          (case position is_utterance lines of
             Some i \<Rightarrow> i
           | None \<Rightarrow>
               (case rposition (\<lambda>l. l = HeaderLine EndHeader) lines of
                  Some i \<Rightarrow> i
                | None \<Rightarrow> length lines)))"

text \<open>\<open>sha\<close> is baked in at compile time and \<open>secs\<close> is read from the clock.\<close>

definition stamp_provenance ::
    "rstr \<Rightarrow> nat \<Rightarrow> 'u line list \<Rightarrow> rstr \<Rightarrow> rstr option \<Rightarrow> 'u line list" where
  "stamp_provenance sha secs lines stage engine =
     (let stamp = HeaderLine (CommentHeader (provenance_stamp sha stage engine secs))
      in case position (is_stamp_of stage) lines of
           Some i \<Rightarrow> lines[i := stamp]
         | None \<Rightarrow> insert_at (stamp_position lines) stamp lines)"

section \<open>Stamping twice\<close>

lemma stamp_recognized:
  "is_stamp_of stage (HeaderLine (CommentHeader (provenance_stamp sha stage engine secs)))"
proof -
  let ?s = "provenance_stamp sha stage engine secs"
  have "starts_with PROVENANCE_PREFIX ?s"
    by (auto simp: provenance_stamp_def starts_with_append)
  moreover have "?s = (PROVENANCE_PREFIX @ sha @ str '' '') @ stage_marker stage @
      ((case engine of Some e \<Rightarrow> e | None \<Rightarrow> str ''<unknown>'') @ str '' | '' @ current_utc_timestamp secs)"
    by (simp add: provenance_stamp_def stage_marker_def str_def)
  then have "contains (stage_marker stage) ?s" by (metis contains_middle)
  ultimately show ?thesis by (simp add: is_stamp_of_def)
qed

lemma stamp_utterance: "is_stamp_of stage (UtteranceLine u) = False"
  by (simp add: is_stamp_of_def)

lemma utterances_append [simp]: "utterances (xs @ ys) = utterances xs @ utterances ys"
  by (induction xs rule: utterances.induct) auto

lemma length_insert_at [simp]: "length (insert_at i x xs) = Suc (length xs)"
  by (simp add: insert_at_def)

lemma utterances_insert_header [simp]: "utterances (insert_at i (HeaderLine h) ls) = utterances ls"
  using utterances_append [of "take i ls" "drop i ls"] by (simp add: insert_at_def)

lemma utterances_update_header:
  "i < length ls \<Longrightarrow> \<not> is_utterance (ls ! i) \<Longrightarrow> utterances (ls[i := HeaderLine h]) = utterances ls"
proof (induction ls arbitrary: i rule: utterances.induct)
  case (2 u ls)
  then show ?case by (cases i) auto
next
  case (3 h' ls)
  then show ?case by (cases i) auto
qed simp

lemma count_stamps_insert:
  "length (filter p (insert_at i x xs)) = length (filter p xs) + (if p x then 1 else 0)"
proof -
  have "length (filter p xs) = length (filter p (take i xs)) + length (filter p (drop i xs))"
    by (metis append_take_drop_id filter_append length_append)
  then show ?thesis by (simp add: insert_at_def)
qed

lemma count_stamps_update:
  "i < length xs \<Longrightarrow> p (xs ! i) \<Longrightarrow> p x \<Longrightarrow> length (filter p (xs[i := x])) = length (filter p xs)"
proof (induction xs arbitrary: i)
  case (Cons y xs)
  then show ?case by (cases i) auto
qed simp

section \<open>The calendar\<close>

text \<open>
  The proleptic Gregorian calendar, stated independently: the number of days before a date counted
  from 1970-01-01, and the lengths of the months.
\<close>

definition leap_year :: "int \<Rightarrow> bool" where
  "leap_year y \<longleftrightarrow> 4 dvd y \<and> (\<not> 100 dvd y \<or> 400 dvd y)"

definition days_in_month :: "int \<Rightarrow> int \<Rightarrow> int" where
  "days_in_month y m =
     (if m = 2 then (if leap_year y then 29 else 28)
      else if m = 4 \<or> m = 6 \<or> m = 9 \<or> m = 11 then 30 else 31)"

definition days_from_civil :: "int \<Rightarrow> int \<Rightarrow> int \<Rightarrow> int" where
  "days_from_civil y m d =
     (let y' = (if m \<le> 2 then y - 1 else y); mp = (m + 9) mod 12
      in 365 * y' + y' div 4 - y' div 100 + y' div 400 + (153 * mp + 2) div 5 + d - 1 - 719468)"

lemma day_of_era_cases:
  assumes "0 \<le> (e :: int)" "e < 146097"
  obtains c a b t where "0 \<le> c" "c \<le> 3" "0 \<le> a" "a \<le> 24" "0 \<le> b" "b \<le> 3" "0 \<le> t" "t \<le> 365"
    "e = 36524 * c + 1461 * a + 365 * b + t" "t = 365 \<longrightarrow> b = 3 \<and> (a < 24 \<or> c = 3)"
proof -
  define c where "c = (if e = 146096 then 3 else e div 36524)"
  define r where "r = e - 36524 * c"
  define a where "a = r div 1461"
  define s where "s = r - 1461 * a"
  define b where "b = (if s = 1460 then 3 else s div 365)"
  define t where "t = s - 365 * b"
  have c: "0 \<le> c" "c \<le> 3" using assms by (auto simp: c_def)
  have r: "0 \<le> r \<and> r \<le> 36524 \<and> (r = 36524 \<longrightarrow> c = 3)"
  proof (cases "e = 146096")
    case True
    then show ?thesis by (simp add: r_def c_def)
  next
    case False
    then have "r = e mod 36524" by (simp add: r_def c_def minus_mult_div_eq_mod)
    moreover have "0 \<le> e mod 36524" "e mod 36524 < 36524" by simp_all
    ultimately show ?thesis by linarith
  qed
  have a: "0 \<le> a" "a \<le> 24" using r unfolding a_def by linarith+
  have "s = r mod 1461" by (simp add: s_def a_def minus_mult_div_eq_mod)
  moreover have "0 \<le> r mod 1461" "r mod 1461 < 1461" by simp_all
  ultimately have s: "0 \<le> s" "s \<le> 1460" by linarith+
  have b: "0 \<le> b" "b \<le> 3" using s by (auto simp: b_def)
  have t: "0 \<le> t \<and> t \<le> 365 \<and> (t = 365 \<longrightarrow> s = 1460)"
  proof (cases "s = 1460")
    case True
    then show ?thesis by (simp add: t_def b_def)
  next
    case False
    then have "t = s mod 365" by (simp add: t_def b_def minus_mult_div_eq_mod)
    moreover have "0 \<le> s mod 365" "s mod 365 < 365" by simp_all
    ultimately show ?thesis by linarith
  qed
  have "e = 36524 * c + 1461 * a + 365 * b + t" by (simp add: r_def s_def t_def)
  moreover have "t = 365 \<longrightarrow> b = 3 \<and> (a < 24 \<or> c = 3)"
    using t a r by (auto simp: b_def s_def)
  ultimately show thesis using that [of c a b t] c a b t by blast
qed

lemma year_of_era:
  fixes e c a b t :: int
  assumes "0 \<le> c" "c \<le> 3" "0 \<le> a" "a \<le> 24" "0 \<le> b" "b \<le> 3" "0 \<le> t" "t \<le> 365"
    and e: "e = 36524 * c + 1461 * a + 365 * b + t" and t: "t = 365 \<longrightarrow> b = 3 \<and> (a < 24 \<or> c = 3)"
  shows "(e - e div 1460 + e div 36524 - e div 146096) div 365 = 100 * c + 4 * a + b"
proof -
  define u where "u = 24 * c + a + 365 * b + t"
  define x where "x = (if u \<ge> 1460 then 1 else 0 :: int)"
  have u: "0 \<le> u" "u < 2920" "e = 1460 * (25 * c + a) + u" using assms by (simp_all add: u_def)
  have q1: "e div 1460 = 25 * c + a + x"
  proof (rule int_div_pos_eq [where r = "u - 1460 * x"])
    show "e = 1460 * (25 * c + a + x) + (u - 1460 * x)" using u by simp
  qed (use u in \<open>auto simp: x_def\<close>)
  have q23: "e div 36524 - e div 146096 = c"
  proof (cases "e = 146096")
    case True
    then have "c = 3" using assms by linarith
    with True show ?thesis by simp
  next
    case False
    have "1461 * a + 365 * b + t < 36524"
    proof (rule ccontr)
      assume "\<not> 1461 * a + 365 * b + t < 36524"
      with assms have "a = 24" "b = 3" "t = 365" by linarith+
      with t e False show False by simp
    qed
    then have "e div 36524 = c"
      using assms by (intro int_div_pos_eq [where r = "1461 * a + 365 * b + t"]) simp_all
    moreover have "e < 146096" using assms False by linarith
    then have "e div 146096 = 0" using assms by (intro div_pos_pos_trivial) simp_all
    ultimately show ?thesis by simp
  qed
  have "0 \<le> t - x" using assms by (auto simp: x_def u_def)
  moreover have "t - x < 365"
  proof (cases "t = 365")
    case True
    then show ?thesis using assms by (auto simp: x_def u_def)
  next
    case False
    then show ?thesis using assms by (auto simp: x_def)
  qed
  ultimately show ?thesis
    using q1 q23 e by (intro int_div_pos_eq [where r = "t - x"]) simp_all
qed

lemma civil_from_unix_days_calendar:
  assumes "civil_from_unix_days days = (y, m, d)"
  shows "days_from_civil y m d = days \<and> 1 \<le> m \<and> m \<le> 12 \<and> 1 \<le> d \<and> d \<le> days_in_month y m"
proof -
  define z era e where "z = days + 719468" and "era = z div 146097" and "e = z mod 146097"
  have e: "0 \<le> e" "e < 146097" and z: "z = 146097 * era + e" by (simp_all add: e_def era_def)
  obtain c a b t where
    dec: "0 \<le> c" "c \<le> 3" "0 \<le> a" "a \<le> 24" "0 \<le> b" "b \<le> 3" "0 \<le> t" "t \<le> 365"
    "e = 36524 * c + 1461 * a + 365 * b + t" "t = 365 \<longrightarrow> b = 3 \<and> (a < 24 \<or> c = 3)"
    by (rule day_of_era_cases [OF e])
  define yoe where "yoe = 100 * c + 4 * a + b"
  note yoe = year_of_era [OF dec, folded yoe_def]
  have y4: "yoe div 4 = 25 * c + a" using dec by (intro int_div_pos_eq [where r = b]) (simp_all add: yoe_def)
  have y100: "yoe div 100 = c" using dec by (intro int_div_pos_eq [where r = "4 * a + b"]) (simp_all add: yoe_def)
  have doy: "e - (365 * yoe + yoe div 4 - yoe div 100) = t"
    unfolding y4 y100 using dec by (simp add: yoe_def)
  define mp where "mp = (5 * t + 2) div 153"
  define Y where "Y = yoe + era * 400"
  have civil: "d = t - (153 * mp + 2) div 5 + 1" "m = (if mp < 10 then mp + 3 else mp - 9)"
    "y = (if m \<le> 2 then Y + 1 else Y)"
  proof -
    have "civil_from_unix_days days =
        (if (if mp < 10 then mp + 3 else mp - 9) \<le> 2 then Y + 1 else Y,
         if mp < 10 then mp + 3 else mp - 9, t - (153 * mp + 2) div 5 + 1)"
      unfolding civil_from_unix_days_def Let_def z_def [symmetric] era_def [symmetric]
        e_def [symmetric] yoe doy mp_def [symmetric] Y_def [symmetric] by (rule refl)
    with assms show "d = t - (153 * mp + 2) div 5 + 1" "m = (if mp < 10 then mp + 3 else mp - 9)"
      "y = (if m \<le> 2 then Y + 1 else Y)" by auto
  qed
  have mp: "0 \<le> mp" "mp \<le> 11" using dec unfolding mp_def by linarith+
  have Y: "(if m \<le> 2 then y - 1 else y) = Y" "(m + 9) mod 12 = mp"
    using civil mp by auto
  have Yd: "Y div 4 = 25 * c + a + era * 100" "Y div 100 = c + era * 4" "Y div 400 = era"
    using dec by (auto simp: Y_def yoe_def intro!: int_div_pos_eq [where r = b]
        int_div_pos_eq [where r = "4 * a + b"] int_div_pos_eq [where r = "100 * c + 4 * a + b"])
  have "days_from_civil y m d = 365 * Y + Y div 4 - Y div 100 + Y div 400 + (153 * mp + 2) div 5 + d - 1 - 719468"
    using Y by (simp add: days_from_civil_def Let_def)
  also have "\<dots> = days"
    unfolding Yd civil(1) using dec z by (simp add: Y_def yoe_def z_def)
  finally have 1: "days_from_civil y m d = days" .
  have leap: "leap_year (Y + 1)" if "t = 365"
  proof -
    from that dec(10) have b: "b = 3" "a < 24 \<or> c = 3" by simp_all
    then have "Y + 1 = 4 * (100 * era + 25 * c + a + 1)" by (simp add: Y_def yoe_def)
    then have four: "4 dvd Y + 1" by (metis dvd_triv_left)
    show ?thesis
    proof (cases "a < 24")
      case True
      have "Y + 1 = 100 * (4 * era + c) + 4 * (a + 1)" using b by (simp add: Y_def yoe_def)
      moreover have "(100 * (4 * era + c) + 4 * (a + 1)) mod 100 = 4 * (a + 1)"
        using True dec by (intro int_mod_pos_eq [where q = "4 * era + c"]) simp_all
      ultimately have m: "(Y + 1) mod 100 = 4 * (a + 1)" by (simp only:)
      have "\<not> 100 dvd Y + 1"
      proof
        assume "100 dvd Y + 1"
        then have "(Y + 1) mod 100 = 0" by (rule dvd_imp_mod_0)
        with m have "4 * (a + 1) = 0" by (simp only:)
        with dec(3) show False by auto
      qed
      with four show ?thesis by (simp add: leap_year_def)
    next
      case False
      then have "Y + 1 = 400 * (era + 1)" using b dec by (simp add: Y_def yoe_def)
      then have "400 dvd Y + 1" by (metis dvd_triv_left)
      with four show ?thesis by (simp add: leap_year_def)
    qed
  qed
  have leap': "t \<le> 364 \<or> t = 365 \<and> leap_year (Y + 1)" using leap dec(8) by linarith
  have tb: "153 * mp \<le> 5 * t + 2" "5 * t + 2 < 153 * mp + 153" unfolding mp_def by presburger+
  have "mp = 0 \<or> mp = 1 \<or> mp = 2 \<or> mp = 3 \<or> mp = 4 \<or> mp = 5 \<or> mp = 6 \<or> mp = 7 \<or> mp = 8 \<or>
      mp = 9 \<or> mp = 10 \<or> mp = 11" using mp by presburger
  then have "1 \<le> m \<and> m \<le> 12 \<and> 1 \<le> d \<and> d \<le> days_in_month y m"
    using civil tb dec(7) leap' by (elim disjE) (auto simp: days_in_month_def)
  with 1 show ?thesis by simp
qed

section \<open>Properties\<close>

lemma stamp_counts:
  "length (filter (is_stamp_of stage) (stamp_provenance sha secs lines stage engine)) =
     max 1 (length (filter (is_stamp_of stage) lines)) \<and>
   utterances (stamp_provenance sha secs lines stage engine) = utterances lines"
proof (cases "position (is_stamp_of stage) lines")
  case None
  then have "filter (is_stamp_of stage) lines = []"
    by (simp add: position_None filter_empty_conv)
  with None show ?thesis
    by (simp add: stamp_provenance_def Let_def count_stamps_insert stamp_recognized)
next
  case (Some i)
  note i = position_Some [OF Some]
  then have "0 < length (filter (is_stamp_of stage) lines)"
    by (metis filter_empty_conv length_greater_0_conv nth_mem)
  then have "max 1 (length (filter (is_stamp_of stage) lines)) = length (filter (is_stamp_of stage) lines)"
    by linarith
  moreover have "\<not> is_utterance (lines ! i)"
    using i by (cases "lines ! i") (auto simp: stamp_utterance)
  ultimately show ?thesis
    using i Some
    by (simp add: stamp_provenance_def Let_def count_stamps_update stamp_recognized utterances_update_header)
qed

text \<open>A stamp is recorded once: afterwards the document has exactly one stamp of the stage if it
  had none or one before (and never more than before otherwise), and the utterances are untouched.\<close>

lemma stamp_provenance_once:
  "length (filter (is_stamp_of stage) (stamp_provenance sha secs lines stage engine)) =
     max 1 (length (filter (is_stamp_of stage) lines)) \<and>
   utterances (stamp_provenance sha secs lines stage engine) = utterances lines"
  by (rule stamp_counts)

text \<open>Re-running a stage does not add a line: a second stamp of the same stage, with whatever
  engine and time, leaves the number of lines as it is.\<close>

lemma stamp_provenance_rerun:
  "length (stamp_provenance sha' secs' (stamp_provenance sha secs lines stage engine) stage engine') =
     length (stamp_provenance sha secs lines stage engine)"
proof -
  let ?ls = "stamp_provenance sha secs lines stage engine"
  have "0 < length (filter (is_stamp_of stage) ?ls)"
    using stamp_counts [of stage sha secs lines engine] by simp
  then have "position (is_stamp_of stage) ?ls \<noteq> None"
    by (auto simp: position_None filter_empty_conv)
  then show ?thesis by (auto simp: stamp_provenance_def [of sha' secs' ?ls] Let_def)
qed

text \<open>The date of a stamp is right: for every day number, \<open>civil_from_unix_days\<close> yields a date
  of the Gregorian calendar (a month from 1 to 12 and a day within that month, leap years
  included) and that date is exactly the given number of days from 1970-01-01.\<close>

lemma civil_from_unix_days_correct:
  "case civil_from_unix_days days of (y, m, d) \<Rightarrow>
     days_from_civil y m d = days \<and> 1 \<le> m \<and> m \<le> 12 \<and> 1 \<le> d \<and> d \<le> days_in_month y m"
  using civil_from_unix_days_calendar [of days] by (auto split: prod.splits)

end
