(* ===== verification/SortedMap.thy ===== *)
theory SortedMap
  imports Prelude "HOL-Library.List_Lexorder"
begin

text \<open>
  \<open>BTreeMap\<close> as the list of its entries in key order, with the one operation the code uses:
  \<open>entry(k)\<close> followed by an update or an insertion. Strings compare by their characters, as
  \<open>String\<close> does (the byte order of UTF-8 is the order of the scalar values).
\<close>

fun bt_update :: "'k::linorder \<Rightarrow> ('v option \<Rightarrow> 'v) \<Rightarrow> ('k \<times> 'v) list \<Rightarrow> ('k \<times> 'v) list" where
  "bt_update k f [] = [(k, f None)]"
| "bt_update k f ((k', v) # m) =
     (if k = k' then (k', f (Some v)) # m
      else if k < k' then (k, f None) # (k', v) # m
      else (k', v) # bt_update k f m)"

lemma bt_update_keys: "set (map fst (bt_update k f m)) = insert k (set (map fst m))"
  by (induction k f m rule: bt_update.induct) auto

lemma bt_update_sorted:
  "sorted_wrt (<) (map fst m) \<Longrightarrow> sorted_wrt (<) (map fst (bt_update k f m))"
proof (induction k f m rule: bt_update.induct)
  case (2 k f k' v m)
  have "fst ` set (bt_update k f m) = insert k (fst ` set m)" using bt_update_keys [of k f m] by simp
  with 2 show ?case by auto
qed simp

lemma map_of_bt_update:
  "sorted_wrt (<) (map fst m) \<Longrightarrow> map_of (bt_update k f m) = (map_of m)(k \<mapsto> f (map_of m k))"
proof (induction k f m rule: bt_update.induct)
  case (2 k f k' v m)
  have none: "k < k' \<Longrightarrow> map_of m k = None"
    using "2.prems" by (auto simp: map_of_eq_None_iff)
  show ?case
  proof (cases "k = k'")
    case True
    then show ?thesis by auto
  next
    case False
    with 2 none show ?thesis by (auto simp: fun_upd_twist)
  qed
qed simp

lemma sorted_map_distinct: "sorted_wrt (<) (map fst (m :: ('k::linorder \<times> 'v) list)) \<Longrightarrow> distinct (map fst m)"
  using strict_sorted_iff by blast

end
