(* ===== verification/CompareReport.thy ===== *)
theory CompareReport
  imports CompareWindows ChatDoc SortedMap
begin

text \<open>
  \<^verbatim>\<open>batchalign-core/src/backends/compare.rs\<close>, the rest of the Compare backend: token extraction
  and conforming, the two phases put together, the per-utterance and summary counts, the per-POS
  metrics, the serialized tiers and their injection into the document.
\<close>

section \<open>Token extraction\<close>

text \<open>
  What the code reads of an utterance: the items that \<open>walk_words\<close> visits (a word by its cleaned
  text; a replaced word by the texts of its replacement and its own), the terminator, the written
  content of the typed \<open>%mor\<close> tier, and the user-defined tiers it reads and appends to.
\<close>

datatype word_item =
    Word rstr
  | ReplacedWord "rstr list" rstr
  | Separator

datatype terminator =
    Period | Question | Exclamation | TrailingOff | Interruption | SelfInterruption | OtherTerminator

record cmp_utterance =
  cu_items :: "word_item list"
  cu_terminator :: "terminator option"
  cu_mor :: "rstr option"
  cu_tiers :: "(rstr \<times> rstr option) list"

record src_word =
  sw_utt_idx :: nat
  sw_text :: rstr
  sw_pos :: rstr

record conformed_tok =
  ct_text :: rstr
  ct_src_idx :: nat

definition gold_terminator :: "cmp_utterance \<Rightarrow> rstr option" where
  "gold_terminator u =
     (case cu_terminator u of
        Some Period \<Rightarrow> Some (str ''.'')
      | Some Question \<Rightarrow> Some (str ''?'')
      | Some Exclamation \<Rightarrow> Some (str ''!'')
      | Some TrailingOff \<Rightarrow> Some (str ''+...'')
      | Some Interruption \<Rightarrow> Some (str ''+/.'')
      | Some SelfInterruption \<Rightarrow> Some (str ''+//.'')
      | _ \<Rightarrow> None)"

definition extract_gold_terminators :: "cmp_utterance line list \<Rightarrow> rstr option list" where
  "extract_gold_terminators ast = map gold_terminator (utterances ast)"

fun raw_word :: "word_item \<Rightarrow> rstr list" where
  "raw_word (Word w) = [w]"
| "raw_word (ReplacedWord rs w) =
     (let r = (case rs of [] \<Rightarrow> [] | x # _ \<Rightarrow> x) in [if r = [] then w else r])"
| "raw_word Separator = []"

definition to_uppercase :: "unicode \<Rightarrow> rstr \<Rightarrow> rstr" where
  "to_uppercase U s = concat (map (to_uppercase_char U) s)"

definition utterance_pos_by_index :: "unicode \<Rightarrow> cmp_utterance \<Rightarrow> rstr list option" where
  "utterance_pos_by_index U u =
     (let content = (case cu_mor u of
            Some c \<Rightarrow> Some c
          | None \<Rightarrow>
              (case filter (\<lambda>(label, c). label = str ''mor'' \<and> c \<noteq> None) (cu_tiers u) of
                 [] \<Rightarrow> None | (_, c) # _ \<Rightarrow> c))
      in map_option (\<lambda>c.
           map (\<lambda>entry. to_uppercase U (hd (split_char 124 entry)))
             (filter (\<lambda>entry. \<not> list_all (\<lambda>ch. ch = 46 \<or> ch = 63 \<or> ch = 33) entry) (split_whitespace c)))
         content)"

definition is_filler :: "unicode \<Rightarrow> rstr \<Rightarrow> bool" where
  "is_filler U s \<longleftrightarrow> to_lowercase U s \<in>
     set [str ''um'', str ''uhm'', str ''em'', str ''mhm'', str ''uhhm'', str ''eh'', str ''uh'', str ''hm'']"

definition utterance_words :: "unicode \<Rightarrow> nat \<Rightarrow> cmp_utterance \<Rightarrow> src_word list" where
  "utterance_words U utt_idx u =
     (let raw_words = concat (map raw_word (cu_items u));
          mor_pos = utterance_pos_by_index U u
      in concat (map (\<lambda>(idx, raw).
           (let trimmed = trim raw
            in if trimmed = [] \<or> is_filler U trimmed then []
               else [\<lparr>sw_utt_idx = utt_idx, sw_text = trimmed,
                      sw_pos = (case mor_pos of None \<Rightarrow> str ''?''
                        | Some v \<Rightarrow> if idx < length v then v ! idx else str ''?'')\<rparr>]))
         (enumerate 0 raw_words)))"

definition extract_words :: "unicode \<Rightarrow> cmp_utterance line list \<Rightarrow> src_word list" where
  "extract_words U ast = concat (map (\<lambda>(i, u). utterance_words U i u) (enumerate 0 (utterances ast)))"

section \<open>Conforming\<close>

definition apos_variants :: "(rstr \<times> rstr) list" where
  "apos_variants =
     [([39] @ str ''s'', str ''is''), (8217 # str ''s'', str ''is''),
      ([39] @ str ''ve'', str ''have''), (8217 # str ''ve'', str ''have''),
      ([39] @ str ''d'', str ''had''), (8217 # str ''d'', str ''had''),
      ([39] @ str ''m'', str ''am''), (8217 # str ''m'', str ''am'')]"

fun strip_contraction :: "rstr \<Rightarrow> (rstr \<times> rstr) list \<Rightarrow> rstr list option" where
  "strip_contraction lower [] = None"
| "strip_contraction lower ((suffix, expansion) # vs) =
     (case strip_suffix suffix lower of
        Some stem \<Rightarrow> if stem \<noteq> [] then Some [stem, expansion] else strip_contraction lower vs
      | None \<Rightarrow> strip_contraction lower vs)"

definition conform_table :: "(rstr \<times> rstr list) list" where
  "conform_table =
     [(str ''ok'', [str ''okay'']), (str ''gimme'', [str ''give'', str ''me'']),
      (str ''hafta'', [str ''have'', str ''to'']), (str ''havta'', [str ''have'', str ''to'']),
      (str ''hadta'', [str ''had'', str ''to'']),
      (str ''dunno'', [str ''don'' @ [39] @ str ''t'', str ''know'']),
      (str ''wanna'', [str ''want'', str ''to'']), (str ''gonna'', [str ''going'', str ''to'']),
      (str ''gotta'', [str ''got'', str ''to'']), (str ''kinda'', [str ''kind'', str ''of'']),
      (str ''sorta'', [str ''sort'', str ''of'']), (str ''lemme'', [str ''let'', str ''me'']),
      (str ''outta'', [str ''out'', str ''of'']), (str ''shoulda'', [str ''should'', str ''have'']),
      (str ''sposta'', [str ''supposed'', str ''to'']),
      (str ''alright'', [str ''all'', str ''right'']), (str ''alrightie'', [str ''all'', str ''right'']),
      (str ''this'' @ [39] @ str ''ll'', [str ''this'', str ''will'']),
      (str ''this'' @ [8217] @ str ''ll'', [str ''this'', str ''will'']),
      (str ''i'' @ [39] @ str ''d'', [str ''i'', str ''had'']),
      (str ''i'' @ [8217] @ str ''d'', [str ''i'', str ''had'']),
      (str ''farmhouse'', [str ''farm'', str ''house'']), (str ''til'', [str ''until'']),
      (str ''ed'', [str ''education'']), (str ''mm'', [str ''hm'']), (str ''hmm'', [str ''hm'']),
      (str ''eh'', [str ''uh'']), (str ''em'', [str ''them'']),
      (str ''mba'', [str ''m'', str ''b'', str ''a'']), (str ''tli'', [str ''t'', str ''l'', str ''i'']),
      (str ''bbc'', [str ''b'', str ''b'', str ''c'']), (str ''ai'', [str ''a'', str ''i'']),
      (str ''ii'', [str ''i'', str ''i'']), (str ''aa'', [str ''a'', str ''a''])]"

definition conform_one :: "unicode \<Rightarrow> rstr \<Rightarrow> rstr list" where
  "conform_one U word =
     (let lower = to_lowercase U (trim word)
      in if lower = [] then []
         else (case strip_contraction lower apos_variants of
             Some ws \<Rightarrow> ws
           | None \<Rightarrow>
               (case map_of conform_table lower of
                  Some ws \<Rightarrow> ws
                | None \<Rightarrow>
                    if 45 \<in> set lower then filter (\<lambda>s. s \<noteq> []) (map trim (split_char 45 lower))
                    else if 95 \<in> set lower then filter (\<lambda>s. s \<noteq> []) (map trim (split_char 95 lower))
                    else [lower])))"

definition conform_with_mapping :: "unicode \<Rightarrow> src_word list \<Rightarrow> conformed_tok list" where
  "conform_with_mapping U words =
     concat (map (\<lambda>(idx, w). map (\<lambda>tok. \<lparr>ct_text = tok, ct_src_idx = idx\<rparr>) (conform_one U (sw_text w)))
       (enumerate 0 words))"

section \<open>Counting one utterance\<close>

datatype tok_status = TokMatch | ExtraMain | ExtraGold

datatype tok_pos = Tag rstr | Punct

fun tok_pos_as_str :: "tok_pos \<Rightarrow> rstr" where
  "tok_pos_as_str (Tag s) = s"
| "tok_pos_as_str Punct = str ''PUNCT''"

type_synonym cmp_token = "rstr \<times> tok_status \<times> tok_pos"

record utt_cmp =
  uc_tokens :: "cmp_token list"
  uc_matches :: nat
  uc_inserts :: nat
  uc_deletes :: nat
  uc_main_utt_idx :: "nat option"

definition default_utt_cmp :: utt_cmp where
  "default_utt_cmp =
     \<lparr>uc_tokens = [], uc_matches = 0, uc_inserts = 0, uc_deletes = 0, uc_main_utt_idx = None\<rparr>"

definition total_gold :: "utt_cmp \<Rightarrow> nat" where
  "total_gold u = uc_matches u + uc_deletes u"

definition cmp_edit_distance :: "utt_cmp \<Rightarrow> nat" where
  "cmp_edit_distance u = uc_inserts u + uc_deletes u"

definition swap_remove :: "nat \<Rightarrow> 'a list \<Rightarrow> 'a list" where
  "swap_remove idx xs = butlast (xs[idx := last xs])"

fun cwer_loop :: "unicode \<Rightarrow> cmp_token list \<Rightarrow> rstr list \<Rightarrow> nat \<Rightarrow> nat \<times> rstr list" where
  "cwer_loop U [] unmatched_gold unmatched_main = (unmatched_main, unmatched_gold)"
| "cwer_loop U ((text, status, pos) # ts) unmatched_gold unmatched_main =
     (if status \<noteq> ExtraMain \<or> pos = Punct then cwer_loop U ts unmatched_gold unmatched_main
      else (case position (\<lambda>gold. match_fn U text gold) unmatched_gold of
          Some idx \<Rightarrow> cwer_loop U ts (swap_remove idx unmatched_gold) unmatched_main
        | None \<Rightarrow> cwer_loop U ts unmatched_gold (unmatched_main + 1)))"

definition cwer_edit_distance :: "unicode \<Rightarrow> utt_cmp \<Rightarrow> nat" where
  "cwer_edit_distance U u =
     (let unmatched_gold = map fst (filter (\<lambda>(text, status, pos). status = ExtraGold \<and> pos \<noteq> Punct) (uc_tokens u))
      in case cwer_loop U (uc_tokens u) unmatched_gold 0 of (m, g) \<Rightarrow> m + length g)"

fun add_item ::
    "rstr list \<Rightarrow> rstr list \<Rightarrow> rstr list \<Rightarrow> rstr list \<Rightarrow> align_item \<Rightarrow> utt_cmp \<Rightarrow> utt_cmp" where
  "add_item main main_pos gold gold_pos (ItemMatch i j) out =
     out\<lparr>uc_tokens := uc_tokens out @ [(gold ! j, TokMatch, Tag (gold_pos ! j))],
         uc_matches := uc_matches out + 1\<rparr>"
| "add_item main main_pos gold gold_pos (ItemInsert i) out =
     out\<lparr>uc_tokens := uc_tokens out @ [(main ! i, ExtraMain, Tag (main_pos ! i))],
         uc_inserts := uc_inserts out + 1\<rparr>"
| "add_item main main_pos gold gold_pos (ItemDelete j) out =
     out\<lparr>uc_tokens := uc_tokens out @ [(gold ! j, ExtraGold, Tag (gold_pos ! j))],
         uc_deletes := uc_deletes out + 1\<rparr>"

definition build_utt_cmp ::
    "align_item list \<Rightarrow> rstr list \<Rightarrow> rstr list \<Rightarrow> rstr list \<Rightarrow> rstr list \<Rightarrow> utt_cmp" where
  "build_utt_cmp items main main_pos gold gold_pos =
     fold (add_item main main_pos gold gold_pos) items default_utt_cmp"

section \<open>The two phases\<close>

definition place_gold :: "src_word list \<Rightarrow> conformed_tok \<Rightarrow> conformed_tok list list \<Rightarrow> conformed_tok list list" where
  "place_gold gold_words tok by_utt =
     (let utt = sw_utt_idx (gold_words ! ct_src_idx tok)
      in if utt < length by_utt then by_utt[utt := by_utt ! utt @ [tok]] else by_utt)"

definition gold_tokens_by_utt :: "unicode \<Rightarrow> src_word list \<Rightarrow> nat \<Rightarrow> conformed_tok list list" where
  "gold_tokens_by_utt U gold_words gold_utt_count =
     fold (place_gold gold_words)
      (conform_with_mapping U gold_words) (replicate gold_utt_count [])"

definition group_by_main :: "nat option list \<Rightarrow> (nat \<times> nat list) list" where
  "group_by_main g2m =
     fold (\<lambda>(gi, m_opt) by_main.
        case m_opt of
          None \<Rightarrow> by_main
        | Some m \<Rightarrow> bt_update m (\<lambda>v. (case v of None \<Rightarrow> [] | Some gis \<Rightarrow> gis) @ [gi]) by_main)
      (enumerate 0 g2m) []"

text \<open>The body of the second phase for one main utterance and the gold utterances mapped to it.\<close>

definition stitch_utt ::
    "unicode \<Rightarrow> src_word list \<Rightarrow> src_word list \<Rightarrow> rstr option list \<Rightarrow> conformed_tok list list \<Rightarrow>
     nat \<times> nat list \<Rightarrow> utt_cmp" where
  "stitch_utt U main_words gold_words gold_terminators gold_by_utt = (\<lambda>(main_idx, gold_idxs).
     let main_tk = filter (\<lambda>t. sw_utt_idx (main_words ! ct_src_idx t) = main_idx) (conform_with_mapping U main_words);
         gold_tk = concat (map (\<lambda>gi. gold_by_utt ! gi) gold_idxs);
         main_toks = map ct_text main_tk;
         main_pos_v = map (\<lambda>t. sw_pos (main_words ! ct_src_idx t)) main_tk;
         gold_toks = map ct_text gold_tk;
         gold_pos_v = map (\<lambda>t. sw_pos (gold_words ! ct_src_idx t)) gold_tk;
         cmp = build_utt_cmp (levenshtein_align U main_toks gold_toks) main_toks main_pos_v gold_toks gold_pos_v;
         cmp = cmp\<lparr>uc_main_utt_idx := Some main_idx\<rparr>
     in if gold_idxs = [] then cmp
        else (let last_gi = last gold_idxs
              in if last_gi < length gold_terminators
                 then (case gold_terminators ! last_gi of
                     Some term \<Rightarrow> cmp\<lparr>uc_tokens := uc_tokens cmp @ [(term, TokMatch, Punct)]\<rparr>
                   | None \<Rightarrow> cmp)
                 else cmp))"

definition compare_utts ::
    "unicode \<Rightarrow> src_word list \<Rightarrow> src_word list \<Rightarrow> rstr option list \<Rightarrow> nat \<Rightarrow> utt_cmp list" where
  "compare_utts U main_words gold_words gold_terminators gold_utt_count =
     (let main_conformed = conform_with_mapping U main_words;
          main_utts = map (\<lambda>t. sw_utt_idx (main_words ! ct_src_idx t)) main_conformed;
          gold_by_utt = gold_tokens_by_utt U gold_words gold_utt_count;
          g2m = gold_to_main U (map ct_text main_conformed) main_utts (map (map ct_text) gold_by_utt)
      in map (stitch_utt U main_words gold_words gold_terminators gold_by_utt) (group_by_main g2m))"

section \<open>Summary and metrics\<close>

record summary =
  s_matches :: nat
  s_insertions :: nat
  s_deletions :: nat
  s_total_gold_words :: nat
  s_total_main_words :: nat
  s_wer :: rat
  s_cwer :: rat
  s_accuracy :: rat

definition summarize :: "unicode \<Rightarrow> utt_cmp list \<Rightarrow> summary" where
  "summarize U per =
     (let m = sum_list (map uc_matches per); i = sum_list (map uc_inserts per);
          d = sum_list (map uc_deletes per);
          gold = m + d; main = m + i;
          wer = (if gold = 0 then 0 else of_nat (i + d) / of_nat gold);
          cwer_ed = sum_list (map (cwer_edit_distance U) per);
          cwer = (if gold = 0 then 0 else of_nat cwer_ed / of_nat gold)
      in \<lparr>s_matches = m, s_insertions = i, s_deletions = d, s_total_gold_words = gold,
          s_total_main_words = main, s_wer = wer, s_cwer = cwer, s_accuracy = 1 - wer\<rparr>)"

record compare_metrics_pos =
  cmp_pos :: rstr
  cmp_matches :: nat
  cmp_insertions :: nat
  cmp_deletions :: nat
  cmp_total :: nat

fun pos_counts :: "tok_status \<Rightarrow> nat \<times> nat \<times> nat \<Rightarrow> nat \<times> nat \<times> nat" where
  "pos_counts TokMatch (m, i, d) = (m + 1, i, d)"
| "pos_counts ExtraMain (m, i, d) = (m, i + 1, d)"
| "pos_counts ExtraGold (m, i, d) = (m, i, d + 1)"

definition count_pos :: "cmp_token \<Rightarrow> (rstr \<times> nat \<times> nat \<times> nat) list \<Rightarrow> (rstr \<times> nat \<times> nat \<times> nat) list" where
  "count_pos = (\<lambda>(text, status, pos) by_pos.
     case pos of
       Punct \<Rightarrow> by_pos
     | Tag s \<Rightarrow>
         if s = str ''?'' \<or> s = str ''PUNCT'' then by_pos
         else bt_update s (\<lambda>v. pos_counts status (case v of None \<Rightarrow> (0, 0, 0) | Some c \<Rightarrow> c)) by_pos)"

definition per_pos_metrics :: "utt_cmp list \<Rightarrow> compare_metrics_pos list" where
  "per_pos_metrics per_utt =
     map (\<lambda>(pos, m, i, d). \<lparr>cmp_pos = pos, cmp_matches = m, cmp_insertions = i, cmp_deletions = d,
            cmp_total = m + i + d\<rparr>)
       (fold (\<lambda>utt. fold count_pos (uc_tokens utt)) per_utt [])"

record compare_metrics =
  cm_file_label :: rstr
  cm_summary :: summary
  cm_per_pos :: "compare_metrics_pos list"

definition compare_file_label :: "rstr \<Rightarrow> rstr" where
  "compare_file_label source_id =
     (case path_file_name source_id of
        Some name \<Rightarrow> file_stem name @ str ''.cha''
      | None \<Rightarrow> source_id @ str ''.cha'')"

definition build_compare_metrics :: "utt_cmp list \<Rightarrow> summary \<Rightarrow> rstr \<Rightarrow> compare_metrics" where
  "build_compare_metrics per_utt summary source_id =
     \<lparr>cm_file_label = compare_file_label source_id, cm_summary = summary,
      cm_per_pos = per_pos_metrics per_utt\<rparr>"

section \<open>Serialized tiers\<close>

text \<open>\<open>fmt4\<close> is the formatting of an \<open>f64\<close> with four decimals.\<close>

definition summary_json :: "(rat \<Rightarrow> rstr) \<Rightarrow> summary \<Rightarrow> rstr" where
  "summary_json fmt4 s =
     (let q = [34 :: rchar]; f = (\<lambda>name v. q @ name @ q @ str '':'' @ v)
      in str ''{'' @ join (str '','')
           [f (str ''wer'') (fmt4 (s_wer s)), f (str ''cwer'') (fmt4 (s_cwer s)),
            f (str ''accuracy'') (fmt4 (s_accuracy s)), f (str ''matches'') (nat_to_string (s_matches s)),
            f (str ''insertions'') (nat_to_string (s_insertions s)),
            f (str ''deletions'') (nat_to_string (s_deletions s)),
            f (str ''total_gold_words'') (nat_to_string (s_total_gold_words s)),
            f (str ''total_main_words'') (nat_to_string (s_total_main_words s))] @ str ''}'')"

fun status_prefix :: "tok_status \<Rightarrow> rstr" where
  "status_prefix ExtraMain = str ''+''"
| "status_prefix ExtraGold = str ''-''"
| "status_prefix TokMatch = []"

definition serialize_xsrep :: "utt_cmp \<Rightarrow> rstr" where
  "serialize_xsrep cmp =
     join [32] (map (\<lambda>(tok, status, _). status_prefix status @ map (\<lambda>c. if is_whitespace c then 95 else c) tok)
       (uc_tokens cmp))"

definition xsmor_parts :: "utt_cmp \<Rightarrow> rstr list" where
  "xsmor_parts cmp =
     (let parts = map (\<lambda>(_, status, pos). status_prefix status @ tok_pos_as_str pos) (uc_tokens cmp)
      in if uc_tokens cmp = [] then parts
         else (case last (uc_tokens cmp) of (last_text, last_status, last_pos) \<Rightarrow>
           if last_pos = Punct then butlast parts @ [status_prefix last_status @ last_text] else parts))"

definition serialize_xsmor :: "utt_cmp \<Rightarrow> rstr" where
  "serialize_xsmor cmp = join [32] (xsmor_parts cmp)"

definition serialize_xcmp :: "(rat \<Rightarrow> rstr) \<Rightarrow> unicode \<Rightarrow> utt_cmp \<Rightarrow> rstr" where
  "serialize_xcmp fmt4 U cmp =
     (let g = total_gold cmp;
          wer = (if g = 0 then 0 else of_nat (cmp_edit_distance cmp) / of_nat g);
          cwer_ed = cwer_edit_distance U cmp;
          cwer = (if g = 0 then 0 else of_nat cwer_ed / of_nat g)
      in str ''wer='' @ fmt4 wer @ str '' cwer='' @ fmt4 cwer @
         str '' ed='' @ nat_to_string (cmp_edit_distance cmp) @ str '' gold='' @ nat_to_string g @
         str '' match='' @ nat_to_string (uc_matches cmp) @ str '' ins='' @ nat_to_string (uc_inserts cmp) @
         str '' del='' @ nat_to_string (uc_deletes cmp))"

section \<open>Injection\<close>

text \<open>\<open>ne_ok\<close> says which strings the third-party constructor \<open>NonEmptyString::new\<close> accepts.\<close>

definition ne :: "(rstr \<Rightarrow> bool) \<Rightarrow> rstr \<Rightarrow> rstr ba_result" where
  "ne ne_ok s = (if ne_ok s then Inr s
     else Inl (InternalError (str ''compare: refusing to construct empty NonEmptyString for '' @ [34] @ s @ [34])))"

definition push_user_tier ::
    "(rstr \<Rightarrow> bool) \<Rightarrow> rstr \<Rightarrow> rstr \<Rightarrow> cmp_utterance \<Rightarrow> cmp_utterance ba_result" where
  "push_user_tier ne_ok label payload u =
     bind_res (ne ne_ok label) (\<lambda>l. bind_res (ne ne_ok payload) (\<lambda>c.
       Inr (u\<lparr>cu_tiers := cu_tiers u @ [(l, Some c)]\<rparr>)))"

definition merge_by_main :: "utt_cmp list \<Rightarrow> (nat \<rightharpoonup> utt_cmp)" where
  "merge_by_main per_utt =
     fold (\<lambda>cmp by_main.
        case uc_main_utt_idx cmp of
          None \<Rightarrow> by_main
        | Some main_idx \<Rightarrow>
            if uc_tokens cmp = [] then by_main
            else by_main(main_idx \<mapsto>
              (case by_main main_idx of
                 None \<Rightarrow> cmp
               | Some e \<Rightarrow> e\<lparr>uc_tokens := uc_tokens e @ uc_tokens cmp, uc_matches := uc_matches e + uc_matches cmp,
                     uc_inserts := uc_inserts e + uc_inserts cmp, uc_deletes := uc_deletes e + uc_deletes cmp\<rparr>)))
       per_utt Map.empty"

definition inject_utt ::
    "(rstr \<Rightarrow> bool) \<Rightarrow> (rat \<Rightarrow> rstr) \<Rightarrow> unicode \<Rightarrow> utt_cmp \<Rightarrow> cmp_utterance \<Rightarrow> cmp_utterance ba_result" where
  "inject_utt ne_ok fmt4 U cmp u =
     bind_res (push_user_tier ne_ok (str ''xsrep'') (serialize_xsrep cmp) u) (\<lambda>u.
       bind_res (push_user_tier ne_ok (str ''xsmor'') (serialize_xsmor cmp) u) (\<lambda>u.
         push_user_tier ne_ok (str ''xcmp'') (serialize_xcmp fmt4 U cmp) u))"

fun inject_lines ::
    "(rstr \<Rightarrow> bool) \<Rightarrow> (rat \<Rightarrow> rstr) \<Rightarrow> unicode \<Rightarrow> (nat \<rightharpoonup> utt_cmp) \<Rightarrow> nat \<Rightarrow> cmp_utterance line list \<Rightarrow>
     cmp_utterance line list ba_result" where
  "inject_lines ne_ok fmt4 U by_main idx [] = Inr []"
| "inject_lines ne_ok fmt4 U by_main idx (HeaderLine h # ls) =
     bind_res (inject_lines ne_ok fmt4 U by_main idx ls) (\<lambda>ls'. Inr (HeaderLine h # ls'))"
| "inject_lines ne_ok fmt4 U by_main idx (UtteranceLine u # ls) =
     bind_res
       (case by_main idx of
          Some cmp \<Rightarrow> if uc_tokens cmp \<noteq> [] then inject_utt ne_ok fmt4 U cmp u else Inr u
        | None \<Rightarrow> Inr u)
       (\<lambda>u'. bind_res (inject_lines ne_ok fmt4 U by_main (idx + 1) ls) (\<lambda>ls'. Inr (UtteranceLine u' # ls')))"

definition inject_per_utt_tiers ::
    "(rstr \<Rightarrow> bool) \<Rightarrow> (rat \<Rightarrow> rstr) \<Rightarrow> unicode \<Rightarrow> cmp_utterance line list \<Rightarrow> utt_cmp list \<Rightarrow>
     cmp_utterance line list ba_result" where
  "inject_per_utt_tiers ne_ok fmt4 U ast per_utt =
     inject_lines ne_ok fmt4 U (merge_by_main per_utt) 0 ast"

definition inject_summary_header :: "(rat \<Rightarrow> rstr) \<Rightarrow> cmp_utterance line list \<Rightarrow> summary \<Rightarrow> cmp_utterance line list" where
  "inject_summary_header fmt4 ast s =
     insert_at (case position is_utterance ast of Some i \<Rightarrow> i | None \<Rightarrow> length ast)
       (HeaderLine (CommentHeader (str ''ba.compare.summary: '' @ summary_json fmt4 s))) ast"

section \<open>The entry point\<close>

record compare_input =
  ci_source_id :: rstr
  ci_main_chat :: rstr
  ci_gold_chat :: rstr

record compare_output =
  co_source_id :: rstr
  co_annotated_main :: rstr
  co_metrics_json :: rstr
  co_metrics :: compare_metrics

text \<open>
  The third-party parser and serializer are parameters; \<open>err_text\<close> renders an error (\<open>Display\<close>).
\<close>

definition compare_one ::
    "unicode \<Rightarrow> (rstr \<Rightarrow> bool) \<Rightarrow> (rat \<Rightarrow> rstr) \<Rightarrow> (rstr \<Rightarrow> cmp_utterance line list ba_result) \<Rightarrow>
     (cmp_utterance line list \<Rightarrow> rstr) \<Rightarrow> (ba_error \<Rightarrow> rstr) \<Rightarrow> compare_input \<Rightarrow> compare_output ba_result" where
  "compare_one U ne_ok fmt4 parse_chat to_chat err_text input =
     (case parse_chat (ci_main_chat input) of
        Inl e \<Rightarrow> Inl (WorkerError (str ''CompareBackend: failed to parse main transcript: '' @ err_text e))
      | Inr main_ast \<Rightarrow>
          (case parse_chat (ci_gold_chat input) of
             Inl e \<Rightarrow> Inl (WorkerError (str ''CompareBackend: failed to parse gold transcript: '' @ err_text e))
           | Inr gold_ast \<Rightarrow>
               (let per_utt = compare_utts U (extract_words U main_ast) (extract_words U gold_ast)
                                (extract_gold_terminators gold_ast) (length (utterances gold_ast));
                    summary = summarize U per_utt
                in bind_res (inject_per_utt_tiers ne_ok fmt4 U main_ast per_utt) (\<lambda>annotated.
                     Inr \<lparr>co_source_id = ci_source_id input,
                          co_annotated_main = to_chat (inject_summary_header fmt4 annotated summary),
                          co_metrics_json = summary_json fmt4 summary,
                          co_metrics = build_compare_metrics per_utt summary (ci_source_id input)\<rparr>))))"

section \<open>Counts follow the alignment\<close>

fun is_item_insert :: "align_item \<Rightarrow> bool" where
  "is_item_insert (ItemInsert i) = True"
| "is_item_insert _ = False"

fun is_item_delete :: "align_item \<Rightarrow> bool" where
  "is_item_delete (ItemDelete j) = True"
| "is_item_delete _ = False"

lemma items_valid_counts:
  "items_valid mt i0 j0 main gold items \<Longrightarrow>
   align_matches items + length (filter is_item_insert items) = length main \<and>
   align_matches items + length (filter is_item_delete items) = length gold"
proof (induction mt i0 j0 main gold items rule: items_valid.induct)
  case (2 mt i0 j0 main gold i j items)
  then show ?case by (cases main; cases gold) auto
next
  case (3 mt i0 j0 main gold i items)
  then show ?case by (cases main) auto
next
  case (4 mt i0 j0 main gold j items)
  then show ?case by (cases gold) auto
qed auto

text \<open>Tokens of a status that are no punctuation: what \<open>cwer\<close> looks at.\<close>

definition count_status :: "tok_status \<Rightarrow> cmp_token list \<Rightarrow> nat" where
  "count_status st ts = length (filter (\<lambda>(text, status, pos). status = st \<and> pos \<noteq> Punct) ts)"

lemma build_utt_cmp_counts:
  "let cmp = build_utt_cmp items main mp gold gp in
     uc_matches cmp = align_matches items \<and>
     uc_inserts cmp = length (filter is_item_insert items) \<and>
     uc_deletes cmp = length (filter is_item_delete items) \<and>
     count_status ExtraMain (uc_tokens cmp) = uc_inserts cmp \<and>
     count_status ExtraGold (uc_tokens cmp) = uc_deletes cmp \<and>
     length (uc_tokens cmp) = length items"
proof (induction items rule: rev_induct)
  case Nil
  show ?case by (simp add: build_utt_cmp_def default_utt_cmp_def count_status_def)
next
  case (snoc it items)
  then show ?case
    by (cases it) (auto simp: build_utt_cmp_def count_status_def align_matches_def Let_def)
qed

lemma swap_remove_length: "idx < length xs \<Longrightarrow> length (swap_remove idx xs) = length xs - 1"
  by (simp add: swap_remove_def)

lemma cwer_loop_bound:
  "\<exists>k. fst (cwer_loop U ts ug um) + k = um + count_status ExtraMain ts \<and>
       length (snd (cwer_loop U ts ug um)) + k = length ug"
proof (induction U ts ug um rule: cwer_loop.induct)
  case (1 U ug um)
  then show ?case by (simp add: count_status_def)
next
  case (2 U tx status pos ts ug um)
  show ?case
  proof (cases "status \<noteq> ExtraMain \<or> pos = Punct")
    case True
    with "2.IH"(1) [OF True] show ?thesis by (auto simp: count_status_def)
  next
    case False
    show ?thesis
    proof (cases "position (\<lambda>gold. match_fn U tx gold) ug")
      case None
      with "2.IH"(2) [OF False None] False show ?thesis by (auto simp: count_status_def)
    next
      case (Some idx)
      then have "idx < length ug" using position_Some by blast
      with "2.IH"(3) [OF False Some] obtain k where
        "fst (cwer_loop U ts (swap_remove idx ug) um) + k = um + count_status ExtraMain ts"
        "length (snd (cwer_loop U ts (swap_remove idx ug) um)) + k = length ug - 1"
        by (auto simp: swap_remove_length)
      with \<open>idx < length ug\<close> False Some show ?thesis
        by (intro exI [of _ "Suc k"]) (auto simp: count_status_def)
    qed
  qed
qed

lemma cwer_edit_distance_bound:
  "\<exists>k. cwer_edit_distance U u + 2 * k = count_status ExtraMain (uc_tokens u) + count_status ExtraGold (uc_tokens u)"
proof -
  let ?ug = "map fst (filter (\<lambda>(text, status, pos). status = ExtraGold \<and> pos \<noteq> Punct) (uc_tokens u))"
  obtain k where "fst (cwer_loop U (uc_tokens u) ?ug 0) + k = 0 + count_status ExtraMain (uc_tokens u)"
    "length (snd (cwer_loop U (uc_tokens u) ?ug 0)) + k = length ?ug"
    using cwer_loop_bound by blast
  then show ?thesis
    by (intro exI [of _ k]) (auto simp: cwer_edit_distance_def Let_def count_status_def split: prod.splits)
qed

section \<open>The stitched utterances\<close>

definition main_token_count :: "unicode \<Rightarrow> src_word list \<Rightarrow> nat \<Rightarrow> nat" where
  "main_token_count U main_words m =
     length (filter (\<lambda>t. sw_utt_idx (main_words ! ct_src_idx t) = m) (conform_with_mapping U main_words))"

definition well_counted :: "unicode \<Rightarrow> utt_cmp \<Rightarrow> bool" where
  "well_counted U cmp \<longleftrightarrow>
     count_status ExtraMain (uc_tokens cmp) = uc_inserts cmp \<and>
     count_status ExtraGold (uc_tokens cmp) = uc_deletes cmp"

lemma stitch_utt_counts:
  "let cmp = stitch_utt U mw gw terms by_utt (m, gis) in
     uc_main_utt_idx cmp = Some m \<and> well_counted U cmp \<and>
     uc_matches cmp + uc_inserts cmp = main_token_count U mw m \<and>
     uc_matches cmp + uc_deletes cmp = sum_list (map (\<lambda>gi. length (by_utt ! gi)) gis)"
proof -
  define main_tk where "main_tk = filter (\<lambda>t. sw_utt_idx (mw ! ct_src_idx t) = m) (conform_with_mapping U mw)"
  define gold_tk where "gold_tk = concat (map (\<lambda>gi. by_utt ! gi) gis)"
  define items where "items = levenshtein_align U (map ct_text main_tk) (map ct_text gold_tk)"
  define cmp where "cmp = build_utt_cmp items (map ct_text main_tk) (map (\<lambda>t. sw_pos (mw ! ct_src_idx t)) main_tk)
    (map ct_text gold_tk) (map (\<lambda>t. sw_pos (gw ! ct_src_idx t)) gold_tk)"
  have items: "align_matches items + length (filter is_item_insert items) = length main_tk"
    "align_matches items + length (filter is_item_delete items) = length gold_tk"
    using items_valid_counts [OF levenshtein_align_valid [of U "map ct_text main_tk" "map ct_text gold_tk"]]
    unfolding items_def by simp_all
  have counts: "uc_matches cmp = align_matches items" "uc_inserts cmp = length (filter is_item_insert items)"
    "uc_deletes cmp = length (filter is_item_delete items)"
    "count_status ExtraMain (uc_tokens cmp) = uc_inserts cmp"
    "count_status ExtraGold (uc_tokens cmp) = uc_deletes cmp"
    using build_utt_cmp_counts [of items] unfolding cmp_def Let_def by auto
  have gold_len: "length gold_tk = sum_list (map (\<lambda>gi. length (by_utt ! gi)) gis)"
    by (simp add: gold_tk_def length_concat o_def)
  have main_len: "length main_tk = main_token_count U mw m"
    by (simp add: main_tk_def main_token_count_def)
  have "stitch_utt U mw gw terms by_utt (m, gis) = cmp\<lparr>uc_main_utt_idx := Some m\<rparr> \<or>
      (\<exists>t. stitch_utt U mw gw terms by_utt (m, gis) =
         cmp\<lparr>uc_main_utt_idx := Some m, uc_tokens := uc_tokens cmp @ [(t, TokMatch, Punct)]\<rparr>)"
    unfolding stitch_utt_def Let_def prod.case main_tk_def [symmetric] gold_tk_def [symmetric]
      items_def [symmetric] cmp_def [symmetric]
    by (auto split: option.splits)
  then show ?thesis
    using items counts gold_len main_len
    by (auto simp: Let_def well_counted_def count_status_def)
qed

section \<open>The groups of gold utterances\<close>

lemma group_by_main_spec:
  "sorted_wrt (<) (map fst (group_by_main g2m)) \<and>
   (\<forall>m. map_of (group_by_main g2m) m =
      (let gs = filter (\<lambda>gi. g2m ! gi = Some m) [0..<length g2m] in if gs = [] then None else Some gs))"
proof (induction g2m rule: rev_induct)
  case Nil
  show ?case by (simp add: group_by_main_def)
next
  case (snoc x g2m)
  let ?G = "group_by_main g2m"
  have srt: "sorted_wrt (<) (map fst ?G)" using snoc by blast
  have IH: "map_of ?G m = (let gs = filter (\<lambda>gi. g2m ! gi = Some m) [0..<length g2m] in
      if gs = [] then None else Some gs)" for m using snoc by blast
  have e: "group_by_main (g2m @ [x]) =
      (case x of None \<Rightarrow> ?G
       | Some m \<Rightarrow> bt_update m (\<lambda>v. (case v of None \<Rightarrow> [] | Some gis \<Rightarrow> gis) @ [length g2m]) ?G)"
    by (simp add: group_by_main_def enumerate_append_eq split: option.split)
  have f: "filter (\<lambda>gi. (g2m @ [x]) ! gi = Some m) [0..<length (g2m @ [x])] =
      filter (\<lambda>gi. g2m ! gi = Some m) [0..<length g2m] @ (if x = Some m then [length g2m] else [])" for m
  proof -
    have "filter (\<lambda>gi. (g2m @ [x]) ! gi = Some m) [0..<length g2m] = filter (\<lambda>gi. g2m ! gi = Some m) [0..<length g2m]"
      by (rule filter_cong) (auto simp: nth_append)
    then show ?thesis by simp
  qed
  show ?case
  proof (cases x)
    case None
    then show ?thesis unfolding e f using srt IH by simp
  next
    case (Some m)
    then show ?thesis unfolding e f using srt IH
      by (auto simp: map_of_bt_update bt_update_sorted Let_def)
  qed
qed

lemma group_by_main_keys: "Some ` fst ` set (group_by_main g2m) = set g2m - {None}"
proof -
  have "m \<in> fst ` set (group_by_main g2m) \<longleftrightarrow> Some m \<in> set g2m" for m
  proof -
    have "m \<in> fst ` set (group_by_main g2m) \<longleftrightarrow> map_of (group_by_main g2m) m \<noteq> None"
      by (metis map_of_eq_None_iff)
    also have "\<dots> \<longleftrightarrow> filter (\<lambda>gi. g2m ! gi = Some m) [0..<length g2m] \<noteq> []"
      using group_by_main_spec [of g2m] by (simp add: Let_def)
    also have "\<dots> \<longleftrightarrow> Some m \<in> set g2m" by (auto simp: filter_empty_conv in_set_conv_nth)
    finally show ?thesis .
  qed
  then show ?thesis by (auto simp: image_iff) (metis not_None_eq)
qed

lemma stitch_utt_idx: "uc_main_utt_idx (stitch_utt U mw gw terms by_utt g) = Some (fst g)"
  using stitch_utt_counts [of U mw gw terms by_utt "fst g" "snd g"] by (simp add: Let_def)

section \<open>No token in common\<close>

lemma bow_overlap_disjoint: "set gold \<inter> set main = {} \<Longrightarrow> bow_overlap gold (subslice main a b) = 0"
proof -
  assume d: "set gold \<inter> set main = {}"
  have "k \<in> set (subslice main a b) \<Longrightarrow> count_list gold k = 0" for k
    using d by (auto simp: count_list_0_iff subslice_def dest: in_set_dropD in_set_takeD)
  then show ?thesis by (auto simp: bow_overlap_def)
qed

lemma find_best_segment_disjoint:
  assumes d: "set gold \<inter> set main = {}"
  shows "find_best_segment U gold main utts = (0, 0)"
proof (cases "gold = [] \<or> main = []")
  case True
  then show ?thesis by (auto simp: find_best_segment_def)
next
  case False
  have step: "seg_score st \<le> 0 \<Longrightarrow> seg_score (seg_step U gold main utts start end' st) \<le> 0" for start end' st
  proof -
    obtain ts te where p: "projected utts (start, end') = (ts, te)" by fastforce
    show "seg_score st \<le> 0 \<Longrightarrow> seg_score (seg_step U gold main utts start end' st) \<le> 0"
      unfolding seg_step_projected [OF p] window_key_def seg_of_def prod.case bow_overlap_disjoint [OF d]
      by (auto simp: Let_def)
  qed
  have "seg_score st \<le> 0 \<Longrightarrow> seg_score (fold (\<lambda>(start, end'). seg_step U gold main utts start end') cs st) \<le> 0" for cs st
    by (induction cs arbitrary: st) (auto simp: step)
  then show ?thesis using False by (simp add: find_best_segment_fold Let_def)
qed

lemma gold_to_main_disjoint:
  assumes "\<forall>g \<in> set golds. set g \<inter> set main = {}"
  shows "gold_to_main U main utts golds = replicate (length golds) None"
proof -
  have step: "map_gold U main utts (k, g) (g2m, 0) = (g2m, 0)" if "set g \<inter> set main = {}" for k g g2m
  proof -
    have "find_best_segment U g main utts = (0, 0)" by (rule find_best_segment_disjoint [OF that])
    then show ?thesis
      by (simp add: map_gold_def gold_window_def snap_window_to_majority_utt_def)
  qed
  have "\<forall>g \<in> set gs. set g \<inter> set main = {} \<Longrightarrow>
      fold (map_gold U main utts) (enumerate k gs) (g2m, 0) = (g2m, 0)" for k gs g2m
    by (induction gs arbitrary: k) (auto simp: step)
  with assms show ?thesis by (simp add: gold_to_main_def)
qed

lemma group_by_main_None: "group_by_main (replicate n None) = []"
proof -
  have "fold (\<lambda>(gi, m_opt) by_main. case m_opt of None \<Rightarrow> by_main
      | Some m \<Rightarrow> bt_update m (\<lambda>v. (case v of None \<Rightarrow> [] | Some gis \<Rightarrow> gis) @ [gi]) by_main)
      (enumerate k (replicate n None)) ([] :: (nat \<times> nat list) list) = []" for k
    by (induction n arbitrary: k) auto
  then show ?thesis by (simp add: group_by_main_def)
qed

lemma place_gold_subset:
  assumes "\<forall>g \<in> set by0. set g \<subseteq> T" "t \<in> T"
  shows "\<forall>g \<in> set (place_gold gw t by0). set g \<subseteq> T"
proof -
  let ?u = "sw_utt_idx (gw ! ct_src_idx t)"
  have "set (place_gold gw t by0) \<subseteq> (if ?u < length by0 then insert (by0 ! ?u @ [t]) (set by0) else set by0)"
    unfolding place_gold_def Let_def by (simp add: set_update_subset_insert)
  moreover have "\<forall>g \<in> (if ?u < length by0 then insert (by0 ! ?u @ [t]) (set by0) else set by0). set g \<subseteq> T"
    using assms by (simp add: nth_mem)
  ultimately show ?thesis by blast
qed

lemma fold_place_gold_subset:
  "\<forall>g \<in> set by0. set g \<subseteq> T \<Longrightarrow> set toks \<subseteq> T \<Longrightarrow>
   \<forall>g \<in> set (fold (place_gold gw) toks by0). set g \<subseteq> T"
proof (induction toks arbitrary: by0)
  case (Cons t ts)
  have "\<forall>g \<in> set (place_gold gw t by0). set g \<subseteq> T"
    by (rule place_gold_subset [OF Cons.prems(1)]) (use Cons.prems(2) in simp)
  from Cons.IH [OF this] Cons.prems(2) show ?case by simp
qed simp

lemma gold_tokens_by_utt_texts:
  assumes "g \<in> set (gold_tokens_by_utt U gw n)"
  shows "set g \<subseteq> set (conform_with_mapping U gw)"
proof -
  have "\<forall>g \<in> set (replicate n []). set g \<subseteq> set (conform_with_mapping U gw)" by simp
  from fold_place_gold_subset [OF this subset_refl] assms show ?thesis
    unfolding gold_tokens_by_utt_def by blast
qed

section \<open>Injection\<close>

lemma push_user_tier_Inr:
  "push_user_tier ne_ok label payload u = Inr u' \<longleftrightarrow>
     ne_ok label \<and> ne_ok payload \<and> u' = u\<lparr>cu_tiers := cu_tiers u @ [(label, Some payload)]\<rparr>"
  by (auto simp: push_user_tier_def ne_def)

lemma inject_utt_Inr:
  "inject_utt ne_ok fmt4 U cmp u = Inr u' \<Longrightarrow>
   u' = u\<lparr>cu_tiers := cu_tiers u @ [(str ''xsrep'', Some (serialize_xsrep cmp)),
     (str ''xsmor'', Some (serialize_xsmor cmp)), (str ''xcmp'', Some (serialize_xcmp fmt4 U cmp))]\<rparr>"
  by (auto simp: inject_utt_def bind_res_Inr_iff push_user_tier_Inr)

section \<open>Properties\<close>

text \<open>C5: The result of Compare has exactly one entry for each main utterance that some gold utterance was mapped
  to (the entries, in ascending order, are those of the mapping, and no other); in each, the matches and insertions account for every token of the main
  utterance, and the matches and deletions for every token of the gold utterances mapped to it.\<close>

theorem compare_utts_counts:
  "let g2m = gold_to_main U (map ct_text (conform_with_mapping U mw))
               (map (\<lambda>t. sw_utt_idx (mw ! ct_src_idx t)) (conform_with_mapping U mw))
               (map (map ct_text) (gold_tokens_by_utt U gw n));
       cmps = compare_utts U mw gw terms n
   in sorted_wrt (<) (map (\<lambda>c. the (uc_main_utt_idx c)) cmps) \<and>
      set (map uc_main_utt_idx cmps) = set g2m - {None} \<and>
      list_all (\<lambda>c. \<exists>m. uc_main_utt_idx c = Some m \<and>
         uc_matches c + uc_inserts c = main_token_count U mw m \<and>
         uc_matches c + uc_deletes c =
           sum_list (map (\<lambda>gi. length (gold_tokens_by_utt U gw n ! gi))
             (filter (\<lambda>gi. g2m ! gi = Some m) [0..<length g2m]))) cmps"
proof -
  define by_utt where "by_utt = gold_tokens_by_utt U gw n"
  define g2m where "g2m = gold_to_main U (map ct_text (conform_with_mapping U mw))
    (map (\<lambda>t. sw_utt_idx (mw ! ct_src_idx t)) (conform_with_mapping U mw)) (map (map ct_text) by_utt)"
  let ?st = "stitch_utt U mw gw terms by_utt" and ?G = "group_by_main g2m"
  have cmps: "compare_utts U mw gw terms n = map ?st ?G"
    by (simp add: compare_utts_def Let_def by_utt_def g2m_def)
  have srt: "sorted_wrt (<) (map fst ?G)" using group_by_main_spec by blast
  have "\<exists>m. uc_main_utt_idx (?st g) = Some m \<and>
         uc_matches (?st g) + uc_inserts (?st g) = main_token_count U mw m \<and>
         uc_matches (?st g) + uc_deletes (?st g) =
           sum_list (map (\<lambda>gi. length (by_utt ! gi)) (filter (\<lambda>gi. g2m ! gi = Some m) [0..<length g2m]))"
    if "g \<in> set ?G" for g
  proof -
    obtain m gis where g: "g = (m, gis)" by (cases g)
    then have "map_of ?G m = Some gis" using that sorted_map_distinct [OF srt] by simp
    then have "gis = filter (\<lambda>gi. g2m ! gi = Some m) [0..<length g2m]"
      using group_by_main_spec [of g2m] by (auto simp: Let_def split: if_splits)
    with stitch_utt_counts [of U mw gw terms by_utt m gis] show ?thesis
      by (intro exI [of _ m]) (simp add: g Let_def)
  qed
  moreover have "set (map uc_main_utt_idx (map ?st ?G)) = set g2m - {None}"
    by (simp add: image_image stitch_utt_idx) (simp add: group_by_main_keys [symmetric] image_image)
  ultimately show ?thesis using srt
    unfolding Let_def cmps by_utt_def [symmetric] g2m_def [symmetric]
    by (simp add: list_all_iff o_def stitch_utt_idx)
qed

text \<open>The summary rates are consistent: the totals are the sums of the utterance counts, the
  accuracy is one minus the word error rate, and the order-insensitive rate \<open>cwer\<close> lies between 0
  and the word error rate.\<close>

lemma summarize_rates:
  "let s = summarize U (compare_utts U mw gw terms n) in
     s_total_gold_words s = s_matches s + s_deletions s \<and>
     s_total_main_words s = s_matches s + s_insertions s \<and>
     s_accuracy s = 1 - s_wer s \<and> 0 \<le> s_cwer s \<and> s_cwer s \<le> s_wer s"
proof -
  let ?cmps = "compare_utts U mw gw terms n"
  have wc: "well_counted U c" if "c \<in> set ?cmps" for c
  proof -
    from that obtain g where "c = stitch_utt U mw gw terms (gold_tokens_by_utt U gw n) g"
      unfolding compare_utts_def Let_def by auto
    then show ?thesis using stitch_utt_counts [of U mw gw terms _ "fst g" "snd g"] by (simp add: Let_def)
  qed
  have "cwer_edit_distance U c \<le> uc_inserts c + uc_deletes c" if "c \<in> set ?cmps" for c
    using cwer_edit_distance_bound [of U c] wc [OF that] by (auto simp: well_counted_def)
  then have "sum_list (map (cwer_edit_distance U) ?cmps) \<le> sum_list (map (\<lambda>c. uc_inserts c + uc_deletes c) ?cmps)"
    by (intro sum_list_mono) auto
  then have le: "sum_list (map (cwer_edit_distance U) ?cmps) \<le>
      sum_list (map uc_inserts ?cmps) + sum_list (map uc_deletes ?cmps)"
    by (simp add: sum_list_addf)
  define M I D E where "M = sum_list (map uc_matches ?cmps)" and "I = sum_list (map uc_inserts ?cmps)"
    and "D = sum_list (map uc_deletes ?cmps)" and "E = sum_list (map (cwer_edit_distance U) ?cmps)"
  have "E \<le> I + D" using le by (simp add: E_def I_def D_def)
  then have "(of_nat E :: rat) / of_nat (M + D) \<le> of_nat (I + D) / of_nat (M + D)"
    by (intro divide_right_mono) simp_all
  then show ?thesis
    unfolding summarize_def Let_def M_def [symmetric] I_def [symmetric] D_def [symmetric] E_def [symmetric]
    by (cases "M + D = 0") simp_all
qed

text \<open>A gold transcript that shares no token with the main transcript is compared as perfect:
  no gold utterance is mapped, no utterance is reported, the totals are 0 and the accuracy is 1.\<close>

lemma compare_disjoint_accuracy:
  assumes "ct_text ` set (conform_with_mapping U gw) \<inter> ct_text ` set (conform_with_mapping U mw) = {}"
  shows "compare_utts U mw gw terms n = [] \<and>
    s_total_gold_words (summarize U (compare_utts U mw gw terms n)) = 0 \<and>
    s_accuracy (summarize U (compare_utts U mw gw terms n)) = 1"
proof -
  have "\<forall>g \<in> set (map (map ct_text) (gold_tokens_by_utt U gw n)).
      set g \<inter> set (map ct_text (conform_with_mapping U mw)) = {}"
    using assms gold_tokens_by_utt_texts [of _ U gw n] by (fastforce simp: image_iff)
  then have "compare_utts U mw gw terms n = []"
    by (simp add: compare_utts_def Let_def gold_to_main_disjoint group_by_main_None)
  then show ?thesis by (simp add: summarize_def Let_def)
qed

lemma compare_disjoint_accuracy_witness:
  "s_accuracy (summarize ascii_tables (compare_utts ascii_tables
      [\<lparr>sw_utt_idx = 0, sw_text = [97], sw_pos = [63]\<rparr>]
      [\<lparr>sw_utt_idx = 0, sw_text = [98], sw_pos = [63]\<rparr>] [None] 1)) = 1"
proof -
  have "conform_with_mapping ascii_tables [\<lparr>sw_utt_idx = 0, sw_text = [97], sw_pos = [63]\<rparr>] =
      [\<lparr>ct_text = [97], ct_src_idx = 0\<rparr>]"
    "conform_with_mapping ascii_tables [\<lparr>sw_utt_idx = 0, sw_text = [98], sw_pos = [63]\<rparr>] =
      [\<lparr>ct_text = [98], ct_src_idx = 0\<rparr>]"
    by code_simp+
  then have "ct_text ` set (conform_with_mapping ascii_tables [\<lparr>sw_utt_idx = 0, sw_text = [98], sw_pos = [63]\<rparr>]) \<inter>
      ct_text ` set (conform_with_mapping ascii_tables [\<lparr>sw_utt_idx = 0, sw_text = [97], sw_pos = [63]\<rparr>]) = {}"
    by simp
  from compare_disjoint_accuracy [OF this, of "[None]" 1] show ?thesis by (elim conjE)
qed

text \<open>The text tier and the POS tier of an utterance are aligned: both have one part per
  compared token, with the same prefix at every position, and they end in the terminator when
  the last token is one.\<close>

lemma xsrep_xsmor_aligned:
  "length (xsmor_parts cmp) = length (uc_tokens cmp) \<and>
   list_all2 (\<lambda>(text, status, pos) part. \<exists>rest. part = status_prefix status @ rest \<and>
      (rest = tok_pos_as_str pos \<or> pos = Punct \<and> rest = text)) (uc_tokens cmp) (xsmor_parts cmp)"
proof (cases "uc_tokens cmp" rule: rev_cases)
  case Nil
  then show ?thesis by (simp add: xsmor_parts_def)
next
  case (snoc ts t)
  obtain tx st p where t: "t = (tx, st, p)" by (cases t)
  have "list_all2 (\<lambda>(text, status, pos) part. \<exists>rest. part = status_prefix status @ rest \<and>
      (rest = tok_pos_as_str pos \<or> pos = Punct \<and> rest = text)) ts
      (map (\<lambda>(_, status, pos). status_prefix status @ tok_pos_as_str pos) ts)"
    by (auto simp: list_all2_map2 split: prod.splits intro!: list_all2_refl)
  then show ?thesis using snoc t
    by (auto simp: xsmor_parts_def Let_def butlast_append intro!: list_all2_appendI)
qed

text \<open>When the injection succeeds it changes nothing but the tiers: headers keep their place, and
  the \<open>i\<close>-th utterance gains exactly the three compare tiers if the comparison has tokens for it
  and is otherwise unchanged.\<close>

lemma inject_lines_effect:
  assumes "inject_lines ne_ok fmt4 U by_main idx ast = Inr ast'"
  shows "list_all2 (\<lambda>l l'. case l of
       HeaderLine h \<Rightarrow> l' = l
     | UtteranceLine u \<Rightarrow> (\<exists>u'. l' = UtteranceLine u' \<and> (\<exists>added. u' = u\<lparr>cu_tiers := cu_tiers u @ added\<rparr>))) ast ast' \<and>
   list_all2 (\<lambda>(i, u) u'. u' = (case by_main i of
         Some cmp \<Rightarrow> if uc_tokens cmp \<noteq> []
           then u\<lparr>cu_tiers := cu_tiers u @ [(str ''xsrep'', Some (serialize_xsrep cmp)),
             (str ''xsmor'', Some (serialize_xsmor cmp)), (str ''xcmp'', Some (serialize_xcmp fmt4 U cmp))]\<rparr>
           else u
       | None \<Rightarrow> u)) (enumerate idx (utterances ast)) (utterances ast')"
  using assms
proof (induction ne_ok fmt4 U by_main idx ast arbitrary: ast' rule: inject_lines.induct)
  case (3 ne_ok fmt4 U by_main idx u ls)
  from "3.prems" obtain u' ls' where
    u': "(case by_main idx of Some cmp \<Rightarrow> if uc_tokens cmp \<noteq> [] then inject_utt ne_ok fmt4 U cmp u else Inr u
        | None \<Rightarrow> Inr u) = Inr u'"
    and ls': "inject_lines ne_ok fmt4 U by_main (idx + 1) ls = Inr ls'" "ast' = UtteranceLine u' # ls'"
    by (auto simp: bind_res_Inr_iff)
  have added: "u' = (case by_main idx of
         Some cmp \<Rightarrow> if uc_tokens cmp \<noteq> []
           then u\<lparr>cu_tiers := cu_tiers u @ [(str ''xsrep'', Some (serialize_xsrep cmp)),
             (str ''xsmor'', Some (serialize_xsmor cmp)), (str ''xcmp'', Some (serialize_xcmp fmt4 U cmp))]\<rparr>
           else u
       | None \<Rightarrow> u)"
    using u' inject_utt_Inr by (auto split: option.splits if_splits)
  have same: "\<exists>added. u = u\<lparr>cu_tiers := cu_tiers u @ added\<rparr>" by (rule exI [of _ "[]"]) simp
  have "\<exists>added. u' = u\<lparr>cu_tiers := cu_tiers u @ added\<rparr>"
    unfolding added using same by (auto split: option.split)
  with "3.IH" [OF u' ls'(1)] added ls'(2) show ?case by simp
qed (auto simp: bind_res_Inr_iff)

lemma inject_lines_effect_witness:
  "case inject_lines (\<lambda>s. s \<noteq> []) (\<lambda>_. [48]) ascii_tables
      [0 \<mapsto> \<lparr>uc_tokens = [([97], TokMatch, Tag [78])], uc_matches = 1, uc_inserts = 0, uc_deletes = 0,
             uc_main_utt_idx = Some 0\<rparr>] 0
      [HeaderLine BeginHeader,
       UtteranceLine \<lparr>cu_items = [], cu_terminator = None, cu_mor = None, cu_tiers = []\<rparr>] of
    Inl e \<Rightarrow> False
  | Inr ast' \<Rightarrow> length (utterances ast') = 1"
proof -
  let ?r = "inject_lines (\<lambda>s. s \<noteq> []) (\<lambda>_. [48]) ascii_tables
      [0 \<mapsto> \<lparr>uc_tokens = [([97], TokMatch, Tag [78])], uc_matches = 1, uc_inserts = 0, uc_deletes = 0,
             uc_main_utt_idx = Some 0\<rparr>] 0
      [HeaderLine BeginHeader,
       UtteranceLine \<lparr>cu_items = [], cu_terminator = None, cu_mor = None, cu_tiers = []\<rparr>]"
  have "case ?r of Inl e \<Rightarrow> False | Inr ast' \<Rightarrow> True" by code_simp
  then obtain ast' where a: "?r = Inr ast'" by (auto split: sum.splits)
  from list_all2_lengthD [OF conjunct2 [OF inject_lines_effect [OF a]]]
  have "length (utterances ast') = 1" by simp
  with a show ?thesis by simp
qed

end
