(* ===== verification/Tasks.thy ===== *)
theory Tasks
  imports ChatDoc
begin

text \<open>
  \<^verbatim>\<open>batchalign-core/src/base.rs\<close>: the tasks and what they require, the values that flow through a
  pipeline, how a value is written to disk (with the CSV writer), and the progress events with the
  scaling of runner and backend ticks into one bar. The lemmas give a reader that inverts the CSV
  writer and the monotonicity of the bar.
\<close>

section \<open>Tasks\<close>

datatype task =
  Ai | Asr | Fa | Speaker | UtSeg | Utr | Morphosyntax | Translate | Coref | Compare | Convert | Phonetic

text \<open>The discriminant, \<open>t as usize\<close>; the derived order compares it.\<close>

fun task_index :: "task \<Rightarrow> nat" where
  "task_index Ai = 0" | "task_index Asr = 1" | "task_index Fa = 2" | "task_index Speaker = 3"
| "task_index UtSeg = 4" | "task_index Utr = 5" | "task_index Morphosyntax = 6"
| "task_index Translate = 7" | "task_index Coref = 8" | "task_index Compare = 9"
| "task_index Convert = 10" | "task_index Phonetic = 11"

lemma task_index_inj: "task_index a = task_index b \<Longrightarrow> a = b"
  by (cases a; cases b) simp_all

instantiation task :: linorder
begin

definition less_eq_task :: "task \<Rightarrow> task \<Rightarrow> bool" where
  "less_eq_task a b \<longleftrightarrow> task_index a \<le> task_index b"

definition less_task :: "task \<Rightarrow> task \<Rightarrow> bool" where
  "less_task a b \<longleftrightarrow> task_index a < task_index b"

instance
  by standard (auto simp: less_eq_task_def less_task_def task_index_inj)

end

fun requires :: "task \<Rightarrow> task list" where
  "requires Ai = []"
| "requires Asr = []"
| "requires Speaker = []"
| "requires UtSeg = [Asr]"
| "requires Utr = []"
| "requires Fa = [UtSeg, Utr]"
| "requires Morphosyntax = [UtSeg]"
| "requires Phonetic = [UtSeg, Utr, Fa]"
| "requires Coref = [Morphosyntax]"
| "requires Translate = [Morphosyntax]"
| "requires Compare = []"
| "requires Convert = []"

fun task_as_str :: "task \<Rightarrow> rstr" where
  "task_as_str Ai = str ''ai''"
| "task_as_str Asr = str ''asr''"
| "task_as_str Fa = str ''fa''"
| "task_as_str Speaker = str ''speaker''"
| "task_as_str UtSeg = str ''utseg''"
| "task_as_str Utr = str ''utr''"
| "task_as_str Morphosyntax = str ''morphosyntax''"
| "task_as_str Translate = str ''translate''"
| "task_as_str Phonetic = str ''phonetic''"
| "task_as_str Coref = str ''coref''"
| "task_as_str Compare = str ''compare''"
| "task_as_str Convert = str ''convert''"

definition all_tasks :: "task list" where
  "all_tasks = [Ai, Asr, Fa, Speaker, UtSeg, Utr, Morphosyntax, Translate, Phonetic, Coref, Compare, Convert]"

text \<open>The \<open>Debug\<close> name, which labels the events and the error messages.\<close>

fun task_debug :: "task \<Rightarrow> rstr" where
  "task_debug Ai = str ''Ai''" | "task_debug Asr = str ''Asr''" | "task_debug Fa = str ''Fa''"
| "task_debug Speaker = str ''Speaker''" | "task_debug UtSeg = str ''UtSeg''" | "task_debug Utr = str ''Utr''"
| "task_debug Morphosyntax = str ''Morphosyntax''" | "task_debug Translate = str ''Translate''"
| "task_debug Coref = str ''Coref''" | "task_debug Compare = str ''Compare''"
| "task_debug Convert = str ''Convert''" | "task_debug Phonetic = str ''Phonetic''"

text \<open>
  The closed unions \<open>TaskInput\<close> and \<open>TaskOutput\<close> have one variant per task; the payloads are the wire
  types of \<^verbatim>\<open>proto/\<close>, left open here.
\<close>

record 'i task_input =
  ti_task :: task
  ti_source_id :: rstr
  ti_payload :: 'i

record 'o task_output =
  to_task :: task
  to_payload :: 'o

definition try_from_output :: "task \<Rightarrow> 'o task_output \<Rightarrow> 'o ba_result" where
  "try_from_output t out =
     (if to_task out = t then Inr (to_payload out)
      else Inl (WorkerError (str ''expected '' @ task_debug t @ str '' got '' @ task_debug (to_task out))))"

definition validation_command :: "task \<Rightarrow> rstr" where
  "validation_command t =
     (case t of Morphosyntax \<Rightarrow> str ''morphotag'' | Fa \<Rightarrow> str ''align'' | other \<Rightarrow> task_as_str other)"

section \<open>Values\<close>

record media_input =
  mi_source_id :: rstr
  mi_path :: rstr
  mi_language :: "rstr option"

datatype media_format = Mp3 | Wav

record media_output =
  mo_source_id :: rstr
  mo_format :: media_format
  mo_encoded_bytes :: "nat list"

record 'u chat =
  ch_lines :: "'u line list"
  ch_source_id :: rstr
  ch_media :: "media_input option"

definition with_media :: "'u chat \<Rightarrow> media_input \<Rightarrow> 'u chat" where
  "with_media c m = c\<lparr>ch_media := Some m\<rparr>"

record 'u paired =
  pr_main :: "'u chat"
  pr_gold :: "'u chat"

datatype metrics_kind = MetricsCompare | MetricsBenchmark | MetricsCustom

text \<open>The cells of a row: \<open>Null\<close>, a string, or any other JSON value with its rendering.\<close>

datatype json = JNull | JString rstr | JOther rstr

record metrics_row =
  mr_kind :: rstr
  mr_columns :: "(rstr \<times> json) list"

record metrics_artifact =
  ma_source_id :: rstr
  ma_producer :: rstr
  ma_kind :: metrics_kind
  ma_schema :: "rstr list"
  ma_rows :: "metrics_row list"

datatype 'u ba_value =
    Media media_input
  | MediaOutput media_output
  | Chat "'u chat"
  | AiChat rstr "'u chat"
  | Paired "'u paired"
  | Metrics metrics_artifact
  | ConsV (value_head: "'u ba_value") (value_tail: "'u ba_value")
  | NilV
  | Failed rstr ba_error "'u ba_value option"

definition value_list :: "'u ba_value list \<Rightarrow> 'u ba_value" where
  "value_list items = foldl (\<lambda>acc item. ConsV item acc) NilV (rev items)"

fun value_source_id :: "'u ba_value \<Rightarrow> rstr" where
  "value_source_id (Media m) = mi_source_id m"
| "value_source_id (MediaOutput m) = mo_source_id m"
| "value_source_id (Chat c) = ch_source_id c"
| "value_source_id (AiChat instruction c) = ch_source_id c"
| "value_source_id (Paired p) = ch_source_id (pr_main p)"
| "value_source_id (Metrics m) = ma_source_id m"
| "value_source_id (Failed source_id error partial) = source_id"
| "value_source_id (ConsV hd' tl') = value_source_id hd'"
| "value_source_id NilV = str ''nil''"

fun is_failed :: "'u ba_value \<Rightarrow> bool" where
  "is_failed (Failed source_id error partial) = True"
| "is_failed (ConsV hd' tl') = (is_failed hd' \<or> is_failed tl')"
| "is_failed _ = False"

fun value_kind :: "'u ba_value \<Rightarrow> rstr" where
  "value_kind (Media m) = str ''Media''"
| "value_kind (MediaOutput m) = str ''MediaOutput''"
| "value_kind (Chat c) = str ''Chat''"
| "value_kind (AiChat i c) = str ''Ai''"
| "value_kind (Paired p) = str ''Paired''"
| "value_kind (Metrics m) = str ''Metrics''"
| "value_kind (Failed s e p) = str ''Failed''"
| "value_kind (ConsV h t) = str ''Cons''"
| "value_kind NilV = str ''Nil''"

section \<open>Writing a value\<close>

subsection \<open>CSV\<close>

definition needs_quotes :: "rstr \<Rightarrow> bool" where
  "needs_quotes cell \<longleftrightarrow> list_ex (\<lambda>c. c = 44 \<or> c = 34 \<or> c = 10 \<or> c = 13) cell"

definition csv_cell :: "rstr \<Rightarrow> rstr" where
  "csv_cell cell =
     (if needs_quotes cell then [34] @ concat (map (\<lambda>c. if c = 34 then [34, 34] else [c]) cell) @ [34] else cell)"

fun csv_cells :: "rstr list \<Rightarrow> rstr" where
  "csv_cells [] = []"
| "csv_cells [cell] = csv_cell cell"
| "csv_cells (cell # cells) = csv_cell cell @ [44] @ csv_cells cells"

definition csv_row :: "rstr list \<Rightarrow> rstr" where
  "csv_row cells = csv_cells cells @ [10]"

fun json_cell :: "json \<Rightarrow> rstr" where
  "json_cell JNull = []"
| "json_cell (JString s) = s"
| "json_cell (JOther s) = s"

definition row_cells :: "rstr list \<Rightarrow> metrics_row \<Rightarrow> rstr list" where
  "row_cells schema row =
     map (\<lambda>col. case map_of (mr_columns row) col of Some v \<Rightarrow> json_cell v | None \<Rightarrow> []) schema"

definition metrics_csv :: "metrics_artifact \<Rightarrow> rstr" where
  "metrics_csv artifact =
     csv_row (ma_schema artifact) @ concat (map (\<lambda>row. csv_row (row_cells (ma_schema artifact) row)) (ma_rows artifact))"

fun metrics_extension :: "metrics_kind \<Rightarrow> rstr" where
  "metrics_extension MetricsCompare = str ''compare.csv''"
| "metrics_extension MetricsBenchmark = str ''benchmark.csv''"
| "metrics_extension MetricsCustom = str ''metrics.csv''"

subsection \<open>Files\<close>

text \<open>
  The file system is a map from paths to contents. The serialization of a document with the check
  that its text still parses, the failures of the operating system, the path operation and the
  rendering of an error are parameters.
\<close>

datatype file_content = TextFile rstr | BytesFile "nat list"

record 'u write_env =
  we_chat_text :: "'u chat \<Rightarrow> rstr ba_result"
  we_write_error :: "rstr \<Rightarrow> rstr option"
  we_with_extension :: "rstr \<Rightarrow> rstr \<Rightarrow> rstr"
  we_error_text :: "ba_error \<Rightarrow> rstr"

type_synonym files = "rstr \<rightharpoonup> file_content"

definition fs_write :: "'u write_env \<Rightarrow> rstr \<Rightarrow> file_content \<Rightarrow> files \<Rightarrow> unit ba_result \<times> files" where
  "fs_write E path content fs =
     (case we_write_error E path of Some m \<Rightarrow> (Inl (IoError m), fs) | None \<Rightarrow> (Inr (), fs(path \<mapsto> content)))"

definition chat_write :: "'u write_env \<Rightarrow> 'u chat \<Rightarrow> rstr \<Rightarrow> files \<Rightarrow> unit ba_result \<times> files" where
  "chat_write E c path fs =
     (case we_chat_text E c of Inl e \<Rightarrow> (Inl e, fs) | Inr t \<Rightarrow> fs_write E path (TextFile t) fs)"

text \<open>\<open>create_new(true)\<close>: an existing file is an error.\<close>

definition media_output_write :: "'u write_env \<Rightarrow> media_output \<Rightarrow> rstr \<Rightarrow> files \<Rightarrow> unit ba_result \<times> files" where
  "media_output_write E m path fs =
     (if path \<in> dom fs then (Inl (IoError (str ''File exists'')), fs)
      else fs_write E path (BytesFile (mo_encoded_bytes m)) fs)"

definition write_metrics_csv :: "'u write_env \<Rightarrow> metrics_artifact \<Rightarrow> rstr \<Rightarrow> files \<Rightarrow> unit ba_result \<times> files" where
  "write_metrics_csv E m path fs =
     fs_write E (we_with_extension E path (metrics_extension (ma_kind m))) (TextFile (metrics_csv m)) fs"

fun value_write :: "'u write_env \<Rightarrow> 'u ba_value \<Rightarrow> rstr \<Rightarrow> files \<Rightarrow> unit ba_result \<times> files" where
  "value_write E (Chat c) path fs = chat_write E c path fs"
| "value_write E (AiChat i c) path fs = chat_write E c path fs"
| "value_write E (Paired p) path fs = chat_write E (pr_main p) path fs"
| "value_write E (Metrics m) path fs = write_metrics_csv E m path fs"
| "value_write E (Media m) path fs =
     (Inl (InternalError (str ''pipeline did not process media into a writable output'')), fs)"
| "value_write E (MediaOutput out) path fs = media_output_write E out path fs"
| "value_write E (ConsV h t) path fs =
     (case value_write E h path fs of (Inl e, fs') \<Rightarrow> (Inl e, fs') | (Inr u, fs') \<Rightarrow> value_write E t path fs')"
| "value_write E NilV path fs = (Inr (), fs)"
| "value_write E (Failed source_id error partial) path fs =
     (case fs_write E (we_with_extension E path (str ''error.log'')) (TextFile (we_error_text E error @ [10])) fs of
        (Inl e, fs') \<Rightarrow> (Inl e, fs')
      | (Inr u, fs') \<Rightarrow> (case partial of Some p \<Rightarrow> value_write E p path fs' | None \<Rightarrow> (Inr (), fs')))"

section \<open>Progress\<close>

datatype progress_kind = StageStarted | StageInjected | StageFailed | StageSkipped | SourceCompleted

record progress_event =
  pe_source_id :: rstr
  pe_task :: "task option"
  pe_kind :: progress_kind
  pe_completed :: nat
  pe_total :: nat
  pe_label :: rstr

definition stage_started :: "rstr \<Rightarrow> task \<Rightarrow> progress_event" where
  "stage_started sid t = \<lparr>pe_source_id = sid, pe_task = Some t, pe_kind = StageStarted,
     pe_completed = 0, pe_total = 0, pe_label = []\<rparr>"

definition stage_injected :: "rstr \<Rightarrow> task \<Rightarrow> progress_event" where
  "stage_injected sid t = \<lparr>pe_source_id = sid, pe_task = Some t, pe_kind = StageInjected,
     pe_completed = 0, pe_total = 0, pe_label = []\<rparr>"

definition stage_failed :: "rstr \<Rightarrow> task \<Rightarrow> rstr \<Rightarrow> progress_event" where
  "stage_failed sid t msg = \<lparr>pe_source_id = sid, pe_task = Some t, pe_kind = StageFailed,
     pe_completed = 0, pe_total = 0, pe_label = msg\<rparr>"

definition stage_tick :: "rstr \<Rightarrow> task \<Rightarrow> nat \<Rightarrow> nat \<Rightarrow> progress_event" where
  "stage_tick sid t completed total' = \<lparr>pe_source_id = sid, pe_task = Some t, pe_kind = StageStarted,
     pe_completed = completed, pe_total = total',
     pe_label = nat_to_string completed @ str ''/'' @ nat_to_string total'\<rparr>"

definition source_completed :: "rstr \<Rightarrow> progress_event" where
  "source_completed sid = \<lparr>pe_source_id = sid, pe_task = None, pe_kind = SourceCompleted,
     pe_completed = 0, pe_total = 0, pe_label = []\<rparr>"

definition PROGRESS_SCALE :: nat where "PROGRESS_SCALE = 4"

record scaled_progress =
  sp_source_id :: rstr
  sp_task :: task
  sp_outer_total :: nat
  sp_outer_step :: nat

definition scaled_progress_new :: "rstr \<Rightarrow> task \<Rightarrow> nat \<Rightarrow> scaled_progress" where
  "scaled_progress_new sid t outer_total =
     \<lparr>sp_source_id = sid, sp_task = t, sp_outer_total = outer_total, sp_outer_step = 0\<rparr>"

definition emit_scaled :: "scaled_progress \<Rightarrow> nat \<Rightarrow> nat \<Rightarrow> nat \<Rightarrow> progress_event" where
  "emit_scaled sp k_minus_1 i n =
     (let inner = (if n = 0 then 0 else i * PROGRESS_SCALE div n);
          completed = k_minus_1 * PROGRESS_SCALE + inner;
          total' = sp_outer_total sp * PROGRESS_SCALE
      in stage_tick (sp_source_id sp) (sp_task sp) completed total')"

definition start_step :: "scaled_progress \<Rightarrow> scaled_progress \<times> progress_event" where
  "start_step sp =
     (let k = sp_outer_step sp + 1 in (sp\<lparr>sp_outer_step := k\<rparr>, emit_scaled sp (k - 1) 0 1))"

definition finish_progress :: "scaled_progress \<Rightarrow> progress_event" where
  "finish_progress sp = emit_scaled sp (sp_outer_total sp) 0 1"

definition tick :: "scaled_progress \<Rightarrow> nat \<Rightarrow> nat \<Rightarrow> progress_event" where
  "tick sp i n = emit_scaled sp (sp_outer_step sp - 1) i n"

text \<open>
  A stage as the runners drive it: for each dispatch one \<open>start_step\<close> and then the ticks \<open>(i, n)\<close> of
  the backend, at the end \<open>finish\<close>.
\<close>

fun stage_steps :: "scaled_progress \<Rightarrow> (nat \<times> nat) list list \<Rightarrow> scaled_progress \<times> progress_event list" where
  "stage_steps sp [] = (sp, [])"
| "stage_steps sp (ticks # steps) =
     (let (sp1, floor') = start_step sp;
          (sp2, events) = stage_steps sp1 steps
      in (sp2, [floor'] @ map (\<lambda>(i, n). tick sp1 i n) ticks @ events))"

definition stage_progress :: "rstr \<Rightarrow> task \<Rightarrow> nat \<Rightarrow> (nat \<times> nat) list list \<Rightarrow> progress_event list" where
  "stage_progress sid t outer_total steps =
     (let (sp, events) = stage_steps (scaled_progress_new sid t outer_total) steps
      in events @ [finish_progress sp])"

section \<open>Lemmas\<close>

subsection \<open>A reader for CSV\<close>

text \<open>
  RFC 4180 as a machine over the characters: \<open>cell\<close> and \<open>row\<close> are what has been read of the current
  cell and row.
\<close>

datatype csv_state = CellStart | InPlain | InQuotes | AfterQuote

fun csv_read :: "csv_state \<Rightarrow> rstr \<Rightarrow> rstr list \<Rightarrow> rstr \<Rightarrow> rstr list list" where
  "csv_read st cell row [] = (if st = CellStart \<and> row = [] then [] else [row @ [cell]])"
| "csv_read st cell row (c # cs) =
     (if st = InQuotes then
        (if c = 34 then csv_read AfterQuote cell row cs else csv_read InQuotes (cell @ [c]) row cs)
      else if c = 34 \<and> st = AfterQuote then csv_read InQuotes (cell @ [34]) row cs
      else if c = 34 \<and> st = CellStart then csv_read InQuotes cell row cs
      else if c = 44 then csv_read CellStart [] (row @ [cell]) cs
      else if c = 10 then (row @ [cell]) # csv_read CellStart [] [] cs
      else csv_read InPlain (cell @ [c]) row cs)"

lemma csv_read_quoted:
  "csv_read InQuotes acc row (concat (map (\<lambda>c. if c = 34 then [34, 34] else [c]) cell) @ 34 # rest)
     = csv_read AfterQuote (acc @ cell) row rest"
  by (induction cell arbitrary: acc) auto

lemma csv_read_plain:
  "st \<in> {CellStart, InPlain} \<Longrightarrow> \<not> needs_quotes cell \<Longrightarrow> d = 44 \<or> d = 10 \<Longrightarrow>
     csv_read st acc row (cell @ d # rest) = csv_read InPlain (acc @ cell) row (d # rest)"
  by (induction cell arbitrary: acc st) (auto simp: needs_quotes_def)

lemma csv_read_cell:
  assumes "d = 44 \<or> d = 10"
  shows "csv_read CellStart [] row (csv_cell cell @ d # rest) = csv_read InPlain cell row (d # rest)"
proof (cases "needs_quotes cell")
  case True
  have "csv_read AfterQuote cell row (d # rest) = csv_read InPlain cell row (d # rest)"
    using assms by auto
  with True show ?thesis
    using csv_read_quoted [of "[]" row cell "d # rest"] by (simp add: csv_cell_def)
next
  case False
  with assms show ?thesis using csv_read_plain [of CellStart cell d "[]"] by (simp add: csv_cell_def)
qed

lemma csv_read_row:
  "cells \<noteq> [] \<Longrightarrow> csv_read CellStart [] row (csv_row cells @ rest) = (row @ cells) # csv_read CellStart [] [] rest"
proof (induction cells arbitrary: row rule: csv_cells.induct)
  case (2 cell)
  then show ?case using csv_read_cell [of 10 row cell rest] by (simp add: csv_row_def)
next
  case (3 cell cell' cells)
  have "csv_row (cell # cell' # cells) @ rest = csv_cell cell @ 44 # (csv_row (cell' # cells) @ rest)"
    by (simp add: csv_row_def)
  then have "csv_read CellStart [] row (csv_row (cell # cell' # cells) @ rest)
      = csv_read InPlain cell row (44 # (csv_row (cell' # cells) @ rest))"
    by (simp only: csv_read_cell simp_thms)
  also have "\<dots> = csv_read CellStart [] (row @ [cell]) (csv_row (cell' # cells) @ rest)" by simp
  finally show ?case using 3 by simp
qed simp

lemma csv_read_rows:
  "list_all (\<lambda>r. r \<noteq> []) rows \<Longrightarrow> csv_read CellStart [] [] (concat (map csv_row rows)) = rows"
  by (induction rows) (auto simp: csv_read_row)

text \<open>C16: The metrics file can be read back: an RFC 4180 reader applied to the text that is written for
  an artifact returns its header and, row by row, the cells in the order of the header, whatever
  commas, quotes and line breaks they contain.\<close>

theorem metrics_csv_roundtrip:
  assumes "ma_schema m \<noteq> []"
  shows "csv_read CellStart [] [] (metrics_csv m) = ma_schema m # map (row_cells (ma_schema m)) (ma_rows m)"
proof -
  have "metrics_csv m = concat (map csv_row (ma_schema m # map (row_cells (ma_schema m)) (ma_rows m)))"
    by (simp add: metrics_csv_def comp_def)
  moreover have "list_all (\<lambda>r. r \<noteq> []) (ma_schema m # map (row_cells (ma_schema m)) (ma_rows m))"
    using assms by (auto simp: list_all_iff row_cells_def)
  ultimately show ?thesis by (simp only: csv_read_rows)
qed

definition sample_artifact :: metrics_artifact where
  "sample_artifact = \<lparr>ma_source_id = str ''s'', ma_producer = str ''p'', ma_kind = MetricsCompare, ma_schema = [str ''name'', str ''n''],
     ma_rows = [\<lparr>mr_kind = str ''summary'', mr_columns = [(str ''name'', JString (str ''a,b'' @ [34, 10])), (str ''n'', JOther (str ''3''))]\<rparr>]\<rparr>"

theorem metrics_csv_roundtrip_witness:
  "csv_read CellStart [] [] (metrics_csv sample_artifact)
     = ma_schema sample_artifact # map (row_cells (ma_schema sample_artifact)) (ma_rows sample_artifact)"
  by (rule metrics_csv_roundtrip) (simp add: sample_artifact_def)

subsection \<open>The bar\<close>

text \<open>What a backend owes: within a call, \<open>i / n\<close> does not decrease and stays at most 1.\<close>

definition ticks_ok :: "(nat \<times> nat) list \<Rightarrow> bool" where
  "ticks_ok ts \<longleftrightarrow> list_all (\<lambda>(i, n). 0 < n \<and> i \<le> n) ts \<and> sorted_wrt (\<lambda>(i, n) (i', n'). i * n' \<le> i' * n) ts"

lemma share_le:
  assumes "0 < (n :: nat)" and "0 < n'" and "i * n' \<le> i' * n"
  shows "i * s div n \<le> i' * s div n'"
proof -
  let ?q = "i * s div n"
  have "?q * n \<le> i * s" by (simp add: mult.commute)
  then have "?q * n' * n \<le> i * s * n'" by (metis mult.assoc mult.commute mult_le_mono1)
  also have "\<dots> \<le> i' * s * n"
    using mult_le_mono1 [OF assms(3), of s] by (simp add: mult.commute mult.left_commute)
  finally have "?q * n' \<le> i' * s" using assms(1) by simp
  then show ?thesis using assms(2) by (simp add: less_eq_div_iff_mult_less_eq)
qed

lemma share_bound: "0 < (n :: nat) \<Longrightarrow> i \<le> n \<Longrightarrow> i * s div n \<le> s"
  using share_le [of n n i n s] by (simp add: mult.commute)

lemma completed_emit: "pe_completed (emit_scaled sp k i n) = k * PROGRESS_SCALE + (if n = 0 then 0 else i * PROGRESS_SCALE div n)"
  and total_emit: "pe_total (emit_scaled sp k i n) = sp_outer_total sp * PROGRESS_SCALE"
  by (simp_all add: emit_scaled_def Let_def stage_tick_def)

lemma tick_events:
  assumes "ticks_ok ts"
  shows "sorted (map (\<lambda>(i, n). pe_completed (emit_scaled sp k i n)) ts)"
    and "list_all (\<lambda>(i, n). k * PROGRESS_SCALE \<le> pe_completed (emit_scaled sp k i n) \<and>
           pe_completed (emit_scaled sp k i n) \<le> Suc k * PROGRESS_SCALE) ts"
proof -
  show "list_all (\<lambda>(i, n). k * PROGRESS_SCALE \<le> pe_completed (emit_scaled sp k i n) \<and>
           pe_completed (emit_scaled sp k i n) \<le> Suc k * PROGRESS_SCALE) ts"
    using assms by (auto simp: ticks_ok_def list_all_iff completed_emit share_bound)
  have pos: "\<forall>x \<in> set ts. case x of (i, n) \<Rightarrow> 0 < n" and srt: "sorted_wrt (\<lambda>(i, n) (i', n'). i * n' \<le> i' * n) ts"
    using assms by (auto simp: ticks_ok_def list_all_iff)
  show "sorted (map (\<lambda>(i, n). pe_completed (emit_scaled sp k i n)) ts)"
    unfolding sorted_map
    using srt by (rule sorted_wrt_mono_rel [rotated]) (use pos in \<open>auto simp: completed_emit share_le\<close>)
qed

definition in_bar :: "nat \<Rightarrow> nat \<Rightarrow> nat \<Rightarrow> progress_event \<Rightarrow> bool" where
  "in_bar lo hi tot e \<longleftrightarrow>
     lo * PROGRESS_SCALE \<le> pe_completed e \<and> pe_completed e \<le> hi * PROGRESS_SCALE \<and> pe_total e = tot * PROGRESS_SCALE"

lemma in_bar_mono: "lo' \<le> lo \<Longrightarrow> hi \<le> hi' \<Longrightarrow> in_bar lo hi tot e \<Longrightarrow> in_bar lo' hi' tot e"
  unfolding in_bar_def by (meson le_trans mult_le_mono1)

lemma list_all_in_bar_mono:
  "list_all (in_bar lo hi tot) es \<Longrightarrow> lo' \<le> lo \<Longrightarrow> hi \<le> hi' \<Longrightarrow> list_all (in_bar lo' hi' tot) es"
  by (erule list.pred_mono_strong) (rule in_bar_mono)

lemma sorted_join:
  "sorted (map f xs) \<Longrightarrow> sorted (map f ys) \<Longrightarrow> list_all (\<lambda>x. f x \<le> m) xs \<Longrightarrow> list_all (\<lambda>y. m \<le> f y) ys \<Longrightarrow>
     sorted (map f (xs @ ys))" for m :: nat
  by (induction xs) (auto simp: list_all_iff intro: order_trans)

lemma in_bar_bounds:
  "list_all (in_bar lo hi tot) es \<Longrightarrow> list_all (\<lambda>e. pe_completed e \<le> hi * PROGRESS_SCALE) es"
  "list_all (in_bar lo hi tot) es \<Longrightarrow> list_all (\<lambda>e. lo * PROGRESS_SCALE \<le> pe_completed e) es"
  by (auto simp: list_all_iff in_bar_def)

lemma stage_steps_events:
  assumes "list_all ticks_ok steps"
  shows "sorted (map pe_completed (snd (stage_steps sp steps)))
    \<and> list_all (in_bar (sp_outer_step sp) (sp_outer_step sp + length steps) (sp_outer_total sp)) (snd (stage_steps sp steps))"
  using assms
proof (induction steps arbitrary: sp)
  case (Cons ts steps)
  let ?k = "sp_outer_step sp" and ?sp1 = "sp\<lparr>sp_outer_step := Suc (sp_outer_step sp)\<rparr>" and ?T = "sp_outer_total sp"
  let ?te = "map (\<lambda>(i, n). emit_scaled ?sp1 ?k i n) ts" and ?rest = "snd (stage_steps ?sp1 steps)"
  have ev: "snd (stage_steps sp (ts # steps)) = (emit_scaled sp ?k 0 1 # ?te) @ ?rest"
    by (simp add: start_step_def Let_def tick_def case_prod_beta)
  have rest: "sorted (map pe_completed ?rest)" "list_all (in_bar (Suc ?k) (Suc ?k + length steps) ?T) ?rest"
    using Cons.IH [of ?sp1] Cons.prems by simp_all
  have te: "sorted (map pe_completed ?te)" "list_all (in_bar ?k (Suc ?k) ?T) ?te"
    using tick_events [of ts, where sp = ?sp1 and k = ?k] Cons.prems
    by (simp_all add: comp_def case_prod_unfold list.pred_map in_bar_def total_emit)
  have fl: "list_all (in_bar ?k (Suc ?k) ?T) (emit_scaled sp ?k 0 1 # ?te)"
    using te by (simp add: in_bar_def completed_emit total_emit)
  moreover have "sorted (map pe_completed (emit_scaled sp ?k 0 1 # ?te))"
    using te in_bar_bounds(2) [OF te(2)] by (simp add: completed_emit list_all_iff)
  ultimately have "sorted (map pe_completed (snd (stage_steps sp (ts # steps))))"
    unfolding ev using rest in_bar_bounds by (blast intro: sorted_join)
  moreover have "list_all (in_bar ?k (?k + length (ts # steps)) ?T) (snd (stage_steps sp (ts # steps)))"
    unfolding ev list_all_append using list_all_in_bar_mono [OF fl] list_all_in_bar_mono [OF rest(2)] by simp
  ultimately show ?case by blast
qed simp

text \<open>The progress bar of a stage: when every backend reports ratios that do not decrease and stay at
  most 1, and there are at most as many dispatches as announced, the completed count never goes
  back over the whole stage, the total is the same in every event, the count never exceeds it and the
  last event is at 100 per cent.\<close>

lemma stage_progress_monotone:
  assumes "list_all ticks_ok steps" and "length steps \<le> outer_total"
  shows "sorted (map pe_completed (stage_progress sid t outer_total steps))
    \<and> list_all (\<lambda>e. pe_completed e \<le> pe_total e \<and> pe_total e = outer_total * PROGRESS_SCALE)
        (stage_progress sid t outer_total steps)
    \<and> pe_completed (last (stage_progress sid t outer_total steps)) = outer_total * PROGRESS_SCALE"
proof -
  let ?sp = "scaled_progress_new sid t outer_total"
  obtain sp ev where s: "stage_steps ?sp steps = (sp, ev)" by force
  have sp: "sp_outer_total sp = outer_total"
  proof -
    have "sp_outer_total (fst (stage_steps q steps)) = sp_outer_total q" for q
      by (induction steps arbitrary: q) (simp_all add: start_step_def Let_def case_prod_beta)
    from this [of ?sp, unfolded s] show ?thesis by (simp add: scaled_progress_new_def)
  qed
  have "sorted (map pe_completed ev)" and "list_all (in_bar 0 (length steps) outer_total) ev"
    using stage_steps_events [OF assms(1), of ?sp] s by (simp_all add: scaled_progress_new_def)
  moreover from this(2) have "list_all (in_bar 0 outer_total outer_total) ev"
    by (rule list_all_in_bar_mono) (use assms(2) in simp_all)
  moreover have "stage_progress sid t outer_total steps = ev @ [finish_progress sp]"
    by (simp add: stage_progress_def s)
  moreover have "pe_completed (finish_progress sp) = outer_total * PROGRESS_SCALE"
      "pe_total (finish_progress sp) = outer_total * PROGRESS_SCALE"
    by (simp_all add: finish_progress_def completed_emit total_emit sp)
  ultimately show ?thesis by (auto simp: sorted_append list_all_iff in_bar_def)
qed

lemma stage_progress_monotone_witness:
  "sorted (map pe_completed (stage_progress (str ''s'') Fa 2 [[(1, 3), (3, 3)], [(1, 2)]]))"
  using stage_progress_monotone [of "[[(1, 3), (3, 3)], [(1, 2)]]" 2 "str ''s''" Fa] by (simp add: ticks_ok_def)

end
