(* ===== verification/TaskOrder.thy ===== *)
theory TaskOrder
  imports Tasks
begin

text \<open>
  The task order of \<^verbatim>\<open>batchalign-engine/src/pipeline.rs\<close>: \<open>expand_with_requires\<close> and
  \<open>topo_sort_stable\<close>. The iteration order of a hash set or hash map is not fixed, so it is a
  parameter: \<open>nodes\<close> lists the task set and \<open>keys\<close> the in-degree map, each in an arbitrary order.
  The lemmas show that the loop ends, that its result is the one greedy order of the declared tasks,
  and hence that it does not depend on these parameters.
\<close>

section \<open>The sort\<close>

definition expand_with_requires :: "task list \<Rightarrow> task set" where
  "expand_with_requires declared = set declared"

definition rank_of :: "task list \<Rightarrow> task \<Rightarrow> nat" where
  "rank_of declared t =
     (case position (\<lambda>x. x = t) declared of Some i \<Rightarrow> i | None \<Rightarrow> length declared + task_index t)"

type_synonym indegrees = "task \<Rightarrow> nat"
type_synonym successors = "task \<rightharpoonup> task list"

definition add_edge :: "task list \<Rightarrow> task \<Rightarrow> task \<Rightarrow> indegrees \<times> successors \<Rightarrow> indegrees \<times> successors" where
  "add_edge nodes t req = (\<lambda>(ind, edges).
     if req \<in> set nodes
     then (ind(t := ind t + 1), edges(req \<mapsto> (case edges req of Some ts \<Rightarrow> ts | None \<Rightarrow> []) @ [t]))
     else (ind, edges))"

definition build_graph :: "task list \<Rightarrow> indegrees \<times> successors" where
  "build_graph nodes =
     fold (\<lambda>t g. fold (add_edge nodes t) (requires t) g) nodes
       (\<lambda>_. 0, \<lambda>t. if t \<in> set nodes then Some [] else None)"

definition release :: "task \<Rightarrow> indegrees \<times> task list \<Rightarrow> indegrees \<times> task list" where
  "release s = (\<lambda>(ind, ready).
     let d = ind s - 1 in (ind(s := d), if d = 0 then ready @ [s] else ready))"

partial_function (option) topo_loop ::
    "(task \<Rightarrow> nat) \<Rightarrow> indegrees \<Rightarrow> successors \<Rightarrow> task list \<Rightarrow> task list \<Rightarrow> task list option" where
  "topo_loop rank ind edges ready out =
     (if ready = [] then Some out
      else (let sorted_ready = sort_key rank ready;
                pick = hd sorted_ready;
                ready1 = tl sorted_ready;
                (ind', ready') = (case edges pick of
                    Some succs \<Rightarrow> fold release succs (ind, ready1)
                  | None \<Rightarrow> (ind, ready1))
            in topo_loop rank ind' (edges(pick := None)) ready' (out @ [pick])))"

declare topo_loop.simps [code]

definition topo_sort_stable :: "task list \<Rightarrow> task list \<Rightarrow> task list \<Rightarrow> task list option" where
  "topo_sort_stable declared nodes keys =
     (let (ind, edges) = build_graph nodes
      in topo_loop (rank_of declared) ind edges (filter (\<lambda>t. ind t = 0) keys) [])"

section \<open>The order it computes\<close>

text \<open>The tasks of \<open>S\<close> that may run next once \<open>done'\<close> have run.\<close>

definition available :: "task set \<Rightarrow> task list \<Rightarrow> task set" where
  "available S done' = {t \<in> S. t \<notin> set done' \<and> set (requires t) \<inter> S \<subseteq> set done'}"

text \<open>Each task of \<open>out\<close> is available after the ones before it, and of least rank among the available.\<close>

definition greedy_prefix :: "(task \<Rightarrow> nat) \<Rightarrow> task set \<Rightarrow> task list \<Rightarrow> bool" where
  "greedy_prefix rank S out \<longleftrightarrow>
     (\<forall>i < length out. out ! i \<in> available S (take i out) \<and>
        (\<forall>t \<in> available S (take i out). rank (out ! i) \<le> rank t))"

definition greedy_order :: "(task \<Rightarrow> nat) \<Rightarrow> task set \<Rightarrow> task list \<Rightarrow> bool" where
  "greedy_order rank S out \<longleftrightarrow> distinct out \<and> set out = S \<and> greedy_prefix rank S out"

lemma greedy_prefix_snoc:
  "greedy_prefix rank S out \<Longrightarrow> p \<in> available S out \<Longrightarrow> (\<And>t. t \<in> available S out \<Longrightarrow> rank p \<le> rank t) \<Longrightarrow>
     greedy_prefix rank S (out @ [p])"
  by (auto simp: greedy_prefix_def nth_append less_Suc_eq)

lemma greedy_unique:
  assumes "greedy_order rank S xs" and "greedy_order rank S ys" and inj: "inj_on rank S"
  shows "xs = ys"
proof -
  have len: "length xs = length ys"
    using assms by (metis greedy_order_def distinct_card)
  have "take n xs = take n ys" if "n \<le> length xs" for n
    using that
  proof (induction n)
    case (Suc n)
    then have e: "take n xs = take n ys" and n: "n < length xs" "n < length ys" using len by simp_all
    have x: "xs ! n \<in> available S (take n xs)" "\<forall>t \<in> available S (take n xs). rank (xs ! n) \<le> rank t"
      and y: "ys ! n \<in> available S (take n ys)" "\<forall>t \<in> available S (take n ys). rank (ys ! n) \<le> rank t"
      using assms n by (auto simp: greedy_order_def greedy_prefix_def)
    then have "rank (xs ! n) = rank (ys ! n)" using e by (metis le_antisym)
    moreover have "xs ! n \<in> S" "ys ! n \<in> S" using x y by (auto simp: available_def)
    ultimately have "xs ! n = ys ! n" using inj by (auto dest: inj_onD)
    with e n show ?case by (simp add: take_Suc_conv_app_nth)
  qed simp
  from this [of "length xs"] len show ?thesis by simp
qed

lemma rank_of_inj: "inj_on (rank_of declared) (set declared)"
proof (rule inj_onI)
  fix s t
  assume "s \<in> set declared" "t \<in> set declared" and e: "rank_of declared s = rank_of declared t"
  then have "position (\<lambda>x. x = s) declared \<noteq> None" "position (\<lambda>x. x = t) declared \<noteq> None"
    unfolding position_None by blast+
  then obtain i j where ij: "position (\<lambda>x. x = s) declared = Some i" "position (\<lambda>x. x = t) declared = Some j"
    by blast
  then have "i = j" using e by (simp add: rank_of_def)
  then show "s = t" using position_Some [OF ij(1)] position_Some [OF ij(2)] by simp
qed

text \<open>The requirements form no cycle: they decrease a level.\<close>

fun level :: "task \<Rightarrow> nat" where
  "level UtSeg = 1" | "level Fa = 2" | "level Morphosyntax = 2" | "level Phonetic = 3"
| "level Coref = 3" | "level Translate = 3" | "level _ = 0"

lemma requires_level: "r \<in> set (requires t) \<Longrightarrow> level r < level t"
  by (cases t) auto

lemma requires_distinct: "distinct (requires t)"
  by (cases t) auto

lemma not_self_required: "t \<notin> set (requires t)"
  using requires_level by blast

section \<open>The graph\<close>

lemma add_edges:
  "distinct reqs \<Longrightarrow> fold (add_edge nodes t) reqs (ind, edges) =
     (ind(t := ind t + length (filter (\<lambda>r. r \<in> set nodes) reqs)),
      \<lambda>r. if r \<in> set nodes \<and> r \<in> set reqs then Some ((case edges r of Some ts \<Rightarrow> ts | None \<Rightarrow> []) @ [t]) else edges r)"
  by (induction reqs arbitrary: ind edges) (auto simp: add_edge_def fun_eq_iff)

lemma build_graph_from:
  assumes "distinct ts" and "set ts \<subseteq> set nodes"
  shows "fold (\<lambda>t g. fold (add_edge nodes t) (requires t) g) ts
           (\<lambda>_. 0, \<lambda>t. if t \<in> set nodes then Some [] else None) =
         (\<lambda>t. if t \<in> set ts then length (filter (\<lambda>r. r \<in> set nodes) (requires t)) else 0,
          \<lambda>r. if r \<in> set nodes then Some (filter (\<lambda>t. r \<in> set (requires t)) ts) else None)"
  using assms
proof (induction ts rule: rev_induct)
  case (snoc t ts)
  then show ?case
    by (auto simp: add_edges requires_distinct fun_eq_iff)
qed auto

lemma build_graph_eq:
  "distinct nodes \<Longrightarrow> build_graph nodes =
     (\<lambda>t. if t \<in> set nodes then length (filter (\<lambda>r. r \<in> set nodes) (requires t)) else 0,
      \<lambda>r. if r \<in> set nodes then Some (filter (\<lambda>t. r \<in> set (requires t)) nodes) else None)"
  unfolding build_graph_def by (rule build_graph_from) simp_all

section \<open>The loop\<close>

lemma fold_release:
  "distinct ss \<Longrightarrow> fold release ss (ind, ready) =
     (\<lambda>t. if t \<in> set ss then ind t - 1 else ind t, ready @ filter (\<lambda>s. ind s - 1 = 0) ss)"
proof (induction ss arbitrary: ind ready)
  case (Cons s ss)
  then have "filter (\<lambda>x. (ind(s := ind s - 1)) x - 1 = 0) ss = filter (\<lambda>x. ind x - 1 = 0) ss"
    by (intro filter_cong) auto
  with Cons show ?case by (auto simp: release_def Let_def fun_eq_iff)
qed simp

text \<open>The requirements of \<open>t\<close> within \<open>S\<close> that have not run yet.\<close>

definition pending :: "task set \<Rightarrow> task list \<Rightarrow> task \<Rightarrow> task set" where
  "pending S out t = {r \<in> set (requires t) \<inter> S. r \<notin> set out}"

lemma finite_pending [simp]: "finite (pending S out t)"
  by (simp add: pending_def)

definition topo_inv ::
    "(task \<Rightarrow> nat) \<Rightarrow> task set \<Rightarrow> indegrees \<Rightarrow> successors \<Rightarrow> task list \<Rightarrow> task list \<Rightarrow> bool" where
  "topo_inv rank S ind edges ready out \<longleftrightarrow>
     distinct out \<and> set out \<subseteq> S \<and> greedy_prefix rank S out \<and>
     (\<forall>t \<in> set out. pending S out t = {}) \<and>
     (\<forall>t \<in> S - set out. ind t = card (pending S out t)) \<and>
     (\<forall>r \<in> S - set out. \<exists>ss. edges r = Some ss \<and> distinct ss \<and> set ss = {t \<in> S. r \<in> set (requires t)}) \<and>
     distinct ready \<and> set ready = available S out"

lemma available_pending: "available S out = {t \<in> S - set out. pending S out t = {}}"
  by (auto simp: available_def pending_def)

lemma topo_inv_step:
  assumes inv: "topo_inv rank S ind edges ready out" and fin: "finite S" and ne: "ready \<noteq> []"
  defines "sr \<equiv> sort_key rank ready"
  shows "\<exists>ss. edges (hd sr) = Some ss \<and>
    topo_inv rank S (fst (fold release ss (ind, tl sr))) (edges(hd sr := None))
      (snd (fold release ss (ind, tl sr))) (out @ [hd sr])"
proof -
  let ?p = "hd sr"
  have sr: "sr \<noteq> []" "set sr = set ready" "distinct sr" "sorted (map rank sr)"
    using ne inv by (auto simp: sr_def topo_inv_def simp flip: set_empty)
  then have p_in: "?p \<in> available S out" using inv by (metis hd_in_set topo_inv_def)
  then have p: "?p \<in> S" "?p \<notin> set out" "pending S out ?p = {}" by (auto simp: available_pending)
  have least: "rank ?p \<le> rank t" if "t \<in> available S out" for t
  proof -
    have "t \<in> set sr" using that sr(2) inv by (simp add: topo_inv_def)
    then show ?thesis using sr(1,4) by (cases sr) auto
  qed
  obtain ss where ss: "edges ?p = Some ss" "distinct ss" "set ss = {t \<in> S. ?p \<in> set (requires t)}"
    using inv p unfolding topo_inv_def by blast
  let ?out = "out @ [?p]" and ?ready = "tl sr @ filter (\<lambda>s. ind s - 1 = 0) ss"
  let ?ind = "\<lambda>t. if t \<in> set ss then ind t - 1 else ind t"
  have pend: "pending S ?out t = pending S out t - {?p}" for t by (auto simp: pending_def)
  have ss_out: "t \<notin> set ?out" "?p \<in> pending S out t" if "t \<in> set ss" for t
    using that ss p inv not_self_required by (auto simp: topo_inv_def pending_def)
  have ind': "?ind t = card (pending S ?out t)" if "t \<in> S - set ?out" for t
  proof -
    have "ind t = card (pending S out t)" using inv that by (auto simp: topo_inv_def)
    moreover have "?p \<in> pending S out t \<longleftrightarrow> t \<in> set ss" using that ss p by (auto simp: pending_def)
    ultimately show ?thesis by (simp add: pend)
  qed
  have released: "ind s - 1 = 0 \<longleftrightarrow> pending S ?out s = {}" if "s \<in> set ss" for s
    using ind' [of s] that ss ss_out(1) [OF that] by simp
  have old: "pending S ?out t = {} \<longleftrightarrow> pending S out t = {}" if "t \<in> S - set ?out" "t \<notin> set ss" for t
    using that ss p by (auto simp: pend pending_def)
  have tl_sr: "set (tl sr) = available S out - {?p}"
    using sr inv by (cases sr) (auto simp: topo_inv_def)
  have ready': "set ?ready = available S ?out"
  proof (rule set_eqI)
    fix t
    show "t \<in> set ?ready \<longleftrightarrow> t \<in> available S ?out"
    proof (cases "t \<in> set ss")
      case True
      then have "t \<notin> available S out" using ss_out(2) by (auto simp: available_pending)
      with True show ?thesis
        using ss released [OF True] ss_out(1) [OF True] by (auto simp: tl_sr available_pending)
    next
      case False
      then show ?thesis using old by (auto simp: tl_sr available_pending)
    qed
  qed
  have dist: "distinct ?ready"
    using sr(3) ss(2) ss_out(2) by (auto simp: distinct_tl tl_sr available_pending)
  have edges': "\<forall>r \<in> S - set ?out. \<exists>ss. (edges(?p := None)) r = Some ss \<and> distinct ss \<and> set ss = {t \<in> S. r \<in> set (requires t)}"
    using inv by (auto simp: topo_inv_def)
  have closed: "\<forall>t \<in> set ?out. pending S ?out t = {}"
    using inv p by (auto simp: topo_inv_def pend)
  have greedy: "greedy_prefix rank S ?out"
    using inv p_in least by (auto simp: topo_inv_def intro: greedy_prefix_snoc)
  have "topo_inv rank S ?ind (edges(?p := None)) ?ready ?out"
    unfolding topo_inv_def
    using inv p ind' ready' dist edges' closed greedy by (auto simp: topo_inv_def)
  then show ?thesis using ss by (auto simp: fold_release)
qed

lemma ready_empty_all_done:
  assumes "available S out = {}" and "set out \<subseteq> S"
  shows "set out = S"
proof (rule ccontr)
  assume "set out \<noteq> S"
  then obtain t0 where "t0 \<in> S - set out" using assms(2) by auto
  then obtain t where t: "t \<in> S - set out" "\<And>s. s \<in> S - set out \<Longrightarrow> level t \<le> level s"
    using ex_has_least_nat [of "\<lambda>t. t \<in> S - set out" t0 level] by blast
  then have "set (requires t) \<inter> S \<subseteq> set out" using requires_level by fastforce
  with t assms(1) show False by (auto simp: available_def)
qed

lemma topo_loop_greedy:
  assumes "topo_inv rank S ind edges ready out" and "finite S"
  shows "\<exists>res. topo_loop rank ind edges ready out = Some res \<and> greedy_order rank S res"
  using assms
proof (induction "card S - length out" arbitrary: ind edges ready out rule: less_induct)
  case less
  show ?case
  proof (cases "ready = []")
    case True
    then have "set out = S"
      using less.prems(1) ready_empty_all_done [of S out] by (auto simp: topo_inv_def)
    with True less.prems(1) show ?thesis
      by (subst topo_loop.simps) (auto simp: topo_inv_def greedy_order_def)
  next
    case False
    let ?sr = "sort_key rank ready"
    obtain ss where ss: "edges (hd ?sr) = Some ss" and
      inv: "topo_inv rank S (fst (fold release ss (ind, tl ?sr))) (edges(hd ?sr := None))
        (snd (fold release ss (ind, tl ?sr))) (out @ [hd ?sr])"
      using topo_inv_step [OF less.prems False] by blast
    have "set (out @ [hd ?sr]) \<subseteq> S" "distinct (out @ [hd ?sr])"
      using inv unfolding topo_inv_def by blast+
    then have "card (set (out @ [hd ?sr])) \<le> card S" "distinct (out @ [hd ?sr])"
      using less.prems(2) card_mono by blast+
    then have "length (out @ [hd ?sr]) \<le> card S" by (metis distinct_card)
    then have "card S - length (out @ [hd ?sr]) < card S - length out" by simp
    from less.hyps [OF this inv less.prems(2)] False ss show ?thesis
      by (subst topo_loop.simps) (simp add: Let_def case_prod_beta)
  qed
qed

lemma topo_sort_greedy:
  assumes "distinct nodes" and "set nodes = expand_with_requires declared"
    and "distinct keys" and "set keys = set nodes"
  shows "\<exists>out. topo_sort_stable declared nodes keys = Some out \<and>
    greedy_order (rank_of declared) (set declared) out"
proof -
  let ?S = "set declared"
  have S: "set nodes = ?S" using assms(2) by (simp add: expand_with_requires_def)
  obtain ind edges where g: "build_graph nodes = (ind, edges)" by force
  have ind: "ind t = card (pending ?S [] t)" if "t \<in> ?S" for t
  proof -
    have "ind t = length (filter (\<lambda>r. r \<in> ?S) (requires t))"
      using g that build_graph_eq [OF assms(1)] by (auto simp: S)
    also have "\<dots> = card (set (filter (\<lambda>r. r \<in> ?S) (requires t)))"
      by (rule sym, rule distinct_card) (simp add: requires_distinct)
    also have "set (filter (\<lambda>r. r \<in> ?S) (requires t)) = pending ?S [] t" by (auto simp: pending_def)
    finally show ?thesis .
  qed
  have "set (filter (\<lambda>t. ind t = 0) keys) = available ?S []"
    using assms(4) ind by (auto simp: S available_pending)
  moreover have "\<forall>r \<in> ?S. \<exists>ss. edges r = Some ss \<and> distinct ss \<and> set ss = {t \<in> ?S. r \<in> set (requires t)}"
    using g build_graph_eq [OF assms(1)] assms(1) by (auto simp: S)
  ultimately have "topo_inv (rank_of declared) ?S ind edges (filter (\<lambda>t. ind t = 0) keys) []"
    using ind assms(3) by (auto simp: topo_inv_def greedy_prefix_def)
  from topo_loop_greedy [OF this] show ?thesis by (simp add: topo_sort_stable_def g)
qed

text \<open>C8: The stage order of a pipeline: for every list of declared tasks and whatever order the hash
  containers are iterated in, the sort ends; its result contains each declared task once, each task
  after all of its declared requirements, and at every place stands, among the tasks that may run
  next, the one declared earliest.\<close>

theorem topo_sort_correct:
  assumes "distinct nodes" and "set nodes = expand_with_requires declared"
    and "distinct keys" and "set keys = set nodes"
  shows "\<exists>out. topo_sort_stable declared nodes keys = Some out \<and> distinct out \<and> set out = set declared
    \<and> (\<forall>i < length out. set (requires (out ! i)) \<inter> set declared \<subseteq> set (take i out)
        \<and> (\<forall>t \<in> available (set declared) (take i out). rank_of declared (out ! i) \<le> rank_of declared t))"
  using topo_sort_greedy [OF assms]
  by (auto simp: greedy_order_def greedy_prefix_def available_def)

theorem topo_sort_correct_witness:
  "\<exists>out. topo_sort_stable [Fa, Morphosyntax, UtSeg, Utr] [UtSeg, Fa, Utr, Morphosyntax] [Utr, UtSeg, Fa, Morphosyntax] = Some out
    \<and> distinct out \<and> set out = set [Fa, Morphosyntax, UtSeg, Utr]"
  using topo_sort_correct [of "[UtSeg, Fa, Utr, Morphosyntax]" "[Fa, Morphosyntax, UtSeg, Utr]"
      "[Utr, UtSeg, Fa, Morphosyntax]"]
  by (auto simp: expand_with_requires_def insert_commute)

text \<open>The stage order is deterministic: it does not depend on the order in which the hash set of tasks
  and the hash map of in-degrees are iterated.\<close>

lemma topo_sort_deterministic:
  assumes "distinct nodes" and "set nodes = expand_with_requires declared"
    and "distinct keys" and "set keys = set nodes"
    and "distinct nodes'" and "set nodes' = expand_with_requires declared"
    and "distinct keys'" and "set keys' = set nodes'"
  shows "topo_sort_stable declared nodes keys = topo_sort_stable declared nodes' keys'"
  using topo_sort_greedy [OF assms(1-4)] topo_sort_greedy [OF assms(5-8)] greedy_unique rank_of_inj
  by metis

lemma topo_sort_deterministic_witness:
  "topo_sort_stable [Phonetic, Fa, Utr] [Phonetic, Fa, Utr] [Utr, Fa, Phonetic] =
   topo_sort_stable [Phonetic, Fa, Utr] [Fa, Utr, Phonetic] [Phonetic, Utr, Fa]"
  by (rule topo_sort_deterministic) (auto simp: expand_with_requires_def)

lemma sample_order:
  "topo_sort_stable [Fa, Morphosyntax, UtSeg, Utr] [UtSeg, Fa, Utr, Morphosyntax] [Utr, UtSeg, Fa, Morphosyntax]
     = Some [UtSeg, Morphosyntax, Utr, Fa]"
  by code_simp

end
