(* ===== verification/Pipeline.thy ===== *)
theory Pipeline
  imports TaskOrder "HOL-Library.Multiset"
begin

text \<open>
  \<^verbatim>\<open>batchalign-engine/src/pipeline.rs\<close>: how one input is driven through the stages (\<open>try_step\<close>,
  \<open>run_one\<close>), the gates around every stage, the provenance stamps at the end, and how the outcomes of
  concurrent runs are put back in input order. A runner may change the engine and its cache: the
  state \<open>'s\<close>. The lemmas relate a run to the chain of its stages.
\<close>

section \<open>Pipelines\<close>

datatype stage_gate = Pre | Post

type_synonym ('u, 's) runner =
  "'u ba_value \<Rightarrow> 's \<Rightarrow> unit ba_result \<times> 'u ba_value \<times> progress_event list \<times> 's"

text \<open>
  \<open>pl_gate\<close> is \<open>validate_stage_input\<close> / \<open>validate_stage_output\<close> (the document is serialized, parsed again
  and checked by the CHAT validator), \<open>pl_error_text\<close> the text of an error with the optional
  backtrace, \<open>pl_sha\<close> the build identity.
\<close>

record ('u, 's) pipeline =
  pl_order :: "task list"
  pl_runners :: "task \<Rightarrow> ('u, 's) runner option"
  pl_gate :: "stage_gate \<Rightarrow> task \<Rightarrow> 'u chat \<Rightarrow> unit ba_result"
  pl_engine_name :: "task \<Rightarrow> rstr option"
  pl_error_text :: "ba_error \<Rightarrow> rstr"
  pl_sha :: rstr

fun validate_value_for_stage :: "('u, 's) pipeline \<Rightarrow> 'u ba_value \<Rightarrow> task \<Rightarrow> stage_gate \<Rightarrow> unit ba_result" where
  "validate_value_for_stage P (Chat c) t g = pl_gate P g t c"
| "validate_value_for_stage P (AiChat i c) t g = pl_gate P g t c"
| "validate_value_for_stage P (Paired p) t g =
     bind_res (pl_gate P g t (pr_main p)) (\<lambda>_. pl_gate P g t (pr_gold p))"
| "validate_value_for_stage P (ConsV h tl') t g =
     bind_res (validate_value_for_stage P h t g) (\<lambda>_. validate_value_for_stage P tl' t g)"
| "validate_value_for_stage P (Media m) t g = Inr ()"
| "validate_value_for_stage P (MediaOutput m) t g = Inr ()"
| "validate_value_for_stage P (Metrics m) t g = Inr ()"
| "validate_value_for_stage P NilV t g = Inr ()"
| "validate_value_for_stage P (Failed s e p) t g = Inr ()"

definition labelled_event :: "rstr \<Rightarrow> task \<Rightarrow> progress_kind \<Rightarrow> rstr \<Rightarrow> progress_event" where
  "labelled_event sid t k label = \<lparr>pe_source_id = sid, pe_task = Some t, pe_kind = k,
     pe_completed = 0, pe_total = 0, pe_label = label\<rparr>"

definition try_step :: "('u, 's) pipeline \<Rightarrow> task \<Rightarrow> 'u ba_value \<Rightarrow> 's \<Rightarrow> 'u ba_value \<times> progress_event list \<times> 's" where
  "try_step P t value s =
     (let sid = value_source_id value;
          started = labelled_event sid t StageStarted (task_debug t);
          failed = (\<lambda>e. labelled_event sid t StageFailed (pl_error_text P e))
      in case pl_runners P t of
           None \<Rightarrow> (Failed sid (InternalError (str ''no runner for '' @ task_debug t)) (Some value), [started], s)
         | Some runner \<Rightarrow>
             (case validate_value_for_stage P value t Pre of
                Inl error \<Rightarrow> (Failed sid error (Some value), [started, failed error], s)
              | Inr _ \<Rightarrow>
                  (case runner value s of (result, value', events, s') \<Rightarrow>
                     (case result of
                        Inr _ \<Rightarrow>
                          (case validate_value_for_stage P value' t Post of
                             Inl error \<Rightarrow> (Failed sid error (Some value'), started # events @ [failed error], s')
                           | Inr _ \<Rightarrow>
                               (value', started # events @ [labelled_event sid t StageInjected (task_debug t)], s'))
                      | Inl e \<Rightarrow> (Failed sid e (Some value'), started # events @ [failed e], s')))))"

definition stamp_lines :: "('u, 's) pipeline \<Rightarrow> nat \<Rightarrow> 'u chat \<Rightarrow> 'u chat" where
  "stamp_lines P secs c =
     c\<lparr>ch_lines := fold (\<lambda>t lines. stamp_provenance (pl_sha P) secs lines (task_as_str t) (pl_engine_name P t))
         (pl_order P) (ch_lines c)\<rparr>"

fun stamp_chats_in_value :: "('u, 's) pipeline \<Rightarrow> nat \<Rightarrow> 'u ba_value \<Rightarrow> 'u ba_value" where
  "stamp_chats_in_value P secs (Chat c) = Chat (stamp_lines P secs c)"
| "stamp_chats_in_value P secs (AiChat i c) = AiChat i (stamp_lines P secs c)"
| "stamp_chats_in_value P secs (ConsV h t) = ConsV (stamp_chats_in_value P secs h) (stamp_chats_in_value P secs t)"
| "stamp_chats_in_value P secs v = v"

definition stamp_run_provenance :: "('u, 's) pipeline \<Rightarrow> nat \<Rightarrow> 'u ba_value \<Rightarrow> 'u ba_value" where
  "stamp_run_provenance P secs value = (if is_failed value then value else stamp_chats_in_value P secs value)"

text \<open>The loop over the order; the last component tells whether it returned from within.\<close>

fun run_loop :: "('u, 's) pipeline \<Rightarrow> task list \<Rightarrow> 'u ba_value \<Rightarrow> 's \<Rightarrow>
    'u ba_value \<times> progress_event list \<times> 's \<times> bool" where
  "run_loop P [] value s = (value, [], s, False)"
| "run_loop P (t # ts) value s =
     (if is_failed value then (value, [], s, True)
      else (let (value1, ev1, s1) = try_step P t value s;
                (value2, ev2, s2, returned) = run_loop P ts value1 s1
            in (value2, ev1 @ ev2, s2, returned)))"

definition run_one :: "('u, 's) pipeline \<Rightarrow> nat \<Rightarrow> 'u ba_value \<Rightarrow> 's \<Rightarrow> 'u ba_value \<times> progress_event list \<times> 's" where
  "run_one P secs value s =
     (let (value', events, s', returned) = run_loop P (pl_order P) value s
      in if returned then (value', events, s')
         else (let stamped = stamp_run_provenance P secs value'
               in (stamped, events @ [source_completed (value_source_id stamped)], s')))"

text \<open>
  Construction: the runners are the canonical ones of the order, and every task of the order needs a
  registered backend. \<open>None\<close> stands for the \<open>ValueError\<close> of the first task without one.
\<close>

definition first_unserved :: "(task \<Rightarrow> bool) \<Rightarrow> task list \<Rightarrow> task option" where
  "first_unserved serves order = (case filter (\<lambda>t. \<not> serves t) order of [] \<Rightarrow> None | t # ts \<Rightarrow> Some t)"

definition runners_of :: "(task \<Rightarrow> ('u, 's) runner) \<Rightarrow> task list \<Rightarrow> task \<Rightarrow> ('u, 's) runner option" where
  "runners_of canonical_runner order =
     fold (\<lambda>t m. m(t := Some (canonical_runner t))) order (\<lambda>_. None)"

text \<open>
  The collecting loop of \<open>run_inner_with_outcome_callback\<close>: results arrive in completion order, tagged
  with the index of their input; an error ends the run. \<open>None\<close> at the end is the panic of \<open>expect\<close>.
\<close>

fun place_outcomes :: "'a option list \<Rightarrow> ('e + nat \<times> 'a) list \<Rightarrow> 'e + 'a option list" where
  "place_outcomes outcomes [] = Inr outcomes"
| "place_outcomes outcomes (Inl e # rs) = Inl e"
| "place_outcomes outcomes (Inr (idx, v) # rs) = place_outcomes (outcomes[idx := Some v]) rs"

definition collect_outcomes :: "bool \<Rightarrow> nat \<Rightarrow> ('e + nat \<times> 'a) list \<Rightarrow> 'e + 'a list option" where
  "collect_outcomes retain_outcomes n results =
     (case place_outcomes (replicate n None) results of
        Inl e \<Rightarrow> Inl e
      | Inr outcomes \<Rightarrow>
          Inr (if retain_outcomes
               then (if list_all (\<lambda>o'. o' \<noteq> None) outcomes then Some (map the outcomes) else None)
               else Some []))"

section \<open>A run as a chain of stages\<close>

text \<open>
  The abstract run: every stage finds its input accepted by the gate, its runner succeeds, and its
  output is accepted again; no value on the way has failed.
\<close>

inductive chain :: "('u, 's) pipeline \<Rightarrow> task list \<Rightarrow> 'u ba_value \<times> 's \<Rightarrow> progress_event list \<Rightarrow> 'u ba_value \<times> 's \<Rightarrow> bool"
  for P where
  chain_nil: "\<not> is_failed v \<Longrightarrow> chain P [] (v, s) [] (v, s)"
| chain_step: "\<not> is_failed v \<Longrightarrow> pl_runners P t = Some runner \<Longrightarrow>
    validate_value_for_stage P v t Pre = Inr () \<Longrightarrow> runner v s = (Inr (), v1, ev, s1) \<Longrightarrow>
    validate_value_for_stage P v1 t Post = Inr () \<Longrightarrow> chain P ts (v1, s1) evs z \<Longrightarrow>
    chain P (t # ts) (v, s)
      (labelled_event (value_source_id v) t StageStarted (task_debug t) # ev
         @ labelled_event (value_source_id v) t StageInjected (task_debug t) # evs) z"

inductive_cases chain_ConsE: "chain P (t # ts) (v, s) evs z"
inductive_simps chain_Nil_iff: "chain P [] (v, s) evs z"

lemma chain_not_failed: "chain P ts x evs z \<Longrightarrow> \<not> is_failed (fst x) \<and> \<not> is_failed (fst z)"
  by (induction rule: chain.induct) auto

lemma run_loop_failed: "is_failed v \<Longrightarrow> run_loop P ts v s = (v, [], s, ts \<noteq> [])"
  by (cases ts) simp_all

lemma chain_run_loop:
  "chain P ts x evs z \<Longrightarrow> run_loop P (ts @ us) (fst x) (snd x) =
     (case run_loop P us (fst z) (snd z) of (v, ev, s, r) \<Rightarrow> (v, evs @ ev, s, r))"
  by (induction rule: chain.induct) (auto simp: try_step_def Let_def split: prod.splits)

text \<open>A stage either extends the chain or fails; the alternatives of \<open>try_step\<close>.\<close>

lemma try_step_ok:
  assumes "try_step P t v s = (v1, ev1, s1)" and "\<not> is_failed v1"
  obtains runner ev where "pl_runners P t = Some runner" "validate_value_for_stage P v t Pre = Inr ()"
    "runner v s = (Inr (), v1, ev, s1)" "validate_value_for_stage P v1 t Post = Inr ()"
    "ev1 = labelled_event (value_source_id v) t StageStarted (task_debug t) # ev
       @ [labelled_event (value_source_id v) t StageInjected (task_debug t)]"
  using assms
  by (auto simp: try_step_def Let_def split: option.splits sum.splits prod.splits)

lemma run_loop_chain:
  "run_loop P ts v s = (w, evs, s', r) \<Longrightarrow> \<not> is_failed w \<Longrightarrow> chain P ts (v, s) evs (w, s') \<and> \<not> r"
proof (induction ts arbitrary: v s evs)
  case Nil
  then show ?case by (simp add: chain_nil)
next
  case (Cons t ts)
  have nf: "\<not> is_failed v" using Cons.prems by (auto split: if_splits)
  obtain v1 ev1 s1 where t: "try_step P t v s = (v1, ev1, s1)" using prod_cases3 by blast
  obtain ev2 where l: "run_loop P ts v1 s1 = (w, ev2, s', r)" and evs: "evs = ev1 @ ev2"
    using Cons.prems nf t by (auto simp: Let_def split: prod.splits)
  have IH: "chain P ts (v1, s1) ev2 (w, s')" "\<not> r" using Cons.IH [OF l] Cons.prems by simp_all
  then have "\<not> is_failed v1" using chain_not_failed by fastforce
  with t obtain runner ev where st: "pl_runners P t = Some runner" "validate_value_for_stage P v t Pre = Inr ()"
    "runner v s = (Inr (), v1, ev, s1)" "validate_value_for_stage P v1 t Post = Inr ()"
    "ev1 = labelled_event (value_source_id v) t StageStarted (task_debug t) # ev
       @ [labelled_event (value_source_id v) t StageInjected (task_debug t)]"
    by (rule try_step_ok)
  show ?case using chain_step [OF nf st(1-4) IH(1)] IH(2) by (simp add: evs st(5))
qed

lemma is_failed_stamp: "is_failed (stamp_chats_in_value P secs v) = is_failed v"
  by (induction v) auto

lemma run_one_chain:
  assumes "run_one P secs v s = (w, events, s')" "\<not> is_failed w"
  shows "\<exists>v' evs. chain P (pl_order P) (v, s) evs (v', s') \<and> w = stamp_chats_in_value P secs v'
        \<and> events = evs @ [source_completed (value_source_id w)]"
proof -
  obtain v' evs s1 r where l: "run_loop P (pl_order P) v s = (v', evs, s1, r)" using prod_cases4 by blast
  have nf: "\<not> is_failed v'"
    using assms l by (auto simp: run_one_def Let_def stamp_run_provenance_def is_failed_stamp split: if_splits)
  from run_loop_chain [OF l this] have "chain P (pl_order P) (v, s) evs (v', s1)" "\<not> r" by simp_all
  with assms l nf show ?thesis by (auto simp: run_one_def Let_def stamp_run_provenance_def)
qed

text \<open>C7: A run that does not fail is exactly the composition of its stages: \<open>run_one\<close> returns a value that
  is not failed if and only if every stage of the order, in turn, found its input accepted by the gate,
  ran its runner with success and had its output accepted; the result is the last output with the
  provenance stamps, and the events are those of the stages followed by \<open>SourceCompleted\<close>.\<close>

theorem run_one_refines_chain:
  "(run_one P secs v s = (w, events, s') \<and> \<not> is_failed w) \<longleftrightarrow>
     (\<exists>v' evs. chain P (pl_order P) (v, s) evs (v', s') \<and> w = stamp_chats_in_value P secs v'
        \<and> events = evs @ [source_completed (value_source_id w)])"
proof
  assume a: "run_one P secs v s = (w, events, s') \<and> \<not> is_failed w"
  show "\<exists>v' evs. chain P (pl_order P) (v, s) evs (v', s') \<and> w = stamp_chats_in_value P secs v'
        \<and> events = evs @ [source_completed (value_source_id w)]"
    by (rule run_one_chain [OF conjunct1 [OF a] conjunct2 [OF a]])
next
  assume "\<exists>v' evs. chain P (pl_order P) (v, s) evs (v', s') \<and> w = stamp_chats_in_value P secs v'
        \<and> events = evs @ [source_completed (value_source_id w)]"
  then obtain v' evs where c: "chain P (pl_order P) (v, s) evs (v', s')" and w: "w = stamp_chats_in_value P secs v'"
      "events = evs @ [source_completed (value_source_id w)]" by blast
  have "run_loop P (pl_order P) v s = (v', evs, s', False)"
    using chain_run_loop [OF c, of "[]"] by simp
  moreover have "\<not> is_failed v'" using chain_not_failed [OF c] by simp
  ultimately show "run_one P secs v s = (w, events, s') \<and> \<not> is_failed w"
    by (simp add: run_one_def stamp_run_provenance_def is_failed_stamp w Let_def)
qed

text \<open>C14: A stage whose runner fails stops the run: the stages before it keep their effect, no later runner
  is called (the state is the one the failing runner left), the error and the half-edited value are
  kept as \<open>Failed\<close>, and \<open>StageFailed\<close> is the last event of the stage. Whether \<open>SourceCompleted\<close> follows
  depends on the position only: it is emitted when the failing stage is the last one of the order and
  is missing otherwise.\<close>

theorem run_one_stage_failure:
  assumes "pl_order P = ts @ t # us" and "chain P ts (v, s) evs (v1, s1)"
    and "pl_runners P t = Some runner" and "validate_value_for_stage P v1 t Pre = Inr ()"
    and "runner v1 s1 = (Inl e, v2, ev, s2)"
  shows "run_one P secs v s =
    (Failed (value_source_id v1) e (Some v2),
     evs @ labelled_event (value_source_id v1) t StageStarted (task_debug t) # ev
       @ labelled_event (value_source_id v1) t StageFailed (pl_error_text P e)
       # (if us = [] then [source_completed (value_source_id v1)] else []),
     s2)"
proof -
  let ?f = "Failed (value_source_id v1) e (Some v2)"
  have nf: "\<not> is_failed v1" using chain_not_failed [OF assms(2)] by simp
  have step: "try_step P t v1 s1 = (?f, labelled_event (value_source_id v1) t StageStarted (task_debug t) # ev
       @ [labelled_event (value_source_id v1) t StageFailed (pl_error_text P e)], s2)"
    using assms by (simp add: try_step_def Let_def)
  have "run_loop P (t # us) v1 s1 = (?f, labelled_event (value_source_id v1) t StageStarted (task_debug t) # ev
       @ [labelled_event (value_source_id v1) t StageFailed (pl_error_text P e)], s2, us \<noteq> [])"
    using nf step by (simp add: run_loop_failed)
  then show ?thesis
    using chain_run_loop [OF assms(2), of "t # us"] assms(1)
    by (simp add: run_one_def stamp_run_provenance_def)
qed

text \<open>A pipeline of two stages over plain media, whose second stage fails, for concrete evaluation.\<close>

definition sample_pipeline :: "(unit, nat) pipeline" where
  "sample_pipeline = \<lparr>pl_order = [Asr, UtSeg, Morphosyntax],
     pl_runners = (\<lambda>t. if t = UtSeg then Some (\<lambda>v s. (Inl Cancelled, v, [], s + 1))
                       else Some (\<lambda>v s. (Inr (), v, [], s + 1))),
     pl_gate = (\<lambda>g t c. Inr ()), pl_engine_name = (\<lambda>_. None), pl_error_text = (\<lambda>_. str ''cancelled''),
     pl_sha = str ''abc''\<rparr>"

definition sample_media :: "unit ba_value" where
  "sample_media = Media \<lparr>mi_source_id = str ''m'', mi_path = str ''m.wav'', mi_language = None\<rparr>"

theorem run_one_stage_failure_witness:
  "run_one sample_pipeline 0 sample_media 0 =
     (Failed (str ''m'') Cancelled (Some sample_media),
      [labelled_event (str ''m'') Asr StageStarted (task_debug Asr), labelled_event (str ''m'') Asr StageInjected (task_debug Asr),
       labelled_event (str ''m'') UtSeg StageStarted (task_debug UtSeg),
       labelled_event (str ''m'') UtSeg StageFailed (str ''cancelled'')], 2)"
proof -
  have "chain sample_pipeline [Asr] (sample_media, 0)
      [labelled_event (str ''m'') Asr StageStarted (task_debug Asr), labelled_event (str ''m'') Asr StageInjected (task_debug Asr)]
      (sample_media, 1)"
    using chain_step [of sample_media sample_pipeline Asr "\<lambda>v s. (Inr (), v, [], s + 1)" 0 sample_media "[]" 1 "[]" "[]"
        "(sample_media, 1)"]
    by (simp add: sample_pipeline_def sample_media_def chain_Nil_iff)
  from run_one_stage_failure [of sample_pipeline "[Asr]" UtSeg "[Morphosyntax]", OF _ this]
  show ?thesis by (simp add: sample_pipeline_def sample_media_def)
qed

section \<open>Outcomes in input order\<close>

lemma place_outcomes_Inr:
  "place_outcomes outcomes (map Inr rs) = Inr (fold (\<lambda>(i, v) os. os[i := Some v]) rs outcomes)"
  by (induction rs arbitrary: outcomes) auto

lemma fold_place_length [simp]: "length (fold (\<lambda>(i, v) os. os[i := Some v]) rs os) = length os"
  by (induction rs arbitrary: os) auto

lemma fold_place_nth:
  "distinct (map fst rs) \<Longrightarrow> k < length os \<Longrightarrow>
     fold (\<lambda>(i, v) os. os[i := Some v]) rs os ! k = (case map_of rs k of Some v \<Rightarrow> Some v | None \<Rightarrow> os ! k)"
proof (induction rs arbitrary: os)
  case (Cons r rs)
  obtain i v where r: "r = (i, v)" by force
  then have "map_of rs i = None" using Cons.prems by (auto simp: map_of_eq_None_iff)
  with Cons r show ?case by (auto simp: nth_list_update split: option.split)
qed simp

text \<open>The outcomes of a run with a callback come back in input order: in whatever order the inputs
  complete, as long as each of the \<open>n\<close> inputs delivers one outcome, the list that is returned has the
  outcome of input \<open>k\<close> at place \<open>k\<close>, and the \<open>expect\<close> that collects them cannot panic.\<close>

lemma outcomes_in_input_order:
  assumes "mset results = mset (List.enumerate 0 outcomes)"
  shows "collect_outcomes True (length outcomes) (map Inr results) = Inr (Some outcomes)"
proof -
  let ?os = "fold (\<lambda>(i, v) os. os[i := Some v]) results (replicate (length outcomes) None)"
  have "mset (map fst results) = mset [0..<length outcomes]"
    using assms by (metis mset_map map_fst_enumerate add_0)
  then have d: "distinct (map fst results)" by (metis distinct_upt mset_eq_imp_distinct_iff)
  have "set results = set (List.enumerate 0 outcomes)" using assms by (metis set_mset_mset)
  then have m: "map_of results k = Some (outcomes ! k)" if "k < length outcomes" for k
    using that d by (intro map_of_is_SomeI) (auto simp: in_set_enumerate_eq)
  have "?os = map Some outcomes"
    by (rule nth_equalityI) (simp_all add: fold_place_nth [OF d] m)
  then show ?thesis by (simp add: collect_outcomes_def place_outcomes_Inr list.pred_map comp_def list.pred_True)
qed

lemma outcomes_in_input_order_witness:
  "collect_outcomes True 3 (map Inr [(2, ''c''), (0, ''a''), (1, ''b'')])
     = (Inr (Some [''a'', ''b'', ''c'']) :: string + string list option)"
  using outcomes_in_input_order [of "[(2, ''c''), (0, ''a''), (1, ''b'')]" "[''a'', ''b'', ''c'']"]
  by (simp add: numeral_3_eq_3)

end
