(* ===== verification/Engine.thy ===== *)
theory Engine
  imports Tasks "HOL-Library.Multiset"
begin

text \<open>
  \<^verbatim>\<open>batchalign-engine/src/engine.rs\<close>, \<^verbatim>\<open>batcher.rs\<close> and \<^verbatim>\<open>cache.rs\<close>: the routes from tasks to
  backends, the result cache, and the loop that batches requests for one backend. The batcher is a
  step relation (a request arrives, a round is served); the lemmas show that every request is
  answered once and that every successful answer was computed by the backend for a request with the
  same cache key.
\<close>

section \<open>The cache\<close>

datatype cache_policy = UseCache | Bypass | Refresh

text \<open>
  \<open>ce_hash\<close> is BLAKE3, \<open>ce_build\<close> the build identity, \<open>ce_input_bytes\<close> the content bytes that
  \<open>CacheKey::hash\<close> feeds to it, \<open>ce_serialize\<close> and \<open>ce_deserialize\<close> the JSON of an output.
\<close>

record ('i, 'o) cache_env =
  ce_hash :: "rstr \<Rightarrow> rstr"
  ce_build :: rstr
  ce_input_bytes :: "'i task_input \<Rightarrow> rstr"
  ce_serialize :: "'o task_output \<Rightarrow> rstr option"
  ce_deserialize :: "rstr \<Rightarrow> 'o task_output option"

text \<open>The LMDB database is a map; a transaction that fails would be a miss or an entry not written.\<close>

record cache =
  ca_policy :: cache_policy
  ca_entries :: "rstr \<rightharpoonup> rstr"

definition key_namespace :: "('i, 'o) cache_env \<Rightarrow> task \<Rightarrow> rstr \<Rightarrow> rstr" where
  "key_namespace E t backend_name =
     str ''v3|'' @ ce_build E @ str ''|'' @ task_debug t @ str ''|'' @ backend_name @ str ''|''"

definition cache_key :: "('i, 'o) cache_env \<Rightarrow> task \<Rightarrow> rstr \<Rightarrow> 'i task_input \<Rightarrow> rstr" where
  "cache_key E t backend_name input = ce_hash E (key_namespace E t backend_name @ ce_input_bytes E input)"

definition cache_get :: "('i, 'o) cache_env \<Rightarrow> cache \<Rightarrow> task \<Rightarrow> rstr \<Rightarrow> 'i task_input \<Rightarrow> 'o task_output option" where
  "cache_get E c t backend_name input =
     (if ca_policy c = Bypass \<or> ca_policy c = Refresh then None
      else (case ca_entries c (cache_key E t backend_name input) of
          None \<Rightarrow> None
        | Some bytes \<Rightarrow> ce_deserialize E bytes))"

definition cache_put ::
    "('i, 'o) cache_env \<Rightarrow> cache \<Rightarrow> task \<Rightarrow> rstr \<Rightarrow> 'i task_input \<Rightarrow> 'o task_output \<Rightarrow> cache" where
  "cache_put E c t backend_name input out =
     (if ca_policy c = Bypass then c
      else (case ce_serialize E out of
          None \<Rightarrow> c
        | Some v \<Rightarrow> c\<lparr>ca_entries := (ca_entries c)(cache_key E t backend_name input \<mapsto> v)\<rparr>))"

text \<open>
  What a client of a result cache relies on: a lookup only ever returns what was stored under the
  same key, and storing does not bring anything else to light. Misses are always allowed.
\<close>

locale result_cache =
  fixes lookup :: "'c \<Rightarrow> 'k \<Rightarrow> 'v option" and store :: "'c \<Rightarrow> 'k \<Rightarrow> 'v \<Rightarrow> 'c"
  assumes lookup_store: "lookup (store c k v) k' = Some w \<Longrightarrow> (k' = k \<and> w = v) \<or> lookup c k' = Some w"
begin

definition sound :: "('k \<Rightarrow> 'v \<Rightarrow> bool) \<Rightarrow> 'c \<Rightarrow> bool" where
  "sound ok c \<longleftrightarrow> (\<forall>k v. lookup c k = Some v \<longrightarrow> ok k v)"

lemma sound_store: "sound ok c \<Longrightarrow> ok k v \<Longrightarrow> sound ok (store c k v)"
  unfolding sound_def using lookup_store by blast

lemma sound_stores: "sound ok c \<Longrightarrow> list_all (\<lambda>(k, v). ok k v) kvs \<Longrightarrow> sound ok (fold (\<lambda>(k, v) c. store c k v) kvs c)"
  by (induction kvs arbitrary: c) (auto simp: sound_store)

lemma sound_lookup: "sound ok c \<Longrightarrow> lookup c k = Some v \<Longrightarrow> ok k v"
  by (simp add: sound_def)

end

text \<open>
  The cache of the code, keyed by what is hashed. A stored output is read back through its JSON, so
  the values are the outputs as deserialized.
\<close>

definition json_roundtrip :: "('i, 'o) cache_env \<Rightarrow> bool" where
  "json_roundtrip E \<longleftrightarrow> (\<forall>out v. ce_serialize E out = Some v \<longrightarrow> ce_deserialize E v = Some out)"

definition entry_lookup :: "cache \<Rightarrow> rstr \<Rightarrow> rstr option" where
  "entry_lookup c k = (if ca_policy c = Bypass \<or> ca_policy c = Refresh then None else ca_entries c k)"

definition entry_store :: "cache \<Rightarrow> rstr \<Rightarrow> rstr \<Rightarrow> cache" where
  "entry_store c k v = (if ca_policy c = Bypass then c else c\<lparr>ca_entries := (ca_entries c)(k \<mapsto> v)\<rparr>)"

interpretation lmdb: result_cache entry_lookup entry_store
  by unfold_locales (auto simp: entry_lookup_def entry_store_def split: if_splits)

lemma cache_get_entry:
  "cache_get E c t name input =
     Option.bind (entry_lookup c (cache_key E t name input)) (ce_deserialize E)"
  by (auto simp: cache_get_def entry_lookup_def split: option.split)

lemma cache_put_entry:
  "cache_put E c t name input out =
     (case ce_serialize E out of None \<Rightarrow> c | Some v \<Rightarrow> entry_store c (cache_key E t name input) v)"
  by (auto simp: cache_put_def entry_store_def split: option.split)

section \<open>The batcher\<close>

text \<open>A request: its identity stands for the reply channel, the progress handle is another number.\<close>

record 'i batch_item =
  bi_id :: nat
  bi_input :: "'i task_input"
  bi_progress :: nat

text \<open>The outcome of the blocking call: the backend's result, or the panic of its thread.\<close>

datatype 'o call_result = Returned "'o task_output list ba_result" | CallPanicked rstr

record ('i, 'o) backend =
  be_name :: rstr
  be_tasks :: "task list"
  be_max_size :: nat
  be_call :: "'i task_input list \<Rightarrow> nat option \<Rightarrow> 'o call_result"
  be_error_text :: "ba_error \<Rightarrow> rstr"

type_synonym 'o reply = "nat \<times> 'o task_output ba_result"

text \<open>
  One request is checked against the cache as it is taken: a hit is answered at once, a miss joins
  the batch. The list ends where the window closes or the queue is empty.
\<close>

fun drain :: "('i, 'o) cache_env \<Rightarrow> cache \<Rightarrow> rstr \<Rightarrow> nat \<Rightarrow> 'i batch_item list \<Rightarrow> 'i batch_item list \<Rightarrow>
    'i batch_item list \<times> 'o reply list \<times> 'i batch_item list" where
  "drain E c name max_size [] fresh = (fresh, [], [])"
| "drain E c name max_size (it # its) fresh =
     (if length fresh < max_size
      then (case cache_get E c (ti_task (bi_input it)) name (bi_input it) of
          Some cached \<Rightarrow>
            (let (fresh', replies, rest) = drain E c name max_size its fresh
             in (fresh', (bi_id it, Inr cached) # replies, rest))
        | None \<Rightarrow> drain E c name max_size its (fresh @ [it]))
      else (fresh, [], it # its))"

definition call_progress :: "'i batch_item list \<Rightarrow> nat option" where
  "call_progress fresh = (if length fresh = 1 then Some (bi_progress (hd fresh)) else None)"

definition put_outputs ::
    "('i, 'o) cache_env \<Rightarrow> rstr \<Rightarrow> ('i batch_item \<times> 'o task_output) list \<Rightarrow> cache \<Rightarrow> cache" where
  "put_outputs E name pairs c =
     fold (\<lambda>(it, out) c. cache_put E c (ti_task (bi_input it)) name (bi_input it) out) pairs c"

definition fail_all :: "rstr \<Rightarrow> 'i batch_item list \<Rightarrow> 'o reply list" where
  "fail_all msg fresh = map (\<lambda>it. (bi_id it, Inl (WorkerError msg))) fresh"

definition distribute ::
    "('i, 'o) cache_env \<Rightarrow> ('i, 'o) backend \<Rightarrow> 'i batch_item list \<Rightarrow> 'o call_result \<Rightarrow> cache \<Rightarrow> 'o reply list \<times> cache" where
  "distribute E b fresh result c =
     (case result of
        Returned (Inr outputs) \<Rightarrow>
          if length outputs = length fresh
          then (map (\<lambda>(it, out). (bi_id it, Inr out)) (zip fresh outputs), put_outputs E (be_name b) (zip fresh outputs) c)
          else (fail_all (str ''backend '' @ [34] @ be_name b @ [34] @ str '' returned wrong-length batch: ''
                  @ nat_to_string (length outputs) @ str '' != '' @ nat_to_string (length fresh)) fresh, c)
      | Returned (Inl err) \<Rightarrow> (fail_all (str ''backend error: '' @ be_error_text b err) fresh, c)
      | CallPanicked join_err \<Rightarrow> (fail_all (str ''backend task panicked: '' @ join_err) fresh, c))"

record ('i, 'o) batcher =
  ba_queue :: "'i batch_item list"
  ba_cache :: cache
  ba_replies :: "'o reply list"

text \<open>
  One turn of the loop on a queue that is not empty. \<open>k\<close> is the number of further requests that are
  there before the window closes (after a miss) or right away (after a hit).
\<close>

definition batch_round :: "('i, 'o) cache_env \<Rightarrow> ('i, 'o) backend \<Rightarrow> nat \<Rightarrow> ('i, 'o) batcher \<Rightarrow> ('i, 'o) batcher" where
  "batch_round E b k s =
     (case ba_queue s of
        [] \<Rightarrow> s
      | first # later \<Rightarrow>
          (let max_size = max 1 (be_max_size b);
               (fresh0, replies0, _) = drain E (ba_cache s) (be_name b) max_size [first] [];
               (fresh, replies1, rest) = drain E (ba_cache s) (be_name b) max_size (take k later) fresh0;
               queue' = rest @ drop k later
           in if fresh = []
              then s\<lparr>ba_queue := queue', ba_replies := ba_replies s @ replies0 @ replies1\<rparr>
              else (let (replies2, c') = distribute E b fresh (be_call b (map bi_input fresh) (call_progress fresh)) (ba_cache s)
                    in s\<lparr>ba_queue := queue', ba_cache := c',
                         ba_replies := ba_replies s @ replies0 @ replies1 @ replies2\<rparr>)))"

inductive batcher_reach ::
    "('i, 'o) cache_env \<Rightarrow> ('i, 'o) backend \<Rightarrow> ('i, 'o) batcher \<Rightarrow> 'i batch_item list \<Rightarrow> ('i, 'o) batcher \<Rightarrow> bool"
  for E b s0 where
  reach_init: "batcher_reach E b s0 [] s0"
| reach_send: "batcher_reach E b s0 sent s \<Longrightarrow>
    batcher_reach E b s0 (sent @ [it]) (s\<lparr>ba_queue := ba_queue s @ [it]\<rparr>)"
| reach_round: "batcher_reach E b s0 sent s \<Longrightarrow> batcher_reach E b s0 sent (batch_round E b k s)"

definition fresh_batcher :: "cache \<Rightarrow> ('i, 'o) batcher" where
  "fresh_batcher c = \<lparr>ba_queue = [], ba_cache = c, ba_replies = []\<rparr>"

section \<open>Every request is answered once\<close>

definition ids :: "'i batch_item list \<Rightarrow> nat multiset" where
  "ids its = mset (map bi_id its)"

definition replied :: "'o reply list \<Rightarrow> nat multiset" where
  "replied rs = mset (map fst rs)"

lemma ids_simps [simp]: "ids [] = {#}" "ids (it # its) = {#bi_id it#} + ids its" "ids (xs @ ys) = ids xs + ids ys"
  by (simp_all add: ids_def)

lemma replied_simps [simp]:
  "replied [] = {#}" "replied (r # rs) = {#fst r#} + replied rs" "replied (xs @ ys) = replied xs + replied ys"
  by (simp_all add: replied_def)

lemma drain_ids:
  "drain E c name m its fresh = (fresh', rs, rest) \<Longrightarrow> ids fresh' + replied rs + ids rest = ids fresh + ids its"
proof (induction its arbitrary: fresh fresh' rs rest)
  case (Cons it its)
  then show ?case
    by (auto simp: ac_simps split: if_splits option.splits prod.splits)
qed simp

lemma replied_fail_all [simp]: "replied (fail_all msg fresh) = ids fresh"
  by (simp add: replied_def ids_def fail_all_def comp_def)

lemma map_fst_zip_ids: "length outputs = length fresh \<Longrightarrow> map (fst \<circ> (\<lambda>(it, out). (bi_id it, Inr out))) (zip fresh outputs) = map bi_id fresh"
  by (induction fresh outputs rule: list_induct2') auto

lemma distribute_ids: "distribute E b fresh res c = (rs, c') \<Longrightarrow> replied rs = ids fresh"
  by (auto simp: distribute_def replied_def [of "map _ _"] ids_def map_fst_zip_ids
      split: call_result.splits sum.splits if_splits)
text \<open>The parts of a round, for the proofs: what is drained and what the backend answers.\<close>

lemma batch_round_cases:
  assumes "ba_queue s = first # later"
  obtains fresh0 rs0 rest0 fresh rs1 rest rs2 c' where
    "drain E (ba_cache s) (be_name b) (max 1 (be_max_size b)) [first] [] = (fresh0, rs0, rest0)"
    "drain E (ba_cache s) (be_name b) (max 1 (be_max_size b)) (take k later) fresh0 = (fresh, rs1, rest)"
    "rest0 = []"
    "fresh = [] \<and> rs2 = [] \<and> c' = ba_cache s \<or>
       distribute E b fresh (be_call b (map bi_input fresh) (call_progress fresh)) (ba_cache s) = (rs2, c')"
    "batch_round E b k s = s\<lparr>ba_queue := rest @ drop k later, ba_cache := c',
       ba_replies := ba_replies s @ rs0 @ rs1 @ rs2\<rparr>"
proof -
  obtain fresh0 rs0 rest0 where d0:
    "drain E (ba_cache s) (be_name b) (max 1 (be_max_size b)) [first] [] = (fresh0, rs0, rest0)"
    using prod_cases3 by blast
  obtain fresh rs1 rest where d1:
    "drain E (ba_cache s) (be_name b) (max 1 (be_max_size b)) (take k later) fresh0 = (fresh, rs1, rest)"
    using prod_cases3 by blast
  obtain rs2 c' where d2:
    "distribute E b fresh (be_call b (map bi_input fresh) (call_progress fresh)) (ba_cache s) = (rs2, c')"
    using prod.exhaust by blast
  have r0: "rest0 = []" using d0 by (simp add: less_max_iff_disj split: option.splits)
  show thesis
  proof (cases "fresh = []")
    case True
    show thesis
      by (rule that [OF d0 d1 r0, of "[]" "ba_cache s"])
        (use True d0 d1 assms in \<open>simp_all add: batch_round_def Let_def\<close>)
  next
    case False
    show thesis
      by (rule that [OF d0 d1 r0, of rs2 c'])
        (use False d0 d1 d2 assms in \<open>simp_all add: batch_round_def Let_def\<close>)
  qed
qed

lemma round_multisets:
  fixes F R1 T D L R0 F0 X R :: "'a multiset"
  assumes "F + R1 + R = F0 + T" and "F0 + R0 = X" and "T + D = L"
  shows "R + D + (Q + (R0 + (R1 + F))) = X + L + Q"
proof -
  have "R + D + (Q + (R0 + (R1 + F))) = (F + R1 + R) + R0 + D + Q" by (simp add: ac_simps)
  also have "\<dots> = (F0 + R0) + (T + D) + Q" unfolding assms(1) by (simp add: ac_simps)
  finally show ?thesis unfolding assms(2,3) .
qed

lemma batch_round_ids:
  "ids (ba_queue (batch_round E b k s)) + replied (ba_replies (batch_round E b k s))
     = ids (ba_queue s) + replied (ba_replies s)"
proof (cases "ba_queue s")
  case Nil
  then show ?thesis by (simp add: batch_round_def)
next
  case (Cons first later)
  obtain fresh0 rs0 rest0 fresh rs1 rest rs2 c' where d:
    "drain E (ba_cache s) (be_name b) (max 1 (be_max_size b)) [first] [] = (fresh0, rs0, rest0)"
    "drain E (ba_cache s) (be_name b) (max 1 (be_max_size b)) (take k later) fresh0 = (fresh, rs1, rest)"
    "rest0 = []"
    "fresh = [] \<and> rs2 = [] \<and> c' = ba_cache s \<or>
       distribute E b fresh (be_call b (map bi_input fresh) (call_progress fresh)) (ba_cache s) = (rs2, c')"
    "batch_round E b k s = s\<lparr>ba_queue := rest @ drop k later, ba_cache := c',
       ba_replies := ba_replies s @ rs0 @ rs1 @ rs2\<rparr>"
    by (rule batch_round_cases [OF Cons])
  have rs2: "replied rs2 = ids fresh" using d(4) distribute_ids by auto
  have "ids fresh + replied rs1 + ids rest = ids fresh0 + ids (take k later)"
    by (rule drain_ids [OF d(2)])
  moreover have "ids fresh0 + replied rs0 = {#bi_id first#}" using drain_ids [OF d(1)] d(3) by simp
  moreover have "ids (take k later) + ids (drop k later) = ids later"
    by (metis append_take_drop_id ids_simps(3))
  ultimately have "ids rest + ids (drop k later) + (replied (ba_replies s) + (replied rs0 + (replied rs1 + ids fresh)))
      = {#bi_id first#} + ids later + replied (ba_replies s)"
    by (rule round_multisets)
  then show ?thesis unfolding d(5) by (simp add: Cons rs2)
qed

lemma batcher_ids_inv:
  "batcher_reach E b s0 sent s \<Longrightarrow> ids (ba_queue s) + replied (ba_replies s) = ids (ba_queue s0) + replied (ba_replies s0) + ids sent"
proof (induction rule: batcher_reach.induct)
  case (reach_send sent s it)
  then show ?case by (simp add: ac_simps)
next
  case (reach_round sent s k)
  then show ?case by (simp only: batch_round_ids)
qed simp

text \<open>C10: The batcher answers every request exactly once: in every reachable state, whatever the batch
  sizes, cache hits, backend failures, wrong-length results and panics so far, the requests still in the
  queue together with the replies sent are, as a multiset, the requests that were submitted.\<close>

theorem batcher_replies_once:
  assumes "batcher_reach E b (fresh_batcher c) sent s"
  shows "mset (map bi_id (ba_queue s)) + mset (map fst (ba_replies s)) = mset (map bi_id sent)"
  using batcher_ids_inv [OF assms] by (simp add: fresh_batcher_def ids_def replied_def)

section \<open>A round makes progress\<close>

lemma drain_rest: "drain E c name m its fresh = (fresh', rs, rest) \<Longrightarrow> length rest \<le> length its"
  by (induction its arbitrary: fresh fresh' rs rest)
    (fastforce simp: Let_def split: if_splits option.splits prod.splits)+

lemma batch_round_shrinks: "ba_queue s \<noteq> [] \<Longrightarrow> length (ba_queue (batch_round E b k s)) < length (ba_queue s)"
proof -
  assume "ba_queue s \<noteq> []"
  then obtain first later where q: "ba_queue s = first # later" by (cases "ba_queue s") auto
  obtain fresh0 rs0 rest0 fresh rs1 rest rs2 c' where d:
    "drain E (ba_cache s) (be_name b) (max 1 (be_max_size b)) (take k later) fresh0 = (fresh, rs1, rest)"
    "batch_round E b k s = s\<lparr>ba_queue := rest @ drop k later, ba_cache := c',
       ba_replies := ba_replies s @ rs0 @ rs1 @ rs2\<rparr>"
    by (rule batch_round_cases [OF q])
  have "length rest \<le> length (take k later)" by (rule drain_rest [OF d(1)])
  then show ?thesis unfolding d(2) by (simp add: q) arith
qed

fun serve :: "('i, 'o) cache_env \<Rightarrow> ('i, 'o) backend \<Rightarrow> nat list \<Rightarrow> ('i, 'o) batcher \<Rightarrow> ('i, 'o) batcher" where
  "serve E b [] s = s"
| "serve E b (k # ks) s = serve E b ks (batch_round E b k s)"

lemma serve_empties: "length (ba_queue s) \<le> length ks \<Longrightarrow> ba_queue (serve E b ks s) = []"
proof (induction ks arbitrary: s)
  case (Cons k ks)
  have "length (ba_queue (batch_round E b k s)) \<le> length ks"
    using Cons.prems batch_round_shrinks [of s E b k] by (cases "ba_queue s") (auto simp: batch_round_def)
  with Cons show ?case by simp
qed simp

lemma serve_ids:
  "ids (ba_queue (serve E b ks s)) + replied (ba_replies (serve E b ks s)) = ids (ba_queue s) + replied (ba_replies s)"
  by (induction ks arbitrary: s) (simp_all only: serve.simps batch_round_ids)

text \<open>C15: Nothing waits for ever: however the windows fall, as many rounds as there are requests in the
  queue empty it, and by then each of these requests has got its one reply.\<close>

theorem batcher_serves_all:
  assumes "length (ba_queue s) \<le> length windows"
  shows "ba_queue (serve E b windows s) = []
    \<and> mset (map fst (ba_replies (serve E b windows s))) = mset (map fst (ba_replies s)) + mset (map bi_id (ba_queue s))"
  using serve_empties [OF assms, of E b] serve_ids [of E b windows s]
  by (simp add: ids_def replied_def ac_simps)

section \<open>Answers are genuine\<close>

text \<open>\<open>out\<close> is what the backend returned, at the matching index of some batch, for a request with this key.\<close>

definition computed :: "('i, 'o) cache_env \<Rightarrow> ('i, 'o) backend \<Rightarrow> rstr \<Rightarrow> 'o task_output \<Rightarrow> bool" where
  "computed E b key out \<longleftrightarrow>
     (\<exists>batch p outputs j. be_call b batch p = Returned (Inr outputs) \<and> length outputs = length batch \<and>
        j < length batch \<and> cache_key E (ti_task (batch ! j)) (be_name b) (batch ! j) = key \<and> outputs ! j = out)"

definition item_key :: "('i, 'o) cache_env \<Rightarrow> ('i, 'o) backend \<Rightarrow> 'i batch_item \<Rightarrow> rstr" where
  "item_key E b it = cache_key E (ti_task (bi_input it)) (be_name b) (bi_input it)"

definition cache_ok :: "('i, 'o) cache_env \<Rightarrow> ('i, 'o) backend \<Rightarrow> cache \<Rightarrow> bool" where
  "cache_ok E b c \<longleftrightarrow> lmdb.sound (\<lambda>k v. \<forall>out. ce_deserialize E v = Some out \<longrightarrow> computed E b k out) c"

text \<open>Every successful reply belongs to a submitted request of the same identity and is computed for its key.\<close>

definition reply_ok :: "('i, 'o) cache_env \<Rightarrow> ('i, 'o) backend \<Rightarrow> 'i batch_item set \<Rightarrow> 'o reply \<Rightarrow> bool" where
  "reply_ok E b its r \<longleftrightarrow>
     (case r of (i, Inl e) \<Rightarrow> True | (i, Inr out) \<Rightarrow> \<exists>it \<in> its. bi_id it = i \<and> computed E b (item_key E b it) out)"

lemma cache_get_computed:
  "cache_ok E b c \<Longrightarrow> cache_get E c (ti_task (bi_input it)) (be_name b) (bi_input it) = Some out \<Longrightarrow>
     computed E b (item_key E b it) out"
  unfolding cache_ok_def cache_get_entry item_key_def by (auto dest: lmdb.sound_lookup simp: bind_eq_Some_conv)

lemma drain_ok:
  assumes "cache_ok E b c" and "drain E c (be_name b) m its fresh = (fresh', rs, rest)"
  shows "set fresh' \<subseteq> set fresh \<union> set its \<and> set rest \<subseteq> set its \<and> list_all (reply_ok E b (set its)) rs"
  using assms(2)
proof (induction its arbitrary: fresh fresh' rs rest)
  case (Cons it its)
  have mono: "list_all (reply_ok E b (set its)) rs' \<Longrightarrow> list_all (reply_ok E b (set (it # its))) rs'" for rs'
    by (erule list.pred_mono_strong) (auto simp: reply_ok_def split: prod.splits sum.splits)
  show ?case
  proof (cases "length fresh < m")
    case False
    with Cons.prems show ?thesis by auto
  next
    case True
    show ?thesis
    proof (cases "cache_get E c (ti_task (bi_input it)) (be_name b) (bi_input it)")
      case None
      with True Cons.prems have "drain E c (be_name b) m its (fresh @ [it]) = (fresh', rs, rest)" by simp
      from Cons.IH [OF this] mono show ?thesis by auto
    next
      case (Some out)
      with True Cons.prems obtain rs' where d: "drain E c (be_name b) m its fresh = (fresh', rs', rest)"
        and rs: "rs = (bi_id it, Inr out) # rs'" by (auto simp: Let_def split: prod.splits)
      have "reply_ok E b (set (it # its)) (bi_id it, Inr out)"
        using cache_get_computed [OF assms(1) Some] by (auto simp: reply_ok_def)
      with Cons.IH [OF d] mono show ?thesis by (auto simp: rs)
    qed
  qed
qed simp

lemma put_outputs_ok:
  assumes "json_roundtrip E" and "cache_ok E b c"
    and "list_all (\<lambda>(it, out). computed E b (item_key E b it) out) pairs"
  shows "cache_ok E b (put_outputs E (be_name b) pairs c)"
  using assms(2,3)
proof (induction pairs arbitrary: c)
  case Nil
  then show ?case by (simp add: put_outputs_def)
next
  case (Cons p pairs)
  obtain it out where p: "p = (it, out)" by force
  have "cache_ok E b (cache_put E c (ti_task (bi_input it)) (be_name b) (bi_input it) out)"
  proof (cases "ce_serialize E out")
    case None
    with Cons show ?thesis by (simp add: cache_put_entry)
  next
    case (Some v)
    then have "\<forall>out'. ce_deserialize E v = Some out' \<longrightarrow> computed E b (item_key E b it) out'"
      using assms(1) Cons.prems p by (auto simp: json_roundtrip_def)
    with Some Cons.prems show ?thesis
      by (auto simp: cache_ok_def cache_put_entry item_key_def intro!: lmdb.sound_store)
  qed
  with Cons p show ?case by (simp add: put_outputs_def)
qed

lemma distribute_ok:
  assumes "json_roundtrip E" and "cache_ok E b c"
    and "distribute E b fresh (be_call b (map bi_input fresh) p) c = (rs, c')"
  shows "cache_ok E b c' \<and> list_all (reply_ok E b (set fresh)) rs"
proof (cases "\<exists>outputs. be_call b (map bi_input fresh) p = Returned (Inr outputs) \<and> length outputs = length fresh")
  case False
  then have "c' = c" "\<exists>msg. rs = fail_all msg fresh"
    using assms(3) by (auto simp: distribute_def split: call_result.splits sum.splits if_splits)
  with assms(2) show ?thesis by (auto simp: fail_all_def reply_ok_def list_all_iff)
next
  case True
  then obtain outputs where o: "be_call b (map bi_input fresh) p = Returned (Inr outputs)" "length outputs = length fresh"
    by blast
  have comp: "computed E b (item_key E b (fresh ! j)) (outputs ! j)" if "j < length fresh" for j
    unfolding computed_def item_key_def
    by (rule exI [of _ "map bi_input fresh"], rule exI [of _ p], rule exI [of _ outputs], rule exI [of _ j])
      (use o that in simp)
  then have pairs: "list_all (\<lambda>(it, out). computed E b (item_key E b it) out) (zip fresh outputs)"
    using o by (auto simp: list_all_length)
  have "rs = map (\<lambda>(it, out). (bi_id it, Inr out)) (zip fresh outputs)" "c' = put_outputs E (be_name b) (zip fresh outputs) c"
    using assms(3) o by (auto simp: distribute_def)
  moreover have "list_all (reply_ok E b (set fresh)) (map (\<lambda>(it, out). (bi_id it, Inr out)) (zip fresh outputs))"
    using pairs by (fastforce simp: list_all_iff reply_ok_def dest: set_zip_leftD)
  ultimately show ?thesis using put_outputs_ok [OF assms(1,2) pairs] by simp
qed

lemma reply_ok_mono: "list_all (reply_ok E b A) rs \<Longrightarrow> A \<subseteq> B \<Longrightarrow> list_all (reply_ok E b B) rs"
  by (erule list.pred_mono_strong) (auto simp: reply_ok_def split: prod.splits sum.splits)

lemma batch_round_ok:
  assumes "json_roundtrip E" and "cache_ok E b (ba_cache s)" and "set (ba_queue s) \<subseteq> A"
    and "list_all (reply_ok E b A) (ba_replies s)"
  shows "cache_ok E b (ba_cache (batch_round E b k s)) \<and> set (ba_queue (batch_round E b k s)) \<subseteq> A
    \<and> list_all (reply_ok E b A) (ba_replies (batch_round E b k s))"
proof (cases "ba_queue s")
  case Nil
  with assms show ?thesis by (simp add: batch_round_def)
next
  case (Cons first later)
  obtain fresh0 rs0 rest0 fresh rs1 rest rs2 c' where d:
    "drain E (ba_cache s) (be_name b) (max 1 (be_max_size b)) [first] [] = (fresh0, rs0, rest0)"
    "drain E (ba_cache s) (be_name b) (max 1 (be_max_size b)) (take k later) fresh0 = (fresh, rs1, rest)"
    "fresh = [] \<and> rs2 = [] \<and> c' = ba_cache s \<or>
       distribute E b fresh (be_call b (map bi_input fresh) (call_progress fresh)) (ba_cache s) = (rs2, c')"
    "batch_round E b k s = s\<lparr>ba_queue := rest @ drop k later, ba_cache := c',
       ba_replies := ba_replies s @ rs0 @ rs1 @ rs2\<rparr>"
    by (rule batch_round_cases [OF Cons])
  have A: "first \<in> A" "set later \<subseteq> A" using assms(3) Cons by auto
  note d0 = drain_ok [OF assms(2) d(1)] and d1 = drain_ok [OF assms(2) d(2)]
  have tk: "set (take k later) \<subseteq> A" "set (drop k later) \<subseteq> A"
    using A set_take_subset [of k later] set_drop_subset [of k later] by blast+
  have "set fresh0 \<subseteq> A" using d0 A by auto
  then have fr: "set fresh \<subseteq> A" using d1 tk by blast
  have "cache_ok E b c' \<and> list_all (reply_ok E b A) rs2"
  proof (cases "fresh = [] \<and> rs2 = [] \<and> c' = ba_cache s")
    case True
    with assms(2) show ?thesis by simp
  next
    case False
    with d(3) have "distribute E b fresh (be_call b (map bi_input fresh) (call_progress fresh)) (ba_cache s) = (rs2, c')"
      by blast
    from distribute_ok [OF assms(1,2) this] fr show ?thesis using reply_ok_mono by blast
  qed
  moreover have "list_all (reply_ok E b A) rs0" using d0 A reply_ok_mono [of E b "set [first]" rs0 A] by simp
  moreover have "list_all (reply_ok E b A) rs1" using d1 tk reply_ok_mono by blast
  moreover have "set rest \<subseteq> A" using d1 tk by blast
  ultimately show ?thesis unfolding d(4) using assms(4) tk by simp
qed

text \<open>C9: A successful answer is the backend's own: started on a cache that holds only what the backend
  computed, in every reachable state each successful reply was returned by the backend, at the
  matching place of a batch of the right length, for a request with the same cache key (task, backend, build
  and content) as the submitted request it answers; and the cache keeps that property.\<close>

theorem batcher_replies_genuine:
  assumes "json_roundtrip E" and "cache_ok E b c" and "batcher_reach E b (fresh_batcher c) sent s"
  shows "cache_ok E b (ba_cache s) \<and> list_all (reply_ok E b (set sent)) (ba_replies s)"
proof -
  have "cache_ok E b (ba_cache s) \<and> set (ba_queue s) \<subseteq> set sent \<and> list_all (reply_ok E b (set sent)) (ba_replies s)"
    using assms(3)
  proof (induction rule: batcher_reach.induct)
    case reach_init
    then show ?case using assms(2) by (simp add: fresh_batcher_def)
  next
    case (reach_send sent s it)
    then show ?case using reply_ok_mono [of E b "set sent" "ba_replies s" "set (sent @ [it])"] by auto
  next
    case (reach_round sent s k)
    then show ?case using batch_round_ok [OF assms(1)] by blast
  qed
  then show ?thesis by blast
qed

subsection \<open>Concrete evaluation\<close>

text \<open>A backend that echoes its inputs, and a cache of texts.\<close>

definition sample_env :: "(rstr, rstr) cache_env" where
  "sample_env = \<lparr>ce_hash = (\<lambda>x. x), ce_build = str ''1'', ce_input_bytes = ti_payload,
     ce_serialize = (\<lambda>out. Some (int (task_index (to_task out)) # to_payload out)),
     ce_deserialize = (\<lambda>v. case v of [] \<Rightarrow> None
       | i # p \<Rightarrow> map_option (\<lambda>t. \<lparr>to_task = t, to_payload = p\<rparr>) (find (\<lambda>t. int (task_index t) = i) all_tasks))\<rparr>"

definition sample_backend :: "(rstr, rstr) backend" where
  "sample_backend = \<lparr>be_name = str ''echo'', be_tasks = [Translate], be_max_size = 2,
     be_call = (\<lambda>batch p. Returned (Inr (map (\<lambda>i. \<lparr>to_task = ti_task i, to_payload = ti_payload i\<rparr>) batch))),
     be_error_text = (\<lambda>_. str ''error'')\<rparr>"

definition sample_item :: "nat \<Rightarrow> rstr batch_item" where
  "sample_item i = \<lparr>bi_id = i, bi_input = \<lparr>ti_task = Translate, ti_source_id = str ''s'', ti_payload = [int i]\<rparr>, bi_progress = 0\<rparr>"

definition empty_cache :: cache where
  "empty_cache = \<lparr>ca_policy = UseCache, ca_entries = Map.empty\<rparr>"

definition sample_state :: "(rstr, rstr) batcher" where
  "sample_state = batch_round sample_env sample_backend 1
     (fresh_batcher empty_cache\<lparr>ba_queue := [sample_item 1, sample_item 2, sample_item 3]\<rparr>)"

lemma sample_reach:
  "batcher_reach sample_env sample_backend (fresh_batcher empty_cache) [sample_item 1, sample_item 2, sample_item 3] sample_state"
proof -
  let ?R = "batcher_reach sample_env sample_backend (fresh_batcher empty_cache)"
  have "?R [sample_item 1] (fresh_batcher empty_cache\<lparr>ba_queue := [sample_item 1]\<rparr>)"
    using reach_send [OF reach_init, of sample_env sample_backend "fresh_batcher empty_cache" "sample_item 1"]
    by (simp add: fresh_batcher_def)
  from reach_send [OF this, of "sample_item 2"]
  have "?R [sample_item 1, sample_item 2] (fresh_batcher empty_cache\<lparr>ba_queue := [sample_item 1, sample_item 2]\<rparr>)"
    by simp
  from reach_round [OF reach_send [OF this, of "sample_item 3"], of 1] show ?thesis by (simp add: sample_state_def)
qed

lemma sample_answers: "map fst (ba_replies sample_state) = [1, 2] \<and> map bi_id (ba_queue sample_state) = [3]"
  by code_simp

theorem batcher_replies_once_witness:
  "mset (map bi_id (ba_queue sample_state)) + mset (map fst (ba_replies sample_state))
     = mset (map bi_id [sample_item 1, sample_item 2, sample_item 3])"
  by (rule batcher_replies_once [OF sample_reach])

theorem batcher_serves_all_witness:
  "ba_queue (serve sample_env sample_backend [0] sample_state) = []"
  using batcher_serves_all [of sample_state "[0]" sample_env sample_backend] sample_answers by auto

theorem batcher_replies_genuine_witness:
  "cache_ok sample_env sample_backend (ba_cache sample_state)
    \<and> list_all (reply_ok sample_env sample_backend (set [sample_item 1, sample_item 2, sample_item 3])) (ba_replies sample_state)"
proof (rule batcher_replies_genuine [OF _ _ sample_reach])
  have "find (\<lambda>t. int (task_index t) = int (task_index u)) all_tasks = Some u" for u
    by (cases u) (simp_all add: all_tasks_def)
  then show "json_roundtrip sample_env" by (auto simp: json_roundtrip_def sample_env_def)
  show "cache_ok sample_env sample_backend empty_cache"
    by (simp add: cache_ok_def lmdb.sound_def entry_lookup_def empty_cache_def)
qed

section \<open>The engine\<close>

text \<open>A sender is named by the number of its channel.\<close>

record engine =
  en_routes :: "task \<rightharpoonup> nat"
  en_backend_names :: "task \<rightharpoonup> rstr"
  en_max_concurrent_values :: nat
  en_cancelled :: bool

definition engine_new :: engine where
  "engine_new = \<lparr>en_routes = Map.empty, en_backend_names = Map.empty, en_max_concurrent_values = 8, en_cancelled = False\<rparr>"

definition route_queue_capacity :: "engine \<Rightarrow> nat" where
  "route_queue_capacity en = max (en_max_concurrent_values en) 1"

definition engine_cancel :: "engine \<Rightarrow> engine" where
  "engine_cancel en = en\<lparr>en_cancelled := True\<rparr>"

definition engine_shutdown :: "engine \<Rightarrow> engine" where
  "engine_shutdown en = en\<lparr>en_routes := Map.empty\<rparr>"

definition serves :: "engine \<Rightarrow> task \<Rightarrow> bool" where
  "serves en t \<longleftrightarrow> t \<in> dom (en_routes en)"

text \<open>\<open>insert(..).is_some()\<close>: the route is replaced before the duplicate is reported.\<close>

fun register_tasks :: "rstr \<Rightarrow> nat \<Rightarrow> task list \<Rightarrow> engine \<Rightarrow> (rstr + unit) \<times> engine" where
  "register_tasks name tx [] en = (Inr (), en)"
| "register_tasks name tx (t # ts) en =
     (let taken = en_routes en t \<noteq> None; en1 = en\<lparr>en_routes := (en_routes en)(t \<mapsto> tx)\<rparr>
      in if taken
         then (Inl (str ''two backends declared for '' @ task_debug t @ str '' (second: '' @ name @ str '')''), en1)
         else register_tasks name tx ts (en1\<lparr>en_backend_names := (en_backend_names en1)(t \<mapsto> name)\<rparr>))"

definition register :: "('i, 'o) backend \<Rightarrow> nat \<Rightarrow> engine \<Rightarrow> (rstr + unit) \<times> engine" where
  "register b tx en = register_tasks (be_name b) tx (be_tasks b) en"

text \<open>
  \<open>dispatch_inner\<close>: \<open>accepts tx\<close> tells whether the send succeeds, \<open>answer tx input\<close> what comes back on the
  reply channel (\<open>None\<close> when the batcher drops it).
\<close>

definition dispatch_inner ::
    "engine \<Rightarrow> (nat \<Rightarrow> bool) \<Rightarrow> (nat \<Rightarrow> 'i task_input \<Rightarrow> 'o task_output ba_result option) \<Rightarrow> 'i task_input \<Rightarrow>
     'o task_output ba_result" where
  "dispatch_inner en accepts answer input =
     (if en_cancelled en then Inl (WorkerError (str ''engine cancelled''))
      else (let t = ti_task input
            in case en_routes en t of
                 None \<Rightarrow> Inl (WorkerError (str ''no backend registered for '' @ task_debug t))
               | Some tx \<Rightarrow>
                   if \<not> accepts tx
                   then Inl (WorkerError (str ''engine batcher for '' @ task_debug t @ str '' is gone (engine shut down?)''))
                   else (case answer tx input of
                       None \<Rightarrow> Inl (WorkerError (str ''engine dropped reply for '' @ task_debug t @ str '' mid-call''))
                     | Some r \<Rightarrow> r)))"

lemma register_tasks_ok:
  "fst (register_tasks name tx ts en) = Inr () \<longleftrightarrow> distinct ts \<and> set ts \<inter> dom (en_routes en) = {}"
  by (induction ts arbitrary: en) (auto simp: Let_def)

lemma register_tasks_state:
  "fst (register_tasks name tx ts en) = Inr () \<Longrightarrow>
     en_routes (snd (register_tasks name tx ts en)) t = (if t \<in> set ts then Some tx else en_routes en t) \<and>
     en_backend_names (snd (register_tasks name tx ts en)) t = (if t \<in> set ts then Some name else en_backend_names en t)"
proof (induction ts arbitrary: en)
  case (Cons a ts)
  let ?en = "en\<lparr>en_routes := (en_routes en)(a \<mapsto> tx), en_backend_names := (en_backend_names en)(a \<mapsto> name)\<rparr>"
  have free: "en_routes en a = None" using Cons.prems by (auto simp: Let_def split: if_splits)
  then have e: "register_tasks name tx (a # ts) en = register_tasks name tx ts ?en" by (simp add: Let_def)
  then have "fst (register_tasks name tx ts ?en) = Inr ()" using Cons.prems by simp
  from Cons.IH [OF this] show ?case unfolding e by auto
qed simp

lemma pair_result_iff: "(fst r = x \<Longrightarrow> snd r = y) \<Longrightarrow> r = (x, z) \<longleftrightarrow> fst r = x \<and> z = y"
  by (cases r) auto

text \<open>Registering a backend succeeds exactly when it declares no task twice and none of its tasks has a
  backend yet; then its tasks, and only they, are routed to its channel and carry its name, and every
  other route, the configuration and the cancellation flag are as before.\<close>

lemma register_correct:
  "register b tx en = (Inr (), en') \<longleftrightarrow>
     distinct (be_tasks b) \<and> list_all (\<lambda>t. \<not> serves en t) (be_tasks b) \<and>
     en' = en\<lparr>en_routes := (\<lambda>t. if t \<in> set (be_tasks b) then Some tx else en_routes en t),
              en_backend_names := (\<lambda>t. if t \<in> set (be_tasks b) then Some (be_name b) else en_backend_names en t)\<rparr>"
proof -
  let ?r = "register b tx en"
  have ok: "fst ?r = Inr () \<longleftrightarrow> distinct (be_tasks b) \<and> list_all (\<lambda>t. \<not> serves en t) (be_tasks b)"
    using register_tasks_ok [of "be_name b" tx "be_tasks b" en] by (auto simp: register_def serves_def list_all_iff)
  have rest: "en_max_concurrent_values (snd (register_tasks n tx ts e)) = en_max_concurrent_values e
      \<and> en_cancelled (snd (register_tasks n tx ts e)) = en_cancelled e" for n ts e
    by (induction ts arbitrary: e) (auto simp: Let_def)
  have "snd ?r = en\<lparr>en_routes := (\<lambda>t. if t \<in> set (be_tasks b) then Some tx else en_routes en t),
              en_backend_names := (\<lambda>t. if t \<in> set (be_tasks b) then Some (be_name b) else en_backend_names en t)\<rparr>"
    if "fst ?r = Inr ()"
  proof (rule engine.equality)
    note st = register_tasks_state [of "be_name b" tx "be_tasks b" en, folded register_def, OF that]
    show "en_routes (snd ?r) = en_routes (en\<lparr>en_routes := (\<lambda>t. if t \<in> set (be_tasks b) then Some tx else en_routes en t),
        en_backend_names := (\<lambda>t. if t \<in> set (be_tasks b) then Some (be_name b) else en_backend_names en t)\<rparr>)"
      and "en_backend_names (snd ?r) = en_backend_names (en\<lparr>en_routes := (\<lambda>t. if t \<in> set (be_tasks b) then Some tx else en_routes en t),
        en_backend_names := (\<lambda>t. if t \<in> set (be_tasks b) then Some (be_name b) else en_backend_names en t)\<rparr>)"
      by (rule ext, use st in simp)+
  qed (use rest [of "be_name b" "be_tasks b" en] in \<open>simp_all add: register_def\<close>)
  then have "?r = (Inr (), en') \<longleftrightarrow> fst ?r = Inr () \<and> en' = en\<lparr>en_routes := (\<lambda>t. if t \<in> set (be_tasks b) then Some tx else en_routes en t),
              en_backend_names := (\<lambda>t. if t \<in> set (be_tasks b) then Some (be_name b) else en_backend_names en t)\<rparr>"
    by (rule pair_result_iff)
  then show ?thesis unfolding ok by (simp only: conj_assoc)
qed

text \<open>
  A dispatch after a cancel fails with a worker error, not with the error value \<open>Cancelled\<close> that the
  documentation of the flag announces.
\<close>

lemma cancelled_dispatch:
  "dispatch_inner (engine_cancel en) accepts answer input = Inl (WorkerError (str ''engine cancelled''))"
  by (simp add: dispatch_inner_def engine_cancel_def)

end
