(* ===== verification/Alignment.thy ===== *)
theory Alignment
  imports EditDistance Complex_Main
begin

text \<open>
  \<^verbatim>\<open>batchalign-core/src/alignment/mod.rs\<close>: prefix and suffix stripping, Hirschberg's
  divide and conquer, the linear-space cost rows and the full-table aligner with its traceback.
  The model follows the loops of the code (tables updated by index, rows built by pushing); the
  lemmas show that it always returns, that the result is an alignment of exactly the two inputs,
  and that no alignment leaves fewer elements unmatched.
\<close>

section \<open>Data\<close>

definition COST_SUB :: nat where "COST_SUB = 2"
definition COST_GAP :: nat where "COST_GAP = 1"
definition SMALL_CUTOFF :: nat where "SMALL_CUTOFF = 2048"
definition USIZE_MAX :: nat where "USIZE_MAX = 2 ^ 64 - 1"

datatype align_result =
    Match (key: rstr) (payload_idx: nat) (reference_idx: nat)
  | ExtraPayload (key: rstr) (payload_idx: nat)
  | ExtraReference (key: rstr) (reference_idx: nat)

datatype match_mode = Exact | CaseInsensitive | Fuzzy (threshold: rat)

text \<open>
  The two implementations of the trait \<open>Alignable\<close>. The similarity \<open>strsim::jaro_winkler\<close> is a
  third-party function, so it is the parameter \<open>jw\<close>; \<open>f64\<close> values are exact rationals.
\<close>

definition str_matches ::
    "unicode \<Rightarrow> (rstr \<Rightarrow> rstr \<Rightarrow> rat) \<Rightarrow> match_mode \<Rightarrow> rstr \<Rightarrow> rstr \<Rightarrow> bool" where
  "str_matches U jw mode a b =
     (case mode of
        Exact \<Rightarrow> a = b
      | CaseInsensitive \<Rightarrow> eq_ignore_ascii_case a b
      | Fuzzy th \<Rightarrow>
          if eq_ignore_ascii_case a b then True
          else jw (to_lowercase U a) (to_lowercase U b) \<ge> th)"

definition str_to_key :: "rstr \<Rightarrow> rstr" where
  "str_to_key s = s"

definition char_matches :: "match_mode \<Rightarrow> rchar \<Rightarrow> rchar \<Rightarrow> bool" where
  "char_matches mode a b =
     (case mode of
        Exact \<Rightarrow> a = b
      | CaseInsensitive \<Rightarrow> to_ascii_lower_char a = to_ascii_lower_char b
      | Fuzzy th \<Rightarrow> to_ascii_lower_char a = to_ascii_lower_char b)"

definition char_to_key :: "rchar \<Rightarrow> rstr" where
  "char_to_key c = [c]"

section \<open>Linear-space cost rows\<close>

text \<open>
  One row: \<open>cur\<close> starts with \<open>prev[0] + COST_GAP\<close> and is pushed to once per payload element,
  reading \<open>prev\<close> and the last entry pushed.
\<close>

definition row_step :: "('a \<Rightarrow> 'a \<Rightarrow> bool) \<Rightarrow> 'a \<Rightarrow> nat list \<Rightarrow> nat \<times> 'a \<Rightarrow> nat list \<Rightarrow> nat list" where
  "row_step mt ref_item prev = (\<lambda>(pay_idx, pay_item) cur.
     let is_match = mt ref_item pay_item;
         sub_cost = prev ! pay_idx + (if is_match then 0 else COST_SUB);
         del_cost = prev ! (pay_idx + 1) + COST_GAP;
         ins_cost = cur ! pay_idx + COST_GAP
     in cur @ [min (min sub_cost del_cost) ins_cost])"

definition next_row :: "('a \<Rightarrow> 'a \<Rightarrow> bool) \<Rightarrow> 'a list \<Rightarrow> 'a \<Rightarrow> nat list \<Rightarrow> nat list" where
  "next_row mt payload ref_item prev =
     fold (row_step mt ref_item prev) (enumerate 0 payload) [prev ! 0 + COST_GAP]"

definition row_costs :: "('a \<Rightarrow> 'a \<Rightarrow> bool) \<Rightarrow> 'a list \<Rightarrow> 'a list \<Rightarrow> nat list" where
  "row_costs mt reference payload =
     fold (next_row mt payload) reference [0..<length payload + 1]"

definition row_costs_rev :: "('a \<Rightarrow> 'a \<Rightarrow> bool) \<Rightarrow> 'a list \<Rightarrow> 'a list \<Rightarrow> nat list" where
  "row_costs_rev mt reference payload =
     fold (next_row mt (rev payload)) (rev reference) [0..<length payload + 1]"

section \<open>The full table\<close>

datatype action = Start | MatchA | Substitution | ExtraPayloadA | ExtraReferenceA

type_synonym dp_entry = "nat \<times> action \<times> nat \<times> nat"

definition dp_idx :: "nat \<Rightarrow> nat \<Rightarrow> nat \<Rightarrow> nat" where
  "dp_idx cols r c = r * cols + c"

definition dp_init :: "nat \<Rightarrow> nat \<Rightarrow> dp_entry list" where
  "dp_init rows cols =
     fold (\<lambda>j dp. dp[dp_idx cols 0 j := (j * COST_GAP, ExtraPayloadA, 0, j - 1)]) [1..<cols]
       (fold (\<lambda>i dp. dp[dp_idx cols i 0 := (i * COST_GAP, ExtraReferenceA, i - 1, 0)]) [1..<rows]
         (replicate (rows * cols) (0, Start, 0, 0)))"

definition dp_cell :: "('a \<Rightarrow> 'a \<Rightarrow> bool) \<Rightarrow> 'a list \<Rightarrow> 'a list \<Rightarrow> nat \<Rightarrow> dp_entry list \<Rightarrow> nat \<Rightarrow> nat \<Rightarrow> dp_entry" where
  "dp_cell mt payload reference cols dp i j =
     (let is_match = mt (reference ! (i - 1)) (payload ! (j - 1));
          sub_cost = fst (dp ! dp_idx cols (i - 1) (j - 1)) + (if is_match then 0 else COST_SUB);
          del_cost = fst (dp ! dp_idx cols (i - 1) j) + COST_GAP;
          ins_cost = fst (dp ! dp_idx cols i (j - 1)) + COST_GAP
      in if sub_cost \<le> del_cost \<and> sub_cost \<le> ins_cost then
           (sub_cost, (if is_match then MatchA else Substitution), i - 1, j - 1)
         else if del_cost \<le> sub_cost \<and> del_cost \<le> ins_cost then
           (del_cost, ExtraReferenceA, i - 1, j)
         else (ins_cost, ExtraPayloadA, i, j - 1))"

definition dp_row :: "('a \<Rightarrow> 'a \<Rightarrow> bool) \<Rightarrow> 'a list \<Rightarrow> 'a list \<Rightarrow> nat \<Rightarrow> nat \<Rightarrow> dp_entry list \<Rightarrow> dp_entry list" where
  "dp_row mt payload reference cols i dp =
     fold (\<lambda>j dp. dp[dp_idx cols i j := dp_cell mt payload reference cols dp i j]) [1..<cols] dp"

definition dp_table :: "('a \<Rightarrow> 'a \<Rightarrow> bool) \<Rightarrow> 'a list \<Rightarrow> 'a list \<Rightarrow> dp_entry list" where
  "dp_table mt payload reference =
     (let rows = length reference + 1; cols = length payload + 1
      in fold (dp_row mt payload reference cols) [1..<rows] (dp_init rows cols))"

text \<open>
  The traceback pushes onto \<open>output\<close> (kept here in push order) until it reaches the origin;
  a loop with no bound of its own, so it is a partial function.
\<close>

partial_function (option) traceback ::
    "('a \<Rightarrow> rstr) \<Rightarrow> 'a list \<Rightarrow> 'a list \<Rightarrow> nat \<Rightarrow> nat \<Rightarrow> dp_entry list \<Rightarrow> nat \<Rightarrow> nat \<Rightarrow>
     align_result list \<Rightarrow> align_result list option" where
  "traceback to_key payload reference pay_offset ref_offset dp i j output =
     (if i > 0 \<or> j > 0 then
        (case dp ! dp_idx (length payload + 1) i j of (c, act, pi', pj') \<Rightarrow>
          (case act of
             MatchA \<Rightarrow> traceback to_key payload reference pay_offset ref_offset dp pi' pj'
               (output @ [Match (to_key (reference ! pi')) (pay_offset + pj') (ref_offset + pi')])
           | Substitution \<Rightarrow> traceback to_key payload reference pay_offset ref_offset dp pi' pj'
               (output @ [ExtraPayload (to_key (payload ! pj')) (pay_offset + pj'),
                          ExtraReference (to_key (reference ! pi')) (ref_offset + pi')])
           | ExtraPayloadA \<Rightarrow> traceback to_key payload reference pay_offset ref_offset dp pi' pj'
               (output @ [ExtraPayload (to_key (payload ! pj')) (pay_offset + pj')])
           | ExtraReferenceA \<Rightarrow> traceback to_key payload reference pay_offset ref_offset dp pi' pj'
               (output @ [ExtraReference (to_key (reference ! pi')) (ref_offset + pi')])
           | Start \<Rightarrow> Some output))
      else Some output)"

definition align_small ::
    "('a \<Rightarrow> 'a \<Rightarrow> bool) \<Rightarrow> ('a \<Rightarrow> rstr) \<Rightarrow> 'a list \<Rightarrow> 'a list \<Rightarrow> nat \<Rightarrow> nat \<Rightarrow> align_result list option" where
  "align_small mt to_key payload reference pay_offset ref_offset =
     map_option rev
       (traceback to_key payload reference pay_offset ref_offset (dp_table mt payload reference)
          (length reference) (length payload) [])"

section \<open>Divide and conquer\<close>

text \<open>The split loop: \<open>best\<close> starts at \<open>usize::MAX\<close> and the first least cost wins.\<close>

definition best_split :: "nat list \<Rightarrow> nat list \<Rightarrow> nat \<Rightarrow> nat" where
  "best_split score_left score_right pay_len =
     snd (fold (\<lambda>k (best, split).
                  let cost = score_left ! k + score_right ! (pay_len - k)
                  in if cost < best then (cost, k) else (best, split))
            [0..<pay_len + 1] (USIZE_MAX, 0))"

function hirschberg ::
    "('a \<Rightarrow> 'a \<Rightarrow> bool) \<Rightarrow> ('a \<Rightarrow> rstr) \<Rightarrow> 'a list \<Rightarrow> 'a list \<Rightarrow> nat \<Rightarrow> nat \<Rightarrow> align_result list option" where
  "hirschberg mt to_key payload reference pay_offset ref_offset =
     (if reference = [] then
        Some (map (\<lambda>(i, k). ExtraPayload (to_key k) (pay_offset + i)) (enumerate 0 payload))
      else if payload = [] then
        Some (map (\<lambda>(i, k). ExtraReference (to_key k) (ref_offset + i)) (enumerate 0 reference))
      else if length reference \<le> 1 \<or> length payload \<le> 1
              \<or> length reference * length payload \<le> SMALL_CUTOFF then
        align_small mt to_key payload reference pay_offset ref_offset
      else
        (let mid = length reference div 2;
             left_ref = take mid reference;
             right_ref = drop mid reference;
             split = best_split (row_costs mt left_ref payload)
                       (row_costs_rev mt right_ref payload) (length payload)
         in case hirschberg mt to_key (take split payload) left_ref pay_offset ref_offset of
              None \<Rightarrow> None
            | Some left_result \<Rightarrow>
                (case hirschberg mt to_key (drop split payload) right_ref
                        (pay_offset + split) (ref_offset + mid) of
                   None \<Rightarrow> None
                 | Some right_result \<Rightarrow> Some (left_result @ right_result))))"
  by pat_completeness auto
termination
  by (relation "measure (\<lambda>(mt, to_key, payload, reference, pay_offset, ref_offset). length reference)")
    auto

declare hirschberg.simps [simp del]

definition common_prefix_len :: "('a \<Rightarrow> 'a \<Rightarrow> bool) \<Rightarrow> 'a list \<Rightarrow> 'a list \<Rightarrow> nat" where
  "common_prefix_len mt xs ys = length (takeWhile (\<lambda>(p, r). mt p r) (zip xs ys))"

definition align_generic ::
    "('a \<Rightarrow> 'a \<Rightarrow> bool) \<Rightarrow> ('a \<Rightarrow> rstr) \<Rightarrow> 'a list \<Rightarrow> 'a list \<Rightarrow> align_result list option" where
  "align_generic mt to_key payload reference =
     (let prefix_len = common_prefix_len mt payload reference;
          suffix_len = common_prefix_len mt (rev (drop prefix_len payload)) (rev (drop prefix_len reference));
          prefix_part = map (\<lambda>(i, ref_item). Match (to_key ref_item) i i)
                          (take prefix_len (enumerate 0 reference));
          mid_pay = drop prefix_len (take (length payload - suffix_len) payload);
          mid_ref = drop prefix_len (take (length reference - suffix_len) reference);
          pay_suffix_start = length payload - suffix_len;
          ref_suffix_start = length reference - suffix_len;
          suffix_part = map (\<lambda>i. Match (to_key (reference ! (ref_suffix_start + i)))
                                   (pay_suffix_start + i) (ref_suffix_start + i)) [0..<suffix_len]
      in map_option (\<lambda>mid. prefix_part @ mid @ suffix_part)
           (hirschberg mt to_key mid_pay mid_ref prefix_len prefix_len))"

definition align ::
    "unicode \<Rightarrow> (rstr \<Rightarrow> rstr \<Rightarrow> rat) \<Rightarrow> rstr list \<Rightarrow> rstr list \<Rightarrow> match_mode \<Rightarrow> align_result list option" where
  "align U jw payload reference mode =
     align_generic (str_matches U jw mode) str_to_key payload reference"

definition align_chars :: "rchar list \<Rightarrow> rchar list \<Rightarrow> match_mode \<Rightarrow> align_result list option" where
  "align_chars payload reference mode =
     align_generic (char_matches mode) char_to_key payload reference"


section \<open>What an alignment is\<close>

text \<open>
  \<open>align_valid mt tk ps rs po ro out\<close>: reading \<open>out\<close> from left to right consumes the payload \<open>ps\<close>
  and the reference \<open>rs\<close> completely and in order; the indices count from \<open>po\<close> and \<open>ro\<close>, the keys
  are those of the elements, and every match pairs elements that match.
\<close>

fun align_valid ::
    "('a \<Rightarrow> 'a \<Rightarrow> bool) \<Rightarrow> ('a \<Rightarrow> rstr) \<Rightarrow> 'a list \<Rightarrow> 'a list \<Rightarrow> nat \<Rightarrow> nat \<Rightarrow> align_result list \<Rightarrow> bool" where
  "align_valid mt tk ps rs po ro [] = (ps = [] \<and> rs = [])"
| "align_valid mt tk ps rs po ro (Match k i j # out) =
     (ps \<noteq> [] \<and> rs \<noteq> [] \<and> mt (hd ps) (hd rs) \<and> k = tk (hd rs) \<and> i = po \<and> j = ro \<and>
      align_valid mt tk (tl ps) (tl rs) (Suc po) (Suc ro) out)"
| "align_valid mt tk ps rs po ro (ExtraPayload k i # out) =
     (ps \<noteq> [] \<and> k = tk (hd ps) \<and> i = po \<and> align_valid mt tk (tl ps) rs (Suc po) ro out)"
| "align_valid mt tk ps rs po ro (ExtraReference k j # out) =
     (rs \<noteq> [] \<and> k = tk (hd rs) \<and> j = ro \<and> align_valid mt tk ps (tl rs) po (Suc ro) out)"

fun is_match :: "align_result \<Rightarrow> bool" where
  "is_match (Match k i j) = True"
| "is_match _ = False"

definition align_cost :: "align_result list \<Rightarrow> nat" where
  "align_cost out = length (filter (\<lambda>r. \<not> is_match r) out)"

lemma align_cost_simps [simp]:
  "align_cost [] = 0"
  "align_cost (Match k i j # out) = align_cost out"
  "align_cost (ExtraPayload k i # out) = Suc (align_cost out)"
  "align_cost (ExtraReference k j # out) = Suc (align_cost out)"
  "align_cost (out @ out') = align_cost out + align_cost out'"
  by (simp_all add: align_cost_def)

lemma align_valid_append:
  "align_valid mt tk ps rs po ro out \<Longrightarrow>
   align_valid mt tk ps' rs' (po + length ps) (ro + length rs) out' \<Longrightarrow>
   align_valid mt tk (ps @ ps') (rs @ rs') po ro (out @ out')"
proof (induction mt tk ps rs po ro out rule: align_valid.induct)
  case (2 mt tk ps rs po ro k i j out)
  then show ?case by (cases ps; cases rs) auto
next
  case (3 mt tk ps rs po ro k i out)
  then show ?case by (cases ps) auto
next
  case (4 mt tk ps rs po ro k j out)
  then show ?case by (cases rs) auto
qed auto

lemma align_valid_aligned:
  "align_valid mt tk ps rs po ro out \<Longrightarrow> aligned mt ps rs (align_cost out)"
proof (induction mt tk ps rs po ro out rule: align_valid.induct)
  case (1 mt tk ps rs po ro)
  then show ?case by (simp add: aligned.empty)
next
  case (2 mt tk ps rs po ro k i j out)
  then show ?case by (cases ps; cases rs) (auto intro: aligned.pair)
next
  case (3 mt tk ps rs po ro k i out)
  then show ?case by (cases ps) (auto intro: aligned.skip_left)
next
  case (4 mt tk ps rs po ro k j out)
  then show ?case by (cases rs) (auto intro: aligned.skip_right)
qed

lemma align_valid_extra_payload:
  "align_valid mt tk ps [] po ro (map (\<lambda>(i, k). ExtraPayload (tk k) (q + i)) (enumerate n ps))
     \<longleftrightarrow> ps = [] \<or> po = q + n"
  by (induction ps arbitrary: n po) auto

lemma align_valid_extra_reference:
  "align_valid mt tk [] rs po ro (map (\<lambda>(i, k). ExtraReference (tk k) (q + i)) (enumerate n rs))
     \<longleftrightarrow> rs = [] \<or> ro = q + n"
  by (induction rs arbitrary: n ro) auto

lemma align_valid_matches:
  "list_all2 mt ps rs \<Longrightarrow> k = length rs \<Longrightarrow>
   align_valid mt tk ps rs po ro (map (\<lambda>i. Match (tk (rs ! i)) (po + i) (ro + i)) [0..<k])"
proof (induction arbitrary: po ro k rule: list_all2_induct)
  case Nil
  then show ?case by simp
next
  case (Cons p ps r rs)
  have "map (\<lambda>i. Match (tk ((r # rs) ! i)) (po + i) (ro + i)) [0..<Suc (length rs)] =
      Match (tk r) po ro # map (\<lambda>i. Match (tk (rs ! i)) (Suc po + i) (Suc ro + i)) [0..<length rs]"
    by (simp add: upt_conv_Cons map_Suc_upt [symmetric] del: upt_Suc)
  with Cons.hyps Cons.IH [OF refl, of "Suc po" "Suc ro"] Cons.prems show ?case by simp
qed

lemma align_cost_map_match [simp]: "align_cost (map (\<lambda>i. Match (f i) (g i) (h i)) xs) = 0"
  by (induction xs) auto

section \<open>The rows and the table compute edit distances\<close>

abbreviation ed_at :: "('a \<Rightarrow> 'a \<Rightarrow> bool) \<Rightarrow> 'a list \<Rightarrow> 'a list \<Rightarrow> nat \<Rightarrow> nat \<Rightarrow> nat" where
  "ed_at mt refs pays i j \<equiv> edit_distance mt (take i refs) (take j pays)"

lemma ed_at_Suc:
  assumes "i < length refs" "j < length pays"
  shows "ed_at mt refs pays (Suc i) (Suc j) =
     min (min (ed_at mt refs pays i j + (if mt (refs ! i) (pays ! j) then 0 else COST_SUB))
              (ed_at mt refs pays i (Suc j) + COST_GAP))
         (ed_at mt refs pays (Suc i) j + COST_GAP)"
proof -
  have "ed_at mt refs pays (Suc i) (Suc j) =
      min (min (Suc (ed_at mt refs pays i (Suc j))) (Suc (ed_at mt refs pays (Suc i) j)))
          ((if mt (refs ! i) (pays ! j) then 0 else 2) + ed_at mt refs pays i j)"
    using edit_distance_snoc [of mt "take i refs" "refs ! i" "take j pays" "pays ! j"] assms
    by (simp only: take_Suc_nth)
  then show ?thesis
    by (simp only: COST_SUB_def COST_GAP_def Suc_eq_plus1 min.assoc min.commute
        min.left_commute add.commute)
qed

lemma next_row_recurrence:
  assumes start: "E' 0 = E 0 + COST_GAP"
    and step: "\<And>j. j < length pays \<Longrightarrow> E' (Suc j) =
      min (min (E j + (if mt r (pays ! j) then 0 else COST_SUB)) (E (Suc j) + COST_GAP)) (E' j + COST_GAP)"
  shows "next_row mt pays r (map E [0..<length pays + 1]) = map E' [0..<length pays + 1]"
proof -
  let ?prev = "map E [0..<length pays + 1]"
  have nth: "j \<le> length pays \<Longrightarrow> ?prev ! j = E j" for j
    by (simp del: upt_Suc)
  have "k \<le> length pays \<Longrightarrow>
      fold (row_step mt r ?prev) (enumerate 0 (take k pays)) [?prev ! 0 + COST_GAP] =
      map E' [0..<k + 1]" for k
  proof (induction k)
    case 0
    show ?case using start nth [of 0] by simp
  next
    case (Suc k)
    then have e: "enumerate 0 (take (Suc k) pays) = enumerate 0 (take k pays) @ [(k, pays ! k)]"
      by (simp add: take_Suc_nth enumerate_append_eq)
    have "map E' [0..<k + 1] ! k = E' k" by (simp del: upt_Suc)
    with Suc.prems step [of k] nth [of k] nth [of "k + 1"]
    have "row_step mt r ?prev (k, pays ! k) (map E' [0..<k + 1]) = map E' [0..<k + 1] @ [E' (Suc k)]"
      by (simp only: row_step_def Let_def prod.case Suc_eq_plus1 Suc_le_eq less_imp_le)
    with Suc e show ?case by simp
  qed
  from this [of "length pays"] show ?thesis by (simp add: next_row_def)
qed

lemma next_row_correct:
  assumes i: "i < length refs"
  shows "next_row mt pays (refs ! i) (map (ed_at mt refs pays i) [0..<length pays + 1]) =
    map (ed_at mt refs pays (Suc i)) [0..<length pays + 1]"
  using i by (intro next_row_recurrence ed_at_Suc) (simp_all add: COST_GAP_def)

lemma row_costs_correct:
  "row_costs mt refs pays = map (\<lambda>j. edit_distance mt refs (take j pays)) [0..<length pays + 1]"
proof -
  have "k \<le> length refs \<Longrightarrow>
      fold (next_row mt pays) (take k refs) [0..<length pays + 1] =
      map (ed_at mt refs pays k) [0..<length pays + 1]" for k
  proof (induction k)
    case 0
    show ?case by (rule nth_equalityI) (simp_all add: nth_append del: upt_Suc)
  next
    case (Suc k)
    then show ?case
      using next_row_correct [of k refs mt pays] by (simp add: take_Suc_nth del: upt_Suc)
  qed
  from this [of "length refs"] show ?thesis by (simp add: row_costs_def del: upt_Suc)
qed

lemma row_costs_rev_correct:
  "row_costs_rev mt refs pays =
     map (\<lambda>j. edit_distance mt refs (drop (length pays - j) pays)) [0..<length pays + 1]"
proof -
  have "row_costs_rev mt refs pays = row_costs mt (rev refs) (rev pays)"
    by (simp add: row_costs_rev_def row_costs_def)
  also have "\<dots> = map (\<lambda>j. edit_distance mt refs (drop (length pays - j) pays)) [0..<length pays + 1]"
    by (simp add: row_costs_correct take_rev edit_distance_rev del: upt_Suc)
  finally show ?thesis .
qed

text \<open>
  The entry of a cell is right when it holds the edit distance of the two prefixes and an action
  that explains it: one step back to a cell whose distance is smaller by the cost of the step.
\<close>

definition good_entry :: "('a \<Rightarrow> 'a \<Rightarrow> bool) \<Rightarrow> 'a list \<Rightarrow> 'a list \<Rightarrow> nat \<Rightarrow> nat \<Rightarrow> dp_entry \<Rightarrow> bool" where
  "good_entry mt refs pays i j e \<longleftrightarrow>
     (case e of (c, act, i', j') \<Rightarrow>
        c = ed_at mt refs pays i j \<and>
        (case act of
           Start \<Rightarrow> i = 0 \<and> j = 0
         | MatchA \<Rightarrow> i = Suc i' \<and> j = Suc j' \<and> mt (refs ! i') (pays ! j') \<and> c = ed_at mt refs pays i' j'
         | Substitution \<Rightarrow> i = Suc i' \<and> j = Suc j' \<and> c = ed_at mt refs pays i' j' + 2
         | ExtraReferenceA \<Rightarrow> i = Suc i' \<and> j = j' \<and> c = Suc (ed_at mt refs pays i' j')
         | ExtraPayloadA \<Rightarrow> i = i' \<and> j = Suc j' \<and> c = Suc (ed_at mt refs pays i' j')))"

definition filled ::
    "('a \<Rightarrow> 'a \<Rightarrow> bool) \<Rightarrow> 'a list \<Rightarrow> 'a list \<Rightarrow> (nat \<times> nat) set \<Rightarrow> dp_entry list \<Rightarrow> bool" where
  "filled mt refs pays S dp \<longleftrightarrow>
     length dp = (length refs + 1) * (length pays + 1) \<and>
     (\<forall>(i, j) \<in> S. i \<le> length refs \<and> j \<le> length pays \<and>
        good_entry mt refs pays i j (dp ! dp_idx (length pays + 1) i j))"

lemma dp_idx_less: "i < rows \<Longrightarrow> j < cols \<Longrightarrow> dp_idx cols i j < rows * cols"
proof -
  assume "i < rows" "j < cols"
  then have "i * cols + j < Suc i * cols" by simp
  also have "\<dots> \<le> rows * cols" using \<open>i < rows\<close> by (intro mult_le_mono1) simp
  finally show ?thesis by (simp add: dp_idx_def)
qed

lemma dp_idx_inj:
  assumes "j < cols" "j' < cols" "dp_idx cols i j = dp_idx cols i' j'"
  shows "i = i' \<and> j = j'"
proof -
  have "(i * cols + j) div cols = (i' * cols + j') div cols" "(i * cols + j) mod cols = (i' * cols + j') mod cols"
    using assms(3) by (simp_all add: dp_idx_def)
  with assms(1,2) show ?thesis by (simp add: mult.commute)
qed

lemma filled_good:
  "filled mt refs pays S dp \<Longrightarrow> (i, j) \<in> S \<Longrightarrow>
   good_entry mt refs pays i j (dp ! dp_idx (length pays + 1) i j)"
  by (auto simp: filled_def)

lemma filled_cost:
  assumes "filled mt refs pays S dp" "(i, j) \<in> S"
  shows "fst (dp ! dp_idx (length pays + 1) i j) = ed_at mt refs pays i j"
  using filled_good [OF assms] by (auto simp: good_entry_def split: prod.splits)

lemma filled_update:
  assumes f: "filled mt refs pays S dp" and ij: "i \<le> length refs" "j \<le> length pays"
    and g: "good_entry mt refs pays i j e"
  shows "filled mt refs pays (insert (i, j) S) (dp[dp_idx (length pays + 1) i j := e])"
proof -
  let ?cols = "length pays + 1"
  have len: "length dp = (length refs + 1) * ?cols" using f by (simp add: filled_def)
  have lt: "dp_idx ?cols i j < length dp" using dp_idx_less [of i "length refs + 1" j ?cols] ij len by simp
  have "i' \<le> length refs \<and> j' \<le> length pays \<and>
      good_entry mt refs pays i' j' (dp[dp_idx ?cols i j := e] ! dp_idx ?cols i' j')"
    if "(i', j') \<in> insert (i, j) S" for i' j'
  proof (cases "(i', j') = (i, j)")
    case True
    with ij g lt show ?thesis by simp
  next
    case False
    with that f have old: "i' \<le> length refs" "j' \<le> length pays"
      "good_entry mt refs pays i' j' (dp ! dp_idx ?cols i' j')"
      by (auto simp: filled_def)
    have "dp_idx ?cols i j \<noteq> dp_idx ?cols i' j'"
      using dp_idx_inj [of j ?cols j' i i'] False old(2) ij(2) by auto
    with old show ?thesis by simp
  qed
  then have "\<forall>(i', j') \<in> insert (i, j) S. i' \<le> length refs \<and> j' \<le> length pays \<and>
      good_entry mt refs pays i' j' (dp[dp_idx ?cols i j := e] ! dp_idx ?cols i' j')" by blast
  with len show ?thesis unfolding filled_def length_list_update by (rule conjI)
qed

lemma filled_subset: "filled mt refs pays S dp \<Longrightarrow> T \<subseteq> S \<Longrightarrow> filled mt refs pays T dp"
  by (auto simp: filled_def)

lemma filled_init:
  "filled mt refs pays ({0..length refs} \<times> {0} \<union> {0} \<times> {0..length pays})
     (dp_init (length refs + 1) (length pays + 1))"
proof -
  let ?cols = "length pays + 1" and ?F = "filled mt refs pays"
  have start: "?F {(0, 0)} (replicate ((length refs + 1) * ?cols) (0, Start, 0, 0))"
    by (simp add: filled_def good_entry_def dp_idx_def)
  define dp1 :: "dp_entry list" where "dp1 = fold (\<lambda>i dp. dp[dp_idx ?cols i 0 := (i * COST_GAP, ExtraReferenceA, i - 1, 0)])
    [1..<length refs + 1] (replicate ((length refs + 1) * ?cols) (0, Start, 0, 0))"
  have col: "?F ({0..<length refs + 1} \<times> {0}) dp1"
    unfolding dp1_def
  proof (rule fold_invariant_upt_from [where P = "\<lambda>k. ?F ({0..<k} \<times> {0})"])
    fix k dp assume "1 \<le> k" "k < length refs + 1" "?F ({0..<k} \<times> {0}) dp"
    then have "?F (insert (k, 0) ({0..<k} \<times> {0})) (dp[dp_idx ?cols k 0 := (k * COST_GAP, ExtraReferenceA, k - 1, 0)])"
      by (intro filled_update) (auto simp: good_entry_def COST_GAP_def)
    then show "?F ({0..<Suc k} \<times> {0}) (dp[dp_idx ?cols k 0 := (k * COST_GAP, ExtraReferenceA, k - 1, 0)])"
      by (rule filled_subset) auto
  qed (use start in auto)
  have "?F ({0..length refs} \<times> {0} \<union> {0} \<times> {0..<length pays + 1})
      (fold (\<lambda>j dp. dp[dp_idx ?cols 0 j := (j * COST_GAP, ExtraPayloadA, 0, j - 1)]) [1..<?cols] dp1)"
  proof (rule fold_invariant_upt_from [where P = "\<lambda>k. ?F ({0..length refs} \<times> {0} \<union> {0} \<times> {0..<k})"])
    show "?F ({0..length refs} \<times> {0} \<union> {0} \<times> {0..<1}) dp1"
      by (rule filled_subset [OF col]) auto
  next
    fix k dp assume "1 \<le> k" "k < ?cols" "?F ({0..length refs} \<times> {0} \<union> {0} \<times> {0..<k}) dp"
    then have "?F (insert (0, k) ({0..length refs} \<times> {0} \<union> {0} \<times> {0..<k}))
        (dp[dp_idx ?cols 0 k := (k * COST_GAP, ExtraPayloadA, 0, k - 1)])"
      by (intro filled_update) (auto simp: good_entry_def COST_GAP_def)
    then show "?F ({0..length refs} \<times> {0} \<union> {0} \<times> {0..<Suc k})
        (dp[dp_idx ?cols 0 k := (k * COST_GAP, ExtraPayloadA, 0, k - 1)])"
      by (rule filled_subset) auto
  qed auto
  then show ?thesis
    by (simp add: dp_init_def dp1_def atLeastLessThanSuc_atLeastAtMost)
qed

text \<open>The three-way choice of a cell, over the three costs it compares.\<close>

definition cell_choice :: "bool \<Rightarrow> nat \<Rightarrow> nat \<Rightarrow> nat \<Rightarrow> nat \<Rightarrow> nat \<Rightarrow> dp_entry" where
  "cell_choice m sub del ins i j =
     (if sub \<le> del \<and> sub \<le> ins then (sub, (if m then MatchA else Substitution), i, j)
      else if del \<le> sub \<and> del \<le> ins then (del, ExtraReferenceA, i, Suc j)
      else (ins, ExtraPayloadA, Suc i, j))"

lemma cell_choice_good:
  assumes "i < length refs" "j < length pays"
    and "m = mt (refs ! i) (pays ! j)"
    and "sub = ed_at mt refs pays i j + (if m then 0 else COST_SUB)"
    and "del = ed_at mt refs pays i (Suc j) + COST_GAP"
    and "ins = ed_at mt refs pays (Suc i) j + COST_GAP"
  shows "good_entry mt refs pays (Suc i) (Suc j) (cell_choice m sub del ins i j)"
proof -
  have e: "ed_at mt refs pays (Suc i) (Suc j) = min (min sub del) ins"
    using ed_at_Suc [OF assms(1,2), of mt] assms(3-6) by simp
  consider "sub \<le> del \<and> sub \<le> ins" | "\<not> (sub \<le> del \<and> sub \<le> ins)" "del \<le> sub \<and> del \<le> ins"
    | "\<not> (sub \<le> del \<and> sub \<le> ins)" "\<not> (del \<le> sub \<and> del \<le> ins)" by blast
  then show ?thesis
  proof cases
    case 1
    then have "ed_at mt refs pays (Suc i) (Suc j) = sub" by (simp add: e)
    moreover have "cell_choice m sub del ins i j = (sub, (if m then MatchA else Substitution), i, j)"
      using 1 by (simp add: cell_choice_def)
    ultimately show ?thesis using assms(3,4) by (simp add: good_entry_def COST_SUB_def)
  next
    case 2
    then have "ed_at mt refs pays (Suc i) (Suc j) = del" by (simp add: e)
    moreover have "cell_choice m sub del ins i j = (del, ExtraReferenceA, i, Suc j)"
      using 2 by (simp add: cell_choice_def)
    ultimately show ?thesis using assms(5) by (simp add: good_entry_def COST_GAP_def)
  next
    case 3
    then have "ed_at mt refs pays (Suc i) (Suc j) = ins" by (simp add: e min_def)
    moreover have "cell_choice m sub del ins i j = (ins, ExtraPayloadA, Suc i, j)"
      unfolding cell_choice_def by (simp only: 3 if_False)
    ultimately show ?thesis using assms(6) by (simp add: good_entry_def COST_GAP_def)
  qed
qed

lemma dp_cell_good:
  assumes f: "filled mt refs pays S dp" and "i < length refs" "j < length pays"
    and "(i, j) \<in> S" "(i, Suc j) \<in> S" "(Suc i, j) \<in> S"
  shows "good_entry mt refs pays (Suc i) (Suc j) (dp_cell mt pays refs (length pays + 1) dp (Suc i) (Suc j))"
proof -
  let ?c = "\<lambda>i j. fst (dp ! dp_idx (length pays + 1) i j)"
  have "dp_cell mt pays refs (length pays + 1) dp (Suc i) (Suc j) =
      cell_choice (mt (refs ! i) (pays ! j))
        (?c i j + (if mt (refs ! i) (pays ! j) then 0 else COST_SUB))
        (?c i (Suc j) + COST_GAP) (?c (Suc i) j + COST_GAP) i j"
    by (simp only: dp_cell_def cell_choice_def Let_def diff_Suc_1)
  also have "good_entry mt refs pays (Suc i) (Suc j) \<dots>"
    using assms by (intro cell_choice_good) (simp_all only: filled_cost)
  finally show ?thesis .
qed

lemma dp_row_filled:
  assumes f: "filled mt refs pays S dp" and i: "i < length refs"
    and S: "{i} \<times> {0..length pays} \<subseteq> S" "(Suc i, 0) \<in> S"
  shows "filled mt refs pays (S \<union> {Suc i} \<times> {0..length pays})
           (dp_row mt pays refs (length pays + 1) (Suc i) dp)"
proof -
  let ?cols = "length pays + 1" and ?F = "filled mt refs pays"
  have "?F (S \<union> {Suc i} \<times> {0..<?cols}) (dp_row mt pays refs ?cols (Suc i) dp)"
    unfolding dp_row_def
  proof (rule fold_invariant_upt_from [where P = "\<lambda>k. ?F (S \<union> {Suc i} \<times> {0..<k})"])
    show "?F (S \<union> {Suc i} \<times> {0..<1}) dp" using S(2) by (intro filled_subset [OF f]) auto
  next
    fix k dp' assume k: "1 \<le> k" "k < ?cols" and f': "?F (S \<union> {Suc i} \<times> {0..<k}) dp'"
    then obtain k' where k': "k = Suc k'" by (cases k) auto
    have "good_entry mt refs pays (Suc i) (Suc k') (dp_cell mt pays refs ?cols dp' (Suc i) (Suc k'))"
      using k k' S i by (intro dp_cell_good [OF f']) auto
    then have "?F (insert (Suc i, k) (S \<union> {Suc i} \<times> {0..<k}))
        (dp'[dp_idx ?cols (Suc i) k := dp_cell mt pays refs ?cols dp' (Suc i) k])"
      using f' i k k' by (intro filled_update) auto
    then show "?F (S \<union> {Suc i} \<times> {0..<Suc k})
        (dp'[dp_idx ?cols (Suc i) k := dp_cell mt pays refs ?cols dp' (Suc i) k])"
      by (rule filled_subset) auto
  qed simp
  then show ?thesis by (simp add: atLeastLessThanSuc_atLeastAtMost)
qed

lemma dp_table_filled:
  "filled mt refs pays ({0..length refs} \<times> {0..length pays}) (dp_table mt pays refs)"
proof -
  let ?F = "filled mt refs pays"
  let ?B = "{0..length refs} \<times> {0} \<union> {0} \<times> {0..length pays}"
  have "?F (?B \<union> {0..<length refs + 1} \<times> {0..length pays}) (dp_table mt pays refs)"
    unfolding dp_table_def Let_def
  proof (rule fold_invariant_upt_from [where P = "\<lambda>k. ?F (?B \<union> {0..<k} \<times> {0..length pays})"])
    show "?F (?B \<union> {0..<1} \<times> {0..length pays}) (dp_init (length refs + 1) (length pays + 1))"
      by (rule filled_subset [OF filled_init]) auto
  next
    fix k dp assume k: "1 \<le> k" "k < length refs + 1" and f: "?F (?B \<union> {0..<k} \<times> {0..length pays}) dp"
    then obtain k' where k': "k = Suc k'" by (cases k) auto
    have "?F ((?B \<union> {0..<k} \<times> {0..length pays}) \<union> {Suc k'} \<times> {0..length pays})
        (dp_row mt pays refs (length pays + 1) (Suc k') dp)"
      using k k' by (intro dp_row_filled [OF f]) auto
    then show "?F (?B \<union> {0..<Suc k} \<times> {0..length pays}) (dp_row mt pays refs (length pays + 1) k dp)"
      unfolding k' by (rule filled_subset) auto
  qed simp
  then show ?thesis by (rule filled_subset) auto
qed

section \<open>The traceback\<close>

lemma traceback_correct:
  assumes f: "filled mt refs pays ({0..length refs} \<times> {0..length pays}) dp"
  shows "i \<le> length refs \<Longrightarrow> j \<le> length pays \<Longrightarrow>
    \<exists>new. traceback tk pays refs po ro dp i j out = Some (out @ new) \<and>
      align_valid (\<lambda>p r. mt r p) tk (take j pays) (take i refs) po ro (rev new) \<and>
      align_cost (rev new) = ed_at mt refs pays i j"
proof (induction "i + j" arbitrary: i j out rule: less_induct)
  case less
  show ?case
  proof (cases "i > 0 \<or> j > 0")
    case False
    then show ?thesis by (intro exI [of _ "[]"]) (simp add: traceback.simps)
  next
    case True
    obtain c act i' j' where e: "dp ! dp_idx (length pays + 1) i j = (c, act, i', j')"
      by (metis prod_cases4)
    have g: "good_entry mt refs pays i j (c, act, i', j')"
      using filled_good [OF f, of i j] less.prems e by simp
    then have c: "ed_at mt refs pays i j = c" by (simp add: good_entry_def)
    note g' = g [unfolded good_entry_def prod.case, THEN conjunct2]
    have step: "\<exists>new. traceback tk pays refs po ro dp i j out = Some (out @ new) \<and>
        align_valid (\<lambda>p r. mt r p) tk (take j pays) (take i refs) po ro (rev new) \<and>
        align_cost (rev new) = ed_at mt refs pays i j"
      if unf: "traceback tk pays refs po ro dp i j out = traceback tk pays refs po ro dp i' j' (out @ xs)"
        and dec: "i' + j' < i + j" "i' \<le> length refs" "j' \<le> length pays"
        and ps: "take j pays = take j' pays @ ps" and rs: "take i refs = take i' refs @ rs"
        and v: "align_valid (\<lambda>p r. mt r p) tk ps rs (po + j') (ro + i') (rev xs)"
        and cost: "c = ed_at mt refs pays i' j' + align_cost (rev xs)"
      for xs ps rs
    proof -
      from less.hyps [OF dec, of "out @ xs"] obtain new where
        new: "traceback tk pays refs po ro dp i' j' (out @ xs) = Some ((out @ xs) @ new)"
        "align_valid (\<lambda>p r. mt r p) tk (take j' pays) (take i' refs) po ro (rev new)"
        "align_cost (rev new) = ed_at mt refs pays i' j'" by blast
      have "align_valid (\<lambda>p r. mt r p) tk (take j pays) (take i refs) po ro (rev new @ rev xs)"
        unfolding ps rs using new(2) v dec by (intro align_valid_append) (simp_all add: min_def)
      with new unf cost c show ?thesis by (intro exI [of _ "xs @ new"]) simp
    qed
    note unf = traceback.simps [of tk pays refs po ro dp i j out, unfolded e prod.case if_P [OF True]]
    show ?thesis
    proof (cases act)
      case Start
      with g True show ?thesis by (simp add: good_entry_def)
    next
      case MatchA
      with g' less.prems unf show ?thesis
        by (intro step [of "[Match (tk (refs ! i')) (po + j') (ro + i')]" "[pays ! j']" "[refs ! i']"])
          (simp_all add: take_Suc_nth)
    next
      case Substitution
      with g' less.prems unf show ?thesis
        by (intro step [of "[ExtraPayload (tk (pays ! j')) (po + j'),
                             ExtraReference (tk (refs ! i')) (ro + i')]" "[pays ! j']" "[refs ! i']"])
          (simp_all add: take_Suc_nth)
    next
      case ExtraPayloadA
      with g' less.prems unf show ?thesis
        by (intro step [of "[ExtraPayload (tk (pays ! j')) (po + j')]" "[pays ! j']" "[]"])
          (simp_all add: take_Suc_nth)
    next
      case ExtraReferenceA
      with g' less.prems unf show ?thesis
        by (intro step [of "[ExtraReference (tk (refs ! i')) (ro + i')]" "[]" "[refs ! i']"])
          (simp_all add: take_Suc_nth)
    qed
  qed
qed

lemma align_small_correct:
  "\<exists>out. align_small mt tk pays refs po ro = Some out \<and>
     align_valid (\<lambda>p r. mt r p) tk pays refs po ro out \<and> align_cost out = edit_distance mt refs pays"
  using traceback_correct [OF dp_table_filled [of mt refs pays], of "length refs" "length pays" tk po ro "[]"]
  by (auto simp: align_small_def)

section \<open>Divide and conquer\<close>

lemma best_split_correct:
  shows best_split_le: "best_split sl sr n \<le> n"
    and best_split_least: "\<forall>k \<le> n. sl ! k + sr ! (n - k) < USIZE_MAX \<Longrightarrow> k \<le> n \<Longrightarrow>
      sl ! best_split sl sr n + sr ! (n - best_split sl sr n) \<le> sl ! k + sr ! (n - k)"
proof -
  define f where "f k = sl ! k + sr ! (n - k)" for k
  define step where "step = (\<lambda>k (best, split). if f k < best then (f k, k) else (best, split :: nat))"
  have bs: "best_split sl sr n = snd (fold step [0..<n + 1] (USIZE_MAX, 0))"
    unfolding step_def f_def by (simp only: best_split_def Let_def)
  have "case fold step [0..<n + 1] (USIZE_MAX, 0) of (best, split) \<Rightarrow>
      split \<le> n \<and> (\<forall>k < n + 1. best \<le> f k) \<and> (best = f split \<or> best = USIZE_MAX)"
  proof (rule fold_invariant_upt [where P = "\<lambda>k (best, split).
      split \<le> n \<and> (\<forall>k' < k. best \<le> f k') \<and> (best = f split \<or> best = USIZE_MAX)"])
    fix k s
    assume "k < n + 1" "case s of (best, split) \<Rightarrow>
      split \<le> n \<and> (\<forall>k' < k. best \<le> f k') \<and> (best = f split \<or> best = USIZE_MAX)"
    then show "case step k s of (best, split) \<Rightarrow>
      split \<le> n \<and> (\<forall>k' < Suc k. best \<le> f k') \<and> (best = f split \<or> best = USIZE_MAX)"
      by (cases s) (auto simp: step_def less_Suc_eq dest: less_imp_le intro: order_trans)
  qed simp
  then obtain best where inv: "best_split sl sr n \<le> n" "\<forall>k < n + 1. best \<le> f k"
    "best = f (best_split sl sr n) \<or> best = USIZE_MAX"
    unfolding bs by (cases "fold step [0..<n + 1] (USIZE_MAX, 0)") auto
  show "best_split sl sr n \<le> n" by (rule inv(1))
  assume small: "\<forall>k \<le> n. sl ! k + sr ! (n - k) < USIZE_MAX" and k: "k \<le> n"
  have "best \<le> f 0" using inv(2) by simp
  also have "f 0 < USIZE_MAX" using small [rule_format, of 0] by (simp add: f_def)
  finally have "best = f (best_split sl sr n)" using inv(3) by simp
  with inv(2) k show "sl ! best_split sl sr n + sr ! (n - best_split sl sr n) \<le> sl ! k + sr ! (n - k)"
    by (metis f_def add.commute le_imp_less_Suc plus_1_eq_Suc)
qed

lemma split_costs:
  assumes n: "n = length pays" and k: "k \<le> n"
  shows "row_costs mt left pays ! k + row_costs_rev mt right pays ! (n - k) =
    edit_distance mt left (take k pays) + edit_distance mt right (drop k pays)"
proof -
  have "row_costs mt left pays ! k = edit_distance mt left (take k pays)"
    using assms by (simp add: row_costs_correct del: upt_Suc)
  moreover have "row_costs_rev mt right pays ! (n - k) = edit_distance mt right (drop k pays)"
  proof -
    have "[0..<length pays + 1] ! (n - k) = n - k" using assms by (subst nth_upt) auto
    then show ?thesis using assms by (simp add: row_costs_rev_correct del: upt_Suc)
  qed
  ultimately show ?thesis by simp
qed

lemma split_optimal:
  assumes "length refs + length pays < USIZE_MAX"
    and "k = best_split (row_costs mt (take mid refs) pays)
               (row_costs_rev mt (drop mid refs) pays) (length pays)"
  shows "edit_distance mt (take mid refs) (take k pays) + edit_distance mt (drop mid refs) (drop k pays)
    = edit_distance mt refs pays" (is "?l = _")
proof -
  let ?f = "\<lambda>k. edit_distance mt (take mid refs) (take k pays) + edit_distance mt (drop mid refs) (drop k pays)"
  have k: "k \<le> length pays" using assms(2) best_split_le by simp
  have small: "\<forall>k \<le> length pays. ?f k < USIZE_MAX"
  proof (intro allI impI)
    fix k assume "k \<le> length pays"
    have "?f k \<le> (length (take mid refs) + length (take k pays)) + (length (drop mid refs) + length (drop k pays))"
      by (intro add_mono edit_distance_le)
    also have "\<dots> = length refs + length pays" using \<open>k \<le> length pays\<close> by simp
    finally show "?f k < USIZE_MAX" using assms(1) by simp
  qed
  have least: "?f k \<le> ?f k'" if "k' \<le> length pays" for k'
  proof -
    let ?l = "row_costs mt (take mid refs) pays" and ?r = "row_costs_rev mt (drop mid refs) pays"
    have sc: "j \<le> length pays \<Longrightarrow> ?l ! j + ?r ! (length pays - j) = ?f j" for j
      by (rule split_costs [OF refl])
    have "?l ! k + ?r ! (length pays - k) \<le> ?l ! k' + ?r ! (length pays - k')"
      unfolding assms(2) using small that by (intro best_split_least) (auto simp only: sc)
    then show ?thesis using k that by (simp only: sc)
  qed
  obtain k' where "k' \<le> length pays" "edit_distance mt refs pays = ?f k'"
    using edit_distance_split [of pays mt "take mid refs" "drop mid refs"] by auto
  with least have "?f k \<le> edit_distance mt refs pays" by simp
  moreover have "edit_distance mt refs pays \<le> ?f k"
    using edit_distance_append_le [of mt "take mid refs" "drop mid refs" "take k pays" "drop k pays"] by simp
  ultimately show ?thesis by simp
qed

lemma hirschberg_correct:
  "\<exists>out. hirschberg mt tk pays refs po ro = Some out \<and>
     align_valid (\<lambda>p r. mt r p) tk pays refs po ro out \<and>
     (length refs + length pays < USIZE_MAX \<longrightarrow> align_cost out = edit_distance mt refs pays)"
proof (induction mt tk pays refs po ro rule: hirschberg.induct)
  case (1 mt tk pays refs po ro)
  consider "refs = []" | "refs \<noteq> []" "pays = []"
    | "refs \<noteq> []" "pays \<noteq> []" "length refs \<le> 1 \<or> length pays \<le> 1 \<or> length refs * length pays \<le> SMALL_CUTOFF"
    | (split) "refs \<noteq> []" "pays \<noteq> []" "\<not> (length refs \<le> 1 \<or> length pays \<le> 1 \<or> length refs * length pays \<le> SMALL_CUTOFF)"
    by blast
  then show ?case
  proof cases
    case 1
    have "align_cost (map (\<lambda>(i, k). ExtraPayload (tk k) (po + i)) (enumerate n pays)) = length pays" for n
      by (induction pays arbitrary: n) auto
    with 1 show ?thesis
      by (simp add: hirschberg.simps [of mt tk pays "[]"] align_valid_extra_payload)
  next
    case 2
    have "align_cost (map (\<lambda>(i, k). ExtraReference (tk k) (ro + i)) (enumerate n refs)) = length refs" for n
      by (induction refs arbitrary: n) auto
    with 2 show ?thesis
      by (simp add: hirschberg.simps [of mt tk "[]" refs] align_valid_extra_reference)
  next
    case 3
    then have "hirschberg mt tk pays refs po ro = align_small mt tk pays refs po ro"
      by (subst hirschberg.simps) (simp only: if_False if_True)
    with align_small_correct [of mt tk pays refs po ro] show ?thesis by auto
  next
    case split
    define mid where "mid = length refs div 2"
    define k where "k = best_split (row_costs mt (take mid refs) pays)
      (row_costs_rev mt (drop mid refs) pays) (length pays)"
    have k: "k \<le> length pays" by (simp add: k_def best_split_le)
    note IH = "1.IH" [OF split refl refl refl refl, folded mid_def, folded k_def]
    from IH(1) obtain l where l: "hirschberg mt tk (take k pays) (take mid refs) po ro = Some l"
      "align_valid (\<lambda>p r. mt r p) tk (take k pays) (take mid refs) po ro l"
      "length (take mid refs) + length (take k pays) < USIZE_MAX \<longrightarrow>
         align_cost l = edit_distance mt (take mid refs) (take k pays)" by blast
    from IH(2) [OF l(1)] obtain r where
      r: "hirschberg mt tk (drop k pays) (drop mid refs) (po + k) (ro + mid) = Some r"
      "align_valid (\<lambda>p r. mt r p) tk (drop k pays) (drop mid refs) (po + k) (ro + mid) r"
      "length (drop mid refs) + length (drop k pays) < USIZE_MAX \<longrightarrow>
         align_cost r = edit_distance mt (drop mid refs) (drop k pays)" by blast
    have h: "hirschberg mt tk pays refs po ro = Some (l @ r)"
      using split l(1) r(1)
      by (subst hirschberg.simps) (simp only: if_False Let_def option.case mid_def [symmetric] k_def [symmetric])
    have mid: "mid \<le> length refs" by (simp add: mid_def)
    have "align_valid (\<lambda>p r. mt r p) tk (take k pays @ drop k pays) (take mid refs @ drop mid refs) po ro (l @ r)"
      using l(2) r(2) k mid by (intro align_valid_append) (simp_all only: length_take min_absorb2)
    moreover have "align_cost (l @ r) = edit_distance mt refs pays"
      if small: "length refs + length pays < USIZE_MAX"
      using l(3) r(3) k mid small split_optimal [OF small k_def] by (simp add: min_absorb2)
    ultimately show ?thesis using h by simp
  qed
qed

section \<open>The whole aligner\<close>

lemma align_valid_mono:
  "align_valid m tk ps rs po ro out \<Longrightarrow> (\<And>p r. m p r \<Longrightarrow> m' p r) \<Longrightarrow> align_valid m' tk ps rs po ro out"
  by (induction m tk ps rs po ro out rule: align_valid.induct) auto

lemma common_prefix_len_le: "common_prefix_len mt xs ys \<le> length xs \<and> common_prefix_len mt xs ys \<le> length ys"
  unfolding common_prefix_len_def using length_takeWhile_le [of "\<lambda>(p, r). mt p r" "zip xs ys"] by simp

lemma common_prefix_len_matches:
  "list_all2 mt (take (common_prefix_len mt xs ys) xs) (take (common_prefix_len mt xs ys) ys)"
  unfolding common_prefix_len_def by (induction xs ys rule: list_induct2') auto

lemma common_suffix_matches:
  assumes "p \<le> length xs" "p \<le> length ys"
    and s: "s = common_prefix_len mt (rev (drop p xs)) (rev (drop p ys))"
  shows "p + s \<le> length xs" "p + s \<le> length ys"
    "list_all2 mt (drop (length xs - s) xs) (drop (length ys - s) ys)"
proof -
  have le: "s \<le> length xs - p" "s \<le> length ys - p"
    using common_prefix_len_le [of mt "rev (drop p xs)" "rev (drop p ys)"] s by simp_all
  then show "p + s \<le> length xs" "p + s \<le> length ys" using assms(1,2) by simp_all
  have "list_all2 mt (rev (take s (rev (drop p xs)))) (rev (take s (rev (drop p ys))))"
    unfolding list_all2_rev s by (rule common_prefix_len_matches)
  then show "list_all2 mt (drop (length xs - s) xs) (drop (length ys - s) ys)"
    using le assms(1,2) by (simp add: take_rev)
qed

lemma enumerate_prefix_matches:
  assumes "p \<le> length refs"
  shows "map (\<lambda>(i, r). Match (tk r) i i) (take p (enumerate 0 refs)) =
    map (\<lambda>i. Match (tk (take p refs ! i)) (0 + i) (0 + i)) [0..<p]"
  using assms by (intro nth_equalityI) (simp_all add: nth_enumerate_eq)

lemma cut_middle:
  "p + s \<le> length xs \<Longrightarrow>
   take p xs @ drop p (take (length xs - s) xs) @ drop (length xs - s) xs = xs"
  by (metis add_le_imp_le_diff append.assoc append_take_drop_id min_absorb1 take_take)

lemma align_generic_correct:
  shows "\<exists>out. align_generic mt tk pays refs = Some out \<and>
     align_valid (\<lambda>p r. mt p r \<or> mt r p) tk pays refs 0 0 out \<and>
     ((\<forall>a b. mt a b = mt b a) \<and> length pays + length refs < USIZE_MAX \<longrightarrow>
        align_cost out = edit_distance mt pays refs)"
proof -
  let ?m = "\<lambda>p r. mt p r \<or> mt r p"
  define p where "p = common_prefix_len mt pays refs"
  define s where "s = common_prefix_len mt (rev (drop p pays)) (rev (drop p refs))"
  define mp where "mp = drop p (take (length pays - s) pays)"
  define mr where "mr = drop p (take (length refs - s) refs)"
  have p: "p \<le> length pays" "p \<le> length refs" using common_prefix_len_le unfolding p_def by auto
  note suffix = common_suffix_matches [OF p s_def]
  have pm: "list_all2 mt (take p pays) (take p refs)"
    unfolding p_def by (rule common_prefix_len_matches)
  from hirschberg_correct [of mt tk mp mr p p] obtain mid where
    mid: "hirschberg mt tk mp mr p p = Some mid"
    "align_valid (\<lambda>p r. mt r p) tk mp mr p p mid"
    "length mr + length mp < USIZE_MAX \<longrightarrow> align_cost mid = edit_distance mt mr mp" by blast
  define pre where "pre = map (\<lambda>(i, ref_item). Match (tk ref_item) i i) (take p (enumerate 0 refs))"
  define suf where "suf = map (\<lambda>i. Match (tk (refs ! (length refs - s + i)))
    (length pays - s + i) (length refs - s + i)) [0..<s]"
  have res: "align_generic mt tk pays refs = Some (pre @ mid @ suf)"
    unfolding align_generic_def Let_def
    by (simp only: p_def [symmetric] s_def [symmetric] mp_def [symmetric] mr_def [symmetric]
        pre_def [symmetric] suf_def [symmetric] mid(1) option.map)
  have pre_eq: "pre = map (\<lambda>i. Match (tk (take p refs ! i)) (0 + i) (0 + i)) [0..<p]"
    unfolding pre_def by (rule enumerate_prefix_matches) (rule p)
  have suf_eq: "suf = map (\<lambda>i. Match (tk (drop (length refs - s) refs ! i))
      (length pays - s + i) (length refs - s + i)) [0..<s]"
    using suffix(2) by (simp add: suf_def)
  have "align_valid mt tk (take p pays) (take p refs) 0 0 pre"
    unfolding pre_eq using pm p by (intro align_valid_matches) simp_all
  then have v1: "align_valid ?m tk (take p pays) (take p refs) 0 0 pre"
    by (rule align_valid_mono) simp
  have v2: "align_valid ?m tk mp mr p p mid"
    using mid(2) by (rule align_valid_mono) simp
  have "align_valid mt tk (drop (length pays - s) pays) (drop (length refs - s) refs)
      (length pays - s) (length refs - s) suf"
    unfolding suf_eq using suffix by (intro align_valid_matches) simp_all
  then have "align_valid ?m tk (drop (length pays - s) pays) (drop (length refs - s) refs)
      (length pays - s) (length refs - s) suf"
    by (rule align_valid_mono) simp
  moreover have "p + length mp = length pays - s" "p + length mr = length refs - s"
    using suffix by (simp_all add: mp_def mr_def)
  ultimately have v3: "align_valid ?m tk (drop (length pays - s) pays) (drop (length refs - s) refs)
      (p + length mp) (p + length mr) suf"
    by simp
  have "align_valid ?m tk (take p pays @ mp @ drop (length pays - s) pays)
      (take p refs @ mr @ drop (length refs - s) refs) 0 0 (pre @ mid @ suf)"
    using align_valid_append [OF v2 v3] p
    by (intro align_valid_append [OF v1]) (simp only: length_take min_absorb2 add_0)
  then have valid: "align_valid ?m tk pays refs 0 0 (pre @ mid @ suf)"
    using cut_middle [OF suffix(1)] cut_middle [OF suffix(2)] unfolding mp_def mr_def by simp
  have opt: "align_cost (pre @ mid @ suf) = edit_distance mt pays refs"
    if sym: "\<forall>a b. mt a b = mt b a" and small: "length pays + length refs < USIZE_MAX"
  proof -
    have "edit_distance mt pays refs = edit_distance mt (take p pays @ mp @ drop (length pays - s) pays)
        (take p refs @ mr @ drop (length refs - s) refs)"
      using cut_middle [OF suffix(1)] cut_middle [OF suffix(2)] unfolding mp_def mr_def by simp
    also have "\<dots> = edit_distance mt mp mr"
      using pm suffix(3) by (simp only: edit_distance_common_prefix edit_distance_common_suffix)
    also have "\<dots> = edit_distance mt mr mp"
      using edit_distance_swap [of mt mr mp] sym by (simp add: fun_eq_iff)
    also have "\<dots> = align_cost mid"
      using mid(3) small suffix unfolding mp_def mr_def by simp
    finally show ?thesis by (simp add: pre_eq suf_eq)
  qed
  from res valid opt show ?thesis by blast
qed

section \<open>The contract of a symmetric match predicate\<close>

text \<open>
  What the callers of the aligner rely on, for a match predicate that treats both sides alike:
  the result is an alignment of the two inputs, and no alignment of them leaves fewer elements
  unmatched, as long as a cost fits in a \<open>usize\<close>.
\<close>

locale alignable =
  fixes mt :: "'a \<Rightarrow> 'a \<Rightarrow> bool" and to_key :: "'a \<Rightarrow> rstr"
  assumes mt_sym: "mt a b = mt b a"
begin

lemma generic_valid:
  "\<exists>out. align_generic mt to_key pays refs = Some out \<and> align_valid mt to_key pays refs 0 0 out"
  using align_generic_correct [of mt to_key pays refs] mt_sym by auto

lemma generic_optimal:
  assumes "length pays + length refs < USIZE_MAX"
    and other: "align_valid mt to_key pays refs 0 0 other"
  shows "\<exists>out. align_generic mt to_key pays refs = Some out \<and>
    align_valid mt to_key pays refs 0 0 out \<and> align_cost out \<le> align_cost other"
  using align_generic_correct [of mt to_key pays refs] mt_sym assms(1)
    edit_distance_minimal [OF align_valid_aligned [OF other]] by auto

end

interpretation exact_words: alignable "str_matches U jw Exact" str_to_key for U jw
  by unfold_locales (auto simp: str_matches_def)

interpretation ci_words: alignable "str_matches U jw CaseInsensitive" str_to_key for U jw
  by unfold_locales (simp add: str_matches_def eq_ignore_ascii_case_sym)

interpretation chars: alignable "char_matches mode" char_to_key for mode
  by unfold_locales (auto simp: char_matches_def split: match_mode.split)

section \<open>Which elements a result names\<close>

fun payload_indices :: "align_result list \<Rightarrow> nat list" where
  "payload_indices [] = []"
| "payload_indices (Match k i j # out) = i # payload_indices out"
| "payload_indices (ExtraPayload k i # out) = i # payload_indices out"
| "payload_indices (ExtraReference k j # out) = payload_indices out"

fun reference_indices :: "align_result list \<Rightarrow> nat list" where
  "reference_indices [] = []"
| "reference_indices (Match k i j # out) = j # reference_indices out"
| "reference_indices (ExtraPayload k i # out) = reference_indices out"
| "reference_indices (ExtraReference k j # out) = j # reference_indices out"

fun entry_ok :: "('a \<Rightarrow> 'a \<Rightarrow> bool) \<Rightarrow> ('a \<Rightarrow> rstr) \<Rightarrow> 'a list \<Rightarrow> 'a list \<Rightarrow> align_result \<Rightarrow> bool" where
  "entry_ok mt tk ps rs (Match k i j) = (k = tk (rs ! j) \<and> mt (ps ! i) (rs ! j))"
| "entry_ok mt tk ps rs (ExtraPayload k i) = (k = tk (ps ! i))"
| "entry_ok mt tk ps rs (ExtraReference k j) = (k = tk (rs ! j))"

lemma align_valid_indices:
  "align_valid mt tk ps rs po ro out \<Longrightarrow>
   payload_indices out = [po..<po + length ps] \<and> reference_indices out = [ro..<ro + length rs]"
proof (induction mt tk ps rs po ro out rule: align_valid.induct)
  case (2 mt tk ps rs po ro k i j out)
  then show ?case by (cases ps; cases rs) (auto simp: upt_conv_Cons simp del: upt_Suc)
next
  case (3 mt tk ps rs po ro k i out)
  then show ?case by (cases ps) (auto simp: upt_conv_Cons simp del: upt_Suc)
next
  case (4 mt tk ps rs po ro k j out)
  then show ?case by (cases rs) (auto simp: upt_conv_Cons simp del: upt_Suc)
qed auto

lemma align_valid_entries_from:
  "align_valid mt tk ps rs po ro out \<Longrightarrow> ps = drop po P \<Longrightarrow> rs = drop ro R \<Longrightarrow>
   list_all (entry_ok mt tk P R) out"
proof (induction mt tk ps rs po ro out rule: align_valid.induct)
  case (2 mt tk ps rs po ro k i j out)
  from "2.prems" have "tl ps = drop (Suc po) P" "tl rs = drop (Suc ro) R"
    by (simp_all add: drop_Suc tl_drop)
  moreover from "2.prems" have "hd ps = P ! po" "hd rs = R ! ro"
    by (auto simp: hd_drop_conv_nth)
  ultimately show ?case using 2 by simp
next
  case (3 mt tk ps rs po ro k i out)
  from "3.prems" have "tl ps = drop (Suc po) P" by (simp add: drop_Suc tl_drop)
  moreover from "3.prems" have "hd ps = P ! po" by (auto simp: hd_drop_conv_nth)
  ultimately show ?case using 3 by simp
next
  case (4 mt tk ps rs po ro k j out)
  from "4.prems" have "tl rs = drop (Suc ro) R" by (simp add: drop_Suc tl_drop)
  moreover from "4.prems" have "hd rs = R ! ro" by (auto simp: hd_drop_conv_nth)
  ultimately show ?case using 4 by simp
qed auto

lemma align_valid_entries: "align_valid mt tk ps rs 0 0 out \<Longrightarrow> list_all (entry_ok mt tk ps rs) out"
  by (rule align_valid_entries_from [of _ _ _ _ 0 0]) simp_all

text \<open>The full table keeps the aligner contract of the specification for every predicate.\<close>

lemma align_valid_total:
  "align_valid mt tk ps rs po ro out \<Longrightarrow>
   2 * length (filter is_match out) + align_cost out = length ps + length rs"
proof (induction mt tk ps rs po ro out rule: align_valid.induct)
  case (2 mt tk ps rs po ro k i j out)
  then show ?case by (cases ps; cases rs) auto
next
  case (3 mt tk ps rs po ro k i out)
  then show ?case by (cases ps) auto
next
  case (4 mt tk ps rs po ro k j out)
  then show ?case by (cases rs) auto
qed auto

interpretation small: edit_aligner mt "\<lambda>refs pays. the (align_small mt tk pays refs 0 0)"
    "\<lambda>out. length (filter is_match out)" align_cost for mt tk
proof
  fix refs pays :: "'a list"
  from align_small_correct [of mt tk pays refs 0 0] obtain out where
    out: "align_small mt tk pays refs 0 0 = Some out" "align_valid (\<lambda>p r. mt r p) tk pays refs 0 0 out"
    "align_cost out = edit_distance mt refs pays" by blast
  then show "align_cost (the (align_small mt tk pays refs 0 0)) = edit_distance mt refs pays" by simp
  show "2 * length (filter is_match (the (align_small mt tk pays refs 0 0))) +
      align_cost (the (align_small mt tk pays refs 0 0)) = length refs + length pays"
    using out align_valid_total by fastforce
qed

section \<open>Properties\<close>

text \<open>C2: In every mode \<open>align\<close> returns, and its result names every payload index and every
  reference index exactly once and in order; every entry carries the key of the element it names
  and a match pairs two elements that the mode considers equal (in one order or the other).\<close>

theorem align_partitions:
  "\<exists>out. align U jw payload reference mode = Some out \<and>
     payload_indices out = [0..<length payload] \<and> reference_indices out = [0..<length reference] \<and>
     list_all (entry_ok (\<lambda>p r. str_matches U jw mode p r \<or> str_matches U jw mode r p)
                 str_to_key payload reference) out"
  using align_generic_correct [of "str_matches U jw mode" str_to_key payload reference]
    align_valid_indices align_valid_entries unfolding align_def by fastforce

text \<open>C1: In the modes \<open>Exact\<close> and \<open>CaseInsensitive\<close> the alignment is optimal: any alignment
  of the two word lists leaves at least as many words unmatched as the one returned.\<close>

theorem align_optimal:
  assumes "mode = Exact \<or> mode = CaseInsensitive"
    and "length payload + length reference < USIZE_MAX"
    and "align_valid (str_matches U jw mode) str_to_key payload reference 0 0 other"
  shows "\<exists>out. align U jw payload reference mode = Some out \<and>
    align_valid (str_matches U jw mode) str_to_key payload reference 0 0 out \<and>
    align_cost out \<le> align_cost other"
  using assms exact_words.generic_optimal ci_words.generic_optimal unfolding align_def by blast

lemma align_optimal_witness:
  "\<exists>out. align ascii_tables (\<lambda>_ _. 0) [str ''a'', str ''b''] [str ''B''] CaseInsensitive = Some out \<and>
    align_cost out \<le> 1"
  using align_optimal [of CaseInsensitive "[str ''a'', str ''b'']" "[str ''B'']" ascii_tables "\<lambda>_ _. 0"
      "[ExtraPayload (str ''a'') 0, Match (str ''B'') 1 0]"]
  by (auto simp: USIZE_MAX_def str_matches_def str_to_key_def rust_eval)

text \<open>Character alignment is optimal as well.\<close>

lemma align_chars_optimal:
  assumes "length payload + length reference < USIZE_MAX"
    and "align_valid (char_matches mode) char_to_key payload reference 0 0 other"
  shows "\<exists>out. align_chars payload reference mode = Some out \<and>
    align_valid (char_matches mode) char_to_key payload reference 0 0 out \<and>
    align_cost out \<le> align_cost other"
  using assms chars.generic_optimal unfolding align_chars_def by blast

lemma align_chars_optimal_witness:
  "\<exists>out. align_chars (str ''ab'') (str ''b'') Exact = Some out \<and> align_cost out \<le> 1"
  using align_chars_optimal [of "str ''ab''" "str ''b''" Exact
      "[ExtraPayload (str ''a'') 0, Match (str ''b'') 1 0]"]
  by (auto simp: USIZE_MAX_def char_matches_def char_to_key_def rust_eval)

text \<open>C3: Hirschberg's divide and conquer leaves exactly as many elements unmatched as the
  full table it replaces, for any match predicate.\<close>

theorem hirschberg_small_equiv:
  assumes "length pays + length refs < USIZE_MAX"
  shows "map_option align_cost (hirschberg mt to_key pays refs po ro) =
    map_option align_cost (align_small mt to_key pays refs po ro)"
  using hirschberg_correct [of mt to_key pays refs po ro] align_small_correct [of mt to_key pays refs po ro] assms
  by auto

lemma hirschberg_small_equiv_witness:
  "map_option align_cost (hirschberg (=) char_to_key (str ''abc'') (str ''bc'') 0 0) =
   map_option align_cost (align_small (=) char_to_key (str ''abc'') (str ''bc'') 0 0)"
  using hirschberg_small_equiv [of "str ''abc''" "str ''bc''" "(=)" char_to_key 0 0]
  by (simp add: USIZE_MAX_def str_def)

end
