(* ===== verification/Timing.thy ===== *)
theory Timing
  imports Complex_Main Tasks
begin

text \<open>
  What the timing stages share: the wire types of \<^verbatim>\<open>batchalign-core/src/proto/asr.rs\<close>, the part of an
  utterance that forced alignment and utterance timing recovery read and write (its media bullet, its
  dependent tiers, and the words that count for the \<open>%wor\<close> tier, in the order \<open>walk_words\<close> visits them;
  the document crate is not code of this repository, so the counted words are given), and
  \<^verbatim>\<open>taskrunners/utr/extraction.rs\<close>. Millisecond values are the \<open>u64\<close> of the code, far below its range.
\<close>

section \<open>Wire types\<close>

datatype language_spec = LangAuto | LangCode rstr | LangPerFile

record timed_word =
  tw_text :: rstr
  tw_start :: nat
  tw_end :: nat
  tw_confidence :: "rat option"

record segment =
  sg_start :: nat
  sg_end :: nat
  sg_text :: rstr
  sg_speaker :: "rstr option"
  sg_words :: "timed_word list"

section \<open>Utterances\<close>

datatype bullet_source = UtrSource | Authoritative | OtherSource

record bullet =
  bl_start :: nat
  bl_end :: nat
  bl_source :: bullet_source

record fa_word =
  sw_text :: rstr
  sw_filler :: bool

record wor_word =
  ww_text :: rstr
  ww_bullet :: "bullet option"

datatype dep_tier =
    WorTier "wor_word list" "rstr option"
  | UserTier rstr rstr
  | OtherTier rstr

record utt =
  ut_speaker :: rstr
  ut_words :: "fa_word list"
  ut_bullet :: "bullet option"
  ut_tiers :: "dep_tier list"
  ut_terminator :: "rstr option"

fun is_wor :: "dep_tier \<Rightarrow> bool" where
  "is_wor (WorTier ws t) = True"
| "is_wor (UserTier l c) = False"
| "is_wor (OtherTier x) = False"

text \<open>\<open>utterance.wor_tier()\<close>: the first one.\<close>

fun wor_tier :: "dep_tier list \<Rightarrow> wor_word list option" where
  "wor_tier [] = None"
| "wor_tier (WorTier ws t # ts) = Some ws"
| "wor_tier (UserTier l c # ts) = wor_tier ts"
| "wor_tier (OtherTier x # ts) = wor_tier ts"

text \<open>
  \<open>Line::Utterance(u)\<close> in a mutable loop: the utterances are changed in place, the headers stay.
\<close>

fun map_utts :: "('u \<Rightarrow> 'u) \<Rightarrow> 'u line list \<Rightarrow> 'u line list" where
  "map_utts f [] = []"
| "map_utts f (HeaderLine h # ls) = HeaderLine h # map_utts f ls"
| "map_utts f (UtteranceLine u # ls) = UtteranceLine (f u) # map_utts f ls"

lemma utterances_map_utts [simp]: "utterances (map_utts f ls) = map f (utterances ls)"
  by (induction f ls rule: map_utts.induct) auto

lemma length_map_utts [simp]: "length (map_utts f ls) = length ls"
  by (induction f ls rule: map_utts.induct) auto

text \<open>The headers of a document and the positions of its utterances.\<close>

fun frame :: "'u line list \<Rightarrow> header option list" where
  "frame [] = []"
| "frame (HeaderLine h # ls) = Some h # frame ls"
| "frame (UtteranceLine u # ls) = None # frame ls"

lemma frame_map_utts [simp]: "frame (map_utts f ls) = frame ls"
  by (induction f ls rule: map_utts.induct) auto

lemma lines_eq_iff: "ls = ls' \<longleftrightarrow> frame ls = frame ls' \<and> utterances ls = utterances ls'"
proof (induction ls arbitrary: ls')
  case Nil
  then show ?case by (cases ls' rule: frame.cases) auto
next
  case (Cons l ls)
  then show ?case by (cases l; cases ls' rule: frame.cases) auto
qed

section \<open>Extraction\<close>

definition split_compound_filler :: "fa_word \<Rightarrow> rstr list" where
  "split_compound_filler w =
     (if sw_filler w \<and> mem 95 (sw_text w)
      then filter (\<lambda>s. s \<noteq> []) (split_char 95 (sw_text w))
      else [sw_text w])"

definition collect_fa_words :: "fa_word list \<Rightarrow> rstr list" where
  "collect_fa_words content = concat (map split_compound_filler content)"

definition resolve_per_file_language :: "rstr option \<Rightarrow> language_spec" where
  "resolve_per_file_language primary_language =
     (case primary_language of Some code \<Rightarrow> LangCode code | None \<Rightarrow> LangPerFile)"

section \<open>Media beside the transcript\<close>

definition SIBLING_MEDIA_EXTS :: "rstr list" where
  "SIBLING_MEDIA_EXTS = map str [''wav'', ''mp3'', ''mp4'', ''m4a'', ''flac'', ''ogg'', ''aac'', ''wma'',
     ''mov'', ''m4v'', ''avi'', ''mpg'', ''mpeg'']"

text \<open>
  \<open>media_stem\<close> is the parent directory joined with the basename of \<open>@Media\<close>, when there are both;
  \<open>own_stem\<close> the path of the transcript without its extension; \<open>is_file\<close> asks the file system.
\<close>

definition media_candidates :: "rstr option \<Rightarrow> rstr \<Rightarrow> rstr list" where
  "media_candidates media_stem own_stem =
     concat (map (\<lambda>stem. concat (map (\<lambda>ext. [stem @ str ''.'' @ ext, stem @ str ''.'' @ map to_ascii_upper_char ext])
       SIBLING_MEDIA_EXTS)) ((case media_stem of None \<Rightarrow> [] | Some m \<Rightarrow> [m]) @ [own_stem]))"

definition sibling_media :: "(rstr \<Rightarrow> bool) \<Rightarrow> rstr \<Rightarrow> rstr option \<Rightarrow> rstr \<Rightarrow> media_input option" where
  "sibling_media is_file source_id media_stem own_stem =
     map_option (\<lambda>p. \<lparr>mi_source_id = source_id, mi_path = p, mi_language = None\<rparr>)
       (find is_file (media_candidates media_stem own_stem))"

end
