(* ===== verification/Decisions.thy ===== *)
theory Decisions
  imports Timing
begin

text \<open>
  \<^verbatim>\<open>batchalign-core/src/decisions.rs\<close>: the decisions that pipeline stages record, their labels, and
  the injection of the review tiers \<open>%xalign\<close> and \<open>%xrev\<close>. Tracing output is not modelled.
\<close>

section \<open>Decisions\<close>

datatype decision_module = FaModule | UtrModule | MonotonicityModule | MorphosyntaxModule | CorefModule | UtsegModule

definition module_as_str :: "decision_module \<Rightarrow> rstr" where
  "module_as_str m = (case m of
      FaModule \<Rightarrow> str ''fa'' | UtrModule \<Rightarrow> str ''utr'' | MonotonicityModule \<Rightarrow> str ''monotonicity''
    | MorphosyntaxModule \<Rightarrow> str ''morphosyntax'' | CorefModule \<Rightarrow> str ''coref'' | UtsegModule \<Rightarrow> str ''utseg'')"

datatype fa_strategy =
    GapFilled | BoundaryAveraged | LisRemoval | FaTimingStripped | WordsTimingDropped | NarrowBulletRescued

definition fa_strategy_as_str :: "fa_strategy \<Rightarrow> rstr" where
  "fa_strategy_as_str s = (case s of
      GapFilled \<Rightarrow> str ''gap_filled'' | BoundaryAveraged \<Rightarrow> str ''boundary_averaged''
    | LisRemoval \<Rightarrow> str ''lis_removal'' | FaTimingStripped \<Rightarrow> str ''timing_stripped''
    | WordsTimingDropped \<Rightarrow> str ''words_timing_dropped'' | NarrowBulletRescued \<Rightarrow> str ''narrow_bullet_rescued'')"

datatype utr_strategy = ZeroDurationSkipped | Unmatched

definition utr_strategy_as_str :: "utr_strategy \<Rightarrow> rstr" where
  "utr_strategy_as_str s = (case s of
      ZeroDurationSkipped \<Rightarrow> str ''zero_duration_skipped'' | Unmatched \<Rightarrow> str ''unmatched'')"

datatype monotonicity_strategy = EndClamped | TimingStripped

definition monotonicity_strategy_as_str :: "monotonicity_strategy \<Rightarrow> rstr" where
  "monotonicity_strategy_as_str s = (case s of
      EndClamped \<Rightarrow> str ''end_clamped'' | TimingStripped \<Rightarrow> str ''timing_stripped'')"

datatype morphosyntax_strategy =
    MorNotApplicable | MorMisalignmentBug | MappingFailed | RetokenizationFailed | MorInjectionFailed | NlpNoSentences

definition morphosyntax_strategy_as_str :: "morphosyntax_strategy \<Rightarrow> rstr" where
  "morphosyntax_strategy_as_str s = (case s of
      MorNotApplicable \<Rightarrow> str ''not_applicable'' | MorMisalignmentBug \<Rightarrow> str ''misalignment_bug''
    | MappingFailed \<Rightarrow> str ''mapping_failed'' | RetokenizationFailed \<Rightarrow> str ''retokenization_failed''
    | MorInjectionFailed \<Rightarrow> str ''injection_failed'' | NlpNoSentences \<Rightarrow> str ''nlp_no_sentences'')"

datatype utseg_strategy = UtsegNotApplicable | UtsegMisalignmentBug

definition utseg_strategy_as_str :: "utseg_strategy \<Rightarrow> rstr" where
  "utseg_strategy_as_str s = (case s of
      UtsegNotApplicable \<Rightarrow> str ''not_applicable'' | UtsegMisalignmentBug \<Rightarrow> str ''misalignment_bug'')"

datatype coref_strategy = SentenceIndexOutOfBounds | CorefInjectionFailed

definition coref_strategy_as_str :: "coref_strategy \<Rightarrow> rstr" where
  "coref_strategy_as_str s = (case s of
      SentenceIndexOutOfBounds \<Rightarrow> str ''sentence_index_out_of_bounds''
    | CorefInjectionFailed \<Rightarrow> str ''injection_failed'')"

datatype decision_strategy =
    FaDecision fa_strategy
  | UtrDecision utr_strategy
  | MonotonicityDecision monotonicity_strategy
  | MorphosyntaxDecision morphosyntax_strategy
  | CorefDecision coref_strategy
  | UtsegDecision utseg_strategy

fun strategy_module :: "decision_strategy \<Rightarrow> decision_module" where
  "strategy_module (FaDecision s) = FaModule"
| "strategy_module (UtrDecision s) = UtrModule"
| "strategy_module (MonotonicityDecision s) = MonotonicityModule"
| "strategy_module (MorphosyntaxDecision s) = MorphosyntaxModule"
| "strategy_module (CorefDecision s) = CorefModule"
| "strategy_module (UtsegDecision s) = UtsegModule"

fun strategy_name :: "decision_strategy \<Rightarrow> rstr" where
  "strategy_name (FaDecision s) = fa_strategy_as_str s"
| "strategy_name (UtrDecision s) = utr_strategy_as_str s"
| "strategy_name (MonotonicityDecision s) = monotonicity_strategy_as_str s"
| "strategy_name (MorphosyntaxDecision s) = morphosyntax_strategy_as_str s"
| "strategy_name (CorefDecision s) = coref_strategy_as_str s"
| "strategy_name (UtsegDecision s) = utseg_strategy_as_str s"

record decision_record =
  dr_line_idx :: nat
  dr_speaker :: rstr
  dr_strategy :: decision_strategy
  dr_reason :: rstr
  dr_needs_review :: bool

definition xalign_content :: "decision_record \<Rightarrow> rstr" where
  "xalign_content d =
     module_as_str (strategy_module (dr_strategy d)) @ str '':'' @ strategy_name (dr_strategy d) @ str '' '' @ dr_reason d"

text \<open>The label pair identifies the strategy, so the text of a tier can be read back.\<close>

lemma strategy_labels_inj:
  "module_as_str (strategy_module a) = module_as_str (strategy_module b) \<and> strategy_name a = strategy_name b \<longleftrightarrow> a = b"
proof (cases a)
  case (FaDecision x)
  then show ?thesis by (cases b; cases x)
    (auto simp: module_as_str_def fa_strategy_as_str_def str_def split: fa_strategy.splits)
next
  case (UtrDecision x)
  then show ?thesis by (cases b; cases x)
    (auto simp: module_as_str_def utr_strategy_as_str_def str_def split: utr_strategy.splits)
next
  case (MonotonicityDecision x)
  then show ?thesis by (cases b; cases x)
    (auto simp: module_as_str_def monotonicity_strategy_as_str_def str_def split: monotonicity_strategy.splits)
next
  case (MorphosyntaxDecision x)
  then show ?thesis by (cases b; cases x)
    (auto simp: module_as_str_def morphosyntax_strategy_as_str_def str_def split: morphosyntax_strategy.splits)
next
  case (CorefDecision x)
  then show ?thesis by (cases b; cases x)
    (auto simp: module_as_str_def coref_strategy_as_str_def str_def split: coref_strategy.splits)
next
  case (UtsegDecision x)
  then show ?thesis by (cases b; cases x)
    (auto simp: module_as_str_def utseg_strategy_as_str_def str_def split: utseg_strategy.splits)
qed

section \<open>Review tiers\<close>

datatype review_level = ReviewNone | LowConfidence | ReviewAll

fun is_decision_tier :: "dep_tier \<Rightarrow> bool" where
  "is_decision_tier (UserTier label c) = (label = str ''xalign'' \<or> label = str ''xrev'')"
| "is_decision_tier (WorTier ws t) = False"
| "is_decision_tier (OtherTier x) = False"

definition strip_decision_tiers :: "'a utt_scheme line list \<Rightarrow> 'a utt_scheme line list" where
  "strip_decision_tiers lines =
     map_utts (\<lambda>u. u\<lparr>ut_tiers := filter (\<lambda>t. \<not> is_decision_tier t) (ut_tiers u)\<rparr>) lines"

text \<open>The entry of the decision map for a line: the decisions with that index, in order.\<close>

definition decisions_at :: "decision_record list \<Rightarrow> nat \<Rightarrow> decision_record list" where
  "decisions_at decisions line_idx = filter (\<lambda>d. dr_line_idx d = line_idx) decisions"

definition decision_tiers :: "review_level \<Rightarrow> decision_record list \<Rightarrow> bool \<Rightarrow> dep_tier list" where
  "decision_tiers review_level decisions_for_utt has_bullet =
     (if decisions_for_utt \<noteq> [] then
        UserTier (str ''xalign'') (join (str ''; '') (map xalign_content decisions_for_utt)) #
        (if list_ex dr_needs_review decisions_for_utt then [UserTier (str ''xrev'') (str ''[?]'')] else [])
      else if review_level = ReviewAll \<and> has_bullet then [UserTier (str ''xalign'') (str ''no_decisions'')]
      else [])"

fun add_decision_tiers :: "review_level \<Rightarrow> decision_record list \<Rightarrow> nat \<Rightarrow> 'a utt_scheme line list \<Rightarrow> 'a utt_scheme line list" where
  "add_decision_tiers review_level decisions i [] = []"
| "add_decision_tiers review_level decisions i (HeaderLine h # ls) =
     HeaderLine h # add_decision_tiers review_level decisions (Suc i) ls"
| "add_decision_tiers review_level decisions i (UtteranceLine u # ls) =
     UtteranceLine (u\<lparr>ut_tiers := ut_tiers u @
       decision_tiers review_level (decisions_at decisions i) (ut_bullet u \<noteq> None)\<rparr>)
     # add_decision_tiers review_level decisions (Suc i) ls"

definition inject_decision_tiers ::
    "'a utt_scheme line list \<Rightarrow> decision_record list \<Rightarrow> review_level \<Rightarrow> 'a utt_scheme line list" where
  "inject_decision_tiers lines decisions review_level =
     (if review_level = ReviewNone \<or> decisions = [] then lines
      else add_decision_tiers review_level decisions 0 (strip_decision_tiers lines))"

section \<open>Rerunning a stage\<close>

lemma decision_tiers_are: "list_all is_decision_tier (decision_tiers level ds b)"
  by (simp add: decision_tiers_def)

lemma strip_add: "strip_decision_tiers (add_decision_tiers level ds i (strip_decision_tiers ls)) = strip_decision_tiers ls"
proof (induction ls arbitrary: i rule: utterances.induct)
  case (2 u ls)
  have "filter (\<lambda>t. \<not> is_decision_tier t) (decision_tiers level es b) = []" for es b
    using decision_tiers_are [of level es b] by (auto simp: list_all_iff filter_empty_conv)
  with 2 show ?case by (simp add: strip_decision_tiers_def)
qed (simp_all add: strip_decision_tiers_def)

fun is_xalign :: "dep_tier \<Rightarrow> bool" where
  "is_xalign (UserTier label c) = (label = str ''xalign'')"
| "is_xalign (WorTier ws t) = False"
| "is_xalign (OtherTier x) = False"

definition xalign_count :: "'a utt_scheme \<Rightarrow> nat" where
  "xalign_count u = length (filter is_xalign (ut_tiers u))"

lemma xalign_count_stripped:
  "xalign_count (u\<lparr>ut_tiers := filter (\<lambda>t. \<not> is_decision_tier t) ts @ decision_tiers level ds b\<rparr>) \<le> 1"
proof -
  have "is_xalign t \<Longrightarrow> is_decision_tier t" for t by (cases t) auto
  then have "filter is_xalign (filter (\<lambda>t. \<not> is_decision_tier t) ts) = []"
    by (auto simp: filter_empty_conv)
  moreover have "length (filter is_xalign (decision_tiers level ds b)) \<le> 1"
    by (simp add: decision_tiers_def str_def)
  ultimately show ?thesis by (simp add: xalign_count_def del: filter_filter)
qed

text \<open>Injecting review tiers again replaces them: rerunning a stage with the same decisions leaves
  the document as the first run did, and no utterance ever has two \<open>%xalign\<close> tiers, the duplicate that
  the format forbids, once tiers have been injected.\<close>

lemma inject_decision_tiers_replaces:
  "inject_decision_tiers (inject_decision_tiers lines decisions level) decisions level =
     inject_decision_tiers lines decisions level \<and>
   (level = ReviewNone \<or> decisions = [] \<or>
     list_all (\<lambda>u. xalign_count u \<le> 1) (utterances (inject_decision_tiers lines decisions level)))"
proof -
  have "list_all (\<lambda>u. xalign_count u \<le> 1) (utterances (add_decision_tiers level decisions i (strip_decision_tiers lines)))" for i
  proof (induction lines arbitrary: i rule: utterances.induct)
    case (2 u ls)
    then show ?case
      using xalign_count_stripped [where u = u and ts = "ut_tiers u" and level = level and ds = "decisions_at decisions i" and b = "ut_bullet u \<noteq> None"]
      by (simp add: strip_decision_tiers_def)
  qed (simp_all add: strip_decision_tiers_def)
  then show ?thesis by (simp add: inject_decision_tiers_def strip_add)
qed

text \<open>
  At the level for low confidence a decision that needs no review is written to \<open>%xalign\<close> all the same.
\<close>

lemma low_confidence_writes_all:
  "\<not> dr_needs_review d \<Longrightarrow> decision_tiers LowConfidence [d] b = [UserTier (str ''xalign'') (xalign_content d)]"
  by (simp add: decision_tiers_def)

end
