(* ===== verification/UtrStrategy.thy ===== *)
theory UtrStrategy
  imports Alignment Decisions
begin

text \<open>
  \<^verbatim>\<open>taskrunners/utr/\<close>: utterance timing recovery. The words of the untimed utterances are aligned with
  the timed tokens of a speech recognizer, each utterance gets the span of its tokens, and a pass over
  the spans keeps them in sequence. The overlap markers of an utterance are read by the document crate
  and are given here.
\<close>

section \<open>Data\<close>

datatype region_kind = TopRegion | BottomRegion

record overlap_region =
  or_kind :: region_kind
  or_has_begin :: bool
  or_index :: "nat option"
  or_begin_at_word :: "nat option"

record overlap_info =
  oi_regions :: "overlap_region list"
  oi_total_words :: nat
  oi_has_bottom_overlap :: bool
  oi_top_onset_fraction :: "rat option"

datatype linker_kind = LazyOverlapPrecedes | OtherLinker rstr

record utr_utt = utt +
  uu_linkers :: "linker_kind list"
  uu_overlap :: overlap_info

record asr_token =
  at_text :: rstr
  at_start :: nat
  at_end :: nat

record utr_result =
  ur_injected :: nat
  ur_skipped :: nat
  ur_unmatched :: nat
  ur_decisions :: "decision_record list"

record utt_info =
  ui_words :: "rstr list"
  ui_has_bullet :: bool
  ui_has_lazy_overlap :: bool
  ui_has_ca_overlap :: bool
  ui_overlap_onset_fraction :: "rat option"
  ui_speaker :: rstr
  ui_bottom_indices :: "nat option list"
  ui_top_onsets :: "(nat option \<times> rat) list"

type_synonym token_range = "(nat \<times> nat) option"

datatype utr_alignment_strategy = UniqueExactSubsequence | GlobalDp

section \<open>Tokens\<close>

definition ZERO_DURATION_TOLERANCE_MS :: nat where "ZERO_DURATION_TOLERANCE_MS = 20"

definition asr_output_to_utr_tokens :: "segment list \<Rightarrow> asr_token list" where
  "asr_output_to_utr_tokens segments =
     concat (map (\<lambda>seg. concat (map (\<lambda>w.
       if tw_end w \<le> tw_start w \<or> tw_end w - tw_start w < ZERO_DURATION_TOLERANCE_MS then []
       else [\<lparr>at_text = tw_text w, at_start = tw_start w, at_end = tw_end w\<rparr>]) (sg_words seg))) segments)"

section \<open>What is known of an utterance\<close>

definition top_onsets :: "overlap_info \<Rightarrow> (nat option \<times> rat) list" where
  "top_onsets info =
     List.map_filter (\<lambda>r. case or_begin_at_word r of
         None \<Rightarrow> None
       | Some word_pos \<Rightarrow> if oi_total_words info = 0 then None
           else Some (or_index r, of_nat word_pos / of_nat (oi_total_words info)))
       (filter (\<lambda>r. or_kind r = TopRegion \<and> or_has_begin r) (oi_regions info))"

definition utr_utterance_info :: "'a utr_utt_scheme \<Rightarrow> utt_info" where
  "utr_utterance_info u =
     \<lparr>ui_words = collect_fa_words (ut_words u),
      ui_has_bullet = (ut_bullet u \<noteq> None),
      ui_has_lazy_overlap = list_ex (\<lambda>l. l = LazyOverlapPrecedes) (uu_linkers u),
      ui_has_ca_overlap = oi_has_bottom_overlap (uu_overlap u),
      ui_overlap_onset_fraction = oi_top_onset_fraction (uu_overlap u),
      ui_speaker = ut_speaker u,
      ui_bottom_indices = map or_index
        (filter (\<lambda>r. or_kind r = BottomRegion \<and> or_has_begin r) (oi_regions (uu_overlap u))),
      ui_top_onsets = top_onsets (uu_overlap u)\<rparr>"

definition collect_utr_utterance_info :: "'a utr_utt_scheme line list \<Rightarrow> utt_info list" where
  "collect_utr_utterance_info lines = map utr_utterance_info (utterances lines)"

section \<open>The unique embedding\<close>

text \<open>The forward search from an index, and the greedy matches it makes.\<close>

function forward_find :: "rstr \<Rightarrow> rstr list \<Rightarrow> nat \<Rightarrow> nat option" where
  "forward_find w reference i =
     (if i < length reference then
        (if eq_ignore_ascii_case w (reference ! i) then Some i else forward_find w reference (i + 1))
      else None)"
  by pat_completeness auto

termination forward_find
  by (relation "measure (\<lambda>(w, reference, i). length reference - i)") auto

declare forward_find.simps [simp del]

fun greedy_forward_from :: "rstr list \<Rightarrow> rstr list \<Rightarrow> nat \<Rightarrow> nat list option" where
  "greedy_forward_from [] reference ref_idx = Some []"
| "greedy_forward_from (p # ps) reference ref_idx =
     (case forward_find p reference ref_idx of
        None \<Rightarrow> None
      | Some j \<Rightarrow> map_option (Cons j) (greedy_forward_from ps reference (j + 1)))"

definition greedy_forward_match_indices :: "rstr list \<Rightarrow> rstr list \<Rightarrow> nat list option" where
  "greedy_forward_match_indices payload reference = greedy_forward_from payload reference 0"

text \<open>The search down from an index; \<open>matches\<close> is filled from its last entry to its first.\<close>

fun reverse_find :: "rstr \<Rightarrow> rstr list \<Rightarrow> nat \<Rightarrow> nat option" where
  "reverse_find w reference 0 = None"
| "reverse_find w reference (Suc i) =
     (if eq_ignore_ascii_case w (reference ! i) then Some i else reverse_find w reference i)"

fun greedy_reverse_from :: "rstr list \<Rightarrow> rstr list \<Rightarrow> nat \<Rightarrow> nat list \<Rightarrow> nat list option" where
  "greedy_reverse_from [] reference ref_idx matches = Some matches"
| "greedy_reverse_from (p # ps) reference ref_idx matches =
     (case reverse_find p reference ref_idx of
        None \<Rightarrow> None
      | Some j \<Rightarrow> greedy_reverse_from ps reference j (j # matches))"

definition greedy_reverse_match_indices :: "rstr list \<Rightarrow> rstr list \<Rightarrow> nat list option" where
  "greedy_reverse_match_indices payload reference =
     greedy_reverse_from (rev payload) reference (length reference) []"

section \<open>Ranges of tokens\<close>

definition update_utt_range :: "token_range \<Rightarrow> nat \<Rightarrow> token_range" where
  "update_utt_range utt_range ref_idx =
     (case utt_range of
        Some (min_idx, max_idx) \<Rightarrow>
          Some (if ref_idx < min_idx then ref_idx else min_idx,
                if ref_idx > max_idx then ref_idx else max_idx)
      | None \<Rightarrow> Some (ref_idx, ref_idx))"

definition record_match :: "nat list \<Rightarrow> nat \<times> nat \<Rightarrow> token_range list \<Rightarrow> token_range list" where
  "record_match word_to_utt m utt_ranges = (case m of (pay_idx, ref_idx) \<Rightarrow>
     let utt_idx = word_to_utt ! pay_idx
     in utt_ranges[utt_idx := update_utt_range (utt_ranges ! utt_idx) ref_idx])"

definition collect_utt_ranges_from_match_indices :: "nat list \<Rightarrow> nat list \<Rightarrow> nat \<Rightarrow> token_range list" where
  "collect_utt_ranges_from_match_indices matched word_to_utt utt_count =
     fold (record_match word_to_utt) (enumerate 0 matched) (replicate utt_count None)"

fun matched_pairs :: "align_result list \<Rightarrow> (nat \<times> nat) list" where
  "matched_pairs [] = []"
| "matched_pairs (Match k p r # as) = (p, r) # matched_pairs as"
| "matched_pairs (ExtraPayload k p # as) = matched_pairs as"
| "matched_pairs (ExtraReference k r # as) = matched_pairs as"

definition collect_utt_ranges_from_alignment :: "align_result list \<Rightarrow> nat list \<Rightarrow> nat \<Rightarrow> token_range list" where
  "collect_utt_ranges_from_alignment alignment word_to_utt utt_count =
     fold (record_match word_to_utt) (matched_pairs alignment) (replicate utt_count None)"

definition try_unique_exact_subsequence_ranges ::
    "rstr list \<Rightarrow> rstr list \<Rightarrow> nat list \<Rightarrow> nat \<Rightarrow> token_range list option" where
  "try_unique_exact_subsequence_ranges all_words asr_texts word_to_utt utt_count =
     (case greedy_forward_match_indices all_words asr_texts of
        None \<Rightarrow> None
      | Some earliest \<Rightarrow>
          (case greedy_reverse_match_indices all_words asr_texts of
             None \<Rightarrow> None
           | Some latest \<Rightarrow>
               if earliest \<noteq> latest then None
               else Some (collect_utt_ranges_from_match_indices earliest word_to_utt utt_count)))"

text \<open>
  The plan; \<open>U\<close> and \<open>jw\<close> are the parameters of the alignment. \<open>align\<close> always returns, so \<open>None\<close> does
  not occur.
\<close>

definition plan_utr_alignment ::
    "unicode \<Rightarrow> (rstr \<Rightarrow> rstr \<Rightarrow> rat) \<Rightarrow> rstr list \<Rightarrow> rstr list \<Rightarrow> nat list \<Rightarrow> nat \<Rightarrow> match_mode \<Rightarrow>
     (utr_alignment_strategy \<times> token_range list) option" where
  "plan_utr_alignment U jw all_words asr_texts word_to_utt utt_count mode =
     (case (if mode = Exact \<or> mode = CaseInsensitive
            then try_unique_exact_subsequence_ranges all_words asr_texts word_to_utt utt_count else None) of
        Some utt_ranges \<Rightarrow> Some (UniqueExactSubsequence, utt_ranges)
      | None \<Rightarrow> map_option (\<lambda>al. (GlobalDp, collect_utt_ranges_from_alignment al word_to_utt utt_count))
          (align U jw all_words asr_texts mode))"

section \<open>The global strategy\<close>

definition flatten_words :: "bool \<Rightarrow> utt_info list \<Rightarrow> (rstr \<times> nat) list" where
  "flatten_words skip_lazy_overlap infos =
     concat (map (\<lambda>(utt_idx, info).
       if skip_lazy_overlap \<and> (ui_has_lazy_overlap info \<or> ui_has_ca_overlap info) then []
       else map (\<lambda>w. (w, utt_idx)) (ui_words info)) (enumerate 0 infos))"

fun utt_line_indices :: "nat \<Rightarrow> 'u line list \<Rightarrow> nat list" where
  "utt_line_indices i [] = []"
| "utt_line_indices i (HeaderLine h # ls) = utt_line_indices (Suc i) ls"
| "utt_line_indices i (UtteranceLine u # ls) = i # utt_line_indices (Suc i) ls"

definition utr_decision :: "nat \<Rightarrow> utt_info \<Rightarrow> utr_strategy \<Rightarrow> rstr \<Rightarrow> bool \<Rightarrow> decision_record" where
  "utr_decision line_idx info strategy reason needs_review =
     \<lparr>dr_line_idx = line_idx, dr_speaker = ui_speaker info, dr_strategy = UtrDecision strategy,
      dr_reason = reason, dr_needs_review = needs_review\<rparr>"

text \<open>One utterance of the assignment loop: the bullet to set and the updated result.\<close>

definition assign_bullet :: "asr_token list \<Rightarrow> nat \<times> utt_info \<times> token_range \<Rightarrow> utr_result \<Rightarrow>
    (nat \<times> nat) option \<times> utr_result" where
  "assign_bullet tokens item result = (case item of (line_idx, info, tok_range) \<Rightarrow>
     if ui_has_bullet info then (None, result\<lparr>ur_skipped := ur_skipped result + 1\<rparr>)
     else (case tok_range of
        Some (min_asr, max_asr) \<Rightarrow>
          (let start_ms = at_start (tokens ! min_asr); end_ms = at_end (tokens ! max_asr)
           in if start_ms < end_ms
              then (Some (start_ms, end_ms), result\<lparr>ur_injected := ur_injected result + 1\<rparr>)
              else (None, result\<lparr>ur_unmatched := ur_unmatched result + 1,
                ur_decisions := ur_decisions result @ [utr_decision line_idx info ZeroDurationSkipped
                  (str ''words='' @ nat_to_string (length (ui_words info)) @
                   str '' asr_range=['' @ nat_to_string min_asr @ str '','' @ nat_to_string max_asr @
                   str ''] start_ms='' @ nat_to_string start_ms @ str '' end_ms='' @ nat_to_string end_ms @
                   str '' reason=zero_or_negative_duration'') False]\<rparr>))
      | None \<Rightarrow> (None, result\<lparr>ur_unmatched := ur_unmatched result + 1,
           ur_decisions := ur_decisions result @ [utr_decision line_idx info Unmatched
             (str ''words='' @ nat_to_string (length (ui_words info)) @ str '' no_asr_match'') True]\<rparr>)))"

fun assign_bullets :: "asr_token list \<Rightarrow> (nat \<times> utt_info \<times> token_range) list \<Rightarrow> utr_result \<Rightarrow>
    (nat \<times> nat) option list \<times> utr_result" where
  "assign_bullets tokens [] result = ([], result)"
| "assign_bullets tokens (item # items) result =
     (case assign_bullet tokens item result of (b, result1) \<Rightarrow>
       (case assign_bullets tokens items result1 of (bs, result2) \<Rightarrow> (b # bs, result2)))"

text \<open>The pass that keeps the new bullets in sequence; \<open>floor_end\<close> is \<open>floor_end_ms\<close>.\<close>

fun monotone_pass :: "nat \<Rightarrow> (utt_info \<times> bullet option \<times> (nat \<times> nat) option) list \<Rightarrow> (nat \<times> nat) option list" where
  "monotone_pass floor_end [] = []"
| "monotone_pass floor_end ((info, existing, new_bullet) # rest) =
     (if ui_has_lazy_overlap info \<or> ui_has_ca_overlap info then new_bullet # monotone_pass floor_end rest
      else if ui_has_bullet info
      then new_bullet # monotone_pass (case existing of Some b \<Rightarrow> max floor_end (bl_end b) | None \<Rightarrow> floor_end) rest
      else (case new_bullet of
         None \<Rightarrow> None # monotone_pass floor_end rest
       | Some (start_ms, end_ms) \<Rightarrow>
           (let (s, e) = (if start_ms < floor_end
                then (floor_end, if end_ms \<le> floor_end then floor_end + 1 else end_ms) else (start_ms, end_ms))
            in Some (s, e) # monotone_pass e rest)))"

definition utr_hint :: "nat \<Rightarrow> nat \<Rightarrow> bullet" where
  "utr_hint s e = \<lparr>bl_start = s, bl_end = e, bl_source = UtrSource\<rparr>"

fun apply_bullets :: "'a utr_utt_scheme line list \<Rightarrow> (nat \<times> nat) option list \<Rightarrow> 'a utr_utt_scheme line list" where
  "apply_bullets (HeaderLine h # ls) bs = HeaderLine h # apply_bullets ls bs"
| "apply_bullets (UtteranceLine u # ls) (b # bs) =
     UtteranceLine (case b of None \<Rightarrow> u | Some (s, e) \<Rightarrow> u\<lparr>ut_bullet := Some (utr_hint s e)\<rparr>) # apply_bullets ls bs"
| "apply_bullets ls bs = ls"

definition utr_result_init :: utr_result where
  "utr_result_init = \<lparr>ur_injected = 0, ur_skipped = 0, ur_unmatched = 0, ur_decisions = []\<rparr>"

definition run_global_utr ::
    "unicode \<Rightarrow> (rstr \<Rightarrow> rstr \<Rightarrow> rat) \<Rightarrow> 'a utr_utt_scheme line list \<Rightarrow> asr_token list \<Rightarrow> bool \<Rightarrow> match_mode \<Rightarrow>
     (utr_result \<times> 'a utr_utt_scheme line list) option" where
  "run_global_utr U jw lines tokens skip_lazy_overlap mode =
     (if tokens = [] then
        Some (utr_result_init\<lparr>ur_skipped := length (filter (\<lambda>u. ut_bullet u \<noteq> None) (utterances lines)),
            ur_unmatched := length (filter (\<lambda>u. ut_bullet u = None) (utterances lines))\<rparr>, lines)
      else
        let infos = collect_utr_utterance_info lines;
            flat = flatten_words skip_lazy_overlap infos
        in map_option (\<lambda>(strategy, utt_ranges).
             let (bullets_to_set, result) = assign_bullets tokens
                   (zip (utt_line_indices 0 lines) (zip infos utt_ranges)) utr_result_init;
                 final = monotone_pass 0 (zip infos (zip (map ut_bullet (utterances lines)) bullets_to_set))
             in (result, apply_bullets lines final))
           (plan_utr_alignment U jw (map fst flat) (map at_text tokens) (map snd flat) (length infos) mode))"

definition select_strategy :: "unicode \<Rightarrow> (rstr \<Rightarrow> rstr \<Rightarrow> rat) \<Rightarrow> 'a utr_utt_scheme line list \<Rightarrow> asr_token list \<Rightarrow>
    (utr_result \<times> 'a utr_utt_scheme line list) option" where
  "select_strategy U jw lines tokens = run_global_utr U jw lines tokens False CaseInsensitive"

section \<open>The runner\<close>

definition any_utterance_already_timed :: "'a utt_scheme line list \<Rightarrow> bool" where
  "any_utterance_already_timed lines =
     list_ex (\<lambda>u. case ut_bullet u of None \<Rightarrow> False | Some b \<Rightarrow> bl_start b < bl_end b) (utterances lines)"

record 'p utr_input =
  ui_source_id :: rstr
  ui_audio :: 'p
  ui_language :: language_spec

record ('a, 'p, 's) utr_env =
  ue_unicode :: unicode
  ue_jw :: "rstr \<Rightarrow> rstr \<Rightarrow> rat"
  ue_primary_language :: "'a utr_utt_scheme chat \<Rightarrow> rstr option"
  ue_sibling :: "'a utr_utt_scheme chat \<Rightarrow> media_input option"
  ue_prepare_pcm :: "media_input \<Rightarrow> rstr + 'p"
  ue_dispatch :: "'p utr_input \<Rightarrow> 's \<Rightarrow> (segment list) task_output ba_result \<times> (nat \<times> nat) list \<times> 's"

definition utr_injected_event :: "rstr \<Rightarrow> rstr \<Rightarrow> progress_event" where
  "utr_injected_event sid label = \<lparr>pe_source_id = sid, pe_task = Some Utr, pe_kind = StageInjected,
     pe_completed = 0, pe_total = 0, pe_label = label\<rparr>"

text \<open>
  The default review level is \<open>None\<close>, so the decisions are collected and not written. The strategy
  always returns (shown below), so the branch for no result is never taken.
\<close>

definition utr_apply_chat :: "('a, 'p, 's) utr_env \<Rightarrow> 'a utr_utt_scheme chat \<Rightarrow> 's \<Rightarrow>
    unit ba_result \<times> 'a utr_utt_scheme chat \<times> progress_event list \<times> 's" where
  "utr_apply_chat E chat s =
     (let sid = ch_source_id chat
      in if any_utterance_already_timed (ch_lines chat)
         then (Inr (), chat, [stage_started sid Utr, utr_injected_event sid
           (str ''nothing to recover '' @ [8212] @ str '' all utterances already timed'')], s)
         else
           case (case ch_media chat of Some m \<Rightarrow> Some m | None \<Rightarrow> ue_sibling E chat) of
             None \<Rightarrow> (Inl (InternalError
               (str ''UtrTaskRunner: chat has no attached media and no sibling audio file found'')), chat,
               [stage_started sid Utr], s)
           | Some media \<Rightarrow>
               (case ue_prepare_pcm E media of
                  Inl m \<Rightarrow> (Inl (InternalError (str ''audio_prep: '' @ m)), chat, [stage_started sid Utr], s)
                | Inr audio \<Rightarrow>
                    let input = \<lparr>ui_source_id = sid, ui_audio = audio,
                          ui_language = resolve_per_file_language (ue_primary_language E chat)\<rparr>;
                        (progress, floor_event) = start_step (scaled_progress_new sid Utr 1);
                        (answer, ticks, s') = ue_dispatch E input s;
                        events = [stage_started sid Utr, floor_event] @ map (\<lambda>(i, n). tick progress i n) ticks
                    in (case bind_res answer (try_from_output Utr) of
                          Inl e \<Rightarrow> (Inl e, chat, events, s')
                        | Inr segments \<Rightarrow>
                            (case select_strategy (ue_unicode E) (ue_jw E) (ch_lines chat)
                                (asr_output_to_utr_tokens segments) of
                               None \<Rightarrow> (Inl Cancelled, chat, events, s')
                             | Some (result, lines1) \<Rightarrow>
                                 let lines2 = (if ur_decisions result \<noteq> []
                                       then inject_decision_tiers lines1 (ur_decisions result) ReviewNone else lines1)
                                 in (Inr (), chat\<lparr>ch_lines := clear_media_unlinked lines2\<rparr>,
                                     events @ [finish_progress progress, utr_injected_event sid
                                       (str ''injected='' @ nat_to_string (ur_injected result) @
                                        str '' skipped='' @ nat_to_string (ur_skipped result) @
                                        str '' unmatched='' @ nat_to_string (ur_unmatched result))], s')))))"

definition utr_apply :: "('a, 'p, 's) utr_env \<Rightarrow> 'a utr_utt_scheme ba_value \<Rightarrow> 's \<Rightarrow>
    unit ba_result \<times> 'a utr_utt_scheme ba_value \<times> progress_event list \<times> 's" where
  "utr_apply E value s =
     (case value of
        Chat chat \<Rightarrow> (case utr_apply_chat E chat s of (r, chat', events, s') \<Rightarrow> (r, Chat chat', events, s'))
      | Failed sid e p \<Rightarrow> (Inr (), value, [], s)
      | other \<Rightarrow> (Inl (InternalError
          (str ''UtrTaskRunner: expected BAValue::Chat, got '' @ value_kind other)), value, [], s))"

end
