(* ===== verification/UtrRecovery.thy ===== *)
theory UtrRecovery
  imports UtrStrategy
begin

text \<open>
  Properties of utterance timing recovery: the fast path fires exactly when the words occur in the
  tokens in one way only, and then it is what the alignment would have given; the recovered bullets
  stay in sequence; timed utterances are left alone and the reported counts are true.
\<close>

section \<open>The greedy searches\<close>

text \<open>The words occur in the tokens at the positions \<open>js\<close>, in order.\<close>

definition embedding :: "rstr list \<Rightarrow> rstr list \<Rightarrow> nat list \<Rightarrow> bool" where
  "embedding ws R js \<longleftrightarrow> sorted_wrt (<) js \<and>
     list_all2 (\<lambda>w j. j < length R \<and> eq_ignore_ascii_case w (R ! j)) ws js"

lemma forward_find_Some:
  "forward_find w R i = Some j \<Longrightarrow> i \<le> j \<and> j < length R \<and> eq_ignore_ascii_case w (R ! j)"
proof (induction w R i rule: forward_find.induct)
  case (1 w R i)
  from 1(2) show ?case
    by (subst (asm) forward_find.simps) (use 1(1) in \<open>fastforce split: if_splits\<close>)
qed

lemma forward_find_least:
  "i \<le> j \<Longrightarrow> j < length R \<Longrightarrow> eq_ignore_ascii_case w (R ! j) \<Longrightarrow> \<exists>k \<le> j. forward_find w R i = Some k"
proof (induction w R i rule: forward_find.induct)
  case (1 w R i)
  show ?case
  proof (cases "eq_ignore_ascii_case w (R ! i)")
    case True
    with 1(2,3) show ?thesis by (subst forward_find.simps) auto
  next
    case False
    with 1(4) have "i \<noteq> j" by auto
    with 1 False show ?thesis by (subst forward_find.simps) auto
  qed
qed

lemma greedy_forward_sound:
  "greedy_forward_from ps R lo = Some fs \<Longrightarrow> embedding ps R fs \<and> (\<forall>j \<in> set fs. lo \<le> j)"
proof (induction ps R lo arbitrary: fs rule: greedy_forward_from.induct)
  case (2 p ps R lo)
  from 2(2) obtain j gs where j: "forward_find p R lo = Some j" "greedy_forward_from ps R (j + 1) = Some gs"
      "fs = j # gs" by (auto split: option.splits)
  from 2(1) [OF j(1,2)] forward_find_Some [OF j(1)] j(3) show ?case
    by (auto simp: embedding_def)
qed (simp add: embedding_def)

lemma greedy_forward_least:
  assumes "embedding ps R js" and "\<forall>j \<in> set js. lo \<le> j"
  shows "\<exists>fs. greedy_forward_from ps R lo = Some fs \<and> list_all2 (\<le>) fs js"
  using assms
proof (induction ps arbitrary: js lo)
  case (Cons p ps)
  from Cons(2) obtain j js' where js: "js = j # js'" and j: "j < length R" "eq_ignore_ascii_case p (R ! j)"
    and rest: "embedding ps R js'" and later: "\<forall>i \<in> set js'. j < i"
    by (auto simp: embedding_def list_all2_Cons1)
  from Cons(3) js have "lo \<le> j" by simp
  from forward_find_least [OF this j] obtain k where k: "k \<le> j" "forward_find p R lo = Some k" by blast
  from later k(1) have "\<forall>i \<in> set js'. k + 1 \<le> i" by auto
  from Cons(1) [OF rest this] k js show ?case by auto
qed (simp add: embedding_def)

lemma reverse_find_Some:
  "reverse_find w R i = Some j \<Longrightarrow> i \<le> length R \<Longrightarrow> j < i \<and> eq_ignore_ascii_case w (R ! j)"
  by (induction w R i rule: reverse_find.induct) (auto split: if_splits)

lemma reverse_find_greatest:
  "j < i \<Longrightarrow> eq_ignore_ascii_case w (R ! j) \<Longrightarrow> \<exists>k \<ge> j. reverse_find w R i = Some k"
proof (induction w R i rule: reverse_find.induct)
  case (2 w R i)
  then show ?case by (cases "j = i") auto
qed simp

definition rev_embedding :: "rstr list \<Rightarrow> rstr list \<Rightarrow> nat list \<Rightarrow> bool" where
  "rev_embedding ws R js \<longleftrightarrow> sorted_wrt (>) js \<and>
     list_all2 (\<lambda>w j. j < length R \<and> eq_ignore_ascii_case w (R ! j)) ws js"

lemma rev_embedding_rev: "rev_embedding (rev ws) R (rev js) \<longleftrightarrow> embedding ws R js"
  by (simp add: rev_embedding_def embedding_def sorted_wrt_rev)

lemma greedy_reverse_sound:
  assumes "greedy_reverse_from ps R hi acc = Some ms" and "hi \<le> length R"
  shows "\<exists>fs. ms = rev fs @ acc \<and> rev_embedding ps R fs \<and> (\<forall>j \<in> set fs. j < hi)"
  using assms
proof (induction ps R hi acc rule: greedy_reverse_from.induct)
  case (2 p ps R hi acc)
  from 2(2) obtain j where j: "reverse_find p R hi = Some j" "greedy_reverse_from ps R j (j # acc) = Some ms"
    by (auto split: option.splits)
  from reverse_find_Some [OF j(1) 2(3)] have jj: "j < hi" "eq_ignore_ascii_case p (R ! j)" by auto
  from 2(1) [OF j] jj 2(3) obtain fs where "ms = rev fs @ j # acc" "rev_embedding ps R fs" "\<forall>i \<in> set fs. i < j" by auto
  with jj 2(3) show ?case
    by (intro exI [of _ "j # fs"]) (auto simp: rev_embedding_def)
qed (simp add: rev_embedding_def)

lemma greedy_reverse_greatest:
  assumes "rev_embedding ps R js" and "\<forall>j \<in> set js. j < hi"
  shows "\<exists>fs. greedy_reverse_from ps R hi acc = Some (rev fs @ acc) \<and> list_all2 (\<ge>) fs js"
  using assms
proof (induction ps arbitrary: js hi acc)
  case (Cons p ps)
  from Cons(2) obtain j js' where js: "js = j # js'" and j: "eq_ignore_ascii_case p (R ! j)"
    and rest: "rev_embedding ps R js'" and later: "\<forall>i \<in> set js'. i < j"
    by (auto simp: rev_embedding_def list_all2_Cons1)
  from Cons(3) js have "j < hi" by simp
  from reverse_find_greatest [OF this j] obtain k where k: "j \<le> k" "reverse_find p R hi = Some k" by blast
  from later k(1) have "\<forall>i \<in> set js'. i < k" by auto
  from Cons(1) [OF rest this, of "k # acc"] k js obtain fs where
    "greedy_reverse_from ps R k (k # acc) = Some (rev fs @ k # acc)" "list_all2 (\<ge>) fs js'" by auto
  with k js show ?case by (intro exI [of _ "k # fs"]) auto
qed (simp add: rev_embedding_def)

lemma greedy_forward_iff:
  "embedding ws R js \<Longrightarrow> \<exists>fs. greedy_forward_match_indices ws R = Some fs \<and> list_all2 (\<le>) fs js"
  "greedy_forward_match_indices ws R = Some fs \<Longrightarrow> embedding ws R fs"
  using greedy_forward_least [of ws R js 0] greedy_forward_sound [of ws R 0 fs]
  by (auto simp: greedy_forward_match_indices_def)

lemma greedy_reverse_iff:
  "embedding ws R js \<Longrightarrow> \<exists>fs. greedy_reverse_match_indices ws R = Some fs \<and> list_all2 (\<ge>) fs js"
  "greedy_reverse_match_indices ws R = Some fs \<Longrightarrow> embedding ws R fs"
proof -
  assume e: "embedding ws R js"
  then have "\<forall>j \<in> set (rev js). j < length R"
    by (auto simp: embedding_def list_all2_conv_all_nth in_set_conv_nth)
  moreover have "rev_embedding (rev ws) R (rev js)" using e by (simp only: rev_embedding_rev)
  ultimately obtain fs where "greedy_reverse_from (rev ws) R (length R) [] = Some (rev fs)" "list_all2 (\<ge>) fs (rev js)"
    using greedy_reverse_greatest [of "rev ws" R "rev js" "length R" "[]"] by auto
  then have "greedy_reverse_match_indices ws R = Some (rev fs)" "list_all2 (\<ge>) (rev fs) js"
    by (simp_all add: greedy_reverse_match_indices_def list_all2_rev1)
  then show "\<exists>fs. greedy_reverse_match_indices ws R = Some fs \<and> list_all2 (\<ge>) fs js" by blast
next
  assume "greedy_reverse_match_indices ws R = Some fs"
  from greedy_reverse_sound [OF this [unfolded greedy_reverse_match_indices_def]]
  obtain gs where "fs = rev gs" "rev_embedding (rev ws) R gs" by auto
  then show "embedding ws R fs" using rev_embedding_rev [of ws R "rev gs"] by simp
qed

lemma list_all2_antisym: "list_all2 (\<le>) xs ys \<Longrightarrow> list_all2 (\<ge>) xs ys \<Longrightarrow> xs = (ys :: nat list)"
  by (induction xs ys rule: list_all2_induct) auto

lemma fast_path_unique:
  "(\<exists>ranges. try_unique_exact_subsequence_ranges ws R w2u n = Some ranges) \<longleftrightarrow> (\<exists>!js. embedding ws R js)"
proof
  assume "\<exists>ranges. try_unique_exact_subsequence_ranges ws R w2u n = Some ranges"
  then obtain es where f: "greedy_forward_match_indices ws R = Some es" and r: "greedy_reverse_match_indices ws R = Some es"
    by (auto simp: try_unique_exact_subsequence_ranges_def split: option.splits if_splits)
  show "\<exists>!js. embedding ws R js"
  proof (rule ex1I [of _ es])
    show "embedding ws R es" using f by (rule greedy_forward_iff(2))
    fix js assume "embedding ws R js"
    from greedy_forward_iff(1) [OF this] greedy_reverse_iff(1) [OF this] f r
    have "list_all2 (\<le>) es js" "list_all2 (\<ge>) es js" by auto
    then show "js = es" using list_all2_antisym [of es js] by simp
  qed
next
  assume "\<exists>!js. embedding ws R js"
  then obtain js where js: "embedding ws R js" and u: "\<And>ks. embedding ws R ks \<Longrightarrow> ks = js" by blast
  from greedy_forward_iff(1) [OF js] obtain fs where "greedy_forward_match_indices ws R = Some fs" by blast
  moreover from greedy_reverse_iff(1) [OF js] obtain gs where "greedy_reverse_match_indices ws R = Some gs" by blast
  ultimately show "\<exists>ranges. try_unique_exact_subsequence_ranges ws R w2u n = Some ranges"
    using u [OF greedy_forward_iff(2)] u [OF greedy_reverse_iff(2)]
    by (simp add: try_unique_exact_subsequence_ranges_def)
qed

lemma fast_path_ranges:
  assumes "try_unique_exact_subsequence_ranges ws R w2u n = Some ranges" and "embedding ws R js"
  shows "ranges = collect_utt_ranges_from_match_indices js w2u n"
proof -
  from assms(1) obtain es where "greedy_forward_match_indices ws R = Some es"
      "ranges = collect_utt_ranges_from_match_indices es w2u n"
    by (auto simp: try_unique_exact_subsequence_ranges_def split: option.splits if_splits)
  moreover have "\<exists>!js. embedding ws R js" using assms(1) fast_path_unique by blast
  ultimately show ?thesis using assms(2) greedy_forward_iff(2) by blast
qed

section \<open>The fast path and the alignment\<close>

lemma list_all2_and: "list_all2 P xs ys \<Longrightarrow> \<forall>y \<in> set ys. Q y \<Longrightarrow> list_all2 (\<lambda>x y. P x y \<and> Q y) xs ys"
  by (induction xs ys rule: list_all2_induct) auto

text \<open>The positions \<open>js\<close> of \<open>ps\<close> in a reference whose first index is \<open>ro\<close>.\<close>

definition placed :: "('a \<Rightarrow> 'a \<Rightarrow> bool) \<Rightarrow> nat \<Rightarrow> 'a list \<Rightarrow> 'a \<Rightarrow> nat \<Rightarrow> bool" where
  "placed mt ro rs p j \<longleftrightarrow> ro \<le> j \<and> j < ro + length rs \<and> mt p (rs ! (j - ro))"

lemma placed_Cons: "placed mt ro (r # rs) p j \<longleftrightarrow> (if j = ro then mt p r else placed mt (Suc ro) rs p j)"
proof (cases "ro < j")
  case True
  then have "j - ro = Suc (j - Suc ro)" by simp
  with True show ?thesis by (auto simp: placed_def)
qed (auto simp: placed_def)

lemma placed_later:
  "list_all2 (placed mt ro (r # rs)) ps js \<Longrightarrow> \<forall>j \<in> set js. ro < j \<Longrightarrow> list_all2 (placed mt (Suc ro) rs) ps js"
  by (drule (1) list_all2_and) (auto elim!: list_all2_mono simp: placed_Cons split: if_splits)

lemma placed_earlier: "list_all2 (placed mt (Suc ro) rs) ps js \<Longrightarrow> list_all2 (placed mt ro (r # rs)) ps js"
  by (erule list_all2_mono) (auto simp: placed_Cons placed_def)

lemma placed_ge: "list_all2 (placed mt ro rs) ps js \<Longrightarrow> \<forall>j \<in> set js. ro \<le> j"
  by (induction ps js rule: list_all2_induct) (auto simp: placed_def)

lemma embedding_valid:
  assumes "sorted_wrt (<) js" and "list_all2 (placed mt ro rs) ps js"
  shows "\<exists>out. align_valid mt tk ps rs po ro out \<and> align_cost out + length ps = length rs"
  using assms
proof (induction rs arbitrary: ps js po ro)
  case Nil
  then have "ps = []" by (cases ps) (auto simp: list_all2_Cons1 placed_def)
  then show ?case by (intro exI [of _ "[]"]) simp
next
  case (Cons r rs)
  show ?case
  proof (cases "\<exists>js'. js = ro # js'")
    case True
    then obtain js' p ps' where js: "js = ro # js'" "ps = p # ps'" "mt p r"
      using Cons(3) by (auto simp: list_all2_Cons2 placed_Cons)
    have "list_all2 (placed mt (Suc ro) rs) ps' js'"
      by (rule placed_later [of _ _ r]) (use Cons(2,3) js in auto)
    from Cons(1) [OF _ this, of "Suc po"] Cons(2) js obtain out where
      "align_valid mt tk ps' rs (Suc po) (Suc ro) out" "align_cost out + length ps' = length rs" by auto
    with js show ?thesis by (intro exI [of _ "Match (tk r) po ro # out"]) simp
  next
    case False
    have "\<forall>j \<in> set js. ro < j"
      using placed_ge [OF Cons(3)] Cons(2) False by (cases js) fastforce+
    from Cons(1) [OF Cons(2) placed_later [OF Cons(3) this], of po] obtain out where
      "align_valid mt tk ps rs po (Suc ro) out" "align_cost out + length ps = length rs" by blast
    then show ?thesis by (intro exI [of _ "ExtraReference (tk r) ro # out"]) simp
  qed
qed

lemma align_valid_cost: "align_valid mt tk ps rs po ro out \<Longrightarrow> length rs \<le> align_cost out + length ps"
  using align_valid_total [of mt tk ps rs po ro out]
proof -
  assume v: "align_valid mt tk ps rs po ro out"
  have "length (filter is_match out) \<le> length (payload_indices out)"
    by (induction out rule: payload_indices.induct) auto
  with align_valid_indices [OF v] have "length (filter is_match out) \<le> length ps" by simp
  with align_valid_total [OF v] show ?thesis by linarith
qed

lemma valid_matched_pairs:
  assumes "align_valid mt tk ps rs po ro out" and "align_cost out + length ps \<le> length rs"
  shows "\<exists>js. matched_pairs out = enumerate po js \<and> sorted_wrt (<) js \<and> list_all2 (placed mt ro rs) ps js"
  using assms
proof (induction mt tk ps rs po ro out rule: align_valid.induct)
  case (2 mt tk ps rs po ro k i j out)
  from 2(2) obtain p ps' r rs' where l: "ps = p # ps'" "rs = r # rs'" by (cases ps; cases rs) auto
  from 2 l obtain js where js: "matched_pairs out = enumerate (Suc po) js" "sorted_wrt (<) js"
      "list_all2 (placed mt (Suc ro) rs') ps' js" by auto
  moreover have "placed mt ro (r # rs') p ro" using 2(2) l by (simp add: placed_Cons)
  ultimately show ?case
    using placed_earlier [OF js(3), of r] placed_ge [OF js(3)] 2(2) l
    by (intro exI [of _ "ro # js"]) auto
next
  case (3 mt tk ps rs po ro k i out)
  from 3(2) obtain p ps' where l: "ps = p # ps'" by (cases ps) auto
  with 3(2) have "align_valid mt tk ps' rs (Suc po) ro out" by simp
  from align_valid_cost [OF this] 3(3) l show ?case by simp
next
  case (4 mt tk ps rs po ro k j out)
  from 4(2) obtain r rs' where l: "rs = r # rs'" by (cases rs) auto
  from 4 l obtain js where "matched_pairs out = enumerate po js" "sorted_wrt (<) js"
      "list_all2 (placed mt (Suc ro) rs') ps js" by auto
  with placed_earlier [of mt ro rs' ps js r] l show ?case by auto
qed auto

lemma embedding_placed:
  "embedding ws R js \<longleftrightarrow> sorted_wrt (<) js \<and> list_all2 (placed (str_matches U jw CaseInsensitive) 0 R) ws js"
proof -
  have "placed (str_matches U jw CaseInsensitive) 0 R = (\<lambda>w j. j < length R \<and> eq_ignore_ascii_case w (R ! j))"
    by (intro ext) (simp add: placed_def str_matches_def)
  then show ?thesis by (simp add: embedding_def)
qed

lemma fast_path_is_dp:
  assumes "length ws + length R < USIZE_MAX"
    and "try_unique_exact_subsequence_ranges ws R w2u n = Some ranges"
  shows "\<exists>al. align U jw ws R CaseInsensitive = Some al \<and> collect_utt_ranges_from_alignment al w2u n = ranges"
proof -
  let ?mt = "str_matches U jw CaseInsensitive"
  from assms(2) obtain js where js: "embedding ws R js" using fast_path_unique by blast
  with embedding_placed [of ws R js U jw]
  have "sorted_wrt (<) js" "list_all2 (placed ?mt 0 R) ws js" by blast+
  from embedding_valid [OF this, of str_to_key 0] obtain other where
    other: "align_valid ?mt str_to_key ws R 0 0 other" "align_cost other + length ws = length R" by blast
  from ci_words.generic_optimal [OF assms(1) other(1)] obtain al where
    al: "align U jw ws R CaseInsensitive = Some al" "align_valid ?mt str_to_key ws R 0 0 al"
      "align_cost al \<le> align_cost other" unfolding align_def by blast
  from valid_matched_pairs [OF al(2)] al(3) other(2) obtain ks where
    ks: "matched_pairs al = enumerate 0 ks" "sorted_wrt (<) ks" "list_all2 (placed ?mt 0 R) ws ks" by auto
  then have "embedding ws R ks" using embedding_placed [of ws R ks U jw] by blast
  from fast_path_ranges [OF assms(2) this] ks(1) al(1) show ?thesis
    by (simp add: collect_utt_ranges_from_match_indices_def collect_utt_ranges_from_alignment_def)
qed

text \<open>Planning utterance timing recovery, the exact-match shortcut changes nothing: it fires exactly
  when the words occur in the tokens in one way only, and the token ranges it returns are those of the
  alignment that it saves.\<close>

lemma fast_path_is_alignment:
  assumes "length ws + length R < USIZE_MAX"
    and "plan_utr_alignment U jw ws R w2u n CaseInsensitive = Some (strategy, ranges)"
  shows "(\<exists>al. align U jw ws R CaseInsensitive = Some al \<and> collect_utt_ranges_from_alignment al w2u n = ranges) \<and>
    (strategy = UniqueExactSubsequence) = (\<exists>!js. embedding ws R js)"
proof (cases "try_unique_exact_subsequence_ranges ws R w2u n")
  case None
  then have "\<not> (\<exists>!js. embedding ws R js)" using fast_path_unique [of ws R w2u n] by simp
  with None assms(2) show ?thesis by (auto simp: plan_utr_alignment_def)
next
  case (Some r)
  then have "\<exists>!js. embedding ws R js" using fast_path_unique [of ws R w2u n] by blast
  moreover have "strategy = UniqueExactSubsequence" "ranges = r"
    using Some assms(2) by (simp_all add: plan_utr_alignment_def)
  ultimately show ?thesis using fast_path_is_dp [OF assms(1) Some, of U jw] by simp
qed

lemma fast_path_is_alignment_witness:
  "plan_utr_alignment ascii_tables (\<lambda>_ _. 0) [str ''b''] [str ''a'', str ''B''] [0] 1 CaseInsensitive =
     Some (UniqueExactSubsequence, [Some (1, 1)]) \<and> (\<exists>!js. embedding [str ''b''] [str ''a'', str ''B''] js)"
proof -
  have plan: "plan_utr_alignment ascii_tables (\<lambda>_ _. 0) [str ''b''] [str ''a'', str ''B''] [0] 1 CaseInsensitive =
      Some (UniqueExactSubsequence, [Some (1, 1)])"
    by (simp add: plan_utr_alignment_def try_unique_exact_subsequence_ranges_def greedy_forward_match_indices_def
        greedy_reverse_match_indices_def forward_find.simps collect_utt_ranges_from_match_indices_def
        record_match_def update_utt_range_def numeral_2_eq_2 rust_eval)
  from fast_path_is_alignment [OF _ plan] have "\<exists>!js. embedding [str ''b''] [str ''a'', str ''B''] js"
    by (simp add: USIZE_MAX_def)
  with plan show ?thesis by blast
qed

section \<open>Assignment\<close>

lemma assign_bullet_facts:
  assumes "assign_bullet tokens (i, info, r) result = (b, result')"
  shows "(case b of None \<Rightarrow> True | Some (s, e) \<Rightarrow> s < e \<and> \<not> ui_has_bullet info)"
    and "ur_injected result' = ur_injected result + (if b = None then 0 else 1)"
    and "ur_injected result' + ur_skipped result' + ur_unmatched result' =
      ur_injected result + ur_skipped result + ur_unmatched result + 1"
    and "ur_skipped result' = ur_skipped result + (if ui_has_bullet info then 1 else 0)"
  using assms by (auto simp: assign_bullet_def Let_def split: if_splits option.splits)

definition assignable :: "utt_info \<Rightarrow> (nat \<times> nat) option \<Rightarrow> bool" where
  "assignable info b = (case b of None \<Rightarrow> True | Some (s, e) \<Rightarrow> s < e \<and> \<not> ui_has_bullet info)"

lemma assign_bullets_facts:
  assumes "assign_bullets tokens items result = (bs, result')"
  shows "list_all2 (\<lambda>(i, info, r) b. assignable info b) items bs \<and>
    ur_injected result' = ur_injected result + length (filter (\<lambda>b. b \<noteq> None) bs) \<and>
    ur_injected result' + ur_skipped result' + ur_unmatched result' =
      ur_injected result + ur_skipped result + ur_unmatched result + length items \<and>
    ur_skipped result' = ur_skipped result + length (filter (\<lambda>(i, info, r). ui_has_bullet info) items)"
  using assms
proof (induction tokens items result arbitrary: bs result' rule: assign_bullets.induct)
  case (2 tokens item items result)
  obtain i info r where it: "item = (i, info, r)" by (cases item) auto
  obtain b result1 where b: "assign_bullet tokens item result = (b, result1)" by fastforce
  obtain cs result2 where cs: "assign_bullets tokens items result1 = (cs, result2)" by fastforce
  have a: "assignable info b" using assign_bullet_facts(1) [OF b [unfolded it]] by (simp add: assignable_def)
  from 2(2) b cs have r: "bs = b # cs" "result' = result2" by simp_all
  from 2(1) [OF b [symmetric] cs] assign_bullet_facts(2,3,4) [OF b [unfolded it]] a show ?case
    by (simp add: r it)
qed simp

section \<open>The sequence of bullets\<close>

abbreviation in_overlap :: "utt_info \<Rightarrow> bool" where
  "in_overlap info \<equiv> ui_has_lazy_overlap info \<or> ui_has_ca_overlap info"

fun in_pass_order :: "nat \<Rightarrow> (utt_info \<times> bullet option \<times> (nat \<times> nat) option) list \<Rightarrow> bool" where
  "in_pass_order k [] = True"
| "in_pass_order k ((info, existing, new_bullet) # rest) =
     (if in_overlap info then in_pass_order k rest
      else (case existing of
         Some b \<Rightarrow> in_pass_order (max k (bl_end b)) rest
       | None \<Rightarrow> (case new_bullet of
           None \<Rightarrow> in_pass_order k rest
         | Some (s, e) \<Rightarrow> k \<le> s \<and> s < e \<and> in_pass_order e rest)))"

definition consistent_item :: "utt_info \<times> bullet option \<times> (nat \<times> nat) option \<Rightarrow> bool" where
  "consistent_item item = (case item of (info, existing, b) \<Rightarrow>
     (ui_has_bullet info = (existing \<noteq> None)) \<and> assignable info b)"

abbreviation keep_kind :: "utt_info \<times> bullet option \<times> (nat \<times> nat) option \<Rightarrow> (nat \<times> nat) option \<Rightarrow> bool" where
  "keep_kind item b' \<equiv> (case item of (info, existing, b) \<Rightarrow> assignable info b' \<and> (b' = None) = (b = None))"

abbreviation with_new :: "utt_info \<times> bullet option \<times> (nat \<times> nat) option \<Rightarrow> (nat \<times> nat) option \<Rightarrow>
    utt_info \<times> bullet option \<times> (nat \<times> nat) option" where
  "with_new item b' \<equiv> (case item of (info, existing, b) \<Rightarrow> (info, existing, b'))"

definition pass_ok :: "nat \<Rightarrow> (utt_info \<times> bullet option \<times> (nat \<times> nat) option) list \<Rightarrow> (nat \<times> nat) option list \<Rightarrow> bool" where
  "pass_ok k items bs \<longleftrightarrow> length bs = length items \<and> list_all2 keep_kind items bs \<and>
     in_pass_order k (map2 with_new items bs)"

lemma pass_ok_Cons:
  "pass_ok k ((info, existing, b) # rest) (b' # bs) \<longleftrightarrow>
     assignable info b' \<and> (b' = None) = (b = None) \<and>
     (if in_overlap info then pass_ok k rest bs
      else (case existing of
         Some x \<Rightarrow> pass_ok (max k (bl_end x)) rest bs
       | None \<Rightarrow> (case b' of
           None \<Rightarrow> pass_ok k rest bs
         | Some (s, e) \<Rightarrow> k \<le> s \<and> s < e \<and> pass_ok e rest bs)))"
  by (auto simp: pass_ok_def split: option.splits)

lemma monotone_pass_ok:
  assumes "list_all consistent_item items"
  shows "pass_ok k items (monotone_pass k items)"
  using assms
proof (induction items arbitrary: k)
  case Nil
  then show ?case by (simp add: pass_ok_def)
next
  case (Cons item rest)
  obtain info existing b where it: "item = (info, existing, b)" by (cases item) auto
  have IH: "pass_ok j rest (monotone_pass j rest)" for j using Cons by simp
  have c: "ui_has_bullet info = (existing \<noteq> None)" "assignable info b"
    using Cons(2) it by (simp_all add: consistent_item_def)
  show ?case
  proof (cases "in_overlap info")
    case True
    with IH c show ?thesis by (simp add: it pass_ok_Cons)
  next
    case no_overlap: False
    show ?thesis
    proof (cases existing)
      case (Some x)
      with IH c no_overlap show ?thesis by (simp add: it pass_ok_Cons)
    next
      case None
      show ?thesis
      proof (cases b)
        case None
        with IH c no_overlap \<open>existing = None\<close> show ?thesis by (simp add: it pass_ok_Cons)
      next
        case (Some se)
        obtain s e where "se = (s, e)" by (cases se) auto
        with IH c no_overlap None Some show ?thesis by (simp add: it pass_ok_Cons assignable_def Let_def)
      qed
    qed
  qed
qed

text \<open>The order said without the recursion.\<close>

definition final_bullet :: "utt_info \<times> bullet option \<times> (nat \<times> nat) option \<Rightarrow> (nat \<times> nat) option" where
  "final_bullet item = (case item of (info, existing, b) \<Rightarrow>
     (case existing of Some x \<Rightarrow> Some (bl_start x, bl_end x) | None \<Rightarrow> b))"

definition starts_after :: "nat \<Rightarrow> utt_info \<times> bullet option \<times> (nat \<times> nat) option \<Rightarrow> bool" where
  "starts_after k y \<longleftrightarrow> fst (snd y) \<noteq> None \<or> k \<le> fst (the (final_bullet y))"

definition in_line :: "utt_info \<times> bullet option \<times> (nat \<times> nat) option \<Rightarrow> bool" where
  "in_line x \<longleftrightarrow> \<not> in_overlap (fst x) \<and> final_bullet x \<noteq> None"

lemma starts_after_mono: "j \<le> k \<Longrightarrow> list_all (starts_after k) ys \<Longrightarrow> list_all (starts_after j) ys"
  by (induction ys) (auto simp: starts_after_def)

lemma in_pass_order_sorted:
  assumes "in_pass_order k items"
  shows "sorted_wrt (\<lambda>x y. starts_after (snd (the (final_bullet x))) y) (filter in_line items) \<and>
    list_all (starts_after k) (filter in_line items)"
  using assms
proof (induction items arbitrary: k)
  case (Cons item rest)
  obtain info existing b where it: "item = (info, existing, b)" by (cases item) auto
  show ?case
  proof (cases "in_line item")
    case False
    then have "in_pass_order k rest \<or> (\<exists>x. existing = Some x \<and> in_pass_order (max k (bl_end x)) rest)"
      using Cons(2) it by (auto simp: in_line_def final_bullet_def split: option.splits if_splits)
    with Cons(1) starts_after_mono [of k "max k _"] False show ?thesis by fastforce
  next
    case True
    then have no_overlap: "\<not> in_overlap info" by (simp add: it in_line_def)
    show ?thesis
    proof (cases existing)
      case (Some x)
      with Cons(2) no_overlap it have "in_pass_order (max k (bl_end x)) rest" by simp
      from Cons(1) [OF this] have IH: "sorted_wrt (\<lambda>x y. starts_after (snd (the (final_bullet x))) y) (filter in_line rest)"
        "list_all (starts_after (max k (bl_end x))) (filter in_line rest)" by auto
      have "list_all (starts_after k) (filter in_line rest)" "list_all (starts_after (bl_end x)) (filter in_line rest)"
        using starts_after_mono [OF _ IH(2)] by simp_all
      moreover have "starts_after k item" "snd (the (final_bullet item)) = bl_end x"
        using Some it by (simp_all add: starts_after_def final_bullet_def)
      ultimately show ?thesis using IH(1) True by (simp add: list_all_iff)
    next
      case None
      with True obtain s e where se: "b = Some (s, e)" by (auto simp: it in_line_def final_bullet_def)
      with Cons(2) no_overlap None it have o: "k \<le> s" "s < e" "in_pass_order e rest" by auto
      from Cons(1) [OF o(3)] have IH: "sorted_wrt (\<lambda>x y. starts_after (snd (the (final_bullet x))) y) (filter in_line rest)"
        "list_all (starts_after e) (filter in_line rest)" by auto
      have "list_all (starts_after k) (filter in_line rest)"
        using starts_after_mono [OF _ IH(2)] o by simp
      moreover have "starts_after k item" "snd (the (final_bullet item)) = e"
        using None se it o by (simp_all add: starts_after_def final_bullet_def)
      ultimately show ?thesis using IH True by (simp add: list_all_iff)
    qed
  qed
qed simp

section \<open>The whole recovery\<close>

lemma align_total: "\<exists>al. align U jw payload reference mode = Some al"
  using align_generic_correct [of "str_matches U jw mode" str_to_key payload reference]
  unfolding align_def by blast

lemma plan_total: "\<exists>strategy ranges. plan_utr_alignment U jw ws R w2u n mode = Some (strategy, ranges)"
  using align_total [of U jw ws R mode]
  by (auto simp: plan_utr_alignment_def split: option.splits)

lemma record_match_length [simp]: "length (record_match w2u m rs) = length rs"
  by (cases m) (simp add: record_match_def Let_def)

lemma fold_record_length [simp]: "length (fold (record_match w2u) ms rs) = length rs"
  by (induction ms arbitrary: rs) simp_all

lemma plan_length: "plan_utr_alignment U jw ws R w2u n mode = Some (strategy, ranges) \<Longrightarrow> length ranges = n"
  by (auto simp: plan_utr_alignment_def try_unique_exact_subsequence_ranges_def
      collect_utt_ranges_from_match_indices_def collect_utt_ranges_from_alignment_def
      split: option.splits if_splits)

lemma length_utt_line_indices [simp]: "length (utt_line_indices i ls) = length (utterances ls)"
  by (induction i ls rule: utt_line_indices.induct) auto

definition set_hint :: "'a utr_utt_scheme \<Rightarrow> (nat \<times> nat) option \<Rightarrow> 'a utr_utt_scheme" where
  "set_hint u b = (case b of None \<Rightarrow> u | Some (s, e) \<Rightarrow> u\<lparr>ut_bullet := Some (utr_hint s e)\<rparr>)"

lemma apply_bullets_facts:
  "length bs = length (utterances ls) \<Longrightarrow>
   frame (apply_bullets ls bs) = frame ls \<and> utterances (apply_bullets ls bs) = map2 set_hint (utterances ls) bs"
  by (induction ls bs rule: apply_bullets.induct) (auto simp: set_hint_def)

text \<open>What recovery may do to an utterance, and the order of the bullets outside overlaps.\<close>

definition recovered :: "'a utr_utt_scheme \<Rightarrow> 'a utr_utt_scheme \<Rightarrow> bool" where
  "recovered u u' \<longleftrightarrow> u' = u \<or>
     (ut_bullet u = None \<and> (\<exists>s e. s < e \<and> u' = u\<lparr>ut_bullet := Some (utr_hint s e)\<rparr>))"

definition outside_overlap :: "'a utr_utt_scheme \<times> 'a utr_utt_scheme \<Rightarrow> bool" where
  "outside_overlap p \<longleftrightarrow> \<not> in_overlap (utr_utterance_info (fst p)) \<and> ut_bullet (snd p) \<noteq> None"

definition not_before :: "'a utr_utt_scheme \<times> 'a utr_utt_scheme \<Rightarrow> 'a utr_utt_scheme \<times> 'a utr_utt_scheme \<Rightarrow> bool" where
  "not_before p q \<longleftrightarrow> ut_bullet (fst q) \<noteq> None \<or>
     bl_end (the (ut_bullet (snd p))) \<le> bl_start (the (ut_bullet (snd q)))"

definition newly_timed :: "'a utr_utt_scheme \<times> 'a utr_utt_scheme \<Rightarrow> bool" where
  "newly_timed p \<longleftrightarrow> ut_bullet (fst p) = None \<and> ut_bullet (snd p) \<noteq> None"

abbreviation item_of :: "'a utr_utt_scheme \<times> (nat \<times> nat) option \<Rightarrow> utt_info \<times> bullet option \<times> (nat \<times> nat) option" where
  "item_of p \<equiv> (utr_utterance_info (fst p), ut_bullet (fst p), snd p)"

abbreviation pair_of :: "'a utr_utt_scheme \<times> (nat \<times> nat) option \<Rightarrow> 'a utr_utt_scheme \<times> 'a utr_utt_scheme" where
  "pair_of p \<equiv> (fst p, set_hint (fst p) (snd p))"

lemma item_pair:
  assumes "assignable (utr_utterance_info (fst p)) (snd p)"
  shows "outside_overlap (pair_of p) = in_line (item_of p)"
    and "recovered (fst p) (set_hint (fst p) (snd p))"
    and "newly_timed (pair_of p) = (snd p \<noteq> None)"
    and "ut_bullet (set_hint (fst p) (snd p)) \<noteq> None \<Longrightarrow>
      (bl_start (the (ut_bullet (set_hint (fst p) (snd p)))), bl_end (the (ut_bullet (set_hint (fst p) (snd p))))) =
        the (final_bullet (item_of p))"
  using assms
  by (auto simp: outside_overlap_def in_line_def final_bullet_def set_hint_def recovered_def newly_timed_def
      assignable_def utr_utterance_info_def utr_hint_def split: option.splits)

lemma starts_after_not_before:
  assumes "assignable (utr_utterance_info (fst p)) (snd p)" and "assignable (utr_utterance_info (fst q)) (snd q)"
    and "in_line (item_of p)" and "in_line (item_of q)"
    and "starts_after (snd (the (final_bullet (item_of p)))) (item_of q)"
  shows "not_before (pair_of p) (pair_of q)"
proof -
  have "ut_bullet (set_hint (fst p) (snd p)) \<noteq> None" "ut_bullet (set_hint (fst q) (snd q)) \<noteq> None"
    using item_pair(1) [OF assms(1)] item_pair(1) [OF assms(2)] assms(3,4) by (auto simp: outside_overlap_def)
  from item_pair(4) [OF assms(1) this(1)] item_pair(4) [OF assms(2) this(2)] assms(5) show ?thesis
    unfolding not_before_def starts_after_def by (metis fst_conv snd_conv)
qed

lemma count_middle:
  assumes "length as = length bs" and "length cs = length bs"
  shows "length (filter (\<lambda>(a, b, c). P b) (zip as (zip bs cs))) = length (filter P bs)"
proof -
  from assms(1) assms(2) [symmetric] show ?thesis
    by (induction as bs cs rule: list_induct3) auto
qed

lemma pass_result:
  assumes "pass_ok 0 (map item_of (zip us bs)) final" and "length bs = length us"
  shows "list_all2 recovered us (map2 set_hint us final) \<and>
    sorted_wrt not_before (filter outside_overlap (zip us (map2 set_hint us final))) \<and>
    length (filter newly_timed (zip us (map2 set_hint us final))) = length (filter (\<lambda>b. b \<noteq> None) bs)"
proof -
  let ?ps = "zip us final"
  have len: "length final = length us" using assms by (simp add: pass_ok_def)
  have kept: "list_all2 keep_kind (map item_of (zip us bs)) final"
    and ord: "in_pass_order 0 (map2 with_new (map item_of (zip us bs)) final)"
    using assms(1) by (simp_all add: pass_ok_def)
  have ok: "assignable (utr_utterance_info (fst p)) (snd p)" if "p \<in> set ?ps" for p
    using kept that assms(2) len by (auto simp: list_all2_conv_all_nth in_set_zip)
  have kinds: "list_all2 (\<lambda>b b'. (b' = None) = (b = None)) bs final"
    using kept assms(2) by (auto simp: list_all2_conv_all_nth)
  have pairs: "zip us (map2 set_hint us final) = map pair_of ?ps"
    by (rule nth_equalityI) (simp_all add: len)
  have "map2 with_new (map item_of (zip us bs)) final = map item_of ?ps"
    by (rule nth_equalityI) (simp_all add: len assms(2))
  with ord in_pass_order_sorted [of 0 "map item_of ?ps"]
  have "sorted_wrt (\<lambda>x y. starts_after (snd (the (final_bullet x))) y) (filter in_line (map item_of ?ps))" by simp
  then have s: "sorted_wrt (\<lambda>p q. starts_after (snd (the (final_bullet (item_of p)))) (item_of q))
      (filter (\<lambda>p. in_line (item_of p)) ?ps)"
    by (simp add: filter_map sorted_wrt_map o_def)
  have "sorted_wrt (\<lambda>p q. not_before (pair_of p) (pair_of q)) (filter (\<lambda>p. in_line (item_of p)) ?ps)"
    by (rule sorted_wrt_mono_rel [OF _ s]) (auto intro!: starts_after_not_before ok)
  moreover have "filter (\<lambda>p. in_line (item_of p)) ?ps = filter (\<lambda>p. outside_overlap (pair_of p)) ?ps"
    by (rule filter_cong) (simp_all add: item_pair(1) [OF ok])
  ultimately have "sorted_wrt not_before (filter outside_overlap (zip us (map2 set_hint us final)))"
    unfolding pairs by (simp add: filter_map sorted_wrt_map o_def)
  moreover have "list_all2 recovered us (map2 set_hint us final)"
  proof (rule list_all2_all_nthI)
    fix i assume i: "i < length us"
    with len have "(us ! i, final ! i) \<in> set ?ps" by (auto simp: in_set_zip)
    from item_pair(2) [OF ok [OF this]] i len show "recovered (us ! i) (map2 set_hint us final ! i)" by simp
  qed (simp add: len)
  moreover have "length (filter newly_timed (zip us (map2 set_hint us final))) = length (filter (\<lambda>b. b \<noteq> None) bs)"
  proof -
    have "length (filter newly_timed (map pair_of ?ps)) = length (filter (\<lambda>p. snd p \<noteq> None) ?ps)"
      by (simp add: filter_map o_def item_pair(3) [OF ok] cong: filter_cong)
    also have "\<dots> = length (filter (\<lambda>b. b \<noteq> None) (map snd ?ps))" by (simp add: filter_map o_def)
    also have "map snd ?ps = final" using len by simp
    also have "length (filter (\<lambda>b. b \<noteq> None) final) = length (filter (\<lambda>b. b \<noteq> None) bs)"
      using kinds by (induction bs final rule: list_all2_induct) auto
    finally show ?thesis unfolding pairs .
  qed
  ultimately show ?thesis by blast
qed

text \<open>C20: Utterance timing recovery always returns. Utterances with a bullet are left alone, an untimed
  one is left alone or gets a bullet of positive length; outside overlaps no new bullet starts before
  the end of any earlier one; and the counts it reports are true: one entry for each utterance, the
  injected ones being those that gained a bullet.\<close>

theorem utr_recovery_correct:
  "\<exists>result lines'. run_global_utr U jw lines tokens skip mode = Some (result, lines') \<and>
     frame lines' = frame lines \<and> list_all2 recovered (utterances lines) (utterances lines') \<and>
     sorted_wrt not_before (filter outside_overlap (zip (utterances lines) (utterances lines'))) \<and>
     ur_injected result = length (filter newly_timed (zip (utterances lines) (utterances lines'))) \<and>
     ur_skipped result = length (filter (\<lambda>u. ut_bullet u \<noteq> None) (utterances lines)) \<and>
     ur_injected result + ur_skipped result + ur_unmatched result = length (utterances lines)"
proof (cases "tokens = []")
  case True
  have "not_before p q" if "outside_overlap p" "outside_overlap q" "p \<in> set (zip us us)" "q \<in> set (zip us us)"
    for p q and us :: "'a utr_utt_scheme list"
    using that by (auto simp: not_before_def outside_overlap_def in_set_zip)
  then have "sorted_wrt not_before (filter outside_overlap (zip us us))" for us :: "'a utr_utt_scheme list"
    by (induction us) (auto simp: not_before_def outside_overlap_def in_set_zip)
  moreover have "filter newly_timed (zip us us) = []" for us :: "'a utr_utt_scheme list"
    by (auto simp: filter_empty_conv newly_timed_def in_set_zip)
  moreover have "length (filter (\<lambda>u. ut_bullet u \<noteq> None) us) + length (filter (\<lambda>u. ut_bullet u = None) us) = length us"
    for us :: "'a utr_utt_scheme list"
    using sum_length_filter_compl [of "\<lambda>u. ut_bullet u \<noteq> None" us] by simp
  ultimately show ?thesis
    using True by (auto simp: run_global_utr_def utr_result_init_def recovered_def list_all2_refl)
next
  case False
  let ?us = "utterances lines" and ?infos = "collect_utr_utterance_info lines"
  let ?flat = "flatten_words skip ?infos"
  obtain strategy ranges where plan: "plan_utr_alignment U jw (map fst ?flat) (map at_text tokens) (map snd ?flat)
      (length ?infos) mode = Some (strategy, ranges)" using plan_total by blast
  let ?items = "zip (utt_line_indices 0 lines) (zip ?infos ranges)"
  obtain bs result where a: "assign_bullets tokens ?items utr_result_init = (bs, result)" by fastforce
  let ?final = "monotone_pass 0 (zip ?infos (zip (map ut_bullet ?us) bs))"
  have len: "length ?infos = length ?us" "length ranges = length ?us"
    using plan_length [OF plan] by (simp_all add: collect_utr_utterance_info_def)
  note facts = assign_bullets_facts [OF a]
  have bl: "length bs = length ?us" using facts len by (auto dest!: list_all2_lengthD)
  have items: "zip ?infos (zip (map ut_bullet ?us) bs) = map item_of (zip ?us bs)"
    by (rule nth_equalityI) (simp_all add: bl collect_utr_utterance_info_def)
  have "list_all consistent_item (map item_of (zip ?us bs))"
    using facts bl len
    by (auto simp: list_all_length list_all2_conv_all_nth consistent_item_def utr_utterance_info_def
        collect_utr_utterance_info_def)
  from monotone_pass_ok [OF this, of 0] have pass: "pass_ok 0 (map item_of (zip ?us bs)) ?final" by (simp add: items)
  then have fl: "length ?final = length ?us" by (simp add: pass_ok_def bl)
  have run: "run_global_utr U jw lines tokens skip mode = Some (result, apply_bullets lines ?final)"
    using False plan a by (simp add: run_global_utr_def Let_def)
  have skipped: "ur_skipped result = length (filter (\<lambda>u. ut_bullet u \<noteq> None) ?us)"
  proof -
    have "length (filter (\<lambda>(i, info, r). ui_has_bullet info) ?items) = length (filter ui_has_bullet ?infos)"
      by (rule count_middle) (simp_all add: len collect_utr_utterance_info_def)
    then show ?thesis
      using facts by (simp add: utr_result_init_def collect_utr_utterance_info_def filter_map o_def utr_utterance_info_def)
  qed
  show ?thesis
    using run apply_bullets_facts [OF fl] pass_result [OF pass bl] facts skipped len
    by (simp add: utr_result_init_def)
qed

end
