(* ===== verification/FaTiming.thy ===== *)
theory FaTiming
  imports Timing
begin

text \<open>
  \<^verbatim>\<open>taskrunners/fa.rs\<close>: the forced-alignment runner. It reuses a clean \<open>%wor\<close> tier, asks the backend
  for the other utterances, folds the word timings back onto each utterance as a \<open>%wor\<close> tier and
  repairs timing that runs backwards. The backend, the decoding of the audio and the file system are
  parameters; of a formatted error message only the fixed text is kept.
\<close>

section \<open>Stale review tiers\<close>

fun stale_review_tier :: "dep_tier \<Rightarrow> bool" where
  "stale_review_tier (UserTier label c) = (label = str ''xalign'' \<or> label = str ''xrev'')"
| "stale_review_tier (WorTier ws t) = False"
| "stale_review_tier (OtherTier x) = False"

definition strip_stale_fa_review_tiers :: "'a utt_scheme line list \<Rightarrow> 'a utt_scheme line list" where
  "strip_stale_fa_review_tiers lines =
     map_utts (\<lambda>u. u\<lparr>ut_tiers := filter (\<lambda>t. \<not> stale_review_tier t) (ut_tiers u)\<rparr>) lines"

section \<open>Reusing a complete alignment\<close>

definition MIN_REUSABLE_WORD_DURATION_MS :: nat where "MIN_REUSABLE_WORD_DURATION_MS = 40"
definition MIN_WORDS_FOR_DOMINANCE_CHECK :: nat where "MIN_WORDS_FOR_DOMINANCE_CHECK = 3"
definition MAX_REUSABLE_WORD_DURATION_PROPORTION :: rat where
  "MAX_REUSABLE_WORD_DURATION_PROPORTION = 2 / 5"

text \<open>The words of the \<open>%wor\<close> tier are the counted words of the main tier, in order.\<close>

definition wor_matches :: "wor_word list \<Rightarrow> rstr list \<Rightarrow> bool" where
  "wor_matches wor_words main_words \<longleftrightarrow>
     \<not> (length wor_words \<noteq> length main_words \<or>
        list_ex (\<lambda>(w, e). ww_text w \<noteq> e) (zip wor_words main_words))"

text \<open>The variables of the loop over the words of a tier; \<open>None\<close> is the early \<open>return false\<close>.\<close>

record wor_scan =
  ws_first_start :: "nat option"
  ws_last_end :: "nat option"
  ws_min_start :: "nat option"
  ws_max_end :: "nat option"
  ws_max_duration :: nat
  ws_previous_end :: "nat option"

definition wor_scan_init :: wor_scan where
  "wor_scan_init = \<lparr>ws_first_start = None, ws_last_end = None, ws_min_start = None, ws_max_end = None,
     ws_max_duration = 0, ws_previous_end = None\<rparr>"

definition map_or :: "'b \<Rightarrow> ('a \<Rightarrow> 'b) \<Rightarrow> 'a option \<Rightarrow> 'b" where
  "map_or d f x = (case x of None \<Rightarrow> d | Some a \<Rightarrow> f a)"

definition wor_scan_word :: "wor_word \<Rightarrow> wor_scan \<Rightarrow> wor_scan option" where
  "wor_scan_word w st =
     (case ww_bullet w of
        None \<Rightarrow> None
      | Some b \<Rightarrow>
          if bl_end b - bl_start b < MIN_REUSABLE_WORD_DURATION_MS then None
          else if map_or False (\<lambda>previous_end. bl_start b < previous_end) (ws_previous_end st) then None
          else
            let duration_ms = bl_end b - bl_start b
            in Some \<lparr>ws_first_start = (case ws_first_start st of None \<Rightarrow> Some (bl_start b) | Some x \<Rightarrow> Some x),
                  ws_last_end = Some (bl_end b),
                  ws_min_start = Some (map_or (bl_start b) (\<lambda>s. min s (bl_start b)) (ws_min_start st)),
                  ws_max_end = Some (map_or (bl_end b) (\<lambda>e. max e (bl_end b)) (ws_max_end st)),
                  ws_max_duration = max (ws_max_duration st) duration_ms,
                  ws_previous_end = Some (bl_end b)\<rparr>)"

fun wor_scan_words :: "wor_word list \<Rightarrow> wor_scan \<Rightarrow> wor_scan option" where
  "wor_scan_words [] st = Some st"
| "wor_scan_words (w # ws) st =
     (case wor_scan_word w st of None \<Rightarrow> None | Some st' \<Rightarrow> wor_scan_words ws st')"

text \<open>\<open>d as f64 / s as f64 > 0.4\<close>; below \<open>2 ^ 50\<close> milliseconds the rounded quotient compares exactly.\<close>

definition dominant :: "nat \<Rightarrow> nat \<Rightarrow> bool" where
  "dominant maximum_duration_ms span_ms \<longleftrightarrow>
     span_ms > 0 \<and> of_nat maximum_duration_ms / of_nat span_ms > MAX_REUSABLE_WORD_DURATION_PROPORTION"

datatype refresh_verdict = NoWords | Reject | Refresh nat nat

definition refresh_utterance :: "'a utt_scheme \<Rightarrow> refresh_verdict" where
  "refresh_utterance u =
     (let main_words = map sw_text (ut_words u)
      in if main_words = [] then NoWords
         else case wor_tier (ut_tiers u) of
           None \<Rightarrow> Reject
         | Some wor_words \<Rightarrow>
             if \<not> wor_matches wor_words main_words then Reject
             else case wor_scan_words wor_words wor_scan_init of
               None \<Rightarrow> Reject
             | Some st \<Rightarrow>
                 if length wor_words \<ge> MIN_WORDS_FOR_DOMINANCE_CHECK \<and>
                    dominant (ws_max_duration st) (the (ws_max_end st) - the (ws_min_start st)) then Reject
                 else Refresh (the (ws_first_start st)) (the (ws_last_end st)))"

text \<open>The loop over the lines: \<open>None\<close> is \<open>return false\<close>, else \<open>saw_words\<close> and \<open>refreshed\<close>.\<close>

fun refresh_scan :: "nat \<Rightarrow> 'a utt_scheme line list \<Rightarrow> (bool \<times> (nat \<times> nat \<times> nat) list) option" where
  "refresh_scan i [] = Some (False, [])"
| "refresh_scan i (HeaderLine h # ls) = refresh_scan (Suc i) ls"
| "refresh_scan i (UtteranceLine u # ls) =
     (case refresh_utterance u of
        NoWords \<Rightarrow> refresh_scan (Suc i) ls
      | Reject \<Rightarrow> None
      | Refresh s e \<Rightarrow>
          (case refresh_scan (Suc i) ls of
             None \<Rightarrow> None
           | Some (saw, refreshed) \<Rightarrow> Some (True, (i, s, e) # refreshed)))"

fun next_bullet_start :: "'a utt_scheme line list \<Rightarrow> nat option" where
  "next_bullet_start [] = None"
| "next_bullet_start (HeaderLine h # ls) = next_bullet_start ls"
| "next_bullet_start (UtteranceLine u # ls) =
     (case ut_bullet u of Some b \<Rightarrow> Some (bl_start b) | None \<Rightarrow> next_bullet_start ls)"

definition overruns_next :: "'a utt_scheme line list \<Rightarrow> nat \<times> nat \<times> nat \<Rightarrow> bool" where
  "overruns_next lines r = (case r of (line_index, s, end_ms) \<Rightarrow>
     map_or False (\<lambda>next_start. end_ms > next_start) (next_bullet_start (drop (line_index + 1) lines)))"

text \<open>\<open>Bullet::new\<close>; the source it records is the document crate's, the parameter \<open>ns\<close>.\<close>

definition bullet_new :: "bullet_source \<Rightarrow> nat \<Rightarrow> nat \<Rightarrow> bullet" where
  "bullet_new ns s e = \<lparr>bl_start = s, bl_end = e, bl_source = ns\<rparr>"

definition set_line_bullet :: "bullet_source \<Rightarrow> nat \<times> nat \<times> nat \<Rightarrow> 'a utt_scheme line list \<Rightarrow> 'a utt_scheme line list" where
  "set_line_bullet ns r lines = (case r of (line_index, s, e) \<Rightarrow>
     (case lines ! line_index of
        UtteranceLine u \<Rightarrow> lines[line_index := UtteranceLine (u\<lparr>ut_bullet := Some (bullet_new ns s e)\<rparr>)]
      | HeaderLine h \<Rightarrow> lines))"

definition refresh_complete_wor_alignment ::
    "bullet_source \<Rightarrow> 'a utt_scheme line list \<Rightarrow> bool \<times> 'a utt_scheme line list" where
  "refresh_complete_wor_alignment ns lines =
     (case refresh_scan 0 lines of
        None \<Rightarrow> (False, lines)
      | Some (saw_words, refreshed) \<Rightarrow>
          if \<not> saw_words then (False, lines)
          else if list_ex (overruns_next lines) refreshed then (False, lines)
          else (True, fold (set_line_bullet ns) refreshed lines))"

section \<open>Reusing single utterances\<close>

text \<open>
  The loop from the last utterance to the first; the second component is \<open>next_timed_start\<close> after it.
\<close>

fun next_starts_loop :: "'a utt_scheme list \<Rightarrow> nat option list \<times> nat option" where
  "next_starts_loop [] = ([], None)"
| "next_starts_loop (u # us) =
     (case next_starts_loop us of (next_starts, next_timed_start) \<Rightarrow>
       (next_timed_start # next_starts,
        (case ut_bullet u of Some b \<Rightarrow> Some (bl_start b) | None \<Rightarrow> next_timed_start)))"

text \<open>The loop over the words: \<open>None\<close> is the early \<open>return None\<close>, else the words and the longest one.\<close>

fun reuse_words :: "wor_word list \<Rightarrow> nat option \<Rightarrow> nat \<Rightarrow> (timed_word list \<times> nat) option" where
  "reuse_words [] previous_end maximum_duration = Some ([], maximum_duration)"
| "reuse_words (w # ws) previous_end maximum_duration =
     (case ww_bullet w of
        None \<Rightarrow> None
      | Some b \<Rightarrow>
          let duration_ms = bl_end b - bl_start b
          in if duration_ms < MIN_REUSABLE_WORD_DURATION_MS \<or>
                map_or False (\<lambda>p. bl_start b < p) previous_end then None
             else map_option (\<lambda>(words, m).
                  (\<lparr>tw_text = ww_text w, tw_start = bl_start b, tw_end = bl_end b, tw_confidence = None\<rparr> # words, m))
                (reuse_words ws (Some (bl_end b)) (max maximum_duration duration_ms)))"

definition reuse_segment :: "'a utt_scheme \<Rightarrow> nat option \<Rightarrow> segment option" where
  "reuse_segment u next_start =
     (let main_words = map sw_text (ut_words u)
      in if main_words = [] then None
         else case wor_tier (ut_tiers u) of
           None \<Rightarrow> None
         | Some wor_words \<Rightarrow>
             if \<not> wor_matches wor_words main_words then None
             else case reuse_words wor_words None 0 of
               None \<Rightarrow> None
             | Some (words, maximum_duration_ms) \<Rightarrow>
                 if words = [] then None
                 else
                   let start_ms = tw_start (hd words); end_ms = tw_end (last words)
                   in if length words \<ge> MIN_WORDS_FOR_DOMINANCE_CHECK \<and>
                         dominant maximum_duration_ms (end_ms - start_ms) then None
                      else if map_or False (\<lambda>n. end_ms > n) next_start then None
                      else Some \<lparr>sg_start = start_ms, sg_end = end_ms,
                        sg_text = join (str '' '') (map tw_text words),
                        sg_speaker = Some (ut_speaker u), sg_words = words\<rparr>)"

definition collect_reusable_wor_segments :: "'a utt_scheme line list \<Rightarrow> segment option list" where
  "collect_reusable_wor_segments lines =
     (let us = utterances lines
      in map2 reuse_segment us (fst (next_starts_loop us)))"

fun merge_loop :: "segment option list \<Rightarrow> segment list \<Rightarrow> (segment list \<times> segment list) ba_result" where
  "merge_loop [] fresh = Inr ([], fresh)"
| "merge_loop (Some s # rs) fresh = bind_res (merge_loop rs fresh) (\<lambda>(merged, rest). Inr (s # merged, rest))"
| "merge_loop (None # rs) [] = Inl (InternalError (str ''FA: missing fresh segment during partial reuse''))"
| "merge_loop (None # rs) (f # fresh) =
     bind_res (merge_loop rs fresh) (\<lambda>(merged, rest). Inr (f # merged, rest))"

definition merge_reused_and_fresh_segments :: "segment option list \<Rightarrow> segment list \<Rightarrow> segment list ba_result" where
  "merge_reused_and_fresh_segments reused fresh =
     bind_res (merge_loop reused fresh) (\<lambda>(merged, rest).
       if rest \<noteq> [] then Inl (InternalError (str ''FA: extra fresh segment during partial reuse''))
       else Inr merged)"

section \<open>The request\<close>

definition untimed_word :: "rstr \<Rightarrow> timed_word" where
  "untimed_word t = \<lparr>tw_text = t, tw_start = 0, tw_end = 0, tw_confidence = None\<rparr>"

definition extract_utterance :: "'a utt_scheme \<Rightarrow> segment" where
  "extract_utterance u =
     (let words = map untimed_word (filter (\<lambda>t. t \<noteq> []) (concat (map split_compound_filler (ut_words u))));
          bounds = (case ut_bullet u of Some b \<Rightarrow> (bl_start b, bl_end b) | None \<Rightarrow> (0, 0))
      in \<lparr>sg_start = fst bounds, sg_end = snd bounds, sg_text = join (str '' '') (map tw_text words),
          sg_speaker = Some (ut_speaker u), sg_words = words\<rparr>)"

definition extract_utterances_for_fa :: "'a utt_scheme line list \<Rightarrow> segment list" where
  "extract_utterances_for_fa lines = map extract_utterance (utterances lines)"

definition fresh_utterances :: "segment list \<Rightarrow> segment option list \<Rightarrow> segment list" where
  "fresh_utterances segs reusable = map fst (filter (\<lambda>(s, r). r = None) (zip segs reusable))"

section \<open>Folding the timings back\<close>

text \<open>The span of the words with a positive duration, a fold of minimum and maximum.\<close>

definition widen :: "(nat \<times> nat) option \<Rightarrow> timed_word \<Rightarrow> (nat \<times> nat) option" where
  "widen acc part = Some (case acc of
       Some (s, e) \<Rightarrow> (min s (tw_start part), max e (tw_end part))
     | None \<Rightarrow> (tw_start part, tw_end part))"

definition timed_word_span :: "timed_word list \<Rightarrow> (nat \<times> nat) option" where
  "timed_word_span parts = foldl widen None (filter (\<lambda>p. tw_end p > tw_start p) parts)"

text \<open>\<open>cursor\<close> of the loop is kept as the rest of the aligned words.\<close>

fun collapse_loop :: "bullet_source \<Rightarrow> fa_word list \<Rightarrow> timed_word list \<Rightarrow>
    (wor_word list \<times> timed_word list) ba_result" where
  "collapse_loop ns [] aligned = Inr ([], aligned)"
| "collapse_loop ns (w # ws) aligned =
     (let part_count = length (split_compound_filler w)
      in if length aligned < part_count
         then Inl (InternalError (str ''FA: missing aligned token(s) for source word''))
         else
           let parts = take part_count aligned;
               word = \<lparr>ww_text = sw_text w,
                 ww_bullet = map_option (\<lambda>(s, e). bullet_new ns s e) (timed_word_span parts)\<rparr>
           in bind_res (collapse_loop ns ws (drop part_count aligned))
                (\<lambda>(words, rest). Inr (word # words, rest)))"

definition collapse_aligned_words :: "bullet_source \<Rightarrow> fa_word list \<Rightarrow> timed_word list \<Rightarrow> wor_word list ba_result" where
  "collapse_aligned_words ns content aligned =
     bind_res (collapse_loop ns content aligned) (\<lambda>(words, rest).
       if rest \<noteq> [] then Inl (InternalError (str ''FA: expanded word/output count mismatch''))
       else Inr words)"

definition word_is_timed :: "wor_word \<Rightarrow> bool" where
  "word_is_timed w = (case ww_bullet w of None \<Rightarrow> False | Some b \<Rightarrow> bl_end b > bl_start b)"

fun leading_filler_loop :: "(fa_word \<times> wor_word) list \<Rightarrow> bool" where
  "leading_filler_loop [] = False"
| "leading_filler_loop ((category, aligned_word) # rest) =
     (if word_is_timed aligned_word then False
      else if sw_filler category then True
      else leading_filler_loop rest)"

definition has_untimed_leading_filler_coverage :: "fa_word list \<Rightarrow> wor_word list \<Rightarrow> bool" where
  "has_untimed_leading_filler_coverage content aligned_words = leading_filler_loop (zip content aligned_words)"

definition MIN_WORD_DURATION_MS :: nat where "MIN_WORD_DURATION_MS = 40"

text \<open>One step of \<open>rebalance_near_zero_words_from_following\<close>: \<open>current\<close> and the word after it.\<close>

definition rebalance_following :: "wor_word \<Rightarrow> wor_word \<Rightarrow> wor_word \<times> wor_word" where
  "rebalance_following current next' =
     (case (ww_bullet current, ww_bullet next') of
        (Some c, Some n) \<Rightarrow>
          (let duration_ms = bl_end c - bl_start c
           in if duration_ms = 0 \<or> duration_ms \<ge> MIN_WORD_DURATION_MS then (current, next')
              else
                let repaired_boundary = bl_start c + MIN_WORD_DURATION_MS
                in if bl_start n \<le> bl_end c \<and> repaired_boundary < bl_end n
                   then (current\<lparr>ww_bullet := Some (c\<lparr>bl_end := repaired_boundary\<rparr>)\<rparr>,
                         next'\<lparr>ww_bullet := Some (n\<lparr>bl_start := repaired_boundary\<rparr>)\<rparr>)
                   else (current, next'))
      | (_, _) \<Rightarrow> (current, next'))"

fun rebalance_near_zero_words_from_following :: "wor_word list \<Rightarrow> wor_word list" where
  "rebalance_near_zero_words_from_following [] = []"
| "rebalance_near_zero_words_from_following [w] = [w]"
| "rebalance_near_zero_words_from_following (current # next' # ws) =
     (case rebalance_following current next' of (c, n) \<Rightarrow>
        c # rebalance_near_zero_words_from_following (n # ws))"

definition rebalance_preceding :: "wor_word \<Rightarrow> wor_word \<Rightarrow> wor_word \<times> wor_word" where
  "rebalance_preceding previous current =
     (case (ww_bullet previous, ww_bullet current) of
        (Some p, Some c) \<Rightarrow>
          (let duration_ms = bl_end c - bl_start c
           in if duration_ms = 0 \<or> duration_ms \<ge> MIN_WORD_DURATION_MS then (previous, current)
              else if bl_end c < MIN_WORD_DURATION_MS then (previous, current)
              else
                let repaired_boundary = bl_end c - MIN_WORD_DURATION_MS
                in if bl_start c \<le> bl_end p \<and> repaired_boundary > bl_start p
                   then (previous\<lparr>ww_bullet := Some (p\<lparr>bl_end := repaired_boundary\<rparr>)\<rparr>,
                         current\<lparr>ww_bullet := Some (c\<lparr>bl_start := repaired_boundary\<rparr>)\<rparr>)
                   else (previous, current))
      | (_, _) \<Rightarrow> (previous, current))"

fun rebalance_near_zero_words_from_preceding :: "wor_word list \<Rightarrow> wor_word list" where
  "rebalance_near_zero_words_from_preceding [] = []"
| "rebalance_near_zero_words_from_preceding [w] = [w]"
| "rebalance_near_zero_words_from_preceding (previous # current # ws) =
     (case rebalance_preceding previous current of (p, c) \<Rightarrow>
        p # rebalance_near_zero_words_from_preceding (c # ws))"

definition replace_wor_tier :: "dep_tier \<Rightarrow> dep_tier list \<Rightarrow> dep_tier list" where
  "replace_wor_tier wor tiers =
     (let kept = filter (\<lambda>t. \<not> is_wor t) tiers
      in case position is_wor tiers of
           Some i \<Rightarrow> insert_at (min i (length kept)) wor kept
         | None \<Rightarrow> kept @ [wor])"

definition MAX_AUTHORITATIVE_START_LEAD_MS :: nat where "MAX_AUTHORITATIVE_START_LEAD_MS = 2000"

text \<open>The bullet of the utterance after its words have been timed.\<close>

definition refined_bullet ::
    "bullet_source \<Rightarrow> bullet option \<Rightarrow> bool \<Rightarrow> bool \<Rightarrow> (nat \<times> nat) option \<Rightarrow> bullet option" where
  "refined_bullet ns old had_wor_tier untimed_leading_filler word_span =
     (case word_span of
        Some (word_start_ms, word_end_ms) \<Rightarrow>
          (case old of
             Some b \<Rightarrow>
               (case bl_source b of
                  UtrSource \<Rightarrow> Some (bullet_new ns word_start_ms word_end_ms)
                | Authoritative \<Rightarrow>
                    (let start_lead_ms = word_start_ms - bl_start b;
                         start_ms = (if had_wor_tier \<and> \<not> untimed_leading_filler \<and>
                                        start_lead_ms > MAX_AUTHORITATIVE_START_LEAD_MS
                                     then word_start_ms else min (bl_start b) word_start_ms)
                     in Some (bullet_new ns start_ms (max (bl_end b) word_end_ms)))
                | OtherSource \<Rightarrow> Some (bullet_new ns word_start_ms word_end_ms))
           | None \<Rightarrow> Some (bullet_new ns word_start_ms word_end_ms))
      | None \<Rightarrow>
          (case old of
             Some b \<Rightarrow> if bl_source b = Authoritative \<and> bl_end b \<le> bl_start b then None else old
           | None \<Rightarrow> None))"

definition inject_utterance :: "bullet_source \<Rightarrow> 'a utt_scheme \<Rightarrow> segment \<Rightarrow> 'a utt_scheme ba_result" where
  "inject_utterance ns u seg =
     (if sg_words seg = [] then Inr u
      else bind_res (collapse_aligned_words ns (ut_words u) (sg_words seg)) (\<lambda>words0.
        let had_wor_tier = list_ex is_wor (ut_tiers u);
            words = rebalance_near_zero_words_from_preceding (rebalance_near_zero_words_from_following words0);
            untimed_leading_filler = has_untimed_leading_filler_coverage (ut_words u) words;
            wor = WorTier words (ut_terminator u)
        in Inr (u\<lparr>ut_tiers := replace_wor_tier wor (ut_tiers u),
             ut_bullet := refined_bullet ns (ut_bullet u) had_wor_tier untimed_leading_filler
               (timed_word_span (sg_words seg))\<rparr>)))"

text \<open>
  The loop over the lines with \<open>idx\<close> as the rest of \<open>aligned\<close>. An error leaves the lines before it
  changed, so the lines are returned with it.
\<close>

fun inject_loop :: "bullet_source \<Rightarrow> 'a utt_scheme line list \<Rightarrow> segment list \<Rightarrow>
    segment list ba_result \<times> 'a utt_scheme line list" where
  "inject_loop ns [] aligned = (Inr aligned, [])"
| "inject_loop ns (HeaderLine h # ls) aligned =
     (case inject_loop ns ls aligned of (r, ls') \<Rightarrow> (r, HeaderLine h # ls'))"
| "inject_loop ns (UtteranceLine u # ls) [] =
     (Inl (InternalError (str ''FA: missing aligned segment for utterance'')), UtteranceLine u # ls)"
| "inject_loop ns (UtteranceLine u # ls) (seg # aligned) =
     (case inject_utterance ns u seg of
        Inl e \<Rightarrow> (Inl e, UtteranceLine u # ls)
      | Inr u' \<Rightarrow> (case inject_loop ns ls aligned of (r, ls') \<Rightarrow> (r, UtteranceLine u' # ls')))"

definition inject_word_timings :: "bullet_source \<Rightarrow> 'a utt_scheme line list \<Rightarrow> segment list \<Rightarrow>
    unit ba_result \<times> 'a utt_scheme line list" where
  "inject_word_timings ns lines aligned =
     (case inject_loop ns lines aligned of
        (Inl e, lines') \<Rightarrow> (Inl e, lines')
      | (Inr rest, lines') \<Rightarrow>
          if rest \<noteq> [] then (Inl (InternalError (str ''FA: utterance/output count mismatch'')), lines')
          else (Inr (), lines'))"

section \<open>Timing that runs backwards\<close>

record monotonicity_repairs =
  mr_stripped :: nat
  mr_clamped :: nat

definition strip_timing :: "'a utt_scheme \<Rightarrow> 'a utt_scheme" where
  "strip_timing u = u\<lparr>ut_bullet := None, ut_tiers := filter (\<lambda>t. \<not> is_wor t) (ut_tiers u)\<rparr>"

text \<open>The first loop: the lines and the number of utterances stripped.\<close>

fun strip_backward :: "nat \<Rightarrow> 'a utt_scheme line list \<Rightarrow> 'a utt_scheme line list \<times> nat" where
  "strip_backward last_start [] = ([], 0)"
| "strip_backward last_start (HeaderLine h # ls) =
     (case strip_backward last_start ls of (ls', n) \<Rightarrow> (HeaderLine h # ls', n))"
| "strip_backward last_start (UtteranceLine u # ls) =
     (case ut_bullet u of
        None \<Rightarrow> (case strip_backward last_start ls of (ls', n) \<Rightarrow> (UtteranceLine u # ls', n))
      | Some b \<Rightarrow>
          if bl_start b < last_start
          then (case strip_backward last_start ls of (ls', n) \<Rightarrow> (UtteranceLine (strip_timing u) # ls', n + 1))
          else (case strip_backward (bl_start b) ls of (ls', n) \<Rightarrow> (UtteranceLine u # ls', n)))"

text \<open>The indices and starts of the timed utterances, taken before the second loop.\<close>

fun timed_starts :: "nat \<Rightarrow> 'a utt_scheme line list \<Rightarrow> (nat \<times> nat) list" where
  "timed_starts i [] = []"
| "timed_starts i (HeaderLine h # ls) = timed_starts (Suc i) ls"
| "timed_starts i (UtteranceLine u # ls) =
     (case ut_bullet u of
        None \<Rightarrow> timed_starts (Suc i) ls
      | Some b \<Rightarrow> (i, bl_start b) # timed_starts (Suc i) ls)"

text \<open>One window of two, and the loop over the windows.\<close>

definition clamp_step :: "nat \<Rightarrow> nat \<Rightarrow> 'a utt_scheme line list \<times> monotonicity_repairs \<Rightarrow>
    'a utt_scheme line list \<times> monotonicity_repairs" where
  "clamp_step previous_index next_start acc = (case acc of (lines, repairs) \<Rightarrow>
     (case lines ! previous_index of
        HeaderLine h \<Rightarrow> (lines, repairs)
      | UtteranceLine u \<Rightarrow>
          (case ut_bullet u of
             None \<Rightarrow> (lines, repairs)
           | Some b \<Rightarrow>
               if bl_end b \<le> next_start then (lines, repairs)
               else if next_start \<le> bl_start b
               then (lines[previous_index := UtteranceLine (strip_timing u)],
                     repairs\<lparr>mr_stripped := mr_stripped repairs + 1\<rparr>)
               else (lines[previous_index := UtteranceLine (u\<lparr>ut_bullet := Some (b\<lparr>bl_end := next_start\<rparr>)\<rparr>)],
                     repairs\<lparr>mr_clamped := mr_clamped repairs + 1\<rparr>))))"

fun clamp_windows :: "(nat \<times> nat) list \<Rightarrow> 'a utt_scheme line list \<times> monotonicity_repairs \<Rightarrow>
    'a utt_scheme line list \<times> monotonicity_repairs" where
  "clamp_windows [] acc = acc"
| "clamp_windows [p] acc = acc"
| "clamp_windows (p # q # ps) acc = clamp_windows (q # ps) (clamp_step (fst p) (snd q) acc)"

definition enforce_fa_monotonicity :: "'a utt_scheme line list \<Rightarrow> 'a utt_scheme line list \<times> monotonicity_repairs" where
  "enforce_fa_monotonicity lines =
     (case strip_backward 0 lines of (lines1, stripped) \<Rightarrow>
       clamp_windows (timed_starts 0 lines1) (lines1, \<lparr>mr_stripped = stripped, mr_clamped = 0\<rparr>))"

section \<open>The runner\<close>

text \<open>
  \<open>fe_options_skip\<close> is \<open>skips_alignment()\<close> on the options of the document, \<open>fe_sibling\<close> the lookup of
  the audio beside the file, \<open>fe_prepare_pcm\<close> the decoding, \<open>fe_dispatch\<close> the engine: its answer, the
  ticks of the backend and the new state of the engine.
\<close>

record 'p fa_input =
  fi_source_id :: rstr
  fi_audio :: 'p
  fi_utterances :: "segment list"
  fi_language :: language_spec

record ('a, 'p, 's) fa_env =
  fe_options_skip :: "'a utt_scheme chat \<Rightarrow> bool"
  fe_primary_language :: "'a utt_scheme chat \<Rightarrow> rstr option"
  fe_sibling :: "'a utt_scheme chat \<Rightarrow> media_input option"
  fe_prepare_pcm :: "media_input \<Rightarrow> rstr + 'p"
  fe_dispatch :: "'p fa_input \<Rightarrow> 's \<Rightarrow> (segment list) task_output ba_result \<times> (nat \<times> nat) list \<times> 's"
  fe_new_source :: bullet_source

text \<open>What remains after the dispatch: the result and the lines, changed or not.\<close>

definition fa_fold_back :: "bullet_source \<Rightarrow> 'a utt_scheme line list \<Rightarrow> segment option list \<Rightarrow>
    (segment list) task_output ba_result \<Rightarrow> unit ba_result \<times> 'a utt_scheme line list" where
  "fa_fold_back ns lines reusable answer =
     (case bind_res answer (\<lambda>out. bind_res (try_from_output Fa out)
        (\<lambda>fresh. merge_reused_and_fresh_segments reusable fresh)) of
        Inl e \<Rightarrow> (Inl e, lines)
      | Inr aligned \<Rightarrow>
          (case inject_word_timings ns lines aligned of
             (Inl e, lines') \<Rightarrow> (Inl e, lines')
           | (Inr _, lines') \<Rightarrow> (Inr (), clear_media_unlinked (fst (enforce_fa_monotonicity lines')))))"

definition fa_apply_chat :: "('a, 'p, 's) fa_env \<Rightarrow> 'a utt_scheme chat \<Rightarrow> 's \<Rightarrow>
    unit ba_result \<times> 'a utt_scheme chat \<times> progress_event list \<times> 's" where
  "fa_apply_chat E chat s =
     (if fe_options_skip E chat then (Inr (), chat, [], s)
      else
        let chat1 = chat\<lparr>ch_lines := strip_stale_fa_review_tiers (ch_lines chat)\<rparr>;
            refreshed = refresh_complete_wor_alignment (fe_new_source E) (ch_lines chat1);
            sid = ch_source_id chat1
        in if fst refreshed
           then (Inr (), chat1\<lparr>ch_lines := clear_media_unlinked (snd refreshed)\<rparr>, [], s)
           else
             case (case ch_media chat1 of Some m \<Rightarrow> Some m | None \<Rightarrow> fe_sibling E chat1) of
               None \<Rightarrow> (Inl (InternalError
                 (str ''FaTaskRunner: chat has no attached media and no sibling audio file found'')), chat1, [], s)
             | Some media \<Rightarrow>
                 (case fe_prepare_pcm E media of
                    Inl m \<Rightarrow> (Inl (InternalError (str ''audio_prep: '' @ m)), chat1, [stage_started sid Fa], s)
                  | Inr audio \<Rightarrow>
                      let reusable = collect_reusable_wor_segments (ch_lines chat1);
                          input = \<lparr>fi_source_id = sid, fi_audio = audio,
                            fi_utterances = fresh_utterances (extract_utterances_for_fa (ch_lines chat1)) reusable,
                            fi_language = resolve_per_file_language (fe_primary_language E chat1)\<rparr>;
                          (progress, floor_event) = start_step (scaled_progress_new sid Fa 1);
                          (answer, ticks, s') = fe_dispatch E input s;
                          events = [stage_started sid Fa, floor_event] @ map (\<lambda>(i, n). tick progress i n) ticks;
                          (result, lines') = fa_fold_back (fe_new_source E) (ch_lines chat1) reusable answer
                      in (result, chat1\<lparr>ch_lines := lines'\<rparr>,
                          events @ (case result of Inl e \<Rightarrow> []
                            | Inr _ \<Rightarrow> [finish_progress progress, stage_injected sid Fa]), s')))"

definition fa_apply :: "('a, 'p, 's) fa_env \<Rightarrow> 'a utt_scheme ba_value \<Rightarrow> 's \<Rightarrow>
    unit ba_result \<times> 'a utt_scheme ba_value \<times> progress_event list \<times> 's" where
  "fa_apply E value s =
     (case value of
        Chat chat \<Rightarrow> (case fa_apply_chat E chat s of (r, chat', events, s') \<Rightarrow> (r, Chat chat', events, s'))
      | Failed sid e p \<Rightarrow> (Inr (), value, [], s)
      | other \<Rightarrow> (Inl (InternalError
          (str ''FaTaskRunner: expected BAValue::Chat, got '' @ value_kind other)), value, [], s))"

end
