(* ===== verification/UtrTwoPass.thy ===== *)
theory UtrTwoPass
  imports UtrRecovery FaTiming
begin

text \<open>
  \<^verbatim>\<open>taskrunners/utr/two_pass.rs\<close>: the strategy that leaves overlapping utterances out of the first pass
  and looks for them afterwards in a window around the utterance before. The default selector does not
  use it; it is exported. \<open>f64\<close> fractions are exact rationals.
\<close>

section \<open>Configuration\<close>

datatype ca_marker_policy = CaEnabled | CaDisabled

definition ca_is_enabled :: "ca_marker_policy \<Rightarrow> bool" where
  "ca_is_enabled p = (case p of CaEnabled \<Rightarrow> True | CaDisabled \<Rightarrow> False)"

datatype utr_match_mode = UtrExact | UtrFuzzy rat

definition to_dp_match_mode :: "utr_match_mode \<Rightarrow> match_mode" where
  "to_dp_match_mode m = (case m of UtrExact \<Rightarrow> CaseInsensitive | UtrFuzzy t \<Rightarrow> Fuzzy t)"

record two_pass_config =
  tp_ca_markers :: ca_marker_policy
  tp_max_exclusion_density :: rat
  tp_tight_buffer_ms :: nat
  tp_match_mode :: utr_match_mode

definition two_pass_config_default :: two_pass_config where
  "two_pass_config_default = \<lparr>tp_ca_markers = CaEnabled, tp_max_exclusion_density = 30 / 100,
     tp_tight_buffer_ms = 500, tp_match_mode = UtrFuzzy (85 / 100)\<rparr>"

section \<open>Windows\<close>

text \<open>The loops run from the utterance before down to the first: \<open>preceding\<close> is in that order.\<close>

fun first_top_onset :: "nat option list \<Rightarrow> (nat option \<times> rat) list \<Rightarrow> rat option" where
  "first_top_onset bottom_indices [] = None"
| "first_top_onset bottom_indices ((top_index, fraction) # rest) =
     (if bottom_indices = [] then Some fraction
      else if mem top_index bottom_indices then Some fraction
      else first_top_onset bottom_indices rest)"

fun matching_onset :: "rstr \<Rightarrow> nat option list \<Rightarrow> utt_info list \<Rightarrow> rat option" where
  "matching_onset speaker bottom_indices [] = None"
| "matching_onset speaker bottom_indices (prev # preceding) =
     (if ui_speaker prev = speaker then matching_onset speaker bottom_indices preceding
      else (case first_top_onset bottom_indices (ui_top_onsets prev) of
         Some fraction \<Rightarrow> Some fraction
       | None \<Rightarrow> if ui_has_bullet prev then None else matching_onset speaker bottom_indices preceding))"

fun any_onset :: "utt_info list \<Rightarrow> rat option" where
  "any_onset [] = None"
| "any_onset (prev # preceding) =
     (case ui_overlap_onset_fraction prev of
        Some fraction \<Rightarrow> Some fraction
      | None \<Rightarrow> if ui_has_bullet prev then None else any_onset preceding)"

definition find_predecessor_onset_fraction :: "nat \<Rightarrow> utt_info list \<Rightarrow> rat option" where
  "find_predecessor_onset_fraction utt_idx infos =
     (let current = infos ! utt_idx; preceding = rev (take utt_idx infos)
      in case matching_onset (ui_speaker current) (ui_bottom_indices current) preceding of
           Some fraction \<Rightarrow> Some fraction
         | None \<Rightarrow> if ui_bottom_indices current = [] then any_onset preceding else None)"

fun first_bullet :: "(nat \<times> nat) option list \<Rightarrow> (nat \<times> nat) option" where
  "first_bullet [] = None"
| "first_bullet (Some b # bs) = Some b"
| "first_bullet (None # bs) = first_bullet bs"

definition find_predecessor_bullet :: "nat \<Rightarrow> (nat \<times> nat) option list \<Rightarrow> (nat \<times> nat) option" where
  "find_predecessor_bullet utt_idx bullets = first_bullet (rev (take utt_idx bullets))"

definition in_window :: "nat \<Rightarrow> nat \<Rightarrow> asr_token \<Rightarrow> bool" where
  "in_window window_start window_end t \<longleftrightarrow> at_start t < window_end \<and> at_end t > window_start"

text \<open>The span of the matched tokens: the least start and the greatest end.\<close>

definition widen_span :: "asr_token list \<Rightarrow> nat option \<times> nat option \<Rightarrow> nat \<times> nat \<Rightarrow> nat option \<times> nat option" where
  "widen_span windowed acc m = (case acc of (min_start, max_end) \<Rightarrow>
     let token = windowed ! snd m
     in ((case min_start of Some s \<Rightarrow> if at_start token < s then Some (at_start token) else Some s
           | None \<Rightarrow> Some (at_start token)),
         (case max_end of Some e \<Rightarrow> if at_end token > e then Some (at_end token) else Some e
           | None \<Rightarrow> Some (at_end token))))"

definition recover_overlap_timing :: "unicode \<Rightarrow> (rstr \<Rightarrow> rstr \<Rightarrow> rat) \<Rightarrow> rstr list \<Rightarrow> asr_token list \<Rightarrow> nat \<Rightarrow> nat \<Rightarrow>
    match_mode \<Rightarrow> (nat \<times> nat) option" where
  "recover_overlap_timing U jw ws tokens window_start window_end mode =
     (let windowed = filter (in_window window_start window_end) tokens
      in if windowed = [] then None
         else (case align U jw ws (map at_text windowed) mode of
            None \<Rightarrow> None
          | Some alignment \<Rightarrow>
              (case foldl (widen_span windowed) (None, None) (matched_pairs alignment) of
                 (Some s, Some e) \<Rightarrow> Some (s, e)
               | (_, _) \<Rightarrow> None)))"

fun try_buffers :: "(nat \<Rightarrow> (nat \<times> nat) option) \<Rightarrow> nat list \<Rightarrow> (nat \<times> nat) option" where
  "try_buffers attempt [] = None"
| "try_buffers attempt (b # bs) = (case attempt b of Some timing \<Rightarrow> Some timing | None \<Rightarrow> try_buffers attempt bs)"

definition recover_with_adaptive_window :: "unicode \<Rightarrow> (rstr \<Rightarrow> rstr \<Rightarrow> rat) \<Rightarrow> rstr list \<Rightarrow> asr_token list \<Rightarrow> nat \<Rightarrow>
    (nat \<times> nat) option list \<Rightarrow> rat option \<Rightarrow> two_pass_config \<Rightarrow> (nat \<times> nat) option" where
  "recover_with_adaptive_window U jw ws tokens utt_idx bullets onset_fraction config =
     (case find_predecessor_bullet utt_idx bullets of
        None \<Rightarrow> None
      | Some (pred_start, pred_end) \<Rightarrow>
          let pred_duration = pred_end - pred_start;
              anchor_start = (case onset_fraction of
                Some fraction \<Rightarrow> pred_start + nat \<lfloor>fraction * of_nat pred_duration\<rfloor>
              | None \<Rightarrow> pred_start)
          in try_buffers (\<lambda>buffer_ms. recover_overlap_timing U jw ws tokens (anchor_start - buffer_ms)
                 (pred_end + buffer_ms) (to_dp_match_mode (tp_match_mode config)))
               [tp_tight_buffer_ms config, max pred_duration 2000, max (pred_duration * 2) 5000])"

section \<open>The two passes\<close>

definition is_overlap_utt :: "two_pass_config \<Rightarrow> utt_info \<Rightarrow> bool" where
  "is_overlap_utt config info \<longleftrightarrow>
     ui_has_lazy_overlap info \<or> (ca_is_enabled (tp_ca_markers config) \<and> ui_has_ca_overlap info)"

definition skip_in_pass1 :: "two_pass_config \<Rightarrow> utt_info list \<Rightarrow> bool" where
  "skip_in_pass1 config infos =
     ((if length infos > 0
       then of_nat (length (filter (is_overlap_utt config) infos)) / of_nat (length infos) else 0)
      \<le> tp_max_exclusion_density config)"

definition pass2_attempt :: "unicode \<Rightarrow> (rstr \<Rightarrow> rstr \<Rightarrow> rat) \<Rightarrow> asr_token list \<Rightarrow> two_pass_config \<Rightarrow> utt_info list \<Rightarrow>
    (nat \<times> nat) option list \<Rightarrow> nat \<Rightarrow> (nat \<times> nat) option" where
  "pass2_attempt U jw tokens config infos bullets utt_idx =
     (let info = infos ! utt_idx
      in if \<not> is_overlap_utt config info \<or> ui_has_bullet info \<or> ui_words info = [] then None
         else recover_with_adaptive_window U jw (ui_words info) tokens utt_idx bullets
           (if ca_is_enabled (tp_ca_markers config) then find_predecessor_onset_fraction utt_idx infos else None)
           config)"

fun pass2_loop :: "(nat \<Rightarrow> (nat \<times> nat) option) \<Rightarrow> nat list \<Rightarrow> utr_result \<Rightarrow> (nat \<times> nat \<times> nat) list \<times> utr_result" where
  "pass2_loop attempt [] result = ([], result)"
| "pass2_loop attempt (i # is) result =
     (case attempt i of
        None \<Rightarrow> pass2_loop attempt is result
      | Some (s, e) \<Rightarrow>
          (case pass2_loop attempt is (result\<lparr>ur_unmatched := ur_unmatched result - 1,
              ur_injected := ur_injected result + 1\<rparr>) of
             (found, result') \<Rightarrow> ((i, s, e) # found, result')))"

text \<open>The loop over the lines with the peekable iterator over the recovered bullets.\<close>

fun apply_pass2 :: "bullet_source \<Rightarrow> nat \<Rightarrow> 'a utt_scheme line list \<Rightarrow> (nat \<times> nat \<times> nat) list \<Rightarrow> 'a utt_scheme line list" where
  "apply_pass2 ns utt_idx [] found = []"
| "apply_pass2 ns utt_idx (HeaderLine h # ls) found = HeaderLine h # apply_pass2 ns utt_idx ls found"
| "apply_pass2 ns utt_idx (UtteranceLine u # ls) [] = UtteranceLine u # apply_pass2 ns (Suc utt_idx) ls []"
| "apply_pass2 ns utt_idx (UtteranceLine u # ls) ((target_idx, s, e) # found) =
     (if utt_idx = target_idx
      then UtteranceLine (u\<lparr>ut_bullet := Some (bullet_new ns s e)\<rparr>) # apply_pass2 ns (Suc utt_idx) ls found
      else UtteranceLine u # apply_pass2 ns (Suc utt_idx) ls ((target_idx, s, e) # found))"

definition run_two_pass_inner :: "unicode \<Rightarrow> (rstr \<Rightarrow> rstr \<Rightarrow> rat) \<Rightarrow> bullet_source \<Rightarrow> 'a utr_utt_scheme line list \<Rightarrow>
    asr_token list \<Rightarrow> two_pass_config \<Rightarrow> (utr_result \<times> 'a utr_utt_scheme line list) option" where
  "run_two_pass_inner U jw ns lines tokens config =
     map_option (\<lambda>(result, lines1).
       if tokens = [] then (result, lines1)
       else
         let infos = collect_utr_utterance_info lines1;
             bullets = map (\<lambda>u. map_option (\<lambda>b. (bl_start b, bl_end b)) (ut_bullet u)) (utterances lines1);
             (found, result') = pass2_loop (pass2_attempt U jw tokens config infos bullets) [0..<length infos] result
         in (result', if found \<noteq> [] then apply_pass2 ns 0 lines1 found else lines1))
       (run_global_utr U jw lines tokens (skip_in_pass1 config (collect_utr_utterance_info lines))
         (to_dp_match_mode (tp_match_mode config)))"

definition count_timed_utterances :: "'a utt_scheme line list \<Rightarrow> nat" where
  "count_timed_utterances lines = length (filter (\<lambda>u. ut_bullet u \<noteq> None) (utterances lines))"

definition two_pass_inject :: "unicode \<Rightarrow> (rstr \<Rightarrow> rstr \<Rightarrow> rat) \<Rightarrow> bullet_source \<Rightarrow> 'a utr_utt_scheme line list \<Rightarrow>
    asr_token list \<Rightarrow> two_pass_config \<Rightarrow> (utr_result \<times> 'a utr_utt_scheme line list) option" where
  "two_pass_inject U jw ns lines tokens config =
     (case run_two_pass_inner U jw ns lines tokens config of
        None \<Rightarrow> None
      | Some (two_pass_result, two_pass_file) \<Rightarrow>
          (case run_global_utr U jw lines tokens False (to_dp_match_mode (tp_match_mode config)) of
             None \<Rightarrow> None
           | Some (global_result, global_file) \<Rightarrow>
               if count_timed_utterances two_pass_file \<ge> count_timed_utterances global_file
               then Some (two_pass_result, two_pass_file)
               else Some (global_result, global_file)))"

section \<open>Counts\<close>

lemma pass2_loop_found:
  "pass2_loop attempt is result = (found, result') \<Longrightarrow>
   map fst found = filter (\<lambda>i. attempt i \<noteq> None) is \<and>
   ur_injected result' = ur_injected result + length found \<and>
   ur_unmatched result' = ur_unmatched result - length found \<and> ur_skipped result' = ur_skipped result"
proof (induction attempt "is" result arbitrary: found result' rule: pass2_loop.induct)
  case (2 attempt i "is" result)
  show ?case
  proof (cases "attempt i")
    case None
    with 2(1) [OF None] 2(3) show ?thesis by simp
  next
    case (Some se)
    obtain s e where se: "se = (s, e)" by (cases se) auto
    let ?r = "result\<lparr>ur_unmatched := ur_unmatched result - 1, ur_injected := ur_injected result + 1\<rparr>"
    obtain f r where fr: "pass2_loop attempt is ?r = (f, r)" by fastforce
    from 2(2) [OF Some se [symmetric] fr] 2(3) Some se fr show ?thesis by auto
  qed
qed simp

text \<open>The saturating subtraction never saturates: a recovered utterance was counted as unmatched.\<close>

lemma pass2_keeps_total:
  assumes "pass2_loop (pass2_attempt U jw tokens config infos bullets) [0..<length infos] result = (found, result')"
    and "length (filter (\<lambda>info. \<not> ui_has_bullet info) infos) \<le> ur_unmatched result"
  shows "ur_injected result' + ur_skipped result' + ur_unmatched result' =
    ur_injected result + ur_skipped result + ur_unmatched result"
proof -
  let ?at = "pass2_attempt U jw tokens config infos bullets"
  have "length found = length (filter (\<lambda>i. ?at i \<noteq> None) [0..<length infos])"
    using arg_cong [OF conjunct1 [OF pass2_loop_found [OF assms(1)]], of length] by simp
  also have "\<dots> \<le> length (filter (\<lambda>i. \<not> ui_has_bullet (infos ! i)) [0..<length infos])"
  proof -
    have "?at i \<noteq> None \<Longrightarrow> \<not> ui_has_bullet (infos ! i)" for i
      by (auto simp: pass2_attempt_def Let_def split: if_splits)
    then have "filter (\<lambda>i. ?at i \<noteq> None) is =
        filter (\<lambda>i. ?at i \<noteq> None) (filter (\<lambda>i. \<not> ui_has_bullet (infos ! i)) is)" for "is"
      by (induction "is") auto
    then show ?thesis by (metis length_filter_le)
  qed
  also have "\<dots> = length (filter (\<lambda>info. \<not> ui_has_bullet info) infos)"
  proof -
    have "filter (\<lambda>info. \<not> ui_has_bullet info) (map (\<lambda>i. infos ! i) [0..<length infos]) =
        map (\<lambda>i. infos ! i) (filter (\<lambda>i. \<not> ui_has_bullet (infos ! i)) [0..<length infos])"
      by (simp add: filter_map o_def)
    then show ?thesis by (metis length_map map_nth)
  qed
  finally show ?thesis using assms(2) pass2_loop_found [OF assms(1)] by simp
qed

end
