(* ===== verification/FaReuse.thy ===== *)
theory FaReuse
  imports FaTiming
begin

text \<open>
  The two forms of \<open>%wor\<close> reuse of \<^verbatim>\<open>taskrunners/fa.rs\<close> compared: the whole-file fast path that only
  moves bullets, and the per-utterance form that decides what is dispatched. They were written twice
  with different bookkeeping; the lemmas show that they accept the same tiers. Then the merge of reused
  and fresh segments, and what a reused compound filler does to it.
\<close>

section \<open>One utterance\<close>

text \<open>What the loop of the fast path keeps: the extremes of the words are the first and the last.\<close>

definition scan_ordered :: "wor_scan \<Rightarrow> bool" where
  "scan_ordered st \<longleftrightarrow>
     ws_first_start st = ws_min_start st \<and> ws_last_end st = ws_max_end st \<and>
     ws_previous_end st = ws_max_end st \<and>
     (case (ws_min_start st, ws_max_end st) of
        (None, None) \<Rightarrow> True | (Some s, Some e) \<Rightarrow> s \<le> e | (_, _) \<Rightarrow> False)"

lemma wor_scan_init_simps [simp]:
  "ws_first_start wor_scan_init = None" "ws_last_end wor_scan_init = None"
  "ws_previous_end wor_scan_init = None" "ws_max_duration wor_scan_init = 0"
  by (simp_all add: wor_scan_init_def)

lemma scan_ordered_init: "scan_ordered wor_scan_init"
  by (simp add: scan_ordered_def wor_scan_init_def)

lemma scan_ordered_word:
  assumes "scan_ordered st" and "wor_scan_word w st = Some st'"
  shows "scan_ordered st'"
  using assms
  by (auto simp: scan_ordered_def wor_scan_word_def map_or_def Let_def MIN_REUSABLE_WORD_DURATION_MS_def
      min_def max_def split: option.splits if_splits)

lemma wor_scan_reuse:
  assumes "scan_ordered st"
  shows "case wor_scan_words ws st of
      None \<Rightarrow> reuse_words ws (ws_previous_end st) (ws_max_duration st) = None
    | Some st' \<Rightarrow> scan_ordered st' \<and> (\<exists>words.
        reuse_words ws (ws_previous_end st) (ws_max_duration st) = Some (words, ws_max_duration st') \<and>
        length words = length ws \<and> map tw_text words = map ww_text ws \<and>
        ws_first_start st' = (case ws_first_start st of Some x \<Rightarrow> Some x
          | None \<Rightarrow> (if words = [] then None else Some (tw_start (hd words)))) \<and>
        ws_last_end st' = (if words = [] then ws_last_end st else Some (tw_end (last words))))"
  using assms
proof (induction ws arbitrary: st)
  case Nil
  then show ?case by (auto split: option.splits)
next
  case (Cons w ws)
  show ?case
  proof (cases "wor_scan_word w st")
    case None
    then show ?thesis
      by (auto simp: wor_scan_word_def Let_def split: option.splits if_splits)
  next
    case (Some st1)
    obtain b where b: "ww_bullet w = Some b"
      and dur: "\<not> bl_end b - bl_start b < MIN_REUSABLE_WORD_DURATION_MS"
      and prev: "\<not> map_or False (\<lambda>p. bl_start b < p) (ws_previous_end st)"
      and st1: "ws_previous_end st1 = Some (bl_end b)"
        "ws_max_duration st1 = max (ws_max_duration st) (bl_end b - bl_start b)"
        "ws_first_start st1 = (case ws_first_start st of None \<Rightarrow> Some (bl_start b) | Some x \<Rightarrow> Some x)"
        "ws_last_end st1 = Some (bl_end b)"
      using Some by (auto simp: wor_scan_word_def Let_def split: option.splits if_splits)
    have reuse: "reuse_words (w # ws) (ws_previous_end st) (ws_max_duration st) =
        map_option (\<lambda>(words, m).
          (\<lparr>tw_text = ww_text w, tw_start = bl_start b, tw_end = bl_end b, tw_confidence = None\<rparr> # words, m))
          (reuse_words ws (ws_previous_end st1) (ws_max_duration st1))"
      using b dur prev by (simp add: st1 Let_def)
    have scan: "wor_scan_words (w # ws) st = wor_scan_words ws st1"
      by (simp add: Some)
    note IH = Cons.IH [OF scan_ordered_word [OF Cons.prems Some]]
    show ?thesis
    proof (cases "wor_scan_words ws st1")
      case None
      with IH show ?thesis by (simp add: scan reuse del: reuse_words.simps wor_scan_words.simps)
    next
      case (Some st2)
      with IH obtain words where o: "scan_ordered st2"
        and r: "reuse_words ws (ws_previous_end st1) (ws_max_duration st1) = Some (words, ws_max_duration st2)"
        and l: "length words = length ws" "map tw_text words = map ww_text ws"
        and f: "ws_first_start st2 = (case ws_first_start st1 of Some x \<Rightarrow> Some x
          | None \<Rightarrow> (if words = [] then None else Some (tw_start (hd words))))"
        and e: "ws_last_end st2 = (if words = [] then ws_last_end st1 else Some (tw_end (last words)))"
        by auto
      let ?word = "\<lparr>tw_text = ww_text w, tw_start = bl_start b, tw_end = bl_end b, tw_confidence = None\<rparr>"
      have "reuse_words (w # ws) (ws_previous_end st) (ws_max_duration st) =
          Some (?word # words, ws_max_duration st2)"
        unfolding reuse r by simp
      moreover have "ws_first_start st2 = (case ws_first_start st of Some x \<Rightarrow> Some x
          | None \<Rightarrow> Some (bl_start b))"
        using f st1(3) by (cases "ws_first_start st") simp_all
      moreover have "ws_last_end st2 = Some (tw_end (last (?word # words)))"
        using e st1(4) by simp
      ultimately show ?thesis
        unfolding scan Some option.case using o l
        by (intro conjI exI [of _ "?word # words"]) (simp_all del: reuse_words.simps split: option.splits)
    qed
  qed
qed

lemma scan_result:
  assumes "wor_scan_words ws wor_scan_init = Some st" and "ws \<noteq> []"
  obtains words where "reuse_words ws None 0 = Some (words, ws_max_duration st)"
    and "length words = length ws" and "words \<noteq> []" and "map tw_text words = map ww_text ws"
    and "ws_first_start st = Some (tw_start (hd words))" and "ws_last_end st = Some (tw_end (last words))"
    and "ws_min_start st = Some (tw_start (hd words))" and "ws_max_end st = Some (tw_end (last words))"
proof -
  have "scan_ordered st \<and> (\<exists>words. reuse_words ws None 0 = Some (words, ws_max_duration st) \<and>
      length words = length ws \<and> map tw_text words = map ww_text ws \<and>
      ws_first_start st = (if words = [] then None else Some (tw_start (hd words))) \<and>
      ws_last_end st = (if words = [] then None else Some (tw_end (last words))))"
    using wor_scan_reuse [OF scan_ordered_init, of ws] unfolding assms(1)
    by (simp only: option.case wor_scan_init_simps)
  then obtain words where st: "scan_ordered st" and w: "reuse_words ws None 0 = Some (words, ws_max_duration st)"
      "length words = length ws" "map tw_text words = map ww_text ws"
      "ws_first_start st = (if words = [] then None else Some (tw_start (hd words)))"
      "ws_last_end st = (if words = [] then None else Some (tw_end (last words)))" by blast
  from w(2) assms(2) have ne: "words \<noteq> []" by auto
  show thesis
  proof (rule that [OF w(1) w(2) ne w(3)])
    show "ws_first_start st = Some (tw_start (hd words))" and "ws_last_end st = Some (tw_end (last words))"
      using w(4,5) ne by simp_all
    show "ws_min_start st = Some (tw_start (hd words))" and "ws_max_end st = Some (tw_end (last words))"
      using w(4,5) ne st by (simp_all add: scan_ordered_def)
  qed
qed

text \<open>The segment of a reused utterance.\<close>

definition segment_of :: "'a utt_scheme \<Rightarrow> timed_word list \<Rightarrow> segment" where
  "segment_of u words = \<lparr>sg_start = tw_start (hd words), sg_end = tw_end (last words),
     sg_text = join (str '' '') (map tw_text words), sg_speaker = Some (ut_speaker u), sg_words = words\<rparr>"

lemma reuse_segment_refresh:
  "case refresh_utterance u of
     NoWords \<Rightarrow> ut_words u = [] \<and> reuse_segment u next_start = None
   | Reject \<Rightarrow> ut_words u \<noteq> [] \<and> reuse_segment u next_start = None
   | Refresh s e \<Rightarrow> ut_words u \<noteq> [] \<and>
       (if map_or False (\<lambda>n. e > n) next_start then reuse_segment u next_start = None
        else \<exists>words. reuse_segment u next_start = Some (segment_of u words) \<and>
          s = tw_start (hd words) \<and> e = tw_end (last words) \<and> map tw_text words = map sw_text (ut_words u))"
proof (cases "ut_words u = [] \<or> wor_tier (ut_tiers u) = None")
  case True
  then show ?thesis by (auto simp: refresh_utterance_def reuse_segment_def)
next
  case False
  then obtain wor where ne: "ut_words u \<noteq> []" and wor: "wor_tier (ut_tiers u) = Some wor" by auto
  show ?thesis
  proof (cases "wor_matches wor (map sw_text (ut_words u))")
    case False
    with ne wor show ?thesis by (simp add: refresh_utterance_def reuse_segment_def)
  next
    case True
    then have len: "length wor = length (ut_words u)" by (simp add: wor_matches_def)
    with ne have wne: "wor \<noteq> []" by auto
    have texts: "map ww_text wor = map sw_text (ut_words u)"
    proof (rule nth_equalityI)
      fix i assume i: "i < length (map ww_text wor)"
      with len have "(wor ! i, sw_text (ut_words u ! i)) \<in> set (zip wor (map sw_text (ut_words u)))"
        by (auto simp: in_set_zip)
      with True i len show "map ww_text wor ! i = map sw_text (ut_words u) ! i"
        by (fastforce simp: wor_matches_def list_ex_iff)
    qed (simp add: len)
    show ?thesis
    proof (cases "wor_scan_words wor wor_scan_init")
      case None
      then have "reuse_words wor None 0 = None"
        using wor_scan_reuse [OF scan_ordered_init, of wor] by simp
      with None True ne wor show ?thesis by (simp add: refresh_utterance_def reuse_segment_def)
    next
      case (Some st)
      from scan_result [OF Some wne] obtain words where w: "reuse_words wor None 0 = Some (words, ws_max_duration st)"
          "length words = length wor" "words \<noteq> []" "map tw_text words = map ww_text wor"
          "ws_first_start st = Some (tw_start (hd words))" "ws_last_end st = Some (tw_end (last words))"
          "ws_min_start st = Some (tw_start (hd words))" "ws_max_end st = Some (tw_end (last words))" .
      show ?thesis
        using Some True ne wor w texts
        by (auto simp: refresh_utterance_def reuse_segment_def segment_of_def Let_def)
    qed
  qed
qed

section \<open>The whole file\<close>

lemma snd_next_starts_loop: "snd (next_starts_loop (utterances ls)) = next_bullet_start ls"
proof (induction ls rule: next_bullet_start.induct)
  case (3 u ls)
  then show ?case by (cases "next_starts_loop (utterances ls)") (auto split: option.splits)
qed auto

lemma collect_simps [simp]:
  "collect_reusable_wor_segments [] = []"
  "collect_reusable_wor_segments (HeaderLine h # ls) = collect_reusable_wor_segments ls"
  "collect_reusable_wor_segments (UtteranceLine u # ls) =
     reuse_segment u (next_bullet_start ls) # collect_reusable_wor_segments ls"
  using snd_next_starts_loop [of ls]
  by (auto simp: collect_reusable_wor_segments_def Let_def split: prod.splits)

lemma length_collect [simp]: "length (collect_reusable_wor_segments ls) = length (utterances ls)"
  by (induction ls rule: utterances.induct) auto

text \<open>An utterance is clean when its words, if it has any, are reusable.\<close>

definition all_reusable :: "'a utt_scheme line list \<Rightarrow> bool" where
  "all_reusable lines =
     list_all (\<lambda>(u, r). (ut_words u = []) = (r = None))
       (zip (utterances lines) (collect_reusable_wor_segments lines))"

definition has_words :: "'a utt_scheme line list \<Rightarrow> bool" where
  "has_words lines = list_ex (\<lambda>u. ut_words u \<noteq> []) (utterances lines)"

definition move_bullet :: "bullet_source \<Rightarrow> 'a utt_scheme \<Rightarrow> segment option \<Rightarrow> 'a utt_scheme" where
  "move_bullet ns u r =
     (case r of None \<Rightarrow> u | Some g \<Rightarrow> u\<lparr>ut_bullet := Some (bullet_new ns (sg_start g) (sg_end g))\<rparr>)"

lemma all_reusable_simps [simp]:
  "all_reusable [] = True"
  "all_reusable (HeaderLine h # ls) = all_reusable ls"
  "all_reusable (UtteranceLine u # ls) =
     (((ut_words u = []) = (reuse_segment u (next_bullet_start ls) = None)) \<and> all_reusable ls)"
  by (simp_all add: all_reusable_def)

lemma has_words_simps [simp]:
  "has_words [] = False"
  "has_words (HeaderLine h # ls) = has_words ls"
  "has_words (UtteranceLine u # ls) = (ut_words u \<noteq> [] \<or> has_words ls)"
  by (simp_all add: has_words_def)

fun moved :: "bullet_source \<Rightarrow> 'a utt_scheme line list \<Rightarrow> 'a utt_scheme line list" where
  "moved ns [] = []"
| "moved ns (HeaderLine h # ls) = HeaderLine h # moved ns ls"
| "moved ns (UtteranceLine u # ls) =
     UtteranceLine (move_bullet ns u (reuse_segment u (next_bullet_start ls))) # moved ns ls"

lemma moved_facts:
  "frame (moved ns ls) = frame ls"
  "utterances (moved ns ls) = map2 (move_bullet ns) (utterances ls) (collect_reusable_wor_segments ls)"
  by (induction ns ls rule: moved.induct) auto

lemma refresh_scan_None: "refresh_scan i ls = None \<Longrightarrow> \<not> all_reusable ls"
proof (induction i ls rule: refresh_scan.induct)
  case (3 i u ls)
  then show ?case
    using reuse_segment_refresh [of u "next_bullet_start ls"]
    by (auto split: refresh_verdict.splits option.splits)
qed auto

lemma refresh_scan_saw: "refresh_scan i ls = Some (saw, refreshed) \<Longrightarrow> saw = has_words ls"
proof (induction i ls arbitrary: saw refreshed rule: refresh_scan.induct)
  case (3 i u ls)
  then show ?case
    using reuse_segment_refresh [of u "next_bullet_start ls"]
    by (auto split: refresh_verdict.splits option.splits)
qed auto

lemma overruns_next_append:
  "overruns_next (pre @ l # ls) (length pre, s, e) = map_or False (\<lambda>n. e > n) (next_bullet_start ls)"
  by (simp add: overruns_next_def)

lemma refresh_scan_overrun:
  assumes "refresh_scan i ls = Some (saw, refreshed)" and "length pre = i"
  shows "list_ex (overruns_next (pre @ ls)) refreshed \<longleftrightarrow> \<not> all_reusable ls"
  using assms
proof (induction i ls arbitrary: saw refreshed pre rule: refresh_scan.induct)
  case (2 i h ls)
  have "length (pre @ [HeaderLine h]) = Suc i" using 2(3) by simp
  from 2(1) [OF _ this] 2(2) show ?case by simp
next
  case (3 i u ls)
  have len: "length (pre @ [UtteranceLine u]) = Suc i" using 3(4) by simp
  show ?case
  proof (cases "refresh_utterance u")
    case NoWords
    with 3(1) [OF NoWords _ len] 3(3) reuse_segment_refresh [of u "next_bullet_start ls"] show ?thesis by auto
  next
    case Reject
    with 3(3) show ?thesis by simp
  next
    case (Refresh s e)
    with 3(3) obtain saw' R where R: "refresh_scan (Suc i) ls = Some (saw', R)" "refreshed = (i, s, e) # R"
      by (auto split: option.splits)
    from 3(2) [OF Refresh R(1) len]
    have IH: "list_ex (overruns_next (pre @ UtteranceLine u # ls)) R \<longleftrightarrow> \<not> all_reusable ls" by simp
    have "overruns_next (pre @ UtteranceLine u # ls) (i, s, e) \<longleftrightarrow>
        \<not> ((ut_words u = []) = (reuse_segment u (next_bullet_start ls) = None))"
      using 3(4) overruns_next_append [of pre "UtteranceLine u" ls s e]
        reuse_segment_refresh [of u "next_bullet_start ls"] Refresh
      by (auto split: if_splits)
    with IH R(2) show ?thesis by auto
  qed
qed auto

lemma refresh_scan_moves:
  assumes "refresh_scan i ls = Some (saw, refreshed)" and "length pre = i" and "all_reusable ls"
  shows "fold (set_line_bullet ns) refreshed (pre @ ls) = pre @ moved ns ls"
  using assms
proof (induction i ls arbitrary: saw refreshed pre rule: refresh_scan.induct)
  case (2 i h ls)
  have "length (pre @ [HeaderLine h]) = Suc i" using 2(3) by simp
  from 2(1) [OF _ this] 2(2,4) show ?case by simp
next
  case (3 i u ls)
  have len: "length (pre @ [UtteranceLine (move_bullet ns u (reuse_segment u (next_bullet_start ls)))]) = Suc i"
    using 3(4) by simp
  have ok: "all_reusable ls" using 3(5) by simp
  show ?case
  proof (cases "refresh_utterance u")
    case NoWords
    with 3(3) have "refresh_scan (Suc i) ls = Some (saw, refreshed)" by simp
    from 3(1) [OF NoWords this len ok] NoWords reuse_segment_refresh [of u "next_bullet_start ls"]
    show ?thesis by (simp add: move_bullet_def)
  next
    case Reject
    with 3(3) show ?thesis by simp
  next
    case (Refresh s e)
    with 3(3) obtain saw' R where R: "refresh_scan (Suc i) ls = Some (saw', R)" "refreshed = (i, s, e) # R"
      by (auto split: option.splits)
    have "reuse_segment u (next_bullet_start ls) \<noteq> None"
      using 3(5) reuse_segment_refresh [of u "next_bullet_start ls"] Refresh by auto
    then obtain words where "reuse_segment u (next_bullet_start ls) = Some (segment_of u words)"
        "s = tw_start (hd words)" "e = tw_end (last words)"
      using reuse_segment_refresh [of u "next_bullet_start ls"] Refresh by (auto split: if_splits)
    then have "move_bullet ns u (reuse_segment u (next_bullet_start ls)) =
        u\<lparr>ut_bullet := Some (bullet_new ns s e)\<rparr>"
      by (simp add: move_bullet_def segment_of_def)
    with 3(2) [OF Refresh R(1) len ok] R(2) 3(4) show ?thesis
      by (simp add: set_line_bullet_def nth_append list_update_append)
  qed
qed auto

lemma refresh_complete_eq:
  "refresh_complete_wor_alignment ns lines =
     (if has_words lines \<and> all_reusable lines then (True, moved ns lines) else (False, lines))"
proof (cases "refresh_scan 0 lines")
  case None
  then show ?thesis using refresh_scan_None [OF None] by (simp add: refresh_complete_wor_alignment_def)
next
  case (Some r)
  then obtain saw R where r: "refresh_scan 0 lines = Some (saw, R)" by (cases r) auto
  show ?thesis
    using refresh_scan_saw [OF r] refresh_scan_overrun [OF r, of "[]"] refresh_scan_moves [OF r, of "[]" ns] r
    by (auto simp: refresh_complete_wor_alignment_def)
qed

text \<open>C17: The fast path of forced alignment and the per-utterance selection accept the same tiers: the
  document is refreshed without audio exactly when it has a word and every utterance with words has a
  reusable segment, and then each bullet becomes the span of that segment; otherwise nothing changes.\<close>

theorem complete_reuse_agrees:
  "(fst (refresh_complete_wor_alignment ns lines) = (has_words lines \<and> all_reusable lines)) \<and>
   frame (snd (refresh_complete_wor_alignment ns lines)) = frame lines \<and>
   utterances (snd (refresh_complete_wor_alignment ns lines)) =
     (if has_words lines \<and> all_reusable lines
      then map2 (move_bullet ns) (utterances lines) (collect_reusable_wor_segments lines)
      else utterances lines)"
  by (simp_all add: refresh_complete_eq moved_facts)

section \<open>Merging\<close>

lemma merge_loop_Inr:
  "merge_loop reused fresh = Inr (merged, rest) \<longleftrightarrow>
     length merged = length reused \<and>
     list_all (\<lambda>(r, m). case r of None \<Rightarrow> True | Some s \<Rightarrow> m = s) (zip reused merged) \<and>
     fresh = fresh_utterances merged reused @ rest"
proof (induction reused fresh arbitrary: merged rest rule: merge_loop.induct)
  case (2 s rs fresh)
  show ?case
    by (cases merged) (auto simp: bind_res_Inr_iff 2 fresh_utterances_def)
next
  case (3 rs)
  show ?case by (cases merged) (auto simp: fresh_utterances_def)
next
  case (4 rs f fresh)
  show ?case by (cases merged) (auto simp: bind_res_Inr_iff 4 fresh_utterances_def)
qed (auto simp: fresh_utterances_def)

lemma merge_Inr_iff:
  "merge_reused_and_fresh_segments reused fresh = Inr merged \<longleftrightarrow>
     length merged = length reused \<and>
     list_all (\<lambda>(r, m). case r of None \<Rightarrow> True | Some s \<Rightarrow> m = s) (zip reused merged) \<and>
     fresh_utterances merged reused = fresh"
  by (auto simp: merge_reused_and_fresh_segments_def bind_res_Inr_iff merge_loop_Inr split: if_splits)

lemma length_fresh_utterances:
  "length xs = length reused \<Longrightarrow> length (fresh_utterances xs reused) = length (filter (\<lambda>r. r = None) reused)"
  by (induction xs reused rule: list_induct2) (auto simp: fresh_utterances_def)

lemma merge_exists:
  "(\<exists>merged. merge_reused_and_fresh_segments reused fresh = Inr merged) \<longleftrightarrow>
     length fresh = length (filter (\<lambda>r. r = None) reused)"
proof
  assume "\<exists>merged. merge_reused_and_fresh_segments reused fresh = Inr merged"
  then obtain m where "length m = length reused" "fresh_utterances m reused = fresh"
    by (auto simp: merge_Inr_iff)
  then show "length fresh = length (filter (\<lambda>r. r = None) reused)" using length_fresh_utterances by metis
next
  assume "length fresh = length (filter (\<lambda>r. r = None) reused)"
  then have "\<exists>merged. merge_loop reused fresh = Inr (merged, [])"
    by (induction reused fresh rule: merge_loop.induct) (auto simp: bind_res_Inr_iff)
  then obtain m where "merge_loop reused fresh = Inr (m, [])" by blast
  then have "merge_reused_and_fresh_segments reused fresh = Inr m"
    by (simp add: merge_reused_and_fresh_segments_def)
  then show "\<exists>merged. merge_reused_and_fresh_segments reused fresh = Inr merged" by blast
qed

text \<open>The merge of reused and fresh segments is the one list that has each reused segment at its own
  place and the fresh ones, in order and none left over, at the others; it is an error exactly when
  the backend did not answer one segment for each utterance it was sent.\<close>

lemma merge_interleaves:
  "(merge_reused_and_fresh_segments reused fresh = Inr merged \<longleftrightarrow>
     length merged = length reused \<and>
     list_all (\<lambda>(r, m). case r of None \<Rightarrow> True | Some s \<Rightarrow> m = s) (zip reused merged) \<and>
     fresh_utterances merged reused = fresh) \<and>
   ((\<exists>merged. merge_reused_and_fresh_segments reused fresh = Inr merged) \<longleftrightarrow>
     length fresh = length (filter (\<lambda>r. r = None) reused))"
  by (rule conjI [OF merge_Inr_iff merge_exists])

section \<open>Expanded words\<close>

abbreviation part_counts :: "fa_word list \<Rightarrow> nat" where
  "part_counts content \<equiv> sum_list (map (\<lambda>w. length (split_compound_filler w)) content)"

lemma collapse_loop_Inr:
  assumes "part_counts content \<le> length aligned"
  shows "\<exists>words. collapse_loop ns content aligned = Inr (words, drop (part_counts content) aligned) \<and>
      map ww_text words = map sw_text content"
  using assms
proof (induction ns content aligned rule: collapse_loop.induct)
  case (2 ns w ws aligned)
  have enough: "\<not> length aligned < length (split_compound_filler w)"
    and rest: "part_counts ws \<le> length (drop (length (split_compound_filler w)) aligned)"
    using 2(2) by simp_all
  from 2(1) [OF refl enough refl refl rest] obtain words where
    "collapse_loop ns ws (drop (length (split_compound_filler w)) aligned) =
       Inr (words, drop (part_counts ws) (drop (length (split_compound_filler w)) aligned))"
    "map ww_text words = map sw_text ws" by blast
  with enough show ?case by (simp add: Let_def add.commute)
qed simp

lemma collapse_loop_error: "length aligned < part_counts content \<Longrightarrow> \<exists>m. collapse_loop ns content aligned = Inl m"
proof (induction ns content aligned rule: collapse_loop.induct)
  case (2 ns w ws aligned)
  show ?case
  proof (cases "length aligned < length (split_compound_filler w)")
    case False
    then have "length (drop (length (split_compound_filler w)) aligned) < part_counts ws"
      using 2(2) by simp
    from 2(1) [OF refl False refl refl this] False show ?thesis by (auto simp: Let_def)
  qed (simp add: Let_def)
qed simp

lemma collapse_aligned_words_Inr:
  "(\<exists>words. collapse_aligned_words ns content aligned = Inr words \<and> map ww_text words = map sw_text content)
   \<longleftrightarrow> length aligned = part_counts content"
  and collapse_aligned_words_ok:
  "(\<exists>words. collapse_aligned_words ns content aligned = Inr words) \<longleftrightarrow> length aligned = part_counts content"
proof -
  consider "length aligned < part_counts content" | "part_counts content \<le> length aligned" by linarith
  then have "(\<exists>words. collapse_aligned_words ns content aligned = Inr words \<and> map ww_text words = map sw_text content)
      \<longleftrightarrow> length aligned = part_counts content" and
    "(\<exists>words. collapse_aligned_words ns content aligned = Inr words) \<longleftrightarrow> length aligned = part_counts content"
  proof (atomize (full), cases)
    case 1
    with collapse_loop_error [OF 1, of ns] show "((\<exists>words. collapse_aligned_words ns content aligned = Inr words \<and>
        map ww_text words = map sw_text content) = (length aligned = part_counts content)) \<and>
      ((\<exists>words. collapse_aligned_words ns content aligned = Inr words) = (length aligned = part_counts content))"
      by (auto simp: collapse_aligned_words_def)
  next
    case 2
    from collapse_loop_Inr [OF 2, of ns] obtain words where
      "collapse_loop ns content aligned = Inr (words, drop (part_counts content) aligned)"
      "map ww_text words = map sw_text content" by blast
    with 2 show "((\<exists>words. collapse_aligned_words ns content aligned = Inr words \<and>
        map ww_text words = map sw_text content) = (length aligned = part_counts content)) \<and>
      ((\<exists>words. collapse_aligned_words ns content aligned = Inr words) = (length aligned = part_counts content))"
      by (auto simp: collapse_aligned_words_def)
  qed
  then show "(\<exists>words. collapse_aligned_words ns content aligned = Inr words \<and> map ww_text words = map sw_text content)
      \<longleftrightarrow> length aligned = part_counts content" and
    "(\<exists>words. collapse_aligned_words ns content aligned = Inr words) \<longleftrightarrow> length aligned = part_counts content"
    by blast+
qed

lemma reuse_segment_words:
  assumes "reuse_segment u next_start = Some seg"
  shows "map tw_text (sg_words seg) = map sw_text (ut_words u)" and "ut_words u \<noteq> []"
  using assms reuse_segment_refresh [of u next_start]
  by (auto simp: segment_of_def split: refresh_verdict.splits if_splits)

text \<open>A reused segment has one word for each source word, not one for each part of a compound filler.\<close>

lemma inject_reused:
  assumes "reuse_segment u next_start = Some seg"
  shows "(\<exists>u'. inject_utterance ns u seg = Inr u') \<longleftrightarrow> part_counts (ut_words u) = length (ut_words u)"
proof -
  have len: "length (sg_words seg) = length (ut_words u)"
    using arg_cong [OF reuse_segment_words(1) [OF assms], of length] by simp
  with reuse_segment_words(2) [OF assms] have "sg_words seg \<noteq> []" by auto
  with len show ?thesis
    using collapse_aligned_words_ok [of ns "ut_words u" "sg_words seg"]
    by (auto simp: inject_utterance_def bind_res_Inr_iff Let_def)
qed

end
