(* ===== verification/FaRepair.thy ===== *)
theory FaRepair
  imports FaReuse
begin

text \<open>
  The repairs of \<^verbatim>\<open>taskrunners/fa.rs\<close>: the pass over the utterance bullets that strips or clamps timing
  that runs backwards, related to one recursion over the lines, and the balancing of words that are
  too short; then the runner as a whole.
\<close>

section \<open>Bullets in document order\<close>

fun timed_bullets :: "'a utt_scheme line list \<Rightarrow> bullet list" where
  "timed_bullets [] = []"
| "timed_bullets (HeaderLine h # ls) = timed_bullets ls"
| "timed_bullets (UtteranceLine u # ls) =
     (case ut_bullet u of None \<Rightarrow> timed_bullets ls | Some b \<Rightarrow> b # timed_bullets ls)"

definition in_sequence :: "bullet list \<Rightarrow> bool" where
  "in_sequence bs = sorted_wrt (\<lambda>a b. bl_start a \<le> bl_start b \<and> bl_end a \<le> bl_start b) bs"

lemma next_bullet_start_timed:
  "next_bullet_start ls = (case timed_bullets ls of [] \<Rightarrow> None | b # bs \<Rightarrow> Some (bl_start b))"
  by (induction ls rule: next_bullet_start.induct) (auto split: option.splits)

lemma timed_starts_next:
  "next_bullet_start ls = (case timed_starts i ls of [] \<Rightarrow> None | p # ps \<Rightarrow> Some (snd p))"
  by (induction i ls rule: timed_starts.induct) (auto split: option.splits)

section \<open>The first loop\<close>

definition strip_spec :: "nat \<Rightarrow> 'a utt_scheme line list \<Rightarrow> 'a utt_scheme line list \<Rightarrow> nat \<Rightarrow> bool" where
  "strip_spec last_start ls ls' n \<longleftrightarrow>
     frame ls' = frame ls \<and> length (timed_bullets ls) = n + length (timed_bullets ls') \<and>
     sorted_wrt (\<lambda>a b. bl_start a \<le> bl_start b) (timed_bullets ls') \<and>
     list_all (\<lambda>b. last_start \<le> bl_start b) (timed_bullets ls') \<and>
     list_all2 (\<lambda>u u'. u' = u \<or> u' = strip_timing u) (utterances ls) (utterances ls')"

lemma strip_spec_mono: "strip_spec m ls ls' n \<Longrightarrow> k \<le> m \<Longrightarrow> strip_spec k ls ls' n"
  by (auto simp: strip_spec_def list_all_iff)

lemma ut_bullet_strip_timing [simp]: "ut_bullet (strip_timing u) = None"
  by (simp add: strip_timing_def)

lemma strip_backward_spec:
  "strip_backward last_start ls = (ls', n) \<Longrightarrow> strip_spec last_start ls ls' n"
proof (induction last_start ls arbitrary: ls' n rule: strip_backward.induct)
  case (1 last_start)
  then show ?case by (simp add: strip_spec_def)
next
  case (2 last_start h ls)
  then show ?case by (auto simp: strip_spec_def split: prod.splits)
next
  case (3 last_start u ls)
  show ?case
  proof (cases "ut_bullet u")
    case None
    then show ?thesis using 3(1) [OF None] 3(4) by (auto simp: strip_spec_def split: prod.splits)
  next
    case (Some b)
    show ?thesis
    proof (cases "bl_start b < last_start")
      case True
      with Some show ?thesis
        using 3(2) [OF Some True] 3(4) by (auto simp: strip_spec_def split: prod.splits)
    next
      case False
      obtain ls1 n1 where r: "strip_backward (bl_start b) ls = (ls1, n1)" by fastforce
      from 3(3) [OF Some False r] have spec: "strip_spec (bl_start b) ls ls1 n1" .
      have le: "last_start \<le> bl_start b" using False by simp
      have "list_all (\<lambda>c. last_start \<le> bl_start c) (timed_bullets ls1)"
        using strip_spec_mono [OF spec le] by (simp add: strip_spec_def)
      with spec le show ?thesis
        using Some False r 3(4) by (auto simp: strip_spec_def list_all_iff)
    qed
  qed
qed

section \<open>The second loop\<close>

text \<open>The same repair as one recursion over the lines.\<close>

definition clamp_utt :: "'a utt_scheme \<Rightarrow> nat option \<Rightarrow> 'a utt_scheme" where
  "clamp_utt u next_start =
     (case (ut_bullet u, next_start) of
        (Some b, Some n) \<Rightarrow>
          (if bl_end b \<le> n then u else if n \<le> bl_start b then strip_timing u
           else u\<lparr>ut_bullet := Some (b\<lparr>bl_end := n\<rparr>)\<rparr>)
      | (_, _) \<Rightarrow> u)"

fun clamp_lines :: "'a utt_scheme line list \<Rightarrow> 'a utt_scheme line list" where
  "clamp_lines [] = []"
| "clamp_lines (HeaderLine h # ls) = HeaderLine h # clamp_lines ls"
| "clamp_lines (UtteranceLine u # ls) = UtteranceLine (clamp_utt u (next_bullet_start ls)) # clamp_lines ls"

lemma clamp_step_middle:
  assumes "length pre = i" and "ut_bullet u \<noteq> None"
  shows "\<exists>rep'. clamp_step i n (pre @ UtteranceLine u # ls, rep) =
      (pre @ UtteranceLine (clamp_utt u (Some n)) # ls, rep') \<and>
      mr_stripped rep' = mr_stripped rep + (if ut_bullet (clamp_utt u (Some n)) = None then 1 else 0) \<and>
      mr_clamped rep' = mr_clamped rep +
        (if ut_bullet (clamp_utt u (Some n)) \<noteq> None \<and> clamp_utt u (Some n) \<noteq> u then 1 else 0)"
proof -
  obtain b where b: "ut_bullet u = Some b" using assms(2) by auto
  have at: "(pre @ UtteranceLine u # ls) ! i = UtteranceLine u" using assms(1) by (auto simp: nth_append)
  have upd: "(pre @ UtteranceLine u # ls)[i := x] = pre @ x # ls" for x
    using assms(1) by (auto simp: list_update_append)
  consider "bl_end b \<le> n" | "\<not> bl_end b \<le> n" "n \<le> bl_start b" | "\<not> bl_end b \<le> n" "\<not> n \<le> bl_start b" by blast
  then show ?thesis
  proof cases
    case 3
    have "u\<lparr>ut_bullet := Some (b\<lparr>bl_end := n\<rparr>)\<rparr> \<noteq> u"
    proof
      assume "u\<lparr>ut_bullet := Some (b\<lparr>bl_end := n\<rparr>)\<rparr> = u"
      then have "ut_bullet (u\<lparr>ut_bullet := Some (b\<lparr>bl_end := n\<rparr>)\<rparr>) = ut_bullet u" by simp
      then have "bl_end (b\<lparr>bl_end := n\<rparr>) = bl_end b" using b by (metis option.inject utt.select_convs(3) utt.surjective utt.update_convs(3))
      with 3 show False by simp
    qed
    with 3 show ?thesis by (simp add: clamp_step_def at upd b clamp_utt_def)
  qed (simp_all add: clamp_step_def at upd b clamp_utt_def)
qed

lemma untimed_rest: "timed_starts i ls = [] \<Longrightarrow> clamp_lines ls = ls \<and> timed_bullets ls = []"
  by (induction i ls rule: timed_starts.induct) (auto simp: clamp_utt_def split: option.splits)

lemma clamp_windows_lines:
  assumes "length pre = i"
  shows "\<exists>rep'. clamp_windows (timed_starts i ls) (pre @ ls, rep) = (pre @ clamp_lines ls, rep') \<and>
      length (timed_bullets ls) + mr_stripped rep = mr_stripped rep' + length (timed_bullets (clamp_lines ls)) \<and>
      mr_clamped rep' = mr_clamped rep + length (filter (\<lambda>(u, u'). ut_bullet u' \<noteq> None \<and> u' \<noteq> u)
        (zip (utterances ls) (utterances (clamp_lines ls))))"
  using assms
proof (induction i ls arbitrary: pre rep rule: timed_starts.induct)
  case (1 i)
  then show ?case by simp
next
  case (2 i h ls)
  have "length (pre @ [HeaderLine h]) = Suc i" using 2 by simp
  from 2(1) [OF this, of rep] show ?case by simp
next
  case (3 i u ls)
  show ?case
  proof (cases "ut_bullet u")
    case None
    have "length (pre @ [UtteranceLine u]) = Suc i" using 3 by simp
    from 3(1) [OF None this, of rep] None show ?thesis by (simp add: clamp_utt_def)
  next
    case (Some b)
    show ?thesis
    proof (cases "timed_starts (Suc i) ls")
      case Nil
      then have n: "next_bullet_start ls = None"
        unfolding timed_starts_next [of ls "Suc i"] by simp
      with n show ?thesis using untimed_rest [OF Nil] Some Nil
        by (auto simp: clamp_utt_def zip_same_conv_map filter_empty_conv)
    next
      case (Cons q qs)
      then have n: "next_bullet_start ls = Some (snd q)"
        unfolding timed_starts_next [of ls "Suc i"] by simp
      let ?u' = "clamp_utt u (Some (snd q))"
      from clamp_step_middle [OF 3(3), of u "snd q" ls rep] Some obtain rep1 where
        step: "clamp_step i (snd q) (pre @ UtteranceLine u # ls, rep) = (pre @ UtteranceLine ?u' # ls, rep1)"
        and s: "mr_stripped rep1 = mr_stripped rep + (if ut_bullet ?u' = None then 1 else 0)"
        and c: "mr_clamped rep1 = mr_clamped rep + (if ut_bullet ?u' \<noteq> None \<and> ?u' \<noteq> u then 1 else 0)" by auto
      have len: "length (pre @ [UtteranceLine ?u']) = Suc i" using 3 by simp
      have w: "clamp_windows (timed_starts i (UtteranceLine u # ls)) (pre @ UtteranceLine u # ls, rep) =
          clamp_windows (timed_starts (Suc i) ls) ((pre @ [UtteranceLine ?u']) @ ls, rep1)"
        using Some step by (simp add: Cons)
      from 3(2) [OF Some len, of rep1] show ?thesis
        unfolding w by (auto simp: s c n Some split: option.splits)
    qed
  qed
qed

lemma clamp_utt_bullet:
  "ut_bullet (clamp_utt u next_start) =
     (case (ut_bullet u, next_start) of
        (Some b, Some n) \<Rightarrow> (if bl_end b \<le> n then Some b else if n \<le> bl_start b then None
          else Some (b\<lparr>bl_end := n\<rparr>))
      | (x, _) \<Rightarrow> x)"
  by (simp add: clamp_utt_def split: option.splits)

lemma timed_bullets_clamp_starts:
  assumes "list_all (\<lambda>b. k \<le> bl_start b) (timed_bullets ls)"
  shows "list_all (\<lambda>b. k \<le> bl_start b) (timed_bullets (clamp_lines ls))"
  using assms
proof (induction ls rule: clamp_lines.induct)
  case (3 u ls)
  then show ?case
    by (cases "ut_bullet u"; cases "next_bullet_start ls") (simp_all add: clamp_utt_bullet)
qed simp_all

lemma clamp_lines_untimed: "timed_bullets ls = [] \<Longrightarrow> timed_bullets (clamp_lines ls) = []"
  by (induction ls rule: clamp_lines.induct) (auto simp: clamp_utt_bullet split: option.splits)

lemma clamp_lines_in_sequence:
  assumes "sorted_wrt (\<lambda>a b. bl_start a \<le> bl_start b) (timed_bullets ls)"
  shows "in_sequence (timed_bullets (clamp_lines ls))"
  using assms
proof (induction ls rule: clamp_lines.induct)
  case (3 u ls)
  show ?case
  proof (cases "ut_bullet u")
    case None
    with 3 show ?thesis by (simp add: clamp_utt_bullet in_sequence_def)
  next
    case (Some b)
    then have IH: "in_sequence (timed_bullets (clamp_lines ls))" using 3 by simp
    show ?thesis
    proof (cases "next_bullet_start ls")
      case None
      then have "timed_bullets ls = []" by (simp add: next_bullet_start_timed split: list.splits)
      then have "timed_bullets (clamp_lines ls) = []" by (rule clamp_lines_untimed)
      with None Some show ?thesis by (simp add: clamp_utt_bullet in_sequence_def)
    next
      case n: (Some n)
      then obtain q bs where q: "timed_bullets ls = q # bs" "n = bl_start q"
        by (auto simp: next_bullet_start_timed split: list.splits)
      with 3(2) Some have "list_all (\<lambda>b. n \<le> bl_start b) (timed_bullets ls)" "bl_start b \<le> n"
        by (auto simp: list_all_iff)
      then have "list_all (\<lambda>c. n \<le> bl_start c) (timed_bullets (clamp_lines ls))" "bl_start b \<le> n"
        using timed_bullets_clamp_starts by blast+
      with IH n Some show ?thesis
        by (fastforce simp: clamp_utt_bullet in_sequence_def list_all_iff)
    qed
  qed
qed (simp_all add: in_sequence_def)

lemma clamp_lines_fixed:
  assumes "in_sequence (timed_bullets ls)"
  shows "clamp_lines ls = ls"
  using assms
proof (induction ls rule: clamp_lines.induct)
  case (3 u ls)
  show ?case
  proof (cases "ut_bullet u")
    case None
    with 3 show ?thesis by (simp add: clamp_utt_def)
  next
    case (Some b)
    then have "in_sequence (timed_bullets ls)" using 3(2) by (simp add: in_sequence_def)
    moreover have "clamp_utt u (next_bullet_start ls) = u"
      using Some 3(2) by (auto simp: clamp_utt_def next_bullet_start_timed in_sequence_def split: list.splits)
    ultimately show ?thesis using 3(1) by simp
  qed
qed simp_all

lemma strip_backward_fixed:
  assumes "in_sequence (timed_bullets ls)" and "list_all (\<lambda>b. last_start \<le> bl_start b) (timed_bullets ls)"
  shows "strip_backward last_start ls = (ls, 0)"
  using assms
proof (induction last_start ls rule: strip_backward.induct)
  case (3 last_start u ls)
  show ?case
  proof (cases "ut_bullet u")
    case None
    with 3 show ?thesis by simp
  next
    case (Some b)
    then have "\<not> bl_start b < last_start" "in_sequence (timed_bullets ls)"
      "list_all (\<lambda>c. bl_start b \<le> bl_start c) (timed_bullets ls)"
      using 3(4,5) by (auto simp: in_sequence_def list_all_iff)
    with 3(3) Some show ?thesis by simp
  qed
qed simp_all

text \<open>How an utterance may differ after the repair: as it was, stripped of timing, or with an earlier end.\<close>

definition repaired :: "'a utt_scheme \<Rightarrow> 'a utt_scheme \<Rightarrow> bool" where
  "repaired u u' \<longleftrightarrow> u' = u \<or> u' = strip_timing u \<or>
     (\<exists>b n. ut_bullet u = Some b \<and> bl_start b < n \<and> n < bl_end b \<and> u' = u\<lparr>ut_bullet := Some (b\<lparr>bl_end := n\<rparr>)\<rparr>)"

lemma repaired_clamp_utt: "repaired u (clamp_utt u next_start)"
  by (auto simp: repaired_def clamp_utt_def not_le split: option.splits)

lemma clamp_lines_repaired:
  "frame (clamp_lines ls) = frame ls" "list_all2 repaired (utterances ls) (utterances (clamp_lines ls))"
  by (induction ls rule: clamp_lines.induct) (auto simp: repaired_clamp_utt)

lemma strip_then_clamp: "u1 = u \<or> u1 = strip_timing u \<Longrightarrow> repaired u1 u2 \<Longrightarrow> repaired u u2"
  by (auto simp: repaired_def strip_timing_def)

lemma enforce_eq:
  obtains ls1 n rep where "strip_backward 0 lines = (ls1, n)" and "strip_spec 0 lines ls1 n"
    and "enforce_fa_monotonicity lines = (clamp_lines ls1, rep)"
    and "length (timed_bullets ls1) + n = mr_stripped rep + length (timed_bullets (clamp_lines ls1))"
proof -
  obtain ls1 n where s: "strip_backward 0 lines = (ls1, n)" by fastforce
  from clamp_windows_lines [of "[]" 0 ls1 "\<lparr>mr_stripped = n, mr_clamped = 0\<rparr>"] obtain rep where
    "clamp_windows (timed_starts 0 ls1) (ls1, \<lparr>mr_stripped = n, mr_clamped = 0\<rparr>) = (clamp_lines ls1, rep)"
    "length (timed_bullets ls1) + n = mr_stripped rep + length (timed_bullets (clamp_lines ls1))" by auto
  with s that [OF s strip_backward_spec [OF s]] show thesis by (simp add: enforce_fa_monotonicity_def)
qed

text \<open>C18: After the repair of forced alignment the timed utterances of a document follow one another: no
  bullet starts before an earlier one or before the end of an earlier one. Nothing else is touched: the
  headers stay, an utterance is as before, stripped of its timing, or has only its end moved back, the
  number reported as stripped is the number of bullets lost, and a document already in sequence comes
  back unchanged.\<close>

theorem enforce_fa_monotonicity_correct:
  "in_sequence (timed_bullets (fst (enforce_fa_monotonicity lines))) \<and>
   frame (fst (enforce_fa_monotonicity lines)) = frame lines \<and>
   list_all2 repaired (utterances lines) (utterances (fst (enforce_fa_monotonicity lines))) \<and>
   mr_stripped (snd (enforce_fa_monotonicity lines)) + length (timed_bullets (fst (enforce_fa_monotonicity lines))) =
     length (timed_bullets lines) \<and>
   (fst (enforce_fa_monotonicity lines) = lines) = in_sequence (timed_bullets lines)"
proof -
  obtain ls1 n rep where s: "strip_backward 0 lines = (ls1, n)" and spec: "strip_spec 0 lines ls1 n"
    and e: "enforce_fa_monotonicity lines = (clamp_lines ls1, rep)"
    and count: "length (timed_bullets ls1) + n = mr_stripped rep + length (timed_bullets (clamp_lines ls1))"
    by (rule enforce_eq)
  have seq: "in_sequence (timed_bullets (fst (enforce_fa_monotonicity lines)))"
    using spec by (simp add: e strip_spec_def clamp_lines_in_sequence)
  moreover have "frame (fst (enforce_fa_monotonicity lines)) = frame lines"
    using spec by (simp add: e strip_spec_def clamp_lines_repaired)
  moreover have "list_all2 (\<lambda>u u'. u' = u \<or> u' = strip_timing u) (utterances lines) (utterances ls1)"
    using spec by (simp add: strip_spec_def)
  from list_all2_trans [OF _ this clamp_lines_repaired(2), of repaired] strip_then_clamp
  have "list_all2 repaired (utterances lines) (utterances (fst (enforce_fa_monotonicity lines)))"
    by (simp add: e) blast
  moreover have "mr_stripped (snd (enforce_fa_monotonicity lines)) +
      length (timed_bullets (fst (enforce_fa_monotonicity lines))) = length (timed_bullets lines)"
    using spec count by (simp add: e strip_spec_def)
  moreover have "(fst (enforce_fa_monotonicity lines) = lines) = in_sequence (timed_bullets lines)"
  proof
    assume "fst (enforce_fa_monotonicity lines) = lines"
    with seq show "in_sequence (timed_bullets lines)" by simp
  next
    assume ok: "in_sequence (timed_bullets lines)"
    then have "ls1 = lines" using strip_backward_fixed [OF ok, of 0] s by (simp add: list_all_iff)
    with ok show "fst (enforce_fa_monotonicity lines) = lines" by (simp add: e clamp_lines_fixed)
  qed
  ultimately show ?thesis by blast
qed

section \<open>Words that are too short\<close>

text \<open>
  Both balancing loops sweep over adjacent words, carrying the changed word on; what they promise rests
  only on how one step treats two words.
\<close>

fun sweep :: "(wor_word \<Rightarrow> wor_word \<Rightarrow> wor_word \<times> wor_word) \<Rightarrow> wor_word list \<Rightarrow> wor_word list" where
  "sweep g [] = []"
| "sweep g [w] = [w]"
| "sweep g (a # b # ws) = (case g a b of (a', b') \<Rightarrow> a' # sweep g (b' # ws))"

fun in_order_from :: "nat \<Rightarrow> wor_word list \<Rightarrow> bool" where
  "in_order_from k [] = True"
| "in_order_from k (w # ws) =
     (case ww_bullet w of
        None \<Rightarrow> in_order_from k ws
      | Some b \<Rightarrow> k \<le> bl_start b \<and> bl_start b \<le> bl_end b \<and> in_order_from (bl_end b) ws)"

fun first_word_start :: "wor_word list \<Rightarrow> nat option" where
  "first_word_start [] = None"
| "first_word_start (w # ws) = (case ww_bullet w of None \<Rightarrow> first_word_start ws | Some b \<Rightarrow> Some (bl_start b))"

definition last_word_end :: "wor_word list \<Rightarrow> nat option" where
  "last_word_end ws = foldl (\<lambda>e w. case ww_bullet w of None \<Rightarrow> e | Some b \<Rightarrow> Some (bl_end b)) None ws"

locale balance_step =
  fixes g :: "wor_word \<Rightarrow> wor_word \<Rightarrow> wor_word \<times> wor_word"
  assumes texts: "g a b = (a', b') \<Longrightarrow> ww_text a' = ww_text a \<and> ww_text b' = ww_text b"
    and untimed: "ww_bullet a = None \<or> ww_bullet b = None \<Longrightarrow> g a b = (a, b)"
    and timed: "ww_bullet a = Some p \<Longrightarrow> ww_bullet b = Some q \<Longrightarrow> g a b = (a', b') \<Longrightarrow>
      \<exists>p' q'. ww_bullet a' = Some p' \<and> ww_bullet b' = Some q' \<and>
        bl_start p' = bl_start p \<and> bl_end q' = bl_end q \<and>
        (bl_start p \<le> bl_end p \<and> bl_end p \<le> bl_start q \<and> bl_start q \<le> bl_end q \<longrightarrow>
           bl_start p' \<le> bl_end p' \<and> bl_end p' \<le> bl_start q' \<and> bl_start q' \<le> bl_end q')"
begin

lemma sweep_texts_Cons: "map ww_text (sweep g (a # ws)) = map ww_text (a # ws)"
proof (induction ws arbitrary: a)
  case (Cons b ws)
  obtain a' b' where "g a b = (a', b')" by fastforce
  with Cons [of b'] texts [OF this] show ?case by simp
qed simp

lemma sweep_texts: "map ww_text (sweep g ws) = map ww_text ws"
  using sweep_texts_Cons by (cases ws) simp_all

lemma sweep_order_Cons: "in_order_from k (a # ws) \<Longrightarrow> in_order_from k (sweep g (a # ws))"
proof (induction ws arbitrary: a k)
  case (Cons b ws)
  obtain a' b' where g: "g a b = (a', b')" by fastforce
  show ?case
  proof (cases "ww_bullet a = None \<or> ww_bullet b = None")
    case True
    then have "a' = a" "b' = b" using g untimed by auto
    with g Cons show ?thesis by (auto split: option.splits)
  next
    case False
    then obtain p q where pq: "ww_bullet a = Some p" "ww_bullet b = Some q" by auto
    from timed [OF pq g] Cons(2) pq obtain p' q' where t: "ww_bullet a' = Some p'" "ww_bullet b' = Some q'"
        "bl_start p' = bl_start p" "bl_end q' = bl_end q"
        "bl_start p' \<le> bl_end p'" "bl_end p' \<le> bl_start q'" "bl_start q' \<le> bl_end q'" by auto
    have "in_order_from (bl_end p') (b' # ws)" using t Cons(2) pq by simp
    from Cons(1) [OF this] t Cons(2) pq g show ?thesis by simp
  qed
qed simp

lemma sweep_order: "in_order_from k ws \<Longrightarrow> in_order_from k (sweep g ws)"
  using sweep_order_Cons by (cases ws) simp_all

lemma sweep_first_Cons: "first_word_start (sweep g (a # ws)) = first_word_start (a # ws)"
proof (induction ws arbitrary: a)
  case (Cons b ws)
  obtain a' b' where g: "g a b = (a', b')" by fastforce
  show ?case
  proof (cases "ww_bullet a")
    case None
    then have "a' = a" "b' = b" using g untimed by auto
    with g Cons None show ?thesis by simp
  next
    case (Some p)
    then have "\<exists>p'. ww_bullet a' = Some p' \<and> bl_start p' = bl_start p"
      using untimed [of a b] timed [OF Some _ g] g by (cases "ww_bullet b") auto
    with g Some show ?thesis by auto
  qed
qed simp

lemma sweep_first: "first_word_start (sweep g ws) = first_word_start ws"
  using sweep_first_Cons by (cases ws) simp_all

lemma sweep_last_Cons:
  "foldl (\<lambda>e w. case ww_bullet w of None \<Rightarrow> e | Some b \<Rightarrow> Some (bl_end b)) e (sweep g (a # ws)) =
   foldl (\<lambda>e w. case ww_bullet w of None \<Rightarrow> e | Some b \<Rightarrow> Some (bl_end b)) e (a # ws)"
proof (induction ws arbitrary: a e)
  case (Cons b ws)
  obtain a' b' where g: "g a b = (a', b')" by fastforce
  show ?case
  proof (cases "ww_bullet a = None \<or> ww_bullet b = None")
    case True
    then have "a' = a" "b' = b" using g untimed by auto
    with g Cons show ?thesis by simp
  next
    case False
    then obtain p q where pq: "ww_bullet a = Some p" "ww_bullet b = Some q" by auto
    from timed [OF pq g] obtain p' q' where "ww_bullet a' = Some p'" "ww_bullet b' = Some q'" "bl_end q' = bl_end q"
      by blast
    with g pq Cons [of _ b'] show ?thesis by simp
  qed
qed simp

lemma sweep_last: "last_word_end (sweep g ws) = last_word_end ws"
  unfolding last_word_end_def using sweep_last_Cons by (cases ws) simp_all

end

lemma rebalance_following_sweep: "rebalance_near_zero_words_from_following ws = sweep rebalance_following ws"
  by (induction ws rule: rebalance_near_zero_words_from_following.induct) (auto split: prod.splits)

lemma rebalance_preceding_sweep: "rebalance_near_zero_words_from_preceding ws = sweep rebalance_preceding ws"
  by (induction ws rule: rebalance_near_zero_words_from_preceding.induct) (auto split: prod.splits)

interpretation following: balance_step rebalance_following
proof unfold_locales
  fix a b a' b' :: wor_word and p q
  show "rebalance_following a b = (a', b') \<Longrightarrow> ww_text a' = ww_text a \<and> ww_text b' = ww_text b"
    by (auto simp: rebalance_following_def Let_def split: option.splits if_splits)
  show "ww_bullet a = None \<or> ww_bullet b = None \<Longrightarrow> rebalance_following a b = (a, b)"
    by (auto simp: rebalance_following_def split: option.splits)
  show "ww_bullet a = Some p \<Longrightarrow> ww_bullet b = Some q \<Longrightarrow> rebalance_following a b = (a', b') \<Longrightarrow>
      \<exists>p' q'. ww_bullet a' = Some p' \<and> ww_bullet b' = Some q' \<and>
        bl_start p' = bl_start p \<and> bl_end q' = bl_end q \<and>
        (bl_start p \<le> bl_end p \<and> bl_end p \<le> bl_start q \<and> bl_start q \<le> bl_end q \<longrightarrow>
           bl_start p' \<le> bl_end p' \<and> bl_end p' \<le> bl_start q' \<and> bl_start q' \<le> bl_end q')"
    by (auto simp: rebalance_following_def Let_def split: if_splits)
qed

interpretation preceding: balance_step rebalance_preceding
proof unfold_locales
  fix a b a' b' :: wor_word and p q
  show "rebalance_preceding a b = (a', b') \<Longrightarrow> ww_text a' = ww_text a \<and> ww_text b' = ww_text b"
    by (auto simp: rebalance_preceding_def Let_def split: option.splits if_splits)
  show "ww_bullet a = None \<or> ww_bullet b = None \<Longrightarrow> rebalance_preceding a b = (a, b)"
    by (auto simp: rebalance_preceding_def split: option.splits)
  show "ww_bullet a = Some p \<Longrightarrow> ww_bullet b = Some q \<Longrightarrow> rebalance_preceding a b = (a', b') \<Longrightarrow>
      \<exists>p' q'. ww_bullet a' = Some p' \<and> ww_bullet b' = Some q' \<and>
        bl_start p' = bl_start p \<and> bl_end q' = bl_end q \<and>
        (bl_start p \<le> bl_end p \<and> bl_end p \<le> bl_start q \<and> bl_start q \<le> bl_end q \<longrightarrow>
           bl_start p' \<le> bl_end p' \<and> bl_end p' \<le> bl_start q' \<and> bl_start q' \<le> bl_end q')"
    by (auto simp: rebalance_preceding_def Let_def split: if_splits)
qed

abbreviation balance :: "wor_word list \<Rightarrow> wor_word list" where
  "balance ws \<equiv> rebalance_near_zero_words_from_preceding (rebalance_near_zero_words_from_following ws)"

text \<open>Balancing words that are too short moves only the boundary between two adjacent words: the words
  and their texts stay, the first start and the last end stay, and words that were in order without
  overlap are so afterwards.\<close>

lemma balance_keeps_order:
  assumes "in_order_from k ws"
  shows "in_order_from k (balance ws) \<and> map ww_text (balance ws) = map ww_text ws \<and>
    first_word_start (balance ws) = first_word_start ws \<and> last_word_end (balance ws) = last_word_end ws"
  using assms
  by (simp_all add: rebalance_following_sweep rebalance_preceding_sweep following.sweep_order following.sweep_texts
      following.sweep_first following.sweep_last preceding.sweep_order preceding.sweep_texts
      preceding.sweep_first preceding.sweep_last)

definition sample_word :: "nat \<Rightarrow> nat \<Rightarrow> wor_word" where
  "sample_word s e = \<lparr>ww_text = str ''w'', ww_bullet = Some (bullet_new OtherSource s e)\<rparr>"

lemma balance_keeps_order_witness:
  "in_order_from 0 [sample_word 0 10, sample_word 10 200] \<and>
   balance [sample_word 0 10, sample_word 10 200] = [sample_word 0 40, sample_word 40 200] \<and>
   in_order_from 0 (balance [sample_word 0 10, sample_word 10 200])"
proof -
  have o: "in_order_from 0 [sample_word 0 10, sample_word 10 200]" by (simp add: sample_word_def bullet_new_def)
  have "balance [sample_word 0 10, sample_word 10 200] = [sample_word 0 40, sample_word 40 200]"
    by (simp add: sample_word_def bullet_new_def rebalance_following_def rebalance_preceding_def
        MIN_WORD_DURATION_MS_def)
  with o balance_keeps_order [OF o] show ?thesis by blast
qed

end
