(* ===== verification/FaRun.thy ===== *)
theory FaRun
  imports FaRepair
begin

text \<open>
  The forced-alignment runner as a whole: when it succeeds, what it leaves untouched, and the inputs on
  which no answer of the backend can make it succeed.
\<close>

section \<open>Injection\<close>

definition fits :: "'a utt_scheme \<Rightarrow> segment \<Rightarrow> bool" where
  "fits u seg \<longleftrightarrow> sg_words seg = [] \<or> length (sg_words seg) = part_counts (ut_words u)"

lemma inject_utterance_ok: "(\<exists>u'. inject_utterance ns u seg = Inr u') \<longleftrightarrow> fits u seg"
  using collapse_aligned_words_ok [of ns "ut_words u" "sg_words seg"]
  by (auto simp: inject_utterance_def fits_def Let_def bind_res_Inr_iff)

lemma inject_loop_ok:
  "(\<exists>ls'. inject_loop ns ls aligned = (Inr rest, ls')) \<longleftrightarrow>
     (\<exists>segs. aligned = segs @ rest \<and> list_all2 fits (utterances ls) segs)"
proof (induction ns ls aligned rule: inject_loop.induct)
  case (1 ns aligned)
  then show ?case by auto
next
  case (2 ns h ls aligned)
  then show ?case by (auto split: prod.splits)
next
  case (3 ns u ls)
  then show ?case by simp
next
  case (4 ns u ls seg aligned)
  show ?case
  proof (cases "inject_utterance ns u seg")
    case (Inl e)
    then have "\<not> fits u seg" using inject_utterance_ok [of ns u seg] by auto
    with Inl show ?thesis by (auto simp: list_all2_Cons1)
  next
    case (Inr u')
    then have "fits u seg" using inject_utterance_ok [of ns u seg] by auto
    with 4 [OF Inr] Inr show ?thesis
      by (auto simp: list_all2_Cons1 split: prod.splits)
  qed
qed

lemma inject_word_timings_ok:
  "fst (inject_word_timings ns ls aligned) = Inr () \<longleftrightarrow> list_all2 fits (utterances ls) aligned"
proof -
  have "fst (inject_word_timings ns ls aligned) = Inr () \<longleftrightarrow> (\<exists>ls'. inject_loop ns ls aligned = (Inr [], ls'))"
    by (auto simp: inject_word_timings_def split: prod.splits sum.splits)
  then show ?thesis using inject_loop_ok [of ns ls aligned "[]"] by simp
qed

text \<open>The loop changes only the bullet and the tiers of utterances, and of the tiers only \<open>%wor\<close>.\<close>

definition same_but_timing :: "'a utt_scheme \<Rightarrow> 'a utt_scheme \<Rightarrow> bool" where
  "same_but_timing u u' \<longleftrightarrow>
     u' = u\<lparr>ut_bullet := ut_bullet u', ut_tiers := ut_tiers u'\<rparr> \<and>
     filter (\<lambda>t. \<not> is_wor t) (ut_tiers u') = filter (\<lambda>t. \<not> is_wor t) (ut_tiers u)"

lemma same_but_timing_refl: "same_but_timing u u"
  by (simp add: same_but_timing_def)

lemma filter_replace_wor_tier:
  "filter (\<lambda>t. \<not> is_wor t) (replace_wor_tier (WorTier ws term) tiers) = filter (\<lambda>t. \<not> is_wor t) tiers"
proof -
  have "filter P (insert_at n x xs) = filter P xs" if "\<not> P x" for P n and x :: dep_tier and xs
  proof -
    have "filter P (insert_at n x xs) = filter P (take n xs @ drop n xs)"
      using that by (simp only: insert_at_def filter_append filter.simps if_False)
    then show ?thesis by (simp only: append_take_drop_id)
  qed
  then show ?thesis by (simp add: replace_wor_tier_def Let_def split: option.splits)
qed

lemma inject_utterance_same: "inject_utterance ns u seg = Inr u' \<Longrightarrow> same_but_timing u u'"
  by (auto simp: inject_utterance_def same_but_timing_def bind_res_Inr_iff Let_def filter_replace_wor_tier
      split: if_splits)

lemma inject_loop_same:
  assumes "inject_loop ns ls aligned = (r, ls')"
  shows "frame ls' = frame ls \<and> list_all2 same_but_timing (utterances ls) (utterances ls')"
  using assms
proof (induction ns ls aligned arbitrary: r ls' rule: inject_loop.induct)
  case (2 ns h ls aligned)
  then show ?case by (auto split: prod.splits)
next
  case (3 ns u ls)
  then show ?case by (auto simp: same_but_timing_refl list_all2_refl)
next
  case (4 ns u ls seg aligned)
  show ?case
  proof (cases "inject_utterance ns u seg")
    case (Inl e)
    with 4(2) show ?thesis by (auto simp: same_but_timing_refl list_all2_refl)
  next
    case (Inr u')
    with 4(1) [OF Inr] 4(2) inject_utterance_same [OF Inr] show ?thesis by (auto split: prod.splits)
  qed
qed simp

section \<open>What a run leaves untouched\<close>

fun kept_tier :: "dep_tier \<Rightarrow> bool" where
  "kept_tier (WorTier ws t) = False"
| "kept_tier (UserTier label c) = (label \<noteq> str ''xalign'' \<and> label \<noteq> str ''xrev'')"
| "kept_tier (OtherTier x) = True"

text \<open>Two utterances that differ in the bullet, the \<open>%wor\<close> tier and the review tiers only.\<close>

definition same_content :: "'a utt_scheme \<Rightarrow> 'a utt_scheme \<Rightarrow> bool" where
  "same_content u u' \<longleftrightarrow>
     u' = u\<lparr>ut_bullet := ut_bullet u', ut_tiers := ut_tiers u'\<rparr> \<and>
     filter kept_tier (ut_tiers u') = filter kept_tier (ut_tiers u)"

lemma same_content_refl: "same_content u u"
  by (simp add: same_content_def)

lemma same_content_trans: "same_content a b \<Longrightarrow> same_content b c \<Longrightarrow> same_content a c"
  unfolding same_content_def
  by (metis utt.surjective utt.update_convs(3,4) utt.ext_inject)

lemma filter_absorb: "(\<And>t. P t \<Longrightarrow> Q t) \<Longrightarrow> filter P (filter Q ts) = filter P ts"
  by (induction ts) auto

lemma filter_kept_wor: "filter kept_tier (filter (\<lambda>t. \<not> is_wor t) ts) = filter kept_tier ts"
proof (rule filter_absorb)
  show "kept_tier t \<Longrightarrow> \<not> is_wor t" for t by (cases t) auto
qed

lemma same_content_timing: "same_but_timing u u' \<Longrightarrow> same_content u u'"
  unfolding same_content_def same_but_timing_def by (metis filter_kept_wor)

lemma same_content_repaired: "repaired u u' \<Longrightarrow> same_content u u'"
  using filter_kept_wor [of "ut_tiers u"] unfolding repaired_def same_content_def strip_timing_def
  by (auto simp del: filter_filter)

lemma same_content_moved: "same_content u (move_bullet ns u r)"
  by (simp add: same_content_def move_bullet_def split: option.splits)

abbreviation same_contents :: "'a utt_scheme line list \<Rightarrow> 'a utt_scheme line list \<Rightarrow> bool" where
  "same_contents ls ls' \<equiv> list_all2 same_content (utterances ls) (utterances ls')"

lemma same_contents_trans: "same_contents a b \<Longrightarrow> same_contents b c \<Longrightarrow> same_contents a c"
  by (rule list_all2_trans [of same_content same_content same_content]) (auto intro: same_content_trans)

lemma filter_kept_review: "filter kept_tier (filter (\<lambda>t. \<not> stale_review_tier t) ts) = filter kept_tier ts"
proof (rule filter_absorb)
  show "kept_tier t \<Longrightarrow> \<not> stale_review_tier t" for t by (cases t) auto
qed

lemma strip_stale_facts:
  "frame (strip_stale_fa_review_tiers ls) = frame ls" "same_contents ls (strip_stale_fa_review_tiers ls)"
  by (simp_all add: strip_stale_fa_review_tiers_def list_all2_map2 list_all2_same same_content_def
      filter_kept_review del: filter_filter)

lemma clear_media_facts [simp]:
  "utterances (clear_media_unlinked ls) = utterances ls" "clear_media_unlinked [] = []"
  by (induction ls rule: utterances.induct) (auto simp: clear_media_unlinked_def split: header.splits)

lemma frame_clear: "frame ls = frame ls' \<Longrightarrow> frame (clear_media_unlinked ls) = frame (clear_media_unlinked ls')"
proof (induction ls arbitrary: ls' rule: frame.induct)
  case 1
  then show ?case by (cases ls' rule: frame.cases) auto
next
  case (2 h ls)
  then show ?case
    by (cases ls' rule: frame.cases) (auto simp: clear_media_unlinked_def split: header.splits)
next
  case (3 u ls)
  then show ?case by (cases ls' rule: frame.cases) (auto simp: clear_media_unlinked_def)
qed

text \<open>The headers are those of the input, perhaps with the media linked again.\<close>

definition headers_kept :: "'a utt_scheme line list \<Rightarrow> 'a utt_scheme line list \<Rightarrow> bool" where
  "headers_kept ls ls' \<longleftrightarrow> frame ls' = frame ls \<or> frame ls' = frame (clear_media_unlinked ls)"

lemma inject_word_timings_same:
  "frame (snd (inject_word_timings ns ls aligned)) = frame ls \<and>
   same_contents ls (snd (inject_word_timings ns ls aligned))"
proof -
  obtain r ls' where i: "inject_loop ns ls aligned = (r, ls')" by fastforce
  then have "snd (inject_word_timings ns ls aligned) = ls'"
    by (auto simp: inject_word_timings_def split: sum.splits)
  moreover have "same_contents ls ls'"
    using inject_loop_same [OF i] by (auto elim: list_all2_mono simp: same_content_timing)
  ultimately show ?thesis using inject_loop_same [OF i] by simp
qed

lemma enforce_same: "same_contents ls (fst (enforce_fa_monotonicity ls))"
  and enforce_frame: "frame (fst (enforce_fa_monotonicity ls)) = frame ls"
proof -
  obtain ls1 n rep where s: "strip_spec 0 ls ls1 n" and e: "enforce_fa_monotonicity ls = (clamp_lines ls1, rep)"
    by (rule enforce_eq [of ls])
  have "same_contents ls ls1"
    using s by (auto simp: strip_spec_def repaired_def elim!: list_all2_mono intro!: same_content_repaired)
  moreover have "same_contents ls1 (clamp_lines ls1)"
    using clamp_lines_repaired(2) [of ls1] by (auto elim: list_all2_mono intro: same_content_repaired)
  ultimately show "same_contents ls (fst (enforce_fa_monotonicity ls))"
    using same_contents_trans by (fastforce simp: e)
  show "frame (fst (enforce_fa_monotonicity ls)) = frame ls"
    using s by (simp add: e clamp_lines_repaired strip_spec_def)
qed

lemma fa_fold_back_same:
  assumes "fa_fold_back ns ls reusable answer = (result, ls')"
  shows "headers_kept ls ls' \<and> same_contents ls ls'"
proof -
  have refl: "headers_kept ls ls \<and> same_contents ls ls"
    by (simp add: headers_kept_def list_all2_same same_content_refl)
  show ?thesis
  proof (cases "bind_res answer (\<lambda>out. bind_res (try_from_output Fa out)
      (\<lambda>fresh. merge_reused_and_fresh_segments reusable fresh))")
    case (Inl e)
    with assms refl show ?thesis by (simp add: fa_fold_back_def)
  next
    case al: (Inr aligned)
    obtain r ls1 where i: "inject_word_timings ns ls aligned = (r, ls1)" by fastforce
    with inject_word_timings_same [of ns ls aligned] have s: "frame ls1 = frame ls" "same_contents ls ls1" by auto
    show ?thesis
    proof (cases r)
      case (Inl e)
      with assms al i s show ?thesis by (simp add: fa_fold_back_def headers_kept_def)
    next
      case (Inr x)
      with assms al i
      have ls': "ls' = clear_media_unlinked (fst (enforce_fa_monotonicity ls1))" by (simp add: fa_fold_back_def)
      have "frame (clear_media_unlinked (fst (enforce_fa_monotonicity ls1))) = frame (clear_media_unlinked ls)"
        using s(1) enforce_frame [of ls1] by (intro frame_clear) simp
      moreover have "same_contents ls ls'"
        unfolding ls' clear_media_facts by (rule same_contents_trans [OF s(2) enforce_same])
      ultimately show ?thesis unfolding headers_kept_def ls' by blast
    qed
  qed
qed

lemma complete_reuse_frame: "frame (snd (refresh_complete_wor_alignment ns ls)) = frame ls"
  by (simp add: refresh_complete_eq moved_facts)

lemma complete_reuse_same: "same_contents ls (snd (refresh_complete_wor_alignment ns ls))"
proof -
  have "same_contents ls (moved ns ls)"
    by (induction ns ls rule: moved.induct) (simp_all add: same_content_moved)
  then show ?thesis by (simp add: refresh_complete_eq list_all2_same same_content_refl)
qed

abbreviation fa_lines :: "'a utt_scheme chat \<Rightarrow> 'a utt_scheme line list" where
  "fa_lines chat \<equiv> strip_stale_fa_review_tiers (ch_lines chat)"

lemma headers_kept_strip: "headers_kept (fa_lines c) ls' \<Longrightarrow> headers_kept (ch_lines c) ls'"
  using frame_clear [OF strip_stale_facts(1) [of "ch_lines c"]]
  by (auto simp: headers_kept_def strip_stale_facts)

text \<open>The four ways a run can go.\<close>

lemma fa_apply_chat_cases:
  obtains (skip) "fa_apply_chat E chat s = (Inr (), chat, [], s)" and "fe_options_skip E chat"
  | (reuse) "\<not> fe_options_skip E chat"
      and "fst (refresh_complete_wor_alignment (fe_new_source E) (fa_lines chat))"
      and "fa_apply_chat E chat s = (Inr (), chat\<lparr>ch_lines := clear_media_unlinked
        (snd (refresh_complete_wor_alignment (fe_new_source E) (fa_lines chat)))\<rparr>, [], s)"
  | (no_audio) r events where "fa_apply_chat E chat s = (Inl r, chat\<lparr>ch_lines := fa_lines chat\<rparr>, events, s)"
  | (dispatched) audio result lines' ticks s' answer events where "\<not> fe_options_skip E chat"
      and "\<not> fst (refresh_complete_wor_alignment (fe_new_source E) (fa_lines chat))"
      and "fe_dispatch E \<lparr>fi_source_id = ch_source_id chat, fi_audio = audio,
         fi_utterances = fresh_utterances (extract_utterances_for_fa (fa_lines chat))
           (collect_reusable_wor_segments (fa_lines chat)),
         fi_language = resolve_per_file_language (fe_primary_language E (chat\<lparr>ch_lines := fa_lines chat\<rparr>))\<rparr> s
         = (answer, ticks, s')"
      and "fa_fold_back (fe_new_source E) (fa_lines chat) (collect_reusable_wor_segments (fa_lines chat)) answer
         = (result, lines')"
      and "fa_apply_chat E chat s = (result, chat\<lparr>ch_lines := lines'\<rparr>, events, s')"
proof (cases "fe_options_skip E chat")
  case True
  with skip show thesis by (simp add: fa_apply_chat_def)
next
  case no_skip: False
  show thesis
  proof (cases "fst (refresh_complete_wor_alignment (fe_new_source E) (fa_lines chat))")
    case True
    with no_skip reuse show thesis by (simp add: fa_apply_chat_def)
  next
    case no_reuse: False
    let ?media = "case ch_media chat of Some m \<Rightarrow> Some m | None \<Rightarrow> fe_sibling E (chat\<lparr>ch_lines := fa_lines chat\<rparr>)"
    show thesis
    proof (cases "?media = None \<or> (\<exists>m e. ?media = Some m \<and> fe_prepare_pcm E m = Inl e)")
      case True
      with no_skip no_reuse have "\<exists>r events. fa_apply_chat E chat s = (Inl r, chat\<lparr>ch_lines := fa_lines chat\<rparr>, events, s)"
        by (auto simp: fa_apply_chat_def Let_def)
      with no_audio show thesis by blast
    next
      case False
      then obtain m audio where m: "?media = Some m" "fe_prepare_pcm E m = Inr audio"
        by (metis not_None_eq sum.exhaust)
      obtain answer ticks s' where d: "fe_dispatch E \<lparr>fi_source_id = ch_source_id chat, fi_audio = audio,
         fi_utterances = fresh_utterances (extract_utterances_for_fa (fa_lines chat))
           (collect_reusable_wor_segments (fa_lines chat)),
         fi_language = resolve_per_file_language (fe_primary_language E (chat\<lparr>ch_lines := fa_lines chat\<rparr>))\<rparr> s
         = (answer, ticks, s')" by (metis prod.exhaust)
      obtain result lines' where f: "fa_fold_back (fe_new_source E) (fa_lines chat)
          (collect_reusable_wor_segments (fa_lines chat)) answer = (result, lines')" by fastforce
      from no_skip no_reuse m d f have "\<exists>events. fa_apply_chat E chat s = (result, chat\<lparr>ch_lines := lines'\<rparr>, events, s')"
        by (simp add: fa_apply_chat_def Let_def split: prod.splits)
      with dispatched [OF no_skip no_reuse d f] show thesis by blast
    qed
  qed
qed

text \<open>C19: Forced alignment changes nothing but timing, whatever the backend answers and also when it
  fails midway: the headers stay (the media may be linked again), and each utterance keeps its speaker,
  its words, its terminator and every tier that is neither \<open>%wor\<close> nor one of the two review tiers.\<close>

theorem fa_apply_changes_timing_only:
  "headers_kept (ch_lines chat) (ch_lines (fst (snd (fa_apply_chat E chat s)))) \<and>
   same_contents (ch_lines chat) (ch_lines (fst (snd (fa_apply_chat E chat s)))) \<and>
   ch_source_id (fst (snd (fa_apply_chat E chat s))) = ch_source_id chat"
proof (cases rule: fa_apply_chat_cases [where E = E and chat = chat and s = s])
  case skip
  then show ?thesis by (simp add: headers_kept_def list_all2_same same_content_refl)
next
  case reuse
  let ?ls = "snd (refresh_complete_wor_alignment (fe_new_source E) (fa_lines chat))"
  have "frame ?ls = frame (fa_lines chat)" by (rule complete_reuse_frame)
  then have "frame (clear_media_unlinked ?ls) = frame (clear_media_unlinked (ch_lines chat))"
    by (intro frame_clear) (simp add: strip_stale_facts)
  moreover have "same_contents (ch_lines chat) ?ls"
    using same_contents_trans [OF strip_stale_facts(2) complete_reuse_same] .
  ultimately show ?thesis using reuse by (simp add: headers_kept_def)
next
  case (no_audio r events)
  then show ?thesis by (simp add: headers_kept_def strip_stale_facts)
next
  case (dispatched audio result lines' ticks s' answer events)
  from fa_fold_back_same [OF dispatched(4)]
  have "headers_kept (fa_lines chat) lines'" "same_contents (fa_lines chat) lines'" by auto
  then show ?thesis
    using dispatched(5) headers_kept_strip same_contents_trans [OF strip_stale_facts(2)] by fastforce
qed

section \<open>When a run succeeds\<close>

lemma fresh_fits:
  assumes "list_all2 (\<lambda>q a. length (sg_words a) = length (sg_words q))
      (fresh_utterances (map extract_utterance us) reusable) (fresh_utterances merged reusable)"
    and "length us = length reusable" and "length merged = length reusable"
    and "list_all (\<lambda>(r, m). case r of None \<Rightarrow> True | Some s \<Rightarrow> m = s) (zip reusable merged)"
    and "list_all (\<lambda>(u, r). case r of None \<Rightarrow> list_all (\<lambda>w. sw_text w \<noteq> []) (ut_words u) | Some s \<Rightarrow> fits u s)
      (zip us reusable)"
  shows "list_all2 fits us merged"
proof -
  have parts: "length (sg_words (extract_utterance u)) = part_counts (ut_words u)"
    if "list_all (\<lambda>w. sw_text w \<noteq> []) (ut_words u)" for u :: "'a utt_scheme"
  proof -
    have "filter (\<lambda>t. t \<noteq> []) (split_compound_filler w) = split_compound_filler w" if "sw_text w \<noteq> []" for w
      using that by (simp add: split_compound_filler_def)
    then have "filter (\<lambda>t. t \<noteq> []) (concat (map split_compound_filler ws)) = concat (map split_compound_filler ws)"
      if "list_all (\<lambda>w. sw_text w \<noteq> []) ws" for ws
      using that by (induction ws) simp_all
    with that have "sg_words (extract_utterance u) = map untimed_word (concat (map split_compound_filler (ut_words u)))"
      by (simp add: extract_utterance_def Let_def)
    then show ?thesis by (simp add: length_concat o_def)
  qed
  from assms(2) assms(3) [symmetric] assms(1,4,5) show ?thesis
  proof (induction us reusable merged rule: list_induct3)
    case (Cons u us r rs m ms)
    then show ?case using parts [of u]
      by (cases r) (auto simp: fresh_utterances_def fits_def)
  qed simp
qed

lemma fold_back_ok_iff:
  "fst (fa_fold_back ns ls reusable (Inr \<lparr>to_task = Fa, to_payload = fresh\<rparr>)) = Inr () \<longleftrightarrow>
     (\<exists>merged. merge_reused_and_fresh_segments reusable fresh = Inr merged \<and> list_all2 fits (utterances ls) merged)"
proof (cases "merge_reused_and_fresh_segments reusable fresh")
  case (Inl e)
  then show ?thesis by (simp add: fa_fold_back_def try_from_output_def)
next
  case (Inr merged)
  have "fst (fa_fold_back ns ls reusable (Inr \<lparr>to_task = Fa, to_payload = fresh\<rparr>)) = Inr () \<longleftrightarrow>
      fst (inject_word_timings ns ls merged) = Inr ()"
    using Inr by (auto simp: fa_fold_back_def try_from_output_def split: prod.splits sum.splits)
  with Inr show ?thesis by (simp add: inject_word_timings_ok)
qed

lemma fold_back_Inr_answer:
  assumes "fst (fa_fold_back ns ls reusable answer) = Inr ()"
  obtains fresh where "answer = Inr \<lparr>to_task = Fa, to_payload = fresh\<rparr>"
proof (cases answer)
  case (Inl e)
  with assms show thesis by (simp add: fa_fold_back_def)
next
  case (Inr out)
  have "to_task out = Fa"
  proof (rule ccontr)
    assume "to_task out \<noteq> Fa"
    with assms Inr show False by (simp add: fa_fold_back_def try_from_output_def)
  qed
  then have "out = \<lparr>to_task = Fa, to_payload = to_payload out\<rparr>" by (cases out) simp
  with Inr that show thesis by blast
qed

lemma fold_back_in_sequence:
  assumes "fa_fold_back ns ls reusable answer = (Inr (), ls')"
  shows "in_sequence (timed_bullets ls')"
proof -
  have clear: "timed_bullets (clear_media_unlinked ls) = timed_bullets ls" for ls :: "'a utt_scheme line list"
    by (induction ls rule: timed_bullets.induct)
      (auto simp: clear_media_unlinked_def split: header.splits option.splits)
  obtain ls1 where "ls' = clear_media_unlinked (fst (enforce_fa_monotonicity ls1))"
    using assms by (auto simp: fa_fold_back_def split: prod.splits sum.splits)
  moreover obtain ls2 n rep where "strip_spec 0 ls1 ls2 n" "enforce_fa_monotonicity ls1 = (clamp_lines ls2, rep)"
    by (rule enforce_eq [of ls1])
  ultimately show ?thesis by (simp add: clear strip_spec_def clamp_lines_in_sequence)
qed

text \<open>The inputs for which the request and the fold-back count words alike.\<close>

definition countable_words :: "'a utt_scheme line list \<Rightarrow> bool" where
  "countable_words ls =
     list_all (\<lambda>(u, r). case r of None \<Rightarrow> list_all (\<lambda>w. sw_text w \<noteq> []) (ut_words u) | Some seg \<Rightarrow> fits u seg)
       (zip (utterances ls) (collect_reusable_wor_segments ls))"

text \<open>A backend that answers a segment for each utterance and a word for each word.\<close>

definition answers_words :: "(segment list) task_output ba_result \<Rightarrow> segment list \<Rightarrow> bool" where
  "answers_words answer request = (case answer of
     Inr out \<Rightarrow> to_task out = Fa \<and> list_all2 (\<lambda>q a. length (sg_words a) = length (sg_words q)) request (to_payload out)
   | Inl e \<Rightarrow> False)"

lemma fold_back_answers:
  assumes "countable_words ls"
    and "answers_words answer (fresh_utterances (extract_utterances_for_fa ls) (collect_reusable_wor_segments ls))"
  shows "fst (fa_fold_back ns ls (collect_reusable_wor_segments ls) answer) = Inr ()"
proof -
  let ?r = "collect_reusable_wor_segments ls"
  obtain fresh where a: "answer = Inr \<lparr>to_task = Fa, to_payload = fresh\<rparr>"
    and w: "list_all2 (\<lambda>q a. length (sg_words a) = length (sg_words q))
      (fresh_utterances (map extract_utterance (utterances ls)) ?r) fresh"
  proof (cases answer)
    case (Inr out)
    with assms(2) have "out = \<lparr>to_task = Fa, to_payload = to_payload out\<rparr>"
      by (cases out) (simp add: answers_words_def)
    with Inr assms(2) that [of "to_payload out"] show thesis
      by (simp add: answers_words_def extract_utterances_for_fa_def)
  qed (use assms(2) in \<open>simp add: answers_words_def\<close>)
  have "length fresh = length (filter (\<lambda>x. x = None) ?r)"
    using list_all2_lengthD [OF w] length_fresh_utterances [of "map extract_utterance (utterances ls)" ?r] by simp
  then obtain merged where m: "merge_reused_and_fresh_segments ?r fresh = Inr merged"
    using merge_exists by blast
  then have mi: "length merged = length ?r"
      "list_all (\<lambda>(r, m). case r of None \<Rightarrow> True | Some s \<Rightarrow> m = s) (zip ?r merged)"
      "fresh_utterances merged ?r = fresh"
    by (simp_all only: merge_Inr_iff)
  have "list_all2 fits (utterances ls) merged"
  proof (rule fresh_fits [OF _ _ mi(1,2)])
    show "list_all2 (\<lambda>q a. length (sg_words a) = length (sg_words q))
        (fresh_utterances (map extract_utterance (utterances ls)) ?r) (fresh_utterances merged ?r)"
      using w mi(3) by simp
  qed (use assms(1) in \<open>simp_all add: countable_words_def\<close>)
  with m a show ?thesis by (simp add: fold_back_ok_iff)
qed

text \<open>Forced alignment gets through: when the audio is found and decoded and the backend answers a
  segment for each utterance it was sent and a timed word for each of its words, the run succeeds, and
  unless it took the fast path its utterances follow one another in time.\<close>

lemma fa_apply_succeeds:
  assumes "\<not> fe_options_skip E chat"
    and "ch_media chat = Some media" and "fe_prepare_pcm E media = Inr audio"
    and "countable_words (fa_lines chat)"
    and "\<And>input st. answers_words (fst (fe_dispatch E input st)) (fi_utterances input)"
  shows "fst (fa_apply_chat E chat s) = Inr () \<and>
    (fst (refresh_complete_wor_alignment (fe_new_source E) (fa_lines chat)) \<or>
      in_sequence (timed_bullets (ch_lines (fst (snd (fa_apply_chat E chat s))))))"
proof (cases rule: fa_apply_chat_cases [where E = E and chat = chat and s = s])
    case skip
    with assms(1) show ?thesis by simp
  next
    case reuse
    then show ?thesis by simp
  next
    case (no_audio r events)
    with assms(1-3) show ?thesis
      by (auto simp: fa_apply_chat_def Let_def split: prod.splits if_splits)
         (metis fold_back_answers [OF assms(4)] assms(5) fa_input.select_convs(3) fst_conv sum.distinct(1))
  next
    case (dispatched audio' result lines' ticks s' answer events)
    have "answers_words answer (fresh_utterances (extract_utterances_for_fa (fa_lines chat))
        (collect_reusable_wor_segments (fa_lines chat)))"
      using assms(5) [of "\<lparr>fi_source_id = ch_source_id chat, fi_audio = audio',
         fi_utterances = fresh_utterances (extract_utterances_for_fa (fa_lines chat))
           (collect_reusable_wor_segments (fa_lines chat)),
         fi_language = resolve_per_file_language (fe_primary_language E (chat\<lparr>ch_lines := fa_lines chat\<rparr>))\<rparr>" s]
        dispatched(3) by simp
    from fold_back_answers [OF assms(4) this, of "fe_new_source E"] dispatched(4) have "result = Inr ()" by simp
    with dispatched(4,5) fold_back_in_sequence show ?thesis by simp blast
qed

text \<open>An utterance whose \<open>%wor\<close> tier is reused and which has a compound filler (a word that is asked
  for in several parts) makes every partial run fail, whatever the backend answers: the reused segment
  has one word for it, the fold-back expects one for each part.\<close>

lemma reused_compound_filler_fails:
  assumes "\<not> fe_options_skip E chat" and "\<not> all_reusable (fa_lines chat)"
    and "(u, Some seg) \<in> set (zip (utterances (fa_lines chat)) (collect_reusable_wor_segments (fa_lines chat)))"
    and "part_counts (ut_words u) \<noteq> length (ut_words u)"
  shows "fst (fa_apply_chat E chat s) \<noteq> Inr ()"
proof (cases rule: fa_apply_chat_cases [where E = E and chat = chat and s = s])
  case skip
  with assms(1) show ?thesis by simp
next
  case reuse
  with assms(2) show ?thesis by (simp add: refresh_complete_eq split: if_splits)
next
  case (no_audio r events)
  then show ?thesis by simp
next
  case (dispatched audio result lines' ticks s' answer events)
  let ?ls = "fa_lines chat" and ?r = "collect_reusable_wor_segments (fa_lines chat)"
  have reused: "\<exists>n. reuse_segment u n = Some seg" if "(u, Some seg) \<in> set (zip (utterances ls) (collect_reusable_wor_segments ls))"
    for ls using that by (induction ls rule: moved.induct [of "\<lambda>ns. _"]) (auto dest: sym)
  have no_fit: "\<not> fits u seg"
    using reused [OF assms(3)] inject_reused assms(4) inject_utterance_ok by metis
  show ?thesis
  proof
    assume "fst (fa_apply_chat E chat s) = Inr ()"
    then have "fst (fa_fold_back (fe_new_source E) ?ls ?r answer) = Inr ()" using dispatched(4,5) by simp
    then obtain merged fresh where m: "merge_reused_and_fresh_segments ?r fresh = Inr merged"
        and fit: "list_all2 fits (utterances ?ls) merged"
      by (metis fold_back_Inr_answer fold_back_ok_iff)
    from m have "list_all (\<lambda>(r, m). case r of None \<Rightarrow> True | Some s \<Rightarrow> m = s) (zip ?r merged)"
      by (simp only: merge_Inr_iff)
    moreover obtain i where i: "i < length ?r" "?r ! i = Some seg" "utterances ?ls ! i = u"
      using assms(3) by (auto simp: in_set_zip)
    moreover have "length merged = length ?r" using m by (simp only: merge_Inr_iff)
    ultimately have "merged ! i = seg" by (auto simp: list_all_length)
    with fit i no_fit show False by (auto simp: list_all2_conv_all_nth)
  qed
qed

section \<open>Examples\<close>

definition sample_fa_utt :: "fa_word list \<Rightarrow> bullet option \<Rightarrow> wor_word list \<Rightarrow> utt" where
  "sample_fa_utt ws b wor = \<lparr>ut_speaker = str ''CHI'', ut_words = ws, ut_bullet = b,
     ut_tiers = (if wor = [] then [] else [WorTier wor (Some (str ''.''))]), ut_terminator = Some (str ''.'')\<rparr>"

definition plain_word :: "string \<Rightarrow> fa_word" where
  "plain_word t = \<lparr>sw_text = str t, sw_filler = False\<rparr>"

definition filler_word :: "string \<Rightarrow> fa_word" where
  "filler_word t = \<lparr>sw_text = str t, sw_filler = True\<rparr>"

definition timed_wor :: "string \<Rightarrow> nat \<Rightarrow> nat \<Rightarrow> wor_word" where
  "timed_wor t s e = \<lparr>ww_text = str t, ww_bullet = Some (bullet_new Authoritative s e)\<rparr>"

text \<open>A backend that echoes its request, words untimed.\<close>

definition echo_env :: "(unit, unit, unit) fa_env" where
  "echo_env = \<lparr>fe_options_skip = (\<lambda>_. False), fe_primary_language = (\<lambda>_. None), fe_sibling = (\<lambda>_. None),
     fe_prepare_pcm = (\<lambda>_. Inr ()),
     fe_dispatch = (\<lambda>input st. (Inr \<lparr>to_task = Fa, to_payload = fi_utterances input\<rparr>, [], st)),
     fe_new_source = Authoritative\<rparr>"

definition sample_chat :: "utt list \<Rightarrow> utt chat" where
  "sample_chat us = \<lparr>ch_lines = map UtteranceLine us, ch_source_id = str ''a.cha'',
     ch_media = Some \<lparr>mi_source_id = str ''a.cha'', mi_path = str ''a.wav'', mi_language = None\<rparr>\<rparr>"

definition fresh_utt :: utt where "fresh_utt = sample_fa_utt [plain_word ''hi''] None []"

definition filler_utt :: utt where
  "filler_utt = sample_fa_utt [filler_word ''you_know''] (Some (bullet_new Authoritative 100 350))
     [timed_wor ''you_know'' 100 350]"

lemmas fa_samples = sample_fa_utt_def plain_word_def filler_word_def timed_wor_def echo_env_def sample_chat_def
  fresh_utt_def filler_utt_def bullet_new_def

lemma fa_apply_succeeds_witness:
  "fst (fa_apply_chat echo_env (sample_chat [fresh_utt]) ()) = Inr ()"
proof -
  have words: "countable_words (fa_lines (sample_chat [fresh_utt]))" by code_simp
  have echo: "answers_words (fst (fe_dispatch echo_env input st)) (fi_utterances input)" for input st
    by (simp add: answers_words_def echo_env_def list_all2_refl)
  show ?thesis
    using fa_apply_succeeds [of echo_env "sample_chat [fresh_utt]" _ "()", OF _ _ _ words echo]
    by (simp add: fa_samples)
qed

lemma reused_compound_filler_fails_witness:
  "fst (fa_apply_chat echo_env (sample_chat [filler_utt, fresh_utt]) ()) \<noteq> Inr ()"
proof (rule reused_compound_filler_fails)
  show "\<not> fe_options_skip echo_env (sample_chat [filler_utt, fresh_utt])" by (simp add: echo_env_def)
  show "\<not> all_reusable (fa_lines (sample_chat [filler_utt, fresh_utt]))" by code_simp
  show "(filler_utt, Some \<lparr>sg_start = 100, sg_end = 350, sg_text = str ''you_know'', sg_speaker = Some (str ''CHI''),
      sg_words = [\<lparr>tw_text = str ''you_know'', tw_start = 100, tw_end = 350, tw_confidence = None\<rparr>]\<rparr>)
    \<in> set (zip (utterances (fa_lines (sample_chat [filler_utt, fresh_utt])))
        (collect_reusable_wor_segments (fa_lines (sample_chat [filler_utt, fresh_utt]))))"
    by code_simp
  show "part_counts (ut_words filler_utt) \<noteq> length (ut_words filler_utt)" by code_simp
qed

text \<open>The fast path compares the end of a reused utterance with the old start of the next bullet and
  skips the repair of backward timing: a document whose bullets are in sequence can come out with
  bullets that run backwards.\<close>

lemma complete_reuse_can_run_backwards:
  "\<exists>chat :: utt chat. in_sequence (timed_bullets (ch_lines chat)) \<and>
     fst (fa_apply_chat echo_env chat ()) = Inr () \<and>
     \<not> in_sequence (timed_bullets (ch_lines (fst (snd (fa_apply_chat echo_env chat ())))))"
proof -
  let ?chat = "sample_chat
    [sample_fa_utt [plain_word ''a''] (Some (bullet_new Authoritative 0 600)) [timed_wor ''a'' 500 600],
     sample_fa_utt [plain_word ''b''] (Some (bullet_new Authoritative 700 900)) [timed_wor ''b'' 100 200]]"
  have "in_sequence (timed_bullets (ch_lines ?chat))" by code_simp
  moreover have "fst (fa_apply_chat echo_env ?chat ()) = Inr ()" by code_simp
  moreover have "\<not> in_sequence (timed_bullets (ch_lines (fst (snd (fa_apply_chat echo_env ?chat ())))))" by code_simp
  ultimately show ?thesis by blast
qed

end
