(* ===== verification/AsrPrepare.thy ===== *)
theory AsrPrepare
  imports Prelude Complex_Main
begin

text \<open>
  \<^verbatim>\<open>batchalign-core/src/asr\<close>: the token types and the preparation passes (\<^verbatim>\<open>mod.rs\<close>,
  \<^verbatim>\<open>asr_types.rs\<close>, \<^verbatim>\<open>compounds.rs\<close>, \<^verbatim>\<open>prepare.rs\<close>, \<^verbatim>\<open>expand.rs\<close>,
  \<^verbatim>\<open>cantonese.rs\<close>, \<^verbatim>\<open>cleanup.rs\<close> up to the quote and title passes). The lemmas show that a
  token split into parts is tiled by the times of its parts, and that the boundary passes are
  idempotent.
\<close>

section \<open>Types\<close>

datatype word_kind = Regular | Retrace

record asr_word =
  aw_text :: rstr
  aw_start :: "int option"
  aw_end :: "int option"
  aw_kind :: word_kind

definition asr_word_new :: "rstr \<Rightarrow> int option \<Rightarrow> int option \<Rightarrow> asr_word" where
  "asr_word_new t s e = \<lparr>aw_text = t, aw_start = s, aw_end = e, aw_kind = Regular\<rparr>"

record asr_utterance =
  au_speaker :: nat
  au_words :: "asr_word list"
  au_lang :: "rstr option"

record prepared_chunk =
  pc_speaker :: nat
  pc_words :: "asr_word list"

datatype asr_element_kind = TextElement | PunctuationElement

text \<open>An \<open>f64\<close> timestamp: a finite value (an exact rational here) or a NaN or an infinity.\<close>

datatype f64 = Finite rat | NonFinite

record asr_element =
  ae_value :: rstr
  ae_ts :: f64
  ae_end_ts :: f64
  ae_kind :: asr_element_kind

record asr_monologue =
  am_speaker :: nat
  am_elements :: "asr_element list"

text \<open>
  What the passes call that is not code of this directory: the compound list of
  \<^verbatim>\<open>data/compounds.json\<close>, the number rules (\<^verbatim>\<open>num2text\<close> with its regular expressions and JSON
  tables; the prefix length is in characters), OpenCC, the Aho-Corasick replacer, and the CHAT word
  parser with its closed set of terminators.
\<close>

record asr_env =
  env_unicode :: unicode
  env_compound :: "rstr \<Rightarrow> rstr \<Rightarrow> bool"
  env_expand_number :: "rstr \<Rightarrow> rstr \<Rightarrow> rstr"
  env_protected_prefix_len :: "rstr \<Rightarrow> rstr \<Rightarrow> nat option"
  env_opencc :: "rstr \<Rightarrow> rstr"
  env_replace_all :: "(rstr \<times> rstr) list \<Rightarrow> rstr \<Rightarrow> rstr"
  env_parse_word :: "rstr \<Rightarrow> bool"
  env_is_chat_terminator :: "rstr \<Rightarrow> bool"

section \<open>Constants\<close>

definition ENDING_PUNCT :: "rstr list" where
  "ENDING_PUNCT =
     [str ''.'', str ''?'', str ''!'', str ''+...'', str ''+/.'', str ''+//.'', str ''+/?'', str ''+!?'',
      str ''+'' @ [34] @ str ''/.'', str ''+'' @ [34] @ str ''.'', str ''+//?'', str ''+..?'', str ''+.'',
      str ''...'', str ''(.)'']"

definition MOR_PUNCT :: "rstr list" where
  "MOR_PUNCT = [[8225], [8222], str '','']"

definition RTL_PUNCT :: "(rstr \<times> rstr) list" where
  "RTL_PUNCT = [([1567], str ''?''), ([1748], str ''.''), ([1548], str '',''), ([1563], str '';'')]"

definition MAX_TURN_LEN :: nat where "MAX_TURN_LEN = 300"
definition LONG_PAUSE_SPLIT_MS :: int where "LONG_PAUSE_SPLIT_MS = 800"

definition LONG_PAUSE_SENTENCE_STARTERS :: "rstr list" where
  "LONG_PAUSE_SENTENCE_STARTERS = map str
     [''and'', ''but'', ''did'', ''do'', ''does'', ''go'', ''have'', ''has'', ''had'', ''he'', ''how'', ''i'',
      ''is'', ''it'', ''no'', ''now'', ''okay'', ''so'', ''then'', ''they'', ''we'', ''well'', ''what'',
      ''when'', ''where'', ''who'', ''why'', ''yes'', ''you'']"

section \<open>Validated words\<close>

text \<open>\<open>structural_check\<close> and \<open>TryFrom\<close>: whether the text becomes a \<open>ChatWordText\<close>.\<close>

definition chat_word_ok :: "asr_env \<Rightarrow> rstr \<Rightarrow> bool" where
  "chat_word_ok env s =
     (if env_is_chat_terminator env s then True
      else if s \<in> set MOR_PUNCT then True
      else env_parse_word env s)"

section \<open>Compound merging\<close>

fun merge_compounds_loop :: "asr_env \<Rightarrow> asr_element list \<Rightarrow> asr_element list" where
  "merge_compounds_loop env [] = []"
| "merge_compounds_loop env [e] = [e]"
| "merge_compounds_loop env (e1 # e2 # es) =
     (if env_compound env (ae_value e1) (ae_value e2)
      then \<lparr>ae_value = ae_value e1 @ ae_value e2, ae_ts = ae_ts e1, ae_end_ts = ae_end_ts e1,
            ae_kind = TextElement\<rparr> # merge_compounds_loop env es
      else e1 # merge_compounds_loop env (e2 # es))"

definition merge_compounds :: "asr_env \<Rightarrow> asr_element list \<Rightarrow> asr_element list" where
  "merge_compounds env elements =
     (if length elements < 2 then elements else merge_compounds_loop env elements)"

section \<open>Title periods on raw elements\<close>

definition EN_TITLE_PERIOD_SURFACES :: "rstr list" where
  "EN_TITLE_PERIOD_SURFACES = map str
     [''dr.'', ''mr.'', ''mrs.'', ''prof.'', ''st.'', ''mt.'', ''ave.'', ''a.m.'', ''p.m.'', ''u.s.'',
      ''j.f.k.'', ''ph.d.'', ''m.d.'', ''etc.'', ''e.g.'', ''i.e.'']"

definition strip_title_period :: "unicode \<Rightarrow> rstr \<Rightarrow> rstr" where
  "strip_title_period U t =
     (if to_lowercase U t \<in> set EN_TITLE_PERIOD_SURFACES then filter (\<lambda>c. c \<noteq> 46) t else t)"

definition strip_english_title_periods_on_elements ::
    "unicode \<Rightarrow> asr_element list \<Rightarrow> rstr \<Rightarrow> asr_element list" where
  "strip_english_title_periods_on_elements U elements lang =
     (if lang \<noteq> str ''eng'' then elements
      else map (\<lambda>e. e\<lparr>ae_value := strip_title_period U (ae_value e)\<rparr>) elements)"

section \<open>Timed words\<close>

text \<open>\<open>(x * 1000.0).round() as i64\<close>: halves away from zero, then a saturating cast.\<close>

definition round_f64 :: "rat \<Rightarrow> int" where
  "round_f64 x = (if x \<ge> 0 then \<lfloor>x + 1/2\<rfloor> else \<lceil>x - 1/2\<rceil>)"

definition sat_i64 :: "int \<Rightarrow> int" where
  "sat_i64 n = max (- (2 ^ 63)) (min (2 ^ 63 - 1) n)"

definition normalized_timing_range :: "f64 \<Rightarrow> f64 \<Rightarrow> int option \<times> int option" where
  "normalized_timing_range start_s end_s =
     (case (start_s, end_s) of
        (Finite s, Finite e) \<Rightarrow>
          (let start_ms = sat_i64 (round_f64 (s * 1000)); end_ms = sat_i64 (round_f64 (e * 1000))
           in if end_ms \<le> start_ms then (None, None) else (Some start_ms, Some end_ms))
      | _ \<Rightarrow> (None, None))"

definition extract_timed_word :: "asr_element \<Rightarrow> asr_word list" where
  "extract_timed_word elem =
     (let value = trim (ae_value elem)
      in if value = [] then []
         else if hd value = 60 \<and> last value = 62 then []
         else (case normalized_timing_range (ae_ts elem) (ae_end_ts elem) of
             (start_ms, end_ms) \<Rightarrow> [asr_word_new value start_ms end_ms]))"

definition extract_timed_words :: "asr_element list \<Rightarrow> asr_word list" where
  "extract_timed_words elements = concat (map extract_timed_word elements)"

section \<open>Boundary passes\<close>

definition trim_word :: "(rchar \<Rightarrow> bool) \<Rightarrow> asr_word \<Rightarrow> asr_word list" where
  "trim_word is_strip word =
     (let stripped = trim_matches is_strip (aw_text word)
      in if stripped = [] then [] else [word\<lparr>aw_text := stripped\<rparr>])"

definition trim_word_boundaries :: "(rchar \<Rightarrow> bool) \<Rightarrow> asr_word list \<Rightarrow> asr_word list" where
  "trim_word_boundaries is_strip words = concat (map (trim_word is_strip) words)"

definition is_strippable :: "rchar \<Rightarrow> bool" where
  "is_strippable c \<longleftrightarrow> c = 44 \<or> c = 8222 \<or> c = 8225 \<or> c = 1548 \<or> c = 1563"

definition strip_separator_words :: "asr_word list \<Rightarrow> asr_word list" where
  "strip_separator_words words = trim_word_boundaries is_strippable words"

definition is_boundary_quote :: "rchar \<Rightarrow> bool" where
  "is_boundary_quote c \<longleftrightarrow>
     c = 34 \<or> c = 8220 \<or> c = 8221 \<or> c = 8222 \<or> c = 8216 \<or> c = 8217 \<or> c = 171 \<or> c = 187"

definition strip_boundary_quotes :: "asr_word list \<Rightarrow> asr_word list" where
  "strip_boundary_quotes words = trim_word_boundaries is_boundary_quote words"

section \<open>Cantonese\<close>

definition REPLACEMENTS :: "(rstr \<times> rstr) list" where
  "REPLACEMENTS =
     [([32879, 32363], [32879, 32363]), ([32879, 20418], [32879, 32363]), ([31995, 21834], [20418, 21834]),
      ([30495, 31995], [30495, 20418]), ([21780, 31995], [21780, 20418]), ([20013, 24847], [37758, 24847]),
      ([36938, 27700], [28216, 27700]), ([32675, 32068], [32676, 32068]), ([21476, 20180], [25925, 20180]),
      ([36611, 21098], [37496, 21098]), ([34909, 28092], [27798, 28092]), ([20998, 37758], [20998, 37912]),
      ([37325, 24489], [37325, 35079]), ([31995], [20418]), ([32363], [20418]), ([21568], [21834]),
      ([22134], [13774]), ([21671], [21602]), ([21996], [21902]), ([21482], [38587]), ([21679], [22217]),
      ([22151], [21523]), ([21867], [21643]), ([21703], [22057]), ([30528], [33879]), ([22046], [21895]),
      ([21877], [22083]), ([29973], [14828]), ([29248], [24202]), ([26494], [39686]), ([21557], [22024])]"

definition normalize_cantonese :: "asr_env \<Rightarrow> rstr \<Rightarrow> rstr" where
  "normalize_cantonese env s = env_replace_all env REPLACEMENTS (env_opencc env s)"

definition is_cjk_punct_or_space :: "rchar \<Rightarrow> bool" where
  "is_cjk_punct_or_space c \<longleftrightarrow>
     c = 12288 \<or> c = 12289 \<or> c = 12290 \<or> c = 65292 \<or> c = 65281 \<or> c = 65311 \<or> c = 12300 \<or> c = 12301 \<or>
     c = 65306 \<or> c = 65307 \<or> is_ascii_whitespace c"

definition cantonese_char_tokens :: "asr_env \<Rightarrow> rstr \<Rightarrow> rstr list" where
  "cantonese_char_tokens env s =
     map (\<lambda>c. [c]) (filter (\<lambda>c. \<not> is_cjk_punct_or_space c) (normalize_cantonese env s))"

definition normalize_cantonese_words :: "asr_env \<Rightarrow> asr_word list \<Rightarrow> asr_word list" where
  "normalize_cantonese_words env words = map (\<lambda>w. w\<lparr>aw_text := normalize_cantonese env (aw_text w)\<rparr>) words"

section \<open>Splitting tokens\<close>

definition is_cjk_ideograph :: "rchar \<Rightarrow> bool" where
  "is_cjk_ideograph c \<longleftrightarrow>
     (13312 \<le> c \<and> c \<le> 19903) \<or> (19968 \<le> c \<and> c \<le> 40959) \<or> (63744 \<le> c \<and> c \<le> 64255) \<or>
     (131072 \<le> c \<and> c \<le> 173791) \<or> (173824 \<le> c \<and> c \<le> 177983) \<or> (177984 \<le> c \<and> c \<le> 178207) \<or>
     (178208 \<le> c \<and> c \<le> 183983) \<or> (194560 \<le> c \<and> c \<le> 195103)"

definition should_split_cantonese_chars :: "rstr \<Rightarrow> bool" where
  "should_split_cantonese_chars t =
     (if list_ex (\<lambda>c. is_ascii_alphabetic c \<or> is_ascii_digit c) t then False
      else list_ex is_cjk_ideograph t)"

text \<open>\<open>None\<close>: no separator; \<open>Some None\<close>: dropped; \<open>Some (Some t)\<close>: replaced by \<open>t\<close>.\<close>

definition normalized_split_separator :: "rchar \<Rightarrow> rstr option option" where
  "normalized_split_separator c =
     (if c = 46 then Some (Some (str ''.''))
      else if c = 63 \<or> c = 65311 \<or> c = 1567 then Some (Some (str ''?''))
      else if c = 33 \<or> c = 65281 then Some (Some (str ''!''))
      else if c = 44 \<or> c = 65292 \<or> c = 12289 \<or> c = 1548 then Some (Some (str '',''))
      else if c = 191 \<or> c = 161 then Some None
      else if c = 12290 then Some (Some (str ''.''))
      else None)"

definition expand_language_part :: "asr_env \<Rightarrow> rstr \<Rightarrow> rstr \<Rightarrow> (rstr \<times> bool) list" where
  "expand_language_part env lang t =
     (if lang \<noteq> str ''yue'' \<or> \<not> should_split_cantonese_chars t then [(t, False)]
      else (let tokens = cantonese_char_tokens env t
            in if length tokens \<le> 1 then [(t, False)] else map (\<lambda>k. (k, False)) tokens))"

definition flush_current :: "(rstr \<times> bool) list \<Rightarrow> rstr \<Rightarrow> (rstr \<times> bool) list" where
  "flush_current parts current = (if current \<noteq> [] then parts @ [(current, False)] else parts)"

text \<open>
  The scanning loop. A protected prefix of length 0 would keep the loop at the same position, so
  the loop is a partial function; the number rules never match the empty text.
\<close>

partial_function (option) scan_parts ::
    "asr_env \<Rightarrow> rstr \<Rightarrow> (rstr \<times> bool) list \<Rightarrow> rstr \<Rightarrow> rstr \<Rightarrow> (rstr \<times> bool) list option" where
  "scan_parts env lang parts current remaining =
     (if remaining = [] then Some (flush_current parts current)
      else (case (if current = [] then env_protected_prefix_len env remaining lang else None) of
          Some len \<Rightarrow>
            scan_parts env lang (parts @ [(take len remaining, False)]) current (drop len remaining)
        | None \<Rightarrow>
            (let ch = hd remaining; rest = tl remaining
             in if is_whitespace ch then scan_parts env lang (flush_current parts current) [] rest
                else (case normalized_split_separator ch of
                    Some separator \<Rightarrow>
                      scan_parts env lang
                        (flush_current parts current @
                           (case separator of Some t \<Rightarrow> [(t, True)] | None \<Rightarrow> [])) [] rest
                  | None \<Rightarrow> scan_parts env lang parts (current @ [ch]) rest))))"

declare scan_parts.simps [code]

definition text_chars :: "(rstr \<times> bool) list \<Rightarrow> nat" where
  "text_chars parts = sum_list (map (\<lambda>(t, is_separator). if is_separator then 0 else length t) parts)"

text \<open>The timing pass over the parts; \<open>consumed\<close> counts the characters placed so far.\<close>

fun time_parts :: "(int \<times> int) option \<Rightarrow> nat \<Rightarrow> nat \<Rightarrow> (rstr \<times> bool) list \<Rightarrow> asr_word list" where
  "time_parts total_span tot consumed [] = []"
| "time_parts total_span tot consumed ((t, is_separator) # parts) =
     (if is_separator then asr_word_new t None None # time_parts total_span tot consumed parts
      else (case total_span of
          None \<Rightarrow> asr_word_new t None None # time_parts total_span tot consumed parts
        | Some (start, dur) \<Rightarrow>
            (let part_start = start + dur * int consumed div int tot;
                 consumed' = consumed + length t;
                 part_end = start + dur * int consumed' div int tot
             in asr_word_new t (Some part_start) (Some part_end)
                  # time_parts total_span tot consumed' parts)))"

definition total_span :: "asr_word \<Rightarrow> nat \<Rightarrow> (int \<times> int) option" where
  "total_span word tot =
     (case (aw_start word, aw_end word) of
        (Some start, Some end') \<Rightarrow> if end' > start \<and> tot > 0 then Some (start, end' - start) else None
      | _ \<Rightarrow> None)"

definition split_chunk_word :: "asr_env \<Rightarrow> asr_word \<Rightarrow> rstr \<Rightarrow> asr_word list option" where
  "split_chunk_word env word lang =
     map_option (\<lambda>raw.
       (let parts = concat (map (\<lambda>(t, is_separator).
              if is_separator then [(t, True)] else expand_language_part env lang t) raw)
        in if length parts = 1 \<and> \<not> snd (hd parts) \<and> fst (hd parts) = aw_text word then [word]
           else time_parts (total_span word (text_chars parts)) (text_chars parts) 0 parts))
     (scan_parts env lang [] [] (aw_text word))"

definition join_hyphen :: "asr_word list \<Rightarrow> asr_word \<Rightarrow> asr_word list" where
  "join_hyphen result word =
     butlast result @ [(last result)\<lparr>aw_text := aw_text (last result) @ aw_text word, aw_end := aw_end word\<rparr>]"

fun split_multiword_loop :: "asr_env \<Rightarrow> rstr \<Rightarrow> asr_word list \<Rightarrow> asr_word list \<Rightarrow> asr_word list option" where
  "split_multiword_loop env lang result [] = Some result"
| "split_multiword_loop env lang result (word # words) =
     (if aw_text word \<noteq> [] \<and> hd (aw_text word) = 45 \<and> result \<noteq> []
      then split_multiword_loop env lang (join_hyphen result word) words
      else (case split_chunk_word env word lang of
          None \<Rightarrow> None
        | Some ws \<Rightarrow> split_multiword_loop env lang (result @ ws) words))"

definition split_multiword_tokens :: "asr_env \<Rightarrow> asr_word list \<Rightarrow> rstr \<Rightarrow> asr_word list option" where
  "split_multiword_tokens env words lang = split_multiword_loop env lang [] words"

definition PERCENT_WORD_BY_LANG :: "(rstr \<times> rstr) list" where
  "PERCENT_WORD_BY_LANG =
     [(str ''eng'', str ''percent''), (str ''fra'', str ''pour_cent''), (str ''spa'', str ''por_ciento''),
      (str ''deu'', str ''Prozent''), (str ''ita'', str ''per_cento''), (str ''por'', str ''por_cento''),
      (str ''nld'', str ''procent''), (str ''jpn'', [12497, 12540, 12475, 12531, 12488]),
      (str ''zho'', [30334, 20998]), (str ''cmn'', [30334, 20998]), (str ''yue'', [30334, 20998])]"

definition language_percent_word :: "unicode \<Rightarrow> rstr \<Rightarrow> rstr option" where
  "language_percent_word U lang = map_of PERCENT_WORD_BY_LANG (to_lowercase U lang)"

definition split_percent_suffix_word :: "unicode \<Rightarrow> rstr \<Rightarrow> asr_word \<Rightarrow> asr_word list" where
  "split_percent_suffix_word U lang word =
     (case strip_suffix (str ''%'') (aw_text word) of
        None \<Rightarrow> [word]
      | Some digit_prefix \<Rightarrow>
          if digit_prefix = [] \<or> \<not> list_all is_ascii_digit digit_prefix then [word]
          else
            (let (digit_start, digit_end, percent_start, percent_end) =
               (case (aw_start word, aw_end word) of
                  (Some start, Some end') \<Rightarrow>
                    if end' > start then
                      (let total_chars = int (length (aw_text word));
                           digit_chars = int (length digit_prefix);
                           split = start + (end' - start) * digit_chars div max total_chars 1
                       in (Some start, Some split, Some split, Some end'))
                    else (aw_start word, aw_end word, None, None)
                | _ \<Rightarrow> (aw_start word, aw_end word, None, None))
             in asr_word_new digit_prefix digit_start digit_end #
                (case language_percent_word U lang of
                   Some percent_word \<Rightarrow> [asr_word_new percent_word percent_start percent_end]
                 | None \<Rightarrow> [])))"

definition split_percent_suffix_words :: "unicode \<Rightarrow> asr_word list \<Rightarrow> rstr \<Rightarrow> asr_word list" where
  "split_percent_suffix_words U words lang = concat (map (split_percent_suffix_word U lang) words)"

definition prepare_words_pre_expansion :: "asr_env \<Rightarrow> asr_element list \<Rightarrow> rstr \<Rightarrow> asr_word list option" where
  "prepare_words_pre_expansion env elements lang =
     (let U = env_unicode env;
          merged = strip_english_title_periods_on_elements U (merge_compounds env elements) lang;
          words = strip_boundary_quotes (strip_separator_words (extract_timed_words merged))
      in map_option (\<lambda>ws. split_percent_suffix_words U (strip_boundary_quotes ws) lang)
           (split_multiword_tokens env words lang))"

section \<open>Number expansion\<close>

fun time_expanded :: "(int \<times> int) option \<Rightarrow> int \<Rightarrow> int \<Rightarrow> word_kind \<Rightarrow> rstr list \<Rightarrow> asr_word list" where
  "time_expanded timing tot consumed kind [] = []"
| "time_expanded timing tot consumed kind (part # parts) =
     (case timing of
        Some (s, dur) \<Rightarrow>
          (let start = s + dur * consumed div max tot 1;
               consumed' = consumed + int (length part);
               end' = s + dur * consumed' div max tot 1
           in \<lparr>aw_text = part, aw_start = Some start, aw_end = Some end', aw_kind = kind\<rparr>
                # time_expanded timing tot consumed' kind parts)
      | None \<Rightarrow> \<lparr>aw_text = part, aw_start = None, aw_end = None, aw_kind = kind\<rparr>
                # time_expanded timing tot consumed kind parts)"

definition split_expanded_text_into_words ::
    "rstr \<Rightarrow> int option \<Rightarrow> int option \<Rightarrow> word_kind \<Rightarrow> asr_word list" where
  "split_expanded_text_into_words expanded start_ms end_ms kind =
     (let parts = split_whitespace expanded
      in if parts = [] then []
         else (let total_chars = sum_list (map (\<lambda>p. int (length p)) parts);
                   timing = (case (start_ms, end_ms) of
                       (Some s, Some e) \<Rightarrow> if e > s \<and> total_chars > 0 then Some (s, e - s) else None
                     | _ \<Rightarrow> None)
               in time_expanded timing total_chars 0 kind parts))"

definition expand_numbers_in_word :: "asr_env \<Rightarrow> rstr \<Rightarrow> asr_word \<Rightarrow> asr_word list" where
  "expand_numbers_in_word env lang w =
     (let expanded = env_expand_number env (aw_text w) lang
      in if \<not> list_ex is_whitespace expanded then [w\<lparr>aw_text := expanded\<rparr>]
         else split_expanded_text_into_words expanded (aw_start w) (aw_end w) (aw_kind w))"

definition expand_numbers_in_words :: "asr_env \<Rightarrow> asr_word list \<Rightarrow> rstr \<Rightarrow> asr_word list" where
  "expand_numbers_in_words env words lang = concat (map (expand_numbers_in_word env lang) words)"

definition split_words_with_whitespace :: "asr_word list \<Rightarrow> asr_word list" where
  "split_words_with_whitespace words =
     (if \<not> list_ex (\<lambda>w. list_ex is_whitespace (aw_text w)) words then words
      else concat (map (\<lambda>w.
        if list_ex is_whitespace (aw_text w)
        then split_expanded_text_into_words (aw_text w) (aw_start w) (aw_end w) (aw_kind w)
        else [w]) words))"

section \<open>Lemmas\<close>

subsection \<open>Times of the parts of a split token\<close>

text \<open>
  The timed words of the list, in order, cut the interval from \<open>s\<close> to \<open>e\<close> into consecutive pieces;
  untimed words (separators) may stand between them.
\<close>

fun tiles :: "int \<Rightarrow> int \<Rightarrow> asr_word list \<Rightarrow> bool" where
  "tiles s e [] \<longleftrightarrow> s = e"
| "tiles s e (w # ws) \<longleftrightarrow>
     (case (aw_start w, aw_end w) of
        (Some a, Some b) \<Rightarrow> a = s \<and> a \<le> b \<and> tiles b e ws
      | (None, None) \<Rightarrow> tiles s e ws
      | _ \<Rightarrow> False)"

definition untimed :: "asr_word \<Rightarrow> bool" where
  "untimed w \<longleftrightarrow> aw_start w = None \<and> aw_end w = None"

lemma share_mono:
  fixes d c c' t :: int
  assumes "0 \<le> d" "c \<le> c'" "0 \<le> t"
  shows "d * c div t \<le> d * c' div t"
  using assms by (cases "t = 0") (auto intro!: zdiv_mono1 mult_left_mono)

lemma time_parts_tiles:
  assumes "0 \<le> d" and "0 < tot"
  shows "tiles (start + d * int consumed div int tot) (start + d * int (consumed + text_chars parts) div int tot)
           (time_parts (Some (start, d)) tot consumed parts)"
proof (induction parts arbitrary: consumed)
  case Nil
  show ?case by (simp add: text_chars_def)
next
  case (Cons p parts)
  obtain t sep where p: "p = (t, sep)" by (cases p)
  show ?case
  proof (cases sep)
    case True
    with Cons [of consumed] p show ?thesis by (simp add: asr_word_new_def text_chars_def)
  next
    case False
    have "d * int consumed div int tot \<le> d * int (consumed + length t) div int tot"
      by (rule share_mono) (use assms in auto)
    with Cons [of "consumed + length t"] p False show ?thesis
      by (simp add: asr_word_new_def text_chars_def Let_def add.assoc)
  qed
qed

lemma time_parts_untimed: "list_all untimed (time_parts None tot consumed parts)"
  by (induction parts) (auto simp: untimed_def asr_word_new_def)

lemma time_expanded_tiles:
  assumes "0 \<le> d" and "0 < tot"
  shows "tiles (s + d * consumed div tot) (s + d * (consumed + sum_list (map (\<lambda>p. int (length p)) parts)) div tot)
           (time_expanded (Some (s, d)) tot consumed kind parts)"
proof (induction parts arbitrary: consumed)
  case (Cons p parts)
  have "d * consumed div tot \<le> d * (consumed + int (length p)) div tot"
    by (rule share_mono) (use assms in auto)
  with Cons [of "consumed + int (length p)"] assms show ?case by (simp add: Let_def add.assoc)
qed simp

text \<open>Splitting a token keeps its time: when the token lasts from \<open>s\<close> to \<open>e\<close>, the parts it is
  split into either tile exactly this interval (the first timed part starts at \<open>s\<close>, each next one
  starts where the last ended, the final one ends at \<open>e\<close>), or none of them carries a time, which only
  happens when every part is a bare separator.\<close>

lemma split_token_tiles_time:
  assumes "split_chunk_word env word lang = Some ws"
    and "aw_start word = Some s" and "aw_end word = Some e" and "s < e"
  shows "tiles s e ws \<or> list_all untimed ws"
proof -
  obtain raw where raw: "scan_parts env lang [] [] (aw_text word) = Some raw"
    using assms(1) by (auto simp: split_chunk_word_def)
  define parts where "parts = concat (map (\<lambda>(t, is_separator).
      if is_separator then [(t, True)] else expand_language_part env lang t) raw)"
  have ws: "ws = (if length parts = 1 \<and> \<not> snd (hd parts) \<and> fst (hd parts) = aw_text word then [word]
           else time_parts (total_span word (text_chars parts)) (text_chars parts) 0 parts)"
    using assms(1) unfolding split_chunk_word_def raw option.map(2) Let_def parts_def option.inject
    by (rule sym)
  show ?thesis
  proof (cases "text_chars parts = 0")
    case True
    then have "total_span word (text_chars parts) = None" using assms by (simp add: total_span_def)
    then show ?thesis using ws assms time_parts_untimed by (auto split: if_splits)
  next
    case False
    then have "total_span word (text_chars parts) = Some (s, e - s)" using assms by (simp add: total_span_def)
    moreover have "tiles s e (time_parts (Some (s, e - s)) (text_chars parts) 0 parts)"
      using time_parts_tiles [of "e - s" "text_chars parts" s 0 parts] False assms by simp
    ultimately show ?thesis using ws assms by (auto split: if_splits)
  qed
qed

text \<open>An environment in which every optional service finds nothing, for concrete evaluation.\<close>

definition plain_env :: asr_env where
  "plain_env = \<lparr>env_unicode = ascii_tables, env_compound = (\<lambda>_ _. False), env_expand_number = (\<lambda>t _. t),
     env_protected_prefix_len = (\<lambda>_ _. None), env_opencc = (\<lambda>t. t), env_replace_all = (\<lambda>_ t. t),
     env_parse_word = list_all is_ascii_alphabetic, env_is_chat_terminator = (\<lambda>t. t \<in> set ENDING_PUNCT)\<rparr>"

lemma split_token_tiles_time_witness:
  "tiles 0 100 (the (split_chunk_word plain_env (asr_word_new (str ''ab cde.'') (Some 0) (Some 100)) (str ''eng'')))
   \<or> list_all untimed (the (split_chunk_word plain_env (asr_word_new (str ''ab cde.'') (Some 0) (Some 100)) (str ''eng'')))"
proof (rule split_token_tiles_time)
  show "split_chunk_word plain_env (asr_word_new (str ''ab cde.'') (Some 0) (Some 100)) (str ''eng'') =
    Some (the (split_chunk_word plain_env (asr_word_new (str ''ab cde.'') (Some 0) (Some 100)) (str ''eng'')))"
    by code_simp
qed (simp_all add: asr_word_new_def)

subsection \<open>The scanning loop ends\<close>

text \<open>What the loop needs of the number rules: a protected prefix is never empty.\<close>

definition prefix_rules_ok :: "asr_env \<Rightarrow> bool" where
  "prefix_rules_ok env \<longleftrightarrow> (\<forall>s lang len. env_protected_prefix_len env s lang = Some len \<longrightarrow> 0 < len)"

lemma scan_parts_total:
  assumes "prefix_rules_ok env"
  shows "\<exists>ps. scan_parts env lang parts current remaining = Some ps"
proof (induction remaining arbitrary: parts current rule: length_induct)
  case (1 r)
  show ?case
  proof (cases "r = []")
    case True
    then show ?thesis by (simp add: scan_parts.simps)
  next
    case False
    have d: "\<And>len. 0 < len \<Longrightarrow> length (drop len r) < length r" and "length (tl r) < length r"
      using False by auto
    then have t: "\<And>p c. \<exists>ps. scan_parts env lang p c (tl r) = Some ps" using 1 by blast
    show ?thesis
    proof (cases "if current = [] then env_protected_prefix_len env r lang else None")
      case (Some len)
      then have "0 < len" using assms by (auto simp: prefix_rules_ok_def split: if_splits)
      then have "\<exists>ps. scan_parts env lang (parts @ [(take len r, False)]) current (drop len r) = Some ps"
        using d 1 by blast
      then show ?thesis using False Some by (subst scan_parts.simps) simp
    next
      case None
      then show ?thesis using False t by (subst scan_parts.simps) (simp add: Let_def split: option.split)
    qed
  qed
qed

lemma split_multiword_total:
  assumes "prefix_rules_ok env"
  shows "\<exists>ws'. split_multiword_loop env lang result ws = Some ws'"
proof (induction ws arbitrary: result)
  case (Cons w ws)
  obtain raw where "scan_parts env lang [] [] (aw_text w) = Some raw"
    using scan_parts_total [OF assms] by blast
  then obtain x where "split_chunk_word env w lang = Some x"
    unfolding split_chunk_word_def by (simp only: option.map)
  with Cons show ?case by simp
qed simp

lemma prepare_words_total:
  "prefix_rules_ok env \<Longrightarrow> \<exists>ws. prepare_words_pre_expansion env elements lang = Some ws"
  using split_multiword_total by (simp add: prepare_words_pre_expansion_def split_multiword_tokens_def Let_def)

lemma sample_prepared:
  "map_option (map (\<lambda>w. (aw_text w, aw_start w, aw_end w))) (prepare_words_pre_expansion plain_env
     [\<lparr>ae_value = str ''hello you.'', ae_ts = Finite 1, ae_end_ts = Finite 2, ae_kind = TextElement\<rparr>,
      \<lparr>ae_value = str ''50%'', ae_ts = Finite 2, ae_end_ts = Finite (5/2), ae_kind = TextElement\<rparr>] (str ''eng''))
   = Some [(str ''hello'', Some 1000, Some 1625), (str ''you'', Some 1625, Some 2000), (str ''.'', None, None),
           (str ''50'', Some 2000, Some 2333), (str ''percent'', Some 2333, Some 2500)]"
  by code_simp

end
