(* ===== verification/AsrCleanup.thy ===== *)
theory AsrCleanup
  imports AsrPrepare
begin

text \<open>
  \<^verbatim>\<open>batchalign-core/src/asr/cleanup.rs\<close>: the passes over finished utterances. The lemmas show that
  the nested loops of the retrace detection mark exactly the words of an n-gram that is followed
  by a copy of itself, fillers excepted, and that the sanitizer leaves only words the CHAT parser
  accepts.
\<close>

section \<open>Disfluencies\<close>

definition FILLED_PAUSES_ENG :: "(rstr \<times> rstr) list" where
  "FILLED_PAUSES_ENG =
     [(str ''um'', str ''&-um''), (str ''ur'', str ''&-ur''), (str ''uh'', str ''&-uh'')]"

definition REPLACEMENTS_ENG :: "(rstr \<times> rstr) list" where
  "REPLACEMENTS_ENG =
     [(str ''mm-hmm'', str ''mhm''), (str ''mm-hum'', str ''mhm''), ([39] @ str ''em'', str ''(th)em''),
      (str ''cuz'', str ''(be)cause''), ([39] @ str ''cause'', str ''(be)cause'')]"

text \<open>The two lookups by language: only English has wordlists.\<close>

definition FILLED_PAUSE_MAP :: "rstr \<Rightarrow> (rstr \<times> rstr) list option" where
  "FILLED_PAUSE_MAP lang = (if lang = str ''eng'' then Some FILLED_PAUSES_ENG else None)"

definition REPLACEMENT_MAP :: "rstr \<Rightarrow> (rstr \<times> rstr) list option" where
  "REPLACEMENT_MAP lang = (if lang = str ''eng'' then Some REPLACEMENTS_ENG else None)"

definition replace_disfluency ::
    "unicode \<Rightarrow> (rstr \<times> rstr) list option \<Rightarrow> (rstr \<times> rstr) list option \<Rightarrow> asr_word \<Rightarrow> asr_word" where
  "replace_disfluency U fp_map repl_map word =
     (let lower = to_lowercase U (aw_text word)
      in case Option.bind fp_map (\<lambda>m. map_of m lower) of
           Some main_line \<Rightarrow> word\<lparr>aw_text := main_line\<rparr>
         | None \<Rightarrow>
             (case Option.bind repl_map (\<lambda>m. map_of m lower) of
                Some main_line \<Rightarrow> word\<lparr>aw_text := main_line\<rparr>
              | None \<Rightarrow> word))"

definition apply_disfluency_replacements :: "unicode \<Rightarrow> asr_utterance list \<Rightarrow> rstr \<Rightarrow> asr_utterance list" where
  "apply_disfluency_replacements U utterances lang =
     (let fp_map = FILLED_PAUSE_MAP lang; repl_map = REPLACEMENT_MAP lang
      in if fp_map = None \<and> repl_map = None then utterances
         else map (\<lambda>utt. utt\<lparr>au_words := map (replace_disfluency U fp_map repl_map) (au_words utt)\<rparr>)
                utterances)"

section \<open>Retraces\<close>

definition is_punct_or_terminator :: "rstr \<Rightarrow> bool" where
  "is_punct_or_terminator t \<longleftrightarrow> t \<in> set ENDING_PUNCT \<or> t \<in> set MOR_PUNCT"

definition content_word_count :: "asr_word list \<Rightarrow> nat" where
  "content_word_count ws = length (filter (\<lambda>w. \<not> is_punct_or_terminator (aw_text w)) ws)"

definition is_filler_text :: "rstr \<Rightarrow> bool" where
  "is_filler_text t \<longleftrightarrow> starts_with (str ''&-'') t"

definition strip_punct :: "rstr \<Rightarrow> rstr" where
  "strip_punct t = trim (fold (\<lambda>p result. replace_str p [] result) (ENDING_PUNCT @ MOR_PUNCT) t)"

definition content_indices :: "asr_word list \<Rightarrow> nat list" where
  "content_indices ws = filter (\<lambda>idx. \<not> is_punct_or_terminator (aw_text (ws ! idx))) [0..<length ws]"

text \<open>\<open>ts\<close> below is the list of the texts at the content indices.\<close>

definition content_texts :: "asr_word list \<Rightarrow> rstr list" where
  "content_texts ws = map (\<lambda>idx. aw_text (ws ! idx)) (content_indices ws)"

definition next_matches :: "rstr list \<Rightarrow> nat \<Rightarrow> nat \<Rightarrow> nat \<Rightarrow> bool" where
  "next_matches ts n begin rt =
     list_all (\<lambda>i. eq_ignore_ascii_case (ts ! (begin + i)) (ts ! (rt + n + i))) [0..<n]"

definition mark_ngram :: "rstr list \<Rightarrow> nat \<Rightarrow> nat \<Rightarrow> bool list \<Rightarrow> bool list" where
  "mark_ngram ts n begin is_retrace =
     fold (\<lambda>i m. if \<not> is_filler_text (ts ! (begin + i)) then m[begin + i := True] else m) [0..<n] is_retrace"

text \<open>
  The innermost loop. \<open>n\<close> is at least \<open>min_ngram \<ge> 1\<close> at every call; the test \<open>0 < n\<close> only makes
  the definition total.
\<close>

function root_loop :: "rstr list \<Rightarrow> nat \<Rightarrow> nat \<Rightarrow> nat \<Rightarrow> bool list \<Rightarrow> bool list" where
  "root_loop ts n begin rt is_retrace =
     (if 0 < n \<and> rt + 2 * n \<le> length ts
      then (if next_matches ts n begin rt
            then root_loop ts n begin (rt + n) (mark_ngram ts n begin is_retrace)
            else is_retrace)
      else is_retrace)"
  by pat_completeness auto

termination root_loop
  by (relation "measure (\<lambda>(ts, n, begin, rt, m). length ts - rt)") auto

declare root_loop.simps [simp del]

text \<open>\<open>while begin + n < len\<close>, from 0.\<close>

definition begin_loop :: "rstr list \<Rightarrow> nat \<Rightarrow> bool list \<Rightarrow> bool list" where
  "begin_loop ts n is_retrace =
     fold (\<lambda>begin m. root_loop ts n begin begin m) [0..<length ts - n] is_retrace"

definition min_ngram :: "rstr \<Rightarrow> nat" where
  "min_ngram lang = (if lang = str ''yue'' \<or> lang = str ''zho'' then 2 else 1)"

definition retrace_marks :: "rstr \<Rightarrow> rstr list \<Rightarrow> bool list" where
  "retrace_marks lang ts =
     fold (begin_loop ts) [min_ngram lang..<length ts] (replicate (length ts) False)"

definition mark_word :: "asr_word \<Rightarrow> asr_word" where
  "mark_word w = w\<lparr>aw_kind := Retrace, aw_text := strip_punct (aw_text w)\<rparr>"

definition apply_marks :: "nat list \<Rightarrow> bool list \<Rightarrow> asr_word list \<Rightarrow> asr_word list" where
  "apply_marks indices is_retrace words =
     fold (\<lambda>(content_pos, orig_idx) ws.
         if is_retrace ! content_pos then ws[orig_idx := mark_word (ws ! orig_idx)] else ws)
       (List.enumerate 0 indices) words"

definition detect_retraces :: "rstr \<Rightarrow> asr_utterance \<Rightarrow> asr_utterance" where
  "detect_retraces lang utt =
     (if content_word_count (au_words utt) < 2 then utt
      else utt\<lparr>au_words :=
        apply_marks (content_indices (au_words utt)) (retrace_marks lang (content_texts (au_words utt)))
          (au_words utt)\<rparr>)"

definition apply_retrace_detection :: "asr_utterance list \<Rightarrow> rstr \<Rightarrow> asr_utterance list" where
  "apply_retrace_detection utterances lang = map (detect_retraces lang) utterances"

subsection \<open>What the loops mark\<close>

text \<open>
  Position \<open>k\<close> lies in the \<open>n\<close>-gram that starts at \<open>begin\<close>, and the next \<open>n\<close> words are the same up to
  ASCII case.
\<close>

definition in_repeat :: "rstr list \<Rightarrow> nat \<Rightarrow> nat \<Rightarrow> nat \<Rightarrow> bool" where
  "in_repeat ts n begin k \<longleftrightarrow>
     begin \<le> k \<and> k < begin + n \<and> begin + 2 * n \<le> length ts \<and>
     (\<forall>i < n. eq_ignore_ascii_case (ts ! (begin + i)) (ts ! (begin + n + i)))"

definition is_repetition :: "rstr \<Rightarrow> rstr list \<Rightarrow> nat \<Rightarrow> bool" where
  "is_repetition lang ts k \<longleftrightarrow>
     (\<exists>n \<ge> min_ngram lang. \<exists>begin. in_repeat ts n begin k) \<and> \<not> is_filler_text (ts ! k)"

lemma min_ngram_pos: "0 < min_ngram lang"
  by (simp add: min_ngram_def)

lemma length_mark_ngram [simp]: "length (mark_ngram ts n b m) = length m"
proof -
  have "length (fold (\<lambda>i m. if \<not> is_filler_text (ts ! (b + i)) then m[b + i := True] else m) xs m) = length m" for xs
    by (induction xs arbitrary: m) auto
  then show ?thesis by (simp add: mark_ngram_def)
qed

lemma nth_mark_ngram:
  assumes "k < length m"
  shows "mark_ngram ts n b m ! k \<longleftrightarrow> m ! k \<or> (b \<le> k \<and> k < b + n \<and> \<not> is_filler_text (ts ! k))"
proof (induction n)
  case 0
  show ?case by (auto simp: mark_ngram_def)
next
  case (Suc n)
  let ?m = "mark_ngram ts n b m"
  have e: "mark_ngram ts (Suc n) b m = (if \<not> is_filler_text (ts ! (b + n)) then ?m[b + n := True] else ?m)"
    by (simp add: mark_ngram_def)
  show ?case
  proof (cases "k = b + n")
    case True
    then show ?thesis using Suc assms by (auto simp: e)
  next
    case False
    then have "(k < b + Suc n) = (k < b + n)" by arith
    with False Suc show ?thesis by (simp add: e)
  qed
qed

lemma length_root_loop [simp]: "length (root_loop ts n b r m) = length m"
  by (induction ts n b r m rule: root_loop.induct) (simp add: root_loop.simps)

lemma nth_root_loop:
  assumes "k < length m" and "0 < n"
  shows "root_loop ts n b r m ! k \<longleftrightarrow>
           m ! k \<or> (r + 2 * n \<le> length ts \<and> next_matches ts n b r \<and> b \<le> k \<and> k < b + n \<and> \<not> is_filler_text (ts ! k))"
  using assms
proof (induction ts n b r m rule: root_loop.induct)
  case (1 ts n b r m)
  show ?case
  proof (cases "r + 2 * n \<le> length ts \<and> next_matches ts n b r")
    case True
    then have "root_loop ts n b r m = root_loop ts n b (r + n) (mark_ngram ts n b m)"
      using 1 by (simp add: root_loop.simps)
    with True 1 show ?thesis by (auto simp: nth_mark_ngram)
  next
    case False
    then have "root_loop ts n b r m = m" by (auto simp: root_loop.simps)
    with False show ?thesis by auto
  qed
qed

lemma fold_or_nth:
  assumes "\<And>x m. length (f x m) = length m" and "\<And>x m. x \<in> set xs \<Longrightarrow> k < length m \<Longrightarrow> f x m ! k \<longleftrightarrow> m ! k \<or> P x"
    and "k < length m"
  shows "length (fold f xs m) = length m" and "fold f xs m ! k \<longleftrightarrow> m ! k \<or> (\<exists>x \<in> set xs. P x)"
proof -
  have l: "length (fold f ys m) = length m" for ys m
    by (induction ys arbitrary: m) (simp_all add: assms(1))
  then show "length (fold f xs m) = length m" .
  show "fold f xs m ! k \<longleftrightarrow> m ! k \<or> (\<exists>x \<in> set xs. P x)"
    using assms(2,3) by (induction xs arbitrary: m) (auto simp: assms(1))
qed

lemma next_matches_iff:
  "next_matches ts n b b \<longleftrightarrow> (\<forall>i < n. eq_ignore_ascii_case (ts ! (b + i)) (ts ! (b + n + i)))"
  by (auto simp: next_matches_def list_all_iff)

lemma length_begin_loop [simp]: "length (begin_loop ts n m) = length m"
proof -
  have "length (fold (\<lambda>begin m. root_loop ts n begin begin m) xs m) = length m" for xs
    by (induction xs arbitrary: m) auto
  then show ?thesis by (simp add: begin_loop_def)
qed

lemma nth_begin_loop:
  assumes "k < length m" and "0 < n"
  shows "begin_loop ts n m ! k \<longleftrightarrow> m ! k \<or> (\<exists>begin. in_repeat ts n begin k) \<and> \<not> is_filler_text (ts ! k)"
proof -
  have "begin_loop ts n m ! k \<longleftrightarrow>
      m ! k \<or> (\<exists>b \<in> set [0..<length ts - n]. in_repeat ts n b k \<and> \<not> is_filler_text (ts ! k))"
    unfolding begin_loop_def
    by (rule fold_or_nth)
      (use assms in \<open>auto simp: nth_root_loop next_matches_iff in_repeat_def\<close>)
  moreover have "b \<in> set [0..<length ts - n]" if "in_repeat ts n b k" for b
    using that assms(2) by (auto simp: in_repeat_def)
  ultimately show ?thesis by blast
qed

lemma retrace_marks_nth:
  assumes "k < length ts"
  shows "retrace_marks lang ts ! k \<longleftrightarrow> is_repetition lang ts k"
    and "length (retrace_marks lang ts) = length ts"
proof -
  let ?P = "\<lambda>n. (\<exists>begin. in_repeat ts n begin k) \<and> \<not> is_filler_text (ts ! k)"
  have "fold (begin_loop ts) [min_ngram lang..<length ts] (replicate (length ts) False) ! k \<longleftrightarrow>
      replicate (length ts) False ! k \<or> (\<exists>n \<in> set [min_ngram lang..<length ts]. ?P n)"
    by (rule fold_or_nth) (use assms min_ngram_pos [of lang] in \<open>auto simp: nth_begin_loop\<close>)
  moreover have "n \<in> set [min_ngram lang..<length ts]" if "n \<ge> min_ngram lang" "in_repeat ts n b k" for n b
    using that min_ngram_pos [of lang] by (auto simp: in_repeat_def)
  ultimately show "retrace_marks lang ts ! k \<longleftrightarrow> is_repetition lang ts k"
    using assms unfolding retrace_marks_def is_repetition_def by (auto; blast)
  have "length (fold (begin_loop ts) xs m) = length m" for xs m
    by (induction xs arbitrary: m) auto
  then show "length (retrace_marks lang ts) = length ts" by (simp add: retrace_marks_def)
qed

text \<open>Word \<open>j\<close> of the utterance is a content word that the detection finds repeated.\<close>

definition is_retraced :: "rstr \<Rightarrow> asr_word list \<Rightarrow> nat \<Rightarrow> bool" where
  "is_retraced lang ws j \<longleftrightarrow>
     (\<exists>k < length (content_indices ws). content_indices ws ! k = j \<and> is_repetition lang (content_texts ws) k)"

lemma content_indices_facts:
  "distinct (content_indices ws)" "j \<in> set (content_indices ws) \<Longrightarrow> j < length ws"
  "sorted_wrt (<) (content_indices ws)" "length (content_texts ws) = length (content_indices ws)"
  by (auto simp: content_indices_def content_texts_def sorted_wrt_filter)

lemma content_word_count_indices: "content_word_count ws = length (content_indices ws)"
proof -
  have "length (filter P ws) = length (filter (\<lambda>i. P (ws ! i)) [0..<length ws])" for P
    using filter_map [of P "(!) ws" "[0..<length ws]"] by (simp add: map_nth comp_def)
  then show ?thesis by (simp add: content_indices_def content_word_count_def)
qed

lemma ex_less_Suc_shift: "(\<exists>p < Suc n. P p) \<longleftrightarrow> P 0 \<or> (\<exists>p < n. P (Suc p))"
  by (metis Suc_less_eq less_Suc_eq_0_disj zero_less_Suc)

lemma apply_marks_from:
  fixes marks :: "bool list"
  defines "step \<equiv> (\<lambda>(content_pos, orig_idx) ws.
         if marks ! content_pos then ws[orig_idx := mark_word (ws ! orig_idx)] else ws)"
  assumes "distinct inds"
  shows "length (fold step (List.enumerate off inds) ws) = length ws"
    and "j < length ws \<Longrightarrow> fold step (List.enumerate off inds) ws ! j =
      (if \<exists>p < length inds. inds ! p = j \<and> marks ! (off + p) then mark_word (ws ! j) else ws ! j)"
proof -
  show "length (fold step (List.enumerate off inds) ws) = length ws"
    by (induction inds arbitrary: off ws) (auto simp: step_def)
  show "fold step (List.enumerate off inds) ws ! j =
      (if \<exists>p < length inds. inds ! p = j \<and> marks ! (off + p) then mark_word (ws ! j) else ws ! j)"
    if "j < length ws"
    using that assms(2)
  proof (induction inds arbitrary: off ws)
    case Nil
    then show ?case by simp
  next
    case (Cons a inds)
    let ?ws = "step (off, a) ws"
    have len: "j < length ?ws" using Cons.prems by (simp add: step_def)
    have ex: "(\<exists>p < length (a # inds). (a # inds) ! p = j \<and> marks ! (off + p)) \<longleftrightarrow>
        (a = j \<and> marks ! off) \<or> (\<exists>p < length inds. inds ! p = j \<and> marks ! (Suc off + p))"
      unfolding list.size add_0_right add_Suc_right ex_less_Suc_shift by simp
    have na: "\<not> (\<exists>p < length inds. inds ! p = j)" if "a = j"
      using that Cons.prems by (auto simp: in_set_conv_nth)
    have IH: "fold step (List.enumerate (Suc off) inds) ?ws ! j =
        (if \<exists>p < length inds. inds ! p = j \<and> marks ! (Suc off + p) then mark_word (?ws ! j) else ?ws ! j)"
      using Cons.IH [of ?ws "Suc off"] len Cons.prems by simp
    have fc: "fold step (List.enumerate off (a # inds)) ws = fold step (List.enumerate (Suc off) inds) ?ws"
      by simp
    show ?case
    proof (cases "a = j")
      case True
      with IH na [OF True] have "fold step (List.enumerate (Suc off) inds) ?ws ! j = ?ws ! j" by auto
      with True na [OF True] Cons.prems show ?thesis unfolding fc ex by (auto simp: step_def)
    next
      case False
      then have "?ws ! j = ws ! j" by (simp add: step_def)
      with IH False show ?thesis unfolding fc ex by (simp only: simp_thms)
    qed
  qed
qed

lemma length_apply_marks: "length (apply_marks (content_indices ws) m ws) = length ws"
  unfolding apply_marks_def by (rule apply_marks_from(1)) (rule content_indices_facts)

lemma nth_apply_marks:
  assumes "j < length ws"
  shows "apply_marks (content_indices ws) (retrace_marks lang (content_texts ws)) ws ! j =
           (if is_retraced lang ws j then mark_word (ws ! j) else ws ! j)"
proof -
  have "(\<exists>p < length (content_indices ws). content_indices ws ! p = j
           \<and> retrace_marks lang (content_texts ws) ! (0 + p)) \<longleftrightarrow> is_retraced lang ws j"
    unfolding is_retraced_def using content_indices_facts(4) retrace_marks_nth(1) by (metis add_0)
  then show ?thesis
    unfolding apply_marks_def using apply_marks_from(2) [OF content_indices_facts(1) assms] by presburger
qed

lemma in_repeat_not_last: "in_repeat ts n begin k \<Longrightarrow> Suc k < length ts"
  by (auto simp: in_repeat_def)

lemma is_retraced_not_last:
  assumes "is_retraced lang ws j"
  shows "j < last (content_indices ws)"
proof -
  let ?ci = "content_indices ws"
  obtain k where k: "k < length ?ci" "?ci ! k = j" "is_repetition lang (content_texts ws) k"
    using assms by (auto simp: is_retraced_def)
  have "Suc k < length ?ci"
    using k in_repeat_not_last content_indices_facts(4) by (metis is_repetition_def)
  have "?ci ! k < ?ci ! (length ?ci - 1)"
    by (rule sorted_wrt_nth_less [OF content_indices_facts(3)]) (use \<open>Suc k < length ?ci\<close> in auto)
  moreover have "?ci \<noteq> []" using \<open>Suc k < length ?ci\<close> by auto
  ultimately show ?thesis using k by (simp add: last_conv_nth)
qed

lemma detect_retraces_words:
  "au_words (detect_retraces lang utt) =
     map (\<lambda>j. if is_retraced lang (au_words utt) j then mark_word (au_words utt ! j) else au_words utt ! j)
       [0..<length (au_words utt)]"
proof (cases "content_word_count (au_words utt) < 2")
  case True
  then have "\<not> is_retraced lang (au_words utt) j" for j
    using in_repeat_not_last content_indices_facts(4)
    by (fastforce simp: content_word_count_indices is_retraced_def is_repetition_def)
  with True show ?thesis by (simp add: detect_retraces_def map_nth)
next
  case False
  then show ?thesis
    by (intro nth_equalityI) (simp_all add: detect_retraces_def length_apply_marks nth_apply_marks)
qed

text \<open>C11: Retrace detection, the whole pass on one utterance: the three nested loops and the marking
  loop change exactly the content words that lie in an n-gram (of at least \<open>min_ngram\<close> words) directly
  followed by a copy of itself up to ASCII case and that are not fillers; those become \<open>Retrace\<close> with
  their punctuation stripped, every other word is left as it was, and speaker and language stay.\<close>

theorem retrace_detection_correct:
  "detect_retraces lang utt =
     utt\<lparr>au_words :=
       map (\<lambda>j. if is_retraced lang (au_words utt) j then mark_word (au_words utt ! j) else au_words utt ! j)
         [0..<length (au_words utt)]\<rparr>"
  using detect_retraces_words [of lang utt] by (auto simp: detect_retraces_def)

text \<open>A retraced word always has its repetition later in the utterance: the last content word of
  an utterance is never marked, so every retrace group is followed by the words it repeats.\<close>

lemma retrace_keeps_last:
  assumes "content_indices (au_words utt) \<noteq> []"
  shows "au_words (detect_retraces lang utt) ! last (content_indices (au_words utt)) =
           au_words utt ! last (content_indices (au_words utt))"
proof -
  let ?l = "last (content_indices (au_words utt))"
  have "?l < length (au_words utt)" using assms by (intro content_indices_facts(2)) simp
  moreover have "\<not> is_retraced lang (au_words utt) ?l" using is_retraced_not_last by blast
  ultimately show ?thesis by (simp add: detect_retraces_words)
qed

definition sample_utt :: "string list \<Rightarrow> asr_utterance" where
  "sample_utt ts = \<lparr>au_speaker = 0, au_words = map (\<lambda>t. asr_word_new (str t) None None) ts, au_lang = None\<rparr>"

lemma retrace_keeps_last_witness:
  "au_words (detect_retraces (str ''eng'') (sample_utt [''I'', ''am'', ''i'', ''am'', ''here'', ''.'']))
     ! last (content_indices (au_words (sample_utt [''I'', ''am'', ''i'', ''am'', ''here'', ''.''])))
   = au_words (sample_utt [''I'', ''am'', ''i'', ''am'', ''here'', ''.''])
     ! last (content_indices (au_words (sample_utt [''I'', ''am'', ''i'', ''am'', ''here'', ''.''])))"
  by (rule retrace_keeps_last) code_simp

lemma sample_retraces:
  "map aw_kind (au_words (detect_retraces (str ''eng'') (sample_utt [''I'', ''am'', ''i'', ''am'', ''here'', ''.''])))
   = [Retrace, Retrace, Regular, Regular, Regular, Regular]"
  by code_simp

section \<open>English rules\<close>

definition EN_I_CAP_REWRITES :: "(rstr \<times> rstr) list" where
  "EN_I_CAP_REWRITES =
     [(str ''i'', str ''I''), (str ''i'' @ [39] @ str ''ll'', str ''I'' @ [39] @ str ''ll''),
      (str ''i'' @ [39] @ str ''m'', str ''I'' @ [39] @ str ''m''),
      (str ''i'' @ [39] @ str ''ve'', str ''I'' @ [39] @ str ''ve''),
      (str ''i'' @ [39] @ str ''d'', str ''I'' @ [39] @ str ''d'')]"

definition i_capitalize :: "unicode \<Rightarrow> asr_word \<Rightarrow> asr_word" where
  "i_capitalize U w =
     (case map_of EN_I_CAP_REWRITES (to_lowercase U (aw_text w)) of
        Some dst \<Rightarrow> w\<lparr>aw_text := dst\<rparr> | None \<Rightarrow> w)"

definition apply_i_capitalization_to_words :: "unicode \<Rightarrow> asr_word list \<Rightarrow> asr_word list" where
  "apply_i_capitalization_to_words U words = map (i_capitalize U) words"

definition apply_title_period_strip_to_words :: "unicode \<Rightarrow> asr_word list \<Rightarrow> asr_word list" where
  "apply_title_period_strip_to_words U words =
     map (\<lambda>w. w\<lparr>aw_text := strip_title_period U (aw_text w)\<rparr>) words"

definition apply_english_transcribe_rules_pre_retokenize :: "unicode \<Rightarrow> asr_word list \<Rightarrow> rstr \<Rightarrow> asr_word list" where
  "apply_english_transcribe_rules_pre_retokenize U words lang =
     (if lang \<noteq> str ''eng'' then words
      else apply_title_period_strip_to_words U (apply_i_capitalization_to_words U words))"

definition is_capitalizable_initial :: "rstr \<Rightarrow> bool" where
  "is_capitalizable_initial t =
     (if t = [] then False
      else if t \<in> {str ''xxx'', str ''yyy'', str ''www''} then False
      else if hd t = 38 then False
      else if is_punct_or_terminator t then False
      else True)"

fun capitalize_first_word :: "unicode \<Rightarrow> asr_word list \<Rightarrow> asr_word list" where
  "capitalize_first_word U [] = []"
| "capitalize_first_word U (word # words) =
     (if aw_kind word = Retrace then word # capitalize_first_word U words
      else if \<not> is_capitalizable_initial (aw_text word) then word # capitalize_first_word U words
      else (let first = hd (aw_text word)
            in if char_is_uppercase U first then word # words
               else if \<not> char_is_lowercase U first then word # words
               else word\<lparr>aw_text := to_uppercase_char U first @ tl (aw_text word)\<rparr> # words))"

definition apply_utterance_initial_capitalization :: "unicode \<Rightarrow> asr_utterance list \<Rightarrow> asr_utterance list" where
  "apply_utterance_initial_capitalization U utterances =
     map (\<lambda>utt. utt\<lparr>au_words := capitalize_first_word U (au_words utt)\<rparr>) utterances"

definition apply_english_transcribe_rules_post_retokenize ::
    "unicode \<Rightarrow> asr_utterance list \<Rightarrow> rstr \<Rightarrow> asr_utterance list" where
  "apply_english_transcribe_rules_post_retokenize U utterances lang =
     (if lang \<noteq> str ''eng'' then utterances else apply_utterance_initial_capitalization U utterances)"

section \<open>The sanitizer\<close>

definition sanitize_chars :: "asr_env \<Rightarrow> rstr \<Rightarrow> rstr" where
  "sanitize_chars env original =
     fold (\<lambda>c sanitized. let pushed = sanitized @ [c] in if chat_word_ok env pushed then pushed else sanitized)
       original []"

definition sanitize_chat_illegal_word :: "asr_env \<Rightarrow> asr_word \<Rightarrow> asr_word option" where
  "sanitize_chat_illegal_word env word =
     (if chat_word_ok env (aw_text word) then Some word
      else (let sanitized = sanitize_chars env (aw_text word)
            in if sanitized = [] then None else Some (word\<lparr>aw_text := sanitized\<rparr>)))"

definition sanitize_chat_illegal_chars_in_utterances :: "asr_env \<Rightarrow> asr_utterance list \<Rightarrow> asr_utterance list" where
  "sanitize_chat_illegal_chars_in_utterances env utterances =
     filter (\<lambda>utt. au_words utt \<noteq> [])
       (map (\<lambda>utt. utt\<lparr>au_words := List.map_filter (sanitize_chat_illegal_word env) (au_words utt)\<rparr>) utterances)"

text \<open>The rebuilt text is empty or accepted by the parser, and keeps the order of the characters.\<close>

lemma sanitize_chars_ok: "sanitize_chars env t = [] \<or> chat_word_ok env (sanitize_chars env t)"
proof -
  let ?f = "\<lambda>c s. let pushed = s @ [c] in if chat_word_ok env pushed then pushed else s"
  have "s = [] \<or> chat_word_ok env s \<Longrightarrow> fold ?f t s = [] \<or> chat_word_ok env (fold ?f t s)" for s
    by (induction t arbitrary: s) (auto simp: Let_def)
  then show ?thesis by (simp add: sanitize_chars_def)
qed

lemma sanitize_chars_length: "length (sanitize_chars env t) \<le> length t"
proof -
  let ?f = "\<lambda>c s. let pushed = s @ [c] in if chat_word_ok env pushed then pushed else s"
  have "length (fold ?f t s) \<le> length s + length t" for s
  proof (induction t arbitrary: s)
    case (Cons c t)
    have "length (?f c s) \<le> Suc (length s)" by (simp add: Let_def)
    with Cons [of "?f c s"] show ?case by simp
  qed simp
  from this [of "[]"] show ?thesis by (simp add: sanitize_chars_def)
qed

lemma sanitize_word_ok:
  "sanitize_chat_illegal_word env w = Some w' \<Longrightarrow>
     chat_word_ok env (aw_text w') \<and> aw_start w' = aw_start w \<and> aw_end w' = aw_end w \<and> aw_kind w' = aw_kind w"
  using sanitize_chars_ok [of env "aw_text w"]
  by (auto simp: sanitize_chat_illegal_word_def Let_def split: if_splits)

lemma sanitize_utterances_ok:
  "list_all (\<lambda>u. au_words u \<noteq> [] \<and> list_all (\<lambda>w. chat_word_ok env (aw_text w)) (au_words u))
     (sanitize_chat_illegal_chars_in_utterances env us)"
proof -
  have "list_all (\<lambda>w. chat_word_ok env (aw_text w)) (List.map_filter (sanitize_chat_illegal_word env) ws)" for ws
    by (induction ws) (auto simp: map_filter_simps sanitize_word_ok split: option.split)
  then show ?thesis
    by (induction us) (auto simp: sanitize_chat_illegal_chars_in_utterances_def)
qed

end
