(* ===== verification/AsrUtterance.thy ===== *)
theory AsrUtterance
  imports AsrCleanup
begin

text \<open>
  \<^verbatim>\<open>batchalign-core/src/asr/chunking.rs\<close> and \<^verbatim>\<open>asr/utterance.rs\<close>: turns are cut into chunks, chunks
  into utterances, and the whole pipeline from raw monologues. The cuts are instances of the
  lossless-split contract of the prelude; the retokenizer keeps the text and ends every utterance
  with a terminator, and the pipeline returns words the CHAT parser accepts.
\<close>

section \<open>Chunks\<close>

text \<open>\<open>words.chunks(n)\<close> for \<open>n > 0\<close>.\<close>

function chunks :: "nat \<Rightarrow> 'a list \<Rightarrow> 'a list list" where
  "chunks n xs = (if xs = [] \<or> n = 0 then [] else take n xs # chunks n (drop n xs))"
  by pat_completeness auto

termination chunks
  by (relation "measure (\<lambda>(n, xs). length xs)") auto

declare chunks.simps [simp del]

definition split_long_turns :: "'a list \<Rightarrow> 'a list list" where
  "split_long_turns words = (if length words \<le> MAX_TURN_LEN then [words] else chunks MAX_TURN_LEN words)"

definition long_pause_starts_new_utterance :: "unicode \<Rightarrow> asr_word \<Rightarrow> asr_word \<Rightarrow> nat \<Rightarrow> bool" where
  "long_pause_starts_new_utterance U prev next_w current_len =
     (if current_len < 2 then False
      else (case (aw_end prev, aw_start next_w) of
          (Some prev_end, Some next_start) \<Rightarrow>
            if next_start - prev_end < LONG_PAUSE_SPLIT_MS then False
            else to_ascii_lowercase (trim_matches (\<lambda>c. \<not> char_is_alphanumeric U c) (aw_text next_w))
                   \<in> set LONG_PAUSE_SENTENCE_STARTERS
        | _ \<Rightarrow> False))"

fun pause_loop :: "unicode \<Rightarrow> asr_word list \<Rightarrow> asr_word list \<Rightarrow> asr_word option \<Rightarrow> asr_word list list" where
  "pause_loop U [] current previous_timed = (if current \<noteq> [] then [current] else [])"
| "pause_loop U (word # words) current previous_timed =
     (let cut = (case previous_timed of
                   Some prev \<Rightarrow> long_pause_starts_new_utterance U prev word (length current)
                 | None \<Rightarrow> False) \<and> current \<noteq> [];
          previous_timed' = (if aw_start word \<noteq> None \<and> aw_end word \<noteq> None then Some word else previous_timed)
      in if cut then current # pause_loop U words [word] previous_timed'
         else pause_loop U words (current @ [word]) previous_timed')"

definition split_pauses_in_chunk :: "unicode \<Rightarrow> asr_word list \<Rightarrow> asr_word list list" where
  "split_pauses_in_chunk U chunk = (if length chunk \<le> 1 then [chunk] else pause_loop U chunk [] None)"

definition split_on_long_pauses :: "unicode \<Rightarrow> asr_word list list \<Rightarrow> asr_word list list" where
  "split_on_long_pauses U cs = concat (map (split_pauses_in_chunk U) cs)"

definition pre_chunk_words :: "asr_env \<Rightarrow> asr_word list \<Rightarrow> rstr \<Rightarrow> asr_word list" where
  "pre_chunk_words env words lang =
     (let words = (if lang = str ''yue'' then normalize_cantonese_words env words else words)
      in apply_english_transcribe_rules_pre_retokenize (env_unicode env) words lang)"

definition finalize_words_to_chunks :: "asr_env \<Rightarrow> asr_word list \<Rightarrow> nat \<Rightarrow> rstr \<Rightarrow> prepared_chunk list" where
  "finalize_words_to_chunks env words speaker lang =
     (let cs = split_on_long_pauses (env_unicode env) (split_long_turns (pre_chunk_words env words lang))
      in map (\<lambda>ws. \<lparr>pc_speaker = speaker, pc_words = ws\<rparr>) (filter (\<lambda>chunk. chunk \<noteq> []) cs))"

fun assignment_loop :: "(asr_word \<times> nat) list \<Rightarrow> nat \<Rightarrow> asr_word list \<Rightarrow> asr_word list list" where
  "assignment_loop [] current_group current_words = (if current_words \<noteq> [] then [current_words] else [])"
| "assignment_loop ((word, grp) # rest) current_group current_words =
     (if current_words \<noteq> [] \<and> grp \<noteq> current_group
      then current_words # assignment_loop rest grp [word]
      else assignment_loop rest current_group (current_words @ [word]))"

definition split_prepared_chunk_by_assignments :: "prepared_chunk \<Rightarrow> nat list \<Rightarrow> prepared_chunk list" where
  "split_prepared_chunk_by_assignments chunk assignments =
     (if length (pc_words chunk) \<le> 1 \<or> assignments = [] \<or> length assignments \<noteq> length (pc_words chunk)
      then [chunk]
      else (let split_chunks = map (\<lambda>ws. \<lparr>pc_speaker = pc_speaker chunk, pc_words = ws\<rparr>)
                  (assignment_loop (zip (pc_words chunk) assignments) (hd assignments) [])
            in if split_chunks = [] then [chunk] else split_chunks))"

section \<open>Retokenization\<close>

definition is_ending_punct :: "rstr \<Rightarrow> bool" where
  "is_ending_punct word \<longleftrightarrow> word \<in> set ENDING_PUNCT \<or> word \<in> set (map fst RTL_PUNCT)"

definition ends_with_ending_punct :: "rstr \<Rightarrow> bool" where
  "ends_with_ending_punct word = (if word = [] then False else is_ending_punct [last word])"

definition normalize_punct :: "rstr \<Rightarrow> rstr" where
  "normalize_punct word = (case map_of RTL_PUNCT word of Some ascii \<Rightarrow> ascii | None \<Rightarrow> word)"

text \<open>\<open>t.replace('\<^verbatim>\<open>U+3002\<close>', ".").replace(['\<^verbatim>\<open>U+00BF\<close>', '\<^verbatim>\<open>U+00A1\<close>'], " ")\<close>.\<close>

definition normalize_word_text :: "rstr \<Rightarrow> rstr" where
  "normalize_word_text t =
     map (\<lambda>c. if c = 191 \<or> c = 161 then 32 else c) (map (\<lambda>c. if c = 12290 then 46 else c) t)"

definition make_utterance :: "nat \<Rightarrow> asr_word list \<Rightarrow> asr_utterance" where
  "make_utterance speaker ws = \<lparr>au_speaker = speaker, au_words = ws, au_lang = None\<rparr>"

definition drop_trailing_mor_punct :: "asr_word list \<Rightarrow> asr_word list" where
  "drop_trailing_mor_punct buf = rev (dropWhile (\<lambda>w. aw_text w \<in> set MOR_PUNCT) (rev buf))"

definition flush_remaining :: "nat \<Rightarrow> asr_word list \<Rightarrow> asr_utterance list" where
  "flush_remaining speaker buf =
     (let buf = drop_trailing_mor_punct buf
      in if buf = [] then [] else [make_utterance speaker (buf @ [asr_word_new (str ''.'') None None])])"

fun retokenize_loop :: "nat \<Rightarrow> asr_word list \<Rightarrow> asr_word list \<Rightarrow> asr_utterance list" where
  "retokenize_loop speaker buf [] = flush_remaining speaker buf"
| "retokenize_loop speaker buf (w # words) =
     (let word = w\<lparr>aw_text := normalize_word_text (aw_text w)\<rparr>; last_text = aw_text word
      in if is_ending_punct last_text
         then make_utterance speaker (buf @ [word\<lparr>aw_text := normalize_punct last_text\<rparr>])
                # retokenize_loop speaker [] words
         else if ends_with_ending_punct last_text
         then (let word_part = butlast last_text; punct_part = [last last_text];
                   buf' = (if word_part \<noteq> []
                           then buf @ [asr_word_new word_part (aw_start word) (aw_end word)] else buf)
               in make_utterance speaker (buf' @ [asr_word_new (normalize_punct punct_part) None None])
                    # retokenize_loop speaker [] words)
         else retokenize_loop speaker (buf @ [word]) words)"

definition retokenize :: "nat \<Rightarrow> asr_word list \<Rightarrow> asr_utterance list" where
  "retokenize speaker words = retokenize_loop speaker [] words"

section \<open>The pipeline\<close>

text \<open>\<open>None\<close>: a scanning loop does not end (see \<open>scan_parts\<close>).\<close>

fun prepare_asr_chunks :: "asr_env \<Rightarrow> asr_monologue list \<Rightarrow> rstr \<Rightarrow> prepared_chunk list option" where
  "prepare_asr_chunks env [] lang = Some []"
| "prepare_asr_chunks env (monologue # monologues) lang =
     (case prepare_words_pre_expansion env (am_elements monologue) lang of
        None \<Rightarrow> None
      | Some words \<Rightarrow>
          map_option
            (append (finalize_words_to_chunks env (expand_numbers_in_words env words lang) (am_speaker monologue) lang))
            (prepare_asr_chunks env monologues lang))"

definition utterances_from_prepared_chunks :: "prepared_chunk list \<Rightarrow> asr_utterance list" where
  "utterances_from_prepared_chunks cs = concat (map (\<lambda>chunk. retokenize (pc_speaker chunk) (pc_words chunk)) cs)"

definition finalize_utterances :: "asr_env \<Rightarrow> asr_utterance list \<Rightarrow> rstr \<Rightarrow> asr_utterance list" where
  "finalize_utterances env utterances lang =
     (let U = env_unicode env;
          utterances = apply_disfluency_replacements U utterances lang;
          utterances = apply_retrace_detection utterances lang;
          utterances = apply_english_transcribe_rules_post_retokenize U utterances lang
      in sanitize_chat_illegal_chars_in_utterances env utterances)"

definition process_raw_asr :: "asr_env \<Rightarrow> asr_monologue list \<Rightarrow> rstr \<Rightarrow> asr_utterance list option" where
  "process_raw_asr env output lang =
     map_option (\<lambda>cs. finalize_utterances env (utterances_from_prepared_chunks cs) lang)
       (prepare_asr_chunks env output lang)"

section \<open>Lemmas\<close>

subsection \<open>The cuts lose nothing\<close>

lemma concat_chunks: "0 < n \<Longrightarrow> concat (chunks n xs) = xs"
  by (induction n xs rule: chunks.induct) (subst chunks.simps, simp)

lemma chunks_bound: "0 < n \<Longrightarrow> list_all (\<lambda>c. c \<noteq> [] \<and> length c \<le> n) (chunks n xs)"
  by (induction n xs rule: chunks.induct) (subst chunks.simps, simp)

interpretation long_turns: lossless_split split_long_turns
  by unfold_locales (simp add: split_long_turns_def concat_chunks MAX_TURN_LEN_def)

lemma split_long_turns_bound: "list_all (\<lambda>c. length c \<le> MAX_TURN_LEN) (split_long_turns ws)"
  using chunks_bound [of MAX_TURN_LEN ws]
  by (auto simp: split_long_turns_def MAX_TURN_LEN_def list_all_iff)

lemma concat_pause_loop: "concat (pause_loop U ws current prev) = current @ ws"
  by (induction ws arbitrary: current prev) (simp_all add: Let_def)

interpretation pauses: lossless_split "split_pauses_in_chunk U" for U
  by unfold_locales (simp add: split_pauses_in_chunk_def concat_pause_loop)

lemma concat_split_on_long_pauses: "concat (split_on_long_pauses U cs) = concat cs"
  by (induction cs) (simp_all add: split_on_long_pauses_def pauses.concat_split)

lemma split_on_long_pauses_bound:
  assumes "list_all (\<lambda>c. length c \<le> n) cs"
  shows "list_all (\<lambda>c. length c \<le> n) (split_on_long_pauses U cs)"
proof -
  have "length d \<le> length c" if "d \<in> set (split_pauses_in_chunk U c)" for c d
    using pauses.split_length [of U c] that by (metis elem_le_sum_list in_set_conv_nth length_map nth_map)
  then show ?thesis using assms by (fastforce simp: list_all_iff split_on_long_pauses_def)
qed

lemma concat_filter_nonempty: "concat (filter (\<lambda>c. c \<noteq> []) cs) = concat cs"
  by (induction cs) auto

text \<open>Cutting a turn into chunks: the chunks, in order, are the words of the turn after the per-word
  rules (no word lost, doubled or moved), each has between 1 and 300 words, and all carry the
  speaker of the turn.\<close>

lemma chunks_partition_turn:
  "concat (map pc_words (finalize_words_to_chunks env words speaker lang)) = pre_chunk_words env words lang
   \<and> list_all (\<lambda>c. pc_speaker c = speaker \<and> 0 < length (pc_words c) \<and> length (pc_words c) \<le> 300)
       (finalize_words_to_chunks env words speaker lang)"
proof -
  let ?ws = "pre_chunk_words env words lang"
  let ?cs = "split_on_long_pauses (env_unicode env) (split_long_turns ?ws)"
  have "concat ?cs = ?ws" by (simp add: concat_split_on_long_pauses long_turns.concat_split)
  moreover have "list_all (\<lambda>c. length c \<le> 300) ?cs"
    using split_on_long_pauses_bound [OF split_long_turns_bound] by (simp add: MAX_TURN_LEN_def)
  ultimately show ?thesis
    by (simp add: finalize_words_to_chunks_def Let_def comp_def concat_filter_nonempty list_all_iff)
qed

subsection \<open>Assignments\<close>

text \<open>The pieces \<open>ps\<close> are the runs of equal labels of \<open>labels\<close>, with one label of \<open>gs\<close> each.\<close>

definition are_runs :: "'a list list \<Rightarrow> nat list \<Rightarrow> nat list \<Rightarrow> bool" where
  "are_runs ps gs labels \<longleftrightarrow>
     length gs = length ps \<and> distinct_adj gs \<and> list_all (\<lambda>p. p \<noteq> []) ps \<and>
     labels = concat (map2 (\<lambda>p g. replicate (length p) g) ps gs)"

lemma are_runs_Cons:
  "are_runs ps (g' # gs) labels \<Longrightarrow> p \<noteq> [] \<Longrightarrow> g \<noteq> g' \<Longrightarrow>
     are_runs (p # ps) (g # g' # gs) (replicate (length p) g @ labels)"
  by (auto simp: are_runs_def)

lemma are_runs_hd: "are_runs ps gs (l # labels) \<Longrightarrow> \<exists>gs'. gs = l # gs'"
  by (cases ps; cases gs; cases "hd ps") (auto simp: are_runs_def)

lemma assignment_loop_runs:
  assumes "cur \<noteq> []"
  shows "\<exists>gs. are_runs (assignment_loop rest g cur) (g # gs) (replicate (length cur) g @ map snd rest)"
    and "concat (assignment_loop rest g cur) = cur @ map fst rest"
  using assms
proof (induction rest g cur rule: assignment_loop.induct)
  case (1 g cur)
  { case 1
    have "are_runs (assignment_loop [] g cur) [g] (replicate (length cur) g @ map snd [])"
      using 1 by (simp add: are_runs_def)
    then show ?case by blast
  next
    case 2
    then show ?case by simp }
next
  case (2 word grp rest g cur)
  { case 1
    show ?case
    proof (cases "grp = g")
      case True
      then have "\<exists>gs. are_runs (assignment_loop rest g (cur @ [word])) (g # gs)
          (replicate (length (cur @ [word])) g @ map snd rest)"
        using 2(3) by simp
      moreover have "replicate (length (cur @ [word])) g @ map snd rest
          = replicate (length cur) g @ map snd ((word, grp) # rest)"
        using True by (simp add: replicate_append_same)
      moreover have "assignment_loop ((word, grp) # rest) g cur = assignment_loop rest g (cur @ [word])"
        using True by simp
      ultimately show ?thesis by metis
    next
      case False
      then obtain gs where "are_runs (assignment_loop rest grp [word]) (grp # gs)
          (replicate (length [word]) grp @ map snd rest)"
        using 1 2(1) by auto
      then have "are_runs (cur # assignment_loop rest grp [word]) (g # grp # gs)
          (replicate (length cur) g @ replicate (length [word]) grp @ map snd rest)"
        using 1 False by (intro are_runs_Cons) auto
      then show ?thesis using 1 False by auto
    qed
  next
    case 2
    with "2.IH" show ?case by auto }
qed

text \<open>Splitting a chunk by the labels of the utterance segmenter: the pieces are exactly the
  maximal runs of words with equal labels, in order; no word is lost, no piece is empty, and every
  piece keeps the speaker.\<close>

lemma assignments_split_into_runs:
  assumes "length assignments = length (pc_words chunk)" and "pc_words chunk \<noteq> []"
  shows "concat (map pc_words (split_prepared_chunk_by_assignments chunk assignments)) = pc_words chunk
    \<and> (\<exists>gs. are_runs (map pc_words (split_prepared_chunk_by_assignments chunk assignments)) gs assignments)
    \<and> list_all (\<lambda>c. pc_speaker c = pc_speaker chunk) (split_prepared_chunk_by_assignments chunk assignments)"
proof (cases "length (pc_words chunk) \<le> 1")
  case True
  then obtain w a where "pc_words chunk = [w]" "assignments = [a]"
    using assms by (cases "pc_words chunk"; cases assignments) auto
  moreover from this have "are_runs [pc_words chunk] [a] assignments" by (simp add: are_runs_def)
  ultimately show ?thesis by (auto simp: split_prepared_chunk_by_assignments_def)
next
  case False
  obtain w ws a as where wa: "pc_words chunk = w # ws" "assignments = a # as"
    using assms by (cases "pc_words chunk"; cases assignments) auto
  let ?L = "assignment_loop (zip (pc_words chunk) assignments) (hd assignments) []"
  have L: "?L = assignment_loop (zip ws as) a [w]" by (simp add: wa)
  have len: "length ws = length as" using assms wa by simp
  obtain gs where r: "are_runs ?L (a # gs) assignments"
    using assignment_loop_runs(1) [of "[w]" "zip ws as" a] len by (auto simp: L wa)
  have c: "concat ?L = pc_words chunk"
    using assignment_loop_runs(2) [of "[w]" "zip ws as" a] len by (simp add: L wa)
  then have "?L \<noteq> []" using assms by auto
  moreover have "assignments \<noteq> []" by (simp add: wa)
  ultimately have "split_prepared_chunk_by_assignments chunk assignments
      = map (\<lambda>ws. \<lparr>pc_speaker = pc_speaker chunk, pc_words = ws\<rparr>) ?L"
    using False assms unfolding split_prepared_chunk_by_assignments_def Let_def by simp
  with c r show ?thesis by (auto simp: comp_def list_all_iff)
qed

definition sample_words :: "string list \<Rightarrow> asr_word list" where
  "sample_words ts = map (\<lambda>t. asr_word_new (str t) None None) ts"

lemma assignments_split_into_runs_witness:
  "concat (map pc_words (split_prepared_chunk_by_assignments
      \<lparr>pc_speaker = 1, pc_words = sample_words [''a'', ''b'', ''c'']\<rparr> [0, 0, 1])) = sample_words [''a'', ''b'', ''c'']"
  using assignments_split_into_runs
    [of "[0, 0, 1]" "\<lparr>pc_speaker = 1, pc_words = sample_words [''a'', ''b'', ''c'']\<rparr>"]
  by (simp add: sample_words_def)

subsection \<open>Retokenization\<close>

definition terminator_texts :: "rstr list" where
  "terminator_texts = ENDING_PUNCT @ [str '','', str '';'']"

lemma normalize_punct_terminator: "is_ending_punct t \<Longrightarrow> normalize_punct t \<in> set terminator_texts"
proof -
  have a: "list_all (\<lambda>t. normalize_punct t \<in> set terminator_texts) (ENDING_PUNCT @ map fst RTL_PUNCT)"
    by code_simp
  assume "is_ending_punct t"
  then have "t \<in> set (ENDING_PUNCT @ map fst RTL_PUNCT)" by (simp add: is_ending_punct_def)
  with a show ?thesis unfolding list_all_iff by blast
qed

lemma terminator_dot: "str ''.'' \<in> set terminator_texts"
  by code_simp

definition ends_in_terminator :: "nat \<Rightarrow> asr_utterance \<Rightarrow> bool" where
  "ends_in_terminator speaker u \<longleftrightarrow>
     au_speaker u = speaker \<and> au_words u \<noteq> [] \<and> aw_text (last (au_words u)) \<in> set terminator_texts"

lemma retokenize_loop_ends: "list_all (ends_in_terminator speaker) (retokenize_loop speaker buf words)"
proof (induction words arbitrary: buf)
  case Nil
  show ?case
    by (simp add: flush_remaining_def Let_def ends_in_terminator_def make_utterance_def asr_word_new_def terminator_dot)
next
  case (Cons w words)
  show ?case
    using Cons normalize_punct_terminator
    by (auto simp: Let_def ends_in_terminator_def make_utterance_def asr_word_new_def ends_with_ending_punct_def
        split: if_splits)
qed

text \<open>Every utterance the retokenizer makes belongs to the speaker of its chunk, is not empty, and its
  last word is one of the CHAT terminators or a comma or semicolon (which is what the right-to-left
  comma and semicolon are normalised to).\<close>

lemma retokenize_terminated: "list_all (ends_in_terminator speaker) (retokenize speaker words)"
  unfolding retokenize_def by (rule retokenize_loop_ends)

text \<open>The text a word contributes: its normalised text, a final right-to-left mark in its ASCII form.\<close>

definition word_output :: "asr_word \<Rightarrow> rstr" where
  "word_output w =
     (let t = normalize_word_text (aw_text w)
      in if is_ending_punct t then normalize_punct t
         else if ends_with_ending_punct t then butlast t @ normalize_punct [last t]
         else t)"

definition utterances_text :: "asr_utterance list \<Rightarrow> rstr" where
  "utterances_text us = concat (map (\<lambda>u. concat (map aw_text (au_words u))) us)"

lemma drop_trailing_split:
  "\<exists>dropped. buf = drop_trailing_mor_punct buf @ dropped \<and> list_all (\<lambda>w. aw_text w \<in> set MOR_PUNCT) dropped"
proof -
  let ?p = "\<lambda>w. aw_text w \<in> set MOR_PUNCT"
  have "rev buf = takeWhile ?p (rev buf) @ dropWhile ?p (rev buf)" by simp
  then have "buf = rev (dropWhile ?p (rev buf)) @ rev (takeWhile ?p (rev buf))" by (metis rev_append rev_rev_ident)
  moreover have "list_all ?p (rev (takeWhile ?p (rev buf)))" by (auto simp: list_all_iff dest: set_takeWhileD)
  ultimately show ?thesis unfolding drop_trailing_mor_punct_def by blast
qed

text \<open>\<open>out\<close> is \<open>source\<close> without some trailing separators, possibly with a full stop appended.\<close>

definition text_kept :: "rstr \<Rightarrow> rstr \<Rightarrow> bool" where
  "text_kept source out \<longleftrightarrow>
     (\<exists>kept dropped. source = kept @ concat dropped \<and> set dropped \<subseteq> set MOR_PUNCT \<and>
        (out = kept \<or> out = kept @ str ''.''))"

lemma text_kept_append: "text_kept source out \<Longrightarrow> text_kept (p @ source) (p @ out)"
proof -
  assume "text_kept source out"
  then obtain kept dropped where "source = kept @ concat dropped" "set dropped \<subseteq> set MOR_PUNCT"
      "out = kept \<or> out = kept @ str ''.''"
    by (auto simp: text_kept_def)
  then show "text_kept (p @ source) (p @ out)"
    unfolding text_kept_def by (intro exI [of _ "p @ kept"] exI [of _ dropped]) auto
qed

lemma utterances_text_Cons: "utterances_text (u # us) = concat (map aw_text (au_words u)) @ utterances_text us"
  by (simp add: utterances_text_def)

lemma flush_text_kept: "text_kept (concat (map aw_text buf)) (utterances_text (flush_remaining speaker buf))"
proof -
  obtain dropped where d: "buf = drop_trailing_mor_punct buf @ dropped"
      "list_all (\<lambda>w. aw_text w \<in> set MOR_PUNCT) dropped"
    using drop_trailing_split by blast
  have "concat (map aw_text buf) = concat (map aw_text (drop_trailing_mor_punct buf)) @ concat (map aw_text dropped)"
    by (subst d(1)) simp
  moreover have "set (map aw_text dropped) \<subseteq> set MOR_PUNCT" using d(2) by (auto simp: list_all_iff)
  ultimately show ?thesis unfolding text_kept_def
    by (intro exI conjI) (auto simp: flush_remaining_def Let_def make_utterance_def utterances_text_def asr_word_new_def)
qed

lemma retokenize_loop_text:
  "text_kept (concat (map aw_text buf) @ concat (map word_output words))
     (utterances_text (retokenize_loop speaker buf words))"
proof (induction words arbitrary: buf)
  case Nil
  then show ?case using flush_text_kept by simp
next
  case (Cons w words)
  let ?t = "normalize_word_text (aw_text w)"
  have step: "text_kept (concat (map aw_text buf) @ word_output w @ concat (map word_output words))
      ((concat (map aw_text buf) @ word_output w) @ utterances_text (retokenize_loop speaker [] words))"
    using text_kept_append [OF Cons [of "[]"], of "concat (map aw_text buf) @ word_output w"] by simp
  consider (whole) "is_ending_punct ?t" | (char) "\<not> is_ending_punct ?t" "ends_with_ending_punct ?t"
    | (plain) "\<not> is_ending_punct ?t" "\<not> ends_with_ending_punct ?t" by blast
  then show ?case
  proof cases
    case whole
    then have "word_output w = normalize_punct ?t" by (simp add: word_output_def)
    with whole step show ?thesis by (simp add: Let_def utterances_text_Cons make_utterance_def)
  next
    case char
    then have "word_output w = butlast ?t @ normalize_punct [last ?t]" by (simp add: word_output_def Let_def)
    with char step show ?thesis
      by (cases "butlast ?t = []") (simp_all add: Let_def utterances_text_Cons make_utterance_def asr_word_new_def)
  next
    case plain
    then have "word_output w = ?t" by (simp add: word_output_def)
    with plain Cons [of "buf @ [w\<lparr>aw_text := ?t\<rparr>]"] show ?thesis by (simp add: Let_def)
  qed
qed

text \<open>C13: The retokenizer keeps the text: read in order, the words of its utterances spell the normalised
  text of the input words (full-width stops, inverted marks and final right-to-left marks in ASCII form);
  only trailing separators of an unterminated run are dropped and only a full stop is added at the end.\<close>

theorem retokenize_keeps_text:
  "text_kept (concat (map word_output words)) (utterances_text (retokenize speaker words))"
  using retokenize_loop_text [of "[]" words speaker] by (simp add: retokenize_def)

subsection \<open>The pipeline\<close>

lemma prepare_asr_chunks_total:
  assumes "prefix_rules_ok env"
  shows "\<exists>cs. prepare_asr_chunks env ms lang = Some cs"
proof (induction ms)
  case (Cons m ms)
  obtain ws where "prepare_words_pre_expansion env (am_elements m) lang = Some ws"
    using prepare_words_total [OF assms] by blast
  with Cons show ?case by auto
qed simp

text \<open>C12: The pipeline from raw recogniser output to utterances: it returns for every input (given number
  rules that protect no empty prefix), no utterance it returns is empty, and every word of every
  utterance is accepted as a CHAT word, separator or terminator, whatever the recogniser sent.\<close>

theorem process_raw_asr_valid:
  assumes "prefix_rules_ok env"
  shows "\<exists>us. process_raw_asr env ms lang = Some us \<and>
     list_all (\<lambda>u. au_words u \<noteq> [] \<and> list_all (\<lambda>w. chat_word_ok env (aw_text w)) (au_words u)) us"
  using prepare_asr_chunks_total [OF assms, of ms lang] sanitize_utterances_ok
  by (auto simp: process_raw_asr_def finalize_utterances_def Let_def)

definition sample_monologue :: "string \<Rightarrow> asr_monologue" where
  "sample_monologue s = \<lparr>am_speaker = 0, am_elements =
     [\<lparr>ae_value = str s, ae_ts = Finite 1, ae_end_ts = Finite 2, ae_kind = TextElement\<rparr>]\<rparr>"

theorem process_raw_asr_valid_witness:
  "\<exists>us. process_raw_asr plain_env [sample_monologue ''um i see 5 $.''] (str ''eng'') = Some us \<and>
     list_all (\<lambda>u. au_words u \<noteq> [] \<and> list_all (\<lambda>w. chat_word_ok plain_env (aw_text w)) (au_words u)) us"
  by (rule process_raw_asr_valid) (simp add: prefix_rules_ok_def plain_env_def)

text \<open>A right-to-left semicolon (U+061B) at the end of a word inside a token ends the utterance the
  way a full stop does: one token becomes two utterances, and the first ends in a semicolon, which is
  not among the sentence terminators.\<close>

lemma rtl_semicolon_splits_utterance:
  "map_option (\<lambda>cs. map (\<lambda>u. map aw_text (au_words u)) (utterances_from_prepared_chunks cs))
     (prepare_asr_chunks plain_env [\<lparr>am_speaker = 0, am_elements =
        [\<lparr>ae_value = str ''ab'' @ [1563, 32] @ str ''cd'', ae_ts = Finite 1, ae_end_ts = Finite 2,
          ae_kind = TextElement\<rparr>]\<rparr>] (str ''ara''))
   = Some [[str ''ab'', str '';''], [str ''cd'', str ''.'']]
   \<and> str '';'' \<notin> set ENDING_PUNCT"
  by code_simp

end
