(* ===== verification/ChatBuild.thy ===== *)
theory ChatBuild
  imports AsrUtterance SortedMap "HOL-Library.AList"
begin

text \<open>
  \<^verbatim>\<open>batchalign-core/src/asr/chat/\<close>: the description of a transcript and the document that is built from it. A
  word is what the document crate's parser makes of its text; parsing, terminators, language codes, media file names and
  the generation of a \<open>%wor\<close> tier are arguments.
\<close>

section \<open>Descriptions\<close>

record word_desc =
  wd_text :: rstr
  wd_start :: "nat option"
  wd_end :: "nat option"
  wd_kind :: word_kind

record utterance_desc =
  de_speaker :: rstr
  de_words :: "word_desc list option"
  de_text :: "rstr option"
  de_start :: "nat option"
  de_end :: "nat option"
  de_lang :: "rstr option"

record participant_desc =
  pd_id :: rstr
  pd_name :: "rstr option"
  pd_role :: rstr
  pd_corpus :: rstr

record transcript_description =
  td_langs :: "rstr list"
  td_participants :: "participant_desc list"
  td_media_name :: "rstr option"
  td_media_type :: "rstr option"
  td_utterances :: "utterance_desc list"
  td_write_wor :: bool

section \<open>Documents\<close>

text \<open>A word with the bullet the builder puts on it; retraces are partial (\<open>[/]\<close>), as a group or not.\<close>

type_synonym 'w timed_item = "'w \<times> (nat \<times> nat) option"

datatype 'w built_content =
    CWord "'w timed_item"
  | CSeparator rstr
  | CRetrace bool "'w timed_item list"

record 'w built_main =
  bm_speaker :: rstr
  bm_content :: "'w built_content list"
  bm_terminator :: rstr
  bm_bullet :: "(nat \<times> nat) option"
  bm_language :: "rstr option"

record ('w, 't) built_utt =
  bu_main :: "'w built_main"
  bu_wor :: "'t option"

datatype media_kind = AudioMedia | VideoMedia

record participant_entry =
  en_code :: rstr
  en_name :: "rstr option"
  en_role :: rstr

record id_header =
  ih_language :: rstr
  ih_code :: rstr
  ih_role :: rstr
  ih_corpus :: rstr

datatype built_header =
    HUtf8
  | HBegin
  | HLanguages "rstr list"
  | HParticipants "participant_entry list"
  | HId id_header
  | HMedia rstr media_kind
  | HComment rstr
  | HEnd

datatype 'u built_line = BHeader built_header | BUtterance 'u

record 'u built_file =
  bf_lines :: "'u built_line list"
  bf_participants :: "(rstr \<times> (participant_entry \<times> id_header)) list"

record ('w, 't) chat_env =
  ce_parse_word :: "rstr \<Rightarrow> 'w option"
  ce_unchecked_word :: "rstr \<Rightarrow> 'w"
  ce_cleaned_text :: "'w \<Rightarrow> rstr"
  ce_terminator :: "rstr \<Rightarrow> rstr option"
  ce_is_chat_terminator :: "rstr \<Rightarrow> bool"
  ce_parse_strict :: "rstr \<Rightarrow> rstr + ('w, 't) built_utt built_line list"
  ce_language_code :: "rstr \<Rightarrow> rstr + rstr"
  ce_media_filename :: "rstr \<Rightarrow> rstr + rstr"
  ce_generate_wor :: "'w built_main \<Rightarrow> 't"

section \<open>Headers\<close>

fun map_res :: "('a \<Rightarrow> 'e + 'b) \<Rightarrow> 'a list \<Rightarrow> 'e + 'b list" where
  "map_res f [] = Inr []"
| "map_res f (x # xs) = bind_res (f x) (\<lambda>y. bind_res (map_res f xs) (\<lambda>ys. Inr (y # ys)))"

definition transcript_language :: "('w, 't, 'z) chat_env_scheme \<Rightarrow> rstr \<Rightarrow> rstr + rstr" where
  "transcript_language E l = map_err (\<lambda>e. str ''invalid transcript language: '' @ e) (ce_language_code E l)"

definition entry_of :: "participant_desc \<Rightarrow> participant_entry" where
  "entry_of p = \<lparr>en_code = pd_id p, en_name = pd_name p, en_role = pd_role p\<rparr>"

definition build_participant_entries :: "transcript_description \<Rightarrow> participant_entry list" where
  "build_participant_entries desc = map entry_of (td_participants desc)"

definition id_header_of :: "rstr \<Rightarrow> participant_desc \<Rightarrow> id_header" where
  "id_header_of lang_code p = \<lparr>ih_language = lang_code, ih_code = pd_id p, ih_role = pd_role p,
     ih_corpus = (if pd_corpus p = [] then str ''corpus_name'' else pd_corpus p)\<rparr>"

definition build_id_headers :: "transcript_description \<Rightarrow> rstr list \<Rightarrow> id_header list" where
  "build_id_headers desc langs =
     (let lang_code = (case langs of [] \<Rightarrow> [] | l # _ \<Rightarrow> l) in map (id_header_of lang_code) (td_participants desc))"

definition infer_media_type :: "rstr \<Rightarrow> media_kind" where
  "infer_media_type media_name =
     (case path_file_name media_name of
        None \<Rightarrow> AudioMedia
      | Some name \<Rightarrow>
         (case file_extension name of
            None \<Rightarrow> AudioMedia
          | Some ext \<Rightarrow>
              if to_ascii_lowercase ext \<in> {str ''mp4'', str ''mov'', str ''m4v'', str ''avi'', str ''mpg'', str ''mpeg''}
              then VideoMedia else AudioMedia))"

definition normalize_media_name :: "rstr \<Rightarrow> rstr" where
  "normalize_media_name raw = (case path_file_name raw of Some name \<Rightarrow> file_stem name | None \<Rightarrow> raw)"

definition media_kind_of :: "transcript_description \<Rightarrow> rstr \<Rightarrow> media_kind" where
  "media_kind_of desc media_name =
     (case td_media_type desc of
        None \<Rightarrow> infer_media_type media_name
      | Some t \<Rightarrow> if t = str ''video'' then VideoMedia else AudioMedia)"

definition build_media_header :: "('w, 't, 'z) chat_env_scheme \<Rightarrow> transcript_description \<Rightarrow> rstr + built_header option" where
  "build_media_header E desc =
     (case td_media_name desc of
        None \<Rightarrow> Inr None
      | Some media_name \<Rightarrow>
          bind_res (map_err (\<lambda>e. str ''invalid media filename: '' @ e)
              (ce_media_filename E (normalize_media_name media_name))) (\<lambda>filename.
            Inr (Some (HMedia filename (media_kind_of desc media_name)))))"

definition build_header_lines ::
  "('w, 't, 'z) chat_env_scheme \<Rightarrow> transcript_description \<Rightarrow> rstr list \<Rightarrow> rstr + ('w, 't) built_utt built_line list" where
  "build_header_lines E desc langs =
     bind_res (map_res (transcript_language E) langs) (\<lambda>language_codes.
     bind_res (build_media_header E desc) (\<lambda>media.
       Inr (map BHeader
         ([HUtf8, HBegin, HLanguages language_codes, HParticipants (build_participant_entries desc)] @
          map HId (build_id_headers desc language_codes) @
          (case media of None \<Rightarrow> [] | Some m \<Rightarrow> [m])))))"

section \<open>Utterances\<close>

definition tag_marker_separator :: "rstr \<Rightarrow> rstr option" where
  "tag_marker_separator t = (if t = str '','' \<or> t = [8222] \<or> t = [8225] then Some t else None)"

text \<open>The code's escape for the tag marker is U+201E, the one for the vocative U+2021.\<close>

record timing_state =
  ts_start :: "nat option"
  ts_end :: "nat option"
  ts_has_timing :: bool

definition parse_asr_word :: "('w, 't, 'z) chat_env_scheme \<Rightarrow> rstr \<Rightarrow> 'w" where
  "parse_asr_word E t = (case ce_parse_word E t of Some w \<Rightarrow> w | None \<Rightarrow> ce_unchecked_word E t)"

definition note_timing :: "nat option \<Rightarrow> nat option \<Rightarrow> timing_state \<Rightarrow> timing_state" where
  "note_timing start_ms end_ms st =
     (case (start_ms, end_ms) of
        (Some s, Some e) \<Rightarrow> \<lparr>ts_start = (if ts_start st = None then Some s else ts_start st), ts_end = Some e,
            ts_has_timing = True\<rparr>
      | _ \<Rightarrow> st)"

definition parse_and_time_word ::
  "('w, 't, 'z) chat_env_scheme \<Rightarrow> rstr \<Rightarrow> nat option \<Rightarrow> nat option \<Rightarrow> timing_state \<Rightarrow> 'w timed_item \<times> timing_state" where
  "parse_and_time_word E t start_ms end_ms st =
     ((parse_asr_word E t,
       (case (start_ms, end_ms) of (Some s, Some e) \<Rightarrow> Some (s, e) | _ \<Rightarrow> None)), note_timing start_ms end_ms st)"

definition push_retrace_content ::
  "('w, 't, 'z) chat_env_scheme \<Rightarrow> 'w timed_item list \<Rightarrow> 'w built_content list \<Rightarrow> 'w built_content list" where
  "push_retrace_content E parsed content =
     (if parsed = [] then content
      else
        let first_text = ce_cleaned_text E (fst (hd parsed));
            all_same_text = (length parsed > 1 \<and>
              list_all (\<lambda>w. eq_ignore_ascii_case (ce_cleaned_text E (fst w)) first_text) (tl parsed))
        in if length parsed = 1 \<or> all_same_text
           then content @ map (\<lambda>w. CRetrace False [w]) parsed
           else content @ [CRetrace True parsed])"

fun parse_retrace_run ::
  "('w, 't, 'z) chat_env_scheme \<Rightarrow> word_desc list \<Rightarrow> timing_state \<Rightarrow> 'w timed_item list \<times> timing_state" where
  "parse_retrace_run E [] st = ([], st)"
| "parse_retrace_run E (w # ws) st =
     (let t = trim (wd_text w)
      in if t = [] then parse_retrace_run E ws st
         else
           let (item, st1) = parse_and_time_word E t (wd_start w) (wd_end w) st;
               (items, st2) = parse_retrace_run E ws st1
           in (item # items, st2))"

definition is_retrace :: "word_desc \<Rightarrow> bool" where
  "is_retrace w \<longleftrightarrow> wd_kind w = Retrace"

function word_loop ::
  "('w, 't, 'z) chat_env_scheme \<Rightarrow> word_desc list \<Rightarrow> 'w built_content list \<Rightarrow> timing_state \<Rightarrow> 'w built_content list \<times> timing_state" where
  "word_loop E [] content st = (content, st)"
| "word_loop E (w # ws) content st =
     (let t = trim (wd_text w) in
      if t = [] then word_loop E ws content st
      else if ce_is_chat_terminator E t then word_loop E ws content st
      else case tag_marker_separator t of
        Some separator \<Rightarrow> word_loop E ws (content @ [CSeparator separator]) st
      | None \<Rightarrow>
          if is_retrace w then
            (case parse_retrace_run E (takeWhile is_retrace (w # ws)) st of
               (parsed, st1) \<Rightarrow>
                 word_loop E (dropWhile is_retrace ws) (push_retrace_content E parsed content) st1)
          else
            (case parse_and_time_word E t (wd_start w) (wd_end w) st of
               (item, st1) \<Rightarrow> word_loop E ws (content @ [CWord item]) st1))"
  by pat_completeness auto

termination
  by (relation "measure (\<lambda>(E, ws, content, st). length ws)") (auto simp: le_imp_less_Suc length_dropWhile_le)

definition build_word_utterance ::
  "('w, 't, 'z) chat_env_scheme \<Rightarrow> rstr \<Rightarrow> word_desc list \<Rightarrow> bool \<Rightarrow> nat option \<Rightarrow> nat option \<Rightarrow> ('w, 't) built_utt option" where
  "build_word_utterance E speaker words write_wor fallback_start fallback_end =
     (let last_text = (if words = [] then str ''.'' else wd_text (last words));
          terminator = (case ce_terminator E last_text of Some t \<Rightarrow> t | None \<Rightarrow> str ''.'');
          (content, st) = word_loop E words [] \<lparr>ts_start = None, ts_end = None, ts_has_timing = False\<rparr>
      in if content = [] then None
         else
           let start_ms = (case ts_start st of Some s \<Rightarrow> Some s | None \<Rightarrow> fallback_start);
               end_ms = (case ts_end st of Some e \<Rightarrow> Some e | None \<Rightarrow> fallback_end);
               main = \<lparr>bm_speaker = speaker, bm_content = content, bm_terminator = terminator,
                 bm_bullet = (case (start_ms, end_ms) of (Some s, Some e) \<Rightarrow> Some (s, e) | _ \<Rightarrow> None), bm_language = None\<rparr>
           in Some \<lparr>bu_main = main,
                bu_wor = (if write_wor \<and> ts_has_timing st then Some (ce_generate_wor E main) else None)\<rparr>)"

subsection \<open>Utterances given as text\<close>

text \<open>The minimal document around the text; a bullet is its times between two U+0015.\<close>

definition mini_chat :: "rstr \<Rightarrow> rstr \<Rightarrow> rstr \<Rightarrow> rstr \<Rightarrow> rstr" where
  "mini_chat lang speaker t bullet =
     str ''@UTF8'' @ [10] @ str ''@Begin'' @ [10] @ str ''@Languages:'' @ [9] @ lang @ [10] @
     str ''@Participants:'' @ [9] @ speaker @ str '' Participant Participant'' @ [10] @
     str ''@ID:'' @ [9] @ lang @ str ''|corpus_name|'' @ speaker @ str ''|||||Participant|||'' @ [10] @
     str ''*'' @ speaker @ str '':'' @ [9] @ t @ bullet @ [10] @ str ''@End'' @ [10]"

fun first_utterance :: "'u built_line list \<Rightarrow> 'u option" where
  "first_utterance [] = None"
| "first_utterance (BHeader h # ls) = first_utterance ls"
| "first_utterance (BUtterance u # ls) = Some u"

definition build_text_utterance ::
  "('w, 't, 'z) chat_env_scheme \<Rightarrow> rstr \<Rightarrow> rstr \<Rightarrow> nat option \<Rightarrow> nat option \<Rightarrow> rstr list \<Rightarrow> rstr + ('w, 't) built_utt option" where
  "build_text_utterance E speaker text0 start_ms end_ms langs =
     (let t = trim text0 in
      if t = [] then Inr None
      else
        let bullet_str = (case (start_ms, end_ms) of
                (Some s, Some e) \<Rightarrow> [32, 21] @ nat_to_string s @ str ''_'' @ nat_to_string e @ [21]
              | _ \<Rightarrow> []);
            lang_code = (case langs of [] \<Rightarrow> str ''eng'' | l # _ \<Rightarrow> l)
        in bind_res (map_err (\<lambda>error. str ''Failed to parse text utterance for speaker '' @ speaker @ str '': '' @ error)
               (ce_parse_strict E (mini_chat lang_code speaker t bullet_str))) (\<lambda>parsed. Inr (first_utterance parsed)))"

definition apply_utterance_language_override ::
  "('w, 't, 'z) chat_env_scheme \<Rightarrow> ('w, 't) built_utt \<Rightarrow> rstr option \<Rightarrow> rstr \<Rightarrow> rstr + ('w, 't) built_utt" where
  "apply_utterance_language_override E u utterance_lang primary_lang =
     (case utterance_lang of
        None \<Rightarrow> Inr u
      | Some l \<Rightarrow>
          if l \<noteq> primary_lang
          then bind_res (map_err (\<lambda>e. str ''invalid utterance language: '' @ e) (ce_language_code E l)) (\<lambda>code.
            Inr (u\<lparr>bu_main := (bu_main u)\<lparr>bm_language := Some code\<rparr>\<rparr>))
          else Inr u)"

definition build_utterance ::
  "('w, 't, 'z) chat_env_scheme \<Rightarrow> bool \<Rightarrow> rstr list \<Rightarrow> rstr \<Rightarrow> utterance_desc \<Rightarrow> rstr + ('w, 't) built_utt option" where
  "build_utterance E write_wor langs primary_lang d =
     (let words = (case de_words d of Some ws \<Rightarrow> ws | None \<Rightarrow> []) in
      if words = [] then
        (case de_text d of
           None \<Rightarrow> Inr None
         | Some t \<Rightarrow> build_text_utterance E (de_speaker d) t (de_start d) (de_end d) langs)
      else
        (case build_word_utterance E (de_speaker d) words write_wor (de_start d) (de_end d) of
           None \<Rightarrow> Inr None
         | Some u \<Rightarrow> bind_res (apply_utterance_language_override E u (de_lang d) primary_lang) (\<lambda>u. Inr (Some u))))"

fun build_utterance_lines ::
  "('w, 't, 'z) chat_env_scheme \<Rightarrow> bool \<Rightarrow> rstr list \<Rightarrow> rstr \<Rightarrow> utterance_desc list \<Rightarrow> rstr + ('w, 't) built_utt built_line list" where
  "build_utterance_lines E write_wor langs primary_lang [] = Inr []"
| "build_utterance_lines E write_wor langs primary_lang (d # ds) =
     bind_res (build_utterance E write_wor langs primary_lang d) (\<lambda>built.
     bind_res (build_utterance_lines E write_wor langs primary_lang ds) (\<lambda>ls.
       Inr (case built of None \<Rightarrow> ls | Some u \<Rightarrow> BUtterance u # ls)))"

section \<open>The builder\<close>

text \<open>The participant map keeps the order of insertion; a later participant of the same code replaces the value.\<close>

definition participant_map :: "rstr \<Rightarrow> participant_desc list \<Rightarrow> (rstr \<times> (participant_entry \<times> id_header)) list" where
  "participant_map lang_code ps =
     fold (\<lambda>p m. AList.update (pd_id p) (entry_of p, id_header_of lang_code p) m) ps []"

definition build_chat ::
  "('w, 't, 'z) chat_env_scheme \<Rightarrow> transcript_description \<Rightarrow> rstr + ('w, 't) built_utt built_file" where
  "build_chat E desc =
     (if td_participants desc = [] then Inl (str ''At least one participant is required'')
      else
        let langs = (if td_langs desc = [] then [str ''eng''] else td_langs desc);
            primary_lang = hd langs
        in bind_res (build_header_lines E desc langs) (\<lambda>headers.
           bind_res (build_utterance_lines E (td_write_wor desc) langs primary_lang (td_utterances desc)) (\<lambda>utts.
           bind_res (transcript_language E primary_lang) (\<lambda>lang_code.
             Inr \<lparr>bf_lines = headers @ utts @ [BHeader HEnd],
                  bf_participants = participant_map lang_code (td_participants desc)\<rparr>))))"

section \<open>From ASR utterances to a description\<close>

datatype transcript_error =
    InvalidLanguage rstr rstr
  | WordFailedValidation nat nat rstr rstr rstr "(rstr \<times> rstr) list"

text \<open>The checks of a word's text: under a language, and of its structure alone; \<open>None\<close> is success.\<close>

record ('w, 't) bridge_env = "('w, 't) chat_env" +
  be_lang_errors :: "rstr \<Rightarrow> rstr \<Rightarrow> (rstr \<times> rstr) list option"
  be_word_errors :: "rstr \<Rightarrow> (rstr \<times> rstr) list option"

definition role_for_speaker_code :: "rstr \<Rightarrow> rstr" where
  "role_for_speaker_code code =
     (if code = str ''INV'' then str ''Investigator'' else if code = str ''CHI'' then str ''Target_Child''
      else if code = str ''MOT'' then str ''Mother'' else if code = str ''FAT'' then str ''Father''
      else if code = str ''EXP'' then str ''Experimenter'' else if code = str ''OBS'' then str ''Observer''
      else if code = str ''TEA'' then str ''Teacher'' else str ''Participant'')"

definition resolve_speaker_id :: "nat \<Rightarrow> rstr list \<Rightarrow> rstr" where
  "resolve_speaker_id speaker participant_ids =
     (if speaker < length participant_ids then participant_ids ! speaker else str ''SP'' @ nat_to_string speaker)"

definition build_asr_participants :: "asr_utterance list \<Rightarrow> rstr list \<Rightarrow> participant_desc list" where
  "build_asr_participants utts participant_ids =
     map (\<lambda>speaker. let code = resolve_speaker_id speaker participant_ids
            in \<lparr>pd_id = code, pd_name = None, pd_role = role_for_speaker_code code, pd_corpus = []\<rparr>)
       (sort (remdups (map au_speaker utts)))"

definition fallback_or_fail_word ::
  "('w, 't, 'z) bridge_env_scheme \<Rightarrow> rstr \<Rightarrow> rstr \<Rightarrow> rstr \<Rightarrow> nat \<Rightarrow> nat \<Rightarrow> transcript_error + rstr" where
  "fallback_or_fail_word E t speaker_id lang utt_idx word_idx =
     (case be_word_errors E t of
        None \<Rightarrow> Inr t
      | Some parse_errors \<Rightarrow> Inl (WordFailedValidation utt_idx word_idx speaker_id t lang parse_errors))"

text \<open>\<open>ms as u64\<close> for an \<open>i64\<close>.\<close>

definition as_u64 :: "int \<Rightarrow> nat" where
  "as_u64 ms = nat (ms mod 2 ^ 64)"

definition validate_asr_word ::
  "('w, 't, 'z) bridge_env_scheme \<Rightarrow> asr_word \<Rightarrow> rstr \<Rightarrow> rstr \<Rightarrow> nat \<Rightarrow> nat \<Rightarrow> transcript_error + word_desc" where
  "validate_asr_word E word speaker_id lang utt_idx word_idx =
     bind_res (case be_lang_errors E (aw_text word) lang of
         None \<Rightarrow> Inr (aw_text word)
       | Some lang_errors \<Rightarrow> fallback_or_fail_word E (aw_text word) speaker_id lang utt_idx word_idx) (\<lambda>t.
       Inr \<lparr>wd_text = t, wd_start = map_option as_u64 (aw_start word), wd_end = map_option as_u64 (aw_end word),
            wd_kind = aw_kind word\<rparr>)"

definition bridge_language :: "('w, 't, 'z) bridge_env_scheme \<Rightarrow> rstr \<Rightarrow> transcript_error + rstr" where
  "bridge_language E l = map_err (InvalidLanguage l) (ce_language_code E l)"

definition describe_asr_utterance ::
  "('w, 't, 'z) bridge_env_scheme \<Rightarrow> rstr list \<Rightarrow> rstr \<Rightarrow> nat \<times> asr_utterance \<Rightarrow> transcript_error + utterance_desc" where
  "describe_asr_utterance E participant_ids primary_lang_code iu = (case iu of (utt_idx, utterance) \<Rightarrow>
     let speaker_id = resolve_speaker_id (au_speaker utterance) participant_ids in
     bind_res (case au_lang utterance of None \<Rightarrow> Inr primary_lang_code | Some l \<Rightarrow> bridge_language E l) (\<lambda>utterance_lang.
     bind_res (map_res (\<lambda>(word_idx, word). validate_asr_word E word speaker_id utterance_lang utt_idx word_idx)
         (enumerate 0 (au_words utterance))) (\<lambda>words.
       Inr \<lparr>de_speaker = speaker_id, de_words = Some words, de_text = None, de_start = None, de_end = None,
            de_lang = au_lang utterance\<rparr>)))"

definition transcript_from_asr_utterances ::
  "('w, 't, 'z) bridge_env_scheme \<Rightarrow> asr_utterance list \<Rightarrow> rstr list \<Rightarrow> rstr list \<Rightarrow> rstr option \<Rightarrow> bool \<Rightarrow>
     transcript_error + transcript_description" where
  "transcript_from_asr_utterances E utts participant_ids langs media_name write_wor =
     (let primary_language = (case langs of [] \<Rightarrow> str ''eng'' | l # _ \<Rightarrow> l) in
      bind_res (bridge_language E primary_language) (\<lambda>primary_lang_code.
      bind_res (map_res (describe_asr_utterance E participant_ids primary_lang_code) (enumerate 0 utts)) (\<lambda>descs.
        Inr \<lparr>td_langs = (if langs = [] then [str ''eng''] else langs),
             td_participants = build_asr_participants utts participant_ids,
             td_media_name = media_name, td_media_type = Some (str ''audio''),
             td_utterances = descs, td_write_wor = write_wor\<rparr>)))"

end
