(* ===== verification/Segmentation.thy ===== *)
theory Segmentation
  imports Decisions
begin

text \<open>
  \<^verbatim>\<open>batchalign-core/src/segmentation/mod.rs\<close>: the split of one utterance into several by a group number
  per word, and the outcome model around it. The words an item of the main tier has for the \<open>%mor\<close> and
  the \<open>%wor\<close> domain are extracted by the document crate and are given with the item; source spans are
  left out.
\<close>

section \<open>Utterances as segmentation sees them\<close>

datatype item_kind = RetraceItem | SeparatorItem | OtherItem

record content_item =
  ci_kind :: item_kind
  ci_text :: rstr
  ci_mor :: "rstr list"
  ci_wor :: nat

datatype wor_item = WorWord wor_word | WorSeparator rstr

record wor_seg =
  wg_language :: "rstr option"
  wg_items :: "wor_item list"
  wg_terminator :: "rstr option"
  wg_bullet :: "bullet option"

datatype seg_tier =
    SegWor wor_seg
  | SegMor rstr | SegGra rstr
  | SegPho rstr | SegMod rstr | SegSin rstr | SegModsyl rstr | SegPhosyl rstr | SegPhoaln rstr
  | SegFree rstr

record seg_utt =
  su_speaker :: rstr
  su_items :: "content_item list"
  su_linkers :: "rstr list"
  su_terminator :: "rstr option"
  su_language :: "rstr option"
  su_postcodes :: "rstr list"
  su_bullet :: "bullet option"
  su_tiers :: "seg_tier list"

definition mor_words :: "seg_utt \<Rightarrow> rstr list" where
  "mor_words u = concat (map ci_mor (su_items u))"

section \<open>Payloads and outcomes\<close>

record utseg_batch_item =
  ub_words :: "rstr list"
  ub_text :: rstr

record utseg_response =
  ur_assignments :: "nat list"

datatype utseg_reason = SingleWord | EmptyUtterance

definition utseg_reason_as_str :: "utseg_reason \<Rightarrow> rstr" where
  "utseg_reason_as_str r = (case r of SingleWord \<Rightarrow> str ''single_word'' | EmptyUtterance \<Rightarrow> str ''empty'')"

record utseg_diagnostic =
  ud_expected :: nat
  ud_actual :: nat
  ud_words :: "rstr list"

datatype utseg_outcome_kind =
    UtsegSkipped utseg_reason
  | UtsegAligned nat nat
  | UtsegMisaligned utseg_diagnostic

record utseg_outcome =
  uo_utt_ordinal :: nat
  uo_speaker :: rstr
  uo_kind :: utseg_outcome_kind

text \<open>\<open>debug_list\<close> is the \<open>{:?}\<close> rendering of the words.\<close>

definition to_decision_record :: "(rstr list \<Rightarrow> rstr) \<Rightarrow> utseg_outcome \<Rightarrow> nat \<Rightarrow> decision_record option" where
  "to_decision_record debug_list o' line_idx =
     (case uo_kind o' of
        UtsegAligned n_words n_segments \<Rightarrow> None
      | UtsegSkipped reason \<Rightarrow> Some \<lparr>dr_line_idx = line_idx, dr_speaker = uo_speaker o',
          dr_strategy = UtsegDecision UtsegNotApplicable,
          dr_reason = str ''reason='' @ utseg_reason_as_str reason, dr_needs_review = False\<rparr>
      | UtsegMisaligned diag \<Rightarrow> Some \<lparr>dr_line_idx = line_idx, dr_speaker = uo_speaker o',
          dr_strategy = UtsegDecision UtsegMisalignmentBug,
          dr_reason = str ''expected_assignments='' @ nat_to_string (ud_expected diag) @
            str '' actual_assignments='' @ nat_to_string (ud_actual diag) @
            str '' words='' @ debug_list (ud_words diag), dr_needs_review = True\<rparr>)"

text \<open>The loop over the utterances, with \<open>utt_idx\<close>: batch items and the utterances not dispatched.\<close>

fun collect_utseg_loop :: "nat \<Rightarrow> seg_utt list \<Rightarrow> (nat \<times> utseg_batch_item) list \<times> utseg_outcome list" where
  "collect_utseg_loop utt_idx [] = ([], [])"
| "collect_utseg_loop utt_idx (u # us) =
     (case collect_utseg_loop (Suc utt_idx) us of (items, skipped) \<Rightarrow>
       let ws = mor_words u
       in if length ws = 0 then (items, \<lparr>uo_utt_ordinal = utt_idx, uo_speaker = su_speaker u,
              uo_kind = UtsegSkipped EmptyUtterance\<rparr> # skipped)
          else if length ws = 1 then (items, \<lparr>uo_utt_ordinal = utt_idx, uo_speaker = su_speaker u,
              uo_kind = UtsegSkipped SingleWord\<rparr> # skipped)
          else ((utt_idx, \<lparr>ub_words = ws, ub_text = join (str '' '') ws\<rparr>) # items, skipped))"

definition collect_utseg_payloads :: "seg_utt line list \<Rightarrow> (nat \<times> utseg_batch_item) list \<times> utseg_outcome list" where
  "collect_utseg_payloads lines = collect_utseg_loop 0 (utterances lines)"

definition validate_utseg_response :: "utseg_batch_item \<Rightarrow> utseg_response \<Rightarrow> utseg_outcome_kind" where
  "validate_utseg_response batch_item response =
     (let expected = length (ub_words batch_item); actual = length (ur_assignments response)
      in if expected \<noteq> actual
         then UtsegMisaligned \<lparr>ud_expected = expected, ud_actual = actual, ud_words = ub_words batch_item\<rparr>
         else UtsegAligned expected (length (remdups (ur_assignments response))))"

section \<open>Groups of content items\<close>

definition build_word_to_content_map :: "content_item list \<Rightarrow> nat list" where
  "build_word_to_content_map content =
     concat (map (\<lambda>(content_idx, item). map (\<lambda>w. content_idx) (ci_mor item)) (enumerate 0 content))"

definition assign_word :: "nat list \<Rightarrow> nat \<times> nat \<Rightarrow> nat option list \<Rightarrow> nat option list" where
  "assign_word assignments wc item_group = (case wc of (word_idx, content_idx) \<Rightarrow>
     if word_idx < length assignments \<and> item_group ! content_idx = None
     then item_group[content_idx := Some (assignments ! word_idx)] else item_group)"

definition assign_words :: "nat list \<Rightarrow> nat list \<Rightarrow> nat \<Rightarrow> nat option list" where
  "assign_words assignments word_to_content n =
     fold (assign_word assignments) (enumerate 0 word_to_content) (replicate n None)"

text \<open>A retrace without a group takes the next group to its right.\<close>

fun first_some :: "'a option list \<Rightarrow> 'a option" where
  "first_some [] = None"
| "first_some (None # xs) = first_some xs"
| "first_some (Some x # xs) = Some x"

fun bind_retraces :: "content_item list \<Rightarrow> nat option list \<Rightarrow> nat option list" where
  "bind_retraces (item # items) (g # gs) =
     (if g \<noteq> None \<or> ci_kind item \<noteq> RetraceItem then g
      else (case first_some gs of Some next_group \<Rightarrow> Some next_group | None \<Rightarrow> g))
     # bind_retraces items gs"
| "bind_retraces items gs = gs"

fun back_fill :: "nat option \<Rightarrow> nat option list \<Rightarrow> nat option list" where
  "back_fill last_group [] = []"
| "back_fill last_group (Some x # gs) = Some x # back_fill (Some x) gs"
| "back_fill last_group (None # gs) = last_group # back_fill last_group gs"

definition forward_fill :: "nat option list \<Rightarrow> nat option list" where
  "forward_fill gs = rev (back_fill None (rev gs))"

definition content_groups :: "content_item list \<Rightarrow> nat list \<Rightarrow> nat option list" where
  "content_groups items assignments =
     forward_fill (back_fill None (bind_retraces items
       (assign_words assignments (build_word_to_content_map items) (length items))))"

definition group_id :: "nat option \<Rightarrow> nat" where
  "group_id g = (case g of Some x \<Rightarrow> x | None \<Rightarrow> 0)"

definition push_group :: "nat \<Rightarrow> content_item \<times> nat option \<Rightarrow> content_item list list \<Rightarrow> content_item list list" where
  "push_group max_group ig groups = (case ig of (item, g) \<Rightarrow>
     if group_id g \<le> max_group then groups[group_id g := groups ! group_id g @ [item]] else groups)"

definition max_group :: "nat list \<Rightarrow> nat" where
  "max_group assignments = foldl max 0 assignments"

definition content_by_group :: "content_item list \<Rightarrow> nat option list \<Rightarrow> nat \<Rightarrow> content_item list list" where
  "content_by_group items gs m = fold (push_group m) (zip items gs) (replicate (m + 1) [])"

section \<open>Tiers of the children\<close>

datatype tier_split_policy = Partition | DropTier | AttachFirst

fun policy_for_tier :: "seg_tier \<Rightarrow> tier_split_policy" where
  "policy_for_tier (SegWor w) = Partition"
| "policy_for_tier (SegMor x) = DropTier"
| "policy_for_tier (SegGra x) = DropTier"
| "policy_for_tier (SegPho x) = DropTier"
| "policy_for_tier (SegMod x) = DropTier"
| "policy_for_tier (SegSin x) = DropTier"
| "policy_for_tier (SegModsyl x) = DropTier"
| "policy_for_tier (SegPhosyl x) = DropTier"
| "policy_for_tier (SegPhoaln x) = DropTier"
| "policy_for_tier (SegFree x) = AttachFirst"

definition wor_eligible_word_groups :: "content_item list \<Rightarrow> nat option list \<Rightarrow> nat list" where
  "wor_eligible_word_groups items gs =
     concat (map (\<lambda>(item, g). replicate (ci_wor item) (group_id g)) (zip items gs))"

fun is_wor_word :: "wor_item \<Rightarrow> bool" where
  "is_wor_word (WorWord w) = True"
| "is_wor_word (WorSeparator s) = False"

text \<open>The walk over the items with \<open>next_word_idx\<close> as the rest of the word groups.\<close>

fun partition_items :: "wor_item list \<Rightarrow> nat list \<Rightarrow> nat option \<Rightarrow> wor_item list list \<Rightarrow> wor_item list list" where
  "partition_items [] word_groups last_seen per_child = per_child"
| "partition_items (WorWord w # items) [] last_seen per_child = per_child"
| "partition_items (WorWord w # items) (g # word_groups) last_seen per_child =
     partition_items items word_groups (Some g) (per_child[g := per_child ! g @ [WorWord w]])"
| "partition_items (WorSeparator s # items) word_groups last_seen per_child =
     (let g = group_id last_seen
      in partition_items items word_groups last_seen (per_child[g := per_child ! g @ [WorSeparator s]]))"

definition partition_wor_tier :: "wor_seg \<Rightarrow> nat list \<Rightarrow> nat \<Rightarrow> wor_seg list option" where
  "partition_wor_tier parent main_word_groups num_groups =
     (if length (filter is_wor_word (wg_items parent)) \<noteq> length main_word_groups then None
      else Some (map (\<lambda>items. parent\<lparr>wg_items := items\<rparr>)
        (partition_items (wg_items parent) main_word_groups None (replicate num_groups []))))"

fun first_wor :: "seg_tier list \<Rightarrow> wor_seg option" where
  "first_wor [] = None"
| "first_wor (t # ts) = (case t of SegWor w \<Rightarrow> Some w | _ \<Rightarrow> first_wor ts)"

section \<open>The split\<close>

definition period :: rstr where "period = str ''.''"

text \<open>A child: the parent's speaker and language, the content, and a period.\<close>

definition child_of :: "seg_utt \<Rightarrow> content_item list \<Rightarrow> seg_utt" where
  "child_of u content = \<lparr>su_speaker = su_speaker u, su_items = content, su_linkers = [],
     su_terminator = Some period, su_language = su_language u, su_postcodes = [], su_bullet = None, su_tiers = []\<rparr>"

definition is_separator :: "content_item \<Rightarrow> bool" where
  "is_separator item \<longleftrightarrow> ci_kind item = SeparatorItem"

fun children_of :: "seg_utt \<Rightarrow> nat \<Rightarrow> content_item list list \<Rightarrow> (nat \<times> seg_utt) list" where
  "children_of u group_idx [] = []"
| "children_of u group_idx (content # groups) =
     (let content' = dropWhile is_separator content
      in if content' = [] then children_of u (Suc group_idx) groups
         else (group_idx, child_of u content') # children_of u (Suc group_idx) groups)"

definition attach_wor :: "wor_seg list option \<Rightarrow> nat \<times> seg_utt \<Rightarrow> nat \<times> seg_utt" where
  "attach_wor partitioned c = (case c of (group_idx, child) \<Rightarrow>
     (case partitioned of
        None \<Rightarrow> (group_idx, child)
      | Some per_group \<Rightarrow>
          if group_idx < length per_group \<and> wg_items (per_group ! group_idx) \<noteq> []
          then (group_idx, child\<lparr>su_tiers := su_tiers child @ [SegWor (per_group ! group_idx)]\<rparr>)
          else (group_idx, child)))"

text \<open>What the first and the last child take over from the parent.\<close>

definition finish_first :: "seg_utt \<Rightarrow> seg_utt \<Rightarrow> seg_utt" where
  "finish_first parent child =
     (let child1 = child\<lparr>su_tiers := su_tiers child @
            filter (\<lambda>t. policy_for_tier t = AttachFirst) (su_tiers parent)\<rparr>
      in if su_linkers parent \<noteq> [] then child1\<lparr>su_linkers := su_linkers parent\<rparr> else child1)"

definition finish_last :: "seg_utt \<Rightarrow> seg_utt \<Rightarrow> seg_utt" where
  "finish_last parent child =
     (let child1 = (case su_terminator parent of None \<Rightarrow> child | Some t \<Rightarrow> child\<lparr>su_terminator := Some t\<rparr>);
          child2 = (if su_postcodes parent \<noteq> [] then child1\<lparr>su_postcodes := su_postcodes parent\<rparr> else child1)
      in (case su_bullet parent of None \<Rightarrow> child2 | Some b \<Rightarrow> child2\<lparr>su_bullet := Some b\<rparr>))"

definition update_first :: "('a \<Rightarrow> 'a) \<Rightarrow> 'a list \<Rightarrow> 'a list" where
  "update_first f xs = (case xs of [] \<Rightarrow> [] | x # ys \<Rightarrow> f x # ys)"

definition update_last :: "('a \<Rightarrow> 'a) \<Rightarrow> 'a list \<Rightarrow> 'a list" where
  "update_last f xs = (if xs = [] then [] else butlast xs @ [f (last xs)])"

definition split_utterance :: "seg_utt \<Rightarrow> nat list \<Rightarrow> seg_utt list" where
  "split_utterance utt assignments =
     (let items = su_items utt
      in if assignments = [] \<or> build_word_to_content_map items = [] then [utt]
         else if list_all (\<lambda>a. a = hd assignments) assignments then [utt]
         else
           let gs = content_groups items assignments;
               m = max_group assignments;
               partitioned = (case first_wor (su_tiers utt) of None \<Rightarrow> None
                 | Some wor \<Rightarrow> partition_wor_tier wor (wor_eligible_word_groups items gs) (m + 1));
               result = children_of utt 0 (content_by_group items gs m)
           in if result = [] then [utt]
              else update_last (finish_last utt) (update_first (finish_first utt)
                (map (\<lambda>c. snd (attach_wor partitioned c)) result)))"

section \<open>Applying the assignments of a file\<close>

fun apply_utseg_loop :: "(nat \<rightharpoonup> nat list) \<Rightarrow> nat \<Rightarrow> seg_utt line list \<Rightarrow> seg_utt line list" where
  "apply_utseg_loop assignment_map utt_ordinal [] = []"
| "apply_utseg_loop assignment_map utt_ordinal (HeaderLine h # ls) =
     HeaderLine h # apply_utseg_loop assignment_map utt_ordinal ls"
| "apply_utseg_loop assignment_map utt_ordinal (UtteranceLine u # ls) =
     (case assignment_map utt_ordinal of
        Some assignments \<Rightarrow> map UtteranceLine (split_utterance u assignments)
      | None \<Rightarrow> [UtteranceLine u]) @ apply_utseg_loop assignment_map (Suc utt_ordinal) ls"

text \<open>With an empty map the code returns at once; the loop changes nothing then either.\<close>

definition apply_utseg_results :: "seg_utt line list \<Rightarrow> (nat \<rightharpoonup> nat list) \<Rightarrow> seg_utt line list" where
  "apply_utseg_results lines assignment_map = apply_utseg_loop assignment_map 0 lines"

end
