(* ===== verification/SegmentationLaws.thy ===== *)
theory SegmentationLaws
  imports Segmentation "HOL-Library.Multiset"
begin

text \<open>
  What the split of an utterance keeps: the group of every content item is a group number that exists, so
  no item falls out of the buckets; with non-decreasing assignments the buckets in order are the content in
  order; and the utterance's other parts go to exactly one child or to all.
\<close>

section \<open>The group of an item\<close>

text \<open>The assignment of words to items, one item at a time: the first word of an item decides.\<close>

fun item_groups :: "nat list \<Rightarrow> nat \<Rightarrow> content_item list \<Rightarrow> nat option list" where
  "item_groups assignments p [] = []"
| "item_groups assignments p (item # items) =
     (if ci_mor item \<noteq> [] \<and> p < length assignments then Some (assignments ! p) else None)
     # item_groups assignments (p + length (ci_mor item)) items"

lemma length_item_groups [simp]: "length (item_groups as p items) = length items"
  by (induction items arbitrary: p) auto

lemma assign_taken:
  assumes "gs ! k \<noteq> None"
  shows "fold (assign_word as) (enumerate p (replicate n k)) gs = gs"
  using assms by (induction n arbitrary: p) (auto simp: assign_word_def)

lemma assign_past_end:
  assumes "length as \<le> p"
  shows "fold (assign_word as) (enumerate p (replicate n k)) gs = gs"
  using assms by (induction n arbitrary: p) (auto simp: assign_word_def)

lemma assign_block:
  assumes "k < length gs" and "gs ! k = None"
  shows "fold (assign_word as) (enumerate p (replicate n k)) gs
    = gs[k := (if n \<noteq> 0 \<and> p < length as then Some (as ! p) else None)]"
proof (cases n)
  case 0
  then show ?thesis using assms(2) list_update_id [of gs k] by simp
next
  case (Suc m)
  show ?thesis
  proof (cases "p < length as")
    case True
    have "fold (assign_word as) (enumerate p (replicate n k)) gs
        = fold (assign_word as) (enumerate (Suc p) (replicate m k)) (gs[k := Some (as ! p)])"
      using Suc True assms by (simp add: assign_word_def)
    also have "\<dots> = gs[k := Some (as ! p)]" using assms(1) by (intro assign_taken) simp
    finally show ?thesis using Suc True by simp
  next
    case False
    then have "fold (assign_word as) (enumerate p (replicate n k)) gs = gs" by (intro assign_past_end) simp
    then show ?thesis using False assms(2) list_update_id [of gs k] by simp
  qed
qed

lemma assign_words_item_groups:
  "fold (assign_word as)
     (enumerate p (concat (map (\<lambda>(k, item). map (\<lambda>w. k) (ci_mor item)) (enumerate (length gs) items))))
     (gs @ replicate (length items) None) = gs @ item_groups as p items"
proof (induction items arbitrary: gs p)
  case Nil
  then show ?case by simp
next
  case (Cons item items)
  let ?n = "length (ci_mor item)"
  let ?g = "if ci_mor item \<noteq> [] \<and> p < length as then Some (as ! p) else None"
  have block: "fold (assign_word as) (enumerate p (replicate ?n (length gs))) (gs @ None # replicate (length items) None)
      = (gs @ [?g]) @ replicate (length items) None"
    by (subst assign_block) auto
  have tail: "fold (assign_word as)
      (enumerate (p + ?n) (concat (map (\<lambda>(k, item). map (\<lambda>w. k) (ci_mor item)) (enumerate (length (gs @ [?g])) items))))
      ((gs @ [?g]) @ replicate (length items) None) = (gs @ [?g]) @ item_groups as (p + ?n) items"
    by (rule Cons.IH)
  show ?case using block tail by (simp add: enumerate_append_eq map_replicate_const)
qed

lemma assign_words_eq:
  "assign_words as (build_word_to_content_map items) (length items) = item_groups as 0 items"
  using assign_words_item_groups [of as 0 "[]" items]
  by (simp add: assign_words_def build_word_to_content_map_def)

section \<open>Group numbers stay in range and in order\<close>

text \<open>The numbers that occur, in order.\<close>

fun somes :: "'a option list \<Rightarrow> 'a list" where
  "somes [] = []"
| "somes (None # xs) = somes xs"
| "somes (Some x # xs) = x # somes xs"

lemma somes_append [simp]: "somes (xs @ ys) = somes xs @ somes ys"
  by (induction xs rule: somes.induct) auto

lemma somes_rev [simp]: "somes (rev xs) = rev (somes xs)"
  by (induction xs rule: somes.induct) auto

lemma first_some_somes: "first_some xs = (case somes xs of [] \<Rightarrow> None | y # ys \<Rightarrow> Some y)"
  by (induction xs rule: somes.induct) auto

lemma set_item_groups: "set (somes (item_groups as p items)) \<subseteq> set as"
  by (induction items arbitrary: p) auto

lemma item_groups_ge:
  assumes "sorted as" and "x \<in> set (somes (item_groups as p items))" and "q \<le> p" and "q < length as"
  shows "as ! q \<le> x"
  using assms
proof (induction items arbitrary: p)
  case (Cons item items)
  then show ?case by (auto simp: sorted_nth_mono split: if_splits)
qed simp

lemma sorted_item_groups: "sorted as \<Longrightarrow> sorted (somes (item_groups as p items))"
proof (induction items arbitrary: p)
  case (Cons item items)
  then show ?case by (auto intro: item_groups_ge)
qed simp

lemma length_bind_retraces [simp]: "length (bind_retraces items gs) = length gs"
  by (induction items gs rule: bind_retraces.induct) auto

lemma set_bind_retraces: "set (somes (bind_retraces items gs)) \<subseteq> set (somes gs)"
proof (induction items gs rule: bind_retraces.induct)
  case (1 item items g gs)
  then show ?case by (cases g) (auto simp: first_some_somes split: list.splits)
qed auto

lemma sorted_bind_retraces: "sorted (somes gs) \<Longrightarrow> sorted (somes (bind_retraces items gs))"
proof (induction items gs rule: bind_retraces.induct)
  case (1 item items g gs)
  have sub: "set (somes (bind_retraces items gs)) \<subseteq> set (somes gs)" by (rule set_bind_retraces)
  show ?case
  proof (cases g)
    case None
    then have "sorted (somes gs)" using "1.prems" by simp
    then show ?thesis using None "1.IH" sub
      by (fastforce simp: first_some_somes split: list.splits dest: subsetD)
  next
    case (Some x)
    then show ?thesis using 1 sub by auto
  qed
qed auto

lemma length_back_fill [simp]: "length (back_fill l gs) = length gs"
  by (induction l gs rule: back_fill.induct) auto

lemma length_forward_fill [simp]: "length (forward_fill gs) = length gs"
  by (simp add: forward_fill_def)

definition opt_list :: "'a option \<Rightarrow> 'a list" where
  "opt_list o' = (case o' of None \<Rightarrow> [] | Some x \<Rightarrow> [x])"

lemma set_back_fill: "set (somes (back_fill l gs)) \<subseteq> set (opt_list l) \<union> set (somes gs)"
proof (induction l gs rule: back_fill.induct)
  case (3 l gs)
  then show ?case by (cases l) (auto simp: opt_list_def)
qed (auto simp: opt_list_def)

lemma sorted_back_fill:
  "sorted (opt_list l @ somes gs) \<Longrightarrow> sorted (opt_list l @ somes (back_fill l gs))"
proof (induction l gs rule: back_fill.induct)
  case (2 l x gs)
  then show ?case by (cases l) (auto simp: opt_list_def dest: order_trans)
next
  case (3 l gs)
  then show ?case by (cases l) (auto simp: opt_list_def)
qed simp

text \<open>The same for decreasing lists, for the pass from the right.\<close>

lemma rsorted_back_fill:
  "sorted_wrt (\<ge>) (opt_list l @ somes gs) \<Longrightarrow> sorted_wrt (\<ge>) (opt_list l @ somes (back_fill l gs))"
proof (induction l gs rule: back_fill.induct)
  case (2 l x gs)
  then show ?case by (cases l) (auto simp: opt_list_def dest: order_trans)
next
  case (3 l gs)
  then show ?case by (cases l) (auto simp: opt_list_def)
qed simp

lemma length_content_groups [simp]: "length (content_groups items as) = length items"
  by (simp add: content_groups_def assign_words_eq)

lemma set_content_groups: "set (somes (content_groups items as)) \<subseteq> set as"
proof -
  have "set (somes (forward_fill gs)) \<subseteq> set (somes gs)" for gs :: "nat option list"
    using set_back_fill [of None "rev gs"] by (simp add: forward_fill_def opt_list_def)
  moreover have "set (somes (back_fill None gs)) \<subseteq> set (somes gs)" for gs :: "nat option list"
    using set_back_fill [of None gs] by (simp add: opt_list_def)
  ultimately show ?thesis
    unfolding content_groups_def assign_words_eq
    using set_bind_retraces [of items "item_groups as 0 items"] set_item_groups [of as 0 items] by blast
qed

lemma sorted_content_groups:
  assumes "sorted as"
  shows "sorted (somes (content_groups items as))"
proof -
  have b: "sorted (somes (back_fill None gs))" if "sorted (somes gs)" for gs :: "nat option list"
    using sorted_back_fill [of None gs] that by (simp add: opt_list_def)
  have f: "sorted (somes (forward_fill gs))" if "sorted (somes gs)" for gs :: "nat option list"
    using rsorted_back_fill [of None "rev gs"] that
    by (simp add: forward_fill_def opt_list_def sorted_wrt_rev sorted_rev_iff_nth_mono)
  show ?thesis
    unfolding content_groups_def assign_words_eq
    by (intro f b sorted_bind_retraces sorted_item_groups assms)
qed

text \<open>After both fills an item is without a group only if all are.\<close>

lemma back_fill_Some: "None \<notin> set (back_fill (Some x) gs)"
  by (induction "Some x" gs arbitrary: x rule: back_fill.induct) auto

lemma back_fill_prefix:
  "somes gs \<noteq> [] \<Longrightarrow> \<exists>n x hs. back_fill None gs = replicate n None @ Some x # hs \<and> None \<notin> set hs"
proof (induction gs)
  case (Cons g gs)
  show ?case
  proof (cases g)
    case None
    then have "somes gs \<noteq> []" using Cons.prems by simp
    from Cons.IH [OF this] obtain n x hs where
      "back_fill None gs = replicate n None @ Some x # hs" "None \<notin> set hs" by blast
    then have "back_fill None (g # gs) = replicate (Suc n) None @ Some x # hs" using None by simp
    with \<open>None \<notin> set hs\<close> show ?thesis by blast
  next
    case (Some x)
    then have "back_fill None (g # gs) = replicate 0 None @ Some x # back_fill (Some x) gs" by simp
    with back_fill_Some show ?thesis by blast
  qed
qed simp

lemma back_fill_total: "None \<notin> set gs \<Longrightarrow> back_fill l gs = gs"
  by (induction l gs rule: back_fill.induct) auto

lemma back_fill_replicate: "back_fill (Some x) (replicate n None) = replicate n (Some x)"
  by (induction n) auto

lemma back_fill_append:
  "back_fill l (gs @ Some x # hs) = back_fill l gs @ Some x # back_fill (Some x) hs"
  by (induction l gs rule: back_fill.induct) auto

lemma filled_total:
  assumes "somes gs \<noteq> []"
  shows "None \<notin> set (forward_fill (back_fill None gs))"
proof -
  from back_fill_prefix [OF assms] obtain n x hs where
    e: "back_fill None gs = replicate n None @ Some x # hs" and hs: "None \<notin> set hs" by blast
  have "back_fill None (rev hs @ Some x # replicate n None) = rev hs @ Some x # replicate n (Some x)"
    using hs by (simp add: back_fill_append back_fill_total back_fill_replicate)
  then show ?thesis using hs by (auto simp: forward_fill_def e)
qed

lemma group_ids_somes: "None \<notin> set gs \<Longrightarrow> map group_id gs = somes gs"
  by (induction gs rule: somes.induct) (auto simp: group_id_def)

lemma group_ids_none: "somes gs = [] \<Longrightarrow> map group_id gs = replicate (length gs) 0"
  by (induction gs rule: somes.induct) (auto simp: group_id_def)

lemma somes_content_groups:
  "content_groups items as = replicate (length items) None \<or> None \<notin> set (content_groups items as)"
proof (cases "somes (bind_retraces items (item_groups as 0 items)) = []")
  case True
  have none: "gs = replicate (length gs) None" if "somes gs = []" for gs :: "nat option list"
    using that by (induction gs rule: somes.induct) auto
  have len: "length (content_groups items as) = length items" by simp
  have "set (somes (content_groups items as)) \<subseteq> {}"
  proof -
    have "set (somes (forward_fill gs)) \<subseteq> set (somes gs)" for gs :: "nat option list"
      using set_back_fill [of None "rev gs"] by (simp add: forward_fill_def opt_list_def)
    moreover have "set (somes (back_fill None gs)) \<subseteq> set (somes gs)" for gs :: "nat option list"
      using set_back_fill [of None gs] by (simp add: opt_list_def)
    ultimately show ?thesis unfolding content_groups_def assign_words_eq using True by fastforce
  qed
  then have "somes (content_groups items as) = []" by simp
  from none [OF this] len show ?thesis by simp
next
  case False
  then show ?thesis unfolding content_groups_def assign_words_eq using filled_total by blast
qed

lemma group_ids_sorted:
  assumes "sorted as"
  shows "sorted (map group_id (content_groups items as))"
  using somes_content_groups [of items as]
proof
  assume "content_groups items as = replicate (length items) None"
  then show ?thesis by simp
next
  assume "None \<notin> set (content_groups items as)"
  then show ?thesis using sorted_content_groups [OF assms] by (simp add: group_ids_somes)
qed

lemma foldl_max_ge: "(m :: nat) \<le> foldl max m xs \<and> (\<forall>x \<in> set xs. x \<le> foldl max m xs)"
proof (induction xs arbitrary: m)
  case (Cons a xs)
  from Cons [of "max m a"] show ?case by auto
qed simp

lemma group_id_le:
  assumes "g \<in> set (content_groups items as)"
  shows "group_id g \<le> max_group as"
proof (cases g)
  case None
  then show ?thesis by (simp add: group_id_def)
next
  case (Some x)
  have "x \<in> set (somes gs)" if "Some x \<in> set gs" for gs :: "nat option list"
    using that by (induction gs rule: somes.induct) auto
  then have "x \<in> set as" using assms Some set_content_groups by blast
  then show ?thesis using Some foldl_max_ge [of 0 as] by (simp add: group_id_def max_group_def)
qed

section \<open>The buckets\<close>

lemma push_groups_nth:
  assumes "list_all (\<lambda>(i, g). group_id g \<le> m) igs" and "length bs = m + 1" and "k \<le> m"
  shows "fold (push_group m) igs bs ! k = bs ! k @ map fst (filter (\<lambda>(i, g). group_id g = k) igs)"
  using assms
proof (induction igs arbitrary: bs)
  case (Cons ig igs)
  obtain i g where ig: "ig = (i, g)" by (cases ig)
  have "length (push_group m ig bs) = m + 1" using Cons.prems by (simp add: push_group_def ig)
  with Cons show ?case by (auto simp: ig push_group_def nth_list_update)
qed simp

lemma length_push_groups: "length (fold (push_group m) igs bs) = length bs"
proof (induction igs arbitrary: bs)
  case (Cons ig igs)
  then show ?case by (cases ig) (simp add: push_group_def)
qed simp

lemma content_by_group_eq:
  assumes "list_all (\<lambda>g. group_id g \<le> m) gs"
  shows "content_by_group items gs m
    = map (\<lambda>k. map fst (filter (\<lambda>(i, g). group_id g = k) (zip items gs))) [0..<m + 1]"
proof (rule nth_equalityI)
  show "length (content_by_group items gs m)
      = length (map (\<lambda>k. map fst (filter (\<lambda>(i, g). group_id g = k) (zip items gs))) [0..<m + 1])"
    by (simp add: content_by_group_def length_push_groups)
next
  fix k assume "k < length (content_by_group items gs m)"
  then have k: "k \<le> m" by (simp add: content_by_group_def length_push_groups)
  have "list_all (\<lambda>(i, g). group_id g \<le> m) (zip items gs)"
    using assms by (auto simp: list_all_iff dest: set_zip_rightD)
  from push_groups_nth [OF this _ k, of "replicate (m + 1) []"] k
  show "content_by_group items gs m ! k
      = map (\<lambda>k. map fst (filter (\<lambda>(i, g). group_id g = k) (zip items gs))) [0..<m + 1] ! k"
    by (simp add: content_by_group_def del: upt_Suc replicate_Suc)
qed

text \<open>Buckets by a key in range hold everything once; of a list in key order they are the list.\<close>

lemma buckets_mset:
  assumes "list_all (\<lambda>x. f x \<le> m) xs"
  shows "mset (concat (map (\<lambda>k. filter (\<lambda>x. f x = k) xs) [0..<m + 1])) = mset xs"
  using assms
proof (induction xs)
  case (Cons x xs)
  have one: "mset (concat (map (\<lambda>k. filter (\<lambda>y. f y = k) (x # xs)) ks))
      = (if f x \<in> set ks then {#x#} else {#}) + mset (concat (map (\<lambda>k. filter (\<lambda>y. f y = k) xs) ks))"
    if "distinct ks" for ks
    using that by (induction ks) auto
  show ?case using Cons by (subst one) (auto simp del: upt_Suc)
qed (simp add: concat_eq_Nil_conv del: upt_Suc)

lemma buckets_sorted:
  assumes "list_all (\<lambda>x. f x \<le> m) xs" and "sorted (map f xs)"
  shows "concat (map (\<lambda>k. filter (\<lambda>x. f x = k) xs) [0..<m + 1]) = xs"
  using assms
proof (induction xs)
  case Nil
  show ?case by (simp add: concat_eq_Nil_conv del: upt_Suc)
next
  case (Cons x xs)
  let ?b = "\<lambda>ys ks. concat (map (\<lambda>k. filter (\<lambda>y. f y = k) ys) ks)"
  have ks: "[0..<m + 1] = [0..<f x] @ f x # [Suc (f x)..<m + 1]"
  proof -
    have "m + 1 = f x + Suc (m - f x)" using Cons.prems(1) by simp
    then have "[0..<m + 1] = [0..<f x] @ [f x..<f x + Suc (m - f x)]"
      by (simp only: upt_add_eq_append [OF le0])
    then show ?thesis by (simp add: upt_conv_Cons del: upt_Suc) (use Cons.prems(1) in simp)
  qed
  have low: "?b xs [0..<f x] = []" "?b (x # xs) [0..<f x] = []"
    using Cons.prems(2) by (auto simp: concat_eq_Nil_conv filter_empty_conv)
  have high: "?b (x # xs) [Suc (f x)..<m + 1] = ?b xs [Suc (f x)..<m + 1]"
    by (intro arg_cong [where f = concat] map_cong) auto
  have "?b xs [0..<m + 1] = xs" using Cons by simp
  then show ?case unfolding ks using low high by (simp del: upt_Suc)
qed


section \<open>The children\<close>

lemma concat_content_by_group:
  fixes items :: "content_item list" and as :: "nat list"
  defines "pairs \<equiv> zip items (content_groups items as)"
  shows "concat (content_by_group items (content_groups items as) (max_group as))
      = map fst (concat (map (\<lambda>k. filter (\<lambda>x. group_id (snd x) = k) pairs) [0..<max_group as + 1]))"
    and "list_all (\<lambda>x. group_id (snd x) \<le> max_group as) pairs"
    and "map fst pairs = items" and "map (\<lambda>x. group_id (snd x)) pairs = map group_id (content_groups items as)"
proof -
  have le: "list_all (\<lambda>g. group_id g \<le> max_group as) (content_groups items as)"
    by (simp add: list_all_iff group_id_le)
  show "list_all (\<lambda>x. group_id (snd x) \<le> max_group as) pairs"
    using le unfolding pairs_def by (auto simp: list_all_iff dest: set_zip_rightD)
  show "concat (content_by_group items (content_groups items as) (max_group as))
      = map fst (concat (map (\<lambda>k. filter (\<lambda>x. group_id (snd x) = k) pairs) [0..<max_group as + 1]))"
    by (simp add: content_by_group_eq [OF le] pairs_def map_concat comp_def case_prod_unfold del: upt_Suc)
  show "map fst pairs = items" by (simp add: pairs_def)
  have "map (\<lambda>x. group_id (snd x)) pairs = map group_id (map snd pairs)" by simp
  then show "map (\<lambda>x. group_id (snd x)) pairs = map group_id (content_groups items as)"
    by (simp add: pairs_def)
qed

lemma content_by_group_mset:
  "mset (concat (content_by_group items (content_groups items as) (max_group as))) = mset items"
proof -
  note parts = concat_content_by_group [where items = items and as = as]
  show ?thesis
    unfolding parts(1) mset_map buckets_mset [OF parts(2)] by (simp only: mset_map [symmetric] parts(3))
qed

lemma content_by_group_sorted:
  assumes "sorted as"
  shows "concat (content_by_group items (content_groups items as) (max_group as)) = items"
proof -
  note parts = concat_content_by_group [where items = items and as = as]
  have "sorted (map (\<lambda>x. group_id (snd x)) (zip items (content_groups items as)))"
    unfolding parts(4) by (rule group_ids_sorted [OF assms])
  from buckets_sorted [OF parts(2) this] show ?thesis unfolding parts(1) using parts(3) by simp
qed

definition content_of :: "seg_utt list \<Rightarrow> content_item list" where
  "content_of us = filter (\<lambda>i. \<not> is_separator i) (concat (map su_items us))"

lemma filter_dropWhile: "filter (\<lambda>x. \<not> P x) (dropWhile P xs) = filter (\<lambda>x. \<not> P x) xs"
  by (induction xs) auto

lemma children_content:
  "content_of (map snd (children_of u k gs)) = filter (\<lambda>i. \<not> is_separator i) (concat gs)"
proof (induction gs arbitrary: k)
  case (Cons c gs)
  have "filter (\<lambda>i. \<not> is_separator i) c = filter (\<lambda>i. \<not> is_separator i) (dropWhile is_separator c)"
    by (simp add: filter_dropWhile)
  with Cons show ?case by (auto simp: content_of_def child_of_def Let_def)
qed (simp add: content_of_def)

lemma map_update_first: "(\<And>x. f (g x) = f x) \<Longrightarrow> map f (update_first g xs) = map f xs"
  by (simp add: update_first_def split: list.splits)

lemma map_update_last: "(\<And>x. f (g x) = f x) \<Longrightarrow> map f (update_last g xs) = map f xs"
  by (cases xs rule: rev_cases) (simp_all add: update_last_def)

lemma finish_parts [simp]:
  "su_items (finish_first u c) = su_items c" "su_items (finish_last u c) = su_items c"
  "su_speaker (finish_first u c) = su_speaker c" "su_speaker (finish_last u c) = su_speaker c"
  "su_language (finish_first u c) = su_language c" "su_language (finish_last u c) = su_language c"
  "su_postcodes (finish_first u c) = su_postcodes c" "su_linkers (finish_last u c) = su_linkers c"
  "su_bullet (finish_first u c) = su_bullet c" "su_terminator (finish_first u c) = su_terminator c"
  by (simp_all add: finish_first_def finish_last_def Let_def split: option.splits)

lemma attach_wor_parts [simp]:
  "su_items (snd (attach_wor w c)) = su_items (snd c)" "su_speaker (snd (attach_wor w c)) = su_speaker (snd c)"
  "su_language (snd (attach_wor w c)) = su_language (snd c)" "su_postcodes (snd (attach_wor w c)) = su_postcodes (snd c)"
  "su_linkers (snd (attach_wor w c)) = su_linkers (snd c)" "su_bullet (snd (attach_wor w c)) = su_bullet (snd c)"
  "su_terminator (snd (attach_wor w c)) = su_terminator (snd c)"
  by (simp_all add: attach_wor_def split: prod.splits option.splits)

text \<open>The result is the utterance itself, or its children with the first and last one completed.\<close>

lemma split_utterance_cases:
  fixes u :: seg_utt and as :: "nat list"
  defines "cs \<equiv> children_of u 0 (content_by_group (su_items u) (content_groups (su_items u) as) (max_group as))"
  shows "split_utterance u as = [u] \<or> (cs \<noteq> [] \<and> (\<exists>w. split_utterance u as
    = update_last (finish_last u) (update_first (finish_first u) (map (\<lambda>c. snd (attach_wor w c)) cs))))"
  unfolding split_utterance_def Let_def cs_def by (simp split: if_split) blast

lemma split_content:
  assumes "split_utterance u as \<noteq> [u]"
  shows "content_of (split_utterance u as) = filter (\<lambda>i. \<not> is_separator i)
    (concat (content_by_group (su_items u) (content_groups (su_items u) as) (max_group as)))"
    (is "_ = filter _ (concat ?g)")
proof -
  from split_utterance_cases [of u as] assms obtain w where e: "split_utterance u as
    = update_last (finish_last u) (update_first (finish_first u) (map (\<lambda>c. snd (attach_wor w c)) (children_of u 0 ?g)))"
    by blast
  have "map su_items (split_utterance u as) = map su_items (map snd (children_of u 0 ?g))"
    unfolding e by (subst map_update_last, simp, subst map_update_first, simp, simp)
  then have "content_of (split_utterance u as) = content_of (map snd (children_of u 0 ?g))"
    by (simp add: content_of_def)
  then show ?thesis by (simp add: children_content)
qed


section \<open>What the split promises\<close>

lemma split_content_mset: "mset (content_of (split_utterance u as)) = mset (content_of [u])"
proof (cases "split_utterance u as = [u]")
  case False
  from split_content [OF this] show ?thesis
    using content_by_group_mset [of "su_items u" as] by (simp add: content_of_def)
qed simp

lemma split_content_sorted:
  assumes "sorted as"
  shows "content_of (split_utterance u as) = content_of [u]"
proof (cases "split_utterance u as = [u]")
  case False
  from split_content [OF this] show ?thesis
    using content_by_group_sorted [OF assms, of "su_items u"] by (simp add: content_of_def)
qed simp

lemma children_fresh:
  "c \<in> set (children_of u k gs) \<Longrightarrow>
     \<exists>content. content \<noteq> [] \<and> \<not> is_separator (hd content) \<and> snd c = child_of u content"
proof (induction gs arbitrary: k)
  case (Cons g gs)
  let ?g = "dropWhile is_separator g"
  show ?case
  proof (cases "?g \<noteq> [] \<and> c = (k, child_of u ?g)")
    case True
    then have "\<not> is_separator (hd ?g)" using hd_dropWhile [of is_separator g] by blast
    moreover from True have "snd c = child_of u ?g" by simp
    ultimately show ?thesis using True by blast
  next
    case False
    with Cons.prems have "c \<in> set (children_of u (Suc k) gs)" by (auto simp: Let_def split: if_splits)
    then show ?thesis by (rule Cons.IH)
  qed
qed simp

text \<open>
  The policy for the parts of the parent that belong to the whole utterance: speaker and language on every
  child, linkers on the first, terminator, postcodes and bullet on the last; a child that is not the last
  ends in a period and has no bullet, and no child begins with a separator.
\<close>

definition child_policy :: "seg_utt \<Rightarrow> seg_utt list \<Rightarrow> bool" where
  "child_policy u cs = (let n = length cs - 1 in
     cs \<noteq> [] \<and>
     list_all (\<lambda>c. su_speaker c = su_speaker u \<and> su_language c = su_language u \<and>
       su_items c \<noteq> [] \<and> \<not> is_separator (hd (su_items c))) cs \<and>
     map su_linkers cs = su_linkers u # replicate n [] \<and>
     map su_postcodes cs = replicate n [] @ [su_postcodes u] \<and>
     map su_bullet cs = replicate n None @ [su_bullet u] \<and>
     map su_terminator cs = replicate n (Some period)
       @ [Some (case su_terminator u of None \<Rightarrow> period | Some t \<Rightarrow> t)])"

lemma map_const: "list_all (\<lambda>x. f x = a) xs \<Longrightarrow> map f xs = replicate (length xs) a"
  by (induction xs) auto

lemma length_update [simp]: "length (update_first f xs) = length xs" "length (update_last g xs) = length xs"
  by (auto simp: update_first_def update_last_def split: list.splits)

lemma update_Nil: "update_first f xs = [] \<longleftrightarrow> xs = []" "update_last g xs = [] \<longleftrightarrow> xs = []"
  by (auto simp: update_first_def update_last_def split: list.splits)

lemma map_update_first_const:
  assumes "list_all (\<lambda>x. f x = a) xs" and "xs \<noteq> []" and "\<And>x. f x = a \<Longrightarrow> f (g x) = b"
  shows "map f (update_first g xs) = b # replicate (length xs - 1) a"
  using assms by (cases xs) (auto simp: update_first_def map_const)

lemma map_update_last_const:
  assumes "list_all (\<lambda>x. f x = a) xs" and "xs \<noteq> []" and "\<And>x. f x = a \<Longrightarrow> f (g x) = b"
  shows "map f (update_last g xs) = replicate (length xs - 1) a @ [b]"
  using assms by (cases xs rule: rev_cases) (auto simp: update_last_def map_const)

lemma list_all_map_eq: "list_all P (map f xs) = list_all (\<lambda>x. P (f x)) xs"
  by (simp add: list.pred_map comp_def)

lemma list_all_same:
  assumes "list_all (\<lambda>x. P (f x)) ys" and "map f xs = map f ys"
  shows "list_all (\<lambda>x. P (f x)) xs"
  using assms(1) unfolding list_all_map_eq [symmetric] assms(2) .

lemma list_all_update_first: "list_all P xs \<Longrightarrow> (\<And>x. P x \<Longrightarrow> P (g x)) \<Longrightarrow> list_all P (update_first g xs)"
  by (auto simp: update_first_def split: list.splits)

lemma list_all_update_last: "list_all P xs \<Longrightarrow> (\<And>x. P x \<Longrightarrow> P (g x)) \<Longrightarrow> list_all P (update_last g xs)"
  by (cases xs rule: rev_cases) (auto simp: update_last_def)

lemma finished_child_policy:
  assumes "cs \<noteq> []"
    and fixed: "list_all (\<lambda>c. su_speaker c = su_speaker u \<and> su_language c = su_language u \<and>
      su_items c \<noteq> [] \<and> \<not> is_separator (hd (su_items c))) cs"
    and empty: "list_all (\<lambda>c. su_linkers c = []) cs" "list_all (\<lambda>c. su_postcodes c = []) cs"
      "list_all (\<lambda>c. su_bullet c = None) cs" "list_all (\<lambda>c. su_terminator c = Some period) cs"
  shows "child_policy u (update_last (finish_last u) (update_first (finish_first u) cs))" (is "child_policy u ?r")
proof -
  let ?f = "update_first (finish_first u) cs"
  have ne: "?f \<noteq> []" "?r \<noteq> []" and len: "length ?r = length cs" "length ?f = length cs"
    using assms(1) by (simp_all add: update_Nil)
  have "list_all (\<lambda>c. su_speaker c = su_speaker u \<and> su_language c = su_language u \<and>
      su_items c \<noteq> [] \<and> \<not> is_separator (hd (su_items c))) ?r"
    by (intro list_all_update_last list_all_update_first fixed) simp_all
  moreover have "map su_linkers ?r = su_linkers u # replicate (length cs - 1) []"
  proof -
    have "map su_linkers ?r = map su_linkers ?f" by (simp add: map_update_last)
    also have "\<dots> = su_linkers u # replicate (length cs - 1) []"
      by (rule map_update_first_const [OF empty(1) assms(1)]) (simp add: finish_first_def Let_def)
    finally show ?thesis .
  qed
  moreover have "map su_postcodes ?r = replicate (length ?f - 1) [] @ [su_postcodes u]"
    by (rule map_update_last_const [OF list_all_same [where f = su_postcodes and P = "\<lambda>x. x = []", OF empty(2)] ne(1)])
       (simp_all add: map_update_first finish_last_def Let_def split: option.splits)
  moreover have "map su_bullet ?r = replicate (length ?f - 1) None @ [su_bullet u]"
    by (rule map_update_last_const [OF list_all_same [where f = su_bullet and P = "\<lambda>x. x = None", OF empty(3)] ne(1)])
       (simp_all add: map_update_first finish_last_def Let_def split: option.splits)
  moreover have "map su_terminator ?r = replicate (length ?f - 1) (Some period)
      @ [Some (case su_terminator u of None \<Rightarrow> period | Some t \<Rightarrow> t)]"
    by (rule map_update_last_const [OF list_all_same [where f = su_terminator and P = "\<lambda>x. x = Some period", OF empty(4)] ne(1)])
       (simp_all add: map_update_first finish_last_def Let_def split: option.splits)
  ultimately show ?thesis using ne by (simp add: child_policy_def Let_def len)
qed

lemma attached_children:
  assumes "c \<in> set (map (\<lambda>c. snd (attach_wor w c)) (children_of u k gs))"
  shows "su_speaker c = su_speaker u \<and> su_language c = su_language u \<and> su_items c \<noteq> [] \<and>
    \<not> is_separator (hd (su_items c)) \<and> su_linkers c = [] \<and> su_postcodes c = [] \<and> su_bullet c = None \<and>
    su_terminator c = Some period"
proof -
  from assms obtain c' where c': "c' \<in> set (children_of u k gs)" and c: "c = snd (attach_wor w c')" by auto
  from children_fresh [OF c'] obtain content
    where "content \<noteq> []" "\<not> is_separator (hd content)" "snd c' = child_of u content" by blast
  then show ?thesis by (simp add: c child_of_def)
qed

lemma split_child_policy: "split_utterance u as = [u] \<or> child_policy u (split_utterance u as)"
proof -
  let ?g = "content_by_group (su_items u) (content_groups (su_items u) as) (max_group as)"
  have "child_policy u (update_last (finish_last u) (update_first (finish_first u)
      (map (\<lambda>c. snd (attach_wor w c)) (children_of u 0 ?g))))" if "children_of u 0 ?g \<noteq> []" for w
    by (rule finished_child_policy)
       (use that attached_children [of _ w u 0 ?g] in \<open>simp_all add: list_all_iff del: set_map\<close>)
  then show ?thesis using split_utterance_cases [of u as] by metis
qed

end
