(* ===== verification/SegmentationWor.thy ===== *)
theory SegmentationWor
  imports SegmentationLaws
begin

text \<open>
  The \<open>%wor\<close> tier of a split utterance: when it counts as many words as the main tier has words of its
  domain, every child gets exactly the timed words of its own main tier, and the children together have
  the parent's, in order.
\<close>

section \<open>The words of the groups\<close>

abbreviation words_of :: "wor_item list \<Rightarrow> wor_item list" where
  "words_of items \<equiv> filter is_wor_word items"

definition wor_words_of :: "seg_utt \<Rightarrow> wor_item list" where
  "wor_words_of u = (case first_wor (su_tiers u) of None \<Rightarrow> [] | Some w \<Rightarrow> words_of (wg_items w))"

definition wor_count :: "content_item list \<Rightarrow> nat" where
  "wor_count items = sum_list (map ci_wor items)"

lemma length_partition_items [simp]: "length (partition_items items wg l pc) = length pc"
  by (induction items wg l pc rule: partition_items.induct) (auto simp: Let_def)

lemma partition_items_words:
  assumes "length (words_of items) = length wg" and "list_all (\<lambda>g. g < length pc) wg"
    and "group_id l < length pc" and "k < length pc"
  shows "words_of (partition_items items wg l pc ! k)
    = words_of (pc ! k) @ map fst (filter (\<lambda>x. snd x = k) (zip (words_of items) wg))"
  using assms
proof (induction items wg l pc rule: partition_items.induct)
  case (3 w items g wg l pc)
  then show ?case by (auto simp: group_id_def nth_list_update)
next
  case (4 s items wg l pc)
  then show ?case by (auto simp: Let_def nth_list_update)
qed auto

lemma eligible_le:
  assumes "list_all (\<lambda>g. group_id g \<le> m) gs"
  shows "list_all (\<lambda>g. g < m + 1) (wor_eligible_word_groups items gs)"
  using assms by (auto simp: wor_eligible_word_groups_def list_all_iff dest!: set_zip_rightD)

lemma eligible_sorted:
  assumes "length items = length gs" and "sorted (map group_id gs)"
  shows "sorted (wor_eligible_word_groups items gs)"
  using assms
proof (induction items gs rule: list_induct2)
  case (Cons item items g gs)
  have "set (wor_eligible_word_groups items gs) \<subseteq> group_id ` set gs"
    by (auto simp: wor_eligible_word_groups_def dest!: set_zip_rightD)
  with Cons show ?case by (auto simp: wor_eligible_word_groups_def sorted_append dest: set_zip_rightD)
qed (simp add: wor_eligible_word_groups_def)

lemma eligible_count:
  "length (filter (\<lambda>g. g = k) (wor_eligible_word_groups items gs))
    = wor_count (map fst (filter (\<lambda>(i, g). group_id g = k) (zip items gs)))"
proof -
  have "length (filter (\<lambda>g. g = k) (concat (map (\<lambda>(i, g). replicate (ci_wor i) (group_id g)) ps)))
      = sum_list (map ci_wor (map fst (filter (\<lambda>(i, g). group_id g = k) ps)))" for ps
    by (induction ps) auto
  then show ?thesis unfolding wor_eligible_word_groups_def wor_count_def by blast
qed

lemma filter_zip_snd:
  "length xs = length ys \<Longrightarrow> length (filter (\<lambda>x. snd x = k) (zip xs ys)) = length (filter (\<lambda>y. y = k) ys)"
  by (induction xs ys rule: list_induct2) auto

section \<open>The words of the children\<close>

lemma children_concat:
  assumes "\<And>j. j < length gs \<Longrightarrow> dropWhile is_separator (gs ! j) = [] \<Longrightarrow> F (k + j) = []"
  shows "concat (map (\<lambda>c. F (fst c)) (children_of u k gs)) = concat (map F [k..<k + length gs])"
  using assms
proof (induction gs arbitrary: k)
  case (Cons g gs)
  have "concat (map (\<lambda>c. F (fst c)) (children_of u (Suc k) gs)) = concat (map F [Suc k..<Suc k + length gs])"
  proof (rule Cons.IH)
    fix j assume "j < length gs" "dropWhile is_separator (gs ! j) = []"
    then show "F (Suc k + j) = []" using Cons.prems [of "Suc j"] by simp
  qed
  then show ?case using Cons.prems [of 0] by (simp add: Let_def upt_conv_Cons del: upt_Suc)
qed simp

lemma children_nth:
  "(j, c) \<in> set (children_of u k gs) \<Longrightarrow> k \<le> j \<and> j < k + length gs \<and>
     c = child_of u (dropWhile is_separator (gs ! (j - k)))"
proof (induction gs arbitrary: k)
  case (Cons g gs)
  show ?case
  proof (cases "(j, c) \<in> set (children_of u (Suc k) gs)")
    case True
    from Cons.IH [OF this] show ?thesis by (auto simp: nth_Cons')
  next
    case False
    with Cons.prems show ?thesis by (auto simp: Let_def split: if_splits)
  qed
qed simp

lemma wor_count_separators:
  assumes "list_all (\<lambda>i. is_separator i \<longrightarrow> ci_wor i = 0) items"
  shows "wor_count (dropWhile is_separator items) = wor_count items"
  using assms by (induction items) (auto simp: wor_count_def)

lemma first_wor_attach_first: "first_wor (filter (\<lambda>t. policy_for_tier t = AttachFirst) ts) = None"
proof (induction ts)
  case (Cons t ts)
  then show ?case by (cases t) auto
qed simp

lemma first_wor_append: "first_wor (xs @ ys) = (case first_wor xs of None \<Rightarrow> first_wor ys | Some w \<Rightarrow> Some w)"
  by (induction xs) (auto split: seg_tier.splits)

lemma wor_words_finish [simp]:
  "wor_words_of (finish_first u c) = wor_words_of c" "wor_words_of (finish_last u c) = wor_words_of c"
proof -
  show "wor_words_of (finish_first u c) = wor_words_of c"
    by (auto simp: wor_words_of_def finish_first_def Let_def first_wor_append first_wor_attach_first
        split: option.splits)
  show "wor_words_of (finish_last u c) = wor_words_of c"
    by (auto simp: wor_words_of_def finish_last_def Let_def split: option.splits)
qed

section \<open>Words travel with their timing\<close>

text \<open>
  The parent has a \<open>%wor\<close> tier that counts as many words as its main tier, and separators are no words.
\<close>

definition wor_in_step :: "seg_utt \<Rightarrow> bool" where
  "wor_in_step u \<longleftrightarrow> first_wor (su_tiers u) \<noteq> None \<and> length (wor_words_of u) = wor_count (su_items u) \<and>
     list_all (\<lambda>i. is_separator i \<longrightarrow> ci_wor i = 0) (su_items u)"

lemma length_eligible:
  "length gs = length items \<Longrightarrow> length (wor_eligible_word_groups items gs) = wor_count items"
proof -
  have "length (concat (map (\<lambda>(i, g). replicate (ci_wor i) (group_id g)) ps)) = sum_list (map ci_wor (map fst ps))"
    for ps by (induction ps) auto
  then show "length gs = length items \<Longrightarrow> ?thesis"
    unfolding wor_eligible_word_groups_def wor_count_def by (metis map_fst_zip)
qed

text \<open>The words of group \<open>k\<close>, and the tiers the code partitions the parent's \<open>%wor\<close> into.\<close>

definition group_wor_words :: "seg_utt \<Rightarrow> nat list \<Rightarrow> nat \<Rightarrow> wor_item list" where
  "group_wor_words u as k = map fst (filter (\<lambda>x. snd x = k)
     (zip (wor_words_of u) (wor_eligible_word_groups (su_items u) (content_groups (su_items u) as))))"

definition wor_parts :: "seg_utt \<Rightarrow> nat list \<Rightarrow> wor_seg list option" where
  "wor_parts u as = (case first_wor (su_tiers u) of None \<Rightarrow> None
     | Some wor \<Rightarrow> partition_wor_tier wor
         (wor_eligible_word_groups (su_items u) (content_groups (su_items u) as)) (max_group as + 1))"

definition buckets :: "seg_utt \<Rightarrow> nat list \<Rightarrow> content_item list list" where
  "buckets u as = content_by_group (su_items u) (content_groups (su_items u) as) (max_group as)"

lemma split_utterance_parts:
  "split_utterance u as = [u] \<or> split_utterance u as = update_last (finish_last u)
     (update_first (finish_first u) (map (\<lambda>c. snd (attach_wor (wor_parts u as) c)) (children_of u 0 (buckets u as))))"
  unfolding split_utterance_def Let_def wor_parts_def buckets_def by (simp split: if_split)

lemma groups_le: "list_all (\<lambda>g. group_id g \<le> max_group as) (content_groups items as)"
  by (simp add: list_all_iff group_id_le)

lemma length_buckets [simp]: "length (buckets u as) = max_group as + 1"
  by (simp add: buckets_def content_by_group_eq [OF groups_le])

lemma wor_parts_words:
  assumes "wor_in_step u"
  obtains parts where "wor_parts u as = Some parts" and "length parts = max_group as + 1"
    and "\<And>k. k \<le> max_group as \<Longrightarrow> words_of (wg_items (parts ! k)) = group_wor_words u as k"
proof -
  let ?e = "wor_eligible_word_groups (su_items u) (content_groups (su_items u) as)"
  from assms obtain wor where w: "first_wor (su_tiers u) = Some wor" unfolding wor_in_step_def by blast
  then have words: "wor_words_of u = words_of (wg_items wor)" by (simp add: wor_words_of_def)
  have len: "length (words_of (wg_items wor)) = length ?e"
    using assms by (simp add: wor_in_step_def words length_eligible)
  let ?p = "partition_items (wg_items wor) ?e None (replicate (max_group as + 1) [])"
  have "wor_parts u as = Some (map (\<lambda>items. wor\<lparr>wg_items := items\<rparr>) ?p)"
    unfolding wor_parts_def w partition_wor_tier_def using len by simp
  moreover have "words_of (wg_items (map (\<lambda>items. wor\<lparr>wg_items := items\<rparr>) ?p ! k)) = group_wor_words u as k"
    if "k \<le> max_group as" for k
  proof -
    have "words_of (?p ! k) = words_of (replicate (max_group as + 1) [] ! k)
        @ map fst (filter (\<lambda>x. snd x = k) (zip (words_of (wg_items wor)) ?e))"
      by (rule partition_items_words)
         (use that len eligible_le [OF groups_le] in \<open>simp_all add: group_id_def del: replicate_Suc\<close>)
    then show ?thesis using that by (simp add: group_wor_words_def words del: replicate_Suc)
  qed
  ultimately show thesis using that by simp
qed

lemma group_wor_words_count:
  assumes "wor_in_step u" and "k \<le> max_group as"
  shows "length (group_wor_words u as k) = wor_count (buckets u as ! k)"
proof -
  have "length (wor_words_of u) = length (wor_eligible_word_groups (su_items u) (content_groups (su_items u) as))"
    using assms(1) by (simp add: wor_in_step_def length_eligible)
  then have "length (group_wor_words u as k) = length (filter (\<lambda>g. g = k)
      (wor_eligible_word_groups (su_items u) (content_groups (su_items u) as)))"
    by (simp add: group_wor_words_def filter_zip_snd)
  also have "\<dots> = wor_count (buckets u as ! k)"
    using assms(2) by (simp add: buckets_def eligible_count content_by_group_eq [OF groups_le] del: upt_Suc)
  finally show ?thesis .
qed

lemma buckets_separators:
  assumes "wor_in_step u" and "k \<le> max_group as"
  shows "wor_count (dropWhile is_separator (buckets u as ! k)) = wor_count (buckets u as ! k)"
proof -
  have "set (buckets u as ! k) \<subseteq> set (su_items u)"
    using assms(2) by (auto simp: buckets_def content_by_group_eq [OF groups_le] dest!: set_zip_leftD simp del: upt_Suc)
  then show ?thesis using assms(1)
    by (intro wor_count_separators) (auto simp: wor_in_step_def list_all_iff)
qed

lemma child_wor_words:
  assumes step: "wor_in_step u" and c: "c \<in> set (children_of u 0 (buckets u as))"
  shows "wor_words_of (snd (attach_wor (wor_parts u as) c)) = group_wor_words u as (fst c) \<and>
    wor_count (su_items (snd c)) = length (group_wor_words u as (fst c))"
proof -
  obtain j child where jc: "c = (j, child)" by (cases c)
  from children_nth [OF c [unfolded jc]] have j: "j \<le> max_group as"
    and child: "child = child_of u (dropWhile is_separator (buckets u as ! j))" by simp_all
  from wor_parts_words [OF step] obtain parts where parts: "wor_parts u as = Some parts"
    "length parts = max_group as + 1" "words_of (wg_items (parts ! j)) = group_wor_words u as j" using j by metis
  have "wor_words_of (snd (attach_wor (wor_parts u as) c)) = words_of (wg_items (parts ! j))"
    using j by (auto simp: jc attach_wor_def parts(1,2) child wor_words_of_def child_of_def)
  moreover have "wor_count (su_items child) = length (group_wor_words u as j)"
    using buckets_separators [OF step j] group_wor_words_count [OF step j] by (simp add: child child_of_def)
  ultimately show ?thesis by (simp add: parts(3) jc)
qed

lemma split_wor_words:
  assumes step: "wor_in_step u"
  shows "list_all (\<lambda>c. length (wor_words_of c) = wor_count (su_items c)) (split_utterance u as) \<and>
    (sorted as \<longrightarrow> concat (map wor_words_of (split_utterance u as)) = wor_words_of u)"
proof (cases "split_utterance u as = [u]")
  case True
  then show ?thesis using step by (simp add: wor_in_step_def)
next
  case False
  let ?cs = "children_of u 0 (buckets u as)"
  let ?f = "\<lambda>c. snd (attach_wor (wor_parts u as) c)"
  have e: "split_utterance u as = update_last (finish_last u) (update_first (finish_first u) (map ?f ?cs))"
    using split_utterance_parts [of u as] False by blast
  have "list_all (\<lambda>c. length (wor_words_of c) = wor_count (su_items c)) (map ?f ?cs)"
    using child_wor_words [OF step] by (auto simp: list_all_iff)
  then have counts: "list_all (\<lambda>c. length (wor_words_of c) = wor_count (su_items c)) (split_utterance u as)"
    unfolding e by (intro list_all_update_last list_all_update_first) simp_all
  have "map wor_words_of (split_utterance u as) = map wor_words_of (map ?f ?cs)"
    unfolding e by (subst map_update_last, simp, subst map_update_first, simp, simp)
  also have "\<dots> = map (\<lambda>c. group_wor_words u as (fst c)) ?cs"
    using child_wor_words [OF step] by simp
  finally have "concat (map wor_words_of (split_utterance u as)) = concat (map (\<lambda>c. group_wor_words u as (fst c)) ?cs)"
    by simp
  also have "\<dots> = concat (map (group_wor_words u as) [0..<0 + length (buckets u as)])"
  proof (rule children_concat)
    fix j assume j: "j < length (buckets u as)" and d: "dropWhile is_separator (buckets u as ! j) = []"
    then have "wor_count [] = wor_count (buckets u as ! j)"
      using buckets_separators [OF step, of j as, unfolded d] by simp
    then have "wor_count (buckets u as ! j) = 0" by (simp add: wor_count_def)
    then show "group_wor_words u as (0 + j) = []" using group_wor_words_count [OF step, of j as] j by simp
  qed
  finally have all: "concat (map wor_words_of (split_utterance u as))
      = concat (map (group_wor_words u as) [0..<max_group as + 1])" by simp
  let ?e = "wor_eligible_word_groups (su_items u) (content_groups (su_items u) as)"
  let ?z = "zip (wor_words_of u) ?e"
  have len: "length (wor_words_of u) = length ?e" using step by (simp add: wor_in_step_def length_eligible)
  have "concat (map (group_wor_words u as) [0..<max_group as + 1]) = wor_words_of u" if "sorted as"
  proof -
    have "list_all (\<lambda>x. snd x \<le> max_group as) ?z"
      using eligible_le [OF groups_le [of as "su_items u"], of "su_items u"] by (auto simp: list_all_iff less_Suc_eq_le dest!: set_zip_rightD)
    moreover have "sorted (map snd ?z)"
      using len that by (simp add: eligible_sorted group_ids_sorted)
    ultimately have "concat (map (\<lambda>k. filter (\<lambda>x. snd x = k) ?z) [0..<max_group as + 1]) = ?z" by (rule buckets_sorted)
    then have "map fst (concat (map (\<lambda>k. filter (\<lambda>x. snd x = k) ?z) [0..<max_group as + 1])) = wor_words_of u"
      using len by simp
    then show ?thesis by (simp add: group_wor_words_def [abs_def] map_concat comp_def del: upt_Suc)
  qed
  with counts all show ?thesis by simp
qed

section \<open>The contract of the split\<close>

text \<open>C21: splitting an utterance by any list of group numbers (too short, too long, out of order) loses and
  duplicates no content item other than separators, and with non-decreasing group numbers it keeps their order.\<close>

theorem split_utterance_keeps_content:
  "mset (content_of (split_utterance u as)) = mset (content_of [u]) \<and>
     (sorted as \<longrightarrow> content_of (split_utterance u as) = content_of [u])"
  using split_content_mset split_content_sorted by blast

definition sample_content_item :: "item_kind \<Rightarrow> string \<Rightarrow> nat \<Rightarrow> content_item" where
  "sample_content_item k s n = \<lparr>ci_kind = k, ci_text = str s, ci_mor = replicate n (str s), ci_wor = n\<rparr>"

definition sample_wor_word :: "string \<Rightarrow> nat \<Rightarrow> wor_item" where
  "sample_wor_word s t = WorWord \<lparr>ww_text = str s, ww_bullet = Some \<lparr>bl_start = t, bl_end = t + 1, bl_source = OtherSource\<rparr>\<rparr>"

definition sample_parent :: seg_utt where
  "sample_parent = \<lparr>su_speaker = str ''CHI'',
     su_items = [sample_content_item OtherItem ''a'' 1, sample_content_item SeparatorItem '','' 0, sample_content_item RetraceItem ''b'' 0,
       sample_content_item OtherItem ''b'' 1, sample_content_item OtherItem ''c'' 1],
     su_linkers = [str ''++''], su_terminator = Some (str ''?''), su_language = None,
     su_postcodes = [str ''[+ x]''], su_bullet = Some \<lparr>bl_start = 5, bl_end = 9, bl_source = OtherSource\<rparr>,
     su_tiers = [SegMor (str ''m''), SegWor \<lparr>wg_language = None,
       wg_items = [sample_wor_word ''a'' 5, sample_wor_word ''b'' 6, sample_wor_word ''c'' 8],
       wg_terminator = Some (str ''?''), wg_bullet = None\<rparr>, SegFree (str ''com'')]\<rparr>"

theorem split_utterance_keeps_content_witness:
  "sorted [0, 1, 1 :: nat] \<and> length (split_utterance sample_parent [0, 1, 1]) = 2 \<and>
     content_of (split_utterance sample_parent [0, 1, 1]) = content_of [sample_parent]"
proof -
  have "length (split_utterance sample_parent [0, 1, 1]) = 2" by code_simp
  then show ?thesis using split_utterance_keeps_content [of sample_parent "[0, 1, 1]"] by simp
qed

text \<open>C22: an utterance that is split passes its speaker and language to every child, its linkers to the first
  only, and its terminator, postcodes and time bullet to the last only; the other children end in a period
  without a bullet, and no child is empty or begins with a separator.\<close>

theorem split_utterance_follows_policy:
  "split_utterance u as = [u] \<or> child_policy u (split_utterance u as)"
  by (rule split_child_policy)

text \<open>C23: when the \<open>%wor\<close> tier counts as many words as the main tier has, the tier of every child counts
  exactly the words of that child, for any group numbers; with non-decreasing ones the children's timed words in
  order are the parent's.\<close>

theorem split_utterance_wor_travels:
  assumes "wor_in_step u"
  shows "list_all (\<lambda>c. length (wor_words_of c) = wor_count (su_items c)) (split_utterance u as) \<and>
    (sorted as \<longrightarrow> concat (map wor_words_of (split_utterance u as)) = wor_words_of u)"
  by (rule split_wor_words [OF assms])

theorem split_utterance_wor_travels_witness:
  "wor_in_step sample_parent \<and> sorted [0, 1, 1 :: nat] \<and> length (split_utterance sample_parent [0, 1, 1]) = 2 \<and>
     concat (map wor_words_of (split_utterance sample_parent [0, 1, 1])) = wor_words_of sample_parent"
proof -
  have "wor_in_step sample_parent" by code_simp
  moreover have "length (split_utterance sample_parent [0, 1, 1]) = 2" by code_simp
  ultimately show ?thesis using split_utterance_wor_travels [of sample_parent "[0, 1, 1]"] by simp
qed

text \<open>
  A child that is not the last ends its main tier in a period and its \<open>%wor\<close> tier in the parent's terminator.
\<close>

lemma split_wor_terminator_differs:
  "map (\<lambda>c. (su_terminator c, map_option wg_terminator (first_wor (su_tiers c))))
     (split_utterance sample_parent [0, 1, 1])
   = [(Some period, Some (Some (str ''?''))), (Some (str ''?''), Some (Some (str ''?'')))]"
  by code_simp

end
