(* ===== verification/SpeakerRunner.thy ===== *)
theory SpeakerRunner
  imports ChatBuild SegmentationWor
begin

text \<open>
  \<^verbatim>\<open>batchalign-core/src/taskrunners/speaker.rs\<close>: utterances are split where the speaker of a diarization changes, the
  parts get the speaker and the time of their words, and the participants of the document are completed. The inline
  bullets of the words of an item (walked in the \<open>%mor\<close> domain, or all of them) are read by the document crate.
\<close>

section \<open>Diarization\<close>

record diar_segment =
  ds_start :: nat
  ds_end :: nat
  ds_speaker :: rstr

definition segment_index_at :: "diar_segment list \<Rightarrow> nat \<Rightarrow> nat option" where
  "segment_index_at segments timestamp_ms =
     (case position (\<lambda>seg. ds_start seg \<le> timestamp_ms \<and> timestamp_ms \<le> ds_end seg) segments of
        Some i \<Rightarrow> Some i
      | None \<Rightarrow> min_index (\<lambda>seg. min (abs_diff (ds_start seg) timestamp_ms) (abs_diff (ds_end seg) timestamp_ms)) segments)"

text \<open>\<open>start_ms + (end_ms - start_ms) / 2\<close> on \<open>u64\<close>; the release profile wraps around.\<close>

definition midpoint :: "nat \<Rightarrow> nat \<Rightarrow> nat" where
  "midpoint start_ms end_ms = (start_ms + (end_ms + 2 ^ 64 - start_ms) mod 2 ^ 64 div 2) mod 2 ^ 64"

section \<open>The environment\<close>

text \<open>
  \<open>sk_mor_walk\<close> and \<open>sk_walk\<close> give one entry for each word or separator the walk visits in an item; \<open>sk_participants\<close> is the
  participant map of a document, in its order, which the document crate reads from the headers.
\<close>

record ('p, 's) speaker_env =
  sk_mor_walk :: "content_item \<Rightarrow> (nat \<times> nat) option list"
  sk_walk :: "content_item \<Rightarrow> (nat \<times> nat) option list"
  sk_new_source :: bullet_source
  sk_participants :: "seg_utt chat \<Rightarrow> (rstr \<times> (participant_entry \<times> id_header)) list"
  sk_is_participants :: "header \<Rightarrow> bool"
  sk_participants_header :: "participant_entry list \<Rightarrow> header"
  sk_id_text :: "id_header \<Rightarrow> rstr"
  sk_sibling :: "seg_utt chat \<Rightarrow> media_input option"
  sk_prepare_pcm :: "media_input \<Rightarrow> rstr + 'p"
  sk_dispatch :: "rstr \<times> 'p \<times> nat \<Rightarrow> 's \<Rightarrow> diar_segment list task_output ba_result \<times> 's"

section \<open>Where an utterance is cut\<close>

fun diar_wor_timings :: "wor_item list \<Rightarrow> (nat \<times> nat) option list" where
  "diar_wor_timings [] = []"
| "diar_wor_timings (WorWord w # items) = map_option (\<lambda>b. (bl_start b, bl_end b)) (ww_bullet w) # diar_wor_timings items"
| "diar_wor_timings (WorSeparator s # items) = diar_wor_timings items"

definition assignment_timings :: "('p, 's) speaker_env \<Rightarrow> seg_utt \<Rightarrow> (nat \<times> nat) option list" where
  "assignment_timings E u =
     (let timings = concat (map (sk_mor_walk E) (su_items u))
      in if list_all (\<lambda>t. t = None) timings
         then (case first_wor (su_tiers u) of Some w \<Rightarrow> diar_wor_timings (wg_items w) | None \<Rightarrow> timings)
         else timings)"

fun number_groups :: "rstr option list \<Rightarrow> nat \<Rightarrow> rstr option \<Rightarrow> nat list" where
  "number_groups [] g prior_speaker = []"
| "number_groups (speaker # speakers) g prior_speaker =
     (let g' = (if prior_speaker \<noteq> None \<and> speaker \<noteq> prior_speaker then Suc g else g)
      in g' # number_groups speakers g' speaker)"

definition speaker_assignments :: "('p, 's) speaker_env \<Rightarrow> seg_utt \<Rightarrow> diar_segment list \<Rightarrow> nat list" where
  "speaker_assignments E u segments =
     (let segment_indices = map (\<lambda>timing. Option.bind timing (\<lambda>(s, e). segment_index_at segments (midpoint s e)))
            (assignment_timings E u);
          filled = forward_fill (back_fill None segment_indices)
      in number_groups (map (map_option (\<lambda>i. ds_speaker (segments ! i))) filled) 0 None)"

section \<open>Time and speaker of a part\<close>

definition hull_of :: "(nat \<times> nat) option list \<Rightarrow> (nat \<times> nat) option" where
  "hull_of timings =
     (case List.map_filter id timings of
        [] \<Rightarrow> None
      | (s, e) # rest \<Rightarrow> Some (fold (min \<circ> fst) rest s, fold (max \<circ> snd) rest e))"

definition utterance_timing_ms :: "('p, 's) speaker_env \<Rightarrow> seg_utt \<Rightarrow> (nat \<times> nat) option" where
  "utterance_timing_ms E u =
     (let own = hull_of (concat (map (sk_walk E) (su_items u)));
          window = (if own = None
            then Option.bind (first_wor (su_tiers u)) (\<lambda>w. hull_of (diar_wor_timings (wg_items w))) else own)
      in case window of
           Some (s, e) \<Rightarrow> if s \<le> e then Some (s, e)
             else Option.bind (su_bullet u) (\<lambda>b. if bl_start b \<le> bl_end b then Some (bl_start b, bl_end b) else None)
         | None \<Rightarrow> Option.bind (su_bullet u) (\<lambda>b. if bl_start b \<le> bl_end b then Some (bl_start b, bl_end b) else None))"

definition relabel_child ::
  "('p, 's) speaker_env \<Rightarrow> diar_segment list \<Rightarrow> (rstr \<times> rstr) list \<Rightarrow> seg_utt \<Rightarrow> seg_utt" where
  "relabel_child E segs speaker_codes child =
     (case utterance_timing_ms E child of
        None \<Rightarrow> child
      | Some (start_ms, end_ms) \<Rightarrow>
          let child1 = child\<lparr>su_bullet := Some \<lparr>bl_start = start_ms, bl_end = end_ms, bl_source = sk_new_source E\<rparr>\<rparr>
          in (case Option.bind (segment_index_at segs (start_ms + (end_ms - start_ms) div 2))
                     (\<lambda>i. map_of speaker_codes (ds_speaker (segs ! i))) of
                Some code \<Rightarrow> child1\<lparr>su_speaker := code\<rparr>
              | None \<Rightarrow> child1))"

fun relabel_lines ::
  "('p, 's) speaker_env \<Rightarrow> diar_segment list \<Rightarrow> (rstr \<times> rstr) list \<Rightarrow> seg_utt line list \<Rightarrow> seg_utt line list" where
  "relabel_lines E segs speaker_codes [] = []"
| "relabel_lines E segs speaker_codes (HeaderLine h # ls) = HeaderLine h # relabel_lines E segs speaker_codes ls"
| "relabel_lines E segs speaker_codes (UtteranceLine u # ls) =
     map (\<lambda>c. UtteranceLine (relabel_child E segs speaker_codes c)) (split_utterance u (speaker_assignments E u segs)) @
     relabel_lines E segs speaker_codes ls"

section \<open>Speaker codes\<close>

definition code_at :: "rstr list \<Rightarrow> nat \<Rightarrow> rstr" where
  "code_at declared index = (if index < length declared then declared ! index else str ''PAR'' @ nat_to_string index)"

definition speaker_code_map :: "rstr list \<Rightarrow> diar_segment list \<Rightarrow> (rstr \<times> rstr) list" where
  "speaker_code_map declared segs =
     map (\<lambda>(index, label). (label, code_at declared index)) (enumerate 0 (sort (remdups (map ds_speaker segs))))"

definition speaker_code_remap :: "rstr list \<Rightarrow> (rstr \<times> rstr) list \<Rightarrow> rstr list \<Rightarrow> (rstr \<times> rstr) list" where
  "speaker_code_remap declared speaker_codes used =
     map (\<lambda>(index, code). (code, code_at declared index))
       (enumerate 0 (filter (\<lambda>code. mem code used) (map snd speaker_codes)))"

definition remap_speaker :: "(rstr \<times> rstr) list \<Rightarrow> seg_utt \<Rightarrow> seg_utt" where
  "remap_speaker remap u =
     (case map_of remap (su_speaker u) of Some projected \<Rightarrow> u\<lparr>su_speaker := projected\<rparr> | None \<Rightarrow> u)"

section \<open>Participants\<close>

definition diarized_participant :: "id_header \<Rightarrow> rstr \<Rightarrow> participant_entry \<times> id_header" where
  "diarized_participant template code =
     (\<lparr>en_code = code, en_name = None, en_role = str ''Participant''\<rparr>,
      \<lparr>ih_language = ih_language template, ih_code = code, ih_role = str ''Participant'', ih_corpus = ih_corpus template\<rparr>)"

fun declare_codes :: "id_header \<Rightarrow> rstr list \<Rightarrow> (rstr \<times> (participant_entry \<times> id_header)) list \<Rightarrow>
    (rstr \<times> (participant_entry \<times> id_header)) list \<times> id_header list" where
  "declare_codes template [] participants = (participants, [])"
| "declare_codes template (code # codes) participants =
     (if map_of participants code \<noteq> None then declare_codes template codes participants
      else case declare_codes template codes (participants @ [(code, diarized_participant template code)]) of
        (ps, added) \<Rightarrow> (ps, snd (diarized_participant template code) # added))"

definition update_participants_header :: "('p, 's) speaker_env \<Rightarrow> participant_entry list \<Rightarrow> seg_utt line \<Rightarrow> seg_utt line" where
  "update_participants_header E entries l =
     (case l of
        HeaderLine h \<Rightarrow> if sk_is_participants E h then HeaderLine (sk_participants_header E entries) else l
      | UtteranceLine u \<Rightarrow> l)"

definition is_id_line :: "'u line \<Rightarrow> bool" where
  "is_id_line l = (case l of HeaderLine (IdHeader t) \<Rightarrow> True | _ \<Rightarrow> False)"

definition insert_id_lines :: "('p, 's) speaker_env \<Rightarrow> id_header list \<Rightarrow> seg_utt line list \<Rightarrow> seg_utt line list" where
  "insert_id_lines E added ls =
     (if added = [] then ls
      else let insert_pos = (case rposition is_id_line ls of Some i \<Rightarrow> i + 1 | None \<Rightarrow> 0)
           in take insert_pos ls @ map (\<lambda>i. HeaderLine (IdHeader (sk_id_text E i))) added @ drop insert_pos ls)"

section \<open>The relabelling\<close>

text \<open>
  The participants and the lines afterwards. On the error the lines have been taken out of the document already. The
  participant map is read again from the headers by whoever uses the document next.
\<close>

definition relabel_by_diarization ::
  "('p, 's) speaker_env \<Rightarrow> (rstr \<times> (participant_entry \<times> id_header)) list \<Rightarrow> seg_utt line list \<Rightarrow> diar_segment list \<Rightarrow>
     unit ba_result \<times> (rstr \<times> (participant_entry \<times> id_header)) list \<times> seg_utt line list" where
  "relabel_by_diarization E participants ls segs =
     (if segs = [] then (Inr (), participants, ls)
      else
        let declared = map fst participants;
            speaker_codes = speaker_code_map declared segs;
            new_lines = relabel_lines E segs speaker_codes ls;
            remap = speaker_code_remap declared speaker_codes (map su_speaker (utterances new_lines));
            new_lines = map_utts (remap_speaker remap) new_lines;
            used = map snd remap
        in if list_all (\<lambda>code. map_of participants code \<noteq> None) used
           then (Inr (), participants,
             map (update_participants_header E (map (fst \<circ> snd) participants)) new_lines)
           else
             (case participants of
                [] \<Rightarrow> (Inl (InternalError
                  (str ''SpeakerTaskRunner: cannot declare diarized speakers without a participant template'')), participants, [])
              | (c, entry, template) # rest \<Rightarrow>
                  (case declare_codes template used participants of
                     (participants', added) \<Rightarrow>
                       (Inr (), participants', insert_id_lines E added
                         (map (update_participants_header E (map (fst \<circ> snd) participants')) new_lines)))))"

definition relabel_ticks :: "rstr \<Rightarrow> seg_utt line list \<Rightarrow> diar_segment list \<Rightarrow> progress_event list" where
  "relabel_ticks sid ls segs =
     (if segs = [] then []
      else map (\<lambda>i. stage_tick sid Speaker (Suc i) (length (utterances ls))) [0..<length (utterances ls)])"

section \<open>The runner\<close>

definition speaker_apply_chat :: "('p, 's) speaker_env \<Rightarrow> seg_utt chat \<Rightarrow> 's \<Rightarrow>
    unit ba_result \<times> seg_utt chat \<times> progress_event list \<times> 's" where
  "speaker_apply_chat E c s =
     (case (case ch_media c of Some m \<Rightarrow> Some m | None \<Rightarrow> sk_sibling E c) of
        None \<Rightarrow> (Inl (InternalError
          (str ''SpeakerTaskRunner: chat has no attached media and no @Media/sibling media file was found'')), c, [], s)
      | Some media \<Rightarrow>
          let sid = ch_source_id c; events = [stage_started sid Speaker] in
          (case sk_prepare_pcm E media of
             Inl m \<Rightarrow> (Inl (InternalError (str ''audio_prep: '' @ m)), c, events, s)
           | Inr audio \<Rightarrow>
               (case sk_dispatch E (sid, audio, 0) s of (raw, s') \<Rightarrow>
                 (case bind_res raw (try_from_output Speaker) of
                    Inl e \<Rightarrow> (Inl e, c, events, s')
                  | Inr segs \<Rightarrow>
                      (case relabel_by_diarization E (sk_participants E c) (ch_lines c) segs of
                         (r, participants, ls) \<Rightarrow>
                           (r, c\<lparr>ch_lines := ls\<rparr>,
                            events @ relabel_ticks sid (ch_lines c) segs @
                              (case r of Inl e \<Rightarrow> [] | Inr _ \<Rightarrow> [stage_injected sid Speaker]), s'))))))"

definition speaker_apply :: "('p, 's) speaker_env \<Rightarrow> seg_utt ba_value \<Rightarrow> 's \<Rightarrow>
    unit ba_result \<times> seg_utt ba_value \<times> progress_event list \<times> 's" where
  "speaker_apply E value s =
     (case value of
        Chat c \<Rightarrow> (case speaker_apply_chat E c s of (r, c', events, s') \<Rightarrow> (r, Chat c', events, s'))
      | Failed sid e p \<Rightarrow> (Inr (), value, [], s)
      | other \<Rightarrow> (Inl (InternalError
          (str ''SpeakerTaskRunner: expected BAValue::Chat, got '' @ value_kind other)), value, [], s))"

end
