(* ===== verification/UtsegRunner.thy ===== *)
theory UtsegRunner
  imports ChatBuild SegmentationWor
begin

text \<open>
  \<^verbatim>\<open>batchalign-core/src/taskrunners/utseg.rs\<close>: the runner of the segmentation stage. The rows of a document go
  to the backend in one joined dispatch; answers that only group the words of their row are applied by
  \<open>apply_utseg_results\<close>, any other answer rebuilds the whole document from text.
\<close>

section \<open>Requests and answers\<close>

record utt_span =
  us_start :: nat
  us_end :: nat
  us_text :: rstr
  us_words :: "timed_word list"

record utseg_input =
  ui_source_id :: rstr
  ui_segments :: "segment list"
  ui_language :: language_spec
  ui_stanza_fallback :: bool

record utseg_output =
  uu_source_id :: rstr
  uu_utterances :: "utt_span list"

record utterance_row =
  rw_speaker :: rstr
  rw_text :: rstr
  rw_start :: nat
  rw_end :: nat
  rw_words :: "timed_word list"

record new_utterance =
  nu_speaker :: rstr
  nu_text :: rstr
  nu_bullet :: "(nat \<times> nat) option"
  nu_words :: "timed_word list"

text \<open>The recorded model call that the code keeps for its debug output is left out.\<close>

definition as_segment :: "utterance_row \<Rightarrow> segment" where
  "as_segment row = \<lparr>sg_start = rw_start row, sg_end = rw_end row, sg_text = rw_text row, sg_speaker = None,
     sg_words = rw_words row\<rparr>"

section \<open>Rows\<close>

definition word_timing :: "wor_word \<Rightarrow> (nat \<times> nat) option" where
  "word_timing w = map_option (\<lambda>b. (bl_start b, bl_end b)) (ww_bullet w)"

definition asr_word_from_text :: "rstr \<Rightarrow> (nat \<times> nat) option \<Rightarrow> timed_word" where
  "asr_word_from_text t timing =
     (case (case timing of Some se \<Rightarrow> se | None \<Rightarrow> (0, 0)) of
        (s, e) \<Rightarrow> \<lparr>tw_text = t, tw_start = s, tw_end = e, tw_confidence = None\<rparr>)"

fun wor_tier_words :: "wor_item list \<Rightarrow> wor_word list" where
  "wor_tier_words [] = []"
| "wor_tier_words (WorWord w # items) = w # wor_tier_words items"
| "wor_tier_words (WorSeparator s # items) = wor_tier_words items"

definition wor_timings :: "seg_utt \<Rightarrow> (nat \<times> nat) option list" where
  "wor_timings u = (case first_wor (su_tiers u) of None \<Rightarrow> [] | Some w \<Rightarrow> map word_timing (wor_tier_words (wg_items w)))"

text \<open>The timings go to the words of the \<open>%mor\<close> domain by their index.\<close>

definition row_words :: "seg_utt \<Rightarrow> timed_word list" where
  "row_words u =
     (let timings = wor_timings u
      in map (\<lambda>(index, word). asr_word_from_text word (if index < length timings then timings ! index else None))
           (enumerate 0 (mor_words u)))"

definition utterance_row_of :: "seg_utt \<Rightarrow> utterance_row" where
  "utterance_row_of u =
     (case (case su_bullet u of Some b \<Rightarrow> (bl_start b, bl_end b) | None \<Rightarrow> (0, 0)) of
        (s, e) \<Rightarrow> \<lparr>rw_speaker = su_speaker u, rw_text = join (str '' '') (map tw_text (row_words u)),
          rw_start = s, rw_end = e, rw_words = row_words u\<rparr>)"

definition collect_utterance_rows :: "seg_utt chat \<Rightarrow> utterance_row list" where
  "collect_utterance_rows c = map utterance_row_of (utterances (ch_lines c))"

section \<open>Assignments of boundary-only answers\<close>

definition assignments_from_spans :: "utterance_row \<Rightarrow> utseg_output \<Rightarrow> nat list option" where
  "assignments_from_spans row out =
     (if uu_utterances out = [] then Some []
      else if map tw_text (rw_words row) \<noteq> concat (map (\<lambda>sp. map tw_text (us_words sp)) (uu_utterances out))
      then None
      else Some (concat (map (\<lambda>(grp, sp). replicate (length (us_words sp)) grp) (enumerate 0 (uu_utterances out)))))"

section \<open>New utterances\<close>

definition ends_terminated :: "rstr \<Rightarrow> bool" where
  "ends_terminated t \<longleftrightarrow> t \<noteq> [] \<and> last t \<in> set [46, 63, 33]"

definition split_span :: "utterance_row \<Rightarrow> utt_span \<Rightarrow> new_utterance option" where
  "split_span row sp =
     (let t = trim (us_text sp)
      in if t = [] then None
         else Some \<lparr>nu_speaker = rw_speaker row,
           nu_text = (if ends_terminated t then t else t @ str '' .''),
           nu_bullet = (if us_start sp = 0 \<and> us_end sp = 0 then None else Some (us_start sp, us_end sp)),
           nu_words = us_words sp\<rparr>)"

definition collect_split :: "utterance_row \<Rightarrow> utseg_output \<Rightarrow> new_utterance list" where
  "collect_split row out =
     (if uu_utterances out = []
      then (if trim (rw_text row) = [] then []
            else [\<lparr>nu_speaker = rw_speaker row, nu_text = trim (rw_text row) @ str '' .'', nu_bullet = None,
                   nu_words = rw_words row\<rparr>])
      else List.map_filter (split_span row) (uu_utterances out))"

section \<open>The rebuild\<close>

text \<open>
  \<open>ue_new_source\<close> is the source \<open>Bullet::new\<close> gives, \<open>ue_validate\<close> the document crate's validation (its errors are dropped); \<open>ue_media_header\<close> and \<open>ue_languages\<close> read the
  media header, as file name and type, and the language codes of a document. \<open>ue_join\<close> runs one future per input and
  gathers the answers: the futures crate's \<open>try_join_all\<close>.
\<close>

record ('w, 't, 's) utseg_env = "('w, 't) chat_env" +
  ue_new_source :: bullet_source
  ue_validate :: "('w, 't) built_utt built_file \<Rightarrow> seg_utt line list"
  ue_media_header :: "seg_utt chat \<Rightarrow> (rstr \<times> rstr) option"
  ue_languages :: "seg_utt chat \<Rightarrow> rstr list"
  ue_dispatch :: "utseg_input \<Rightarrow> 's \<Rightarrow> utseg_output task_output ba_result \<times> 's"
  ue_join :: "(utseg_input \<Rightarrow> 's \<Rightarrow> utseg_output ba_result \<times> 's) \<Rightarrow> utseg_input list \<Rightarrow> 's \<Rightarrow>
    utseg_output list ba_result \<times> 's"

definition batchalign_participant :: "rstr \<Rightarrow> participant_desc" where
  "batchalign_participant code =
     \<lparr>pd_id = code, pd_name = None, pd_role = str ''Participant'', pd_corpus = str ''batchalign''\<rparr>"

definition speaker_codes_of :: "new_utterance list \<Rightarrow> rstr list" where
  "speaker_codes_of utts =
     (let codes = rev (remdups (rev (map nu_speaker utts))) in if codes = [] then [str ''PAR1''] else codes)"

definition text_desc :: "new_utterance \<Rightarrow> utterance_desc" where
  "text_desc u = \<lparr>de_speaker = nu_speaker u, de_words = None, de_text = Some (nu_text u),
     de_start = map_option fst (nu_bullet u), de_end = map_option snd (nu_bullet u), de_lang = None\<rparr>"

definition utseg_description :: "rstr list \<Rightarrow> rstr \<Rightarrow> rstr option \<Rightarrow> new_utterance list \<Rightarrow> transcript_description" where
  "utseg_description langs media_name media_type utts =
     \<lparr>td_langs = (if langs = [] then [str ''eng''] else langs),
      td_participants = map batchalign_participant (speaker_codes_of utts),
      td_media_name = Some media_name, td_media_type = media_type,
      td_utterances = map text_desc utts, td_write_wor = False\<rparr>"

definition has_time :: "timed_word \<Rightarrow> bool" where
  "has_time w \<longleftrightarrow> tw_start w < tw_end w"

definition wor_from_words :: "bullet_source \<Rightarrow> rstr option \<Rightarrow> timed_word list \<Rightarrow> wor_seg" where
  "wor_from_words new_source terminator ws = \<lparr>wg_language = None,
     wg_items = map (\<lambda>w. WorWord \<lparr>ww_text = tw_text w,
       ww_bullet = (if has_time w then Some \<lparr>bl_start = tw_start w, bl_end = tw_end w, bl_source = new_source\<rparr> else None)\<rparr>) ws,
     wg_terminator = terminator, wg_bullet = None\<rparr>"

fun is_seg_wor :: "seg_tier \<Rightarrow> bool" where
  "is_seg_wor (SegWor w) = True"
| "is_seg_wor t = False"

definition inject_timings_of :: "bullet_source \<Rightarrow> new_utterance \<Rightarrow> seg_utt \<Rightarrow> seg_utt" where
  "inject_timings_of new_source src u =
     (if list_ex has_time (nu_words src)
      then u\<lparr>su_tiers := filter (\<lambda>t. \<not> is_seg_wor t) (su_tiers u) @ [SegWor (wor_from_words new_source (su_terminator u) (nu_words src))]\<rparr>
      else u)"

fun utseg_inject_timings :: "bullet_source \<Rightarrow> seg_utt line list \<Rightarrow> new_utterance list \<Rightarrow> seg_utt line list" where
  "utseg_inject_timings new_source [] utts = []"
| "utseg_inject_timings new_source (HeaderLine h # ls) utts = HeaderLine h # utseg_inject_timings new_source ls utts"
| "utseg_inject_timings new_source (UtteranceLine u # ls) [] = UtteranceLine u # ls"
| "utseg_inject_timings new_source (UtteranceLine u # ls) (src # utts) =
     UtteranceLine (inject_timings_of new_source src u) # utseg_inject_timings new_source ls utts"

definition build_chat_from_utterances ::
  "('w, 't, 's, 'z) utseg_env_scheme \<Rightarrow> rstr \<Rightarrow> rstr list \<Rightarrow> rstr \<Rightarrow> rstr option \<Rightarrow> new_utterance list \<Rightarrow>
     seg_utt chat ba_result" where
  "build_chat_from_utterances E source_id langs media_name media_type utts =
     bind_res (map_err (\<lambda>e. InternalError (str ''build_chat: '' @ e))
         (build_chat E (utseg_description langs media_name media_type utts))) (\<lambda>file.
       Inr \<lparr>ch_lines = utseg_inject_timings (ue_new_source E) (ue_validate E file) utts, ch_source_id = source_id, ch_media = None\<rparr>)"

section \<open>The runner\<close>

definition utseg_request :: "rstr \<Rightarrow> utterance_row \<Rightarrow> utseg_input" where
  "utseg_request sid row =
     \<lparr>ui_source_id = sid, ui_segments = [as_segment row], ui_language = LangPerFile, ui_stanza_fallback = False\<rparr>"

definition utseg_future :: "('w, 't, 's, 'z) utseg_env_scheme \<Rightarrow> utseg_input \<Rightarrow> 's \<Rightarrow> utseg_output ba_result \<times> 's" where
  "utseg_future E request s =
     (case ue_dispatch E request s of (raw, s') \<Rightarrow> (bind_res raw (try_from_output UtSeg), s'))"

definition utseg_answers ::
  "('w, 't, 's, 'z) utseg_env_scheme \<Rightarrow> seg_utt chat \<Rightarrow> 's \<Rightarrow> utseg_output list ba_result \<times> 's" where
  "utseg_answers E c s =
     ue_join E (utseg_future E) (map (utseg_request (ch_source_id c)) (collect_utterance_rows c)) s"

definition requires_rebuild :: "(utseg_output \<times> utterance_row) list \<Rightarrow> bool" where
  "requires_rebuild answered = list_ex (\<lambda>(out, row). assignments_from_spans row out = None) answered"

definition note_assignment :: "nat \<times> utseg_output \<times> utterance_row \<Rightarrow> (nat \<rightharpoonup> nat list) \<Rightarrow> (nat \<rightharpoonup> nat list)" where
  "note_assignment ior m = (case ior of (idx, out, row) \<Rightarrow>
     (case assignments_from_spans row out of
        Some assignments \<Rightarrow> if assignments \<noteq> [] then m(idx \<mapsto> assignments) else m
      | None \<Rightarrow> m))"

definition assignment_map :: "(utseg_output \<times> utterance_row) list \<Rightarrow> (nat \<rightharpoonup> nat list)" where
  "assignment_map answered = fold note_assignment (enumerate 0 answered) Map.empty"

definition utseg_media_name :: "('w, 't, 's, 'z) utseg_env_scheme \<Rightarrow> seg_utt chat \<Rightarrow> rstr" where
  "utseg_media_name E c =
     (case ue_media_header E c of
        Some (filename, t) \<Rightarrow> filename
      | None \<Rightarrow> (case ch_media c of Some m \<Rightarrow> mi_path m | None \<Rightarrow> ch_source_id c))"

definition utseg_fold_back ::
  "('w, 't, 's, 'z) utseg_env_scheme \<Rightarrow> seg_utt chat \<Rightarrow> (utseg_output \<times> utterance_row) list \<Rightarrow> seg_utt chat ba_result" where
  "utseg_fold_back E c answered =
     (if requires_rebuild answered
      then bind_res (build_chat_from_utterances E (ch_source_id c) (ue_languages E c) (utseg_media_name E c)
             (map_option snd (ue_media_header E c)) (concat (map (\<lambda>(out, row). collect_split row out) answered)))
             (\<lambda>new_chat. Inr (case ch_media c of Some m \<Rightarrow> with_media new_chat m | None \<Rightarrow> new_chat))
      else Inr (c\<lparr>ch_lines := apply_utseg_results (ch_lines c) (assignment_map answered)\<rparr>))"

definition utseg_ticks :: "rstr \<Rightarrow> nat \<Rightarrow> nat \<Rightarrow> progress_event list" where
  "utseg_ticks sid answered rows = map (\<lambda>idx. stage_tick sid UtSeg (idx + 1) rows) [0..<answered]"

definition utseg_apply_chat ::
  "('w, 't, 's, 'z) utseg_env_scheme \<Rightarrow> seg_utt chat \<Rightarrow> 's \<Rightarrow> seg_utt chat ba_result \<times> progress_event list \<times> 's" where
  "utseg_apply_chat E c s =
     (let sid = ch_source_id c; rows = collect_utterance_rows c; events = [stage_started sid UtSeg]
      in case utseg_answers E c s of
           (Inl e, s') \<Rightarrow> (Inl e, events, s')
         | (Inr outs, s') \<Rightarrow>
             let answered = zip outs rows; events' = events @ utseg_ticks sid (length answered) (length rows)
             in (case utseg_fold_back E c answered of
                   Inl e \<Rightarrow> (Inl e, events', s')
                 | Inr c' \<Rightarrow> (Inr c', events' @ [stage_injected sid UtSeg], s')))"

definition utseg_apply ::
  "('w, 't, 's, 'z) utseg_env_scheme \<Rightarrow> seg_utt ba_value \<Rightarrow> 's \<Rightarrow>
     unit ba_result \<times> seg_utt ba_value \<times> progress_event list \<times> 's" where
  "utseg_apply E value s =
     (case value of
        Chat c \<Rightarrow> (case utseg_apply_chat E c s of
            (Inl e, events, s') \<Rightarrow> (Inl e, value, events, s')
          | (Inr c', events, s') \<Rightarrow> (Inr (), Chat c', events, s'))
      | Failed sid e p \<Rightarrow> (Inr (), value, [], s)
      | other \<Rightarrow> (Inl (InternalError
          (str ''UtSegTaskRunner: expected BAValue::Chat, got '' @ value_kind other)), value, [], s))"

end
