(* ===== verification/AsrRunner.thy ===== *)
theory AsrRunner
  imports ChatBuild Timing
begin

text \<open>
  \<^verbatim>\<open>batchalign-core/src/taskrunners/asr.rs\<close>: from the segments of a recogniser to a new document. The document
  crate's validation, the decoding of audio and the backend are arguments; the state \<open>'s\<close> is what the backend keeps.
\<close>

section \<open>Speakers\<close>

definition raw_speaker :: "segment \<Rightarrow> rstr" where
  "raw_speaker seg = (case sg_speaker seg of Some s \<Rightarrow> s | None \<Rightarrow> str ''PAR1'')"

text \<open>The labels in order of first appearance, with the participant codes they get.\<close>

definition note_speaker :: "segment \<Rightarrow> (rstr \<times> rstr) list \<Rightarrow> (rstr \<times> rstr) list" where
  "note_speaker seg codes =
     (if map_of codes (raw_speaker seg) = None
      then codes @ [(raw_speaker seg, str ''PAR'' @ nat_to_string (length codes))] else codes)"

definition discover_speakers :: "segment list \<Rightarrow> (rstr \<times> rstr) list" where
  "discover_speakers segs =
     (let codes = fold note_speaker segs []
      in if codes = [] then [(str ''PAR0'', str ''PAR0'')] else codes)"

section \<open>Post-processing input\<close>

definition asr_punctuation :: "rchar list" where
  "asr_punctuation = [46, 63, 33, 44, 59, 58, 12290, 1567, 1748, 1548, 1563]"

definition is_punctuation_token :: "rstr \<Rightarrow> bool" where
  "is_punctuation_token t \<longleftrightarrow> t \<noteq> [] \<and> list_all (\<lambda>c. c \<in> set asr_punctuation) t"

definition postprocess_element :: "rstr \<Rightarrow> nat \<Rightarrow> nat \<Rightarrow> asr_element" where
  "postprocess_element t start_ms end_ms =
     (let trimmed = trim t
      in \<lparr>ae_value = trimmed, ae_ts = Finite (of_nat start_ms / 1000), ae_end_ts = Finite (of_nat end_ms / 1000),
          ae_kind = (if is_punctuation_token trimmed then PunctuationElement else TextElement)\<rparr>)"

definition sanitize_segment_text :: "rstr \<Rightarrow> rstr" where
  "sanitize_segment_text s =
     trim_end_matches is_whitespace (trim_end_matches (\<lambda>c. c \<in> set [46, 33, 63, 59, 58])
       (trim (filter (\<lambda>c. c \<notin> set [9, 10, 13, 42, 37, 64, 92]) s)))"

definition segment_elements :: "segment \<Rightarrow> asr_element list" where
  "segment_elements seg =
     (if sg_words seg = []
      then (let t = sanitize_segment_text (sg_text seg)
            in if t = [] then [] else [postprocess_element t (sg_start seg) (sg_end seg)])
      else map (\<lambda>w. postprocess_element (tw_text w) (tw_start w) (tw_end w)) (sg_words seg))"

fun asr_output_for_postprocess :: "segment list \<Rightarrow> (rstr \<times> rstr) list \<Rightarrow> asr_monologue list ba_result" where
  "asr_output_for_postprocess [] speaker_codes = Inr []"
| "asr_output_for_postprocess (seg # segs) speaker_codes =
     (case map_of speaker_codes (raw_speaker seg) of
        None \<Rightarrow> Inl (InternalError (str ''ASR: unknown speaker '' @ raw_speaker seg))
      | Some code \<Rightarrow>
          (case Option.bind (strip_prefix (str ''PAR'') code) (parse_unsigned 64) of
             None \<Rightarrow> Inl (InternalError (str ''ASR: invalid participant code '' @ code))
           | Some speaker_number \<Rightarrow>
               bind_res (asr_output_for_postprocess segs speaker_codes) (\<lambda>monologues.
                 Inr (if segment_elements seg = [] then monologues
                      else \<lparr>am_speaker = speaker_number, am_elements = segment_elements seg\<rparr> # monologues))))"

definition resolve_lang_code :: "language_spec \<Rightarrow> rstr" where
  "resolve_lang_code spec = (case spec of LangCode c \<Rightarrow> c | _ \<Rightarrow> str ''eng'')"

section \<open>The document\<close>

text \<open>
  \<open>ar_validate\<close> is the document crate's validation: whether it found errors, the text of those of severity error, and the
  validated lines; \<open>ar_error_text\<close> renders a transcript error.
\<close>

record ('w, 't, 'u, 'p, 's) asr_runner_env = "('w, 't) bridge_env" +
  ar_asr :: asr_env
  ar_error_text :: "transcript_error \<Rightarrow> rstr"
  ar_validate :: "('w, 't) built_utt built_file \<Rightarrow> bool \<times> rstr list \<times> 'u line list"
  ar_prepare_pcm :: "media_input \<Rightarrow> rstr + 'p"
  ar_dispatch :: "rstr \<times> 'p \<times> language_spec \<Rightarrow> 's \<Rightarrow> (segment list) task_output ba_result \<times> (nat \<times> nat) list \<times> 's"

definition comes_after_comment :: "'u built_line \<Rightarrow> bool" where
  "comes_after_comment l = (case l of
     BUtterance u \<Rightarrow> True
   | BHeader h \<Rightarrow> (case h of HMedia f k \<Rightarrow> True | HEnd \<Rightarrow> True | _ \<Rightarrow> False))"

definition insert_unchecked_comment :: "'u built_file \<Rightarrow> 'u built_file" where
  "insert_unchecked_comment file =
     (let comment_index = (case position comes_after_comment (bf_lines file) of
            Some i \<Rightarrow> i | None \<Rightarrow> length (bf_lines file))
      in file\<lparr>bf_lines := insert_at comment_index (BHeader (HComment (str ''Unchecked output of ASR model'')))
           (bf_lines file)\<rparr>)"

definition finish_description :: "rstr list \<Rightarrow> transcript_description \<Rightarrow> transcript_description" where
  "finish_description order desc =
     (let ps = (if td_participants desc = []
           then map (\<lambda>code. \<lparr>pd_id = code, pd_name = None, pd_role = str ''Participant'', pd_corpus = str ''batchalign''\<rparr>) order
           else td_participants desc)
      in desc\<lparr>td_participants := map (\<lambda>p. p\<lparr>pd_corpus := str ''batchalign''\<rparr>) ps, td_media_type := None\<rparr>)"

text \<open>\<open>describe_asr\<close> is the part of \<open>build_chat_from_asr\<close> that ends in a description; \<open>None\<close>: a scanning loop does not end.\<close>

definition describe_asr ::
  "('w, 't, 'u, 'p, 's, 'z) asr_runner_env_scheme \<Rightarrow> media_input \<Rightarrow> language_spec \<Rightarrow> segment list \<Rightarrow>
     transcript_description ba_result option" where
  "describe_asr E media language segs =
     (let lang_code = resolve_lang_code language;
          speaker_codes = discover_speakers segs;
          order = map snd speaker_codes
      in case asr_output_for_postprocess segs speaker_codes of
           Inl e \<Rightarrow> Some (Inl e)
         | Inr raw_output \<Rightarrow>
             map_option (\<lambda>utts.
               map_err (\<lambda>e. ValidationError (ar_error_text E e))
                 (bind_res (transcript_from_asr_utterances E utts order [lang_code] (Some (mi_path media)) True)
                   (\<lambda>desc. Inr (finish_description order desc))))
               (process_raw_asr (ar_asr E) raw_output lang_code))"

definition build_chat_from_asr ::
  "('w, 't, 'u, 'p, 's, 'z) asr_runner_env_scheme \<Rightarrow> media_input \<Rightarrow> language_spec \<Rightarrow> segment list \<Rightarrow>
     'u chat ba_result option" where
  "build_chat_from_asr E media language segs =
     map_option (\<lambda>described.
       bind_res described (\<lambda>desc.
       bind_res (map_err (\<lambda>e. InternalError (str ''build_chat: '' @ e)) (build_chat E desc)) (\<lambda>file.
         (case ar_validate E (insert_unchecked_comment file) of
            (has_errors, errors, lines) \<Rightarrow>
              if has_errors then Inl (ValidationError ([10] @ join [10] errors))
              else Inr \<lparr>ch_lines = lines, ch_source_id = mi_source_id media, ch_media = None\<rparr>))))
       (describe_asr E media language segs)"

section \<open>The runner\<close>

definition asr_apply_media ::
  "('w, 't, 'u, 'p, 's, 'z) asr_runner_env_scheme \<Rightarrow> media_input \<Rightarrow> 's \<Rightarrow>
     ('u chat ba_result \<times> progress_event list \<times> 's) option" where
  "asr_apply_media E media s =
     (let sid = mi_source_id media in
      case ar_prepare_pcm E media of
        Inl m \<Rightarrow> Some (Inl (InternalError (str ''audio_prep: '' @ m)), [stage_started sid Asr], s)
      | Inr audio \<Rightarrow>
          let language = (case mi_language media of Some code \<Rightarrow> LangCode code | None \<Rightarrow> LangAuto);
              (progress, floor_event) = start_step (scaled_progress_new sid Asr 1);
              (answer, ticks, s') = ar_dispatch E (sid, audio, language) s;
              events = [stage_started sid Asr, floor_event] @ map (\<lambda>(i, n). tick progress i n) ticks
          in (case answer of
                Inl e \<Rightarrow> Some (Inl e, events, s')
              | Inr raw \<Rightarrow>
                  let events' = events @ [finish_progress progress] in
                  (case try_from_output Asr raw of
                     Inl e \<Rightarrow> Some (Inl e, events', s')
                   | Inr segs \<Rightarrow>
                       map_option (\<lambda>built. case built of
                           Inl e \<Rightarrow> (Inl e, events', s')
                         | Inr chat \<Rightarrow> (Inr (with_media chat media), events' @ [stage_injected sid Asr], s'))
                         (build_chat_from_asr E media language segs))))"

definition asr_apply ::
  "('w, 't, 'u, 'p, 's, 'z) asr_runner_env_scheme \<Rightarrow> 'u ba_value \<Rightarrow> 's \<Rightarrow>
     (unit ba_result \<times> 'u ba_value \<times> progress_event list \<times> 's) option" where
  "asr_apply E value s =
     (case value of
        Media media \<Rightarrow>
          map_option (\<lambda>(r, events, s'). case r of
              Inl e \<Rightarrow> (Inl e, value, events, s')
            | Inr chat \<Rightarrow> (Inr (), Chat chat, events, s')) (asr_apply_media E media s)
      | Failed sid e p \<Rightarrow> Some (Inr (), value, [], s)
      | other \<Rightarrow> Some (Inl (InternalError
          (str ''AsrTaskRunner: expected BAValue::Media, got '' @ value_kind other)), value, [], s))"

end
