(* ===== verification/NumChinese.thy ===== *)
theory NumChinese
  imports Prelude
begin

text \<open>
  \<^verbatim>\<open>batchalign-core/src/asr/num2chinese.rs\<close>: integers as Chinese numerals, and a reader of such numerals that
  shows the text determines the number.
\<close>

section \<open>The conversion\<close>

datatype chinese_script = Simplified | Traditional

text \<open>The digits, the units of ten, a hundred and a thousand, and the units of the groups of four digits.\<close>

definition c_basic :: "rchar list" where
  "c_basic = [38646, 19968, 20108, 19977, 22235, 20116, 20845, 19971, 20843, 20061]"

definition c_unit1 :: "rchar list" where
  "c_unit1 = [21313, 30334, 21315]"

definition c_unit2 :: "chinese_script \<Rightarrow> rchar list" where
  "c_unit2 script = (if script = Simplified
     then [19975, 20159, 20806, 20140, 22419, 31213, 31344, 27807, 28071, 27491, 36733]
     else [33836, 20740, 20806, 20140, 22419, 31213, 31344, 28317, 28567, 27491, 36617])"

text \<open>The digits cut into groups of four from the right; the first group may be shorter.\<close>

fun chunks4 :: "nat list \<Rightarrow> nat list list" where
  "chunks4 (a # b # c # d # ds) = [a, b, c, d] # chunks4 ds"
| "chunks4 ds = []"

definition digit_groups :: "nat list \<Rightarrow> nat list list" where
  "digit_groups digits =
     (let remainder = length digits mod 4
      in (if remainder > 0 then [take remainder digits] else []) @ chunks4 (drop remainder digits))"

definition group_value :: "nat list \<Rightarrow> nat" where
  "group_value digits = foldl (\<lambda>acc d. acc * 10 + d) 0 digits"

text \<open>One group: \<open>parts\<close> and \<open>has_zero_run\<close> are the loop's variables, \<open>length ds\<close> is \<open>pos_from_right\<close>.\<close>

fun convert_loop :: "bool \<Rightarrow> nat list \<Rightarrow> rstr list \<Rightarrow> bool \<Rightarrow> rstr list" where
  "convert_loop has_preceding [] parts has_zero_run = parts"
| "convert_loop has_preceding (d # ds) parts has_zero_run =
     (let pos_from_right = length ds in
      if d = 0 then convert_loop has_preceding ds parts (has_zero_run \<or> has_preceding \<or> parts \<noteq> [])
      else
        let parts1 = (if has_zero_run then parts @ [[c_basic ! 0]] else parts);
            piece = (if pos_from_right = 0 then [c_basic ! d]
                     else if pos_from_right = 1 \<and> d = 1 \<and> parts1 = [] \<and> \<not> has_preceding then [c_unit1 ! 0]
                     else [c_basic ! d, c_unit1 ! (pos_from_right - 1)])
        in convert_loop has_preceding ds (parts1 @ [piece]) False)"

definition convert_group :: "nat list \<Rightarrow> bool \<Rightarrow> rstr" where
  "convert_group digits has_preceding = concat (convert_loop has_preceding digits [] False)"

text \<open>The groups, with \<open>length groups\<close> as \<open>unit_idx\<close>.\<close>

fun chinese_loop :: "chinese_script \<Rightarrow> nat list list \<Rightarrow> rstr list \<Rightarrow> bool \<Rightarrow> rstr list" where
  "chinese_loop script [] parts prev_group_was_zero = parts"
| "chinese_loop script (grp # groups) parts prev_group_was_zero =
     (let unit_idx = length groups in
      if group_value grp = 0
      then chinese_loop script groups parts (prev_group_was_zero \<or> parts \<noteq> [])
      else
        let parts1 = (if prev_group_was_zero then parts @ [[c_basic ! 0]] else parts);
            parts2 = parts1 @ [convert_group grp (parts1 \<noteq> [])];
            parts3 = (if unit_idx > 0 then parts2 @ [[c_unit2 script ! (unit_idx - 1)]] else parts2)
        in chinese_loop script groups parts3 False)"

definition num2chinese :: "64 word \<Rightarrow> chinese_script \<Rightarrow> rstr" where
  "num2chinese num script =
     (if num = 0 then [c_basic ! 0]
      else concat (chinese_loop script (digit_groups (dec_digits (unat num))) [] False))"

section \<open>A reader of Chinese numerals\<close>

text \<open>
  The reader keeps the value of the finished groups of four, the value of the current group, and the last digit.
  A zero sign has no value.
\<close>

fun index_of :: "'a \<Rightarrow> 'a list \<Rightarrow> nat option" where
  "index_of x [] = None"
| "index_of x (y # ys) = (if x = y then Some 0 else map_option Suc (index_of x ys))"

definition read_step :: "chinese_script \<Rightarrow> nat \<times> nat \<times> nat \<Rightarrow> rchar \<Rightarrow> nat \<times> nat \<times> nat" where
  "read_step script st c = (case st of (groups, section, digit) \<Rightarrow>
     (case index_of c c_basic of
        Some d \<Rightarrow> (groups, section, d)
      | None \<Rightarrow>
     (case index_of c c_unit1 of
        Some u \<Rightarrow> (groups, section + (if digit = 0 then 1 else digit) * 10 ^ (u + 1), 0)
      | None \<Rightarrow>
     (case index_of c (c_unit2 script) of
        Some k \<Rightarrow> (groups + (section + digit) * 10 ^ (4 * (k + 1)), 0, 0)
      | None \<Rightarrow> st))))"

definition read_chinese :: "chinese_script \<Rightarrow> rstr \<Rightarrow> nat" where
  "read_chinese script s = (case foldl (read_step script) (0, 0, 0) s of (groups, section, digit) \<Rightarrow> groups + section + digit)"

subsection \<open>Signs\<close>

lemma index_of_nth: "distinct xs \<Longrightarrow> i < length xs \<Longrightarrow> index_of (xs ! i) xs = Some i"
proof (induction xs arbitrary: i)
  case (Cons x xs)
  then show ?case by (cases i) auto
qed simp

lemma index_of_None: "x \<notin> set xs \<Longrightarrow> index_of x xs = None"
  by (induction xs) auto

lemma signs_distinct: "distinct (c_basic @ c_unit1 @ c_unit2 script)"
  by (simp add: c_basic_def c_unit1_def c_unit2_def)

lemma sign_counts: "length c_basic = 10" "length c_unit1 = 3" "length (c_unit2 script) = 11"
  by (simp_all add: c_basic_def c_unit1_def c_unit2_def)

lemma signs_separate:
  "c \<in> set c_unit1 \<Longrightarrow> c \<notin> set c_basic"
  "c \<in> set (c_unit2 script) \<Longrightarrow> c \<notin> set c_basic \<and> c \<notin> set c_unit1"
  "distinct c_basic" "distinct c_unit1" "distinct (c_unit2 script)"
  using signs_distinct [of script] by auto

lemma read_basic: "d < 10 \<Longrightarrow> read_step script (g, s, c) (c_basic ! d) = (g, s, d)"
  by (simp add: read_step_def index_of_nth signs_separate sign_counts)

lemma read_unit1:
  assumes "u < 3"
  shows "read_step script (g, s, d) (c_unit1 ! u) = (g, s + (if d = 0 then 1 else d) * 10 ^ (u + 1), 0)"
proof -
  have "c_unit1 ! u \<in> set c_unit1" using assms by (simp add: sign_counts)
  then show ?thesis
    using assms by (simp add: read_step_def index_of_None index_of_nth signs_separate sign_counts)
qed

lemma read_unit2:
  assumes "k < 11"
  shows "read_step script (g, s, d) (c_unit2 script ! k) = (g + (s + d) * 10 ^ (4 * (k + 1)), 0, 0)"
proof -
  have "c_unit2 script ! k \<in> set (c_unit2 script)" using assms by (simp add: sign_counts)
  from signs_separate(2) [OF this] show ?thesis
    using assms by (simp add: read_step_def index_of_None index_of_nth signs_separate(5) sign_counts)
qed

subsection \<open>Groups\<close>

abbreviation reads :: "chinese_script \<Rightarrow> rstr list \<Rightarrow> nat \<times> nat \<times> nat \<Rightarrow> nat \<times> nat \<times> nat" where
  "reads script parts st \<equiv> foldl (read_step script) st (concat parts)"

lemma group_value_Cons: "group_value (d # ds) = d * 10 ^ length ds + group_value ds"
proof -
  have "foldl (\<lambda>acc d. acc * 10 + d) a ds = a * 10 ^ length ds + foldl (\<lambda>acc d. acc * 10 + d) 0 ds" for a :: nat
  proof (induction ds arbitrary: a)
    case (Cons e ds)
    show ?case by (simp, subst (1 2) Cons.IH) (simp add: algebra_simps)
  qed simp
  from this [of d] show ?thesis by (simp add: group_value_def)
qed

lemma group_value_Nil [simp]: "group_value [] = 0"
  by (simp add: group_value_def)

text \<open>Reading a converted group adds its value to the section, whatever was read before in a fresh section.\<close>

lemma convert_loop_reads:
  assumes "length ds \<le> 4" and "list_all (\<lambda>d. d < 10) ds" and "reads script parts st = (g, s, 0)"
  shows "\<exists>s' d'. reads script (convert_loop hp ds parts zr) st = (g, s', d') \<and> s' + d' = s + group_value ds"
  using assms
proof (induction hp ds parts zr arbitrary: s rule: convert_loop.induct)
  case (1 hp parts zr)
  then show ?case by simp
next
  case (2 hp d ds parts zr)
  let ?parts1 = "if zr then parts @ [[c_basic ! 0]] else parts"
  have zero: "reads script ?parts1 st = (g, s, 0)"
    using 2(5) read_basic [of 0 script g s 0] by simp
  show ?case
  proof (cases "d = 0")
    case True
    with 2 show ?thesis by (simp add: group_value_Cons)
  next
    case False
    show ?thesis
    proof (cases ds)
      case Nil
      with False 2(4) zero show ?thesis by (simp add: group_value_Cons read_basic)
    next
      case (Cons e es)
      let ?p = "length ds"
      let ?piece = "if ?p = 1 \<and> d = 1 \<and> ?parts1 = [] \<and> \<not> hp then [c_unit1 ! 0]
                    else [c_basic ! d, c_unit1 ! (?p - 1)]"
      have p: "?p \<noteq> 0" "?p - 1 < 3" "?p - 1 + 1 = ?p" using Cons 2(3) by simp_all
      have pow: "10 ^ (?p - 1 + 1) = (10 :: nat) ^ ?p" by (simp only: p(3))
      have piece: "reads script (?parts1 @ [?piece]) st = (g, s + d * 10 ^ ?p, 0)"
        using zero False 2(4) p(1) read_unit1 [OF p(2), of script g s d, unfolded pow]
          read_unit1 [of 0 script g s 0] by (auto simp: read_basic)
      have step: "convert_loop hp (d # ds) parts zr = convert_loop hp ds (?parts1 @ [?piece]) False"
        using False p(1) by (simp add: Let_def)
      have "\<exists>s' d'. reads script (convert_loop hp ds (?parts1 @ [?piece]) False) st = (g, s', d') \<and>
          s' + d' = (s + d * 10 ^ ?p) + group_value ds"
        using 2(2) [OF refl False refl refl] 2(3,4) piece p(1) by simp
      then show ?thesis unfolding step by (simp add: group_value_Cons add.assoc)
    qed
  qed
qed

subsection \<open>Groups of four\<close>

fun groups_value :: "nat list list \<Rightarrow> nat" where
  "groups_value [] = 0"
| "groups_value (grp # groups) = group_value grp * 10 ^ (4 * length groups) + groups_value groups"

definition group_ok :: "nat list \<Rightarrow> bool" where
  "group_ok grp \<longleftrightarrow> length grp \<le> 4 \<and> list_all (\<lambda>d. d < 10) grp"

lemma chinese_loop_reads:
  assumes "list_all group_ok groups" and "length groups \<le> 12" and "reads script parts (0, 0, 0) = (total', 0, 0)"
  shows "\<exists>g s d. reads script (chinese_loop script groups parts pz) (0, 0, 0) = (g, s, d) \<and>
    g + s + d = total' + groups_value groups"
  using assms
proof (induction script groups parts pz arbitrary: total' rule: chinese_loop.induct)
  case (1 script parts pz)
  then show ?case by simp
next
  case (2 script grp groups parts pz)
  show ?case
  proof (cases "group_value grp = 0")
    case True
    with 2 show ?thesis by simp
  next
    case False
    let ?parts1 = "if pz then parts @ [[c_basic ! 0]] else parts"
    let ?parts2 = "?parts1 @ [convert_group grp (?parts1 \<noteq> [])]"
    let ?parts3 = "if length groups > 0 then ?parts2 @ [[c_unit2 script ! (length groups - 1)]] else ?parts2"
    have one: "reads script ?parts1 (0, 0, 0) = (total', 0, 0)"
      using 2(5) read_basic [of 0 script total' 0 0] by simp
    have "length grp \<le> 4" "list_all (\<lambda>d. d < 10) grp" using 2(3) by (simp_all add: group_ok_def)
    from convert_loop_reads [OF this, where script = script and parts = "[]" and st = "(total', 0, 0)"
        and g = total' and s = 0 and zr = False and hp = "?parts1 \<noteq> []"]
    obtain s d where two: "reads script ?parts2 (0, 0, 0) = (total', s, d)" and v: "s + d = group_value grp"
      using one by (auto simp: convert_group_def)
    have step: "chinese_loop script (grp # groups) parts pz = chinese_loop script groups ?parts3 False"
      using False by (simp add: Let_def)
    show ?thesis
    proof (cases groups)
      case Nil
      then show ?thesis unfolding step using two v by simp
    next
      case (Cons g' gs)
      then have k: "length groups - 1 < 11" "length groups - 1 + 1 = length groups" using 2(4) by simp_all
      have "reads script ?parts3 (0, 0, 0) = (total' + group_value grp * 10 ^ (4 * length groups), 0, 0)"
        using two v read_unit2 [OF k(1), of script total' s d, unfolded k(2)] Cons by simp
      then have "\<exists>g s d. reads script (chinese_loop script groups ?parts3 False) (0, 0, 0) = (g, s, d) \<and>
          g + s + d = total' + group_value grp * 10 ^ (4 * length groups) + groups_value groups"
        using 2(2) [OF refl False refl refl refl] 2(3,4) by simp
      then show ?thesis unfolding step by (simp add: add.assoc)
    qed
  qed
qed

subsection \<open>Digits\<close>

lemma group_value_append: "group_value (xs @ ys) = group_value xs * 10 ^ length ys + group_value ys"
  by (induction xs) (simp_all add: group_value_Cons power_add algebra_simps)

lemma chunks4_ok:
  assumes "4 dvd length ds" and "list_all (\<lambda>d. d < 10) ds"
  shows "list_all group_ok (chunks4 ds) \<and> 4 * length (chunks4 ds) = length ds \<and>
    groups_value (chunks4 ds) = group_value ds"
  using assms
proof (induction ds rule: chunks4.induct)
  case (1 a b c d ds)
  have "4 dvd length ds" using "1.prems"(1) by (simp add: dvd_def) presburger
  with 1 have ih: "list_all group_ok (chunks4 ds)" "4 * length (chunks4 ds) = length ds"
    "groups_value (chunks4 ds) = group_value ds" by simp_all
  have "group_value ([a, b, c, d] @ ds) = group_value [a, b, c, d] * 10 ^ length ds + group_value ds"
    by (rule group_value_append)
  moreover have "group_ok [a, b, c, d]" using "1.prems"(2) by (simp add: group_ok_def)
  ultimately show ?case using ih by simp
qed (auto simp: dvd_def, presburger+)

lemma digit_groups_ok:
  assumes "list_all (\<lambda>d. d < 10) ds"
  shows "list_all group_ok (digit_groups ds) \<and> length (digit_groups ds) \<le> length ds div 4 + 1 \<and>
    groups_value (digit_groups ds) = group_value ds"
proof -
  let ?r = "length ds mod 4"
  have dvd: "4 dvd length (drop ?r ds)" by (simp add: minus_mod_eq_mult_div)
  have small: "list_all (\<lambda>d. d < 10) (drop ?r ds)" "list_all (\<lambda>d. d < 10) (take ?r ds)"
    using assms by (auto simp: list_all_iff dest: in_set_dropD in_set_takeD)
  note chunks = chunks4_ok [OF dvd small(1)]
  have "group_value ds = group_value (take ?r ds) * 10 ^ length (drop ?r ds) + group_value (drop ?r ds)"
    using group_value_append [of "take ?r ds" "drop ?r ds"] by simp
  moreover have len: "length (drop ?r ds) = 4 * (length ds div 4)" by (simp add: minus_mod_eq_mult_div)
  moreover have "group_ok (take ?r ds)" using small(2) mod_less_divisor [of 4 "length ds"] by (simp add: group_ok_def)
  moreover have "digit_groups ds = (if ?r > 0 then take ?r ds # chunks4 (drop ?r ds) else chunks4 (drop ?r ds))"
    by (simp add: digit_groups_def Let_def)
  moreover have "length (chunks4 (drop ?r ds)) = length ds div 4" using chunks len by simp
  ultimately show ?thesis using chunks by (cases "?r > 0") simp_all
qed

lemma dec_digits_value: "group_value (dec_digits n) = n \<and> list_all (\<lambda>d. d < 10) (dec_digits n)"
proof (induction n rule: dec_digits.induct)
  case (1 n)
  show ?case
  proof (cases "n < 10")
    case True
    then show ?thesis by (subst (1 2) dec_digits.simps) (simp add: group_value_def)
  next
    case False
    with 1 show ?thesis by (subst (1 2) dec_digits.simps) (simp add: group_value_append group_value_Cons)
  qed
qed

lemma length_dec_digits: "n < 10 ^ Suc k \<Longrightarrow> length (dec_digits n) \<le> Suc k"
proof (induction k arbitrary: n)
  case 0
  then show ?case by (subst dec_digits.simps) simp
next
  case (Suc k)
  then have "n div 10 < 10 ^ Suc k" by (simp add: less_mult_imp_div_less)
  from Suc.IH [OF this] show ?case by (subst dec_digits.simps) simp
qed

section \<open>The numeral determines the number\<close>

text \<open>C25: reading the Chinese numeral of a 64-bit number, in either script, gives the number back: every digit is
  written at its place, whatever zeros the number has.\<close>

theorem num2chinese_roundtrip:
  "read_chinese script (num2chinese num script) = unat num"
proof (cases "num = 0")
  case True
  then show ?thesis by (simp add: num2chinese_def read_chinese_def read_basic)
next
  case False
  let ?ds = "dec_digits (unat num)"
  have "unat num < 2 ^ LENGTH(64)" by (rule unsigned_less)
  then have "unat num < 10 ^ Suc 19" by simp
  then have "length ?ds \<le> 20" using length_dec_digits [of "unat num" 19] by simp
  then have "length ?ds div 4 + 1 \<le> 12" by simp
  note groups = digit_groups_ok [of ?ds] dec_digits_value [of "unat num"]
  from chinese_loop_reads [of "digit_groups ?ds" script "[]" 0 False] groups \<open>length ?ds div 4 + 1 \<le> 12\<close>
  show ?thesis using False by (auto simp: num2chinese_def read_chinese_def)
qed

text \<open>Two zero signs in a row: a group of zeros and the leading zeros of the next group each write one.\<close>

lemma num2chinese_double_zero:
  "num2chinese 100000001 Simplified = [c_basic ! 1, c_unit2 Simplified ! 1, c_basic ! 0, c_basic ! 0, c_basic ! 1]"
  by (simp add: num2chinese_def dec_digits.simps digit_groups_def group_value_def convert_group_def
      c_basic_def c_unit1_def c_unit2_def)

end
