(* ===== verification/NumText.thy ===== *)
theory NumText
  imports AsrPrepare NumChinese
begin

text \<open>
  \<^verbatim>\<open>batchalign-core/src/asr/num2text/\<close>: numbers in a recogniser's output written out as words. Recognition is by
  the rules of \<^verbatim>\<open>data/number_rules.json\<close>, whose regular expressions belong to the \<open>regex\<close> crate; the cardinal tables of
  \<^verbatim>\<open>data/num2lang.json\<close> are arguments. This theory holds the definitions, \<open>NumTable\<close> what they compute.
\<close>

section \<open>Rules\<close>

datatype rule_kind = Cardinal | Ordinal | Decade | DigitGroups | HyphenCompound | Currency

datatype num_renderer = TableRenderer | EnglishRenderer | DutchRenderer | PortugueseRenderer | SimplifiedRenderer
  | TraditionalRenderer

record rule_spec =
  rs_kind :: rule_kind
  rs_pattern :: rstr
  rs_protect_punctuation :: bool

record num_lang_spec =
  nl_renderer :: num_renderer
  nl_rules :: "rstr list"

record rule_file =
  rf_rules :: "(rstr \<times> rule_spec) list"
  rf_common :: "rstr list"
  rf_languages :: "(rstr \<times> num_lang_spec) list"

text \<open>
  The named groups of a match that the renderers read, and what the code uses of the \<open>regex\<close> crate. A prefix match
  is given by its length in characters.
\<close>

record captures =
  cp_value :: rstr
  cp_rest :: rstr
  cp_symbol :: rstr
  cp_gender :: rstr
  cp_plural :: "rstr option"

record 'r regex_env =
  re_new :: "rstr \<Rightarrow> rstr + 'r"
  re_is_match :: "'r \<Rightarrow> rstr \<Rightarrow> bool"
  re_names :: "'r \<Rightarrow> rstr list"
  re_captures :: "'r \<Rightarrow> rstr \<Rightarrow> captures option"
  re_find :: "'r \<Rightarrow> rstr \<Rightarrow> nat option"

record 'r num_rule =
  nr_kind :: rule_kind
  nr_full :: 'r
  nr_prefix :: "'r option"

record 'r num_rules =
  nu_rules :: "(rstr \<times> 'r num_rule) list"
  nu_common :: "rstr list"
  nu_languages :: "(rstr \<times> num_lang_spec) list"

fun required_captures :: "rule_kind \<Rightarrow> rstr list" where
  "required_captures HyphenCompound = [str ''value'', str ''rest'']"
| "required_captures Currency = [str ''value'', str ''symbol'']"
| "required_captures k = [str ''value'']"

fun check_captures :: "'r regex_env \<Rightarrow> rstr \<Rightarrow> 'r \<Rightarrow> rstr list \<Rightarrow> rstr + unit" where
  "check_captures X name full [] = Inr ()"
| "check_captures X name full (capture # captures) =
     (if capture \<in> set (re_names X full) then check_captures X name full captures
      else Inl (name @ str '': missing capture '' @ capture))"

definition compile_rule :: "'r regex_env \<Rightarrow> rstr \<Rightarrow> rule_spec \<Rightarrow> rstr + 'r num_rule" where
  "compile_rule X name spec =
     bind_res (re_new X ([92] @ str ''A(?:'' @ rs_pattern spec @ str '')'' @ [92] @ str ''z'')) (\<lambda>full.
       if re_is_match X full [] then Inl (name @ str '': numeric rule must consume text'')
       else bind_res (check_captures X name full (required_captures (rs_kind spec))) (\<lambda>_.
         bind_res (if rs_protect_punctuation spec
                   then map_sum id Some (re_new X ([92] @ str ''A(?:'' @ rs_pattern spec @ str '')''))
                   else Inr None) (\<lambda>prefix.
           Inr \<lparr>nr_kind = rs_kind spec, nr_full = full, nr_prefix = prefix\<rparr>)))"

fun compile_rules :: "'r regex_env \<Rightarrow> (rstr \<times> rule_spec) list \<Rightarrow> rstr + (rstr \<times> 'r num_rule) list" where
  "compile_rules X [] = Inr []"
| "compile_rules X ((name, spec) # specs) =
     bind_res (compile_rule X name spec) (\<lambda>rule.
       bind_res (compile_rules X specs) (\<lambda>rules. Inr ((name, rule) # rules)))"

fun check_known :: "(rstr \<times> 'r num_rule) list \<Rightarrow> rstr list \<Rightarrow> rstr + unit" where
  "check_known rules [] = Inr ()"
| "check_known rules (name # names) =
     (if name \<in> fst ` set rules then check_known rules names else Inl (str ''unknown numeric rule '' @ name))"

definition lacks_gender :: "'r regex_env \<Rightarrow> (rstr \<times> 'r num_rule) list \<Rightarrow> rstr \<Rightarrow> bool" where
  "lacks_gender X rules name \<longleftrightarrow> (case map_of rules name of
       Some rule \<Rightarrow> nr_kind rule = Ordinal \<and> str ''gender'' \<notin> set (re_names X (nr_full rule))
     | None \<Rightarrow> False)"

fun check_gender :: "'r regex_env \<Rightarrow> (rstr \<times> 'r num_rule) list \<Rightarrow> rstr list \<Rightarrow> rstr + unit" where
  "check_gender X rules [] = Inr ()"
| "check_gender X rules (name # names) =
     (if lacks_gender X rules name then Inl (name @ str '': missing Portuguese gender capture'')
      else check_gender X rules names)"

definition portuguese_rules :: "rule_file \<Rightarrow> rstr list" where
  "portuguese_rules file = concat (map (\<lambda>(lang, spec). if nl_renderer spec = PortugueseRenderer then nl_rules spec else [])
     (rf_languages file))"

definition compile_rule_file :: "'r regex_env \<Rightarrow> rule_file \<Rightarrow> rstr + 'r num_rules" where
  "compile_rule_file X file =
     bind_res (compile_rules X (rf_rules file)) (\<lambda>rules.
     bind_res (check_known rules (rf_common file @ concat (map (nl_rules \<circ> snd) (rf_languages file)))) (\<lambda>_.
     bind_res (check_gender X rules (portuguese_rules file)) (\<lambda>_.
       Inr \<lparr>nu_rules = rules, nu_common = rf_common file, nu_languages = rf_languages file\<rparr>)))"

text \<open>The rules of a language, then the common ones. \<open>compile_rule_file\<close> has checked that every name is a rule.\<close>

definition rules_for_language :: "'r num_rules \<Rightarrow> rstr \<Rightarrow> 'r num_rule list" where
  "rules_for_language rules lang =
     List.map_filter (map_of (nu_rules rules))
       ((case map_of (nu_languages rules) lang of Some l \<Rightarrow> nl_rules l | None \<Rightarrow> []) @ nu_common rules)"

definition renderer_of :: "'r num_rules \<Rightarrow> rstr \<Rightarrow> num_renderer" where
  "renderer_of rules lang = (case map_of (nu_languages rules) lang of Some l \<Rightarrow> nl_renderer l | None \<Rightarrow> TableRenderer)"

fun recognize :: "'r regex_env \<Rightarrow> 'r num_rule list \<Rightarrow> rstr \<Rightarrow> (rule_kind \<times> captures) option" where
  "recognize X [] s = None"
| "recognize X (rule # rules) s =
     (case re_captures X (nr_full rule) s of
        Some groups \<Rightarrow> Some (nr_kind rule, groups)
      | None \<Rightarrow> recognize X rules s)"

section \<open>Cardinals from a table\<close>

type_synonym num_table = "(rstr \<times> rstr) list"

text \<open>The positive keys with their words, largest first; keys of equal value stay in the order of the table.\<close>

definition table_entries :: "num_table \<Rightarrow> (nat \<times> rstr) list" where
  "table_entries table =
     sort_key (\<lambda>e. - int (fst e))
       (filter (\<lambda>e. fst e > 0)
         (List.map_filter (\<lambda>(k, v). map_option (\<lambda>num. (num, v)) (parse_unsigned 64 k)) table))"

lemma mod_below: "\<not> n < k \<Longrightarrow> 100 \<le> k \<Longrightarrow> n mod k < (n :: nat)"
  using mod_less_divisor [of k n] by linarith

text \<open>
  \<open>decompose_with_table\<close> and its loop over the entries; the loop may call the function for the multiplier. A key of at
  least 100 takes its multiplier and leaves the remainder, a smaller one is subtracted once.
\<close>

function (sequential)
  decompose :: "rstr option \<Rightarrow> (nat \<times> rstr) list \<Rightarrow> nat \<Rightarrow> rstr option" and
  decompose_loop :: "rstr option \<Rightarrow> (nat \<times> rstr) list \<Rightarrow> (nat \<times> rstr) list \<Rightarrow> nat \<Rightarrow> rstr list \<Rightarrow> rstr option" where
  "decompose zero entries n = (if n = 0 then zero else decompose_loop zero entries entries n [])"
| "decompose_loop zero entries [] n parts = (if n > 0 \<or> parts = [] then None else Some (join (str '' '') parts))"
| "decompose_loop zero entries ((key_num, word_form) # rest) n parts =
     (if n = 0 then (if parts = [] then None else Some (join (str '' '') parts))
      else if key_num = 0 \<or> n < key_num then decompose_loop zero entries rest n parts
      else if 100 \<le> key_num then
        (if n div key_num > 1
         then (case decompose zero entries (n div key_num) of
                 Some mult_word \<Rightarrow> decompose_loop zero entries rest (n mod key_num)
                   (parts @ [mult_word @ str '' '' @ word_form])
               | None \<Rightarrow> None)
         else decompose_loop zero entries rest (n mod key_num) (parts @ [word_form]))
      else decompose_loop zero entries rest (n - key_num) (parts @ [word_form]))"
  by pat_completeness auto

termination
proof (relation "measures [\<lambda>x. (case x of Inl (zero, entries, n) \<Rightarrow> n | Inr (zero, entries, rest, n, parts) \<Rightarrow> n),
    \<lambda>x. (case x of Inl (zero, entries, n) \<Rightarrow> Suc (length entries) | Inr (zero, entries, rest, n, parts) \<Rightarrow> length rest)]")
qed (use mod_below in \<open>auto simp: div_less_dividend le_less [of "_ mod _"]\<close>)

declare decompose.simps [simp del] decompose_loop.simps [simp del]

definition decompose_with_table :: "nat \<Rightarrow> num_table \<Rightarrow> rstr option" where
  "decompose_with_table n table = decompose (map_of table (str ''0'')) (table_entries table) n"

definition table_cardinal :: "(rstr \<rightharpoonup> num_table) \<Rightarrow> rstr \<Rightarrow> rstr \<Rightarrow> rstr option" where
  "table_cardinal num2lang word lang =
     (case num2lang lang of
        None \<Rightarrow> None
      | Some table \<Rightarrow>
         (case map_of table word of
            Some w \<Rightarrow> Some w
          | None \<Rightarrow>
             (case parse_unsigned 64 word of
                None \<Rightarrow> None
              | Some n \<Rightarrow> decompose_with_table n table)))"

text \<open>\<^verbatim>\<open>cjk.rs\<close>: the value fits \<open>u64\<close>, as the parse has checked.\<close>

definition cjk_cardinal :: "rstr \<Rightarrow> num_renderer \<Rightarrow> rstr option" where
  "cjk_cardinal value renderer =
     (case parse_unsigned 64 value of
        None \<Rightarrow> None
      | Some n \<Rightarrow>
         (case renderer of
            SimplifiedRenderer \<Rightarrow> Some (num2chinese (of_nat n) Simplified)
          | TraditionalRenderer \<Rightarrow> Some (num2chinese (of_nat n) Traditional)
          | _ \<Rightarrow> None))"

definition num_cardinal :: "(rstr \<rightharpoonup> num_table) \<Rightarrow> rstr \<Rightarrow> rstr \<Rightarrow> num_renderer \<Rightarrow> rstr option" where
  "num_cardinal num2lang value lang renderer =
     (if renderer = SimplifiedRenderer \<or> renderer = TraditionalRenderer
      then (case cjk_cardinal value renderer of
              Some s \<Rightarrow> Some s
            | None \<Rightarrow> table_cardinal num2lang value lang)
      else table_cardinal num2lang value lang)"

section \<open>Renderers\<close>

text \<open>\<open>Err\<close> carries the reason; \<open>numbers_allowed\<close> is the language predicate of the document crate.\<close>

fun currency_word :: "rstr \<Rightarrow> rstr option" where
  "currency_word [c] =
     (if c = 36 then Some (str ''dollars'') else if c = 8364 then Some (str ''euros'')
      else if c = 163 then Some (str ''pounds'') else if c = 165 then Some (str ''yen'')
      else if c = 8377 then Some (str ''rupees'') else if c = 8361 then Some (str ''won'')
      else if c = 8381 then Some (str ''rubles'') else None)"
| "currency_word s = None"

definition render_common ::
  "(rstr \<rightharpoonup> num_table) \<Rightarrow> (rstr \<Rightarrow> bool) \<Rightarrow> rule_kind \<Rightarrow> captures \<Rightarrow> rstr \<Rightarrow> num_renderer \<Rightarrow> rstr + rstr" where
  "render_common num2lang numbers_allowed kind groups lang renderer =
     (let expand = (\<lambda>value. case num_cardinal num2lang value lang renderer of Some w \<Rightarrow> w | None \<Rightarrow> value)
      in case kind of
        Cardinal \<Rightarrow> (case num_cardinal num2lang (cp_value groups) lang renderer of
            Some w \<Rightarrow> Inr w
          | None \<Rightarrow> Inl (str ''no cardinal rendering for this language or magnitude''))
      | DigitGroups \<Rightarrow> Inr (join (str '' '') (map expand (split_char 45 (cp_value groups))))
      | HyphenCompound \<Rightarrow>
          if numbers_allowed lang then Inl (str ''language permits digits in compounds'')
          else
            let expanded = expand (cp_value groups)
            in if expanded = cp_value groups then Inl (str ''no cardinal rendering for compound'')
               else Inr (expanded @ str ''-'' @ cp_rest groups)
      | Currency \<Rightarrow> (case currency_word (cp_symbol groups) of
            None \<Rightarrow> Inl (str ''unsupported currency'')
          | Some currency \<Rightarrow> Inr (expand (cp_value groups) @ str '' '' @ currency))
      | _ \<Rightarrow> Inl (str ''language has no renderer for this number expression''))"

subsection \<open>English\<close>

definition CARDINAL_TENS :: "rstr list" where
  "CARDINAL_TENS = [[], str ''ten'', str ''twenty'', str ''thirty'', str ''forty'', str ''fifty'', str ''sixty'',
     str ''seventy'', str ''eighty'', str ''ninety'']"

definition ORDINAL_0_19 :: "rstr list" where
  "ORDINAL_0_19 = [str ''zeroth'', str ''first'', str ''second'', str ''third'', str ''fourth'', str ''fifth'',
     str ''sixth'', str ''seventh'', str ''eighth'', str ''ninth'', str ''tenth'', str ''eleventh'', str ''twelfth'',
     str ''thirteenth'', str ''fourteenth'', str ''fifteenth'', str ''sixteenth'', str ''seventeenth'',
     str ''eighteenth'', str ''nineteenth'']"

definition ORDINAL_TENS_MULTIPLE :: "rstr list" where
  "ORDINAL_TENS_MULTIPLE = [[], str ''tenth'', str ''twentieth'', str ''thirtieth'', str ''fortieth'',
     str ''fiftieth'', str ''sixtieth'', str ''seventieth'', str ''eightieth'', str ''ninetieth'']"

definition CARDINAL_0_19 :: "rstr list" where
  "CARDINAL_0_19 = [str ''zero'', str ''one'', str ''two'', str ''three'', str ''four'', str ''five'', str ''six'',
     str ''seven'', str ''eight'', str ''nine'', str ''ten'', str ''eleven'', str ''twelve'', str ''thirteen'',
     str ''fourteen'', str ''fifteen'', str ''sixteen'', str ''seventeen'', str ''eighteen'', str ''nineteen'']"

function expand_ordinal_eng :: "nat \<Rightarrow> rstr" where
  "expand_ordinal_eng n =
     (if n < 20 then ORDINAL_0_19 ! n
      else if n < 100 then
        (if n mod 10 = 0 then ORDINAL_TENS_MULTIPLE ! (n div 10)
         else CARDINAL_TENS ! (n div 10) @ str ''-'' @ ORDINAL_0_19 ! (n mod 10))
      else if n < 1000 then
        (let head = CARDINAL_0_19 ! (n div 100) @ str '' hundred''
         in if n mod 100 = 0 then head @ str ''th''
            else head @ str '' and '' @ expand_ordinal_eng (n mod 100))
      else if n < 10000 then
        (let head = CARDINAL_0_19 ! (n div 1000) @ str '' thousand'';
             connector = (if n mod 1000 < 100 then str '', and '' else str '', '')
         in if n mod 1000 = 0 then head @ str ''th''
            else head @ connector @ expand_ordinal_eng (n mod 1000))
      else nat_to_string n @ str ''th'')"
  by pat_completeness auto

termination
proof (relation "measure id")
  fix n :: nat
  assume "\<not> n < 100"
  then show "(n mod 100, n) \<in> measure id" using mod_less_divisor [of 100 n] by simp
next
  fix n :: nat
  assume "\<not> n < 1000"
  then show "(n mod 1000, n) \<in> measure id" using mod_less_divisor [of 1000 n] by simp
qed simp

declare expand_ordinal_eng.simps [simp del]

definition cardinal_under_100 :: "nat \<Rightarrow> rstr" where
  "cardinal_under_100 n =
     (if n < 20 then CARDINAL_0_19 ! n
      else if n mod 10 = 0 then CARDINAL_TENS ! (n div 10)
      else CARDINAL_TENS ! (n div 10) @ str ''-'' @ CARDINAL_0_19 ! (n mod 10))"

definition expand_year_eng :: "nat \<Rightarrow> rstr" where
  "expand_year_eng n =
     (if n < 100 then cardinal_under_100 n
      else if \<not> (1100 \<le> n \<and> n \<le> 2999) then nat_to_string n
      else
        let century = n div 100; two_low = n mod 100
        in if century = 20 \<and> two_low < 10
           then (if two_low = 0 then str ''two thousand'' else str ''two thousand and '' @ CARDINAL_0_19 ! two_low)
           else if two_low = 0 then cardinal_under_100 century @ str '' hundred''
           else cardinal_under_100 century @ str '' '' @ cardinal_under_100 two_low)"

definition pluralize_last_word :: "rstr \<Rightarrow> rstr" where
  "pluralize_last_word s =
     (let parts = split_whitespace s
      in if parts = [] then s
         else
           let pluralized = (case strip_suffix (str ''y'') (last parts) of
                   Some stem \<Rightarrow> stem @ str ''ies''
                 | None \<Rightarrow> last parts @ str ''s'')
           in if butlast parts = [] then pluralized
              else join (str '' '') (butlast parts) @ str '' '' @ pluralized)"

definition expand_decade_eng :: "nat \<Rightarrow> rstr" where
  "expand_decade_eng n =
     (if n < 100 then pluralize_last_word (cardinal_under_100 n) else pluralize_last_word (expand_year_eng n))"

definition render_eng :: "rule_kind \<Rightarrow> captures \<Rightarrow> rstr + rstr" where
  "render_eng kind groups =
     (case parse_unsigned 64 (cp_value groups) of
        None \<Rightarrow> Inl (str ''English number exceeds u64'')
      | Some n \<Rightarrow>
         (case kind of
            Ordinal \<Rightarrow> Inr (expand_ordinal_eng n)
          | Decade \<Rightarrow> Inr (expand_decade_eng n)
          | _ \<Rightarrow> Inl (str ''unsupported English number expression'')))"

subsection \<open>Portuguese\<close>

definition POR_UNITS :: "rstr list" where
  "POR_UNITS = [[], str ''primeiro'', str ''segundo'', str ''terceiro'', str ''quarto'', str ''quinto'', str ''sexto'',
     str ''s'' @ [233] @ str ''timo'', str ''oitavo'', str ''nono'']"

definition POR_TENS :: "rstr list" where
  "POR_TENS = [[], str ''d'' @ [233] @ str ''cimo'', str ''vig'' @ [233] @ str ''simo'', str ''trig'' @ [233] @ str ''simo'',
     str ''quadrag'' @ [233] @ str ''simo'', str ''quinquag'' @ [233] @ str ''simo'', str ''sexag'' @ [233] @ str ''simo'',
     str ''septuag'' @ [233] @ str ''simo'', str ''octog'' @ [233] @ str ''simo'', str ''nonag'' @ [233] @ str ''simo'']"

definition POR_HUNDREDS :: "rstr list" where
  "POR_HUNDREDS = [[], str ''cent'' @ [233] @ str ''simo'', str ''ducent'' @ [233] @ str ''simo'',
     str ''tricent'' @ [233] @ str ''simo'', str ''quadringent'' @ [233] @ str ''simo'',
     str ''quingent'' @ [233] @ str ''simo'', str ''sexcent'' @ [233] @ str ''simo'',
     str ''septingent'' @ [233] @ str ''simo'', str ''octingent'' @ [233] @ str ''simo'',
     str ''noningent'' @ [233] @ str ''simo'']"

definition por_range_error :: rstr where
  "por_range_error = str ''Portuguese ordinal exceeds supported range 1..=1000''"

definition por_word :: "bool \<Rightarrow> bool \<Rightarrow> rstr \<Rightarrow> rstr" where
  "por_word feminine plural part =
     (let word = (if feminine then butlast part @ str ''a'' else part)
      in if plural then word @ str ''s'' else word)"

definition por_parts :: "nat \<Rightarrow> rstr list" where
  "por_parts n = (if n = 1000 then [str ''mil'' @ [233] @ str ''simo'']
     else [POR_HUNDREDS ! (n div 100), POR_TENS ! (n div 10 mod 10), POR_UNITS ! (n mod 10)])"

definition render_por :: "rule_kind \<Rightarrow> captures \<Rightarrow> rstr + rstr" where
  "render_por kind groups =
     (if kind \<noteq> Ordinal then Inl (str ''unsupported Portuguese number expression'')
      else (case parse_unsigned 64 (cp_value groups) of
          None \<Rightarrow> Inl por_range_error
        | Some n \<Rightarrow>
            if \<not> (1 \<le> n \<and> n \<le> 1000) then Inl por_range_error
            else
              let feminine = (cp_gender groups = [170]);
                  plural = (case cp_plural groups of None \<Rightarrow> False | Some m \<Rightarrow> m \<noteq> [])
              in Inr (join (str '' '') (map (por_word feminine plural) (filter (\<lambda>p. p \<noteq> []) (por_parts n))))))"

subsection \<open>Dutch\<close>

function nld_ordinal :: "(rstr \<rightharpoonup> num_table) \<Rightarrow> nat \<Rightarrow> rstr + rstr" where
  "nld_ordinal num2lang n =
     (if n = 1 then Inr (str ''eerste'')
      else if n = 3 then Inr (str ''derde'')
      else if n = 8 then Inr (str ''achtste'')
      else if 100 \<le> n \<and> n \<le> 999 \<and> n mod 100 \<noteq> 0 then
        (case table_cardinal num2lang (nat_to_string (n div 100 * 100)) (str ''nld'') of
           None \<Rightarrow> Inl (str ''missing Dutch hundred'')
         | Some head \<Rightarrow> bind_res (nld_ordinal num2lang (n mod 100)) (\<lambda>tail. Inr (head @ tail)))
      else
        (case table_cardinal num2lang (nat_to_string n) (str ''nld'') of
           None \<Rightarrow> Inl (str ''missing Dutch cardinal'')
         | Some cardinal \<Rightarrow> Inr (cardinal @ (if n < 20 then str ''de'' else str ''ste''))))"
  by pat_completeness auto

termination
  by (relation "measure snd") (auto intro: mod_below)

declare nld_ordinal.simps [simp del]

definition nld_range_error :: rstr where
  "nld_range_error = str ''Dutch ordinal exceeds supported range 1..=1000''"

definition render_nld :: "(rstr \<rightharpoonup> num_table) \<Rightarrow> captures \<Rightarrow> rstr + rstr" where
  "render_nld num2lang groups =
     (case parse_unsigned 64 (cp_value groups) of
        None \<Rightarrow> Inl nld_range_error
      | Some n \<Rightarrow> if \<not> (1 \<le> n \<and> n \<le> 1000) then Inl nld_range_error else nld_ordinal num2lang n)"

section \<open>Expansion\<close>

text \<open>\<open>str::len\<close>: the number of bytes of the UTF-8 encoding.\<close>

definition utf8_len :: "rstr \<Rightarrow> nat" where
  "utf8_len s = sum_list (map (\<lambda>c. if c < 128 then 1 else if c < 2048 then 2 else if c < 65536 then 3 else 4) s)"

datatype expansion =
    NoMatch
  | Expanded nat rstr
  | Unsupported nat rstr

text \<open>The em dash and the en dash become a hyphen.\<close>

definition normalize_dashes :: "rstr \<Rightarrow> rstr" where
  "normalize_dashes s = map (\<lambda>c. if c = 8212 \<or> c = 8211 then 45 else c) s"

record 'r num_env =
  ne_regex :: "'r regex_env"
  ne_rules :: "'r num_rules"
  ne_num2lang :: "rstr \<rightharpoonup> num_table"
  ne_numbers_allowed :: "rstr \<Rightarrow> bool"

definition render_number :: "'r num_env \<Rightarrow> rule_kind \<Rightarrow> captures \<Rightarrow> rstr \<Rightarrow> num_renderer \<Rightarrow> rstr + rstr" where
  "render_number N kind groups lang renderer =
     (if renderer = EnglishRenderer \<and> (kind = Ordinal \<or> kind = Decade) then render_eng kind groups
      else if renderer = PortugueseRenderer \<and> kind = Ordinal then render_por kind groups
      else if renderer = DutchRenderer \<and> kind = Ordinal then render_nld (ne_num2lang N) groups
      else render_common (ne_num2lang N) (ne_numbers_allowed N) kind groups lang renderer)"

text \<open>The span of a result is the whole text; its end is the length of the text in bytes.\<close>

definition num_expand :: "'r num_env \<Rightarrow> rstr \<Rightarrow> rstr \<Rightarrow> expansion" where
  "num_expand N s lang0 =
     (let lang = to_ascii_lowercase lang0;
          normalized = normalize_dashes s
      in case recognize (ne_regex N) (rules_for_language (ne_rules N) lang) normalized of
           None \<Rightarrow> NoMatch
         | Some (kind, groups) \<Rightarrow>
             (case render_number N kind groups lang (renderer_of (ne_rules N) lang) of
                Inr w \<Rightarrow> Expanded (utf8_len s) w
              | Inl reason \<Rightarrow> Unsupported (utf8_len s) reason))"

definition expand_number :: "'r num_env \<Rightarrow> rstr \<Rightarrow> rstr \<Rightarrow> rstr" where
  "expand_number N word lang =
     (case num_expand N word lang of
        Expanded span' w \<Rightarrow> w
      | Unsupported span' reason \<Rightarrow> normalize_dashes word
      | NoMatch \<Rightarrow> normalize_dashes word)"

text \<open>The first prefix rule whose match ends at a boundary; \<open>end\<close> counts characters.\<close>

definition prefix_match :: "'r regex_env \<Rightarrow> rstr \<Rightarrow> 'r num_rule \<Rightarrow> nat option" where
  "prefix_match X s rule =
     (case nr_prefix rule of
        None \<Rightarrow> None
      | Some regex \<Rightarrow>
         (case re_find X regex s of
            None \<Rightarrow> None
          | Some n \<Rightarrow>
              if (case drop n s of [] \<Rightarrow> True
                  | ch # _ \<Rightarrow> is_whitespace ch \<or> normalized_split_separator ch \<noteq> None)
              then Some n else None))"

fun protected_prefix_loop :: "'r regex_env \<Rightarrow> rstr \<Rightarrow> 'r num_rule list \<Rightarrow> nat option" where
  "protected_prefix_loop X s [] = None"
| "protected_prefix_loop X s (rule # rules) =
     (case prefix_match X s rule of Some n \<Rightarrow> Some n | None \<Rightarrow> protected_prefix_loop X s rules)"

definition protected_prefix_len :: "'r num_env \<Rightarrow> rstr \<Rightarrow> rstr \<Rightarrow> nat option" where
  "protected_prefix_len N s lang =
     protected_prefix_loop (ne_regex N) s (rules_for_language (ne_rules N) (to_ascii_lowercase lang))"

text \<open>The environment of the ASR passes with these number rules.\<close>

definition with_number_rules :: "'r num_env \<Rightarrow> asr_env \<Rightarrow> asr_env" where
  "with_number_rules N env =
     env\<lparr>env_expand_number := expand_number N, env_protected_prefix_len := protected_prefix_len N\<rparr>"

end
