(* ===== verification/NumTable.thy ===== *)
theory NumTable
  imports NumText
begin

text \<open>
  What the cardinal tables compute: the words that come out stand for keys of the table whose values, with their
  multipliers, add up to the number; and a table that has the numbers to a hundred never fails. Also the relation of
  the number rules to the loop that protects numbers while a token is split.
\<close>

section \<open>Phrases\<close>

text \<open>A spoken number: parts, each an optional multiplier (itself spoken) before the word of a key.\<close>

datatype num_part = Part "num_part list" nat rstr

fun part_value :: "num_part \<Rightarrow> nat" where
  "part_value (Part mult k w) = (if mult = [] then 1 else sum_list (map part_value mult)) * k"

fun part_text :: "num_part \<Rightarrow> rstr" where
  "part_text (Part mult k w) = (if mult = [] then w else join (str '' '') (map part_text mult) @ str '' '' @ w)"

fun part_from :: "(nat \<times> rstr) set \<Rightarrow> num_part \<Rightarrow> bool" where
  "part_from entries (Part mult k w) \<longleftrightarrow> (k, w) \<in> entries \<and> (\<forall>p \<in> set mult. part_from entries p)"

definition phrase_value :: "num_part list \<Rightarrow> nat" where
  "phrase_value ps = sum_list (map part_value ps)"

definition phrase_text :: "num_part list \<Rightarrow> rstr" where
  "phrase_text ps = join (str '' '') (map part_text ps)"

definition phrase_from :: "(nat \<times> rstr) set \<Rightarrow> num_part list \<Rightarrow> bool" where
  "phrase_from entries ps \<longleftrightarrow> (\<forall>p \<in> set ps. part_from entries p)"

lemmas phrase_defs = phrase_value_def phrase_text_def phrase_from_def

section \<open>The words add up\<close>

lemma decompose_phrase:
  "decompose zero entries n = Some s \<Longrightarrow> n > 0 \<Longrightarrow>
     \<exists>ps. ps \<noteq> [] \<and> s = phrase_text ps \<and> phrase_value ps = n \<and> phrase_from (set entries) ps"
  "decompose_loop zero entries rest n parts = Some s \<Longrightarrow> set rest \<subseteq> set entries \<Longrightarrow>
     \<exists>ps. parts @ map part_text ps \<noteq> [] \<and> s = join (str '' '') (parts @ map part_text ps) \<and>
       phrase_value ps = n \<and> phrase_from (set entries) ps"
proof (induction zero entries n and zero entries rest n parts arbitrary: s and s
    rule: decompose_decompose_loop.induct)
  case (1 zero entries n)
  have "decompose_loop zero entries entries n [] = Some s" using "1.prems" by (simp add: decompose.simps)
  from "1.IH" [OF _ this] "1.prems"(2) show ?case by (auto simp: phrase_defs)
next
  case (2 zero entries n parts)
  then show ?case by (intro exI [of _ "[]"]) (auto simp: decompose_loop.simps phrase_defs split: if_splits)
next
  case (3 zero entries key_num word_form rest n parts)
  have in_entries: "(key_num, word_form) \<in> set entries" "set rest \<subseteq> set entries" using "3.prems"(2) by auto
  show ?case
  proof (cases "n = 0 \<or> key_num = 0 \<or> n < key_num")
    case True
    then show ?thesis using 3 in_entries(2)
      by (cases "n = 0") (auto simp: decompose_loop.simps phrase_defs split: if_splits intro!: exI [of _ "[]"])
  next
    case False
    define found where "found mult r \<longleftrightarrow> (mult = [] \<or> phrase_value mult * key_num + r = n) \<and> (mult = [] \<longrightarrow> key_num + r = n) \<and>
       phrase_from (set entries) mult \<and>
       decompose_loop zero entries rest r (parts @ [part_text (Part mult key_num word_form)]) = Some s \<and>
       (\<exists>ps. s = join (str '' '') ((parts @ [part_text (Part mult key_num word_form)]) @ map part_text ps) \<and>
         phrase_value ps = r \<and> phrase_from (set entries) ps)" for mult r
    have finish: "\<exists>ps. parts @ map part_text ps \<noteq> [] \<and> s = join (str '' '') (parts @ map part_text ps) \<and>
       phrase_value ps = n \<and> phrase_from (set entries) ps" if "found mult r" for mult r
    proof -
      from that obtain ps where
        ps: "s = join (str '' '') ((parts @ [part_text (Part mult key_num word_form)]) @ map part_text ps)"
          "phrase_value ps = r" "phrase_from (set entries) ps" unfolding found_def by blast
      have "phrase_value (Part mult key_num word_form # ps) = n"
        using that ps(2) unfolding found_def by (auto simp: phrase_value_def)
      then show ?thesis using that ps in_entries(1)
        by (intro exI [of _ "Part mult key_num word_form # ps"]) (auto simp: found_def phrase_from_def)
    qed
    show ?thesis
    proof (cases "100 \<le> key_num")
      case big: True
      show ?thesis
      proof (cases "n div key_num > 1")
        case True
        with "3.prems"(1) False big obtain w where w: "decompose zero entries (n div key_num) = Some w"
          and l: "decompose_loop zero entries rest (n mod key_num) (parts @ [w @ str '' '' @ word_form]) = Some s"
          by (auto simp: decompose_loop.simps split: option.splits)
        from "3.IH"(2) [OF _ _ big True w] False True obtain mult where
          mult: "mult \<noteq> []" "w = phrase_text mult" "phrase_value mult = n div key_num" "phrase_from (set entries) mult"
          by auto
        have t: "part_text (Part mult key_num word_form) = w @ str '' '' @ word_form"
          using mult by (simp add: phrase_text_def)
        have "found mult (n mod key_num)"
          unfolding found_def t using mult l "3.IH"(3) [OF _ _ big True w l in_entries(2)] False by simp
        then show ?thesis by (rule finish)
      next
        case one: False
        with "3.prems"(1) False big
        have l: "decompose_loop zero entries rest (n mod key_num) (parts @ [word_form]) = Some s"
          by (auto simp: decompose_loop.simps)
        have "0 < n div key_num" using False big by (simp add: div_greater_zero_iff)
        with one have "n div key_num = 1" by simp
        then have "key_num + n mod key_num = n" using mult_div_mod_eq [of key_num n] by simp
        then have "found [] (n mod key_num)"
          unfolding found_def using l "3.IH"(4) [OF _ _ big one l in_entries(2)] False
          by (simp add: phrase_from_def)
        then show ?thesis by (rule finish)
      qed
    next
      case small: False
      with "3.prems"(1) False
      have l: "decompose_loop zero entries rest (n - key_num) (parts @ [word_form]) = Some s"
        by (auto simp: decompose_loop.simps)
      have "found [] (n - key_num)"
        unfolding found_def using l "3.IH"(5) [OF _ _ small l in_entries(2)] False by (simp add: phrase_from_def)
      then show ?thesis by (rule finish)
    qed
  qed
qed

section \<open>A table with the numbers to a hundred never fails\<close>

lemma decompose_loop_total:
  assumes "sorted_wrt (\<lambda>a b. fst b \<le> fst a) rest" and "n = 0 \<Longrightarrow> parts \<noteq> []" and "n \<le> bound"
    and "\<And>k. 1 \<le> k \<Longrightarrow> k \<le> 100 \<Longrightarrow> k \<le> n \<Longrightarrow> k \<in> fst ` set rest"
    and "\<And>m. 0 < m \<Longrightarrow> m < bound \<Longrightarrow> decompose zero entries m \<noteq> None"
  shows "decompose_loop zero entries rest n parts \<noteq> None"
  using assms
proof (induction rest arbitrary: n parts)
  case Nil
  then have "n = 0" using Nil(4) [of 1] by fastforce
  with Nil show ?case by (simp add: decompose_loop.simps)
next
  case (Cons e rest)
  obtain k w where e: "e = (k, w)" by (cases e)
  have keys: "j \<in> fst ` set rest" if "1 \<le> j" "j \<le> 100" "j \<le> n" "j \<noteq> k" for j
    using Cons.prems(4) [OF that(1-3)] that(4) e by auto
  have sorted': "sorted_wrt (\<lambda>a b. fst b \<le> fst a) rest" using Cons.prems(1) by simp
  show ?case
  proof (cases "n = 0 \<or> k = 0 \<or> n < k")
    case True
    show ?thesis
    proof (cases "n = 0")
      case True
      then show ?thesis using Cons.prems(2) by (simp add: e decompose_loop.simps)
    next
      case False
      have "decompose_loop zero entries rest n parts \<noteq> None"
      proof (rule Cons.IH [OF sorted' _ Cons.prems(3) _ Cons.prems(5)])
        fix j assume "1 \<le> j" "j \<le> 100" "j \<le> n"
        with True False show "j \<in> fst ` set rest" by (intro keys) auto
      qed (use False in simp_all)
      then show ?thesis using True False by (auto simp: e decompose_loop.simps)
    qed
  next
    case False
    show ?thesis
    proof (cases "100 \<le> k")
      case True
      have r: "decompose_loop zero entries rest (n mod k) (parts @ [p]) \<noteq> None" for p
      proof (rule Cons.IH [OF sorted' _ _ _ Cons.prems(5)])
        show "n mod k \<le> bound" using Cons.prems(3) by (meson le_trans mod_less_eq_dividend)
        fix j assume j: "1 \<le> j" "j \<le> 100" "j \<le> n mod k"
        have "n mod k < k" using False by simp
        with j(3) have "j < k" "j \<le> n" using mod_less_eq_dividend [of n k] by linarith+
        with j show "j \<in> fst ` set rest" by (intro keys) auto
      qed simp_all
      have "decompose zero entries (n div k) \<noteq> None" if "n div k > 1"
        using Cons.prems(3) False True that by (intro Cons.prems(5)) (auto intro: less_le_trans [OF div_less_dividend])
      then show ?thesis using False True r by (auto simp: e decompose_loop.simps split: option.split)
    next
      case small: False
      have "n = k"
      proof (rule ccontr)
        assume "n \<noteq> k"
        then have "Suc k \<in> fst ` set rest" using False small by (intro keys) auto
        then show False using Cons.prems(1) by (auto simp: e)
      qed
      have "decompose_loop zero entries rest 0 (parts @ [w]) \<noteq> None"
        by (rule Cons.IH [OF sorted' _ _ _ Cons.prems(5)]) simp_all
      then show ?thesis using small False \<open>n = k\<close> by (simp add: e decompose_loop.simps)
    qed
  qed
qed

lemma decompose_total:
  assumes "sorted_wrt (\<lambda>a b. fst b \<le> fst a) entries" and "\<And>k. 1 \<le> k \<Longrightarrow> k \<le> 100 \<Longrightarrow> k \<in> fst ` set entries"
    and "0 < n"
  shows "decompose zero entries n \<noteq> None"
  using assms(3)
proof (induction n rule: less_induct)
  case (less n)
  have "decompose_loop zero entries entries n [] \<noteq> None"
    by (rule decompose_loop_total [OF assms(1), where bound = n]) (use less assms(2) in auto)
  then show ?case using less.prems by (simp add: decompose.simps)
qed

section \<open>Tables\<close>

lemma table_entries_sorted: "sorted_wrt (\<lambda>a b. fst b \<le> fst a) (table_entries table)"
proof -
  have "sorted (map (\<lambda>e. - int (fst e)) (table_entries table))" by (simp add: table_entries_def)
  then show ?thesis by (simp add: sorted_map)
qed

lemma set_table_entries:
  "set (table_entries table) = {(k, w). 0 < k \<and> (\<exists>key. (key, w) \<in> set table \<and> parse_unsigned 64 key = Some k)}"
  by (force simp: table_entries_def List.map_filter_def)

lemma digits_value_to_string: "digits_value (nat_to_string n) = n"
proof -
  have "foldl (\<lambda>a c. 10 * a + nat (c - 48)) a (map (\<lambda>d. 48 + int d) ds) = foldl (\<lambda>acc d. acc * 10 + d) a ds" for a ds
    by (induction ds arbitrary: a) (simp_all add: mult.commute)
  then show ?thesis using dec_digits_value [of n] by (simp add: digits_value_def nat_to_string_def group_value_def)
qed

lemma nat_to_string_digits: "nat_to_string n \<noteq> [] \<and> list_all is_ascii_digit (nat_to_string n)"
proof -
  have "dec_digits n \<noteq> []" by (subst dec_digits.simps) simp
  moreover have "list_all is_ascii_digit (map (\<lambda>d. 48 + int d) ds)" if "list_all (\<lambda>d. d < 10) ds" for ds :: "nat list"
    using that by (induction ds) (auto simp: is_ascii_digit_def)
  ultimately show ?thesis using dec_digits_value [of n] by (auto simp: nat_to_string_def)
qed

text \<open>\<open>n.to_string().parse() == Ok(n)\<close>.\<close>

lemma parse_to_string: "n < 2 ^ w \<Longrightarrow> parse_unsigned w (nat_to_string n) = Some n"
proof -
  assume n: "n < 2 ^ w"
  have "hd (nat_to_string n) \<noteq> 43"
    using nat_to_string_digits [of n] by (cases "nat_to_string n") (auto simp: is_ascii_digit_def)
  then show ?thesis using n nat_to_string_digits [of n] by (simp add: parse_unsigned_def digits_value_to_string)
qed

definition table_covers :: "num_table \<Rightarrow> bool" where
  "table_covers table \<longleftrightarrow> list_all (\<lambda>k. map_of table (nat_to_string k) \<noteq> None) [0..<101]"

lemma table_covers_keys:
  assumes "table_covers table" and "1 \<le> k" and "k \<le> 100"
  shows "k \<in> fst ` set (table_entries table)"
proof -
  have "map_of table (nat_to_string k) \<noteq> None" using assms by (simp add: table_covers_def list_all_iff)
  then obtain w where "(nat_to_string k, w) \<in> set table" by (auto dest: map_of_SomeD)
  moreover have "parse_unsigned 64 (nat_to_string k) = Some k" using assms(3) by (intro parse_to_string) simp
  ultimately have "(k, w) \<in> set (table_entries table)" using assms(2) by (auto simp: set_table_entries)
  then show ?thesis by force
qed

text \<open>C24: with a table that has the numbers from nought to a hundred (as the tables of most languages do), every positive
  number is written out, and the words are words of the table whose keys, each times the number its
  multiplier spells, add up to the number.\<close>

theorem cardinal_words_add_up:
  assumes "table_covers table" and "0 < n"
  shows "\<exists>ps. ps \<noteq> [] \<and> decompose_with_table n table = Some (phrase_text ps) \<and> phrase_value ps = n \<and>
    phrase_from (set (table_entries table)) ps"
proof -
  have "decompose (map_of table (str ''0'')) (table_entries table) n \<noteq> None"
    by (rule decompose_total [OF table_entries_sorted table_covers_keys [OF assms(1)] assms(2)])
  then obtain s where s: "decompose (map_of table (str ''0'')) (table_entries table) n = Some s" by blast
  from decompose_phrase(1) [OF this assms(2)] show ?thesis by (auto simp: decompose_with_table_def s)
qed

definition hundred_table :: num_table where
  "hundred_table = map (\<lambda>k. (nat_to_string k, str ''w'' @ nat_to_string k)) [0..<101]"

lemma hundred_table_covers: "table_covers hundred_table"
proof -
  have "map_of (map (\<lambda>k. (nat_to_string k, str ''w'' @ nat_to_string k)) ks) (nat_to_string k) \<noteq> None"
    if "k \<in> set ks" for k ks
    using that by (induction ks) auto
  then show ?thesis by (simp add: table_covers_def hundred_table_def list_all_iff del: upt_Suc upt_conv_Cons)
qed

theorem cardinal_words_add_up_witness:
  "table_covers hundred_table \<and> (\<exists>ps. ps \<noteq> [] \<and>
     decompose_with_table 4321 hundred_table = Some (phrase_text ps) \<and> phrase_value ps = 4321)"
  using cardinal_words_add_up [OF hundred_table_covers, of 4321] hundred_table_covers by auto

text \<open>the word of a key of a hundred or more takes the multiplier before it even when the word names its own
  one: the English table, whose entry for 1000 is ``one thousand'', turns 2000 into ``two one thousand''.\<close>

lemma english_thousands_doubled:
  "decompose_with_table 2000 [(str ''1'', str ''one''), (str ''1000'', str ''one thousand''), (str ''2'', str ''two'')]
    = Some (str ''two one thousand'')"
  by (simp add: decompose_with_table_def table_entries_def List.map_filter_def parse_unsigned_def digits_value_def
      is_ascii_digit_def decompose.simps decompose_loop.simps str_def)

section \<open>The rules as the split of tokens needs them\<close>

text \<open>
  What is asked of the regular expressions (it holds for patterns without boundary assertions, and the crate has no
  look-around): a pattern that matches an empty prefix matches the empty text.
\<close>

definition regex_prefix_law :: "'r regex_env \<Rightarrow> bool" where
  "regex_prefix_law X \<longleftrightarrow> (\<forall>p full prefix s.
     re_new X ([92] @ str ''A(?:'' @ p @ str '')'' @ [92] @ str ''z'') = Inr full \<longrightarrow>
     re_new X ([92] @ str ''A(?:'' @ p @ str '')'') = Inr prefix \<longrightarrow>
     re_find X prefix s = Some 0 \<longrightarrow> re_is_match X full [])"

lemma compile_rule_prefix:
  assumes "compile_rule X name spec = Inr rule" and "regex_prefix_law X" and "nr_prefix rule = Some r"
  shows "re_find X r s \<noteq> Some 0"
proof -
  from assms(1,3) obtain full where
    "re_new X ([92] @ str ''A(?:'' @ rs_pattern spec @ str '')'' @ [92] @ str ''z'') = Inr full"
    "\<not> re_is_match X full []" "re_new X ([92] @ str ''A(?:'' @ rs_pattern spec @ str '')'') = Inr r"
    unfolding compile_rule_def
    by (auto simp: bind_res_Inr_iff map_sum_Inr_iff split: if_splits)
  then show ?thesis using assms(2) unfolding regex_prefix_law_def by blast
qed

lemma compile_rules_prefix:
  assumes "compile_rules X specs = Inr rules" and "regex_prefix_law X" and "(name, rule) \<in> set rules"
    and "nr_prefix rule = Some r"
  shows "re_find X r s \<noteq> Some 0"
  using assms(1,3)
proof (induction specs arbitrary: rules)
  case (Cons e specs)
  obtain name' spec where e: "e = (name', spec)" by (cases e)
  from Cons.prems(1) obtain rule' rules' where c: "compile_rule X name' spec = Inr rule'"
    "compile_rules X specs = Inr rules'" "rules = (name', rule') # rules'"
    unfolding e compile_rules.simps bind_res_Inr_iff by blast
  show ?case
  proof (cases "(name, rule) \<in> set rules'")
    case True
    then show ?thesis by (rule Cons.IH [OF c(2)])
  next
    case False
    then have "rule = rule'" using Cons.prems(2) c(3) by simp
    then show ?thesis using compile_rule_prefix [OF c(1) assms(2)] assms(4) by blast
  qed
qed simp

lemma protected_prefix_loop_from:
  "protected_prefix_loop X s rules = Some n \<Longrightarrow>
     \<exists>rule \<in> set rules. \<exists>r. nr_prefix rule = Some r \<and> re_find X r s = Some n"
proof (induction X s rules rule: protected_prefix_loop.induct)
  case (2 X s rule rules)
  then show ?case by (auto simp: prefix_match_def split: option.splits if_splits)
qed simp

text \<open>Compiled number rules never protect an empty prefix, so the loop that splits tokens ends.\<close>

lemma compiled_rules_prefix_ok:
  assumes "compile_rule_file X file = Inr (ne_rules N)" and "ne_regex N = X" and "regex_prefix_law X"
  shows "prefix_rules_ok (with_number_rules N env)"
proof -
  obtain rules where r: "compile_rules X (rf_rules file) = Inr rules" and n: "nu_rules (ne_rules N) = rules"
  proof -
    from assms(1) obtain rules where r: "compile_rules X (rf_rules file) = Inr rules"
      and n: "Inr \<lparr>nu_rules = rules, nu_common = rf_common file, nu_languages = rf_languages file\<rparr>
        = (Inr (ne_rules N) :: rstr + 'a num_rules)"
      unfolding compile_rule_file_def bind_res_Inr_iff by blast
    from n have "nu_rules (ne_rules N) = rules" by (metis num_rules.select_convs(1) sum.inject(2))
    with r show thesis by (rule that)
  qed
  have "n \<noteq> 0" if p: "protected_prefix_len N s lang = Some n" for s lang n
  proof -
    from protected_prefix_loop_from [OF p [unfolded protected_prefix_len_def]] obtain rule regex where
      rule: "rule \<in> set (rules_for_language (ne_rules N) (to_ascii_lowercase lang))" and
      regex: "nr_prefix rule = Some regex" "re_find X regex s = Some n" using assms(2) by blast
    from rule obtain name where "map_of rules name = Some rule"
      unfolding rules_for_language_def List.map_filter_def n by fastforce
    then have "(name, rule) \<in> set rules" by (rule map_of_SomeD)
    from compile_rules_prefix [OF r assms(3) this regex(1), of s] regex(2) show ?thesis by auto
  qed
  then show ?thesis by (auto simp: prefix_rules_ok_def with_number_rules_def)
qed

end
