(* ===== verification/AsrRunnerLaws.thy ===== *)
theory AsrRunnerLaws
  imports AsrRunner NumTable
begin

text \<open>
  What the ASR runner builds: which words of an utterance reach the document and the bullet they give, and that every
  utterance is spoken by a declared participant.
\<close>

section \<open>The words of a built utterance\<close>

fun content_items :: "'w built_content \<Rightarrow> 'w timed_item list" where
  "content_items (CWord w) = [w]"
| "content_items (CSeparator s) = []"
| "content_items (CRetrace g ws) = ws"

definition built_items :: "'w built_content list \<Rightarrow> 'w timed_item list" where
  "built_items content = concat (map content_items content)"

text \<open>
  The words that are kept: not empty, and outside a run of retraced words no terminator and no separator.
\<close>

fun kept_words :: "('w, 't, 'z) chat_env_scheme \<Rightarrow> bool \<Rightarrow> word_desc list \<Rightarrow> word_desc list" where
  "kept_words E in_run [] = []"
| "kept_words E in_run (w # ws) =
     (let t = trim (wd_text w) in
      if in_run \<and> is_retrace w then (if t = [] then kept_words E True ws else w # kept_words E True ws)
      else if t = [] \<or> ce_is_chat_terminator E t \<or> tag_marker_separator t \<noteq> None then kept_words E False ws
      else w # kept_words E (is_retrace w) ws)"

definition item_of_word :: "('w, 't, 'z) chat_env_scheme \<Rightarrow> word_desc \<Rightarrow> 'w timed_item" where
  "item_of_word E w = fst (parse_and_time_word E (trim (wd_text w)) (wd_start w) (wd_end w) \<lparr>ts_start = None, ts_end = None, ts_has_timing = False\<rparr>)"

definition note_word :: "word_desc \<Rightarrow> timing_state \<Rightarrow> timing_state" where
  "note_word w st = note_timing (wd_start w) (wd_end w) st"

lemma parse_and_time_word_eq:
  "parse_and_time_word E (trim (wd_text w)) (wd_start w) (wd_end w) st = (item_of_word E w, note_word w st)"
  by (simp add: parse_and_time_word_def item_of_word_def note_word_def)

lemma built_items_simps [simp]:
  "built_items [] = []" "built_items (xs @ ys) = built_items xs @ built_items ys" "built_items [c] = content_items c"
  by (simp_all add: built_items_def)

lemma built_items_push_retrace: "built_items (push_retrace_content E parsed content) = built_items content @ parsed"
proof -
  have "built_items (map (\<lambda>w. CRetrace False [w]) ws) = ws" for ws :: "'a timed_item list"
    by (induction ws) (simp_all add: built_items_def)
  then show ?thesis by (simp add: push_retrace_content_def Let_def)
qed

lemma parse_retrace_run_eq:
  "list_all is_retrace ws \<Longrightarrow> parse_retrace_run E ws st =
     (map (item_of_word E) (filter (\<lambda>w. trim (wd_text w) \<noteq> []) ws), fold note_word (filter (\<lambda>w. trim (wd_text w) \<noteq> []) ws) st)"
  by (induction E ws st rule: parse_retrace_run.induct)
     (simp_all add: parse_and_time_word_eq Let_def)

lemma kept_words_run:
  "kept_words E True ws = filter (\<lambda>w. trim (wd_text w) \<noteq> []) (takeWhile is_retrace ws) @ kept_words E False (dropWhile is_retrace ws)"
proof (induction ws)
  case (Cons w ws)
  show ?case
  proof (cases "is_retrace w")
    case True
    with Cons show ?thesis by (simp add: Let_def)
  next
    case False
    then show ?thesis by simp
  qed
qed simp

lemma word_loop_items:
  "word_loop E ws content st = (content', st') \<Longrightarrow>
     built_items content' = built_items content @ map (item_of_word E) (kept_words E False ws) \<and>
     st' = fold note_word (kept_words E False ws) st"
proof (induction E ws content st arbitrary: content' st' rule: word_loop.induct)
  case (1 E content st)
  then show ?case by simp
next
  case (2 E w ws content st)
  let ?t = "trim (wd_text w)"
  show ?case
  proof (cases "?t = [] \<or> ce_is_chat_terminator E ?t")
    case True
    have k: "kept_words E False (w # ws) = kept_words E False ws" using True by (auto simp: Let_def)
    have l: "word_loop E ws content st = (content', st')" using 2(6) True by (auto simp: Let_def split: if_splits)
    show ?thesis
    proof (cases "?t = []")
      case True
      then show ?thesis using 2(1) [OF refl _ l] k by simp
    next
      case False
      then show ?thesis using 2(2) [OF refl _ _ l] k True by simp
    qed
  next
    case word: False
    show ?thesis
    proof (cases "tag_marker_separator ?t")
      case (Some sep)
      then show ?thesis using 2(5) [OF refl _ _ Some] 2(6) word by (auto simp: Let_def)
    next
      case None
      show ?thesis
      proof (cases "is_retrace w")
        case True
        let ?run = "takeWhile is_retrace (w # ws)"
        have run: "list_all is_retrace ?run" by (auto simp: list_all_iff dest: set_takeWhileD)
        have parsed: "parse_retrace_run E ?run st = (map (item_of_word E) (filter (\<lambda>w. trim (wd_text w) \<noteq> []) ?run),
            fold note_word (filter (\<lambda>w. trim (wd_text w) \<noteq> []) ?run) st)"
          by (rule parse_retrace_run_eq [OF run])
        have l: "word_loop E (dropWhile is_retrace ws)
            (push_retrace_content E (map (item_of_word E) (filter (\<lambda>w. trim (wd_text w) \<noteq> []) ?run)) content)
            (fold note_word (filter (\<lambda>w. trim (wd_text w) \<noteq> []) ?run) st) = (content', st')"
          using 2(6) word None True parsed by (simp add: Let_def)
        have "kept_words E False (w # ws) = w # kept_words E True ws" using word None True by (simp add: Let_def)
        then show ?thesis
          using 2(3) [OF refl _ _ None True parsed [symmetric] l] word True
          by (simp add: kept_words_run built_items_push_retrace)
      next
        case False
        have l: "word_loop E ws (content @ [CWord (item_of_word E w)]) (note_word w st) = (content', st')"
          using 2(6) word None False by (simp add: Let_def parse_and_time_word_eq)
        show ?thesis
          using 2(4) [OF refl _ _ None False _ l] word None False by (simp add: Let_def parse_and_time_word_eq)
      qed
    qed
  qed
qed

text \<open>The bullet of words: from the first start to the last end of those that have both.\<close>

definition timings :: "word_desc list \<Rightarrow> (nat \<times> nat) list" where
  "timings ws = List.map_filter (\<lambda>w. case (wd_start w, wd_end w) of (Some s, Some e) \<Rightarrow> Some (s, e) | _ \<Rightarrow> None) ws"

lemma timings_simps [simp]:
  "timings [] = []"
  "timings (w # ws) = (case (wd_start w, wd_end w) of (Some s, Some e) \<Rightarrow> (s, e) # timings ws | _ \<Rightarrow> timings ws)"
  by (simp_all add: timings_def List.map_filter_simps split: option.splits)

lemma fold_note_word:
  "fold note_word ws st =
     (if timings ws = [] then st
      else \<lparr>ts_start = (if ts_start st = None then Some (fst (hd (timings ws))) else ts_start st),
            ts_end = Some (snd (last (timings ws))), ts_has_timing = True\<rparr>)"
  by (induction ws arbitrary: st) (auto simp: note_word_def note_timing_def split: option.splits)

lemma map_filter_word_timings: "List.map_filter snd (map (item_of_word E) ws) = timings ws"
  by (induction ws) (auto simp: item_of_word_def parse_and_time_word_def List.map_filter_simps split: option.splits)

text \<open>When the word-mode builder makes no utterance, none of its tokens is a word to keep. Otherwise the words of the document are, in order, what the parser makes of the tokens that are kept - a
  retraced run keeps its words, whether it is written as one group or word by word - and the utterance's bullet runs
  from the first start to the last end of the kept tokens that have both times, falling back to the given times when
  none has.\<close>

lemma built_utterance_words:
  "case build_word_utterance E speaker words write_wor fallback_start fallback_end of
     None \<Rightarrow> kept_words E False words = []
   | Some u \<Rightarrow>
       bm_speaker (bu_main u) = speaker \<and>
       built_items (bm_content (bu_main u)) = map (item_of_word E) (kept_words E False words) \<and>
       bm_bullet (bu_main u) =
         (if timings (kept_words E False words) = []
          then (case (fallback_start, fallback_end) of (Some s, Some e) \<Rightarrow> Some (s, e) | _ \<Rightarrow> None)
          else Some (fst (hd (timings (kept_words E False words))), snd (last (timings (kept_words E False words))))) \<and>
       (bu_wor u \<noteq> None \<longleftrightarrow> write_wor \<and> timings (kept_words E False words) \<noteq> [])"
proof -
  obtain content st where l: "word_loop E words [] \<lparr>ts_start = None, ts_end = None, ts_has_timing = False\<rparr> = (content, st)"
    by (rule prod.exhaust)
  have items: "built_items content = map (item_of_word E) (kept_words E False words)"
    and st: "st = fold note_word (kept_words E False words) \<lparr>ts_start = None, ts_end = None, ts_has_timing = False\<rparr>"
    using word_loop_items [OF l] by simp_all
  show ?thesis
  proof (cases "content = []")
    case True
    then show ?thesis using items by (simp add: build_word_utterance_def l Let_def)
  next
    case False
    then show ?thesis using items by (simp add: build_word_utterance_def l Let_def st fold_note_word split: option.splits)
  qed
qed

section \<open>The speakers of a transcript\<close>

definition par_code :: "nat \<Rightarrow> rstr" where
  "par_code i = str ''PAR'' @ nat_to_string i"

lemma nat_to_string_inject: "nat_to_string i = nat_to_string j \<Longrightarrow> i = j"
  by (metis digits_value_to_string)

lemma par_code_inject [simp]: "par_code i = par_code j \<longleftrightarrow> i = j"
  by (auto simp: par_code_def dest: nat_to_string_inject)

lemma par_code_number: "i < 2 ^ 64 \<Longrightarrow> Option.bind (strip_prefix (str ''PAR'') (par_code i)) (parse_unsigned 64) = Some i"
  using parse_to_string [of i 64] by (simp add: strip_prefix_def par_code_def str_def)

lemma note_speaker_codes:
  "map snd codes = map par_code [0..<length codes] \<Longrightarrow>
     map snd (note_speaker seg codes) = map par_code [0..<length (note_speaker seg codes)] \<and>
     length (note_speaker seg codes) \<le> Suc (length codes)"
  by (simp add: note_speaker_def par_code_def)

lemma fold_note_speaker_codes:
  "map snd codes = map par_code [0..<length codes] \<Longrightarrow>
     map snd (fold note_speaker segs codes) = map par_code [0..<length (fold note_speaker segs codes)] \<and>
     length (fold note_speaker segs codes) \<le> length codes + length segs"
proof (induction segs arbitrary: codes)
  case (Cons seg segs)
  then show ?case using note_speaker_codes [OF Cons.prems, of seg] Cons.IH [of "note_speaker seg codes"] by fastforce
qed simp

lemma note_speaker_keeps: "map_of codes l \<noteq> None \<Longrightarrow> map_of (note_speaker seg codes) l \<noteq> None"
  by (auto simp: note_speaker_def map_add_def split: option.splits)

lemma fold_note_speaker_keeps: "map_of codes l \<noteq> None \<Longrightarrow> map_of (fold note_speaker segs codes) l \<noteq> None"
proof (induction segs arbitrary: codes)
  case (Cons seg segs)
  then show ?case using note_speaker_keeps [OF Cons.prems, of seg] by simp
qed simp

lemma note_speaker_notes: "map_of (note_speaker seg codes) (raw_speaker seg) \<noteq> None"
  by (auto simp: note_speaker_def map_add_def split: option.splits)

lemma fold_note_speaker_notes:
  "seg \<in> set segs \<Longrightarrow> map_of (fold note_speaker segs codes) (raw_speaker seg) \<noteq> None"
proof (induction segs arbitrary: codes)
  case (Cons s segs)
  show ?case
  proof (cases "seg = s")
    case True
    then show ?thesis using fold_note_speaker_keeps [OF note_speaker_notes, of segs seg codes] by simp
  next
    case False
    then show ?thesis using Cons by simp
  qed
qed simp

lemma discover_speakers_codes:
  "map snd (discover_speakers segs) = map par_code [0..<length (discover_speakers segs)] \<and>
   discover_speakers segs \<noteq> [] \<and> length (discover_speakers segs) \<le> Suc (length segs)"
proof -
  have "str ''PAR0'' = par_code 0" by code_simp
  then show ?thesis using fold_note_speaker_codes [of "[]" segs] by (auto simp: discover_speakers_def Let_def)
qed

lemma discover_speakers_notes: "seg \<in> set segs \<Longrightarrow> map_of (discover_speakers segs) (raw_speaker seg) \<noteq> None"
  using fold_note_speaker_notes [of seg segs "[]"] by (auto simp: discover_speakers_def Let_def)

text \<open>Every segment's label has a code, and the code's number is an index into the codes.\<close>

lemma asr_output_total:
  assumes "\<And>seg. seg \<in> set segs \<Longrightarrow> map_of codes (raw_speaker seg) \<noteq> None"
    and codes: "map snd codes = map par_code [0..<length codes]" and "length codes \<le> 2 ^ 64"
  shows "\<exists>ms. asr_output_for_postprocess segs codes = Inr ms \<and> (\<forall>m \<in> set ms. am_speaker m < length codes)"
  using assms(1)
proof (induction segs)
  case (Cons seg segs)
  obtain code where c: "map_of codes (raw_speaker seg) = Some code" using Cons.prems [of seg] by auto
  then have "code \<in> set (map snd codes)" by (force dest: map_of_SomeD)
  then obtain i where i: "i < length codes" and code: "code = par_code i" unfolding codes by auto
  have "i < 2 ^ 64" using i assms(3) by linarith
  moreover obtain ms where "asr_output_for_postprocess segs codes = Inr ms" "\<forall>m \<in> set ms. am_speaker m < length codes"
    using Cons.IH Cons.prems by auto
  ultimately show ?case using i by (auto simp: c code par_code_number)
qed simp

subsection \<open>Speakers through post-processing\<close>

lemma retokenize_speaker: "u \<in> set (retokenize speaker ws) \<Longrightarrow> au_speaker u = speaker"
  using retokenize_terminated [of speaker ws] by (auto simp: list_all_iff ends_in_terminator_def)

lemma finalize_speakers:
  "u \<in> set (finalize_utterances env us lang) \<Longrightarrow> au_speaker u \<in> au_speaker ` set us"
  by (auto simp: finalize_utterances_def Let_def sanitize_chat_illegal_chars_in_utterances_def
      apply_english_transcribe_rules_post_retokenize_def apply_utterance_initial_capitalization_def
      apply_retrace_detection_def apply_disfluency_replacements_def detect_retraces_def split: if_splits)

lemma chunk_speakers:
  "prepare_asr_chunks env ms lang = Some cs \<Longrightarrow> c \<in> set cs \<Longrightarrow> pc_speaker c \<in> am_speaker ` set ms"
proof (induction ms arbitrary: cs)
  case (Cons m ms)
  then show ?case by (auto simp: finalize_words_to_chunks_def Let_def split: option.splits)
qed simp

lemma process_raw_asr_speakers:
  assumes "process_raw_asr env ms lang = Some us" and "u \<in> set us"
  shows "au_speaker u \<in> am_speaker ` set ms"
proof -
  obtain cs where cs: "prepare_asr_chunks env ms lang = Some cs"
    and "u \<in> set (finalize_utterances env (utterances_from_prepared_chunks cs) lang)"
    using assms by (auto simp: process_raw_asr_def)
  then obtain c v where "c \<in> set cs" "v \<in> set (retokenize (pc_speaker c) (pc_words c))" "au_speaker u = au_speaker v"
    by (auto simp: utterances_from_prepared_chunks_def dest!: finalize_speakers)
  then show ?thesis using chunk_speakers [OF cs] retokenize_speaker by metis
qed

lemma map_res_Inr_nth:
  "map_res f xs = Inr ys \<Longrightarrow> length ys = length xs \<and> (\<forall>i < length xs. f (xs ! i) = Inr (ys ! i))"
proof (induction xs arbitrary: ys)
  case (Cons x xs)
  then obtain y zs where y: "f x = Inr y" and zs: "map_res f xs = Inr zs" and "ys = y # zs"
    by (auto simp: bind_res_Inr_iff)
  then show ?case using Cons.IH [OF zs] by (auto simp: nth_Cons split: nat.split)
qed simp

lemma describe_asr_utterance_speaker:
  "describe_asr_utterance E ids lang (i, u) = Inr d \<Longrightarrow> de_speaker d = resolve_speaker_id (au_speaker u) ids"
  by (auto simp: describe_asr_utterance_def Let_def bind_res_Inr_iff)

lemma transcript_parts:
  assumes "transcript_from_asr_utterances E us ids langs media wor = Inr desc"
  shows "td_participants desc = build_asr_participants us ids \<and>
    map de_speaker (td_utterances desc) = map (\<lambda>u. resolve_speaker_id (au_speaker u) ids) us"
proof -
  obtain lang descs where ds: "map_res (describe_asr_utterance E ids lang) (enumerate 0 us) = Inr descs"
    and desc: "td_participants desc = build_asr_participants us ids" "td_utterances desc = descs"
    using assms by (auto simp: transcript_from_asr_utterances_def Let_def bind_res_Inr_iff)
  have "map de_speaker descs = map (\<lambda>u. resolve_speaker_id (au_speaker u) ids) us"
  proof (rule nth_equalityI)
    show "length (map de_speaker descs) = length (map (\<lambda>u. resolve_speaker_id (au_speaker u) ids) us)"
      using map_res_Inr_nth [OF ds] by simp
  next
    fix i assume i: "i < length (map de_speaker descs)"
    then have "describe_asr_utterance E ids lang (i, us ! i) = Inr (descs ! i)"
      using map_res_Inr_nth [OF ds] by (simp add: nth_enumerate_eq)
    then show "map de_speaker descs ! i = map (\<lambda>u. resolve_speaker_id (au_speaker u) ids) us ! i"
      using i map_res_Inr_nth [OF ds] by (simp add: describe_asr_utterance_speaker)
  qed
  with desc show ?thesis by simp
qed

text \<open>
  A description whose speakers are declared: at least one participant, no code twice, and the speaker of every utterance
  among them.
\<close>

definition speakers_declared :: "transcript_description \<Rightarrow> bool" where
  "speakers_declared desc \<longleftrightarrow>
     td_participants desc \<noteq> [] \<and> distinct (map pd_id (td_participants desc)) \<and>
     set (map de_speaker (td_utterances desc)) \<subseteq> set (map pd_id (td_participants desc))"

lemma finish_description_speakers:
  assumes parts: "td_participants desc = build_asr_participants us order"
    and spk: "map de_speaker (td_utterances desc) = map (\<lambda>u. resolve_speaker_id (au_speaker u) order) us"
    and order: "order = map par_code [0..<n]" "0 < n" and us: "\<forall>u \<in> set us. au_speaker u < n"
  shows "speakers_declared (finish_description order desc) \<and>
    set (map pd_id (td_participants (finish_description order desc))) \<subseteq> set order"
proof -
  have ids: "map pd_id (td_participants (finish_description order desc)) =
      (if us = [] then order else map par_code (sort (remdups (map au_speaker us))))"
  proof (cases "us = []")
    case True
    then show ?thesis by (simp add: finish_description_def Let_def parts build_asr_participants_def comp_def)
  next
    case False
    have "map (\<lambda>s. resolve_speaker_id s order) (sort (remdups (map au_speaker us))) =
        map par_code (sort (remdups (map au_speaker us)))"
      using us by (auto simp: resolve_speaker_id_def order)
    moreover have "sort (remdups (map au_speaker us)) \<noteq> []"
      using False by (metis map_is_Nil_conv remdups_eq_nil_iff set_empty set_sort)
    ultimately show ?thesis using False
      by (simp add: finish_description_def Let_def parts build_asr_participants_def comp_def)
  qed
  have "inj par_code" by (simp add: inj_def)
  then have d: "distinct (map pd_id (td_participants (finish_description order desc)))"
    unfolding ids by (auto simp: order distinct_map inj_on_def)
  have utts: "td_utterances (finish_description order desc) = td_utterances desc"
    by (simp add: finish_description_def Let_def)
  have sub: "set (map de_speaker (td_utterances desc)) \<subseteq> set (map pd_id (td_participants (finish_description order desc)))"
    using us unfolding ids spk by (auto simp: resolve_speaker_id_def order)
  have "sort (remdups (map au_speaker us)) \<noteq> []" if "us \<noteq> []"
    using that by (metis map_is_Nil_conv remdups_eq_nil_iff set_empty set_sort)
  then have "map pd_id (td_participants (finish_description order desc)) \<noteq> []"
    unfolding ids using order by simp
  moreover have "set (map pd_id (td_participants (finish_description order desc))) \<subseteq> set order"
    using us unfolding ids by (auto simp: order)
  ultimately show ?thesis using d sub utts by (simp add: speakers_declared_def)
qed

text \<open>The description an ASR result gives: with no more segments than a \<open>usize\<close> counts and number rules that protect no
  empty prefix, the description is reached (no unknown speaker, no bad participant code, no loop without end); it
  fails only with a validation error (a word or a language the parser refuses); and otherwise it declares at least one
  participant and no code twice, every utterance is spoken by a declared participant, and all codes are codes given to
  labels of the segments.\<close>

lemma asr_speakers_declared:
  assumes "length segs < 2 ^ 64" and "prefix_rules_ok (ar_asr E)"
  shows "\<exists>r. describe_asr E media language segs = Some r \<and>
    (case r of
       Inl e \<Rightarrow> \<exists>m. e = ValidationError m
     | Inr desc \<Rightarrow> speakers_declared desc \<and>
         set (map pd_id (td_participants desc)) \<subseteq> set (map snd (discover_speakers segs)))"
proof -
  let ?codes = "discover_speakers segs" and ?lang = "resolve_lang_code language"
  note codes = discover_speakers_codes [of segs]
  obtain ms where ms: "asr_output_for_postprocess segs ?codes = Inr ms" "\<forall>m \<in> set ms. am_speaker m < length ?codes"
    using asr_output_total [of segs ?codes] discover_speakers_notes codes assms(1) by auto
  obtain cs where "prepare_asr_chunks (ar_asr E) ms ?lang = Some cs"
    using prepare_asr_chunks_total [OF assms(2)] by blast
  then obtain us where us: "process_raw_asr (ar_asr E) ms ?lang = Some us" by (simp add: process_raw_asr_def)
  have bound: "\<forall>u \<in> set us. au_speaker u < length ?codes"
    using process_raw_asr_speakers [OF us] ms(2) by fastforce
  let ?t = "transcript_from_asr_utterances E us (map snd ?codes) [?lang] (Some (mi_path media)) True"
  have d: "describe_asr E media language segs = Some (map_err (\<lambda>e. ValidationError (ar_error_text E e))
      (bind_res ?t (\<lambda>desc. Inr (finish_description (map snd ?codes) desc))))"
    by (simp add: describe_asr_def Let_def ms(1) us)
  show ?thesis
  proof (cases ?t)
    case (Inl e)
    then show ?thesis by (simp add: d map_err_def)
  next
    case (Inr desc)
    note parts = transcript_parts [OF Inr]
    have "speakers_declared (finish_description (map snd ?codes) desc) \<and>
        set (map pd_id (td_participants (finish_description (map snd ?codes) desc))) \<subseteq> set (map snd ?codes)"
      by (rule finish_description_speakers [where us = us and n = "length ?codes"]) (use parts codes bound in simp_all)
    with Inr show ?thesis by (simp add: d map_err_def)
  qed
qed

definition sample_runner_env :: "(rstr, rstr, rstr, unit, unit) asr_runner_env" where
  "sample_runner_env = \<lparr>ce_parse_word = Some, ce_unchecked_word = id, ce_cleaned_text = id,
     ce_terminator = (\<lambda>t. if t = str ''.'' then Some t else None), ce_is_chat_terminator = (\<lambda>t. t = str ''.''),
     ce_parse_strict = (\<lambda>t. Inl (str ''no text'')), ce_language_code = Inr, ce_media_filename = Inr,
     ce_generate_wor = (\<lambda>m. bm_speaker m), be_lang_errors = (\<lambda>t l. None), be_word_errors = (\<lambda>t. None),
     ar_asr = plain_env, ar_error_text = (\<lambda>e. []), ar_validate = (\<lambda>f. (False, [], [])),
     ar_prepare_pcm = (\<lambda>m. Inr ()), ar_dispatch = (\<lambda>request s. (Inl (InternalError []), [], s))\<rparr>"

definition sample_asr_segments :: "segment list" where
  "sample_asr_segments =
     [\<lparr>sg_start = 0, sg_end = 900, sg_text = str ''hi there'', sg_speaker = Some (str ''A''),
       sg_words = [\<lparr>tw_text = str ''hi'', tw_start = 0, tw_end = 400, tw_confidence = None\<rparr>]\<rparr>,
      \<lparr>sg_start = 900, sg_end = 1200, sg_text = str ''oh'', sg_speaker = Some (str ''B''), sg_words = []\<rparr>]"

lemma asr_speakers_declared_witness:
  "\<exists>r. describe_asr sample_runner_env
      \<lparr>mi_source_id = str ''a'', mi_path = str ''a.wav'', mi_language = None\<rparr> LangAuto sample_asr_segments = Some r \<and>
    (case r of
       Inl e \<Rightarrow> \<exists>m. e = ValidationError m
     | Inr desc \<Rightarrow> speakers_declared desc \<and>
         set (map pd_id (td_participants desc)) \<subseteq> set (map snd (discover_speakers sample_asr_segments)))"
  by (rule asr_speakers_declared) (simp_all add: sample_asr_segments_def sample_runner_env_def prefix_rules_ok_def plain_env_def)

end
