(* ===== verification/UtsegRunnerLaws.thy ===== *)
theory UtsegRunnerLaws
  imports UtsegRunner AsrRunnerLaws
begin

text \<open>
  What the segmentation runner promises: a backend that only groups words leaves every word where it was, and a rebuild
  declares the speakers it uses.
\<close>

section \<open>Assignments\<close>

lemma sorted_span_groups:
  "sorted (concat (map (\<lambda>(grp, sp). replicate (length (us_words sp)) grp) (enumerate k sps))) \<and>
   (\<forall>g \<in> set (concat (map (\<lambda>(grp, sp). replicate (length (us_words sp)) grp) (enumerate k sps))). k \<le> g)"
proof (induction sps arbitrary: k)
  case (Cons sp sps)
  show ?case using Cons [of "Suc k"] by (auto simp: sorted_append Suc_le_eq dest: less_imp_le)
qed simp

lemma assignments_from_spans_sorted: "assignments_from_spans row out = Some as \<Longrightarrow> sorted as"
  using sorted_span_groups [of 0 "uu_utterances out"] by (auto simp: assignments_from_spans_def split: if_splits)

text \<open>One group number for each word of the row, when the answer has spans.\<close>

lemma assignments_from_spans_length:
  "assignments_from_spans row out = Some as \<Longrightarrow> uu_utterances out \<noteq> [] \<Longrightarrow> length as = length (rw_words row)"
proof -
  have *: "length (concat (map (\<lambda>(grp, sp). replicate (length (us_words sp)) grp) (enumerate k sps))) =
      length (concat (map (\<lambda>sp. map tw_text (us_words sp)) sps))" for k sps
    by (induction sps arbitrary: k) simp_all
  assume "assignments_from_spans row out = Some as" "uu_utterances out \<noteq> []"
  then show ?thesis
    using * [of 0 "uu_utterances out"] by (auto simp: assignments_from_spans_def split: if_splits dest: arg_cong [where f = length])
qed

lemma note_assignment_sorted:
  "(\<forall>k as. m k = Some as \<longrightarrow> sorted as) \<Longrightarrow> (\<forall>k as. note_assignment ior m k = Some as \<longrightarrow> sorted as)"
  by (auto simp: note_assignment_def dest: assignments_from_spans_sorted split: prod.splits option.splits if_splits)

lemma fold_note_assignment_sorted:
  "(\<forall>k as. m k = Some as \<longrightarrow> sorted as) \<Longrightarrow> (\<forall>k as. fold note_assignment iors m k = Some as \<longrightarrow> sorted as)"
proof (induction iors arbitrary: m)
  case (Cons ior iors)
  from Cons.IH [OF note_assignment_sorted [OF Cons.prems]] show ?case by simp
qed simp

lemma assignment_map_sorted: "assignment_map answered k = Some as \<Longrightarrow> sorted as"
  using fold_note_assignment_sorted [of Map.empty "enumerate 0 answered"] by (simp add: assignment_map_def)

section \<open>What is said\<close>

text \<open>The content of utterances but for separators, each item with the speaker who says it.\<close>

definition spoken :: "seg_utt list \<Rightarrow> (rstr \<times> content_item) list" where
  "spoken us = concat (map (\<lambda>u. map (Pair (su_speaker u)) (content_of [u])) us)"

lemma spoken_simps [simp]: "spoken [] = []" "spoken (us @ vs) = spoken us @ spoken vs"
  by (simp_all add: spoken_def)

lemma spoken_same_speaker:
  "list_all (\<lambda>c. su_speaker c = s) us \<Longrightarrow> spoken us = map (Pair s) (content_of us)"
  by (induction us) (simp_all add: spoken_def content_of_def)

lemma split_speakers: "list_all (\<lambda>c. su_speaker c = su_speaker u) (split_utterance u as)"
  using split_child_policy [of u as] by (auto simp: child_policy_def Let_def list_all_iff)

lemma spoken_split: "sorted as \<Longrightarrow> spoken (split_utterance u as) = spoken [u]"
  using spoken_same_speaker [OF split_speakers [of u as]] spoken_same_speaker [of "su_speaker u" "[u]"]
  by (simp add: split_content_sorted)

lemma utterances_map [simp]: "utterances (map UtteranceLine us) = us"
  by (induction us) simp_all

definition header_lines :: "'u line list \<Rightarrow> 'u line list" where
  "header_lines ls = filter (\<lambda>l. \<not> is_utterance l) ls"

lemma apply_utseg_loop_keeps:
  "(\<And>k as. m k = Some as \<Longrightarrow> sorted as) \<Longrightarrow>
     spoken (utterances (apply_utseg_loop m i ls)) = spoken (utterances ls) \<and>
     header_lines (apply_utseg_loop m i ls) = header_lines ls"
proof (induction m i ls rule: apply_utseg_loop.induct)
  case (3 m i u ls)
  have h: "header_lines (map UtteranceLine us @ ls') = header_lines ls'" for us :: "seg_utt list" and ls'
    by (simp add: header_lines_def)
  have cons: "spoken (u # us) = map (Pair (su_speaker u)) (content_of [u]) @ spoken us" for us by (simp add: spoken_def)
  have hu: "header_lines (UtteranceLine u # ls') = header_lines ls'" for ls' by (simp add: header_lines_def)
  have IH: "spoken (utterances (apply_utseg_loop m (Suc i) ls)) = spoken (utterances ls)"
    "header_lines (apply_utseg_loop m (Suc i) ls) = header_lines ls"
    using 3 by blast+
  show ?case
  proof (cases "m i")
    case None
    then show ?thesis by (simp add: IH hu cons)
  next
    case (Some as)
    with 3 have "spoken (split_utterance u as) = map (Pair (su_speaker u)) (content_of [u])"
      using spoken_split [of as u] by (simp add: cons)
    then show ?thesis by (simp add: Some IH h hu cons)
  qed
qed (simp_all add: header_lines_def)

section \<open>The rebuilt description\<close>

lemma speaker_codes_of_set: "nu_speaker ` set us \<subseteq> set (speaker_codes_of us)"
  by (auto simp: speaker_codes_of_def Let_def)

lemma utseg_description_declares: "speakers_declared (utseg_description langs name t us)"
proof -
  have ids: "map pd_id (td_participants (utseg_description langs name t us)) = speaker_codes_of us"
    by (simp add: utseg_description_def batchalign_participant_def comp_def)
  have "distinct (speaker_codes_of us)" by (simp add: speaker_codes_of_def Let_def)
  moreover have "speaker_codes_of us \<noteq> []" by (simp add: speaker_codes_of_def Let_def)
  moreover have "set (map de_speaker (td_utterances (utseg_description langs name t us))) \<subseteq> set (speaker_codes_of us)"
    using speaker_codes_of_set [of us] by (auto simp: utseg_description_def text_desc_def)
  ultimately show ?thesis using ids by (auto simp: speakers_declared_def)
qed

section \<open>The rebuilt document\<close>

lemma map_res_Inr: "map_res f xs = Inr ys \<longleftrightarrow> map f xs = map Inr ys"
proof (induction xs arbitrary: ys)
  case (Cons x xs)
  show ?case by (cases ys) (auto simp: bind_res_Inr_iff Cons.IH)
qed auto

lemma map_res_Inl: "(\<exists>e. map_res f xs = Inl e) \<longleftrightarrow> (\<exists>x \<in> set xs. \<exists>e. f x = Inl e)"
proof (induction xs)
  case (Cons x xs)
  show ?case
  proof (cases "f x")
    case (Inr y)
    with Cons.IH show ?thesis by (simp add: bind_res_Inl_iff)
  qed auto
qed simp

text \<open>The utterances among the lines of a built file, and the reading of a new utterance's text.\<close>

definition built_utterances :: "'u built_line list \<Rightarrow> 'u list" where
  "built_utterances ls = List.map_filter (\<lambda>l. case l of BUtterance u \<Rightarrow> Some u | BHeader h \<Rightarrow> None) ls"

lemma built_utterances_simps [simp]:
  "built_utterances [] = []" "built_utterances (BHeader h # ls) = built_utterances ls"
  "built_utterances (BUtterance u # ls) = u # built_utterances ls"
  "built_utterances (ls @ ls') = built_utterances ls @ built_utterances ls'"
  "built_utterances (map BHeader hs) = []"
proof -
  show "built_utterances [] = []" "built_utterances (BHeader h # ls) = built_utterances ls"
    "built_utterances (BUtterance u # ls) = u # built_utterances ls"
    "built_utterances (ls @ ls') = built_utterances ls @ built_utterances ls'"
    by (simp_all add: built_utterances_def List.map_filter_def)
  show "built_utterances (map BHeader hs) = []" by (induction hs) (simp_all add: built_utterances_def List.map_filter_def)
qed

definition read_new :: "('w, 't, 'z) chat_env_scheme \<Rightarrow> rstr list \<Rightarrow> new_utterance \<Rightarrow> rstr + ('w, 't) built_utt option" where
  "read_new E langs u = build_text_utterance E (nu_speaker u) (nu_text u) (map_option fst (nu_bullet u)) (map_option snd (nu_bullet u)) langs"

lemma build_utterance_text: "build_utterance E wor langs primary (text_desc u) = read_new E langs u"
  by (simp add: build_utterance_def text_desc_def read_new_def)

lemma build_utterance_lines_text:
  "build_utterance_lines E wor langs primary (map text_desc us) =
     bind_res (map_res (read_new E langs) us) (\<lambda>built. Inr (map BUtterance (List.map_filter (\<lambda>x. x) built)))"
proof (induction us)
  case (Cons u us)
  show ?case
    by (cases "read_new E langs u"; cases "map_res (read_new E langs) us")
      (auto simp: Cons build_utterance_text List.map_filter_simps split: option.split)
qed (simp add: List.map_filter_simps)

text \<open>What the document crate can refuse: a language of the document, the name of its recording, or the text of a new utterance.\<close>

definition rebuild_refused :: "('w, 't, 'z) chat_env_scheme \<Rightarrow> rstr list \<Rightarrow> rstr \<Rightarrow> new_utterance list \<Rightarrow> bool" where
  "rebuild_refused E langs media_name news \<longleftrightarrow>
     (\<exists>l \<in> set langs. \<exists>e. ce_language_code E l = Inl e) \<or> (\<exists>e. ce_media_filename E (normalize_media_name media_name) = Inl e) \<or>
     (\<exists>u \<in> set news. \<exists>e. read_new E langs u = Inl e)"

definition document_languages :: "rstr list \<Rightarrow> rstr list" where
  "document_languages langs = (if langs = [] then [str ''eng''] else langs)"

lemma participant_map_codes: "set (map fst (participant_map lang ps)) = set (map pd_id ps)"
proof -
  have "fst ` set (fold (\<lambda>p m. AList.update (pd_id p) (entry_of p, id_header_of lang p) m) ps m) = fst ` set m \<union> pd_id ` set ps" for m
    by (induction ps arbitrary: m) (auto simp: dom_update)
  then show ?thesis by (simp add: participant_map_def)
qed

lemma rebuilt_file:
  fixes E :: "('w, 't, 'z) chat_env_scheme" and langs :: "rstr list"
  defines "ls \<equiv> document_languages langs"
  shows "if rebuild_refused E ls media_name news then \<exists>e. build_chat E (utseg_description langs media_name t news) = Inl e
    else \<exists>file built. build_chat E (utseg_description langs media_name t news) = Inr file \<and>
      map (read_new E ls) news = map Inr built \<and> built_utterances (bf_lines file) = List.map_filter (\<lambda>x. x) built \<and>
      set (map fst (bf_participants file)) = set (speaker_codes_of news)"
proof -
  let ?desc = "utseg_description langs media_name t news"
  have ps: "td_participants ?desc \<noteq> []" "map pd_id (td_participants ?desc) = speaker_codes_of news"
    by (simp_all add: utseg_description_def speaker_codes_of_def Let_def batchalign_participant_def comp_def)
  have ls: "ls \<noteq> []" by (simp add: ls_def document_languages_def)
  have tl: "(\<exists>e. transcript_language E l = Inl e) \<longleftrightarrow> (\<exists>e. ce_language_code E l = Inl e)" for l
    by (cases "ce_language_code E l") (simp_all add: transcript_language_def map_err_def)
  have codes: "(\<exists>e. map_res (transcript_language E) ls = Inl e) \<longleftrightarrow> (\<exists>l \<in> set ls. \<exists>e. ce_language_code E l = Inl e)"
    by (simp add: map_res_Inl tl)
  have media: "(\<exists>e. build_media_header E ?desc = Inl e) \<longleftrightarrow> (\<exists>e. ce_media_filename E (normalize_media_name media_name) = Inl e)"
    by (cases "ce_media_filename E (normalize_media_name media_name)")
      (simp_all add: build_media_header_def utseg_description_def map_err_def)
  have texts: "(\<exists>e. map_res (read_new E ls) news = Inl e) \<longleftrightarrow> (\<exists>u \<in> set news. \<exists>e. read_new E ls u = Inl e)"
    by (rule map_res_Inl)
  have built: "build_chat E ?desc =
      bind_res (build_header_lines E ?desc ls) (\<lambda>headers.
      bind_res (bind_res (map_res (read_new E ls) news) (\<lambda>built. Inr (map BUtterance (List.map_filter (\<lambda>x. x) built)))) (\<lambda>utts.
      bind_res (transcript_language E (hd ls)) (\<lambda>lang_code.
        Inr \<lparr>bf_lines = headers @ utts @ [BHeader HEnd], bf_participants = participant_map lang_code (td_participants ?desc)\<rparr>)))"
    using ps(1)
    by (simp add: build_chat_def Let_def ls_def document_languages_def utseg_description_def build_utterance_lines_text)
  show ?thesis
  proof (cases "rebuild_refused E ls media_name news")
    case True
    then have "(\<exists>e. map_res (transcript_language E) ls = Inl e) \<or> (\<exists>e. build_media_header E ?desc = Inl e) \<or>
        (\<exists>e. map_res (read_new E ls) news = Inl e)"
      unfolding rebuild_refused_def codes media texts .
    then have "\<exists>e. build_chat E ?desc = Inl e"
      unfolding built build_header_lines_def
      by (cases "map_res (transcript_language E) ls"; cases "build_media_header E ?desc"; cases "map_res (read_new E ls) news") auto
    with True show ?thesis by simp
  next
    case False
    then have none: "\<not> (\<exists>e. map_res (transcript_language E) ls = Inl e)" "\<not> (\<exists>e. build_media_header E ?desc = Inl e)"
        "\<not> (\<exists>e. map_res (read_new E ls) news = Inl e)"
      unfolding codes media texts by (simp_all add: rebuild_refused_def)
    obtain cs where cs: "map_res (transcript_language E) ls = Inr cs" using none(1) by (cases "map_res (transcript_language E) ls") auto
    obtain m where m: "build_media_header E ?desc = Inr m" using none(2) by (cases "build_media_header E ?desc") auto
    obtain bs where bs: "map_res (read_new E ls) news = Inr bs" using none(3) by (cases "map_res (read_new E ls) news") auto
    obtain c where c: "transcript_language E (hd ls) = Inr c"
      using cs ls by (cases ls) (auto simp: bind_res_Inr_iff)
    define headers where "headers = [HUtf8, HBegin, HLanguages cs, HParticipants (build_participant_entries ?desc)] @
      map HId (build_id_headers ?desc cs) @ (case m of None \<Rightarrow> [] | Some m \<Rightarrow> [m])"
    have h: "build_header_lines E ?desc ls = Inr (map BHeader headers)" by (simp add: build_header_lines_def cs m headers_def)
    have us: "built_utterances (map BUtterance us) = us" for us :: "('w, 't) built_utt list" by (induction us) simp_all
    show ?thesis using False
      by (simp add: built h bs c us map_res_Inr [symmetric] participant_map_codes ps(2) del: set_map)
  qed
qed

text \<open>
  The timing of a new utterance on the utterance that was read for it: with timed words there is one \<open>%wor\<close> tier, which has
  every word with its time if it has one; the other tiers and all else are as they were read.
\<close>

definition carries_times :: "new_utterance \<Rightarrow> seg_utt \<Rightarrow> seg_utt \<Rightarrow> bool" where
  "carries_times src u u' \<longleftrightarrow>
     (\<exists>ts. u' = u\<lparr>su_tiers := ts\<rparr> \<and> filter (\<lambda>t. \<not> is_seg_wor t) ts = filter (\<lambda>t. \<not> is_seg_wor t) (su_tiers u) \<and>
       (if list_ex has_time (nu_words src)
        then \<exists>w. filter is_seg_wor ts = [SegWor w] \<and> wg_terminator w = su_terminator u \<and>
          map ww_text (wor_tier_words (wg_items w)) = map tw_text (nu_words src) \<and>
          map word_timing (wor_tier_words (wg_items w)) =
            map (\<lambda>x. if has_time x then Some (tw_start x, tw_end x) else None) (nu_words src)
        else ts = su_tiers u))"

lemma wor_tier_words_map: "wor_tier_words (map (\<lambda>x. WorWord (f x)) xs) = map f xs"
  by (induction xs) simp_all

lemma inject_timings_of_carries: "carries_times src u (inject_timings_of new_source src u)"
proof (cases "list_ex has_time (nu_words src)")
  case True
  let ?w = "wor_from_words new_source (su_terminator u) (nu_words src)"
  let ?ts = "filter (\<lambda>t. \<not> is_seg_wor t) (su_tiers u) @ [SegWor ?w]"
  have "inject_timings_of new_source src u = u\<lparr>su_tiers := ?ts\<rparr>" using True by (simp add: inject_timings_of_def)
  moreover have "filter (\<lambda>t. \<not> is_seg_wor t) ?ts = filter (\<lambda>t. \<not> is_seg_wor t) (su_tiers u)" "filter is_seg_wor ?ts = [SegWor ?w]"
    by simp_all
  moreover have "wg_terminator ?w = su_terminator u" "map ww_text (wor_tier_words (wg_items ?w)) = map tw_text (nu_words src)"
    "map word_timing (wor_tier_words (wg_items ?w)) =
      map (\<lambda>x. if has_time x then Some (tw_start x, tw_end x) else None) (nu_words src)"
    by (simp_all add: wor_from_words_def wor_tier_words_map word_timing_def comp_def)
  ultimately show ?thesis using True unfolding carries_times_def by auto
next
  case False
  then show ?thesis unfolding carries_times_def inject_timings_of_def by (intro exI [of _ "su_tiers u"]) simp
qed

text \<open>The first utterances of the document take the new utterances in order.\<close>

definition times_carried :: "new_utterance list \<Rightarrow> seg_utt list \<Rightarrow> seg_utt list \<Rightarrow> bool" where
  "times_carried news us us' \<longleftrightarrow> length us' = length us \<and>
     (\<forall>i < length us. if i < length news then carries_times (news ! i) (us ! i) (us' ! i) else us' ! i = us ! i)"

lemma times_carried_Cons: "carries_times src u u' \<Longrightarrow> times_carried news us us' \<Longrightarrow> times_carried (src # news) (u # us) (u' # us')"
  by (auto simp: times_carried_def nth_Cons split: nat.split)

lemma inject_timings_carried:
  "times_carried news (utterances ls) (utterances (utseg_inject_timings new_source ls news)) \<and>
   header_lines (utseg_inject_timings new_source ls news) = header_lines ls"
proof (induction new_source ls news rule: utseg_inject_timings.induct)
  case (4 new_source u ls src news)
  then show ?case by (simp add: times_carried_Cons inject_timings_of_carries header_lines_def)
qed (simp_all add: times_carried_def header_lines_def)

section \<open>The stage\<close>

text \<open>C26: The segmentation stage on a document: when the joined dispatch fails the document is unchanged and the error is
  the stage's. When every answer only groups the words of its row (or has no spans), the stage succeeds, reports one
  step per answer, keeps source, media and header lines, and the same speakers say the same content items in the same
  order as before, separators apart. Otherwise the document is rebuilt from the answers: the stage fails, and keeps the document,
  exactly when the document crate refuses a language, the name of the recording or the text of a new utterance; else it
  succeeds, keeps source and media, and the file that is validated has the utterances read from the new texts, in order, with
  exactly their speakers as participants; each utterance of the validated document carries the times of the words of its new
  utterance and is otherwise as validated.\<close>

theorem utseg_stage_outcome:
  "case utseg_answers E c s of
     (Inl e, s') \<Rightarrow> utseg_apply E (Chat c) s = (Inl e, Chat c, [stage_started (ch_source_id c) UtSeg], s')
   | (Inr outs, s') \<Rightarrow>
       let rows = collect_utterance_rows c; answered = zip outs rows;
           events = [stage_started (ch_source_id c) UtSeg] @ utseg_ticks (ch_source_id c) (length answered) (length rows);
           news = concat (map (\<lambda>(out, row). collect_split row out) answered); langs = document_languages (ue_languages E c)
       in if \<not> requires_rebuild answered
          then \<exists>c'. utseg_apply E (Chat c) s = (Inr (), Chat c', events @ [stage_injected (ch_source_id c) UtSeg], s') \<and>
            ch_source_id c' = ch_source_id c \<and> ch_media c' = ch_media c \<and>
            header_lines (ch_lines c') = header_lines (ch_lines c) \<and>
            spoken (utterances (ch_lines c')) = spoken (utterances (ch_lines c))
          else if rebuild_refused E langs (utseg_media_name E c) news
          then \<exists>m. utseg_apply E (Chat c) s = (Inl (InternalError m), Chat c, events, s')
          else \<exists>c' file built. utseg_apply E (Chat c) s = (Inr (), Chat c', events @ [stage_injected (ch_source_id c) UtSeg], s') \<and>
            ch_source_id c' = ch_source_id c \<and> ch_media c' = ch_media c \<and>
            map (read_new E langs) news = map Inr built \<and> built_utterances (bf_lines file) = List.map_filter (\<lambda>x. x) built \<and>
            set (map fst (bf_participants file)) = set (speaker_codes_of news) \<and>
            header_lines (ch_lines c') = header_lines (ue_validate E file) \<and>
            times_carried news (utterances (ue_validate E file)) (utterances (ch_lines c'))"
proof -
  obtain r s' where a: "utseg_answers E c s = (r, s')" by (rule prod.exhaust)
  show ?thesis
  proof (cases r)
    case (Inl e)
    then show ?thesis by (simp add: a utseg_apply_def utseg_apply_chat_def Let_def)
  next
    case (Inr outs)
    define answered where "answered = zip outs (collect_utterance_rows c)"
    define news where "news = concat (map (\<lambda>(out, row). collect_split row out) answered)"
    define langs where "langs = document_languages (ue_languages E c)"
    define events where "events = [stage_started (ch_source_id c) UtSeg] @
      utseg_ticks (ch_source_id c) (length answered) (length (collect_utterance_rows c))"
    have run: "utseg_apply E (Chat c) s = (case utseg_fold_back E c answered of
        Inl e \<Rightarrow> (Inl e, Chat c, events, s')
      | Inr c' \<Rightarrow> (Inr (), Chat c', events @ [stage_injected (ch_source_id c) UtSeg], s'))"
      by (simp add: utseg_apply_def utseg_apply_chat_def a Inr Let_def answered_def events_def split: sum.split)
    note outcome_file = rebuilt_file [of E "ue_languages E c" "utseg_media_name E c" news "map_option snd (ue_media_header E c)", folded langs_def]
    note outcome = utseg_fold_back_def build_chat_from_utterances_def news_def [symmetric] with_media_def map_err_def
    consider (group) "\<not> requires_rebuild answered" | (refused) "requires_rebuild answered" "rebuild_refused E langs (utseg_media_name E c) news"
      | (rebuilt) "requires_rebuild answered" "\<not> rebuild_refused E langs (utseg_media_name E c) news" by blast
    then show ?thesis
    proof cases
      case group
      have "spoken (utterances (apply_utseg_results (ch_lines c) (assignment_map answered))) = spoken (utterances (ch_lines c)) \<and>
          header_lines (apply_utseg_results (ch_lines c) (assignment_map answered)) = header_lines (ch_lines c)"
        unfolding apply_utseg_results_def by (rule apply_utseg_loop_keeps) (rule assignment_map_sorted)
      with group show ?thesis
        unfolding a Inr prod.case sum.case Let_def answered_def [symmetric] events_def [symmetric] run by (simp add: outcome)
    next
      case refused
      with outcome_file obtain e where "build_chat E (utseg_description (ue_languages E c) (utseg_media_name E c)
          (map_option snd (ue_media_header E c)) news) = Inl e" by auto
      with refused show ?thesis
        unfolding a Inr prod.case sum.case Let_def answered_def [symmetric] events_def [symmetric] news_def [symmetric]
          langs_def [symmetric] run
        by (simp add: outcome)
    next
      case rebuilt
      with outcome_file obtain f built where f: "build_chat E (utseg_description (ue_languages E c) (utseg_media_name E c)
          (map_option snd (ue_media_header E c)) news) = Inr f"
        "map (read_new E langs) news = map Inr built" "built_utterances (bf_lines f) = List.map_filter (\<lambda>x. x) built"
        "set (map fst (bf_participants f)) = set (speaker_codes_of news)" by auto
      let ?c = "\<lparr>ch_lines = utseg_inject_timings (ue_new_source E) (ue_validate E f) news, ch_source_id = ch_source_id c, ch_media = ch_media c\<rparr>"
      have "utseg_fold_back E c answered = Inr ?c" using rebuilt(1) f(1) by (simp add: outcome split: option.split)
      then have "utseg_apply E (Chat c) s = (Inr (), Chat ?c, events @ [stage_injected (ch_source_id c) UtSeg], s')"
        by (simp add: run)
      with rebuilt f(2-4) inject_timings_carried [of news "ue_validate E f" "ue_new_source E"] show ?thesis
        unfolding a Inr prod.case sum.case Let_def answered_def [symmetric] events_def [symmetric] news_def [symmetric]
          langs_def [symmetric]
        by fastforce
    qed
  qed
qed

end
