(* ===== verification/SpeakerRunnerLaws.thy ===== *)
theory SpeakerRunnerLaws
  imports SpeakerRunner UtsegRunnerLaws
begin

text \<open>What diarization may change: who speaks and when, never what is said; and whom it declares.\<close>

section \<open>Cuts\<close>

lemma number_groups_sorted:
  "sorted (number_groups speakers g prior) \<and> (\<forall>x \<in> set (number_groups speakers g prior). g \<le> x)"
proof (induction speakers arbitrary: g prior)
  case (Cons speaker speakers)
  have step: "sorted (k # number_groups speakers k speaker) \<and> (\<forall>x \<in> set (k # number_groups speakers k speaker). g \<le> x)"
    if "g \<le> k" for k
    using Cons [of k speaker] that by fastforce
  have "number_groups (speaker # speakers) g prior =
      (if prior \<noteq> None \<and> speaker \<noteq> prior then Suc g # number_groups speakers (Suc g) speaker
       else g # number_groups speakers g speaker)"
    by (simp add: Let_def)
  then show ?case using step [of g] step [of "Suc g"] by (auto split: if_splits)
qed simp

lemma speaker_assignments_sorted: "sorted (speaker_assignments E u segs)"
  by (simp add: speaker_assignments_def Let_def number_groups_sorted)

text \<open>A cut lies between two words exactly when their speakers differ.\<close>

lemma number_groups_step:
  "Suc i < length speakers \<Longrightarrow> 
     number_groups speakers g prior ! Suc i =
       number_groups speakers g prior ! i + (if speakers ! i \<noteq> None \<and> speakers ! Suc i \<noteq> speakers ! i then 1 else 0)"
proof (induction speakers arbitrary: i g prior)
  case (Cons speaker speakers)
  show ?case
  proof (cases i)
    case 0
    with Cons.prems obtain sp rest where "speakers = sp # rest" by (cases speakers) auto
    with 0 show ?thesis by (simp add: Let_def)
  next
    case (Suc j)
    with Cons.prems Cons.IH [of j] show ?thesis by (simp add: Let_def)
  qed
qed simp

section \<open>Content\<close>

lemma content_of_append [simp]: "content_of (us @ vs) = content_of us @ content_of vs"
  by (simp add: content_of_def)

lemma content_of_map: "(\<And>u. su_items (f u) = su_items u) \<Longrightarrow> content_of (map f us) = content_of us"
  by (induction us) (simp_all add: content_of_def)

lemma relabel_child_items [simp]: "su_items (relabel_child E segs codes c) = su_items c"
  by (simp add: relabel_child_def Let_def split: option.splits prod.splits)

lemma remap_speaker_items [simp]: "su_items (remap_speaker remap u) = su_items u"
  by (simp add: remap_speaker_def split: option.splits)

lemma relabel_lines_content:
  "content_of (utterances (relabel_lines E segs codes ls)) = content_of (utterances ls)"
proof (induction E segs codes ls rule: relabel_lines.induct)
  case (3 E segs codes u ls)
  have "content_of (utterances (map (\<lambda>c. UtteranceLine (relabel_child E segs codes c)) us)) = content_of us" for us
    using utterances_map [of "map (relabel_child E segs codes) us"] by (simp add: content_of_map comp_def)
  moreover have "content_of (u # us) = content_of [u] @ content_of us" for us
    using content_of_append [of "[u]" us] by simp
  ultimately show ?case
    using 3 split_content_sorted [OF speaker_assignments_sorted [of E u segs], of u]
    by (metis relabel_lines.simps(3) utterances_append utterances.simps(2) content_of_append)
qed simp_all

lemma utterances_participants_header [simp]: "utterances (map (update_participants_header E entries) ls) = utterances ls"
  by (induction ls rule: utterances.induct) (simp_all add: update_participants_header_def)

lemma utterances_headers: "utterances (map (\<lambda>i. HeaderLine (f i)) xs) = []"
  by (induction xs) simp_all

lemma utterances_insert_ids [simp]: "utterances (insert_id_lines E added ls) = utterances ls"
proof (cases "added = []")
  case False
  have "utterances ls = utterances (take n ls) @ utterances (drop n ls)" for n
    using utterances_append [of "take n ls" "drop n ls"] by simp
  with False show ?thesis by (simp add: insert_id_lines_def Let_def utterances_headers)
qed (simp add: insert_id_lines_def)

section \<open>Speakers\<close>

lemma relabel_child_speaker:
  "su_speaker (relabel_child E segs codes c) = su_speaker c \<or> su_speaker (relabel_child E segs codes c) \<in> set (map snd codes)"
proof (cases "utterance_timing_ms E c")
  case (Some se)
  then obtain s e where se: "utterance_timing_ms E c = Some (s, e)" by (metis prod.collapse)
  show ?thesis
  proof (cases "segment_index_at segs (s + (e - s) div 2)")
    case None
    then show ?thesis by (simp add: relabel_child_def se Let_def)
  next
    case (Some i)
    then show ?thesis
      by (cases "map_of codes (ds_speaker (segs ! i))") (force simp: relabel_child_def se Let_def dest: map_of_SomeD)+
  qed
qed (simp add: relabel_child_def)

lemma relabel_lines_speakers:
  "u' \<in> set (utterances (relabel_lines E segs codes ls)) \<Longrightarrow>
     su_speaker u' \<in> su_speaker ` set (utterances ls) \<or> su_speaker u' \<in> set (map snd codes)"
proof (induction E segs codes ls rule: relabel_lines.induct)
  case (3 E segs codes u ls)
  let ?cs = "split_utterance u (speaker_assignments E u segs)"
  have "utterances (map (\<lambda>c. UtteranceLine (relabel_child E segs codes c)) ?cs) = map (relabel_child E segs codes) ?cs"
    using utterances_map [of "map (relabel_child E segs codes) ?cs"] by (simp add: comp_def)
  with 3 consider c where "c \<in> set ?cs" "u' = relabel_child E segs codes c"
    | "u' \<in> set (utterances (relabel_lines E segs codes ls))" by auto
  then show ?case
  proof cases
    case 1
    then have "su_speaker c = su_speaker u" using split_speakers [of u "speaker_assignments E u segs"] by (auto simp: list_all_iff)
    then show ?thesis using 1(2) relabel_child_speaker [of E segs codes c] by auto
  next
    case 2
    then show ?thesis using 3 by auto
  qed
qed simp_all

lemma declare_codes_keys:
  "declare_codes template codes ps = (ps', added) \<Longrightarrow>
     (\<exists>new. ps' = ps @ new) \<and> set codes \<subseteq> fst ` set ps' \<and> (distinct (map fst ps) \<longrightarrow> distinct (map fst ps'))"
proof (induction template codes ps arbitrary: ps' added rule: declare_codes.induct)
  case (2 template code codes ps)
  show ?case
  proof (cases "map_of ps code")
    case None
    then obtain added' where d: "declare_codes template codes (ps @ [(code, diarized_participant template code)]) = (ps', added')"
      using 2(3) by (auto split: prod.splits)
    have "code \<notin> fst ` set ps" using None by (simp add: map_of_eq_None_iff)
    with 2(2) [OF _ d] None show ?thesis by force
  next
    case (Some p)
    then have d: "declare_codes template codes ps = (ps', added)" using 2(3) by simp
    have "code \<in> fst ` set ps" using Some by (force dest: map_of_SomeD)
    with 2(1) [OF _ d] Some show ?thesis by auto
  qed
qed simp

lemma remap_speaker_declared:
  assumes "su_speaker u \<in> set (map fst remap)"
  shows "su_speaker (remap_speaker remap u) \<in> set (map snd remap)"
proof -
  obtain p where "map_of remap (su_speaker u) = Some p"
    using assms by (metis map_of_eq_None_iff not_None_eq set_map)
  then show ?thesis by (force simp: remap_speaker_def dest: map_of_SomeD)
qed

lemma map_fst_remap:
  "map fst (speaker_code_remap declared codes used) = filter (\<lambda>code. mem code used) (map snd codes)"
proof -
  have "map fst (map (\<lambda>(index, code). (code, f index)) (enumerate k xs)) = xs" for f :: "nat \<Rightarrow> 'x" and k and xs :: "'y list"
    by (induction xs arbitrary: k) simp_all
  then show ?thesis by (simp add: speaker_code_remap_def)
qed

text \<open>After the remapping a speaker is one the document had before, or a projected code.\<close>

lemma remapped_speakers:
  fixes E :: "('p, 's) speaker_env" and segs codes ls declared
  defines "new \<equiv> relabel_lines E segs codes ls"
  defines "remap \<equiv> speaker_code_remap declared codes (map su_speaker (utterances new))"
  assumes "u' \<in> set (utterances (map_utts (remap_speaker remap) new))"
  shows "su_speaker u' \<in> su_speaker ` set (utterances ls) \<or> su_speaker u' \<in> set (map snd remap)"
proof -
  obtain u where u: "u \<in> set (utterances new)" and u': "u' = remap_speaker remap u" using assms(3) by auto
  show ?thesis
  proof (cases "su_speaker u \<in> set (map fst remap)")
    case True
    then show ?thesis using remap_speaker_declared u' by blast
  next
    case False
    then have "su_speaker u' = su_speaker u"
      by (auto simp: u' remap_speaker_def map_of_eq_None_iff split: option.splits dest: map_of_SomeD) (force dest: map_of_SomeD)
    moreover have "su_speaker u \<notin> set (map snd codes)"
      using False u by (simp add: remap_def map_fst_remap)
    ultimately show ?thesis using relabel_lines_speakers u unfolding new_def by metis
  qed
qed

section \<open>The relabelling\<close>

text \<open>C27: Diarization changes who speaks and when, not what is said: when the relabelling succeeds, the content items of
  the document but for separators are the same in the same order, the participants are those of before with new ones
  after them and no code twice if there was none, and every utterance's speaker is one some utterance had before or a
  declared participant. It fails only for a document without participants, which has lost its lines then.\<close>

theorem diarization_outcome:
  "case relabel_by_diarization E ps ls segs of
     (Inr _, ps', ls') \<Rightarrow>
       content_of (utterances ls') = content_of (utterances ls) \<and> take (length ps) ps' = ps \<and>
       distinct (map fst ps') = distinct (map fst ps) \<and>
       su_speaker ` set (utterances ls') \<subseteq> su_speaker ` set (utterances ls) \<union> fst ` set ps'
   | (Inl e, ps', ls') \<Rightarrow> ps = [] \<and> ps' = [] \<and> ls' = []"
proof (cases "segs = []")
  case True
  then show ?thesis by (auto simp: relabel_by_diarization_def)
next
  case False
  let ?codes = "speaker_code_map (map fst ps) segs"
  let ?new = "relabel_lines E segs ?codes ls"
  let ?remap = "speaker_code_remap (map fst ps) ?codes (map su_speaker (utterances ?new))"
  let ?final = "map_utts (remap_speaker ?remap) ?new"
  have content: "content_of (utterances ?final) = content_of (utterances ls)"
    by (simp add: content_of_map relabel_lines_content)
  have speakers: "su_speaker ` set (utterances ?final) \<subseteq> su_speaker ` set (utterances ls) \<union> set (map snd ?remap)"
    using remapped_speakers [of _ "map fst ps" ?codes E segs ls] by blast
  show ?thesis
  proof (cases "list_all (\<lambda>code. map_of ps code \<noteq> None) (map snd ?remap)")
    case True
    then have "set (map snd ?remap) \<subseteq> fst ` set ps" by (force simp: list_all_iff dest: map_of_SomeD)
    with speakers have "su_speaker ` set (utterances ?final) \<subseteq> su_speaker ` set (utterances ls) \<union> fst ` set ps" by blast
    then show ?thesis using False True content by (simp add: relabel_by_diarization_def Let_def del: utterances_map_utts set_map)
  next
    case undeclared: False
    show ?thesis
    proof (cases ps)
      case Nil
      then show ?thesis using False undeclared by (simp add: relabel_by_diarization_def Let_def)
    next
      case (Cons p rest)
      obtain c entry template where p: "p = (c, entry, template)" by (metis prod.collapse)
      obtain ps' added where d: "declare_codes template (map snd ?remap) ps = (ps', added)" by (rule prod.exhaust)
      from declare_codes_keys [OF d] obtain new where ps': "ps' = ps @ new" "set (map snd ?remap) \<subseteq> fst ` set ps'"
        "distinct (map fst ps) \<longrightarrow> distinct (map fst ps')" by blast
      have r: "relabel_by_diarization E ps ls segs = (Inr (), ps', insert_id_lines E added
          (map (update_participants_header E (map (fst \<circ> snd) ps')) ?final))"
        using False undeclared d Cons p by (simp add: relabel_by_diarization_def Let_def)
      have "distinct (map fst ps') = distinct (map fst ps)" using ps' by auto
      moreover have "take (length ps) ps' = ps" by (simp add: ps')
      moreover have "su_speaker ` set (utterances ?final) \<subseteq> su_speaker ` set (utterances ls) \<union> fst ` set ps'"
        using speakers ps'(2) by blast
      ultimately show ?thesis using content unfolding r by simp
    qed
  qed
qed

text \<open>
  A declared code that another label's default name equals: with \<open>PAR1\<close> as the only participant, the labels \<open>A\<close> and \<open>B\<close>
  get the same code.
\<close>

lemma diarized_speakers_collide:
  "speaker_code_map [str ''PAR1''] [\<lparr>ds_start = 0, ds_end = 10, ds_speaker = str ''A''\<rparr>,
     \<lparr>ds_start = 11, ds_end = 20, ds_speaker = str ''B''\<rparr>] =
   [(str ''A'', str ''PAR1''), (str ''B'', str ''PAR1'')]"
  by code_simp

end
