(* ===== verification/TierRunners.thy ===== *)
theory TierRunners
  imports Timing
begin

text \<open>
  \<^verbatim>\<open>batchalign-core/src/taskrunners/translate.rs\<close> and \<^verbatim>\<open>taskrunners/coref.rs\<close>: one request for all utterances of a
  document and one user-defined tier for each answer, \<open>%xtra\<close> or \<open>%xcor\<close>. The walk over the words of an utterance (the
  cleaned texts of words and replaced words) belongs to the document crate.
\<close>

section \<open>Inputs\<close>

record translate_input =
  tr_source_id :: rstr
  tr_utterances :: "rstr list"
  tr_source :: language_spec
  tr_target :: rstr

record translate_output =
  to_utterances :: "rstr list"
  to_provider :: "rstr option"

record coref_input =
  co_source_id :: rstr
  co_utterances :: "rstr list"
  co_speakers :: "rstr list"

record coref_output =
  co_annotations :: "rstr list"

record ('a, 's) tier_env =
  te_words :: "'a utt_scheme \<Rightarrow> rstr list"
  te_primary_language :: "'a utt_scheme chat \<Rightarrow> rstr option"
  te_sha :: rstr
  te_now :: nat
  te_translate :: "translate_input \<Rightarrow> 's \<Rightarrow> translate_output task_output ba_result \<times> 's"
  te_coref :: "coref_input \<Rightarrow> 's \<Rightarrow> coref_output task_output ba_result \<times> 's"

definition spoken_text :: "('a, 's) tier_env \<Rightarrow> 'a utt_scheme \<Rightarrow> rstr" where
  "spoken_text E u = join (str '' '') (filter (\<lambda>t. t \<noteq> []) (te_words E u))"

definition translate_text :: "('a, 's) tier_env \<Rightarrow> 'a utt_scheme \<Rightarrow> rstr" where
  "translate_text E u =
     spoken_text E u @ (case ut_terminator u of Some term \<Rightarrow> str '' '' @ term | None \<Rightarrow> [])"

definition utterance_texts :: "('a, 's) tier_env \<Rightarrow> 'a utt_scheme chat \<Rightarrow> rstr list" where
  "utterance_texts E c = map (translate_text E) (utterances (ch_lines c))"

definition collect_inputs :: "('a, 's) tier_env \<Rightarrow> 'a utt_scheme chat \<Rightarrow> rstr list \<times> rstr list" where
  "collect_inputs E c =
     (map (spoken_text E) (utterances (ch_lines c)), map ut_speaker (utterances (ch_lines c)))"

section \<open>Injection\<close>

text \<open>What the two runners differ in: the task, the label of the tier and the words of their errors.\<close>

record tier_stage =
  tg_task :: task
  tg_label :: rstr
  tg_missing :: rstr
  tg_mismatch :: rstr

definition translate_stage :: tier_stage where
  "translate_stage = \<lparr>tg_task = Translate, tg_label = str ''xtra'',
     tg_missing = str ''Translate: missing translation for utterance '',
     tg_mismatch = str ''Translate: utterance/output count mismatch (''\<rparr>"

definition coref_stage :: tier_stage where
  "coref_stage = \<lparr>tg_task = Coref, tg_label = str ''xcor'',
     tg_missing = str ''Coref: missing annotation for utterance '',
     tg_mismatch = str ''Coref: utterance/output count mismatch (''\<rparr>"

definition add_text_tier :: "rstr \<Rightarrow> rstr \<Rightarrow> 'a utt_scheme \<Rightarrow> 'a utt_scheme" where
  "add_text_tier label t u =
     (if trim t = [] then u else u\<lparr>ut_tiers := ut_tiers u @ [UserTier label (trim t)]\<rparr>)"

text \<open>
  The loop over the lines: \<open>total'\<close> is the number of answers, \<open>idx\<close> the number of utterances done, \<open>texts\<close> what is left. It
  returns the final \<open>idx\<close> or the error, the lines as they are then, and the events.
\<close>

fun tier_loop :: "tier_stage \<Rightarrow> rstr \<Rightarrow> nat \<Rightarrow> nat \<Rightarrow> 'a utt_scheme line list \<Rightarrow> rstr list \<Rightarrow>
    nat ba_result \<times> 'a utt_scheme line list \<times> progress_event list" where
  "tier_loop G sid total' idx [] texts = (Inr idx, [], [])"
| "tier_loop G sid total' idx (HeaderLine h # ls) texts =
     (case tier_loop G sid total' idx ls texts of (r, ls', events) \<Rightarrow> (r, HeaderLine h # ls', events))"
| "tier_loop G sid total' idx (UtteranceLine u # ls) [] =
     (Inl (InternalError (tg_missing G @ nat_to_string idx)), UtteranceLine u # ls, [])"
| "tier_loop G sid total' idx (UtteranceLine u # ls) (t # texts) =
     (case tier_loop G sid total' (Suc idx) ls texts of
        (r, ls', events) \<Rightarrow> (r, UtteranceLine (add_text_tier (tg_label G) t u) # ls',
           stage_tick sid (tg_task G) (Suc idx) total' # events))"

definition inject_text_tiers :: "tier_stage \<Rightarrow> 'a utt_scheme chat \<Rightarrow> rstr list \<Rightarrow>
    unit ba_result \<times> 'a utt_scheme chat \<times> progress_event list" where
  "inject_text_tiers G c texts =
     (case tier_loop G (ch_source_id c) (length texts) 0 (ch_lines c) texts of (r, ls', events) \<Rightarrow>
       ((case r of
           Inl e \<Rightarrow> Inl e
         | Inr idx \<Rightarrow>
             if idx \<noteq> length texts
             then Inl (InternalError (tg_mismatch G @ nat_to_string idx @ str '' vs '' @ nat_to_string (length texts) @ str '')''))
             else Inr ()),
        c\<lparr>ch_lines := ls'\<rparr>, events))"

section \<open>The runners\<close>

definition translate_apply_chat :: "('a, 's) tier_env \<Rightarrow> 'a utt_scheme chat \<Rightarrow> 's \<Rightarrow>
    unit ba_result \<times> 'a utt_scheme chat \<times> progress_event list \<times> 's" where
  "translate_apply_chat E c s =
     (let sid = ch_source_id c; events = [stage_started sid Translate]; utts = utterance_texts E c in
      if utts = [] then (Inr (), c, events @ [stage_injected sid Translate], s)
      else
        let request = \<lparr>tr_source_id = sid, tr_utterances = utts,
              tr_source = resolve_per_file_language (te_primary_language E c), tr_target = str ''eng''\<rparr>
        in (case te_translate E request s of (raw, s') \<Rightarrow>
             (case bind_res raw (try_from_output Translate) of
                Inl e \<Rightarrow> (Inl e, c, events, s')
              | Inr answer \<Rightarrow>
                  (case inject_text_tiers translate_stage c (to_utterances answer) of
                     (Inl e, c', ticks) \<Rightarrow> (Inl e, c', events @ ticks, s')
                   | (Inr _, c', ticks) \<Rightarrow>
                       (Inr (),
                        (case to_provider answer of
                           Some provider \<Rightarrow> c'\<lparr>ch_lines := stamp_provenance (te_sha E) (te_now E) (ch_lines c')
                             (str ''translate-provider'') (Some provider)\<rparr>
                         | None \<Rightarrow> c'),
                        events @ ticks @ [stage_injected sid Translate], s')))))"

definition coref_apply_chat :: "('a, 's) tier_env \<Rightarrow> 'a utt_scheme chat \<Rightarrow> 's \<Rightarrow>
    unit ba_result \<times> 'a utt_scheme chat \<times> progress_event list \<times> 's" where
  "coref_apply_chat E c s =
     (let sid = ch_source_id c; events = [stage_started sid Coref]; (utts, speakers) = collect_inputs E c in
      if utts = [] then (Inr (), c, events @ [stage_injected sid Coref], s)
      else
        (case te_coref E \<lparr>co_source_id = sid, co_utterances = utts, co_speakers = speakers\<rparr> s of (raw, s') \<Rightarrow>
           (case bind_res raw (try_from_output Coref) of
              Inl e \<Rightarrow> (Inl e, c, events, s')
            | Inr answer \<Rightarrow>
                (case inject_text_tiers coref_stage c (co_annotations answer) of
                   (Inl e, c', ticks) \<Rightarrow> (Inl e, c', events @ ticks, s')
                 | (Inr _, c', ticks) \<Rightarrow> (Inr (), c', events @ ticks @ [stage_injected sid Coref], s')))))"

text \<open>The match on the value that both runners begin with.\<close>

definition on_chat :: "rstr \<Rightarrow> ('u chat \<Rightarrow> 's \<Rightarrow> unit ba_result \<times> 'u chat \<times> progress_event list \<times> 's) \<Rightarrow>
    'u ba_value \<Rightarrow> 's \<Rightarrow> unit ba_result \<times> 'u ba_value \<times> progress_event list \<times> 's" where
  "on_chat runner apply_chat value s =
     (case value of
        Chat c \<Rightarrow> (case apply_chat c s of (r, c', events, s') \<Rightarrow> (r, Chat c', events, s'))
      | Failed sid e p \<Rightarrow> (Inr (), value, [], s)
      | other \<Rightarrow> (Inl (InternalError (runner @ str '': expected BAValue::Chat, got '' @ value_kind other)), value, [], s))"

definition translate_apply :: "('a, 's) tier_env \<Rightarrow> 'a utt_scheme ba_value \<Rightarrow> 's \<Rightarrow>
    unit ba_result \<times> 'a utt_scheme ba_value \<times> progress_event list \<times> 's" where
  "translate_apply E = on_chat (str ''TranslateTaskRunner'') (translate_apply_chat E)"

definition coref_apply :: "('a, 's) tier_env \<Rightarrow> 'a utt_scheme ba_value \<Rightarrow> 's \<Rightarrow>
    unit ba_result \<times> 'a utt_scheme ba_value \<times> progress_event list \<times> 's" where
  "coref_apply E = on_chat (str ''CorefTaskRunner'') (coref_apply_chat E)"

section \<open>What is written\<close>

definition with_texts :: "rstr \<Rightarrow> 'a utt_scheme list \<Rightarrow> rstr list \<Rightarrow> 'a utt_scheme list" where
  "with_texts label us texts = map (\<lambda>(u, t). add_text_tier label t u) (zip us texts) @ drop (length texts) us"

lemma with_texts_simps [simp]:
  "with_texts label [] texts = []" "with_texts label us [] = us"
  "with_texts label (u # us) (t # texts) = add_text_tier label t u # with_texts label us texts"
  by (simp_all add: with_texts_def)

lemma tier_loop_effect:
  "tier_loop G sid total' idx ls texts = (r, ls', events) \<Longrightarrow>
     frame ls' = frame ls \<and> utterances ls' = with_texts (tg_label G) (utterances ls) texts \<and>
     r = (if length texts < length (utterances ls) then Inl (InternalError (tg_missing G @ nat_to_string (idx + length texts)))
          else Inr (idx + length (utterances ls))) \<and>
     events = map (\<lambda>i. stage_tick sid (tg_task G) i total') [Suc idx..<Suc (idx + min (length texts) (length (utterances ls)))]"
proof (induction G sid total' idx ls texts arbitrary: r ls' events rule: tier_loop.induct)
  case (4 G sid total' idx u ls t texts)
  obtain r1 ls1 ev1 where l: "tier_loop G sid total' (Suc idx) ls texts = (r1, ls1, ev1)" by (metis prod.collapse)
  let ?m = "min (length texts) (length (utterances ls))"
  have split: "[Suc idx..<Suc (idx + Suc ?m)] = Suc idx # [Suc (Suc idx)..<Suc (Suc idx + ?m)]"
    by (subst upt_conv_Cons) simp_all
  have parts: "r = r1" "ls' = UtteranceLine (add_text_tier (tg_label G) t u) # ls1"
    "events = stage_tick sid (tg_task G) (Suc idx) total' # ev1"
    using 4(2) unfolding tier_loop.simps l by simp_all
  from 4(1) [OF l] have IH: "frame ls1 = frame ls" "utterances ls1 = with_texts (tg_label G) (utterances ls) texts"
    "r1 = (if length texts < length (utterances ls) then Inl (InternalError (tg_missing G @ nat_to_string (Suc idx + length texts)))
      else Inr (Suc idx + length (utterances ls)))"
    "ev1 = map (\<lambda>i. stage_tick sid (tg_task G) i total') [Suc (Suc idx)..<Suc (Suc idx + ?m)]"
    by blast+
  have "events = map (\<lambda>i. stage_tick sid (tg_task G) i total')
      [Suc idx..<Suc (idx + min (length (t # texts)) (length (utterances (UtteranceLine u # ls))))]"
    unfolding parts(3) IH(4) utterances.simps list.size(4) add_Suc_right add_0_right min_Suc_Suc split [unfolded add_Suc_right]
    by simp
  then show ?case unfolding parts using IH(1-3) by simp
qed (auto split: prod.splits)

text \<open>The answers of a translation or coreference backend are written one per utterance, in order: whatever their number,
  the header lines and the positions of utterances stay, each utterance that has an answer gets it, trimmed, as one more
  tier at the end unless it is blank, and an event with its number; the stage succeeds exactly when there are as many
  answers as utterances.\<close>

lemma inject_text_tiers_effect:
  "case inject_text_tiers G c texts of (r, c', events) \<Rightarrow>
     (r = Inr () \<longleftrightarrow> length texts = length (utterances (ch_lines c))) \<and>
     ch_source_id c' = ch_source_id c \<and> ch_media c' = ch_media c \<and> frame (ch_lines c') = frame (ch_lines c) \<and>
     utterances (ch_lines c') = with_texts (tg_label G) (utterances (ch_lines c)) texts \<and>
     events = map (\<lambda>i. stage_tick (ch_source_id c) (tg_task G) i (length texts))
       [1..<Suc (min (length texts) (length (utterances (ch_lines c))))]"
proof -
  obtain r ls' events where l: "tier_loop G (ch_source_id c) (length texts) 0 (ch_lines c) texts = (r, ls', events)"
    by (metis prod.collapse)
  show ?thesis using tier_loop_effect [OF l] by (auto simp: inject_text_tiers_def l)
qed

end
