(* ===== verification/PhoneticRunner.thy ===== *)
theory PhoneticRunner
  imports Tasks
begin

text \<open>
  \<^verbatim>\<open>batchalign-core/src/taskrunners/phonetic.rs\<close>: utterances with phonological units, a time and no \<open>%pho\<close> tier are
  sent to the backend in one request; the transcriptions are checked against the units and written as \<open>%pho\<close> tiers.
\<close>

section \<open>Units\<close>

record phonetic_unit =
  pu_text :: rstr
  pu_pause :: bool

record phonetic_utterance =
  ph_index :: nat
  ph_start :: nat
  ph_end :: nat
  ph_units :: "phonetic_unit list"

record phonetic_result =
  pr_index :: nat
  pr_ipa :: "rstr list"

datatype pho_tier = PhoTier "rstr list" | OtherPhoTier rstr

text \<open>
  An utterance as the runner sees it: the items that \<open>collect_tier_items\<close> gives for the \<open>%pho\<close> domain, each with its text
  and its description, and the time of its bullet. The rest of it is \<open>pt_rest\<close>.
\<close>

record 'r pho_utt =
  pt_items :: "(rstr \<times> rstr option) list"
  pt_timing :: "(nat \<times> nat) option"
  pt_tiers :: "pho_tier list"
  pt_rest :: 'r

fun is_pho :: "pho_tier \<Rightarrow> bool" where
  "is_pho (PhoTier ws) = True"
| "is_pho (OtherPhoTier t) = False"

definition unit_of :: "rstr \<times> rstr option \<Rightarrow> phonetic_unit" where
  "unit_of item = \<lparr>pu_text = fst item, pu_pause = (snd item = Some (str ''pause''))\<rparr>"

definition extract_pho :: "nat \<Rightarrow> 'r pho_utt \<Rightarrow> phonetic_utterance option" where
  "extract_pho index u =
     (if list_ex is_pho (pt_tiers u) \<or> pt_items u = [] then None
      else (case pt_timing u of
          Some (s, e) \<Rightarrow> if s < e then Some \<lparr>ph_index = index, ph_start = s, ph_end = e, ph_units = map unit_of (pt_items u)\<rparr>
            else None
        | None \<Rightarrow> None))"

definition extract_line :: "nat \<times> 'r pho_utt line \<Rightarrow> phonetic_utterance option" where
  "extract_line il = (case il of (index, l) \<Rightarrow> (case l of UtteranceLine u \<Rightarrow> extract_pho index u | HeaderLine h \<Rightarrow> None))"

text \<open>An utterance is known to the backend by the index of its line.\<close>

definition extract_pho_utterances :: "'r pho_utt line list \<Rightarrow> phonetic_utterance list" where
  "extract_pho_utterances ls = List.map_filter extract_line (enumerate 0 ls)"

section \<open>English onsets\<close>

text \<open>The stress marks U+02C8 and U+02CC, the aspiration U+02B0, the tie bars U+0361 and U+035C, the esh U+0283 and the script g U+0261.\<close>

definition onset_rules :: "(rstr \<times> rstr) list" where
  "onset_rules =
     [([112, 688], [112]), ([116, 688], [116]), ([107, 688], [107]), ([112], [98]), ([116], [100]), ([107], [609])]"

definition is_affricate :: "rstr \<Rightarrow> bool" where
  "is_affricate onset \<longleftrightarrow>
     starts_with [116, 643] onset \<or> starts_with [116, 865] onset \<or> starts_with [116, 860] onset"

fun replace_onset :: "(rstr \<times> rstr) list \<Rightarrow> rstr \<Rightarrow> rstr" where
  "replace_onset [] onset = onset"
| "replace_onset ((p, replacement) # rules) onset =
     (if starts_with p onset then replacement @ drop (length p) onset else replace_onset rules onset)"

definition is_stress :: "rchar \<Rightarrow> bool" where
  "is_stress c \<longleftrightarrow> c = 712 \<or> c = 716"

definition normalize_english_initial_stop :: "rstr \<Rightarrow> rstr" where
  "normalize_english_initial_stop ipa =
     (let onset = dropWhile is_stress ipa
      in takeWhile is_stress ipa @ (if is_affricate onset then onset else replace_onset onset_rules onset))"

section \<open>Checks and injection\<close>

definition is_control :: "rchar \<Rightarrow> bool" where
  "is_control c \<longleftrightarrow> (0 \<le> c \<and> c < 32) \<or> (127 \<le> c \<and> c < 160)"

text \<open>\<open>pe_debug\<close> is the \<open>{:?}\<close> of a string.\<close>

record ('r, 'p, 's) phonetic_env =
  pe_debug :: "rstr \<Rightarrow> rstr"
  pe_primary_language :: "'r pho_utt chat \<Rightarrow> rstr option"
  pe_validate_output :: "'r pho_utt chat \<Rightarrow> unit ba_result"
  pe_sibling :: "'r pho_utt chat \<Rightarrow> media_input option"
  pe_prepare_pcm :: "media_input \<Rightarrow> rstr + 'p"
  pe_dispatch :: "rstr \<times> 'p \<times> rstr \<times> phonetic_utterance list \<Rightarrow> 's \<Rightarrow>
    phonetic_result list task_output ba_result \<times> (nat \<times> nat) list \<times> 's"

definition ipa_ok :: "phonetic_unit \<Rightarrow> rstr \<Rightarrow> bool" where
  "ipa_ok u ipa \<longleftrightarrow>
     (pu_pause u \<longrightarrow> ipa = pu_text u) \<and> ipa \<noteq> [] \<and> list_all (\<lambda>c. \<not> is_whitespace c \<and> \<not> is_control c) ipa"

fun check_units :: "('r, 'p, 's) phonetic_env \<Rightarrow> phonetic_unit list \<Rightarrow> rstr list \<Rightarrow> unit ba_result" where
  "check_units E (u # us) (ipa # ipas) =
     (if ipa_ok u ipa then check_units E us ipas
      else Inl (WorkerError (str ''phonetic: invalid IPA unit '' @ pe_debug E ipa)))"
| "check_units E us ipas = Inr ()"

definition normalize_units :: "bool \<Rightarrow> phonetic_unit list \<Rightarrow> rstr list \<Rightarrow> rstr list" where
  "normalize_units english us ipas =
     (if english then map (\<lambda>(u, ipa). if pu_pause u then ipa else normalize_english_initial_stop ipa) (zip us ipas)
        @ drop (length us) ipas
      else ipas)"

definition push_pho :: "rstr list \<Rightarrow> 'r pho_utt line \<Rightarrow> 'r pho_utt line" where
  "push_pho tokens l =
     (case l of UtteranceLine u \<Rightarrow> UtteranceLine (u\<lparr>pt_tiers := pt_tiers u @ [PhoTier tokens]\<rparr>) | HeaderLine h \<Rightarrow> l)"

text \<open>The loop over requests and results; the code's \<open>unreachable!\<close> is a line that is not an utterance.\<close>

fun inject_pho :: "('r, 'p, 's) phonetic_env \<Rightarrow> bool \<Rightarrow> phonetic_utterance list \<Rightarrow> phonetic_result list \<Rightarrow>
    'r pho_utt line list \<Rightarrow> 'r pho_utt line list ba_result" where
  "inject_pho E english (input # inputs) (result # results) ls =
     (if pr_index result \<noteq> ph_index input \<or> length (pr_ipa result) \<noteq> length (ph_units input)
      then Inl (WorkerError (str ''phonetic: result unit ownership mismatch''))
      else bind_res (check_units E (ph_units input) (pr_ipa result)) (\<lambda>_.
        inject_pho E english inputs results
          (ls[ph_index input := push_pho (normalize_units english (ph_units input) (pr_ipa result)) (ls ! ph_index input)])))"
| "inject_pho E english inputs results ls = Inr ls"

definition inject_pho_tiers :: "('r, 'p, 's) phonetic_env \<Rightarrow> 'r pho_utt chat \<Rightarrow> phonetic_utterance list \<Rightarrow>
    phonetic_result list \<Rightarrow> 'r pho_utt chat ba_result" where
  "inject_pho_tiers E c inputs results =
     (if length inputs \<noteq> length results
      then Inl (WorkerError (str ''phonetic: utterance/output count mismatch''))
      else bind_res (inject_pho E (pe_primary_language E c = Some (str ''eng'')) inputs results (ch_lines c)) (\<lambda>ls.
        let revised = c\<lparr>ch_lines := ls\<rparr> in
        bind_res (pe_validate_output E revised) (\<lambda>_. Inr revised)))"

section \<open>The runner\<close>

definition phonetic_apply_chat :: "('r, 'p, 's) phonetic_env \<Rightarrow> 'r pho_utt chat \<Rightarrow> 's \<Rightarrow>
    'r pho_utt chat ba_result \<times> progress_event list \<times> 's" where
  "phonetic_apply_chat E c s =
     (let inputs = extract_pho_utterances (ch_lines c); sid = ch_source_id c in
      if inputs = [] then (Inr c, [], s)
      else
        (case (case ch_media c of Some m \<Rightarrow> Some m | None \<Rightarrow> pe_sibling E c) of
           None \<Rightarrow> (Inl (ValidationError (str ''phonetic requires @Media or sibling audio'')), [], s)
         | Some media \<Rightarrow>
             (case pe_prepare_pcm E media of
                Inl m \<Rightarrow> (Inl (InternalError (str ''audio_prep: '' @ m)), [], s)
              | Inr audio \<Rightarrow>
                  let language = (case pe_primary_language E c of Some l \<Rightarrow> l | None \<Rightarrow> []);
                      (progress, floor_event) = start_step (scaled_progress_new sid Phonetic 1);
                      (raw, ticks, s') = pe_dispatch E (sid, audio, language, inputs) s;
                      events = [stage_started sid Phonetic, floor_event] @ map (\<lambda>(i, n). tick progress i n) ticks
                  in (case bind_res (bind_res raw (try_from_output Phonetic)) (inject_pho_tiers E c inputs) of
                        Inl e \<Rightarrow> (Inl e, events, s')
                      | Inr c' \<Rightarrow> (Inr c', events @ [stage_injected sid Phonetic], s')))))"

definition phonetic_apply :: "('r, 'p, 's) phonetic_env \<Rightarrow> 'r pho_utt ba_value \<Rightarrow> 's \<Rightarrow>
    unit ba_result \<times> 'r pho_utt ba_value \<times> progress_event list \<times> 's" where
  "phonetic_apply E value s =
     (case value of
        Chat c \<Rightarrow> (case phonetic_apply_chat E c s of
            (Inl e, events, s') \<Rightarrow> (Inl e, value, events, s')
          | (Inr c', events, s') \<Rightarrow> (Inr (), Chat c', events, s'))
      | Failed sid e p \<Rightarrow> (Inr (), value, [], s)
      | other \<Rightarrow> (Inl (ValidationError (str ''phonetic requires CHAT, got '' @ value_kind other)), value, [], s))"

section \<open>What is written\<close>

definition result_fits :: "phonetic_utterance \<Rightarrow> phonetic_result \<Rightarrow> bool" where
  "result_fits input result \<longleftrightarrow> pr_index result = ph_index input \<and> list_all2 ipa_ok (ph_units input) (pr_ipa result)"

definition written :: "bool \<Rightarrow> phonetic_utterance list \<Rightarrow> phonetic_result list \<Rightarrow> nat \<Rightarrow> 'r pho_utt line \<Rightarrow> 'r pho_utt line" where
  "written english inputs results i l =
     (case map_of (zip (map ph_index inputs) (zip inputs results)) i of
        None \<Rightarrow> l
      | Some (input, result) \<Rightarrow> push_pho (normalize_units english (ph_units input) (pr_ipa result)) l)"

lemma check_units_ok: "length us = length ipas \<Longrightarrow> (check_units E us ipas = Inr ()) = list_all2 ipa_ok us ipas"
  by (induction us ipas rule: list_induct2) auto

lemma written_keys:
  "length inputs = length results \<Longrightarrow> fst ` set (zip (map f inputs) (zip inputs results)) = f ` set inputs"
  by (induction inputs results rule: list_induct2) simp_all

lemma inject_pho_effect:
  assumes "length inputs = length results" and "distinct (map ph_index inputs)"
    and "\<forall>input \<in> set inputs. ph_index input < length ls" and "inject_pho E english inputs results ls = Inr ls'"
  shows "list_all2 result_fits inputs results \<and> length ls' = length ls \<and>
    (\<forall>i < length ls. ls' ! i = written english inputs results i (ls ! i))"
  using assms
proof (induction inputs results arbitrary: ls rule: list_induct2)
  case Nil
  then show ?case by (simp add: written_def)
next
  case (Cons input inputs result results)
  let ?tokens = "normalize_units english (ph_units input) (pr_ipa result)"
  let ?ls = "ls[ph_index input := push_pho ?tokens (ls ! ph_index input)]"
  from Cons.prems have own: "pr_index result = ph_index input" "length (pr_ipa result) = length (ph_units input)"
    and checked: "check_units E (ph_units input) (pr_ipa result) = Inr ()"
    and rest: "inject_pho E english inputs results ?ls = Inr ls'"
    by (auto simp: bind_res_Inr_iff split: if_splits)
  from Cons.IH [of ?ls] Cons.prems rest
  have IH: "list_all2 result_fits inputs results" "length ls' = length ls"
    "\<And>i. i < length ls \<Longrightarrow> ls' ! i = written english inputs results i (?ls ! i)" by auto
  have fits: "result_fits input result" using own checked by (simp add: result_fits_def check_units_ok)
  have fresh: "map_of (zip (map ph_index inputs) (zip inputs results)) (ph_index input) = None"
    using Cons.prems(1) Cons.hyps by (simp add: map_of_eq_None_iff written_keys)
  have "ls' ! i = written english (input # inputs) (result # results) i (ls ! i)" if "i < length ls" for i
    using IH(3) [OF that] fresh that by (cases "i = ph_index input") (auto simp: written_def)
  with IH(1,2) fits show ?case by simp
qed

lemma extract_line_index: "extract_line (i, l) = Some input \<Longrightarrow> ph_index input = i"
  by (auto simp: extract_line_def extract_pho_def split: line.splits option.splits if_splits)

lemma extract_from:
  "set (List.map_filter extract_line (enumerate k ls)) = {input. \<exists>i < length ls. extract_line (k + i, ls ! i) = Some input} \<and>
   distinct (map ph_index (List.map_filter extract_line (enumerate k ls)))"
proof (induction ls arbitrary: k)
  case (Cons l ls)
  have "\<forall>input \<in> set (List.map_filter extract_line (enumerate (Suc k) ls)). k < ph_index input"
    using Cons [of "Suc k"] by (auto dest: extract_line_index)
  moreover have "{input. \<exists>i < length (l # ls). extract_line (k + i, (l # ls) ! i) = Some input} =
      {input. extract_line (k, l) = Some input} \<union> {input. \<exists>i < length ls. extract_line (Suc k + i, ls ! i) = Some input}"
    by (auto simp: less_Suc_eq_0_disj)
  ultimately show ?case
    using Cons [of "Suc k"] extract_line_index [of k l]
    by (cases "extract_line (k, l)") (auto simp: List.map_filter_simps)
qed (simp add: List.map_filter_simps)

lemma extract_line_pushed: "extract_line (i, push_pho tokens l) = None"
  by (simp add: extract_line_def push_pho_def extract_pho_def split: line.splits)

text \<open>The phonetic stage writes all transcriptions or none. When it succeeds every answer has the index of its request and
  one acceptable transcription for each of its units (a pause its own text), the lines keep their positions, exactly the
  lines that were asked about have one more \<open>%pho\<close> tier, with the transcriptions of their units, and a second run finds
  nothing to ask.\<close>

lemma phonetic_tiers_outcome:
  "let inputs = extract_pho_utterances (ch_lines c) in
   case inject_pho_tiers E c inputs results of
     Inl e \<Rightarrow> True
   | Inr c' \<Rightarrow>
       list_all2 result_fits inputs results \<and> ch_source_id c' = ch_source_id c \<and> ch_media c' = ch_media c \<and>
       ch_lines c' = map (\<lambda>(i, l). written (pe_primary_language E c = Some (str ''eng'')) inputs results i l)
         (enumerate 0 (ch_lines c)) \<and>
       extract_pho_utterances (ch_lines c') = []"
proof -
  let ?inputs = "extract_pho_utterances (ch_lines c)"
  let ?en = "pe_primary_language E c = Some (str ''eng'')"
  show ?thesis
  proof (cases "inject_pho_tiers E c ?inputs results")
    case (Inr c')
    then have len: "length ?inputs = length results"
      and inj: "inject_pho E ?en ?inputs results (ch_lines c) = Inr (ch_lines c')"
      and same: "ch_source_id c' = ch_source_id c" "ch_media c' = ch_media c"
      by (auto simp: inject_pho_tiers_def bind_res_Inr_iff Let_def split: if_splits)
    note ex = extract_from [of 0 "ch_lines c", folded extract_pho_utterances_def]
    have "\<forall>input \<in> set ?inputs. ph_index input < length (ch_lines c)"
      using ex by (auto dest: extract_line_index)
    from inject_pho_effect [OF len _ this inj] ex
    have eff: "list_all2 result_fits ?inputs results" "length (ch_lines c') = length (ch_lines c)"
      "\<And>i. i < length (ch_lines c) \<Longrightarrow> ch_lines c' ! i = written ?en ?inputs results i (ch_lines c ! i)" by blast+
    then have lines: "ch_lines c' = map (\<lambda>(i, l). written ?en ?inputs results i l) (enumerate 0 (ch_lines c))"
      by (intro nth_equalityI) (simp_all add: nth_enumerate_eq)
    have "extract_line (i, ch_lines c' ! i) = None" if i: "i < length (ch_lines c)" for i
    proof (cases "map_of (zip (map ph_index ?inputs) (zip ?inputs results)) i")
      case None
      then have "i \<notin> ph_index ` set ?inputs" using len by (simp add: map_of_eq_None_iff written_keys)
      then have "extract_line (i, ch_lines c ! i) = None"
        using ex i by (cases "extract_line (i, ch_lines c ! i)") (force dest: extract_line_index)+
      with None show ?thesis by (simp add: eff(3) [OF i] written_def)
    next
      case (Some p)
      then show ?thesis by (simp add: eff(3) [OF i] written_def extract_line_pushed split: prod.splits)
    qed
    then have "set (extract_pho_utterances (ch_lines c')) = {}"
      using extract_from [of 0 "ch_lines c'"] eff(2) by (auto simp: extract_pho_utterances_def)
    then have "extract_pho_utterances (ch_lines c') = []" by simp
    with eff(1) same lines Inr show ?thesis by (simp add: Let_def)
  qed (simp add: Let_def)
qed

end
