(* ===== verification/MorRunner.thy ===== *)
theory MorRunner
  imports Timing "HOL-Library.List_Lexorder"
begin

text \<open>
  \<^verbatim>\<open>batchalign-core/src/taskrunners/morphosyntax.rs\<close>: the runner that gives utterances their \<open>%mor\<close> and \<open>%gra\<close> tiers. The
  document crate extracts the words of an utterance, joins the two tiers (\<open>try_align_mor_gra\<close>) and checks a \<open>%mor\<close> tier
  against its main tier (\<open>align_main_to_mor\<close>); these are arguments. Tracing is left out.
\<close>

section \<open>Requests and answers\<close>

record mor_unit =
  mu_pos :: rstr
  mu_lemma :: rstr
  mu_features :: "rstr list"
  mu_index :: nat
  mu_head :: nat
  mu_deprel :: rstr

record mor_token =
  mt_text :: rstr
  mt_units :: "mor_unit list"

record gra_terminator =
  gt_index :: nat
  gt_head :: nat
  gt_deprel :: rstr

record mor_input =
  mx_source_id :: rstr
  mx_utterance_id :: nat
  mx_language :: language_spec
  mx_tokens :: "rstr list"
  mx_retokenize :: bool
  mx_text :: rstr

record mor_output =
  my_utterance_id :: nat
  my_tokens :: "mor_token list"
  my_terminator :: "gra_terminator option"

section \<open>Tiers and utterances\<close>

record mor_word =
  mw_pos :: rstr
  mw_stem :: rstr
  mw_features :: "rstr list"

record mor_item =
  mm_main :: mor_word
  mm_clitics :: "mor_word list"

record gra_relation =
  gr_index :: nat
  gr_head :: nat
  gr_relation :: rstr

datatype ('m, 'g) mor_dep = MorDep 'm | GraDep 'g | UserDep rstr rstr | OtherDep rstr

text \<open>A word of the \<open>%mor\<close> domain: its surface, and whether its language is that of the utterance (no word-level mark).\<close>

record ('m, 'g, 'r) mor_utt =
  mv_words :: "(rstr \<times> bool) list"
  mv_language :: "rstr option"
  mv_terminator :: "rstr option"
  mv_tiers :: "('m, 'g) mor_dep list"
  mv_rest :: 'r

record ('m, 'g, 'r, 's) mor_env =
  me_is_ca :: "('m, 'g, 'r) mor_utt chat \<Rightarrow> bool"
  me_primary_language :: "('m, 'g, 'r) mor_utt chat \<Rightarrow> rstr option"
  me_try_align :: "mor_item list \<Rightarrow> gra_relation list \<Rightarrow> rstr \<times> gra_relation \<Rightarrow> rstr + 'm \<times> 'g"
  me_main_aligned :: "('m, 'g, 'r) mor_utt \<Rightarrow> 'm \<Rightarrow> bool"
  me_dispatch :: "mor_input \<Rightarrow> 's \<Rightarrow> mor_output task_output ba_result \<times> (nat \<times> nat) list \<times> 's"
  me_buffered :: "nat \<Rightarrow> (mor_input \<Rightarrow> scaled_progress \<times> progress_event list \<times> 's \<Rightarrow>
      (nat \<times> mor_output) ba_result \<times> scaled_progress \<times> progress_event list \<times> 's) \<Rightarrow> mor_input list \<Rightarrow>
    scaled_progress \<times> progress_event list \<times> 's \<Rightarrow>
    (nat \<times> mor_output) list ba_result \<times> scaled_progress \<times> progress_event list \<times> 's"

section \<open>Languages\<close>

definition SUPPORTED_STANZA_CODES :: "rstr list" where
  "SUPPORTED_STANZA_CODES = map str
     [''afr'', ''ara'', ''bul'', ''cat'', ''ces'', ''cmn'', ''cym'', ''dan'', ''deu'', ''ell'', ''eng'', ''est'', ''eus'',
      ''fas'', ''fin'', ''fra'', ''gla'', ''gle'', ''glg'', ''heb'', ''hin'', ''hrv'', ''hun'', ''hye'', ''ind'', ''isl'',
      ''ita'', ''jpn'', ''kat'', ''kaz'', ''kor'', ''lat'', ''lav'', ''lit'', ''mlt'', ''nld'', ''nor'', ''pol'', ''por'', ''ron'',
      ''rus'', ''slk'', ''slv'', ''spa'', ''swe'', ''tam'', ''tel'', ''tha'', ''tur'', ''ukr'', ''urd'', ''vie'', ''yue'',
      ''zho'']"

text \<open>\<open>slice::binary_search\<close> between two bounds: whether the halving finds the key.\<close>

function bsearch :: "'a::linorder list \<Rightarrow> 'a \<Rightarrow> nat \<Rightarrow> nat \<Rightarrow> bool" where
  "bsearch xs x lo hi =
     (if hi \<le> lo then False
      else let mid = lo + (hi - lo) div 2 in
        if xs ! mid = x then True
        else if xs ! mid < x then bsearch xs x (Suc mid) hi
        else bsearch xs x lo mid)"
  by pat_completeness auto

termination
  by (relation "measure (\<lambda>(xs, x, lo, hi). hi - lo)") auto

declare bsearch.simps [simp del]

definition is_stanza_supported :: "rstr \<Rightarrow> bool" where
  "is_stanza_supported language = bsearch SUPPORTED_STANZA_CODES language 0 (length SUPPORTED_STANZA_CODES)"

section \<open>The batch\<close>

fun is_mor_dep :: "('m, 'g) mor_dep \<Rightarrow> bool" where
  "is_mor_dep (MorDep m) = True"
| "is_mor_dep (UserDep label content) = (label = str ''mor'')"
| "is_mor_dep t = False"

definition utterance_has_mor_tier :: "('m, 'g, 'r) mor_utt \<Rightarrow> bool" where
  "utterance_has_mor_tier u = list_ex is_mor_dep (mv_tiers u)"

definition resolve_utterance_language :: "('m, 'g, 'r) mor_utt \<Rightarrow> language_spec \<Rightarrow> language_spec" where
  "resolve_utterance_language u default_language =
     (case mv_language u of Some code \<Rightarrow> LangCode code | None \<Rightarrow> default_language)"

definition mor_text :: "('m, 'g, 'r) mor_utt \<Rightarrow> rstr" where
  "mor_text u = join (str '' '') (map (\<lambda>(surface, own). if own then surface else surface @ str ''@s'') (mv_words u))"

definition extract_input :: "rstr \<Rightarrow> language_spec \<Rightarrow> nat \<times> ('m, 'g, 'r) mor_utt \<Rightarrow> mor_input" where
  "extract_input sid default_language iu = (case iu of (utterance_id, u) \<Rightarrow>
     \<lparr>mx_source_id = sid, mx_utterance_id = utterance_id mod 2 ^ 32,
      mx_language = resolve_utterance_language u default_language,
      mx_tokens = map fst (mv_words u), mx_retokenize = False, mx_text = mor_text u\<rparr>)"

definition unsupported_language_message :: "rstr \<Rightarrow> rstr" where
  "unsupported_language_message primary =
     str ''morphotag: primary @Languages '' @ [39] @ primary @ [39] @ str '' is not supported by Stanza. '' @
     str ''Fix the @Languages header to use a supported ISO-639-3 code and re-run. '' @
     str ''Supported codes: '' @ join (str '', '') SUPPORTED_STANZA_CODES @ str ''.''"

definition untagged :: "('m, 'g, 'r) mor_utt list \<Rightarrow> (nat \<times> ('m, 'g, 'r) mor_utt) list" where
  "untagged us = filter (\<lambda>(i, u). \<not> utterance_has_mor_tier u) (enumerate 0 us)"

definition morphotag_batch_new ::
  "('m, 'g, 'r, 's) mor_env \<Rightarrow> ('m, 'g, 'r) mor_utt chat \<Rightarrow> mor_input list ba_result" where
  "morphotag_batch_new E c =
     (case me_primary_language E c of
        Some primary \<Rightarrow>
          if \<not> is_stanza_supported primary then Inl (ValidationError (unsupported_language_message primary))
          else Inr (map (extract_input (ch_source_id c) (LangCode primary)) (untagged (utterances (ch_lines c))))
      | None \<Rightarrow> Inr (map (extract_input (ch_source_id c) LangPerFile) (untagged (utterances (ch_lines c)))))"

text \<open>One future of the stream.\<close>

definition mor_future :: "('m, 'g, 'r, 's) mor_env \<Rightarrow> mor_input \<Rightarrow> scaled_progress \<times> progress_event list \<times> 's \<Rightarrow>
    (nat \<times> mor_output) ba_result \<times> scaled_progress \<times> progress_event list \<times> 's" where
  "mor_future E request state = (case state of (progress, events, s) \<Rightarrow>
     let (progress', floor_event) = start_step progress;
         (raw, ticks, s') = me_dispatch E request s
     in (bind_res (bind_res raw (try_from_output Morphosyntax)) (\<lambda>out. Inr (mx_utterance_id request, out)),
         progress', events @ [floor_event] @ map (\<lambda>(i, n). tick progress' i n) ticks, s'))"

definition MORPHOTAG_DISPATCH_WINDOW :: nat where
  "MORPHOTAG_DISPATCH_WINDOW = 128"

section \<open>Building tiers\<close>

definition build_mor_word :: "mor_unit \<Rightarrow> mor_word" where
  "build_mor_word u =
     \<lparr>mw_pos = mu_pos u, mw_stem = mu_lemma u, mw_features = filter (\<lambda>feat. feat \<noteq> []) (mu_features u)\<rparr>"

definition build_relation :: "mor_unit \<Rightarrow> gra_relation" where
  "build_relation u = \<lparr>gr_index = mu_index u, gr_head = mu_head u, gr_relation = mu_deprel u\<rparr>"

definition build_mor :: "mor_token \<Rightarrow> (mor_item \<times> gra_relation list) option" where
  "build_mor tok =
     (case mt_units tok of
        [] \<Rightarrow> None
      | main # clitics \<Rightarrow>
          Some (\<lparr>mm_main = build_mor_word main, mm_clitics = map build_mor_word clitics\<rparr>,
                build_relation main # map build_relation clitics))"

definition build_tiers :: "('m, 'g, 'r, 's) mor_env \<Rightarrow> mor_output \<Rightarrow> rstr \<Rightarrow> ('m \<times> 'g) option ba_result" where
  "build_tiers E out terminator =
     (if my_tokens out = [] then Inr None
      else
        (case my_terminator out of
           None \<Rightarrow> Inr None
         | Some term \<Rightarrow>
             let built = List.map_filter build_mor (my_tokens out) in
             if built = [] then Inr None
             else
               (case me_try_align E (map fst built) (concat (map snd built))
                   (terminator, \<lparr>gr_index = gt_index term, gr_head = gt_head term, gr_relation = gt_deprel term\<rparr>) of
                  Inl e \<Rightarrow> Inl (InternalError (str ''mor/gra alignment failed (utterance '' @
                    nat_to_string (my_utterance_id out) @ str ''): '' @ e))
                | Inr tiers \<Rightarrow> Inr (Some tiers))))"

section \<open>Injection\<close>

record inject_stats =
  is_injected :: nat
  is_skipped_empty :: nat
  is_skipped_mismatch :: nat

definition main_terminator :: "('m, 'g, 'r) mor_utt \<Rightarrow> rstr" where
  "main_terminator u = (case mv_terminator u of Some t \<Rightarrow> t | None \<Rightarrow> str ''.'')"

definition push_mor_gra :: "'m \<Rightarrow> 'g \<Rightarrow> ('m, 'g, 'r) mor_utt \<Rightarrow> ('m, 'g, 'r) mor_utt" where
  "push_mor_gra m g u = u\<lparr>mv_tiers := mv_tiers u @ [MorDep m, GraDep g]\<rparr>"

text \<open>The loop over the lines, with the utterances done so far; lines already changed stay changed on an error.\<close>

fun inject_mor_loop :: "('m, 'g, 'r, 's) mor_env \<Rightarrow> (nat \<rightharpoonup> mor_output) \<Rightarrow> nat \<Rightarrow> inject_stats \<Rightarrow>
    ('m, 'g, 'r) mor_utt line list \<Rightarrow> inject_stats ba_result \<times> ('m, 'g, 'r) mor_utt line list" where
  "inject_mor_loop E by_idx utt_idx stats [] = (Inr stats, [])"
| "inject_mor_loop E by_idx utt_idx stats (HeaderLine h # ls) =
     (case inject_mor_loop E by_idx utt_idx stats ls of (r, ls') \<Rightarrow> (r, HeaderLine h # ls'))"
| "inject_mor_loop E by_idx utt_idx stats (UtteranceLine u # ls) =
     (case by_idx utt_idx of
        None \<Rightarrow> (case inject_mor_loop E by_idx (Suc utt_idx) stats ls of (r, ls') \<Rightarrow> (r, UtteranceLine u # ls'))
      | Some out \<Rightarrow>
          (case build_tiers E out (main_terminator u) of
             Inl e \<Rightarrow> (Inl e, UtteranceLine u # ls)
           | Inr None \<Rightarrow>
               (case inject_mor_loop E by_idx (Suc utt_idx) (stats\<lparr>is_skipped_empty := Suc (is_skipped_empty stats)\<rparr>) ls of
                  (r, ls') \<Rightarrow> (r, UtteranceLine u # ls'))
           | Inr (Some (m, g)) \<Rightarrow>
               if \<not> me_main_aligned E u m
               then (case inject_mor_loop E by_idx (Suc utt_idx) (stats\<lparr>is_skipped_mismatch := Suc (is_skipped_mismatch stats)\<rparr>) ls of
                  (r, ls') \<Rightarrow> (r, UtteranceLine u # ls'))
               else (case inject_mor_loop E by_idx (Suc utt_idx) (stats\<lparr>is_injected := Suc (is_injected stats)\<rparr>) ls of
                  (r, ls') \<Rightarrow> (r, UtteranceLine (push_mor_gra m g u) # ls'))))"

definition no_stats :: inject_stats where
  "no_stats = \<lparr>is_injected = 0, is_skipped_empty = 0, is_skipped_mismatch = 0\<rparr>"

definition inject_mor_gra_tiers_selective :: "('m, 'g, 'r, 's) mor_env \<Rightarrow> ('m, 'g, 'r) mor_utt chat \<Rightarrow>
    (nat \<times> mor_output) list \<Rightarrow> inject_stats ba_result \<times> ('m, 'g, 'r) mor_utt chat" where
  "inject_mor_gra_tiers_selective E c outputs =
     (case inject_mor_loop E (map_of (rev outputs)) 0 no_stats (ch_lines c) of (r, ls) \<Rightarrow> (r, c\<lparr>ch_lines := ls\<rparr>))"

section \<open>The runner\<close>

definition process_chat :: "('m, 'g, 'r, 's) mor_env \<Rightarrow> ('m, 'g, 'r) mor_utt chat \<Rightarrow> 's \<Rightarrow>
    unit ba_result \<times> ('m, 'g, 'r) mor_utt chat \<times> progress_event list \<times> 's" where
  "process_chat E c s =
     (let sid = ch_source_id c; events = [stage_started sid Morphosyntax] in
      if me_is_ca E c then (Inr (), c, events @ [stage_injected sid Morphosyntax], s)
      else
        (case morphotag_batch_new E c of
           Inl e \<Rightarrow> (Inl e, c, events, s)
         | Inr batch \<Rightarrow>
             (case me_buffered E MORPHOTAG_DISPATCH_WINDOW (mor_future E) batch
                 (scaled_progress_new sid Morphosyntax (length batch), events, s) of
                (Inl e, progress, events', s') \<Rightarrow> (Inl e, c, events', s')
              | (Inr dispatched, progress, events', s') \<Rightarrow>
                  (case inject_mor_gra_tiers_selective E c dispatched of
                     (Inl e, c') \<Rightarrow> (Inl e, c', events' @ [finish_progress progress], s')
                   | (Inr stats, c') \<Rightarrow>
                       (Inr (), c', events' @ [finish_progress progress, stage_injected sid Morphosyntax], s')))))"

definition mor_apply :: "('m, 'g, 'r, 's) mor_env \<Rightarrow> ('m, 'g, 'r) mor_utt ba_value \<Rightarrow> 's \<Rightarrow>
    unit ba_result \<times> ('m, 'g, 'r) mor_utt ba_value \<times> progress_event list \<times> 's" where
  "mor_apply E value s =
     (case value of
        Chat c \<Rightarrow> (case process_chat E c s of (r, c', events, s') \<Rightarrow> (r, Chat c', events, s'))
      | Paired p \<Rightarrow>
          (case process_chat E (pr_main p) s of
             (Inl e, main', events, s') \<Rightarrow> (Inl e, Paired (p\<lparr>pr_main := main'\<rparr>), events, s')
           | (Inr _, main', events, s') \<Rightarrow>
               (case process_chat E (pr_gold p) s' of
                  (r, gold', events', s'') \<Rightarrow>
                    (r, Paired (p\<lparr>pr_main := main', pr_gold := gold'\<rparr>), events @ events', s'')))
      | Failed sid e p \<Rightarrow> (Inr (), value, [], s)
      | other \<Rightarrow> (Inl (InternalError
          (str ''Morphosyntax expects BAValue::Chat or BAValue::Paired, got '' @ value_kind other)), value, [], s))"

end
