(* ===== verification/MorRunnerLaws.thy ===== *)
theory MorRunnerLaws
  imports MorRunner
begin

text \<open>What the morphosyntax runner promises: which languages it takes, which utterances get tiers, and what a second run does.\<close>

section \<open>Supported languages\<close>

lemma bsearch_correct:
  "sorted xs \<Longrightarrow> hi \<le> length xs \<Longrightarrow> bsearch xs x lo hi \<longleftrightarrow> (\<exists>i. lo \<le> i \<and> i < hi \<and> xs ! i = x)"
proof (induction xs x lo hi rule: bsearch.induct)
  case (1 xs x lo hi)
  show ?case
  proof (cases "hi \<le> lo")
    case True
    then show ?thesis by (simp add: bsearch.simps [of xs x lo hi])
  next
    case False
    let ?mid = "lo + (hi - lo) div 2"
    have mid: "lo \<le> ?mid" "?mid < hi" using False by auto
    note mono = sorted_nth_mono [OF 1(3)]
    consider "xs ! ?mid = x" | "xs ! ?mid < x" | "x < xs ! ?mid" by (rule linorder_cases)
    then show ?thesis
    proof cases
      case 1
      then have "\<exists>i. lo \<le> i \<and> i < hi \<and> xs ! i = x" using mid by blast
      then show ?thesis using 1 False by (simp add: bsearch.simps [of xs x lo hi] Let_def)
    next
      case 2
      have "Suc ?mid \<le> i" if "i < hi" "xs ! i = x" for i
      proof (rule ccontr)
        assume "\<not> Suc ?mid \<le> i"
        then have "i \<le> ?mid" by simp
        moreover have "?mid < length xs" using mid 1(4) by simp
        ultimately have "xs ! i \<le> xs ! ?mid" by (rule mono)
        with 2 that show False by simp
      qed
      note right = this
      have "(\<exists>i. Suc ?mid \<le> i \<and> i < hi \<and> xs ! i = x) \<longleftrightarrow> (\<exists>i. lo \<le> i \<and> i < hi \<and> xs ! i = x)"
      proof (intro iffI; elim exE conjE)
        fix i assume i: "Suc ?mid \<le> i" "i < hi" "xs ! i = x"
        then have "lo \<le> i" by linarith
        with i show "\<exists>i. lo \<le> i \<and> i < hi \<and> xs ! i = x" by blast
      next
        fix i assume "lo \<le> i" "i < hi" "xs ! i = x"
        then show "\<exists>i. Suc ?mid \<le> i \<and> i < hi \<and> xs ! i = x" using right by blast
      qed
      moreover have "bsearch xs x lo hi = bsearch xs x (Suc ?mid) hi"
        using 2 False by (subst bsearch.simps) (simp add: Let_def less_le)
      ultimately show ?thesis using 1(1) [OF False refl _ 2 1(3,4)] 2 by simp
    next
      case 3
      have "i < ?mid" if "i < hi" "xs ! i = x" for i
      proof (rule ccontr)
        assume "\<not> i < ?mid"
        then have "?mid \<le> i" by simp
        moreover have "i < length xs" using that 1(4) by simp
        ultimately have "xs ! ?mid \<le> xs ! i" by (rule mono)
        with 3 that show False by simp
      qed
      note left = this
      have "(\<exists>i. lo \<le> i \<and> i < ?mid \<and> xs ! i = x) \<longleftrightarrow> (\<exists>i. lo \<le> i \<and> i < hi \<and> xs ! i = x)"
      proof (intro iffI; elim exE conjE)
        fix i assume i: "lo \<le> i" "i < ?mid" "xs ! i = x"
        then have "i < hi" using mid by linarith
        with i show "\<exists>i. lo \<le> i \<and> i < hi \<and> xs ! i = x" by blast
      next
        fix i assume "lo \<le> i" "i < hi" "xs ! i = x"
        then show "\<exists>i. lo \<le> i \<and> i < ?mid \<and> xs ! i = x" using left by blast
      qed
      moreover have "bsearch xs x lo hi = bsearch xs x lo ?mid"
        using 3 False by (subst bsearch.simps) (auto simp: Let_def)
      moreover have "?mid \<le> length xs" using mid 1(4) by simp
      ultimately show ?thesis using 1(2) [OF False refl _ _ 1(3)] 3 by simp
    qed
  qed
qed

lemma supported_sorted: "sorted SUPPORTED_STANZA_CODES"
  by code_simp

text \<open>The binary search decides membership: a language is supported exactly when it is one of the listed codes (the list
  is in order, as the search needs).\<close>

lemma stanza_support_is_membership: "is_stanza_supported language = mem language SUPPORTED_STANZA_CODES"
  using bsearch_correct [OF supported_sorted, of "length SUPPORTED_STANZA_CODES" language 0]
  by (auto simp: is_stanza_supported_def in_set_conv_nth)

section \<open>Injection\<close>

definition got_tiers :: "('m, 'g, 'r, 's) mor_env \<Rightarrow> mor_output \<Rightarrow> ('m, 'g, 'r) mor_utt \<Rightarrow> ('m \<times> 'g) option" where
  "got_tiers E out u =
     (case build_tiers E out (main_terminator u) of
        Inr (Some (m, g)) \<Rightarrow> if me_main_aligned E u m then Some (m, g) else None
      | _ \<Rightarrow> None)"

definition tagged :: "('m, 'g, 'r, 's) mor_env \<Rightarrow> (nat \<rightharpoonup> mor_output) \<Rightarrow> nat \<times> ('m, 'g, 'r) mor_utt \<Rightarrow> ('m, 'g, 'r) mor_utt" where
  "tagged E by_idx iu = (case iu of (i, u) \<Rightarrow>
     (case Option.bind (by_idx i) (\<lambda>out. got_tiers E out u) of
        Some (m, g) \<Rightarrow> push_mor_gra m g u | None \<Rightarrow> u))"

definition stats_total :: "inject_stats \<Rightarrow> nat" where
  "stats_total st = is_injected st + is_skipped_empty st + is_skipped_mismatch st"

definition answered :: "(nat \<rightharpoonup> mor_output) \<Rightarrow> nat \<Rightarrow> 'u list \<Rightarrow> nat" where
  "answered by_idx k us = length (filter (\<lambda>(i, u). by_idx i \<noteq> None) (enumerate k us))"

text \<open>
  Success: every utterance as \<open>tagged\<close> says, and each answer counted. Failure: an utterance whose answer cannot be aligned,
  the ones before it tagged, the rest as it was.
\<close>

definition inject_spec :: "('m, 'g, 'r, 's) mor_env \<Rightarrow> (nat \<rightharpoonup> mor_output) \<Rightarrow> nat \<Rightarrow> inject_stats \<Rightarrow>
    ('m, 'g, 'r) mor_utt list \<Rightarrow> inject_stats ba_result \<Rightarrow> ('m, 'g, 'r) mor_utt list \<Rightarrow> bool" where
  "inject_spec E by_idx k st us r us' \<longleftrightarrow>
     (case r of
        Inr st' \<Rightarrow> us' = map (tagged E by_idx) (enumerate k us) \<and> stats_total st' = stats_total st + answered by_idx k us
      | Inl e \<Rightarrow> \<exists>n < length us. \<exists>out. by_idx (k + n) = Some out \<and> build_tiers E out (main_terminator (us ! n)) = Inl e \<and>
          us' = map (tagged E by_idx) (take n (enumerate k us)) @ drop n us)"

lemma inject_spec_Cons:
  assumes "inject_spec E by_idx (Suc k) st' us r us'"
    and "stats_total st' = stats_total st + (if by_idx k = None then 0 else 1)" and "u' = tagged E by_idx (k, u)"
  shows "inject_spec E by_idx k st (u # us) r (u' # us')"
proof (cases r)
  case (Inr st'')
  then show ?thesis using assms by (simp add: inject_spec_def answered_def)
next
  case (Inl e)
  with assms obtain n out where "n < length us" "by_idx (Suc k + n) = Some out"
    "build_tiers E out (main_terminator (us ! n)) = Inl e"
    "us' = map (tagged E by_idx) (take n (enumerate (Suc k) us)) @ drop n us"
    by (auto simp: inject_spec_def)
  then have "Suc n < length (u # us) \<and> by_idx (k + Suc n) = Some out \<and>
      build_tiers E out (main_terminator ((u # us) ! Suc n)) = Inl e \<and>
      u' # us' = map (tagged E by_idx) (take (Suc n) (enumerate k (u # us))) @ drop (Suc n) (u # us)"
    using assms(3) by simp
  then show ?thesis unfolding inject_spec_def Inl sum.case by blast
qed

lemma inject_mor_loop_spec:
  "inject_mor_loop E by_idx k st ls = (r, ls') \<Longrightarrow>
     frame ls' = frame ls \<and> inject_spec E by_idx k st (utterances ls) r (utterances ls')"
proof (induction E by_idx k st ls arbitrary: r ls' rule: inject_mor_loop.induct)
  case (1 E by_idx k st)
  then show ?case by (auto simp: inject_spec_def answered_def)
next
  case (2 E by_idx k st h ls)
  then show ?case by (auto split: prod.splits)
next
  case (3 E by_idx k st u ls)
  show ?case
  proof (cases "by_idx k")
    case None
    obtain ls1 where l: "inject_mor_loop E by_idx (Suc k) st ls = (r, ls1)" and ls': "ls' = UtteranceLine u # ls1"
      using 3(5) None by (auto split: prod.splits)
    show ?thesis using 3(1) [OF None l] by (auto simp: ls' None tagged_def intro!: inject_spec_Cons)
  next
    case (Some out)
    show ?thesis
    proof (cases "build_tiers E out (main_terminator u)")
      case (Inl e)
      with 3(5) Some show ?thesis
        by (auto simp: inject_spec_def intro!: exI [where x = 0])
    next
      case (Inr built)
      show ?thesis
      proof (cases built)
        case None
        obtain ls1 where l: "inject_mor_loop E by_idx (Suc k) (st\<lparr>is_skipped_empty := Suc (is_skipped_empty st)\<rparr>) ls = (r, ls1)"
          and ls': "ls' = UtteranceLine u # ls1"
          using 3(5) None Some Inr by (auto split: prod.splits)
        show ?thesis using 3(2) [OF Some Inr None l]
          by (auto simp: ls' Some tagged_def got_tiers_def Inr None stats_total_def intro!: inject_spec_Cons)
      next
        case (Some mg)
        obtain m g where mg: "mg = (m, g)" by (rule prod.exhaust)
        show ?thesis
        proof (cases "me_main_aligned E u m")
          case False
          obtain ls1 where l: "inject_mor_loop E by_idx (Suc k) (st\<lparr>is_skipped_mismatch := Suc (is_skipped_mismatch st)\<rparr>) ls = (r, ls1)"
            and ls': "ls' = UtteranceLine u # ls1"
            using 3(5) \<open>by_idx k = Some out\<close> Inr Some mg False by (auto split: prod.splits)
          show ?thesis using 3(3) [OF \<open>by_idx k = Some out\<close> Inr Some mg [symmetric] False l]
            by (auto simp: ls' \<open>by_idx k = Some out\<close> tagged_def got_tiers_def Inr Some mg False stats_total_def
                intro!: inject_spec_Cons)
        next
          case True
          obtain ls1 where l: "inject_mor_loop E by_idx (Suc k) (st\<lparr>is_injected := Suc (is_injected st)\<rparr>) ls = (r, ls1)"
            and ls': "ls' = UtteranceLine (push_mor_gra m g u) # ls1"
            using 3(5) \<open>by_idx k = Some out\<close> Inr Some mg True by (auto split: prod.splits)
          show ?thesis using 3(4) [OF \<open>by_idx k = Some out\<close> Inr Some mg [symmetric] _ l] True
            by (auto simp: ls' \<open>by_idx k = Some out\<close> tagged_def got_tiers_def Inr Some mg True stats_total_def
                intro!: inject_spec_Cons)
        qed
      qed
    qed
  qed
qed

section \<open>A second run\<close>

lemma has_mor_tagged:
  "utterance_has_mor_tier (tagged E by_idx (i, u)) \<longleftrightarrow>
     utterance_has_mor_tier u \<or> Option.bind (by_idx i) (\<lambda>out. got_tiers E out u) \<noteq> None"
  by (auto simp: tagged_def utterance_has_mor_tier_def push_mor_gra_def split: option.splits)

lemma untagged_after:
  "map fst (filter (\<lambda>(i, u). \<not> utterance_has_mor_tier u) (enumerate k (map (tagged E by_idx) (enumerate k us)))) =
   map fst (filter (\<lambda>(i, u). \<not> utterance_has_mor_tier u \<and> Option.bind (by_idx i) (\<lambda>out. got_tiers E out u) = None) (enumerate k us))"
  by (induction us arbitrary: k) (simp_all add: has_mor_tagged)

text \<open>C28: The injection of \<open>%mor\<close> and \<open>%gra\<close>: the header lines and the positions of utterances stay. On success every utterance
  with an answer that builds both tiers and whose \<open>%mor\<close> tier fits its main tier has these two tiers more, every other one
  is as it was, the counters add up to the number of answers, and a second run would ask about exactly the untagged
  utterances that got none. It fails only on an answer whose tiers cannot be joined; the utterances before it are tagged,
  it and the ones after it are not.\<close>

theorem morphotag_injection:
  "case inject_mor_gra_tiers_selective E c outputs of
     (r, c') \<Rightarrow>
       ch_source_id c' = ch_source_id c \<and> ch_media c' = ch_media c \<and> frame (ch_lines c') = frame (ch_lines c) \<and>
       (case r of
          Inr stats \<Rightarrow>
            utterances (ch_lines c') = map (tagged E (map_of (rev outputs))) (enumerate 0 (utterances (ch_lines c))) \<and>
            stats_total stats = answered (map_of (rev outputs)) 0 (utterances (ch_lines c)) \<and>
            map fst (untagged (utterances (ch_lines c'))) = map fst (filter
              (\<lambda>(i, u). \<not> utterance_has_mor_tier u \<and> Option.bind (map_of (rev outputs) i) (\<lambda>out. got_tiers E out u) = None)
              (enumerate 0 (utterances (ch_lines c))))
        | Inl e \<Rightarrow> \<exists>n < length (utterances (ch_lines c)). \<exists>out. map_of (rev outputs) n = Some out \<and>
            build_tiers E out (main_terminator (utterances (ch_lines c) ! n)) = Inl e \<and>
            utterances (ch_lines c') =
              map (tagged E (map_of (rev outputs))) (take n (enumerate 0 (utterances (ch_lines c)))) @
              drop n (utterances (ch_lines c)))"
proof -
  obtain r ls where l: "inject_mor_loop E (map_of (rev outputs)) 0 no_stats (ch_lines c) = (r, ls)" by (rule prod.exhaust)
  have "stats_total no_stats = 0" by (simp add: stats_total_def no_stats_def)
  then show ?thesis
    using inject_mor_loop_spec [OF l]
    by (cases r) (simp_all add: inject_mor_gra_tiers_selective_def l inject_spec_def untagged_def untagged_after)
qed

end
