(* ===== verification/AiRunner.thy ===== *)
theory AiRunner
  imports Tasks
begin

text \<open>
  \<^verbatim>\<open>batchalign-core/src/taskrunners/ai.rs\<close>: revised utterances come back as raw text, and each is accepted only when
  the document still parses with it. The writer and the parser of documents are arguments.
\<close>

section \<open>Requests\<close>

record ai_utterance =
  av_index :: nat
  av_chat :: rstr
  av_context :: "rstr list"

record ai_input =
  aj_source_id :: rstr
  aj_instruction :: rstr
  aj_utterances :: "ai_utterance list"

record ai_revision =
  rv_index :: nat
  rv_chat :: rstr

text \<open>\<open>ai_header_text\<close> and \<open>ai_utterance_text\<close> are the writer's; a header is written without its newline.\<close>

record ('u, 's) ai_env =
  ai_header_text :: "header \<Rightarrow> rstr"
  ai_utterance_text :: "'u \<Rightarrow> rstr"
  ai_parse :: "rstr \<Rightarrow> ba_error + 'u line list"
  ai_dispatch :: "ai_input \<Rightarrow> 's \<Rightarrow> ai_revision list task_output ba_result \<times> (nat \<times> nat) list \<times> 's"

text \<open>The utterances before and after.\<close>

definition context_for :: "('u, 's) ai_env \<Rightarrow> 'u list \<Rightarrow> nat \<Rightarrow> rstr list" where
  "context_for E us idx =
     (if 0 < idx then [ai_utterance_text E (us ! (idx - 1))] else []) @
     (if idx + 1 < length us then [ai_utterance_text E (us ! (idx + 1))] else [])"

definition ai_utterances :: "('u, 's) ai_env \<Rightarrow> 'u list \<Rightarrow> ai_utterance list" where
  "ai_utterances E us =
     map (\<lambda>(idx, u). \<lparr>av_index = idx mod 2 ^ 32, av_chat = ai_utterance_text E u, av_context = context_for E us idx\<rparr>)
       (enumerate 0 us)"

section \<open>Rendering\<close>

definition ensure_trailing_newline :: "rstr \<Rightarrow> rstr" where
  "ensure_trailing_newline t =
     (let trimmed = trim t
      in if trimmed = [] then []
         else if last trimmed = 10 then trimmed else trimmed @ [10])"

definition render_line :: "('u, 's) ai_env \<Rightarrow> 'u line \<Rightarrow> rstr" where
  "render_line E l =
     (case l of HeaderLine h \<Rightarrow> ai_header_text E h @ [10] | UtteranceLine u \<Rightarrow> ai_utterance_text E u)"

definition parse_lines_rendering :: "('u, 's) ai_env \<Rightarrow> 'u line list \<Rightarrow> (nat \<times> rstr) option \<Rightarrow> 'u line list ba_result" where
  "parse_lines_rendering E ls replacement =
     ai_parse E (concat (map (\<lambda>(idx, l). case replacement of
         Some (line_idx, t) \<Rightarrow> if line_idx = idx then ensure_trailing_newline t else render_line E l
       | None \<Rightarrow> render_line E l) (enumerate 0 ls)))"

section \<open>Revisions\<close>

text \<open>The map of revisions, the check of each index against the document and against the ones before.\<close>

fun collect_revisions :: "nat \<Rightarrow> ai_revision list \<Rightarrow> (nat \<rightharpoonup> rstr) \<Rightarrow> (nat \<rightharpoonup> rstr) ba_result" where
  "collect_revisions n [] revisions = Inr revisions"
| "collect_revisions n (rev' # revs) revisions =
     (let idx = rv_index rev' in
      if n \<le> idx then Inl (WorkerError (str ''AiOutput revision index '' @ nat_to_string idx @ str '' out of range''))
      else if revisions idx \<noteq> None
      then Inl (WorkerError (str ''AiOutput has duplicate revision for index '' @ nat_to_string idx))
      else collect_revisions n revs (revisions(idx \<mapsto> ensure_trailing_newline (rv_chat rev'))))"

text \<open>The entries of the map from the last index to the first.\<close>

definition descending :: "nat \<Rightarrow> (nat \<rightharpoonup> rstr) \<Rightarrow> (nat \<times> rstr) list" where
  "descending n revisions = List.map_filter (\<lambda>i. map_option (Pair i) (revisions i)) (rev [0..<n])"

definition utterance_line_indices :: "'u line list \<Rightarrow> nat list" where
  "utterance_line_indices ls = map fst (filter (\<lambda>(idx, l). is_utterance l) (enumerate 0 ls))"

fun revise_loop :: "('u, 's) ai_env \<Rightarrow> (nat \<times> rstr) list \<Rightarrow> 'u line list \<Rightarrow> 'u line list \<Rightarrow> 'u line list" where
  "revise_loop E [] ls accepted = accepted"
| "revise_loop E ((utterance_idx, replacement) # revs) ls accepted =
     (case parse_lines_rendering E ls (Some (utterance_line_indices ls ! utterance_idx, replacement)) of
        Inr parsed \<Rightarrow> revise_loop E revs parsed parsed
      | Inl e \<Rightarrow> revise_loop E revs ls accepted)"

definition apply_revisions :: "('u, 's) ai_env \<Rightarrow> 'u line list \<Rightarrow> ai_revision list \<Rightarrow> 'u line list ba_result" where
  "apply_revisions E ls output =
     bind_res (collect_revisions (length (utterance_line_indices ls)) output Map.empty) (\<lambda>revisions.
     bind_res (parse_lines_rendering E ls None) (\<lambda>accepted.
       Inr (revise_loop E (descending (length (utterance_line_indices ls)) revisions) ls accepted)))"

section \<open>The runner\<close>

definition ai_apply_chat :: "('u, 's) ai_env \<Rightarrow> rstr \<Rightarrow> 'u chat \<Rightarrow> 's \<Rightarrow>
    'u chat ba_result \<times> progress_event list \<times> 's" where
  "ai_apply_chat E instruction c s =
     (let sid = ch_source_id c;
          requests = ai_utterances E (utterances (ch_lines c));
          n = length requests;
          bound = (\<lambda>k. if 0 < n then [stage_tick sid Ai k n] else [])
      in case ai_dispatch E \<lparr>aj_source_id = sid, aj_instruction = instruction, aj_utterances = requests\<rparr> s of
           (raw, ticks, s') \<Rightarrow>
             let events = [stage_started sid Ai] @ bound 0 @ map (\<lambda>(i, k). stage_tick sid Ai i k) ticks in
             (case raw of
                Inl e \<Rightarrow> (Inl e, events, s')
              | Inr out \<Rightarrow>
                  let events' = events @ bound n in
                  (case bind_res (try_from_output Ai out) (apply_revisions E (ch_lines c)) of
                     Inl e \<Rightarrow> (Inl e, events', s')
                   | Inr ls \<Rightarrow>
                       (Inr \<lparr>ch_lines = ls, ch_source_id = sid, ch_media = ch_media c\<rparr>,
                        events' @ [stage_injected sid Ai], s'))))"

definition ai_apply :: "('u, 's) ai_env \<Rightarrow> 'u ba_value \<Rightarrow> 's \<Rightarrow>
    unit ba_result \<times> 'u ba_value \<times> progress_event list \<times> 's" where
  "ai_apply E value s =
     (case value of
        AiChat instruction c \<Rightarrow> (case ai_apply_chat E instruction c s of
            (Inl e, events, s') \<Rightarrow> (Inl e, value, events, s')
          | (Inr c', events, s') \<Rightarrow> (Inr (), Chat c', events, s'))
      | Failed sid e p \<Rightarrow> (Inr (), value, [], s)
      | other \<Rightarrow> (Inl (InternalError (str ''AiTaskRunner: expected BAValue::Ai, got '' @ value_kind other)), value, [], s))"

section \<open>Revisions touch what they name\<close>




























subsection \<open>A document crate that reads blocks\<close>



































end
