(* ===== verification/CompareRunner.thy ===== *)
theory CompareRunner
  imports CompareReport ChatBuild Timing
begin

text \<open>
  \<^verbatim>\<open>batchalign-core/src/taskrunners/compare.rs\<close>: the two documents of a pair are stripped of the tiers comparison does
  not want, sent as text, and answered by an annotated document and a row of numbers for a CSV file.
\<close>

section \<open>What is stripped\<close>

text \<open>An utterance as the backend reads it, with the contents of its \<open>%gra\<close> tiers.\<close>

record paired_utt = cmp_utterance +
  cu_gra :: "rstr list"

record 's compare_env =
  cr_comment_texts :: "rstr \<Rightarrow> rstr list"
  cr_to_chat :: "paired_utt chat \<Rightarrow> rstr"
  cr_parse :: "rstr \<Rightarrow> paired_utt line list ba_result"
  cr_err_text :: "ba_error \<Rightarrow> rstr"
  cr_fmt4 :: "rat \<Rightarrow> rstr"
  cr_dispatch :: "compare_input \<Rightarrow> 's \<Rightarrow> compare_output task_output ba_result \<times> 's"

definition strip_gra_utt :: "paired_utt \<Rightarrow> paired_utt" where
  "strip_gra_utt u = u\<lparr>cu_gra := []\<rparr>"

definition strip_gra_tiers :: "paired_utt chat \<Rightarrow> paired_utt chat" where
  "strip_gra_tiers c = c\<lparr>ch_lines := map_utts strip_gra_utt (ch_lines c)\<rparr>"

definition compare_labels :: "rstr list" where
  "compare_labels = [str ''xsrep'', str ''xsmor'', str ''xcmp'']"

text \<open>\<open>cr_comment_texts\<close> gives the texts of the text segments of a comment.\<close>

definition is_compare_summary :: "'s compare_env \<Rightarrow> header \<Rightarrow> bool" where
  "is_compare_summary E h =
     (case h of
        CommentHeader content \<Rightarrow>
          list_ex (\<lambda>t. starts_with (str ''ba.compare.summary:'') (trim_start_matches is_whitespace t)) (cr_comment_texts E content)
      | other \<Rightarrow> False)"

definition strip_compare_utt :: "'a cmp_utterance_scheme \<Rightarrow> 'a cmp_utterance_scheme" where
  "strip_compare_utt u = u\<lparr>cu_tiers := filter (\<lambda>(label, content). \<not> mem label compare_labels) (cu_tiers u)\<rparr>"

definition strip_compare_lines :: "'s compare_env \<Rightarrow> 'a cmp_utterance_scheme line list \<Rightarrow> 'a cmp_utterance_scheme line list" where
  "strip_compare_lines E ls = map_utts strip_compare_utt
     (filter (\<lambda>l. case l of HeaderLine h \<Rightarrow> \<not> is_compare_summary E h | UtteranceLine u \<Rightarrow> True) ls)"

definition strip_compare_tiers :: "'s compare_env \<Rightarrow> paired_utt chat \<Rightarrow> paired_utt chat" where
  "strip_compare_tiers E c = c\<lparr>ch_lines := strip_compare_lines E (ch_lines c)\<rparr>"

section \<open>The table\<close>

definition fixed_columns :: "rstr list" where
  "fixed_columns = [str ''file'', str ''wer'', str ''cwer'', str ''accuracy'', str ''matches'', str ''insertions'',
     str ''deletions'', str ''total_gold_words'', str ''total_main_words'']"

definition pos_columns :: "rstr \<Rightarrow> rstr list" where
  "pos_columns pos = [pos @ str '':matches'', pos @ str '':insertions'', pos @ str '':deletions'', pos @ str '':total'']"

definition compare_schema :: "compare_metrics \<Rightarrow> rstr list" where
  "compare_schema m = fixed_columns @ concat (map (\<lambda>pos. pos_columns (cmp_pos pos)) (cm_per_pos m))"

definition bt_insert :: "rstr \<Rightarrow> json \<Rightarrow> (rstr \<times> json) list \<Rightarrow> (rstr \<times> json) list" where
  "bt_insert k v m = bt_update k (\<lambda>_. v) m"

definition fixed_cells :: "(rat \<Rightarrow> rstr) \<Rightarrow> compare_metrics \<Rightarrow> json list" where
  "fixed_cells fmt4 m = (let s = cm_summary m in
     [JString (cm_file_label m), JString (fmt4 (s_wer s)), JString (fmt4 (s_cwer s)), JString (fmt4 (s_accuracy s)),
      JOther (nat_to_string (s_matches s)), JOther (nat_to_string (s_insertions s)), JOther (nat_to_string (s_deletions s)),
      JOther (nat_to_string (s_total_gold_words s)), JOther (nat_to_string (s_total_main_words s))])"

definition pos_cells :: "compare_metrics_pos \<Rightarrow> json list" where
  "pos_cells pos = map (\<lambda>n. JOther (nat_to_string n)) [cmp_matches pos, cmp_insertions pos, cmp_deletions pos, cmp_total pos]"

text \<open>The columns are inserted one after the other, the fixed ones first, then four for each part of speech.\<close>

definition compare_columns :: "(rat \<Rightarrow> rstr) \<Rightarrow> compare_metrics \<Rightarrow> (rstr \<times> json) list" where
  "compare_columns fmt4 m =
     fold (\<lambda>(k, v). bt_insert k v)
       (zip fixed_columns (fixed_cells fmt4 m) @
        concat (map (\<lambda>pos. zip (pos_columns (cmp_pos pos)) (pos_cells pos)) (cm_per_pos m))) []"

definition compare_metrics_to_artifact :: "(rat \<Rightarrow> rstr) \<Rightarrow> compare_output \<Rightarrow> rstr \<Rightarrow> metrics_artifact" where
  "compare_metrics_to_artifact fmt4 out source_id =
     \<lparr>ma_source_id = source_id, ma_producer = str ''compare:rust:v3.2'', ma_kind = MetricsCompare,
      ma_schema = compare_schema (co_metrics out),
      ma_rows = [\<lparr>mr_kind = str ''per_file'', mr_columns = compare_columns fmt4 (co_metrics out)\<rparr>]\<rparr>"

section \<open>The runner\<close>

definition compare_placeholder :: "rstr \<Rightarrow> paired_utt ba_value" where
  "compare_placeholder sid = Failed sid (InternalError (str ''compare: in-flight placeholder'')) None"

definition compare_request :: "'s compare_env \<Rightarrow> paired_utt paired \<Rightarrow> paired_utt chat \<times> compare_input" where
  "compare_request E p =
     (let main_chat = strip_compare_tiers E (strip_gra_tiers (pr_main p));
          gold_chat = strip_compare_tiers E (strip_gra_tiers (pr_gold p))
      in (main_chat, \<lparr>ci_source_id = ch_source_id main_chat, ci_main_chat = cr_to_chat E main_chat,
            ci_gold_chat = cr_to_chat E gold_chat\<rparr>))"

definition compare_attach :: "'s compare_env \<Rightarrow> paired_utt chat \<Rightarrow> compare_output \<Rightarrow> paired_utt chat ba_result" where
  "compare_attach E main_chat out =
     bind_res (map_err (\<lambda>e. WorkerError (str ''compare: failed to re-parse annotated_main: '' @ cr_err_text E e))
                (cr_parse E (co_annotated_main out))) (\<lambda>ls.
       let annotated = \<lparr>ch_lines = ls, ch_source_id = ch_source_id main_chat, ch_media = None\<rparr>
       in Inr (case ch_media main_chat of Some m \<Rightarrow> with_media annotated m | None \<Rightarrow> annotated))"

definition compare_apply :: "'s compare_env \<Rightarrow> paired_utt ba_value \<Rightarrow> 's \<Rightarrow>
    unit ba_result \<times> paired_utt ba_value \<times> progress_event list \<times> 's" where
  "compare_apply E value s =
     (let sid = value_source_id value; events = [stage_started sid Compare] in
      case value of
        Paired p \<Rightarrow>
          (case compare_request E p of (main_chat, input) \<Rightarrow>
            (case cr_dispatch E input s of (output_raw, s') \<Rightarrow>
              (case bind_res output_raw (try_from_output Compare) of
                 Inl e \<Rightarrow> (Inl e, compare_placeholder sid, events, s')
               | Inr out \<Rightarrow>
                   (case compare_attach E main_chat out of
                      Inl e \<Rightarrow> (Inl e, compare_placeholder sid, events, s')
                    | Inr attached \<Rightarrow>
                        (Inr (), value_list [Chat attached,
                            Metrics (compare_metrics_to_artifact (cr_fmt4 E) out (ch_source_id main_chat))],
                         events @ [stage_injected (ch_source_id main_chat) Compare], s')))))
      | Failed sid' e p \<Rightarrow> (Inr (), Failed sid (InternalError (str ''compare: upstream failure'')) None, events, s)
      | other \<Rightarrow> (Inl (InternalError (str ''CompareTaskRunner expected BAValue::Paired, got '' @ value_kind other)),
          value, events, s))"

section \<open>Stripping undoes annotating\<close>

lemma strip_compare_lines_simps [simp]:
  "strip_compare_lines E [] = []"
  "strip_compare_lines E (UtteranceLine u # ls) = UtteranceLine (strip_compare_utt u) # strip_compare_lines E ls"
  "strip_compare_lines E (HeaderLine h # ls) =
     (if is_compare_summary E h then strip_compare_lines E ls else HeaderLine h # strip_compare_lines E ls)"
  by (simp_all add: strip_compare_lines_def)

lemma map_utts_append [simp]: "map_utts f (xs @ ys) = map_utts f xs @ map_utts f ys"
  by (induction f xs rule: map_utts.induct) simp_all

lemma strip_compare_lines_append [simp]:
  "strip_compare_lines E (xs @ ys) = strip_compare_lines E xs @ strip_compare_lines E ys"
  by (simp add: strip_compare_lines_def)

lemma push_compare_tier_stripped:
  "push_user_tier ne_ok label payload u = Inr u' \<Longrightarrow> mem label compare_labels \<Longrightarrow> strip_compare_utt u' = strip_compare_utt u"
  by (auto simp: push_user_tier_def ne_def strip_compare_utt_def bind_res_Inr_iff split: if_splits)

lemma inject_utt_stripped: "inject_utt ne_ok fmt4 U cmp u = Inr u' \<Longrightarrow> strip_compare_utt u' = strip_compare_utt u"
  unfolding inject_utt_def bind_res_Inr_iff
  by (elim exE conjE) (simp add: push_compare_tier_stripped compare_labels_def)

lemma inject_lines_stripped:
  "inject_lines ne_ok fmt4 U by_main idx ls = Inr ls' \<Longrightarrow> strip_compare_lines E ls' = strip_compare_lines E ls"
  by (induction ne_ok fmt4 U by_main idx ls arbitrary: ls' rule: inject_lines.induct)
     (auto simp: bind_res_Inr_iff inject_utt_stripped split: option.splits if_splits)

lemma summary_comment_recognised:
  assumes "\<forall>t. cr_comment_texts E t = [t]"
  shows "is_compare_summary E (CommentHeader (str ''ba.compare.summary: '' @ t))"
  using assms by (simp add: is_compare_summary_def trim_start_matches_def is_whitespace_def str_def)

lemma insert_at_stripped:
  "is_compare_summary E h \<Longrightarrow> strip_compare_lines E (insert_at i (HeaderLine h) ls) = strip_compare_lines E ls"
  using strip_compare_lines_append [of E "take i ls" "drop i ls"] by (simp add: insert_at_def)

text \<open>C31: Comparison does not pile up: whatever a comparison adds to a document, its three tiers on any utterances and the
  summary comment, is what the stripping before the next comparison takes away, so that the next one sees the
  document of the first one, stripped.\<close>

theorem strip_undoes_annotation:
  assumes "\<forall>t. cr_comment_texts E t = [t]"
    and "inject_per_utt_tiers ne_ok fmt4 U ls per_utt = Inr annotated"
  shows "strip_compare_lines E (inject_summary_header fmt4 annotated s) = strip_compare_lines E ls"
proof -
  have "strip_compare_lines E annotated = strip_compare_lines E ls"
    using assms(2) unfolding inject_per_utt_tiers_def by (rule inject_lines_stripped)
  then show ?thesis
    unfolding inject_summary_header_def by (simp add: insert_at_stripped summary_comment_recognised assms(1))
qed

definition sample_compare_env :: "unit compare_env" where
  "sample_compare_env = \<lparr>cr_comment_texts = (\<lambda>t. [t]), cr_to_chat = (\<lambda>c. []), cr_parse = (\<lambda>t. Inr []),
     cr_err_text = (\<lambda>e. []), cr_fmt4 = (\<lambda>r. str ''0''), cr_dispatch = (\<lambda>i s. (Inl Cancelled, s))\<rparr>"

definition sample_main :: "cmp_utterance line list" where
  "sample_main = [HeaderLine BeginHeader, UtteranceLine \<lparr>cu_items = [Word (str ''a'')], cu_terminator = Some Period,
     cu_mor = None, cu_tiers = [(str ''xsrep'', Some (str ''old'')), (str ''xnote'', None)]\<rparr>]"

definition sample_per_utt :: "utt_cmp list" where
  "sample_per_utt = [\<lparr>uc_tokens = [(str ''a'', TokMatch, Tag (str ''n''))], uc_matches = 1, uc_inserts = 0, uc_deletes = 0,
     uc_main_utt_idx = Some 0\<rparr>]"

definition sample_annotated :: "cmp_utterance line list" where
  "sample_annotated = (case inject_per_utt_tiers (\<lambda>s. s \<noteq> []) (\<lambda>r. str ''0'') ascii_tables sample_main sample_per_utt of
     Inr ls \<Rightarrow> ls | Inl e \<Rightarrow> [])"

theorem strip_undoes_annotation_witness:
  "strip_compare_lines sample_compare_env
     (inject_summary_header (\<lambda>r. str ''0'') sample_annotated (summarize ascii_tables sample_per_utt)) =
   strip_compare_lines sample_compare_env sample_main"
proof (rule strip_undoes_annotation)
  show "inject_per_utt_tiers (\<lambda>s. s \<noteq> []) (\<lambda>r. str ''0'') ascii_tables sample_main sample_per_utt = Inr sample_annotated"
    by code_simp
qed (simp add: sample_compare_env_def)

section \<open>The table has one cell for each column\<close>

lemma bt_insert_fold_lookup:
  assumes "sorted_wrt (<) (map fst m)" and "distinct (map fst kvs)"
  shows "sorted_wrt (<) (map fst (fold (\<lambda>(k, v). bt_insert k v) kvs m)) \<and>
    map_of (fold (\<lambda>(k, v). bt_insert k v) kvs m) = map_of m ++ map_of kvs"
  using assms
proof (induction kvs arbitrary: m)
  case (Cons kv kvs)
  obtain k v where kv: "kv = (k, v)" by (cases kv)
  have "sorted_wrt (<) (map fst (bt_insert k v m))" unfolding bt_insert_def by (rule bt_update_sorted [OF Cons.prems(1)])
  moreover have "map_of (bt_insert k v m) = (map_of m)(k \<mapsto> v)"
    unfolding bt_insert_def by (rule map_of_bt_update [OF Cons.prems(1)])
  moreover have "map_of kvs k = None" using Cons.prems(2) kv by (auto simp: map_of_eq_None_iff)
  ultimately show ?case using Cons kv by (auto simp: map_add_upd_left map_add_def fun_eq_iff split: option.split)
qed simp

lemma row_cells_of_columns:
  assumes "distinct ks" and "length vs = length ks" and "map_of (mr_columns row) = map_of (zip ks vs)"
  shows "row_cells ks row = map json_cell vs"
proof (rule nth_equalityI)
  show "length (row_cells ks row) = length (map json_cell vs)" using assms(2) by (simp add: row_cells_def)
  fix i assume "i < length (row_cells ks row)"
  then have "i < length ks" by (simp add: row_cells_def)
  moreover from this have "map_of (zip ks vs) (ks ! i) = Some (vs ! i)" using assms(1,2) by (simp add: map_of_zip_nth)
  ultimately show "row_cells ks row ! i = map json_cell vs ! i" using assms by (simp add: row_cells_def)
qed

definition pos_suffixes :: "rstr list" where
  "pos_suffixes = [str ''matches'', str ''insertions'', str ''deletions'', str ''total'']"

lemma pos_columns_suffixes: "pos_columns pos = map (\<lambda>w. pos @ 58 # w) pos_suffixes"
  by (simp add: pos_columns_def pos_suffixes_def str_def)

lemma pos_suffixes_facts: "distinct pos_suffixes" "w \<in> set pos_suffixes \<Longrightarrow> 58 \<notin> set w"
  by (auto simp: pos_suffixes_def str_def)

lemma last_colon:
  assumes "p @ 58 # w = q @ (58 :: int) # v" and "58 \<notin> set w" and "58 \<notin> set v"
  shows "p = q \<and> w = v"
proof -
  have tw: "takeWhile (\<lambda>c. c \<noteq> 58) (rev x @ (58 :: int) # z) = rev x" if "58 \<notin> set x" for x z
  proof -
    have "takeWhile (\<lambda>c. c \<noteq> 58) (rev x @ 58 # z) = rev x @ takeWhile (\<lambda>c. c \<noteq> 58) (58 # z)"
      by (rule takeWhile_append2) (use that in auto)
    then show ?thesis by simp
  qed
  have e: "rev w @ 58 # rev p = rev v @ 58 # rev q" using arg_cong [OF assms(1), of rev] by simp
  have "rev w = rev v" using tw [OF assms(2), of "rev p"] tw [OF assms(3), of "rev q"] unfolding e by simp
  with e show ?thesis by simp
qed

lemma pos_columns_distinct: "distinct (pos_columns p)"
  by (simp add: pos_columns_def str_def)

lemma pos_columns_disjoint: "p \<noteq> q \<Longrightarrow> set (pos_columns p) \<inter> set (pos_columns q) = {}"
proof (rule ccontr)
  assume "p \<noteq> q" and "set (pos_columns p) \<inter> set (pos_columns q) \<noteq> {}"
  then obtain w v where "p @ 58 # w = q @ 58 # v" "w \<in> set pos_suffixes" "v \<in> set pos_suffixes"
    unfolding pos_columns_suffixes by auto
  with last_colon [of p w q v] pos_suffixes_facts(2) \<open>p \<noteq> q\<close> show False by blast
qed

lemma fixed_columns_facts: "distinct fixed_columns" "x \<in> set fixed_columns \<Longrightarrow> 58 \<notin> set x"
  by (auto simp: fixed_columns_def str_def)

lemma pos_columns_colon: "x \<in> set (pos_columns p) \<Longrightarrow> 58 \<in> set x"
  by (auto simp: pos_columns_suffixes)

lemma compare_schema_distinct:
  assumes "distinct (map cmp_pos (cm_per_pos m))"
  shows "distinct (compare_schema m)"
proof -
  have "distinct (concat (map (\<lambda>pos. pos_columns (cmp_pos pos)) ps))" if "distinct (map cmp_pos ps)" for ps
    using that
  proof (induction ps)
    case (Cons p ps)
    have "set (pos_columns (cmp_pos p)) \<inter> set (pos_columns (cmp_pos q)) = {}" if "q \<in> set ps" for q
      using that Cons.prems by (intro pos_columns_disjoint) auto
    then show ?case using Cons by (auto simp: pos_columns_distinct)
  qed simp
  then show ?thesis
    using assms fixed_columns_facts pos_columns_colon by (fastforce simp: compare_schema_def)
qed

definition compare_cells :: "(rat \<Rightarrow> rstr) \<Rightarrow> compare_metrics \<Rightarrow> json list" where
  "compare_cells fmt4 m = fixed_cells fmt4 m @ concat (map pos_cells (cm_per_pos m))"

lemma zip_concat_map:
  "(\<And>x. length (f x) = length (g x)) \<Longrightarrow>
   length (concat (map f xs)) = length (concat (map g xs)) \<and>
   zip (concat (map f xs)) (concat (map g xs)) = concat (map (\<lambda>x. zip (f x) (g x)) xs)"
  by (induction xs) simp_all

lemma column_lengths: "length (pos_columns (cmp_pos pos)) = length (pos_cells pos)" "length fixed_columns = length (fixed_cells fmt4 m)"
  by (simp_all add: pos_columns_def pos_cells_def fixed_columns_def fixed_cells_def Let_def)

lemma schema_zip_cells:
  "length (compare_cells fmt4 m) = length (compare_schema m) \<and>
   zip (compare_schema m) (compare_cells fmt4 m) = zip fixed_columns (fixed_cells fmt4 m) @
     concat (map (\<lambda>pos. zip (pos_columns (cmp_pos pos)) (pos_cells pos)) (cm_per_pos m))"
  using zip_concat_map [of "\<lambda>pos. pos_columns (cmp_pos pos)" pos_cells "cm_per_pos m"] column_lengths
  by (simp add: compare_schema_def compare_cells_def)

lemma count_pos_sorted: "sorted_wrt (<) (map fst m) \<Longrightarrow> sorted_wrt (<) (map fst (count_pos t m))"
  by (auto simp: count_pos_def bt_update_sorted split: prod.split tok_pos.split)

lemma per_pos_distinct: "distinct (map cmp_pos (per_pos_metrics per_utt))"
proof -
  have one: "sorted_wrt (<) (map fst m) \<Longrightarrow> sorted_wrt (<) (map fst (fold count_pos toks m))" for toks m
    by (induction toks arbitrary: m) (simp_all add: count_pos_sorted)
  have "sorted_wrt (<) (map fst m) \<Longrightarrow> sorted_wrt (<) (map fst (fold (\<lambda>utt. fold count_pos (uc_tokens utt)) per_utt m))" for m
    by (induction per_utt arbitrary: m) (simp_all add: one)
  from this [of "[]"] have "distinct (map fst (fold (\<lambda>utt. fold count_pos (uc_tokens utt)) per_utt []))"
    by (intro sorted_map_distinct) simp
  moreover have "map cmp_pos (per_pos_metrics per_utt) = map fst (fold (\<lambda>utt. fold count_pos (uc_tokens utt)) per_utt [])"
    by (simp add: per_pos_metrics_def comp_def case_prod_beta)
  ultimately show ?thesis by simp
qed

lemma compare_columns_lookup:
  assumes "distinct (compare_schema m)"
  shows "map_of (compare_columns fmt4 m) = map_of (zip (compare_schema m) (compare_cells fmt4 m))"
proof -
  let ?kvs = "zip (compare_schema m) (compare_cells fmt4 m)"
  have "compare_columns fmt4 m = fold (\<lambda>(k, v). bt_insert k v) ?kvs []"
    unfolding compare_columns_def using schema_zip_cells [of fmt4 m] by presburger
  moreover have "map fst ?kvs = compare_schema m"
    using schema_zip_cells [of fmt4 m] by (intro map_fst_zip) simp
  ultimately show ?thesis using bt_insert_fold_lookup [of "[]" ?kvs] assms by (simp only:) simp
qed

text \<open>The table of a comparison is written whole: the CSV file has the schema as its first line, nine columns and four for
  each part of speech, and one line more, in which the cell under every column is the number of that name, for any
  numbers and parts of speech the backend can report.\<close>

lemma compare_csv_cells:
  "let m = build_compare_metrics per_utt s label_source in
   metrics_csv (compare_metrics_to_artifact fmt4 (out\<lparr>co_metrics := m\<rparr>) source_id) =
     csv_row (fixed_columns @ concat (map (\<lambda>pos. pos_columns (cmp_pos pos)) (per_pos_metrics per_utt))) @
     csv_row (map json_cell (fixed_cells fmt4 m @ concat (map pos_cells (per_pos_metrics per_utt))))"
proof -
  let ?m = "build_compare_metrics per_utt s label_source"
  have pos: "cm_per_pos ?m = per_pos_metrics per_utt" by (simp add: build_compare_metrics_def)
  then have d: "distinct (compare_schema ?m)" by (intro compare_schema_distinct) (simp add: per_pos_distinct)
  have "row_cells (compare_schema ?m) \<lparr>mr_kind = str ''per_file'', mr_columns = compare_columns fmt4 ?m\<rparr> =
      map json_cell (compare_cells fmt4 ?m)"
    by (intro row_cells_of_columns d) (simp_all add: schema_zip_cells compare_columns_lookup d)
  then show ?thesis
    by (simp add: Let_def metrics_csv_def compare_metrics_to_artifact_def)
       (simp add: compare_schema_def compare_cells_def pos)
qed

section \<open>The answer depends on the name\<close>

text \<open>
  Two inputs with the same documents get answers that differ in the name of the file only, which is the first cell of
  the table. The key of the result cache covers the documents and not the name.
\<close>

lemma compare_answer_depends_on_source:
  "compare_one U ne_ok fmt4 parse_chat to_chat err_text (input\<lparr>ci_source_id := sid\<rparr>) =
     map_sum id (\<lambda>out. out\<lparr>co_source_id := sid,
         co_metrics := (co_metrics out)\<lparr>cm_file_label := compare_file_label sid\<rparr>\<rparr>)
       (compare_one U ne_ok fmt4 parse_chat to_chat err_text input)"
  by (simp add: compare_one_def Let_def build_compare_metrics_def bind_res_def split: sum.split)

section \<open>The outcome of the stage\<close>

text \<open>The outcome of the compare stage: a pair whose answer arrives and parses becomes the annotated document, under the name
  and with the media of the main one, and the table; when the backend fails or the annotated text does not parse, the
  stage reports the error and the value is the placeholder, so neither document is left; a failed value
  ends as a failure that has lost its own error; anything else is refused untouched.\<close>

lemma compare_stage_outcome:
  "case compare_apply E v0 s of (r, v, events, s') \<Rightarrow>
     (case v0 of
        Paired p \<Rightarrow>
          (let out = bind_res (fst (cr_dispatch E (snd (compare_request E p)) s)) (try_from_output Compare)
           in (case r of
                 Inl e \<Rightarrow> v = compare_placeholder (ch_source_id (pr_main p)) \<and>
                   (out = Inl e \<or> (\<exists>answer e'. out = Inr answer \<and> cr_parse E (co_annotated_main answer) = Inl e'))
               | Inr _ \<Rightarrow> (\<exists>answer ls. out = Inr answer \<and> cr_parse E (co_annotated_main answer) = Inr ls \<and>
                   v = ConsV (Chat \<lparr>ch_lines = ls, ch_source_id = ch_source_id (pr_main p), ch_media = ch_media (pr_main p)\<rparr>)
                     (ConsV (Metrics (compare_metrics_to_artifact (cr_fmt4 E) answer (ch_source_id (pr_main p)))) NilV))))
      | Failed sid e p \<Rightarrow> r = Inr () \<and> v = Failed sid (InternalError (str ''compare: upstream failure'')) None \<and> s' = s
      | other \<Rightarrow> (\<exists>e. r = Inl e) \<and> v = v0 \<and> s' = s)"
proof (cases v0)
  case (Paired p)
  obtain main_chat input where q: "compare_request E p = (main_chat, input)" by (cases "compare_request E p")
  then have main: "ch_source_id main_chat = ch_source_id (pr_main p)" "ch_media main_chat = ch_media (pr_main p)"
    by (auto simp: compare_request_def Let_def strip_compare_tiers_def strip_gra_tiers_def)
  show ?thesis
    unfolding Paired compare_apply_def compare_attach_def q
    by (auto simp: main q value_list_def with_media_def Let_def map_err_def bind_res_def split: prod.splits sum.splits option.splits)
qed (simp_all add: compare_apply_def Let_def)

end
