(* ===== verification/FloatRound.thy ===== *)
theory FloatRound
  imports Complex_Main
begin

text \<open>
  The arithmetic of \<open>f32\<close> and \<open>f64\<close> on the values that are not infinite: an operation gives the number of the format nearest to the
  exact result, halves to the even one. A format is its precision and the spacings of its numbers, from the subnormal numbers up.
\<close>

section \<open>Rounding\<close>

definition round_even :: "rat \<Rightarrow> int" where
  "round_even x =
     (let n = \<lfloor>x\<rfloor>; d = x - of_int n
      in if d < 1 / 2 then n else if 1 / 2 < d then n + 1 else if even n then n else n + 1)"

text \<open>The spacing of the numbers around \<open>x\<close>: the least one at which \<open>p\<close> bits reach beyond \<open>x\<close>.\<close>

definition spacing :: "nat \<Rightarrow> nat \<Rightarrow> nat \<Rightarrow> rat \<Rightarrow> rat option" where
  "spacing p low n x = List.find (\<lambda>q. \<bar>x\<bar> < 2 ^ p * q) (map (\<lambda>k. 2 ^ k / 2 ^ low) [0..<n])"

definition nearest_float :: "nat \<Rightarrow> nat \<Rightarrow> nat \<Rightarrow> rat \<Rightarrow> rat option" where
  "nearest_float p low n x = map_option (\<lambda>q. of_int (round_even (x / q)) * q) (spacing p low n x)"

text \<open>\<open>None\<close> is beyond the greatest number.\<close>

definition f32_nearest :: "rat \<Rightarrow> rat option" where
  "f32_nearest x = (case nearest_float 24 149 254 x of Some y \<Rightarrow> if \<bar>y\<bar> < 2 ^ 128 then Some y else None | None \<Rightarrow> None)"

text \<open>The \<open>f64\<close> values of the code are frame positions, far below the greatest number.\<close>

definition f64_nearest :: "rat \<Rightarrow> rat" where
  "f64_nearest x = (case nearest_float 53 1074 2046 x of Some y \<Rightarrow> y | None \<Rightarrow> x)"

section \<open>Lemmas\<close>

lemma round_even_near: "2 * \<bar>of_int (round_even x) - x\<bar> \<le> 1"
proof -
  define n d where "n = \<lfloor>x\<rfloor>" and "d = x - of_int n"
  have x: "x = of_int n + d" and d: "0 \<le> d" "d < 1" using floor_correct [of x] by (simp_all add: n_def d_def)
  have "round_even x = (if d < 1 / 2 then n else if 1 / 2 < d then n + 1 else if even n then n else n + 1)"
    by (simp add: round_even_def Let_def n_def d_def)
  then show ?thesis unfolding x using d by (auto simp: abs_if)
qed

lemma round_even_of_int [simp]: "round_even (of_int i) = i"
  by (simp add: round_even_def)

lemma round_even_bounds:
  assumes "of_int a \<le> x" and "x \<le> of_int b"
  shows "a \<le> round_even x \<and> round_even x \<le> b"
proof -
  have "- 1 \<le> 2 * (of_int (round_even x) - x) \<and> 2 * (of_int (round_even x) - x) \<le> 1"
    using round_even_near [of x] by (auto simp: abs_if split: if_splits)
  then have "of_int a < (of_int (round_even x + 1) :: rat)" "(of_int (round_even x) :: rat) < of_int (b + 1)"
    using assms by simp_all
  then show ?thesis unfolding of_int_less_iff by simp
qed

lemma spacing_Some:
  assumes "spacing p low n x = Some q"
  obtains k where "k < n" "q = 2 ^ k / 2 ^ low" "\<bar>x\<bar> < 2 ^ p * q" "\<And>j. j < k \<Longrightarrow> 2 ^ p * (2 ^ j / 2 ^ low) \<le> \<bar>x\<bar>"
  using assms unfolding spacing_def find_Some_iff by (auto simp: not_less)

lemma spacing_below:
  assumes "\<bar>x\<bar> < 2 ^ p * (2 ^ k / 2 ^ low)" and "k < n"
  shows "\<exists>j \<le> k. spacing p low n x = Some (2 ^ j / 2 ^ low)"
proof (cases "spacing p low n x")
  case None
  then show ?thesis using assms by (auto simp: spacing_def find_None_iff)
next
  case (Some q)
  then obtain j where "q = 2 ^ j / 2 ^ low" "\<And>i. i < j \<Longrightarrow> 2 ^ p * (2 ^ i / 2 ^ low) \<le> \<bar>x\<bar>"
    by (rule spacing_Some) blast
  then show ?thesis using Some assms(1) by (metis not_le)
qed

lemma spacing_eqI:
  assumes "\<bar>x\<bar> < 2 ^ p * (2 ^ Suc k / 2 ^ low)" and "Suc k < n" and "2 ^ p * (2 ^ k / 2 ^ low) \<le> \<bar>x\<bar>"
  shows "spacing p low n x = Some (2 ^ Suc k / 2 ^ low)"
proof -
  obtain j where j: "j \<le> Suc k" "spacing p low n x = Some (2 ^ j / 2 ^ low)" using spacing_below [OF assms(1,2)] by blast
  have "\<not> j \<le> k"
  proof
    assume "j \<le> k"
    then have "2 ^ p * (2 ^ j / 2 ^ low) \<le> (2 ^ p * (2 ^ k / 2 ^ low) :: rat)"
      by (simp add: divide_right_mono power_increasing mult_left_mono)
    moreover have "\<bar>x\<bar> < 2 ^ p * (2 ^ j / 2 ^ low)" by (rule spacing_Some [OF j(2)]) simp
    ultimately show False using assms(3) by simp
  qed
  with j show ?thesis by (simp add: le_Suc_eq)
qed

text \<open>Whole numbers that the spacing divides are kept, and rounding does not cross them.\<close>

lemma nearest_between:
  assumes "0 < (q :: rat)" and "of_int i = of_int a * q" and "of_int j = of_int b * q" and "of_int i \<le> x" and "x \<le> of_int j"
  shows "of_int i \<le> of_int (round_even (x / q)) * q \<and> of_int (round_even (x / q)) * q \<le> of_int j"
proof -
  have "of_int a \<le> x / q" "x / q \<le> of_int b" using assms by (simp_all add: pos_le_divide_eq pos_divide_le_eq)
  then have "a \<le> round_even (x / q) \<and> round_even (x / q) \<le> b" by (rule round_even_bounds)
  then have "of_int a * q \<le> of_int (round_even (x / q)) * q \<and> of_int (round_even (x / q)) * q \<le> of_int b * q"
    using assms(1) by (intro conjI mult_right_mono) simp_all
  then show ?thesis using assms(2,3) by simp
qed

lemma nearest_error:
  assumes "0 < (q :: rat)"
  shows "2 * \<bar>of_int (round_even (x / q)) * q - x\<bar> \<le> q"
proof -
  have "2 * \<bar>of_int (round_even (x / q)) - x / q\<bar> * q \<le> 1 * q"
    using round_even_near [of "x / q"] assms by (intro mult_right_mono) simp_all
  moreover have "\<bar>of_int (round_even (x / q)) - x / q\<bar> * q = \<bar>(of_int (round_even (x / q)) - x / q) * q\<bar>"
    using assms by (simp only: abs_mult abs_of_pos)
  moreover have "(of_int (round_even (x / q)) - x / q) * q = of_int (round_even (x / q)) * q - x"
    using assms by (simp add: left_diff_distrib)
  ultimately show ?thesis by (simp only: mult.assoc mult_1)
qed

end
