(* ===== verification/MediaConvert.thy ===== *)
theory MediaConvert
  imports Tasks FloatRound
begin

text \<open>
  \<^verbatim>\<open>batchalign-core/src/backends/convert.rs\<close>, \<^verbatim>\<open>taskrunners/convert.rs\<close> and \<^verbatim>\<open>proto/convert.rs\<close>: decoded audio becomes a
  WAV file or, through an MP3 encoder of another crate, an MP3 file. Bytes and header fields are words of their width.
  A binary32 number is read exactly from its bits; arithmetic on samples rounds each operation as \<open>f32\<close> does, with the
  infinities and the undefined value beside the numbers. The sign of a zero is not kept: no output shows it.
\<close>

section \<open>Bytes\<close>

type_synonym u8 = "8 word"
type_synonym u16 = "16 word"
type_synonym u32 = "32 word"

text \<open>\<open>to_le_bytes\<close> of a number of \<open>n\<close> bytes and its inverse.\<close>

fun le_bytes :: "nat \<Rightarrow> nat \<Rightarrow> u8 list" where
  "le_bytes 0 v = []"
| "le_bytes (Suc n) v = of_nat v # le_bytes n (v div 256)"

fun le_value :: "u8 list \<Rightarrow> nat" where
  "le_value [] = 0"
| "le_value (b # bs) = unat b + 256 * le_value bs"

definition ascii_bytes :: "string \<Rightarrow> u8 list" where
  "ascii_bytes s = map of_char s"

function chunks_exact :: "nat \<Rightarrow> 'a list \<Rightarrow> 'a list list" where
  "chunks_exact n xs = (if n = 0 \<or> length xs < n then [] else take n xs # chunks_exact n (drop n xs))"
  by pat_completeness auto

termination chunks_exact by (relation "measure (length \<circ> snd)") auto

declare chunks_exact.simps [simp del]

section \<open>Samples\<close>

datatype sample = Num rat | PosInf | NegInf | NotANumber

definition f32_from_bits :: "u32 \<Rightarrow> sample" where
  "f32_from_bits w =
     (let negative = bit w 31; e = unat (take_bit 8 (drop_bit 23 w)); m = unat (take_bit 23 w);
          v = (if e = 0 then of_nat m / 2 ^ 149 else of_nat (2 ^ 23 + m) * 2 ^ e / 2 ^ 150)
      in if e = 255 then (if m \<noteq> 0 then NotANumber else if negative then NegInf else PosInf)
         else Num (if negative then - v else v))"

definition f32 :: "rat \<Rightarrow> sample" where
  "f32 x = (case f32_nearest x of Some y \<Rightarrow> Num y | None \<Rightarrow> if x < 0 then NegInf else PosInf)"

fun s_add :: "sample \<Rightarrow> sample \<Rightarrow> sample" where
  "s_add (Num a) (Num b) = f32 (a + b)"
| "s_add NotANumber y = NotANumber"
| "s_add x NotANumber = NotANumber"
| "s_add PosInf NegInf = NotANumber"
| "s_add NegInf PosInf = NotANumber"
| "s_add PosInf y = PosInf"
| "s_add NegInf y = NegInf"
| "s_add x PosInf = PosInf"
| "s_add x NegInf = NegInf"

fun s_neg :: "sample \<Rightarrow> sample" where
  "s_neg (Num a) = Num (- a)"
| "s_neg PosInf = NegInf"
| "s_neg NegInf = PosInf"
| "s_neg NotANumber = NotANumber"

text \<open>The product with a number, and the quotient by a positive whole number.\<close>

fun s_scale :: "rat \<Rightarrow> sample \<Rightarrow> sample" where
  "s_scale q (Num a) = f32 (q * a)"
| "s_scale q NotANumber = NotANumber"
| "s_scale q x = (if q = 0 then NotANumber else if 0 < q then x else s_neg x)"

fun s_div :: "sample \<Rightarrow> nat \<Rightarrow> sample" where
  "s_div (Num a) n = f32 (a / of_nat n)"
| "s_div x n = x"

fun s_clamp :: "rat \<Rightarrow> rat \<Rightarrow> sample \<Rightarrow> sample" where
  "s_clamp lo hi (Num a) = Num (max lo (min hi a))"
| "s_clamp lo hi PosInf = Num hi"
| "s_clamp lo hi NegInf = Num lo"
| "s_clamp lo hi NotANumber = NotANumber"

text \<open>
  \<open>f32::round\<close> rounds halves away from zero; the cast to \<open>i16\<close> saturates and sends the undefined value to 0. The product before
  it is rounded like every product.
\<close>

definition rust_round :: "rat \<Rightarrow> int" where
  "rust_round x = (if x < 0 then - \<lfloor>- x + 1 / 2\<rfloor> else \<lfloor>x + 1 / 2\<rfloor>)"

definition as_i16 :: "int \<Rightarrow> u16" where
  "as_i16 i = word_of_int (max (- 32768) (min 32767 i))"

fun round_as_i16 :: "sample \<Rightarrow> u16" where
  "round_as_i16 (Num x) = as_i16 (rust_round x)"
| "round_as_i16 PosInf = as_i16 32767"
| "round_as_i16 NegInf = as_i16 (- 32768)"
| "round_as_i16 NotANumber = 0"

definition sample_to_i16 :: "sample \<Rightarrow> u16" where
  "sample_to_i16 s =
     (let v = s_clamp (- 1) 1 s
      in round_as_i16 (case v of Num a \<Rightarrow> if a < 0 then s_scale 32768 v else s_scale 32767 v | other \<Rightarrow> s_scale 32767 v))"

section \<open>Decoded audio\<close>

record prepared_audio =
  pa_pcm :: "u8 list"
  pa_sample_rate :: u32
  pa_channels :: u16
  pa_frame_count :: nat

definition pcm_f32 :: "prepared_audio \<Rightarrow> sample list ba_result" where
  "pcm_f32 audio =
     (if pa_channels audio = 0 then Inl (WorkerError (str ''convert: decoded audio has zero channels''))
      else if length (pa_pcm audio) mod 4 \<noteq> 0
      then Inl (WorkerError (str ''convert: decoded PCM byte length is not divisible by four''))
      else
        let samples = map (\<lambda>bytes. f32_from_bits (of_nat (le_value bytes))) (chunks_exact 4 (pa_pcm audio))
        in if length samples mod unat (pa_channels audio) \<noteq> 0
           then Inl (WorkerError (str ''convert: decoded PCM sample count is not channel-aligned''))
           else Inr samples)"

section \<open>WAV\<close>

definition checked_u16 :: "nat \<Rightarrow> rstr \<Rightarrow> u16 ba_result" where
  "checked_u16 n m = (if n < 2 ^ 16 then Inr (of_nat n) else Inl (WorkerError m))"

definition checked_u32 :: "nat \<Rightarrow> rstr \<Rightarrow> u32 ba_result" where
  "checked_u32 n m = (if n < 2 ^ 32 then Inr (of_nat n) else Inl (WorkerError m))"

definition wav_file :: "u16 \<Rightarrow> u32 \<Rightarrow> u16 \<Rightarrow> u32 \<Rightarrow> u32 \<Rightarrow> u32 \<Rightarrow> u16 list \<Rightarrow> u8 list" where
  "wav_file channels rate block_align byte_rate riff_len data_len samples =
     ascii_bytes ''RIFF'' @ le_bytes 4 (unat riff_len) @ ascii_bytes ''WAVEfmt '' @ le_bytes 4 16 @ le_bytes 2 1 @
     le_bytes 2 (unat channels) @ le_bytes 4 (unat rate) @ le_bytes 4 (unat byte_rate) @ le_bytes 2 (unat block_align) @
     le_bytes 2 16 @ ascii_bytes ''data'' @ le_bytes 4 (unat data_len) @
     concat (map (\<lambda>s. le_bytes 2 (unat s)) samples)"

definition encode_wav :: "prepared_audio \<Rightarrow> u8 list ba_result" where
  "encode_wav audio =
     bind_res (pcm_f32 audio) (\<lambda>samples.
     bind_res (checked_u32 (length samples * 2) (str ''convert: WAV output exceeds RIFF's 4 GiB limit'')) (\<lambda>data_len.
     bind_res (checked_u16 (unat (pa_channels audio) * 2) (str ''convert: WAV channel layout is too large'')) (\<lambda>block_align.
     bind_res (checked_u32 (unat (pa_sample_rate audio) * unat block_align) (str ''convert: WAV byte rate overflow'')) (\<lambda>byte_rate.
     bind_res (checked_u32 (36 + unat data_len) (str ''convert: WAV RIFF length overflow'')) (\<lambda>riff_len.
       Inr (wav_file (pa_channels audio) (pa_sample_rate audio) block_align byte_rate riff_len data_len
              (map sample_to_i16 samples)))))))"

section \<open>Resampling\<close>

definition MP3_SAMPLE_RATES :: "nat list" where
  "MP3_SAMPLE_RATES = [8000, 11025, 12000, 16000, 22050, 24000, 32000, 44100, 48000]"

definition nearest_mp3_rate :: "nat \<Rightarrow> nat" where
  "nearest_mp3_rate source =
     (case min_index (\<lambda>rate. abs_diff rate source) MP3_SAMPLE_RATES of Some i \<Rightarrow> MP3_SAMPLE_RATES ! i | None \<Rightarrow> 0)"

definition output_frames :: "nat \<Rightarrow> nat \<Rightarrow> nat \<Rightarrow> nat" where
  "output_frames input_frames source_rate target_rate = (input_frames * target_rate + source_rate div 2) div source_rate"

definition lerp :: "sample \<Rightarrow> sample \<Rightarrow> sample \<Rightarrow> sample" where
  "lerp a b fraction = s_add a (case fraction of Num q \<Rightarrow> s_scale q (s_add b (s_neg a)) | other \<Rightarrow> NotANumber)"

definition resample_frame :: "sample list \<Rightarrow> nat \<Rightarrow> nat \<Rightarrow> nat \<Rightarrow> nat \<Rightarrow> sample list" where
  "resample_frame samples channels source_rate target_rate output_frame =
     (let input_frames = length samples div channels;
          pos = f64_nearest (f64_nearest (f64_nearest (of_nat output_frame) * of_nat source_rate) / of_nat target_rate);
          left = min (nat \<lfloor>pos\<rfloor>) (input_frames - 1); right = min (left + 1) (input_frames - 1);
          fraction = f32 (f64_nearest (pos - f64_nearest (of_nat left)))
      in map (\<lambda>channel. lerp (samples ! (left * channels + channel)) (samples ! (right * channels + channel)) fraction)
           [0..<channels])"

text \<open>\<open>None\<close> is the panic of the division when the source rate is 0.\<close>

definition resample_linear :: "sample list \<Rightarrow> nat \<Rightarrow> nat \<Rightarrow> nat \<Rightarrow> sample list option" where
  "resample_linear samples channels source_rate target_rate =
     (if samples = [] \<or> source_rate = target_rate then Some samples
      else if source_rate = 0 then None
      else Some (concat (map (resample_frame samples channels source_rate target_rate)
             [0..<output_frames (length samples div channels) source_rate target_rate])))"

section \<open>MP3\<close>

datatype channel_mode = SingleChannel | Stereo

text \<open>The encoder of the crate \<^verbatim>\<open>oxideav_mp3\<close>: it may refuse its settings, the samples or to finish.\<close>

record 'e mp3_encoder =
  me_new :: "nat \<Rightarrow> nat \<Rightarrow> channel_mode \<Rightarrow> rstr + 'e"
  me_push :: "'e \<Rightarrow> u16 list \<Rightarrow> rstr + 'e"
  me_finish :: "'e \<Rightarrow> rstr + u8 list"

definition mix_down :: "sample list \<Rightarrow> nat \<Rightarrow> sample list \<times> nat" where
  "mix_down samples channels =
     (if 2 < channels
      then (map (\<lambda>frame. s_div (fold (\<lambda>x acc. s_add acc x) frame (Num 0)) channels) (chunks_exact channels samples), 1)
      else (samples, channels))"

definition mp3_bitrate :: "nat option \<Rightarrow> nat \<Rightarrow> nat \<Rightarrow> nat" where
  "mp3_bitrate bitrate_kbps target_rate channels =
     (case bitrate_kbps of Some b \<Rightarrow> b | None \<Rightarrow> if 32000 \<le> target_rate \<and> channels = 2 then 192 else 128)"

definition worker_err :: "string \<Rightarrow> rstr + 'a \<Rightarrow> 'a ba_result" where
  "worker_err m r = (case r of Inl e \<Rightarrow> Inl (WorkerError (str m @ e)) | Inr x \<Rightarrow> Inr x)"

definition run_mp3_encoder :: "'e mp3_encoder \<Rightarrow> nat \<Rightarrow> nat \<Rightarrow> nat \<Rightarrow> u16 list \<Rightarrow> u8 list ba_result" where
  "run_mp3_encoder M bitrate target_rate channels pcm_i16 =
     bind_res (worker_err ''convert: initialize MP3 encoder: ''
       (me_new M bitrate target_rate (if channels = 1 then SingleChannel else Stereo))) (\<lambda>encoder.
     bind_res (worker_err ''convert: encode MP3 samples: '' (me_push M encoder pcm_i16)) (\<lambda>encoder.
       worker_err ''convert: finish MP3 stream: '' (me_finish M encoder)))"

definition encode_mp3 :: "'e mp3_encoder \<Rightarrow> prepared_audio \<Rightarrow> nat option \<Rightarrow> nat option \<Rightarrow> u8 list ba_result option" where
  "encode_mp3 M audio bitrate_kbps sample_rate_hz =
     (case pcm_f32 audio of
        Inl e \<Rightarrow> Some (Inl e)
      | Inr pcm \<Rightarrow>
          (case mix_down pcm (unat (pa_channels audio)) of (samples, channels) \<Rightarrow>
            let source_rate = unat (pa_sample_rate audio);
                target_rate = (case sample_rate_hz of Some r \<Rightarrow> r | None \<Rightarrow> nearest_mp3_rate source_rate)
            in map_option (\<lambda>samples. run_mp3_encoder M (mp3_bitrate bitrate_kbps target_rate channels) target_rate channels
                    (map sample_to_i16 samples))
                 (if target_rate \<noteq> source_rate then resample_linear samples channels source_rate target_rate else Some samples)))"

section \<open>The backend\<close>

fun format_extension :: "media_format \<Rightarrow> rstr" where
  "format_extension Mp3 = str ''mp3''"
| "format_extension Wav = str ''wav''"

definition media_format_from_str :: "rstr \<Rightarrow> rstr + media_format" where
  "media_format_from_str s =
     (if to_ascii_lowercase s = str ''mp3'' then Inr Mp3
      else if to_ascii_lowercase s = str ''wav'' then Inr Wav
      else Inl (str ''unsupported media output format '' @ [34] @ s @ [34] @ str ''; expected mp3 or wav''))"

record convert_backend =
  cb_name :: rstr
  cb_tasks :: "task list"
  cb_format :: media_format
  cb_bitrate :: "nat option"
  cb_sample_rate :: "nat option"

definition convert_backend_new :: "media_format \<Rightarrow> convert_backend" where
  "convert_backend_new format =
     (let encoder = (case format of Mp3 \<Rightarrow> str ''oxideav-mp3-0.1.3'' | Wav \<Rightarrow> str ''pcm16'')
      in \<lparr>cb_name = str ''convert:rust:'' @ encoder @ str '':'' @ format_extension format @ str '':v1'', cb_tasks = [Convert],
          cb_format = format, cb_bitrate = None, cb_sample_rate = None\<rparr>)"

definition convert_backend_mp3 :: "nat \<Rightarrow> nat \<Rightarrow> convert_backend" where
  "convert_backend_mp3 bitrate_kbps sample_rate_hz =
     \<lparr>cb_name = str ''convert:rust:oxideav-mp3-0.1.3:mp3:'' @ nat_to_string bitrate_kbps @ str ''kbps:'' @
        nat_to_string sample_rate_hz @ str ''hz:v1'', cb_tasks = [Convert], cb_format = Mp3,
      cb_bitrate = Some bitrate_kbps, cb_sample_rate = Some sample_rate_hz\<rparr>"

definition convert_encode :: "'e mp3_encoder \<Rightarrow> convert_backend \<Rightarrow> prepared_audio \<Rightarrow> u8 list ba_result option" where
  "convert_encode M B audio =
     (case cb_format B of
        Wav \<Rightarrow> Some (encode_wav audio)
      | Mp3 \<Rightarrow> encode_mp3 M audio (cb_bitrate B) (cb_sample_rate B))"

text \<open>The inputs are taken one after the other; the first error is the answer of the whole batch.\<close>

fun convert_call :: "'e mp3_encoder \<Rightarrow> convert_backend \<Rightarrow> prepared_audio task_input list \<Rightarrow>
    media_output task_output list ba_result option" where
  "convert_call M B [] = Some (Inr [])"
| "convert_call M B (input # batch) =
     (if ti_task input \<noteq> Convert
      then Some (Inl (InternalError (str ''ConvertBackend received non-Convert input: '' @ task_debug (ti_task input))))
      else case convert_encode M B (ti_payload input) of
          None \<Rightarrow> None
        | Some (Inl e) \<Rightarrow> Some (Inl e)
        | Some (Inr encoded) \<Rightarrow>
            map_option (\<lambda>outputs. bind_res outputs (\<lambda>outputs. Inr (\<lparr>to_task = Convert,
                to_payload = \<lparr>mo_source_id = ti_source_id input, mo_format = cb_format B, mo_encoded_bytes = map unat encoded\<rparr>\<rparr>
                # outputs)))
              (convert_call M B batch))"

section \<open>The runner\<close>

record 's convert_env =
  cv_prepare :: "media_input \<Rightarrow> rstr + prepared_audio"
  cv_dispatch :: "rstr \<times> prepared_audio \<Rightarrow> 's \<Rightarrow> media_output task_output ba_result \<times> 's"

definition convert_apply :: "'s convert_env \<Rightarrow> 'u ba_value \<Rightarrow> 's \<Rightarrow>
    unit ba_result \<times> 'u ba_value \<times> progress_event list \<times> 's" where
  "convert_apply E v s =
     (case v of
        Media media \<Rightarrow>
          (let sid = mi_source_id media; events = [stage_started sid Convert] in
           case cv_prepare E media of
             Inl m \<Rightarrow> (Inl (InternalError (str ''convert audio decode: '' @ m)), v, events, s)
           | Inr audio \<Rightarrow>
               (case cv_dispatch E (sid, audio) s of (raw, s') \<Rightarrow>
                 (case bind_res raw (try_from_output Convert) of
                    Inl e \<Rightarrow> (Inl e, v, events, s')
                  | Inr out \<Rightarrow> (Inr (), MediaOutput out, events @ [stage_injected sid Convert], s'))))
      | Failed sid e p \<Rightarrow> (Inr (), v, [], s)
      | other \<Rightarrow> (Inl (InternalError (str ''ConvertTaskRunner expected BAValue::Media, got '' @ value_kind other)), v, [], s))"

end
