(* ===== verification/RunnerContract.thy ===== *)
theory RunnerContract
  imports FaRun UtrStrategy SpeakerRunnerLaws TierRunners PhoneticRunner MorRunnerLaws AiRunner AsrRunnerLaws CompareRunner MediaConvert
begin

text \<open>
  What the pipeline relies on of a stage runner, stated once as a locale and discharged for the nine runners that keep it:
  a failed value passes through untouched, a value of a kind the runner does not know is refused and untouched, and
  any other value keeps its source and does not become a failed one by itself. The runner of ASR keeps it too, once its
  scanning loops end; the runners of comparison and of conversion do not, and the theorem says what they do instead.
\<close>

definition is_chat_value :: "'u ba_value \<Rightarrow> bool" where
  "is_chat_value v = (case v of Chat c \<Rightarrow> True | _ \<Rightarrow> False)"

definition is_failed_value :: "'u ba_value \<Rightarrow> bool" where
  "is_failed_value v = (case v of Failed sid e p \<Rightarrow> True | _ \<Rightarrow> False)"

definition keeps_identity :: "'u ba_value \<Rightarrow> 'r \<times> 'u ba_value \<times> 'e \<Rightarrow> bool" where
  "keeps_identity v out \<longleftrightarrow>
     value_source_id (fst (snd out)) = value_source_id v \<and> is_failed_value (fst (snd out)) = is_failed_value v"

locale stage_runner =
  fixes apply_stage :: "'u ba_value \<Rightarrow> 's \<Rightarrow> unit ba_result \<times> 'u ba_value \<times> progress_event list \<times> 's"
    and accepts :: "'u ba_value \<Rightarrow> bool"
  assumes failed_passes: "apply_stage (Failed sid e p) s = (Inr (), Failed sid e p, [], s)"
    and refused: "\<not> accepts v \<Longrightarrow> \<not> is_failed_value v \<Longrightarrow> \<exists>e. apply_stage v s = (Inl e, v, [], s)"
    and accepted: "accepts v \<Longrightarrow> apply_stage v s = (r, v', events, s') \<Longrightarrow>
      value_source_id v' = value_source_id v \<and> \<not> is_failed_value v'"
    and accepts_sound: "accepts v \<Longrightarrow> \<not> is_failed_value v"
begin

lemma source_kept: "value_source_id (fst (snd (apply_stage v s))) = value_source_id v"
proof (cases "is_failed_value v")
  case True
  then show ?thesis by (cases v) (simp_all add: is_failed_value_def failed_passes)
next
  case not_failed: False
  show ?thesis
  proof (cases "accepts v")
    case True
    then show ?thesis using accepted [OF True] by (metis prod.collapse)
  next
    case False
    then show ?thesis using refused [OF False not_failed, of s] by auto
  qed
qed

lemma failed_iff: "is_failed_value (fst (snd (apply_stage v s))) = is_failed_value v"
proof (cases "is_failed_value v")
  case True
  then show ?thesis by (cases v) (simp_all add: is_failed_value_def failed_passes)
next
  case not_failed: False
  show ?thesis
  proof (cases "accepts v")
    case True
    then show ?thesis using accepted [OF True] not_failed by (metis prod.collapse)
  next
    case False
    then show ?thesis using refused [OF False not_failed, of s] not_failed by auto
  qed
qed

lemma keeps: "keeps_identity v (apply_stage v s)"
  by (simp add: keeps_identity_def source_kept failed_iff)

lemma quiet_unless_accepted: "\<not> accepts v \<Longrightarrow> fst (snd (apply_stage v s)) = v \<and> fst (snd (snd (apply_stage v s))) = []
    \<and> snd (snd (snd (apply_stage v s))) = s"
proof (cases "is_failed_value v")
  case True
  then show ?thesis by (cases v) (simp_all add: is_failed_value_def failed_passes)
next
  case not_failed: False
  assume "\<not> accepts v"
  then show ?thesis using refused [OF _ not_failed, of s] by auto
qed

end

section \<open>The runners keep the contract\<close>

lemma on_chat_contract:
  assumes "\<And>c s r c' events s'. f c s = (r, c', events, s') \<Longrightarrow> ch_source_id c' = ch_source_id c"
  shows "stage_runner (on_chat runner f) is_chat_value"
  by unfold_locales
     (auto simp: on_chat_def is_chat_value_def is_failed_value_def split: ba_value.splits prod.splits dest: assms)

lemma inject_text_tiers_source: "inject_text_tiers G c texts = (r, c', events) \<Longrightarrow> ch_source_id c' = ch_source_id c"
  by (auto simp: inject_text_tiers_def split: prod.splits)

lemma translate_source: "translate_apply_chat E c s = (r, c', events, s') \<Longrightarrow> ch_source_id c' = ch_source_id c"
  by (auto simp: translate_apply_chat_def Let_def split: prod.splits sum.splits if_splits option.splits
      dest: inject_text_tiers_source)

lemma coref_source: "coref_apply_chat E c s = (r, c', events, s') \<Longrightarrow> ch_source_id c' = ch_source_id c"
  by (auto simp: coref_apply_chat_def Let_def split: prod.splits sum.splits if_splits
      dest: inject_text_tiers_source)

interpretation translate: stage_runner "translate_apply E" is_chat_value for E
  unfolding translate_apply_def by (rule on_chat_contract) (rule translate_source)

interpretation coref: stage_runner "coref_apply E" is_chat_value for E
  unfolding coref_apply_def by (rule on_chat_contract) (rule coref_source)

lemma speaker_source: "speaker_apply_chat E c s = (r, c', events, s') \<Longrightarrow> ch_source_id c' = ch_source_id c"
  by (auto simp: speaker_apply_chat_def Let_def split: prod.splits sum.splits option.splits)

interpretation speaker: stage_runner "speaker_apply E" is_chat_value for E
  by unfold_locales
     (auto simp: speaker_apply_def is_chat_value_def is_failed_value_def split: ba_value.splits prod.splits dest: speaker_source)

lemma fa_source: "fa_apply_chat E c s = (r, c', events, s') \<Longrightarrow> ch_source_id c' = ch_source_id c"
  by (auto simp: fa_apply_chat_def Let_def split: prod.splits sum.splits option.splits if_splits)

interpretation fa: stage_runner "fa_apply E" is_chat_value for E
  by unfold_locales
     (auto simp: fa_apply_def is_chat_value_def is_failed_value_def split: ba_value.splits prod.splits dest: fa_source)

lemma utseg_source: "utseg_apply_chat E c s = (Inr c', events, s') \<Longrightarrow> ch_source_id c' = ch_source_id c"
  by (auto simp: utseg_apply_chat_def utseg_fold_back_def build_chat_from_utterances_def with_media_def Let_def bind_res_Inr_iff
      split: prod.splits sum.splits option.splits if_splits)

interpretation utseg: stage_runner "utseg_apply E" is_chat_value for E
  by unfold_locales
     (auto simp: utseg_apply_def is_chat_value_def is_failed_value_def split: ba_value.splits prod.splits sum.splits
       dest: utseg_source)

lemma phonetic_source: "phonetic_apply_chat E c s = (Inr c', events, s') \<Longrightarrow> ch_source_id c' = ch_source_id c"
  by (auto simp: phonetic_apply_chat_def inject_pho_tiers_def Let_def bind_res_Inr_iff
      split: prod.splits sum.splits option.splits if_splits)

interpretation phonetic: stage_runner "phonetic_apply E" is_chat_value for E
  by unfold_locales
     (auto simp: phonetic_apply_def is_chat_value_def is_failed_value_def split: ba_value.splits prod.splits sum.splits
       dest: phonetic_source)

definition is_ai_value :: "'u ba_value \<Rightarrow> bool" where
  "is_ai_value v = (case v of AiChat i c \<Rightarrow> True | _ \<Rightarrow> False)"

lemma ai_source: "ai_apply_chat E i c s = (Inr c', events, s') \<Longrightarrow> ch_source_id c' = ch_source_id c"
  by (auto simp: ai_apply_chat_def Let_def split: prod.splits sum.splits)

interpretation ai: stage_runner "ai_apply E" is_ai_value for E
  by unfold_locales
     (auto simp: ai_apply_def is_ai_value_def is_failed_value_def split: ba_value.splits prod.splits sum.splits dest: ai_source)

definition is_tagged_value :: "'u ba_value \<Rightarrow> bool" where
  "is_tagged_value v = (case v of Chat c \<Rightarrow> True | Paired p \<Rightarrow> True | _ \<Rightarrow> False)"

lemma mor_source: "process_chat E c s = (r, c', events, s') \<Longrightarrow> ch_source_id c' = ch_source_id c"
  by (auto simp: process_chat_def inject_mor_gra_tiers_selective_def Let_def split: prod.splits sum.splits if_splits)

interpretation mor: stage_runner "mor_apply E" is_tagged_value for E
  by unfold_locales
     (auto simp: mor_apply_def is_tagged_value_def is_failed_value_def split: ba_value.splits prod.splits sum.splits dest: mor_source)

lemma utr_source: "utr_apply_chat E c s = (r, c', events, s') \<Longrightarrow> ch_source_id c' = ch_source_id c"
  by (auto simp: utr_apply_chat_def Let_def split: prod.splits sum.splits option.splits if_splits)

interpretation utr: stage_runner "utr_apply E" is_chat_value for E
  by unfold_locales
     (auto simp: utr_apply_def is_chat_value_def is_failed_value_def split: ba_value.splits prod.splits dest: utr_source)

section \<open>The runners that differ\<close>

text \<open>The runner of ASR gives its transcript the source of the recording.\<close>

lemma describe_asr_total: "prefix_rules_ok (ar_asr E) \<Longrightarrow> \<exists>described. describe_asr E media language segs = Some described"
  using prepare_asr_chunks_total [of "ar_asr E"]
  by (fastforce simp: describe_asr_def Let_def process_raw_asr_def split: sum.split)

lemma build_chat_from_asr_source:
  "build_chat_from_asr E media language segs = Some (Inr c) \<Longrightarrow> ch_source_id c = mi_source_id media"
proof -
  assume "build_chat_from_asr E media language segs = Some (Inr c)"
  then obtain chat_file where "(case ar_validate E (insert_unchecked_comment chat_file) of (has_errors, errors, lines) \<Rightarrow>
      if has_errors then Inl (ValidationError ([10] @ join [10] errors))
      else Inr \<lparr>ch_lines = lines, ch_source_id = mi_source_id media, ch_media = None\<rparr>) = Inr c"
    by (auto simp: build_chat_from_asr_def bind_res_Inr_iff)
  then show ?thesis by (cases "ar_validate E (insert_unchecked_comment chat_file)") (auto split: if_splits)
qed

lemma asr_media:
  assumes "prefix_rules_ok (ar_asr E)"
  obtains r events s' where "asr_apply_media E media s = Some (r, events, s')"
    and "\<And>c. r = Inr c \<Longrightarrow> ch_source_id c = mi_source_id media"
proof -
  have "\<exists>built. build_chat_from_asr E media language segs = Some built" for language segs
    using describe_asr_total [OF assms, of media language segs] by (auto simp: build_chat_from_asr_def)
  note built = this build_chat_from_asr_source [of E media]
  have "\<exists>r events s'. asr_apply_media E media s = Some (r, events, s') \<and> (\<forall>c. r = Inr c \<longrightarrow> ch_source_id c = mi_source_id media)"
  proof (cases "ar_prepare_pcm E media")
    case (Inr audio)
    let ?lang = "case mi_language media of Some code \<Rightarrow> LangCode code | None \<Rightarrow> LangAuto"
    obtain progress ev where step: "start_step (scaled_progress_new (mi_source_id media) Asr 1) = (progress, ev)" by fastforce
    obtain answer ticks s' where d: "ar_dispatch E (mi_source_id media, audio, ?lang) s = (answer, ticks, s')" by (rule prod_cases3)
    show ?thesis
    proof (cases "bind_res answer (try_from_output Asr)")
      case (Inl e)
      then show ?thesis using step
        by (cases answer) (simp_all add: asr_apply_media_def Let_def Inr d bind_res_def)
    next
      case segs: (Inr segs)
      then obtain raw where raw: "answer = Inr raw" "try_from_output Asr raw = Inr segs" by (auto simp: bind_res_Inr_iff)
      obtain b where b: "build_chat_from_asr E media ?lang segs = Some b" using built(1) by blast
      then show ?thesis using step built(2) [of ?lang segs]
        by (cases b) (simp_all add: asr_apply_media_def Let_def Inr d raw with_media_def)
    qed
  qed (simp add: asr_apply_media_def Let_def)
  then show ?thesis using that by blast
qed

lemma asr_keeps:
  assumes "prefix_rules_ok (ar_asr E)"
  shows "\<exists>out. asr_apply E v s = Some out \<and> keeps_identity v out"
proof (cases v)
  case (Media media)
  obtain r events s' where "asr_apply_media E media s = Some (r, events, s')"
    "\<And>c. r = Inr c \<Longrightarrow> ch_source_id c = mi_source_id media"
    using asr_media [OF assms] by metis
  then show ?thesis by (cases r) (simp_all add: Media asr_apply_def keeps_identity_def is_failed_value_def)
qed (simp_all add: asr_apply_def keeps_identity_def is_failed_value_def)

text \<open>The runner of comparison leaves a failed value in the place of a pair it fails on.\<close>

lemma compare_identity:
  "value_source_id (fst (snd (compare_apply E v s))) = value_source_id v \<and>
   is_failed_value (fst (snd (compare_apply E v s))) =
     (case v of Failed sid e p \<Rightarrow> True | Paired p \<Rightarrow> isl (fst (compare_apply E v s)) | _ \<Rightarrow> False)"
proof (cases v)
  case (Paired p)
  obtain main_chat input where q: "compare_request E p = (main_chat, input)" by (cases "compare_request E p")
  then have main: "ch_source_id main_chat = ch_source_id (pr_main p)"
    by (auto simp: compare_request_def Let_def strip_compare_tiers_def strip_gra_tiers_def)
  show ?thesis
    unfolding Paired compare_apply_def compare_attach_def q
    by (auto simp: main q value_list_def with_media_def is_failed_value_def compare_placeholder_def Let_def map_err_def bind_res_def
        split: prod.splits sum.splits option.splits)
qed (simp_all add: compare_apply_def is_failed_value_def Let_def)

text \<open>The runner of conversion takes the value of its answer, under the source of that answer.\<close>

lemma convert_identity:
  "case convert_apply E v s of (r, v', events, s') \<Rightarrow>
     is_failed_value v' = is_failed_value v \<and>
     (case v of
        Media media \<Rightarrow>
          (case r of
             Inl e \<Rightarrow> v' = v
           | Inr _ \<Rightarrow> (\<exists>audio out. cv_prepare E media = Inr audio \<and> v' = MediaOutput out \<and>
               bind_res (fst (cv_dispatch E (mi_source_id media, audio) s)) (try_from_output Convert) = Inr out \<and>
               value_source_id v' = mo_source_id out))
      | _ \<Rightarrow> v' = v)"
  by (cases v) (auto simp: convert_apply_def is_failed_value_def Let_def split: sum.splits prod.splits)

text \<open>C30: A stage runner leaves the identity of a value alone. For forced alignment, timing recovery, segmentation,
  diarization, morphosyntax, translation, coreference, phonetics and edits by a model, whatever the value, its
  backend and its state, the value afterwards has the same source, and it is a failed value exactly when it was one before.
  The runner of ASR does so too: with number rules that protect no empty prefix it returns. Comparison keeps the source, but a
  pair it fails on becomes a failed value. Conversion makes no value failed, and on success takes the source the answer
  gives: that it is the source of the recording is left to the backend and to the cache.\<close>

theorem runners_keep_identity:
  assumes "prefix_rules_ok (ar_asr Er)"
  shows "keeps_identity vf (fa_apply Ef vf sf) \<and>
   keeps_identity vw (utr_apply Ew vw sw) \<and>
   keeps_identity vu (utseg_apply Eu vu su) \<and>
   keeps_identity vs (speaker_apply Es vs ss) \<and>
   keeps_identity vm (mor_apply Em vm sm) \<and>
   keeps_identity vt (translate_apply Et vt st) \<and>
   keeps_identity vc (coref_apply Ec vc sc) \<and>
   keeps_identity vp (phonetic_apply Ep vp sp) \<and>
   keeps_identity va (ai_apply Ea va sa) \<and>
   (\<exists>out. asr_apply Er vr sr = Some out \<and> keeps_identity vr out) \<and>
   value_source_id (fst (snd (compare_apply Ek vk sk))) = value_source_id vk \<and>
   is_failed_value (fst (snd (compare_apply Ek vk sk))) =
     (case vk of Failed sid e p \<Rightarrow> True | Paired p \<Rightarrow> isl (fst (compare_apply Ek vk sk)) | _ \<Rightarrow> False) \<and>
   (case convert_apply Ev vv sv of (r, v', events, s') \<Rightarrow>
      is_failed_value v' = is_failed_value vv \<and>
      (case vv of
         Media media \<Rightarrow>
           (case r of
              Inl e \<Rightarrow> v' = vv
            | Inr _ \<Rightarrow> (\<exists>audio out. cv_prepare Ev media = Inr audio \<and> v' = MediaOutput out \<and>
                bind_res (fst (cv_dispatch Ev (mi_source_id media, audio) sv)) (try_from_output Convert) = Inr out \<and>
                value_source_id v' = mo_source_id out))
       | _ \<Rightarrow> v' = vv))"
  by (intro conjI fa.keeps utr.keeps utseg.keeps speaker.keeps mor.keeps translate.keeps coref.keeps phonetic.keeps ai.keeps
      asr_keeps [OF assms] compare_identity [THEN conjunct1] compare_identity [THEN conjunct2] convert_identity)

text \<open>A recording that has no audio: the runner of ASR fails, and the recording stays.\<close>

theorem runners_keep_identity_witness:
  "\<exists>out. asr_apply sample_runner_env (Media \<lparr>mi_source_id = str ''a'', mi_path = str ''a.wav'', mi_language = None\<rparr>) ()
      = Some out \<and>
    keeps_identity (Media \<lparr>mi_source_id = str ''a'', mi_path = str ''a.wav'', mi_language = None\<rparr>) out"
proof -
  have "prefix_rules_ok (ar_asr sample_runner_env)" by (simp add: sample_runner_env_def prefix_rules_ok_def plain_env_def)
  note all = runners_keep_identity [OF this]
  show ?thesis
    by (rule all [THEN conjunct2, THEN conjunct2, THEN conjunct2, THEN conjunct2, THEN conjunct2, THEN conjunct2, THEN conjunct2,
        THEN conjunct2, THEN conjunct2, THEN conjunct1])
qed

end
