(* ===== verification/LangDetect.thy ===== *)
theory LangDetect
  imports Prelude Complex_Main "HOL-Library.Multiset"
begin

text \<open>
  \<^verbatim>\<open>batchalign-core/src/asr/lang_detect.rs\<close>: the language of an utterance, the language most utterances have, and the
  languages a header lists. The trigram detector is the whatlang crate: the argument \<open>detect\<close> gives its language and
  its confidence, or nothing.
\<close>

section \<open>The table of codes\<close>

text \<open>
  The enum of languages belongs to whatlang: a value of it is the name of its variant. The match of the code names
  every variant there is.
\<close>

type_synonym whatlang_lang = string

definition LANG_CODES :: "(whatlang_lang \<times> string) list" where
  "LANG_CODES = [
     (''Eng'', ''eng''), (''Spa'', ''spa''), (''Fra'', ''fra''), (''Deu'', ''deu''), (''Ita'', ''ita''),
     (''Por'', ''por''), (''Nld'', ''nld''), (''Jpn'', ''jpn''), (''Kor'', ''kor''), (''Rus'', ''rus''),
     (''Ara'', ''ara''), (''Tur'', ''tur''), (''Cmn'', ''zho''), (''Pol'', ''pol''), (''Ces'', ''ces''),
     (''Ron'', ''ron''), (''Hun'', ''hun''), (''Bul'', ''bul''), (''Hrv'', ''hrv''), (''Srp'', ''srp''),
     (''Slk'', ''slk''), (''Slv'', ''slv''), (''Ukr'', ''ukr''), (''Lit'', ''lit''), (''Lav'', ''lav''),
     (''Est'', ''est''), (''Fin'', ''fin''), (''Dan'', ''dan''), (''Swe'', ''swe''), (''Cym'', ''cym''),
     (''Cat'', ''cat''), (''Hin'', ''hin''), (''Urd'', ''urd''), (''Ben'', ''ben''), (''Tam'', ''tam''),
     (''Tel'', ''tel''), (''Kan'', ''kan''), (''Mal'', ''mal''), (''Mar'', ''mar''), (''Nep'', ''nep''),
     (''Tha'', ''tha''), (''Vie'', ''vie''), (''Ind'', ''ind''), (''Tgl'', ''tgl''), (''Kat'', ''kat''),
     (''Pes'', ''fas''), (''Heb'', ''heb''), (''Afr'', ''afr''), (''Guj'', ''guj''), (''Pan'', ''pan''),
     (''Ell'', ''ell''), (''Mkd'', ''mkd''), (''Aze'', ''aze''), (''Uzb'', ''uzb''), (''Nob'', ''nor''),
     (''Epo'', ''epo''), (''Jav'', ''jav''), (''Lat'', ''lat''), (''Ori'', ''ori''), (''Amh'', ''amh''),
     (''Hye'', ''hye''), (''Yid'', ''yid''), (''Khm'', ''khm''), (''Mya'', ''mya''), (''Sin'', ''sin''),
     (''Tuk'', ''tuk''), (''Bel'', ''bel''), (''Aka'', ''aka''), (''Sna'', ''sna''), (''Zul'', ''zul'')]"

definition whatlang_to_iso639_3 :: "whatlang_lang \<Rightarrow> rstr" where
  "whatlang_to_iso639_3 lang = (case map_of LANG_CODES lang of Some code \<Rightarrow> str code | None \<Rightarrow> [])"

section \<open>One utterance\<close>

definition UTTERANCE_CONFIDENCE_THRESHOLD :: rat where
  "UTTERANCE_CONFIDENCE_THRESHOLD = 1 / 2"

definition MIN_CHARS_FOR_DETECTION :: nat where
  "MIN_CHARS_FOR_DETECTION = 40"

definition MIN_UTTERANCES_FOR_SECONDARY :: nat where
  "MIN_UTTERANCES_FOR_SECONDARY = 3"

type_synonym detector = "rstr \<Rightarrow> (whatlang_lang \<times> rat) option"

definition detect_utterance_language :: "unicode \<Rightarrow> detector \<Rightarrow> rstr \<Rightarrow> rstr option" where
  "detect_utterance_language U detect t =
     (let clean = trim t in
      if length (filter (char_is_alphabetic U) clean) < MIN_CHARS_FOR_DETECTION then None
      else (case detect clean of
          None \<Rightarrow> None
        | Some (lang, confidence) \<Rightarrow>
            if confidence < UTTERANCE_CONFIDENCE_THRESHOLD then None else Some (whatlang_to_iso639_3 lang)))"

section \<open>Counting\<close>

text \<open>The vector of counts, in the order the languages are first seen; the first entry of the language is found.\<close>

fun bump_language :: "rstr \<Rightarrow> (rstr \<times> nat) list \<Rightarrow> (rstr \<times> nat) list" where
  "bump_language lang [] = [(lang, 1)]"
| "bump_language lang ((l, n) # counts) = (if l = lang then (l, n + 1) # counts else (l, n) # bump_language lang counts)"

fun count_languages :: "unicode \<Rightarrow> detector \<Rightarrow> rstr list \<Rightarrow> (rstr \<times> nat) list \<Rightarrow> (rstr \<times> nat) list" where
  "count_languages U detect [] counts = counts"
| "count_languages U detect (t # texts) counts =
     count_languages U detect texts
       (case detect_utterance_language U detect t of Some lang \<Rightarrow> bump_language lang counts | None \<Rightarrow> counts)"

text \<open>\<open>sort_by_key(Reverse(count))\<close>, which is stable.\<close>

definition by_frequency :: "(rstr \<times> nat) list \<Rightarrow> (rstr \<times> nat) list" where
  "by_frequency counts = sort_key (\<lambda>(l, n). - int n) counts"

definition detect_primary_language :: "unicode \<Rightarrow> detector \<Rightarrow> rstr list \<Rightarrow> rstr option" where
  "detect_primary_language U detect texts =
     (let counts = count_languages U detect texts []
      in if counts = [] then None else Some (fst (by_frequency counts ! 0)))"

fun push_secondary :: "rstr \<Rightarrow> (rstr \<times> nat) list \<Rightarrow> rstr list \<Rightarrow> rstr list" where
  "push_secondary primary_lang [] result = result"
| "push_secondary primary_lang ((lang, n) # counts) result =
     push_secondary primary_lang counts
       (if lang \<noteq> primary_lang \<and> \<not> mem lang result \<and> MIN_UTTERANCES_FOR_SECONDARY \<le> n then result @ [lang] else result)"

definition collect_detected_languages :: "unicode \<Rightarrow> detector \<Rightarrow> rstr list \<Rightarrow> rstr \<Rightarrow> rstr list" where
  "collect_detected_languages U detect texts primary_lang =
     push_secondary primary_lang (by_frequency (count_languages U detect texts [])) [primary_lang]"

section \<open>The counts are the numbers of utterances\<close>

definition language_tags :: "unicode \<Rightarrow> detector \<Rightarrow> rstr list \<Rightarrow> rstr list" where
  "language_tags U detect texts = List.map_filter (detect_utterance_language U detect) texts"

lemma language_tags_simps [simp]:
  "language_tags U detect [] = []"
  "language_tags U detect (t # texts) =
     (case detect_utterance_language U detect t of Some lang \<Rightarrow> [lang] | None \<Rightarrow> []) @ language_tags U detect texts"
  by (simp_all add: language_tags_def List.map_filter_simps split: option.split)

definition count_of :: "(rstr \<times> nat) list \<Rightarrow> rstr \<Rightarrow> nat" where
  "count_of counts l = (case map_of counts l of Some n \<Rightarrow> n | None \<Rightarrow> 0)"

definition tally :: "(rstr \<times> nat) list \<Rightarrow> bool" where
  "tally counts \<longleftrightarrow> distinct (map fst counts) \<and> (\<forall>(l, n) \<in> set counts. 0 < n)"

lemma bump_language_keys: "fst ` set (bump_language lang counts) = insert lang (fst ` set counts)"
  by (induction lang counts rule: bump_language.induct) auto

lemma bump_language_tally: "tally counts \<Longrightarrow> tally (bump_language lang counts)"
proof (induction lang counts rule: bump_language.induct)
  case (2 lang l n counts)
  then show ?case using bump_language_keys [of lang counts] by (auto simp: tally_def)
qed (simp add: tally_def)

lemma bump_language_count: "count_of (bump_language lang counts) l = count_of counts l + (if l = lang then 1 else 0)"
  by (induction lang counts rule: bump_language.induct) (auto simp: count_of_def split: option.split)

lemma count_languages_tally: "tally counts \<Longrightarrow> tally (count_languages U detect texts counts)"
  by (induction U detect texts counts rule: count_languages.induct) (simp add: bump_language_tally split: option.split)+

lemma count_languages_count:
  "count_of (count_languages U detect texts counts) l = count_of counts l + count_list (language_tags U detect texts) l"
  by (induction U detect texts counts rule: count_languages.induct) (auto simp: bump_language_count split: option.split)

lemma tally_entry:
  assumes "tally counts"
  shows "(l, n) \<in> set counts \<longleftrightarrow> n = count_of counts l \<and> 0 < n"
proof -
  have d: "distinct (map fst counts)" and pos: "\<And>n. (l, n) \<in> set counts \<Longrightarrow> 0 < n"
    using assms by (auto simp: tally_def)
  show ?thesis
  proof (cases "map_of counts l")
    case None
    then show ?thesis using map_of_eq_Some_iff [OF d, of l n] by (auto simp: count_of_def)
  next
    case (Some m)
    then have "(l, n) \<in> set counts \<longleftrightarrow> n = m" using map_of_eq_Some_iff [OF d, of l n] by auto
    with Some pos show ?thesis by (auto simp: count_of_def)
  qed
qed

lemma count_languages_entry:
  "(l, n) \<in> set (count_languages U detect texts []) \<longleftrightarrow> n = count_list (language_tags U detect texts) l \<and> 0 < n"
proof -
  have "count_of (count_languages U detect texts []) l = count_list (language_tags U detect texts) l"
    by (simp add: count_languages_count) (simp add: count_of_def)
  moreover have "tally (count_languages U detect texts [])" by (rule count_languages_tally) (simp add: tally_def)
  ultimately show ?thesis by (simp add: tally_entry)
qed

lemma push_secondary_filter:
  "distinct (map fst counts) \<Longrightarrow> set result \<inter> fst ` set counts \<subseteq> {primary_lang} \<Longrightarrow>
   push_secondary primary_lang counts result =
     result @ map fst (filter (\<lambda>(l, n). l \<noteq> primary_lang \<and> MIN_UTTERANCES_FOR_SECONDARY \<le> n) counts)"
proof (induction counts arbitrary: result)
  case (Cons c counts)
  obtain lang n where c: "c = (lang, n)" by (cases c)
  have "push_secondary primary_lang counts r =
      r @ map fst (filter (\<lambda>(l, n). l \<noteq> primary_lang \<and> MIN_UTTERANCES_FOR_SECONDARY \<le> n) counts)"
    if "set r \<inter> fst ` set counts \<subseteq> {primary_lang}" for r
    using Cons.IH [OF _ that] Cons.prems(1) by simp
  moreover have "set result \<inter> fst ` set counts \<subseteq> {primary_lang}" "set (result @ [lang]) \<inter> fst ` set counts \<subseteq> {primary_lang}"
    "mem lang result \<Longrightarrow> lang = primary_lang"
    using Cons.prems c by (simp_all add: subset_iff image_iff)
  ultimately show ?case using Cons.prems c by auto
qed simp

lemma by_frequency_facts:
  "set (by_frequency counts) = set counts" "distinct (map fst counts) \<Longrightarrow> distinct (map fst (by_frequency counts))"
  "sorted_wrt (\<lambda>a b. snd b \<le> snd a) (by_frequency counts)"
proof -
  have "mset (map fst (by_frequency counts)) = mset (map fst counts)"
    unfolding by_frequency_def mset_map mset_sort ..
  then show "distinct (map fst counts) \<Longrightarrow> distinct (map fst (by_frequency counts))"
    using mset_eq_imp_distinct_iff by blast
  have "sorted (map (\<lambda>(l, n). - int n) (by_frequency counts))" by (simp add: by_frequency_def)
  then show "sorted_wrt (\<lambda>a b. snd b \<le> snd a) (by_frequency counts)"
    unfolding sorted_map by (rule sorted_wrt_mono_rel [rotated]) auto
qed (simp add: by_frequency_def)

lemma primary_of_counts:
  assumes entry: "\<And>l n. (l, n) \<in> set sorted_counts \<longleftrightarrow> n = count_list tags l \<and> 0 < n"
    and desc: "sorted_wrt (\<lambda>a b. snd b \<le> snd a) sorted_counts"
  shows "case sorted_counts of [] \<Rightarrow> tags = []
    | (l, n) # rest \<Rightarrow> mem l tags \<and> (\<forall>l'. count_list tags l' \<le> count_list tags l)"
proof (cases sorted_counts)
  case Nil
  then have "count_list tags l = 0" for l using entry [of l "count_list tags l"] by simp
  then have "l \<notin> set tags" for l by (simp add: count_list_0_iff)
  then show ?thesis using Nil by (cases tags) auto
next
  case (Cons c rest)
  obtain l n where c: "c = (l, n)" by (cases c)
  have n: "n = count_list tags l" "0 < n" using entry [of l n] Cons c by auto
  have "count_list tags l' \<le> n" for l'
  proof (cases "count_list tags l' = 0")
    case False
    then have "(l', count_list tags l') \<in> set sorted_counts" by (simp add: entry)
    then show ?thesis using desc Cons c by auto
  qed simp
  moreover have "mem l tags" using n count_list_0_iff [of tags l] by fastforce
  ultimately show ?thesis using Cons c n by simp
qed

lemma votes_of_secondary:
  assumes entry: "\<And>l n. (l, n) \<in> set sorted_counts \<longleftrightarrow> n = count_list tags l \<and> 0 < n"
    and desc: "sorted_wrt (\<lambda>a b. snd b \<le> snd a) sorted_counts"
  shows "sorted_wrt (\<lambda>a b. count_list tags b \<le> count_list tags a) (map fst (filter P sorted_counts))"
  unfolding sorted_wrt_map
  by (rule sorted_wrt_mono_rel [rotated, OF sorted_wrt_filter [OF desc]]) (auto simp: entry)

text \<open>Languages are decided by votes of utterances: the primary language is one no other language outvotes, absent only
  when no utterance is tagged; the list for the header begins with the given primary language, names no language
  twice, names beside it exactly the languages of at least three utterances, and these in descending order of their
  votes.\<close>

lemma languages_by_vote:
  "(let tags = language_tags U detect texts; ls = collect_detected_languages U detect texts primary_lang in
     (case detect_primary_language U detect texts of
        None \<Rightarrow> tags = []
      | Some l \<Rightarrow> mem l tags \<and> (\<forall>l'. count_list tags l' \<le> count_list tags l)) \<and>
     ls = primary_lang # tl ls \<and> distinct ls \<and>
     set ls = insert primary_lang {l. 3 \<le> count_list tags l} \<and>
     sorted_wrt (\<lambda>a b. count_list tags b \<le> count_list tags a) (tl ls))"
proof -
  let ?tags = "language_tags U detect texts" and ?counts = "count_languages U detect texts []"
  let ?votes = "count_list ?tags" and ?sorted = "by_frequency ?counts"
  have t: "tally ?counts" by (rule count_languages_tally) (simp add: tally_def)
  then have d: "distinct (map fst ?sorted)" by (simp add: by_frequency_facts(2) tally_def)
  have entry: "(l, n) \<in> set ?sorted \<longleftrightarrow> n = ?votes l \<and> 0 < n" for l n
    by (simp add: by_frequency_facts(1) count_languages_entry)
  have empty: "?sorted = [] \<longleftrightarrow> ?counts = []" using by_frequency_facts(1) [of ?counts] by (metis set_empty)
  have primary: "case detect_primary_language U detect texts of None \<Rightarrow> ?tags = []
      | Some l \<Rightarrow> mem l ?tags \<and> (\<forall>l'. ?votes l' \<le> ?votes l)"
    using primary_of_counts [OF entry by_frequency_facts(3)] empty
    by (auto simp: detect_primary_language_def Let_def split: list.splits)
  have e: "collect_detected_languages U detect texts primary_lang =
      primary_lang # map fst (filter (\<lambda>(l, n). l \<noteq> primary_lang \<and> 3 \<le> n) ?sorted)" (is "?ls = _ # ?rest")
    using push_secondary_filter [OF d, of "[primary_lang]"]
    by (auto simp: collect_detected_languages_def MIN_UTTERANCES_FOR_SECONDARY_def)
  have "set ?rest = {l. l \<noteq> primary_lang \<and> 3 \<le> ?votes l}"
    by (auto simp: entry image_iff Bex_def) 
  moreover have "distinct ?rest" using d by (rule distinct_map_filter)
  moreover have "sorted_wrt (\<lambda>a b. ?votes b \<le> ?votes a) ?rest"
    by (rule votes_of_secondary [OF entry by_frequency_facts(3)])
  ultimately show ?thesis using primary unfolding Let_def e by auto
qed

end
