(* ===== verification/MediaConvertLaws.thy ===== *)
theory MediaConvertLaws
  imports MediaConvert
begin

text \<open>
  What conversion promises: a WAV file is read back as the samples that went in, no sample overflows 16 bits, and
  resampling keeps the duration.
\<close>

section \<open>A reader of WAV files\<close>

text \<open>
  The specification of the writer: a reader that checks every field of the header against the others and gives the
  channels, the rate and the samples. Each step consumes a prefix and returns the rest.
\<close>

definition expect_bytes :: "u8 list \<Rightarrow> u8 list \<Rightarrow> u8 list option" where
  "expect_bytes p bs = (if take (length p) bs = p then Some (drop (length p) bs) else None)"

definition read_le :: "nat \<Rightarrow> u8 list \<Rightarrow> (nat \<times> u8 list) option" where
  "read_le n bs = (if length bs < n then None else Some (le_value (take n bs), drop n bs))"

definition read_fmt :: "u8 list \<Rightarrow> (nat \<times> nat \<times> u8 list) option" where
  "read_fmt bs =
     Option.bind (read_le 4 bs) (\<lambda>(fmt_len, bs).
     Option.bind (read_le 2 bs) (\<lambda>(fmt, bs).
     Option.bind (read_le 2 bs) (\<lambda>(channels, bs).
     Option.bind (read_le 4 bs) (\<lambda>(rate, bs).
     Option.bind (read_le 4 bs) (\<lambda>(byte_rate, bs).
     Option.bind (read_le 2 bs) (\<lambda>(block_align, bs).
     Option.bind (read_le 2 bs) (\<lambda>(bits, bs).
       if fmt_len = 16 \<and> fmt = 1 \<and> bits = 16 \<and> block_align = channels * 2 \<and> byte_rate = rate * block_align
       then Some (channels, rate, bs) else None)))))))"

definition read_wav :: "u8 list \<Rightarrow> (u16 \<times> u32 \<times> u16 list) option" where
  "read_wav bs =
     Option.bind (expect_bytes (ascii_bytes ''RIFF'') bs) (\<lambda>bs.
     Option.bind (read_le 4 bs) (\<lambda>(riff_len, bs).
       if riff_len \<noteq> length bs then None else
     Option.bind (expect_bytes (ascii_bytes ''WAVEfmt '') bs) (\<lambda>bs.
     Option.bind (read_fmt bs) (\<lambda>(channels, rate, bs).
     Option.bind (expect_bytes (ascii_bytes ''data'') bs) (\<lambda>bs.
     Option.bind (read_le 4 bs) (\<lambda>(data_len, bs).
       if data_len \<noteq> length bs then None
       else Some (of_nat channels, of_nat rate, map (\<lambda>b. of_nat (le_value b)) (chunks_exact 2 bs))))))))"

section \<open>Bytes\<close>

lemma length_le_bytes [simp]: "length (le_bytes n v) = n"
  by (induction n v rule: le_bytes.induct) simp_all

lemma le_value_bytes [simp]: "le_value (le_bytes n v) = v mod 256 ^ n"
proof (induction n v rule: le_bytes.induct)
  case (2 n v)
  then show ?case by (simp add: unat_of_nat mod_mult2_eq)
qed simp

lemma expect_bytes_append [simp]: "expect_bytes p (p @ r) = Some r"
  by (simp add: expect_bytes_def)

lemma read_le_append: "v < 256 ^ n \<Longrightarrow> read_le n (le_bytes n v @ r) = Some (v, r)"
  by (simp add: read_le_def)

lemma unat_bounds: "unat (w :: u32) < 2 ^ 32" "unat (h :: u16) < 2 ^ 16"
proof -
  have "unat w < 2 ^ LENGTH(32)" "unat h < 2 ^ LENGTH(16)" by (rule unsigned_less)+
  then show "unat w < 2 ^ 32" "unat h < 2 ^ 16" by simp_all
qed

lemma unat_of_nat_fits:
  "n < 2 ^ 32 \<Longrightarrow> unat (of_nat n :: u32) = n" "n < 2 ^ 16 \<Longrightarrow> unat (of_nat n :: u16) = n"
  by (simp_all add: unat_of_nat)

lemma read_le_words [simp]:
  "read_le 4 (le_bytes 4 (unat (w :: u32)) @ r) = Some (unat w, r)"
  "read_le 2 (le_bytes 2 (unat (h :: u16)) @ r) = Some (unat h, r)"
  using unat_bounds(1) [of w] unat_bounds(2) [of h] by (simp_all add: read_le_append)

lemma read_le_numerals [simp]:
  "read_le 4 (le_bytes 4 16 @ r) = Some (16, r)" "read_le 2 (le_bytes 2 16 @ r) = Some (16, r)"
  "read_le 2 (le_bytes 2 (Suc 0) @ r) = Some (Suc 0, r)"
  by (simp_all add: read_le_append)

lemma chunks_exact_append: "0 < n \<Longrightarrow> length x = n \<Longrightarrow> chunks_exact n (x @ ys) = x # chunks_exact n ys"
  by (subst chunks_exact.simps) simp

lemma chunks_exact_concat: "0 < n \<Longrightarrow> list_all (\<lambda>x. length x = n) xss \<Longrightarrow> chunks_exact n (concat xss) = xss"
proof (induction xss)
  case Nil
  then show ?case by (subst chunks_exact.simps) simp
qed (simp add: chunks_exact_append)

lemma length_chunks_exact: "0 < n \<Longrightarrow> length (chunks_exact n xs) = length xs div n"
proof (induction n xs rule: chunks_exact.induct)
  case (1 n xs)
  show ?case
  proof (cases "length xs < n")
    case True
    then show ?thesis by (subst chunks_exact.simps) simp
  next
    case False
    with 1 have "length (chunks_exact n (drop n xs)) = (length xs - n) div n" by simp
    moreover have "length xs div n = Suc ((length xs - n) div n)" using 1(2) False by (simp add: le_div_geq)
    ultimately show ?thesis using 1(2) False by (subst chunks_exact.simps) simp
  qed
qed

section \<open>What is written is read back\<close>

lemma read_fmt_written:
  assumes "unat block_align = unat channels * 2" and "unat byte_rate = unat rate * unat block_align"
  shows "read_fmt (le_bytes 4 16 @ le_bytes 2 1 @ le_bytes 2 (unat (channels :: u16)) @ le_bytes 4 (unat (rate :: u32)) @
     le_bytes 4 (unat (byte_rate :: u32)) @ le_bytes 2 (unat (block_align :: u16)) @ le_bytes 2 16 @ r) =
     Some (unat channels, unat rate, r)"
  by (simp add: read_fmt_def) (simp add: assms)

lemma ascii_lengths: "length (ascii_bytes s) = length s"
  by (simp add: ascii_bytes_def)

lemma read_wav_file:
  assumes "unat block_align = unat channels * 2" and "unat byte_rate = unat rate * unat block_align"
    and "unat data_len = 2 * length samples" and "unat riff_len = 36 + unat data_len"
  shows "read_wav (wav_file channels rate block_align byte_rate riff_len data_len samples) = Some (channels, rate, samples)"
proof -
  let ?data = "concat (map (\<lambda>s. le_bytes 2 (unat s)) samples)"
  have len: "length ?data = 2 * length samples" by (simp add: length_concat comp_def sum_list_triv)
  have "chunks_exact 2 ?data = map (\<lambda>s. le_bytes 2 (unat s)) samples"
    by (rule chunks_exact_concat) (simp_all add: list_all_iff)
  moreover have "le_value (le_bytes 2 (unat (s :: u16))) = unat s" for s using unat_bounds(2) [of s] by simp
  ultimately have samples: "map (\<lambda>b. of_nat (le_value b)) (chunks_exact 2 ?data) = samples"
    by (simp add: comp_def del: le_value_bytes)
  let ?fmt = "le_bytes 4 16 @ le_bytes 2 1 @ le_bytes 2 (unat channels) @ le_bytes 4 (unat rate) @ le_bytes 4 (unat byte_rate) @
     le_bytes 2 (unat block_align) @ le_bytes 2 16 @ ascii_bytes ''data'' @ le_bytes 4 (unat data_len) @ ?data"
  have riff: "length (ascii_bytes ''WAVEfmt '' @ ?fmt) = unat riff_len"
    by (simp add: ascii_lengths len assms(3,4))
  have data: "length ?data = unat data_len" by (simp add: len assms(3))
  show ?thesis
    unfolding wav_file_def read_wav_def
    by (simp only: expect_bytes_append read_le_words Option.bind.simps prod.case riff data samples
        read_fmt_written [OF assms(1,2)] simp_thms if_False) simp
qed

lemma wav_file_length:
  "length (wav_file channels rate block_align byte_rate riff_len data_len samples) = 44 + 2 * length samples"
  by (simp add: wav_file_def ascii_bytes_def length_concat comp_def sum_list_triv)

lemma checked_u16_Inr: "checked_u16 n m = Inr w \<Longrightarrow> unat w = n \<and> n < 2 ^ 16"
  unfolding checked_u16_def using unat_of_nat_fits(2) [of n] by (auto split: if_splits simp del: of_nat_numeral)

lemma checked_u32_Inr: "checked_u32 n m = Inr w \<Longrightarrow> unat w = n \<and> n < 2 ^ 32"
  unfolding checked_u32_def using unat_of_nat_fits(1) [of n] by (auto split: if_splits)

lemma checked_fits: "n < 2 ^ 16 \<Longrightarrow> \<exists>w. checked_u16 n m = Inr w \<and> unat w = n" "k < 2 ^ 32 \<Longrightarrow> \<exists>v. checked_u32 k m = Inr v \<and> unat v = k"
  unfolding checked_u16_def checked_u32_def using unat_of_nat_fits(2) [of n] unat_of_nat_fits(1) [of k] by simp_all

definition wav_fits :: "prepared_audio \<Rightarrow> bool" where
  "wav_fits audio \<longleftrightarrow>
     (let channels = unat (pa_channels audio); samples = length (pa_pcm audio) div 4
      in 0 < channels \<and> length (pa_pcm audio) mod 4 = 0 \<and> samples mod channels = 0 \<and>
         channels * 2 < 2 ^ 16 \<and> unat (pa_sample_rate audio) * (channels * 2) < 2 ^ 32 \<and> 36 + 2 * samples < 2 ^ 32)"

lemma pcm_f32_Inr: "pcm_f32 audio = Inr samples \<longleftrightarrow>
   samples = map (\<lambda>bytes. f32_from_bits (of_nat (le_value bytes))) (chunks_exact 4 (pa_pcm audio)) \<and>
   0 < unat (pa_channels audio) \<and> length (pa_pcm audio) mod 4 = 0 \<and>
   (length (pa_pcm audio) div 4) mod unat (pa_channels audio) = 0"
  by (auto simp: pcm_f32_def Let_def length_chunks_exact unat_gt_0)

lemma encode_wav_Inr:
  assumes "encode_wav audio = Inr bytes"
  shows "wav_fits audio \<and> (\<exists>samples. pcm_f32 audio = Inr samples \<and> length bytes = 44 + 2 * length samples \<and>
    read_wav bytes = Some (pa_channels audio, pa_sample_rate audio, map sample_to_i16 samples))"
proof -
  from assms obtain samples data_len block_align byte_rate riff_len m1 m2 m3 m4 where pcm: "pcm_f32 audio = Inr samples"
    and c: "checked_u32 (length samples * 2) m1 = Inr data_len" "checked_u16 (unat (pa_channels audio) * 2) m2 = Inr block_align"
      "checked_u32 (unat (pa_sample_rate audio) * unat block_align) m3 = Inr byte_rate" "checked_u32 (36 + unat data_len) m4 = Inr riff_len"
    and bytes: "bytes = wav_file (pa_channels audio) (pa_sample_rate audio) block_align byte_rate riff_len data_len
        (map sample_to_i16 samples)"
    unfolding encode_wav_def bind_res_Inr_iff by blast
  note u = checked_u32_Inr [OF c(1)] checked_u16_Inr [OF c(2)] checked_u32_Inr [OF c(3)] checked_u32_Inr [OF c(4)]
  have "wav_fits audio" using pcm u by (auto simp: wav_fits_def Let_def pcm_f32_Inr length_chunks_exact mult.commute)
  moreover have "read_wav bytes = Some (pa_channels audio, pa_sample_rate audio, map sample_to_i16 samples)"
    unfolding bytes by (rule read_wav_file) (use u in simp_all)
  ultimately show ?thesis using pcm by (simp add: bytes wav_file_length)
qed

lemma encode_wav_Inl:
  assumes "encode_wav audio = Inl e"
  shows "\<not> wav_fits audio"
proof
  assume fits: "wav_fits audio"
  then obtain samples where pcm: "pcm_f32 audio = Inr samples"
    unfolding wav_fits_def Let_def by (auto simp: pcm_f32_Inr)
  then have len: "length samples = length (pa_pcm audio) div 4" by (auto simp: pcm_f32_Inr length_chunks_exact)
  have step: "checked_u32 n m \<noteq> Inl e'" if "n < 2 ^ 32" for n m e' using that by (simp add: checked_u32_def)
  have step16: "checked_u16 n m \<noteq> Inl e'" if "n < 2 ^ 16" for n m e' using that by (simp add: checked_u16_def)
  have sizes: "length samples * 2 < 2 ^ 32" "unat (pa_channels audio) * 2 < 2 ^ 16"
    "unat (pa_sample_rate audio) * (unat (pa_channels audio) * 2) < 2 ^ 32" "36 + length samples * 2 < 2 ^ 32"
    using fits len by (auto simp: wav_fits_def Let_def algebra_simps)
  obtain data_len where d: "checked_u32 (length samples * 2) (str ''convert: WAV output exceeds RIFF's 4 GiB limit'') = Inr data_len"
    "unat data_len = length samples * 2" using checked_fits(2) [OF sizes(1)] by blast
  obtain block_align where b: "checked_u16 (unat (pa_channels audio) * 2) (str ''convert: WAV channel layout is too large'') = Inr block_align"
    "unat block_align = unat (pa_channels audio) * 2" using checked_fits(1) [OF sizes(2)] by blast
  obtain byte_rate where r: "checked_u32 (unat (pa_sample_rate audio) * unat block_align) (str ''convert: WAV byte rate overflow'') = Inr byte_rate"
    using checked_fits(2) sizes(3) b(2) by metis
  obtain riff_len where "checked_u32 (36 + unat data_len) (str ''convert: WAV RIFF length overflow'') = Inr riff_len"
    using checked_fits(2) sizes(4) d(2) by metis
  with assms show False unfolding encode_wav_def pcm by (simp only: bind_res_simps d(1) b(1) r) simp
qed

text \<open>C32: A WAV file says what it holds: conversion to WAV succeeds exactly when the audio has channels, whole samples and whole
  frames and every size fits its header field, and then a reader that checks every header field against the others
  gets back the number of channels, the sampling rate and each sample in order; the file has 44 bytes and two
  for each sample.\<close>

theorem wav_read_back:
  "case encode_wav audio of
     Inl e \<Rightarrow> \<not> wav_fits audio
   | Inr bytes \<Rightarrow> wav_fits audio \<and>
       (\<exists>samples. pcm_f32 audio = Inr samples \<and> length bytes = 44 + 2 * length samples \<and>
         read_wav bytes = Some (pa_channels audio, pa_sample_rate audio, map sample_to_i16 samples))"
proof (cases "encode_wav audio")
  case (Inl e)
  then show ?thesis using encode_wav_Inl by simp
next
  case (Inr bytes)
  then show ?thesis using encode_wav_Inr by simp
qed

section \<open>Samples of 16 bits\<close>

lemma twice_abs_leI: "- c \<le> 2 * a \<Longrightarrow> 2 * a \<le> c \<Longrightarrow> 2 * \<bar>a\<bar> \<le> (c :: 'a :: linordered_idom)"
  by (auto simp: abs_if)

lemma twice_abs_leD: "2 * \<bar>a\<bar> \<le> (c :: 'a :: linordered_idom) \<Longrightarrow> - c \<le> 2 * a" "2 * \<bar>a\<bar> \<le> c \<Longrightarrow> 2 * a \<le> c"
  by (auto simp: abs_if split: if_splits)

lemma rust_round_near: "2 * \<bar>of_int (rust_round x) - x\<bar> \<le> 1"
proof (cases "x < 0")
  case True
  have "of_int \<lfloor>- x + 1 / 2\<rfloor> \<le> - x + 1 / 2" "- x + 1 / 2 < of_int \<lfloor>- x + 1 / 2\<rfloor> + 1"
    using floor_correct [of "- x + 1 / 2"] by simp_all
  then show ?thesis using True unfolding rust_round_def by (intro twice_abs_leI) (simp_all, linarith+)
next
  case False
  have "of_int \<lfloor>x + 1 / 2\<rfloor> \<le> x + 1 / 2" "x + 1 / 2 < of_int \<lfloor>x + 1 / 2\<rfloor> + 1"
    using floor_correct [of "x + 1 / 2"] by simp_all
  then show ?thesis using False unfolding rust_round_def by (intro twice_abs_leI) (simp_all, linarith+)
qed

lemma rust_round_bounds: "of_int a \<le> x \<Longrightarrow> x \<le> of_int b \<Longrightarrow> a \<le> rust_round x \<and> rust_round x \<le> b"
proof -
  assume "of_int a \<le> x" and "x \<le> of_int b"
  note near = this twice_abs_leD [OF rust_round_near [of x]]
  have "of_int a < (of_int (rust_round x) :: rat) + 1" using near(1,3) by (simp add: algebra_simps)
  moreover have "(of_int (rust_round x) :: rat) < of_int b + 1" using near(2,4) by (simp add: algebra_simps)
  ultimately have "of_int a < (of_int (rust_round x + 1) :: rat)" "(of_int (rust_round x) :: rat) < of_int (b + 1)" by simp_all
  then show ?thesis unfolding of_int_less_iff by simp
qed

lemma sint_word_of_int_16: "- 32768 \<le> i \<Longrightarrow> i \<le> 32767 \<Longrightarrow> sint (word_of_int i :: u16) = i"
  by (simp only: signed_of_int) (simp add: signed_take_bit_int_eq_self)

lemma sint_as_i16: "- 32768 \<le> i \<Longrightarrow> i \<le> 32767 \<Longrightarrow> sint (as_i16 i) = i"
  by (simp add: as_i16_def min_absorb2 max_absorb2 sint_word_of_int_16)

lemma s_clamp_range: "lo \<le> hi \<Longrightarrow> s_clamp lo hi s = Num v \<Longrightarrow> lo \<le> v \<and> v \<le> hi"
  by (cases s) auto

text \<open>The products of the code stay below \<open>2\<^sup>1\<^sup>5\<close>, where the numbers of \<open>f32\<close> are at most \<open>1/512\<close> apart.\<close>

lemma f32_product:
  assumes "of_int i \<le> x" and "x \<le> of_int j" and "- 32768 \<le> i" and "j \<le> 32767"
  shows "\<exists>y. f32_nearest x = Some y \<and> of_int i \<le> y \<and> y \<le> of_int j \<and> 2 * \<bar>y - x\<bar> \<le> 1 / 512"
proof -
  have low: "- 32768 \<le> x" and high: "x < 32768"
    using assms of_int_le_iff [of "- 32768" i, where ?'a = rat] of_int_le_iff [of j 32767, where ?'a = rat] by simp_all
  have ex: "\<exists>y. f32_nearest x = Some y \<and> of_int i' \<le> y \<and> y \<le> of_int j' \<and> 2 * \<bar>y - x\<bar> \<le> 2 ^ k / 2 ^ 149"
    if "\<bar>x\<bar> < 2 ^ 24 * (2 ^ k / 2 ^ 149)" "k \<le> 141" "of_int i' \<le> x" "x \<le> of_int j'" "- 32768 \<le> i'" "j' \<le> 32767" for i' j' k
  proof -
    note bounds = that
    obtain l where l: "l \<le> k" "spacing 24 149 254 x = Some (2 ^ l / 2 ^ 149)"
      using spacing_below [OF bounds(1), of 254] bounds(2) by auto
    let ?q = "2 ^ l / 2 ^ 149 :: rat"
    let ?y = "of_int (round_even (x / ?q)) * ?q"
    have whole: "of_int m = of_int (m * 2 ^ (149 - l)) * ?q" for m
    proof -
      have "(2 :: rat) ^ (149 - l) * 2 ^ l = 2 ^ 149" using l(1) bounds(2) by (simp flip: power_add)
      then show ?thesis by (simp add: mult.assoc)
    qed
    have y: "of_int i' \<le> ?y \<and> ?y \<le> of_int j'"
      by (rule nearest_between [OF _ whole whole bounds(3,4)]) simp
    have "(- 32768 :: rat) \<le> of_int i'" "of_int j' \<le> (32767 :: rat)"
      using bounds(5,6) of_int_le_iff [of "- 32768" i', where ?'a = rat] of_int_le_iff [of j' 32767, where ?'a = rat] by simp_all
    then have "\<bar>?y\<bar> \<le> 32768" using y by (simp only: abs_le_iff) linarith
    then have "\<bar>?y\<bar> < 2 ^ 128" by (rule le_less_trans) simp
    then have "f32_nearest x = Some ?y" by (simp add: f32_nearest_def nearest_float_def l(2))
    moreover have "2 * \<bar>?y - x\<bar> \<le> ?q" by (rule nearest_error) simp
    moreover have "?q \<le> 2 ^ k / 2 ^ 149" using l(1) by (simp add: divide_right_mono power_increasing)
    ultimately show ?thesis using y by (meson order_trans)
  qed
  show ?thesis
  proof (cases "x = - 32768")
    case False
    then have "\<bar>x\<bar> < 2 ^ 24 * (2 ^ 140 / 2 ^ 149)" using low high by (simp add: abs_less_iff)
    from ex [OF this _ assms] show ?thesis by simp
  next
    case True
    have "\<bar>x\<bar> < 2 ^ 24 * (2 ^ 141 / 2 ^ 149)" by (simp add: True)
    from ex [OF this, of "- 32768" "- 32768"] have "f32_nearest x = Some x" by (auto simp: True)
    then show ?thesis using assms by simp
  qed
qed

text \<open>C33: No sample overflows its 16 bits: whatever the 32 bits of a sample, the signed 16-bit number written for it is the
  nearest to the \<open>f32\<close> product of the clamped sample with the scale of its sign, and that product is within 1/1024 of the
  exact one; so neither end wraps around or saturates, the number is within half a step and 1/1024 of the exact
  product, and a sample that is not a number is written as 0.\<close>

theorem sample_to_i16_nearest:
  "case s_clamp (- 1) 1 s of
     Num v \<Rightarrow> \<exists>y. f32_nearest ((if v < 0 then 32768 else 32767) * v) = Some y \<and>
       2 * \<bar>y - (if v < 0 then 32768 else 32767) * v\<bar> \<le> 1 / 512 \<and>
       2 * \<bar>of_int (sint (sample_to_i16 s)) - y\<bar> \<le> 1
   | other \<Rightarrow> sample_to_i16 s = 0"
proof (cases "s_clamp (- 1) 1 s")
  case (Num v)
  define scale :: rat where "scale = (if v < 0 then 32768 else 32767)"
  have v: "- 1 \<le> v" "v \<le> 1" using s_clamp_range [of "- 1" 1 s v] Num by simp_all
  then have "of_int (- 32768) \<le> scale * v" "scale * v \<le> of_int 32767" by (auto simp: scale_def)
  from f32_product [OF this] obtain y where y: "f32_nearest (scale * v) = Some y" "of_int (- 32768) \<le> y" "y \<le> of_int 32767"
    "2 * \<bar>y - scale * v\<bar> \<le> 1 / 512" by auto
  have "sample_to_i16 s = as_i16 (rust_round y)"
    using Num y(1) by (simp add: sample_to_i16_def f32_def scale_def Let_def split: if_splits)
  then have "sint (sample_to_i16 s) = rust_round y" using rust_round_bounds [OF y(2,3)] by (simp add: sint_as_i16)
  then show ?thesis using y(1,4) rust_round_near [of y] by (simp add: Num scale_def)
next
  case PosInf
  then show ?thesis by (cases s) simp_all
next
  case NegInf
  then show ?thesis by (cases s) simp_all
qed (simp_all add: sample_to_i16_def Let_def)

text \<open>
  The product must be rounded before the half step is taken: the exact product of this sample is below the half, the
  number written is above it.
\<close>

lemma half_step_after_rounding:
  "s_clamp (- 1) 1 (f32_from_bits 0x3f000200) = Num (4194560 / 2 ^ 23) \<and> 2 * (32767 * (4194560 / 2 ^ 23)) < (2 * 16384 + 1 :: rat)
     \<and> f32_nearest (32767 * (4194560 / 2 ^ 23)) = Some (16384 + 1 / 2)"
proof -
  have "spacing 24 149 254 (32767 * (4194560 / 2 ^ 23)) = Some (2 ^ Suc 139 / 2 ^ 149)" by (rule spacing_eqI) simp_all
  moreover have "\<lfloor>536887295 / 64 :: rat\<rfloor> = 8388863" by (simp add: floor_eq_iff)
  ultimately show ?thesis by (simp add: f32_from_bits_def Let_def f32_nearest_def nearest_float_def round_even_def)
qed

section \<open>Resampling\<close>

lemma min_index_least:
  "min_index f xs = Some i \<Longrightarrow> i < length xs \<and> (\<forall>x \<in> set xs. f (xs ! i) \<le> f x)"
proof (induction xs arbitrary: i)
  case (Cons x xs)
  show ?case
  proof (cases "min_index f xs")
    case None
    then have "xs = []" by (cases xs) (auto split: option.splits if_splits)
    then show ?thesis using Cons.prems by simp
  next
    case (Some k)
    then show ?thesis using Cons.IH [OF Some] Cons.prems by (auto split: if_splits)
  qed
qed simp

lemma min_index_None: "min_index f (x # xs) \<noteq> None"
  by (simp split: option.split)

lemma nearest_mp3_rate_least:
  "mem (nearest_mp3_rate source) MP3_SAMPLE_RATES \<and>
   (\<forall>rate \<in> set MP3_SAMPLE_RATES. abs_diff (nearest_mp3_rate source) source \<le> abs_diff rate source)"
proof -
  obtain i where i: "min_index (\<lambda>rate. abs_diff rate source) MP3_SAMPLE_RATES = Some i"
    by (cases "min_index (\<lambda>rate. abs_diff rate source) MP3_SAMPLE_RATES")
       (simp_all add: MP3_SAMPLE_RATES_def min_index_None del: min_index.simps)
  then show ?thesis using min_index_least [OF i] nth_mem [of i MP3_SAMPLE_RATES] by (simp add: nearest_mp3_rate_def del: min_index.simps)
qed

lemma output_frames_bound:
  assumes "0 < source_rate"
  shows "2 * \<bar>int (output_frames n source_rate target_rate) * int source_rate - int n * int target_rate\<bar> \<le> int source_rate"
proof -
  let ?q = "output_frames n source_rate target_rate" and ?x = "n * target_rate + source_rate div 2"
  have "?q * source_rate + ?x mod source_rate = ?x" unfolding output_frames_def by (rule div_mult_mod_eq)
  moreover have "?x mod source_rate < source_rate" by (rule mod_less_divisor [OF assms])
  ultimately have "int ?q * int source_rate + int (?x mod source_rate) = int n * int target_rate + int (source_rate div 2)"
    "int (?x mod source_rate) < int source_rate"
    by (metis of_nat_add of_nat_mult) (simp add: assms)
  moreover have "2 * int (source_rate div 2) \<le> int source_rate" "int source_rate \<le> 2 * int (source_rate div 2) + 1"
    by linarith+
  moreover have "2 * \<bar>a - b\<bar> \<le> s" if "a + m = b + h" "m < s" "2 * h \<le> s" "s \<le> 2 * h + 1" "0 \<le> m" for a b m h s :: int
    using that by (intro twice_abs_leI) simp_all
  ultimately show ?thesis by (metis of_nat_0_le_iff)
qed

text \<open>Resampling keeps the duration: interleaved audio of a known rate always resamples, the frames stay whole, and the
  duration changes by at most half a source period.\<close>

lemma resample_keeps_duration:
  assumes "channels dvd length samples" and "0 < source_rate"
  shows "\<exists>out frames. resample_linear samples channels source_rate target_rate = Some out \<and> length out = frames * channels \<and>
    2 * \<bar>int frames * int source_rate - int (length samples div channels) * int target_rate\<bar> \<le> int source_rate"
proof (cases "samples = [] \<or> source_rate = target_rate")
  case True
  then have "resample_linear samples channels source_rate target_rate = Some samples" by (simp add: resample_linear_def)
  moreover have "length samples = (length samples div channels) * channels" using assms(1) by simp
  moreover have "2 * \<bar>int (length samples div channels) * int source_rate - int (length samples div channels) * int target_rate\<bar> \<le> int source_rate"
    using True by auto
  ultimately show ?thesis by blast
next
  case False
  define frames where "frames = output_frames (length samples div channels) source_rate target_rate"
  let ?out = "concat (map (resample_frame samples channels source_rate target_rate) [0..<frames])"
  have "resample_linear samples channels source_rate target_rate = Some ?out"
    using False assms(2) by (simp add: resample_linear_def frames_def)
  moreover have "length ?out = frames * channels"
    by (simp add: length_concat comp_def resample_frame_def Let_def sum_list_triv)
  ultimately show ?thesis using output_frames_bound [OF assms(2)] unfolding frames_def by blast
qed

section \<open>Whose file it is\<close>

text \<open>
  The value after conversion has the source of the answer, not of the input. The key of the result cache is the audio
  alone, so an answer can be that of another file with the same audio.
\<close>

lemma convert_source_of_answer:
  assumes "cv_prepare E media = Inr audio" and "fst (cv_dispatch E (mi_source_id media, audio) s) = Inr \<lparr>to_task = Convert, to_payload = out\<rparr>"
  shows "value_source_id (fst (snd (convert_apply E (Media media) s))) = mo_source_id out"
  using assms by (auto simp: convert_apply_def Let_def try_from_output_def split: prod.splits)

lemma convert_call_sources:
  "convert_call M B batch = Some (Inr outputs) \<Longrightarrow>
     map (\<lambda>out. mo_source_id (to_payload out)) outputs = map ti_source_id batch \<and> list_all (\<lambda>out. to_task out = Convert) outputs"
  by (induction batch arbitrary: outputs) (auto simp: bind_res_Inr_iff split: if_splits option.splits sum.splits)

end
