(* ===== verification/AudioPrep.thy ===== *)
theory AudioPrep
  imports MediaConvertLaws
begin

text \<open>
  The audio part of \<^verbatim>\<open>batchalign-core/src/utils.rs\<close>: a media file is decoded packet by packet into interleaved samples.
  Container and codecs are the symphonia crate: opening a file gives the tracks, and what its reader and decoder answer one
  after the other is a list of events, whose end is the end of the file. Samples are the 32 bits of their numbers;
  the arithmetic of the processor on them is an argument.
\<close>

section \<open>What the decoder answers\<close>

record track =
  tk_id :: nat
  tk_supported :: bool
  tk_codec :: "rstr + unit"
  tk_sample_rate :: "u32 option"

text \<open>
  A packet comes with its track and with what the decoder makes of it, an error or the planes of the buffer, which have
  equal lengths. A reset says whether the track is still there and whether the codec can be made again.
\<close>

datatype packet_event =
    Packet nat "rstr + u32 list list"
  | ResetRequired bool "rstr + unit"
  | ReadError rstr

record media_file =
  mf_open :: "rstr + unit"
  mf_probe :: "rstr + unit"
  mf_tracks :: "track list"
  mf_events :: "packet_event list"

record f32_arith =
  fa_zero :: u32
  fa_add :: "u32 \<Rightarrow> u32 \<Rightarrow> u32"
  fa_div :: "u32 \<Rightarrow> nat \<Rightarrow> u32"

definition first_supported_track :: "track list \<Rightarrow> track option" where
  "first_supported_track tracks = List.find tk_supported tracks"

section \<open>The loop\<close>

definition mix_frame :: "f32_arith \<Rightarrow> u32 list list \<Rightarrow> nat \<Rightarrow> u32" where
  "mix_frame A planes i = fa_div A (fold (\<lambda>plane acc. fa_add A acc (plane ! i)) planes (fa_zero A)) (length planes)"

definition plane_samples :: "f32_arith \<Rightarrow> bool \<Rightarrow> u32 list list \<Rightarrow> u32 list" where
  "plane_samples A downmix planes =
     (let frames = length (hd planes) in
      if downmix
      then (if length planes = 1 then hd planes else map (mix_frame A planes) [0..<frames])
      else concat (map (\<lambda>i. map (\<lambda>plane. plane ! i) planes) [0..<frames]))"

fun decode_loop :: "f32_arith \<Rightarrow> bool \<Rightarrow> nat \<Rightarrow> packet_event list \<Rightarrow> u32 list \<Rightarrow> nat option \<Rightarrow>
    rstr + u32 list \<times> nat option" where
  "decode_loop A downmix track_id [] pcm channels = Inr (pcm, channels)"
| "decode_loop A downmix track_id (ReadError m # events) pcm channels = Inl (str ''audio_prep: read packet: '' @ m)"
| "decode_loop A downmix track_id (ResetRequired found codec # events) pcm channels =
     (if \<not> found then Inl (str ''audio_prep: track vanished after reset'')
      else case codec of
          Inl m \<Rightarrow> Inl m
        | Inr _ \<Rightarrow> decode_loop A downmix track_id events pcm channels)"
| "decode_loop A downmix track_id (Packet t decoded # events) pcm channels =
     (if t \<noteq> track_id then decode_loop A downmix track_id events pcm channels
      else case decoded of
          Inl m \<Rightarrow> Inl (str ''audio_prep: decode: '' @ m)
        | Inr planes \<Rightarrow>
            if planes = [] then decode_loop A downmix track_id events pcm channels
            else if channels \<noteq> None \<and> channels \<noteq> Some (length planes)
            then Inl (str ''audio_prep: channel count changed from '' @ nat_to_string (the channels) @ str '' to '' @
                nat_to_string (length planes))
            else decode_loop A downmix track_id events (pcm @ plane_samples A downmix planes) (Some (length planes)))"

definition finish_audio :: "bool \<Rightarrow> u32 \<Rightarrow> u32 list \<Rightarrow> nat option \<Rightarrow> rstr + prepared_audio" where
  "finish_audio downmix sample_rate pcm decoded_channels =
     (let channels = (if downmix then 1 else case decoded_channels of Some n \<Rightarrow> n | None \<Rightarrow> 1) in
      if 2 ^ 16 \<le> channels then Inl (str ''audio_prep: channel count does not fit u16'')
      else Inr \<lparr>pa_pcm = concat (map (\<lambda>w. le_bytes 4 (unat w)) pcm), pa_sample_rate = sample_rate,
             pa_channels = of_nat channels, pa_frame_count = length pcm div channels\<rparr>)"

definition prepare_pcm_impl :: "f32_arith \<Rightarrow> rstr \<Rightarrow> media_file \<Rightarrow> bool \<Rightarrow> rstr + prepared_audio" where
  "prepare_pcm_impl A path file downmix =
     (case mf_open file of
        Inl m \<Rightarrow> Inl (str ''audio_prep: open '' @ path @ str '': '' @ m)
      | Inr _ \<Rightarrow>
     (case mf_probe file of
        Inl m \<Rightarrow> Inl (str ''audio_prep: probe '' @ path @ str '': '' @ m)
      | Inr _ \<Rightarrow>
     (case first_supported_track (mf_tracks file) of
        None \<Rightarrow> Inl (str ''audio_prep: no supported audio track in '' @ path)
      | Some track \<Rightarrow>
     (case tk_codec track of
        Inl m \<Rightarrow> Inl (str ''audio_prep: codec init: '' @ m)
      | Inr _ \<Rightarrow>
          bind_res (decode_loop A downmix (tk_id track) (mf_events file) [] None) (\<lambda>(pcm, decoded_channels).
            finish_audio downmix (case tk_sample_rate track of Some r \<Rightarrow> r | None \<Rightarrow> 16000) pcm decoded_channels)))))"

definition prepare_pcm :: "f32_arith \<Rightarrow> rstr \<Rightarrow> media_file \<Rightarrow> rstr + prepared_audio" where
  "prepare_pcm A path file = prepare_pcm_impl A path file True"

definition prepare_pcm_interleaved :: "f32_arith \<Rightarrow> rstr \<Rightarrow> media_file \<Rightarrow> rstr + prepared_audio" where
  "prepare_pcm_interleaved A path file = prepare_pcm_impl A path file False"

section \<open>Decoded audio is well formed\<close>

definition frame_width :: "bool \<Rightarrow> nat option \<Rightarrow> nat" where
  "frame_width downmix channels = (if downmix then 1 else case channels of Some n \<Rightarrow> n | None \<Rightarrow> 1)"

lemma plane_samples_width:
  "planes \<noteq> [] \<Longrightarrow> frame_width downmix (Some (length planes)) dvd length (plane_samples A downmix planes)"
  by (simp add: frame_width_def plane_samples_def Let_def length_concat comp_def sum_list_triv)

lemma decode_loop_width:
  "decode_loop A downmix track_id events pcm channels = Inr (pcm', channels') \<Longrightarrow>
   channels \<noteq> Some 0 \<Longrightarrow> (channels = None \<longrightarrow> pcm = []) \<Longrightarrow> frame_width downmix channels dvd length pcm \<Longrightarrow>
   channels' \<noteq> Some 0 \<and> frame_width downmix channels' dvd length pcm'"
proof (induction A downmix track_id events pcm channels rule: decode_loop.induct)
  case (4 A downmix track_id t decoded events pcm channels)
  show ?case
  proof (cases "t \<noteq> track_id \<or> decoded = Inr []")
    case True
    with 4 show ?thesis by (auto split: if_splits sum.splits)
  next
    case False
    with "4.prems"(1) obtain planes where planes: "decoded = Inr planes" "planes \<noteq> []" "t = track_id"
      by (auto split: sum.splits)
    with "4.prems"(1) have c: "channels = None \<or> channels = Some (length planes)"
      and rest: "decode_loop A downmix track_id events (pcm @ plane_samples A downmix planes) (Some (length planes)) = Inr (pcm', channels')"
      by (auto split: if_splits)
    have "frame_width downmix (Some (length planes)) dvd length pcm" using c "4.prems" by auto
    then have "frame_width downmix (Some (length planes)) dvd length (pcm @ plane_samples A downmix planes)"
      using plane_samples_width [OF planes(2)] by simp
    then show ?thesis using "4.IH"(3) [OF _ planes(1) planes(2) _ rest] planes c by auto
  qed
qed (auto split: if_splits sum.splits)

lemma finish_audio_decodes:
  assumes "finish_audio downmix rate pcm channels = Inr audio" and "channels \<noteq> Some 0"
    and "frame_width downmix channels dvd length pcm"
  shows "pcm_f32 audio = Inr (map f32_from_bits pcm) \<and> unat (pa_channels audio) = frame_width downmix channels \<and>
    length pcm = pa_frame_count audio * unat (pa_channels audio)"
proof -
  let ?n = "frame_width downmix channels"
  have n: "0 < ?n" using assms(2) by (auto simp: frame_width_def split: option.splits)
  have fits: "?n < 2 ^ 16" and audio: "audio = \<lparr>pa_pcm = concat (map (\<lambda>w. le_bytes 4 (unat w)) pcm), pa_sample_rate = rate,
      pa_channels = of_nat ?n, pa_frame_count = length pcm div ?n\<rparr>"
    using assms(1) unfolding finish_audio_def Let_def frame_width_def [symmetric] by (auto split: if_splits)
  have c: "unat (pa_channels audio) = ?n" unfolding audio using unat_of_nat_fits(2) [OF fits] by simp
  have "chunks_exact 4 (concat (map (\<lambda>w. le_bytes 4 (unat w)) pcm)) = map (\<lambda>w. le_bytes 4 (unat w)) pcm"
    by (rule chunks_exact_concat) (simp_all add: list_all_iff)
  moreover have "of_nat (le_value (le_bytes 4 (unat w))) = (w :: u32)" for w using unat_bounds(1) [of w] by simp
  ultimately have samples: "map (\<lambda>bytes. f32_from_bits (of_nat (le_value bytes))) (chunks_exact 4 (pa_pcm audio)) = map f32_from_bits pcm"
    unfolding audio by (simp add: comp_def del: le_value_bytes)
  have len: "length (pa_pcm audio) = 4 * length pcm" unfolding audio by (simp add: length_concat comp_def sum_list_triv)
  have "pcm_f32 audio = Inr (map f32_from_bits pcm)"
    unfolding pcm_f32_Inr samples [symmetric] using len c n assms(3) by simp
  moreover have "length pcm = pa_frame_count audio * ?n" unfolding audio using assms(3) by simp
  ultimately show ?thesis using c by simp
qed

text \<open>Decoding and encoding fit together: whatever a container and its codecs answer, decoded audio has passed the checks the
  encoders make first, as it has at least one channel, whole samples and whole frames, its frame count is the number of
  frames, and the samples read back from its bytes are the decoded ones; downmixed audio has one channel.\<close>

lemma decoded_audio_well_formed:
  "case prepare_pcm_impl A path file downmix of
     Inl m \<Rightarrow> True
   | Inr audio \<Rightarrow>
       (\<exists>pcm channels. decode_loop A downmix (tk_id (the (first_supported_track (mf_tracks file)))) (mf_events file) [] None = Inr (pcm, channels) \<and>
          pcm_f32 audio = Inr (map f32_from_bits pcm) \<and> unat (pa_channels audio) = frame_width downmix channels \<and>
          length pcm = pa_frame_count audio * unat (pa_channels audio))"
proof (cases "prepare_pcm_impl A path file downmix")
  case (Inr audio)
  then obtain track pcm channels where track: "first_supported_track (mf_tracks file) = Some track"
    and loop: "decode_loop A downmix (tk_id track) (mf_events file) [] None = Inr (pcm, channels)"
    and finish: "finish_audio downmix (case tk_sample_rate track of Some r \<Rightarrow> r | None \<Rightarrow> 16000) pcm channels = Inr audio"
    by (auto simp: prepare_pcm_impl_def bind_res_Inr_iff split: sum.splits option.splits)
  have "channels \<noteq> Some 0 \<and> frame_width downmix channels dvd length pcm"
    using decode_loop_width [OF loop] by (simp add: frame_width_def)
  then show ?thesis using finish_audio_decodes [OF finish] track loop unfolding Inr by auto
qed simp

end
