(* ===== verification/StageGates.thy ===== *)
theory StageGates
  imports Pipeline
begin

text \<open>
  The gates around a stage and the check before a document is written: \<open>Chat::parse\<close>,
  \<open>validate_stage_input\<close>, \<open>validate_stage_output\<close> and \<open>validated_chat_text\<close> of core \<^verbatim>\<open>base.rs\<close>. The parser, the
  serializer and the validators are the document crate, a record of functions. The pipeline and the
  writer, which take the gates and the text as arguments, are put together with them here.
\<close>

section \<open>The document crate\<close>

datatype transform_error = TransformParse rstr | TransformValidation "rstr list" | TransformOther rstr

text \<open>
  \<open>dc_parse validating text\<close> is \<open>parse_and_validate\<close> under the default options, with or without
  \<open>with_validation\<close>; \<open>dc_main_tier\<close> is \<open>validate_to_level\<close> at \<open>MainTierValid\<close>, \<open>dc_output\<close> is
  \<open>validate_output\<close> under a command; \<open>dc_error_text\<close> renders the error of the parser.
\<close>

record 'u doc_crate =
  dc_parse :: "bool \<Rightarrow> rstr \<Rightarrow> transform_error + 'u line list"
  dc_to_chat :: "'u line list \<Rightarrow> rstr"
  dc_main_tier :: "'u line list \<Rightarrow> rstr list + unit"
  dc_output :: "'u line list \<Rightarrow> rstr \<Rightarrow> rstr list + unit"
  dc_error_text :: "transform_error \<Rightarrow> rstr"
  dc_languages :: "'u line list \<Rightarrow> rstr list"

section \<open>Parsing and gates\<close>

definition parse_error :: "transform_error \<Rightarrow> ba_error" where
  "parse_error e = (case e of
     TransformParse errs \<Rightarrow> ParseError errs
   | TransformValidation errs \<Rightarrow> ValidationError ([10] @ join [10] errs)
   | TransformOther other \<Rightarrow> InternalError (str ''pipeline: '' @ other))"

definition chat_from_validated_ast :: "'u line list \<Rightarrow> rstr \<Rightarrow> 'u chat" where
  "chat_from_validated_ast ls sid = \<lparr>ch_lines = ls, ch_source_id = sid, ch_media = None\<rparr>"

definition chat_parse :: "'u doc_crate \<Rightarrow> rstr \<Rightarrow> rstr \<Rightarrow> 'u chat ba_result" where
  "chat_parse D txt sid =
     bind_res (map_err parse_error (dc_parse D True txt)) (\<lambda>ls. Inr \<lparr>ch_lines = ls, ch_source_id = sid, ch_media = None\<rparr>)"

definition primary_language :: "'u doc_crate \<Rightarrow> 'u chat \<Rightarrow> rstr option" where
  "primary_language D c = (case dc_languages D (ch_lines c) of [] \<Rightarrow> None | code # codes \<Rightarrow> Some code)"

definition format_validation_errors :: "task \<Rightarrow> rstr \<Rightarrow> rstr list \<Rightarrow> rstr" where
  "format_validation_errors t phase errors =
     task_as_str t @ str '' '' @ phase @ str '' validation failed: '' @ join (str ''; '') errors"

definition reparse_stage_ast :: "'u doc_crate \<Rightarrow> 'u chat \<Rightarrow> task \<Rightarrow> rstr \<Rightarrow> 'u line list ba_result" where
  "reparse_stage_ast D c t phase =
     map_err (\<lambda>e. ValidationError (task_as_str t @ str '' '' @ phase @ str '' reparse failed: '' @ dc_error_text D e))
       (dc_parse D False (dc_to_chat D (ch_lines c)))"

definition validate_stage_input :: "'u doc_crate \<Rightarrow> 'u chat \<Rightarrow> task \<Rightarrow> unit ba_result" where
  "validate_stage_input D c t =
     bind_res (reparse_stage_ast D c t (str ''pre-stage''))
       (\<lambda>ast. map_err (\<lambda>errors. ValidationError (format_validation_errors t (str ''pre-stage'') errors)) (dc_main_tier D ast))"

definition validate_stage_output :: "'u doc_crate \<Rightarrow> 'u chat \<Rightarrow> task \<Rightarrow> unit ba_result" where
  "validate_stage_output D c t =
     bind_res (reparse_stage_ast D c t (str ''post-stage''))
       (\<lambda>ast. map_err (\<lambda>errors. ValidationError (format_validation_errors t (str ''post-stage'') errors))
          (dc_output D ast (validation_command t)))"

text \<open>The match on the gate in \<open>validate_value_for_stage\<close>.\<close>

definition stage_gate_check :: "'u doc_crate \<Rightarrow> stage_gate \<Rightarrow> task \<Rightarrow> 'u chat \<Rightarrow> unit ba_result" where
  "stage_gate_check D gate t c = (case gate of Pre \<Rightarrow> validate_stage_input D c t | Post \<Rightarrow> validate_stage_output D c t)"

definition validated_chat_text :: "'u doc_crate \<Rightarrow> (ba_error \<Rightarrow> rstr) \<Rightarrow> 'u chat \<Rightarrow> rstr ba_result" where
  "validated_chat_text D error_text c =
     (let txt = dc_to_chat D (ch_lines c)
      in case chat_parse D txt (ch_source_id c) of
           Inl e \<Rightarrow> Inl (SerializeError (str ''pre-serialization validation failed for '' @ ch_source_id c @ str '': '' @ error_text e))
         | Inr reparsed \<Rightarrow> Inr txt)"

text \<open>The writer of a value with this check in place.\<close>

definition checked_env :: "'u doc_crate \<Rightarrow> 'u write_env \<Rightarrow> 'u write_env" where
  "checked_env D E = E\<lparr>we_chat_text := validated_chat_text D (we_error_text E)\<rparr>"

definition gated :: "'u doc_crate \<Rightarrow> ('u, 's) pipeline \<Rightarrow> ('u, 's) pipeline" where
  "gated D P = P\<lparr>pl_gate := stage_gate_check D\<rparr>"

section \<open>Lemmas\<close>

lemma chat_parse_Inr: "chat_parse D txt sid = Inr c \<longleftrightarrow> (\<exists>ls. dc_parse D True txt = Inr ls \<and> c = \<lparr>ch_lines = ls, ch_source_id = sid, ch_media = None\<rparr>)"
  by (auto simp: chat_parse_def bind_res_Inr_iff map_err_iff)

lemma stage_output_accepts:
  "validate_stage_output D c t = Inr () \<longleftrightarrow>
     (\<exists>ls. dc_parse D False (dc_to_chat D (ch_lines c)) = Inr ls \<and> dc_output D ls (validation_command t) = Inr ())"
  by (auto simp: validate_stage_output_def reparse_stage_ast_def bind_res_Inr_iff map_err_iff)

text \<open>A rejection names the stage and the phase, and is always a validation error.\<close>

lemma gate_errors:
  "stage_gate_check D gate t c = Inl e \<Longrightarrow>
     \<exists>detail. e = ValidationError (task_as_str t @ str '' '' @ (case gate of Pre \<Rightarrow> str ''pre-stage'' | Post \<Rightarrow> str ''post-stage'') @ detail)"
  by (auto simp: stage_gate_check_def validate_stage_input_def validate_stage_output_def reparse_stage_ast_def
       format_validation_errors_def bind_res_Inl_iff map_err_iff split: stage_gate.splits)

text \<open>The documents of a value that a write would serialize.\<close>

fun written_chats :: "'u ba_value \<Rightarrow> 'u chat list" where
  "written_chats (Chat c) = [c]"
| "written_chats (AiChat i c) = [c]"
| "written_chats (Paired p) = [pr_main p]"
| "written_chats (ConsV h t) = written_chats h @ written_chats t"
| "written_chats v = []"

lemma gate_on_written:
  "validate_value_for_stage P v t g = Inr () \<Longrightarrow> c \<in> set (written_chats v) \<Longrightarrow> pl_gate P g t c = Inr ()"
  by (induction P v t g rule: validate_value_for_stage.induct) (auto simp: bind_res_Inr_iff)

lemma chain_last_gate:
  "chain P ts x evs z \<Longrightarrow> ts \<noteq> [] \<Longrightarrow> validate_value_for_stage P (fst z) (last ts) Post = Inr ()"
proof (induction rule: chain.induct)
  case (chain_step v t runner s v1 ev s1 ts evs z)
  then show ?case by (cases ts) (auto simp: chain_Nil_iff)
qed simp

text \<open>What every document of a value satisfies once a gated run has come to its end, before the stamps.\<close>

lemma gated_run_output:
  assumes "run_one (gated D P) secs v s = (w, events, s')" "\<not> is_failed w" "pl_order P \<noteq> []"
  shows "\<exists>v'. w = stamp_chats_in_value (gated D P) secs v' \<and>
    (\<forall>c \<in> set (written_chats v'). validate_stage_output D c (last (pl_order P)) = Inr ())"
proof -
  obtain v' evs where c: "chain (gated D P) (pl_order (gated D P)) (v, s) evs (v', s')"
      and w: "w = stamp_chats_in_value (gated D P) secs v'"
    using run_one_chain [OF assms(1,2)] by blast
  have "validate_value_for_stage (gated D P) v' (last (pl_order P)) Post = Inr ()"
    using chain_last_gate [OF c] assms(3) by (simp add: gated_def)
  then have "pl_gate (gated D P) Post (last (pl_order P)) d = Inr ()" if "d \<in> set (written_chats v')" for d
    using that by (rule gate_on_written)
  with w show ?thesis by (auto simp: gated_def stage_gate_check_def)
qed

text \<open>A document is written only as a text that the parser accepts under validation: when the write of a document succeeds,
  the file holds its serialization, which parses and validates; when it fails, no file has changed.\<close>

lemma written_document_parses:
  "case chat_write (checked_env D E) c path fs of
     (Inr u, fs') \<Rightarrow> fs' = fs(path \<mapsto> TextFile (dc_to_chat D (ch_lines c))) \<and>
       (\<exists>ls. dc_parse D True (dc_to_chat D (ch_lines c)) = Inr ls)
   | (Inl e, fs') \<Rightarrow> fs' = fs"
  by (auto simp: chat_write_def checked_env_def validated_chat_text_def fs_write_def chat_parse_Inr Let_def
      split: sum.splits option.splits)

end
