(* ===== verification/Outcomes.thy ===== *)
theory Outcomes
  imports Segmentation Tasks
begin

text \<open>
  What leaves the engine: \<^verbatim>\<open>batchalign-engine/src/py_outcome.rs\<close>, the outcome of one input that can be written once, and
  \<^verbatim>\<open>metrics_writer.rs\<close>, a second writer of the metrics table, which writes what that of the core does.
\<close>

section \<open>Outcomes\<close>

record 'u outcome =
  oc_inner :: "'u ba_value option"
  oc_source_id :: rstr
  oc_kind :: rstr
  oc_failed :: bool

definition outcome_from_value :: "'u ba_value \<Rightarrow> 'u outcome" where
  "outcome_from_value v = \<lparr>oc_inner = Some v, oc_source_id = value_source_id v, oc_kind = value_kind v, oc_failed = is_failed v\<rparr>"

definition outcome_error :: "(ba_error \<Rightarrow> rstr) \<Rightarrow> 'u outcome \<Rightarrow> rstr" where
  "outcome_error error_text out = (case oc_inner out of Some (Failed sid e p) \<Rightarrow> error_text e | _ \<Rightarrow> [])"

text \<open>\<open>clear_bullets\<close> takes the inline bullets off the words of an item, which the document crate walks.\<close>

definition strip_utt_timing :: "(content_item \<Rightarrow> content_item) \<Rightarrow> seg_utt \<Rightarrow> seg_utt" where
  "strip_utt_timing clear_bullets u =
     u\<lparr>su_tiers := filter (\<lambda>t. case t of SegWor w \<Rightarrow> False | other \<Rightarrow> True) (su_tiers u),
       su_items := map clear_bullets (su_items u)\<rparr>"

definition strip_word_timing_from_chat :: "(content_item \<Rightarrow> content_item) \<Rightarrow> seg_utt chat \<Rightarrow> seg_utt chat" where
  "strip_word_timing_from_chat clear_bullets c =
     c\<lparr>ch_lines := map (\<lambda>l. case l of UtteranceLine u \<Rightarrow> UtteranceLine (strip_utt_timing clear_bullets u) | HeaderLine h \<Rightarrow> HeaderLine h)
       (ch_lines c)\<rparr>"

fun strip_word_timing_from_value :: "(content_item \<Rightarrow> content_item) \<Rightarrow> seg_utt ba_value \<Rightarrow> seg_utt ba_value" where
  "strip_word_timing_from_value f (Chat c) = Chat (strip_word_timing_from_chat f c)"
| "strip_word_timing_from_value f (AiChat i c) = AiChat i (strip_word_timing_from_chat f c)"
| "strip_word_timing_from_value f (Paired p) = Paired (p\<lparr>pr_main := strip_word_timing_from_chat f (pr_main p)\<rparr>)"
| "strip_word_timing_from_value f (ConsV h t) = ConsV (strip_word_timing_from_value f h) (strip_word_timing_from_value f t)"
| "strip_word_timing_from_value f (Failed sid e (Some p)) = Failed sid e (Some (strip_word_timing_from_value f p))"
| "strip_word_timing_from_value f v = v"

text \<open>The value is taken out before it is written, so a write that fails has used it up as well.\<close>

definition outcome_write :: "seg_utt write_env \<Rightarrow> (content_item \<Rightarrow> content_item) \<Rightarrow> bool \<Rightarrow> seg_utt outcome \<Rightarrow> rstr \<Rightarrow> files \<Rightarrow>
    (rstr + unit) \<times> seg_utt outcome \<times> files" where
  "outcome_write E clear_bullets strip_word_timing out path fs =
     (case oc_inner out of
        None \<Rightarrow> (Inl (str ''outcome already written''), out, fs)
      | Some v \<Rightarrow>
          (case value_write E (if strip_word_timing then strip_word_timing_from_value clear_bullets v else v) path fs of
             (Inr _, fs') \<Rightarrow> (Inr (), out\<lparr>oc_inner := None\<rparr>, fs')
           | (Inl e, fs') \<Rightarrow> (Inl (str ''write '' @ path @ str '': '' @ we_error_text E e), out\<lparr>oc_inner := None\<rparr>, fs')))"

lemma outcome_written_once:
  assumes "outcome_write E f b out path fs = (r, out', fs')"
  shows "outcome_write E f b' out' path' gs = (Inl (str ''outcome already written''), out', gs)"
  using assms by (auto simp: outcome_write_def split: option.splits prod.splits sum.splits)

lemma stripping_keeps_identity:
  "value_source_id (strip_word_timing_from_value f v) = value_source_id v \<and>
   value_kind (strip_word_timing_from_value f v) = value_kind v \<and> is_failed (strip_word_timing_from_value f v) = is_failed v"
  by (induction f v rule: strip_word_timing_from_value.induct) (simp_all add: strip_word_timing_from_chat_def)

lemma stripped_tiers: "list_all (\<lambda>t. \<nexists>w. t = SegWor w) (su_tiers (strip_utt_timing f u)) \<and> su_bullet (strip_utt_timing f u) = su_bullet u"
  by (auto simp: strip_utt_timing_def list_all_iff)

section \<open>The second writer of metrics\<close>

definition mw_cell :: "rstr \<Rightarrow> rstr" where
  "mw_cell cell =
     (if list_ex (\<lambda>c. c = 44 \<or> c = 34 \<or> c = 10 \<or> c = 13) cell
      then [34] @ concat (map (\<lambda>c. if c = 34 then [34, 34] else [c]) cell) @ [34] else cell)"

definition mw_row :: "rstr list \<Rightarrow> rstr" where
  "mw_row cells = concat (map (\<lambda>(i, cell). (if 0 < i then [44] else []) @ mw_cell cell) (enumerate 0 cells)) @ [10]"

definition mw_json_cell :: "json \<Rightarrow> rstr" where
  "mw_json_cell v = (case v of JNull \<Rightarrow> [] | JString s \<Rightarrow> s | JOther s \<Rightarrow> s)"

definition mw_extension :: "metrics_kind \<Rightarrow> rstr" where
  "mw_extension kind = (case kind of
     MetricsCompare \<Rightarrow> str ''compare.csv'' | MetricsBenchmark \<Rightarrow> str ''benchmark.csv'' | MetricsCustom \<Rightarrow> str ''metrics.csv'')"

definition mw_text :: "metrics_artifact \<Rightarrow> rstr" where
  "mw_text artifact = mw_row (ma_schema artifact) @
     concat (map (\<lambda>row. mw_row (map (\<lambda>col. case map_option mw_json_cell (map_of (mr_columns row) col) of Some c \<Rightarrow> c | None \<Rightarrow> [])
       (ma_schema artifact))) (ma_rows artifact))"

definition mw_write :: "'u write_env \<Rightarrow> metrics_artifact \<Rightarrow> rstr \<Rightarrow> files \<Rightarrow> unit ba_result \<times> files" where
  "mw_write E artifact path fs =
     fs_write E (we_with_extension E path (mw_extension (ma_kind artifact))) (TextFile (mw_text artifact)) fs"

lemma mw_cell_csv: "mw_cell = csv_cell"
  by (simp add: fun_eq_iff mw_cell_def csv_cell_def needs_quotes_def)

lemma mw_later_cells:
  "0 < k \<Longrightarrow> concat (map (\<lambda>(i, cell). (if 0 < i then [44] else []) @ mw_cell cell) (enumerate k cells)) =
     concat (map (\<lambda>cell. [44] @ csv_cell cell) cells)"
  by (induction cells arbitrary: k) (simp_all add: mw_cell_csv)

lemma csv_cells_concat: "csv_cells (cell # cells) = csv_cell cell @ concat (map (\<lambda>cell. [44] @ csv_cell cell) cells)"
  by (induction cells arbitrary: cell) simp_all

lemma mw_row_csv: "mw_row cells = csv_row cells"
  by (cases cells) (simp_all add: mw_row_def csv_row_def csv_cells_concat mw_later_cells [of "Suc 0", simplified mw_cell_csv, simplified]
      mw_cell_csv)

lemma mw_json_cell_csv: "mw_json_cell = json_cell"
  by (rule ext) (simp add: mw_json_cell_def split: json.split)

text \<open>The two writers of metrics agree: the engine's writer, which prints cell after cell, leaves the same file under the same
  name, with the same result, as the writer of the core, for any table and any file system.\<close>

lemma metrics_writers_agree: "mw_write E artifact path fs = write_metrics_csv E artifact path fs"
proof -
  have "mw_text artifact = metrics_csv artifact"
  proof -
    have "(case map_option json_cell v of Some c \<Rightarrow> c | None \<Rightarrow> []) = (case v of Some x \<Rightarrow> json_cell x | None \<Rightarrow> [])" for v
      by (cases v) simp_all
    then show ?thesis by (simp add: mw_text_def metrics_csv_def mw_row_csv row_cells_def mw_json_cell_csv)
  qed
  moreover have "mw_extension k = metrics_extension k" for k by (cases k) (simp_all add: mw_extension_def)
  ultimately show ?thesis by (simp add: mw_write_def write_metrics_csv_def)
qed

end
