(* ===== verification/Intake.thy ===== *)
theory Intake
  imports StageGates Engine Outcomes
begin

text \<open>
  How a run begins and ends: engine \<^verbatim>\<open>pipeline.rs\<close>, from the construction of a pipeline and the conversion of
  the Python objects it is given to the list of outcomes it returns, and \<^verbatim>\<open>progress_sink.rs\<close>, which hands each event to
  the callback of its source. What an object answers to the conversions and attribute reads of the interpreter, and
  what the file system answers to a read, are given. The inputs of a run are driven one after the other, as with
  one worker.
\<close>

section \<open>Inputs\<close>

datatype py_error = ValueError rstr | RuntimeError rstr | RaisedError rstr

definition py_error_text :: "py_error \<Rightarrow> rstr" where
  "py_error_text e = (case e of
     ValueError m \<Rightarrow> str ''ValueError: '' @ m | RuntimeError m \<Rightarrow> str ''RuntimeError: '' @ m | RaisedError m \<Rightarrow> m)"

record chat_input =
  ci_source_id :: rstr
  ci_path :: rstr
  ci_media :: "rstr option"

record ai_chat_input =
  ai_source_id :: rstr
  ai_path :: rstr
  ai_instruction :: rstr
  ai_media :: "rstr option"

record paired_input =
  pp_source_id :: rstr
  pp_main :: rstr
  pp_gold :: rstr
  pp_media :: "rstr option"

text \<open>An object: the typed inputs it extracts to, the string it extracts to, and its string attributes.\<close>

record py_input =
  pi_media :: "media_input option"
  pi_chat :: "chat_input option"
  pi_ai :: "ai_chat_input option"
  pi_paired :: "paired_input option"
  pi_string :: "rstr option"
  pi_attr :: "rstr \<Rightarrow> rstr option"
  pi_path_error :: rstr

record 'u intake =
  in_doc :: "'u doc_crate"
  in_read :: "rstr \<Rightarrow> rstr + rstr"
  in_audio_text :: "audio_error \<Rightarrow> rstr"
  in_failure_text :: "rstr \<Rightarrow> rstr"

abbreviation error_text :: "'u intake \<Rightarrow> ba_error \<Rightarrow> rstr" where
  "error_text E \<equiv> ba_error_message (in_audio_text E)"

definition path_stem :: "rstr \<Rightarrow> rstr option" where
  "path_stem p = map_option file_stem (path_file_name p)"

definition is_chat_path :: "rstr \<Rightarrow> bool" where
  "is_chat_path p = (case Option.bind (path_file_name p) file_extension of
     Some x \<Rightarrow> x = str ''cha'' \<or> x = str ''chat'' | None \<Rightarrow> False)"

definition media_input_new :: "rstr \<Rightarrow> rstr \<Rightarrow> media_input" where
  "media_input_new sid path = \<lparr>mi_source_id = sid, mi_path = path, mi_language = None\<rparr>"

definition value_error_id :: "'u intake \<Rightarrow> rstr \<Rightarrow> rstr \<Rightarrow> py_error + rstr" where
  "value_error_id E prefix s = map_err (\<lambda>e. ValueError (prefix @ error_text E e)) (source_id_try_new s)"

definition load_chat_at :: "'u intake \<Rightarrow> rstr \<Rightarrow> rstr \<Rightarrow> py_error + 'u chat" where
  "load_chat_at E path sid =
     bind_res (map_err (\<lambda>e. ValueError (str ''cannot read '' @ path @ str '': '' @ e)) (in_read E path))
       (\<lambda>txt. map_err (\<lambda>e. ValueError (str ''parse '' @ path @ str '': '' @ error_text E e)) (chat_parse (in_doc E) txt sid))"

definition load_chat_with_media :: "'u intake \<Rightarrow> rstr \<Rightarrow> rstr \<Rightarrow> rstr option \<Rightarrow> py_error + 'u chat" where
  "load_chat_with_media E path sid media =
     bind_res (load_chat_at E path sid)
       (\<lambda>c. Inr (case media of Some m \<Rightarrow> with_media c (media_input_new sid m) | None \<Rightarrow> c))"

definition load_chat_input :: "'u intake \<Rightarrow> chat_input \<Rightarrow> py_error + 'u chat" where
  "load_chat_input E c = load_chat_with_media E (ci_path c) (ci_source_id c) (ci_media c)"

definition load_ai_chat_input :: "'u intake \<Rightarrow> ai_chat_input \<Rightarrow> py_error + 'u ba_value" where
  "load_ai_chat_input E a =
     (if \<not> is_chat_path (ai_path a)
      then Inl (ValueError (str ''AiChatInput path must point to a .cha/.chat transcript''))
      else bind_res (load_chat_with_media E (ai_path a) (ai_source_id a) (ai_media a)) (\<lambda>c. Inr (AiChat (ai_instruction a) c)))"

text \<open>A path is a transcript or a recording by its extension, the last step of two of the branches below.\<close>

definition chat_or_media :: "'u intake \<Rightarrow> rstr \<Rightarrow> rstr \<Rightarrow> py_error + 'u ba_value" where
  "chat_or_media E path sid =
     (if is_chat_path path then bind_res (load_chat_at E path sid) (\<lambda>c. Inr (Chat c))
      else Inr (Media (media_input_new sid path)))"

definition media_from_string :: "'u intake \<Rightarrow> rstr \<Rightarrow> py_error + 'u ba_value" where
  "media_from_string E path_str =
     (case path_stem path_str of
        None \<Rightarrow> Inl (ValueError (str ''bad path stem: '' @ path_str))
      | Some stem \<Rightarrow>
          bind_res (value_error_id E (str ''invalid source_id from '' @ path_str @ str '': '') stem) (chat_or_media E path_str))"

definition stem_or :: "rstr \<Rightarrow> rstr \<Rightarrow> rstr" where
  "stem_or other path = (case path_stem path of Some s \<Rightarrow> s | None \<Rightarrow> other)"

definition load_gold :: "'u intake \<Rightarrow> 'u chat \<Rightarrow> rstr \<Rightarrow> py_error + 'u ba_value" where
  "load_gold E main gold_path =
     bind_res (value_error_id E (str ''invalid gold source_id: '') (stem_or (str ''gold'') gold_path))
       (\<lambda>gold_sid. bind_res (load_chat_at E gold_path gold_sid) (\<lambda>gold. Inr (Paired \<lparr>pr_main = main, pr_gold = gold\<rparr>)))"

definition convert_paired :: "'u intake \<Rightarrow> paired_input \<Rightarrow> py_error + 'u ba_value" where
  "convert_paired E p =
     bind_res (load_chat_with_media E (pp_main p) (pp_source_id p) (pp_media p)) (\<lambda>main. load_gold E main (pp_gold p))"

definition attr_id :: "'u intake \<Rightarrow> py_input \<Rightarrow> rstr \<Rightarrow> py_error + rstr" where
  "attr_id E obj path =
     (let sid_attr = (case pi_attr obj (str ''source_id'') of Some s \<Rightarrow> s | None \<Rightarrow> stem_or (str ''input'') path)
      in value_error_id E (str ''invalid source_id '' @ sid_attr @ str '': '') sid_attr)"

definition convert_attrs :: "'u intake \<Rightarrow> py_input \<Rightarrow> py_error + 'u ba_value" where
  "convert_attrs E obj =
     (case (pi_attr obj (str ''main''), pi_attr obj (str ''gold'')) of
        (Some main_path, Some gold_path) \<Rightarrow>
          bind_res (attr_id E obj main_path)
            (\<lambda>sid. bind_res (load_chat_at E main_path sid) (\<lambda>main. load_gold E main gold_path))
      | _ \<Rightarrow>
          (case pi_attr obj (str ''path'') of
             None \<Rightarrow> Inl (ValueError (str ''input is not MediaInput / ChatInput / PairedInput / path / has no .path: '' @ pi_path_error obj))
           | Some path \<Rightarrow> bind_res (attr_id E obj path) (chat_or_media E path)))"

definition convert_py_input :: "'u intake \<Rightarrow> py_input \<Rightarrow> py_error + 'u ba_value" where
  "convert_py_input E obj =
     (case pi_media obj of Some m \<Rightarrow> Inr (Media m) | None \<Rightarrow>
      (case pi_chat obj of Some c \<Rightarrow> bind_res (load_chat_input E c) (\<lambda>x. Inr (Chat x)) | None \<Rightarrow>
       (case pi_ai obj of Some a \<Rightarrow> load_ai_chat_input E a | None \<Rightarrow>
        (case pi_paired obj of Some p \<Rightarrow> convert_paired E p | None \<Rightarrow>
         (case pi_string obj of Some s \<Rightarrow> media_from_string E s | None \<Rightarrow> convert_attrs E obj)))))"

definition valid_id :: "rstr \<Rightarrow> rstr option" where
  "valid_id s = (case source_id_try_new s of Inr sid \<Rightarrow> Some sid | Inl e \<Rightarrow> None)"

definition recover_source_id :: "py_input \<Rightarrow> rstr option" where
  "recover_source_id obj =
     first_some [Option.bind (pi_attr obj (str ''source_id'')) valid_id,
       map_option mi_source_id (pi_media obj), map_option ci_source_id (pi_chat obj),
       map_option ai_source_id (pi_ai obj), map_option pp_source_id (pi_paired obj),
       Option.bind (Option.bind (first_some [pi_attr obj (str ''path''), pi_attr obj (str ''main''), pi_string obj]) path_stem) valid_id]"

text \<open>An input whose conversion fails becomes a failed value when it can still be identified.\<close>

definition convert_input_or_failure :: "'u intake \<Rightarrow> py_input \<Rightarrow> (py_error + 'u ba_value) \<times> progress_event list" where
  "convert_input_or_failure E obj =
     (case convert_py_input E obj of
        Inr v \<Rightarrow> (Inr v, [])
      | Inl err \<Rightarrow>
          (case recover_source_id obj of
             Some sid \<Rightarrow>
               (let msg = py_error_text err
                in (Inr (Failed sid (ParseError msg) None),
                    [\<lparr>pe_source_id = sid, pe_task = None, pe_kind = StageFailed, pe_completed = 0, pe_total = 0,
                       pe_label = in_failure_text E msg\<rparr>,
                     source_completed sid]))
           | None \<Rightarrow> (Inl err, [])))"

section \<open>Construction\<close>

text \<open>
  \<open>py_new\<close>. \<open>cache_open\<close>, \<open>runtime_init\<close> and the loading of a backend object are given with their failures;
  \<open>nodes\<close> and \<open>keys\<close> are the orders in which the hash containers of the sort are iterated.
  The result is the pipeline, its engine, and the number of inputs that may be in flight.
\<close>

record ('u, 's) construction =
  cn_cache_open :: "rstr + unit"
  cn_runtime_init :: "rstr + unit"
  cn_canonical_runner :: "task \<Rightarrow> ('u, 's) runner"
  cn_doc :: "'u doc_crate"
  cn_error_text :: "ba_error \<Rightarrow> rstr"
  cn_sha :: rstr

fun register_all :: "(py_error + ('i, 'o) backend) list \<Rightarrow> nat \<Rightarrow> engine \<Rightarrow> py_error + engine" where
  "register_all [] tx en = Inr en"
| "register_all (b # bs) tx en =
     bind_res b (\<lambda>wrapped.
       (case register wrapped tx en of
          (Inl e, en') \<Rightarrow> Inl (ValueError (str ''register backend: '' @ e))
        | (Inr u, en') \<Rightarrow> register_all bs (Suc tx) en'))"

definition pipeline_new :: "('u, 's) construction \<Rightarrow> task list \<Rightarrow> task list \<Rightarrow> task list \<Rightarrow> (py_error + ('i, 'o) backend) list \<Rightarrow> nat \<Rightarrow>
    (py_error + ('u, 's) pipeline \<times> engine \<times> nat) option" where
  "pipeline_new C tasks nodes keys backends workers =
     (if workers = 0 then Some (Inl (ValueError (str ''workers must be at least 1'')))
      else (case cn_cache_open C of
        Inl e \<Rightarrow> Some (Inl (RuntimeError (str ''cache open: '' @ e)))
      | Inr _ \<Rightarrow>
        (case cn_runtime_init C of
           Inl e \<Rightarrow> Some (Inl (RuntimeError (str ''tokio init: '' @ e)))
         | Inr _ \<Rightarrow>
           map_option (\<lambda>order.
             bind_res (register_all backends 0 engine_new) (\<lambda>en.
               (case first_unserved (serves en) order of
                  Some t \<Rightarrow> Inl (ValueError (str ''no backend registered for required task '' @ task_debug t))
                | None \<Rightarrow>
                    Inr (\<lparr>pl_order = order, pl_runners = runners_of (cn_canonical_runner C) order,
                          pl_gate = stage_gate_check (cn_doc C), pl_engine_name = en_backend_names en,
                          pl_error_text = cn_error_text C, pl_sha = cn_sha C\<rparr>, en, workers))))
             (topo_sort_stable tasks nodes keys))))"

section \<open>Running\<close>

text \<open>The eager path converts every input first; the first one that cannot be identified ends the call.\<close>

fun convert_all :: "'u intake \<Rightarrow> py_input list \<Rightarrow> (py_error + 'u ba_value list) \<times> progress_event list" where
  "convert_all E [] = (Inr [], [])"
| "convert_all E (obj # objs) =
     (case convert_input_or_failure E obj of
        (Inl e, ev) \<Rightarrow> (Inl e, ev)
      | (Inr v, ev) \<Rightarrow> (case convert_all E objs of (r, ev') \<Rightarrow> (map_sum id (\<lambda>vs. v # vs) r, ev @ ev')))"

text \<open>\<open>clock idx\<close> is the time at which the run of input \<open>idx\<close> is stamped.\<close>

fun run_inner :: "('u, 's) pipeline \<Rightarrow> (nat \<Rightarrow> nat) \<Rightarrow> nat \<Rightarrow> 'u ba_value list \<Rightarrow> 's \<Rightarrow>
    'u ba_value list \<times> progress_event list \<times> 's" where
  "run_inner P clock idx [] s = ([], [], s)"
| "run_inner P clock idx (v # vs) s =
     (let (w, ev, s1) = run_one P (clock idx) v s; (ws, ev', s2) = run_inner P clock (Suc idx) vs s1
      in (w # ws, ev @ ev', s2))"

definition run_eager :: "'u intake \<Rightarrow> ('u, 's) pipeline \<Rightarrow> (nat \<Rightarrow> nat) \<Rightarrow> py_input list \<Rightarrow> 's \<Rightarrow>
    (py_error + 'u outcome list) \<times> progress_event list \<times> 's" where
  "run_eager E P clock inputs s =
     (case convert_all E inputs of
        (Inl e, ev) \<Rightarrow> (Inl e, ev, s)
      | (Inr vs, ev) \<Rightarrow>
          (let (ws, ev', s') = run_inner P clock 0 vs s in (Inr (map outcome_from_value ws), ev @ ev', s')))"

text \<open>
  The other path converts an input when its turn comes and hands its outcome to \<open>call\<close> unless it failed; an error
  of either ends the call.
\<close>

fun callback_results :: "'u intake \<Rightarrow> ('u, 's) pipeline \<Rightarrow> (nat \<Rightarrow> nat) \<Rightarrow> ('u outcome \<Rightarrow> py_error + unit) \<Rightarrow> nat \<Rightarrow> py_input list \<Rightarrow> 's \<Rightarrow>
    (py_error + nat \<times> 'u outcome) list \<times> progress_event list \<times> 's" where
  "callback_results E P clock call idx [] s = ([], [], s)"
| "callback_results E P clock call idx (obj # objs) s =
     (case convert_input_or_failure E obj of
        (Inl e, ev) \<Rightarrow> ([Inl e], ev, s)
      | (Inr v, ev) \<Rightarrow>
          (let (w, ev1, s1) = run_one P (clock idx) v s; out = outcome_from_value w
           in case (if is_failed w then Inr () else call out) of
                Inl e \<Rightarrow> ([Inl e], ev @ ev1, s1)
              | Inr u \<Rightarrow>
                  (let (rs, ev2, s2) = callback_results E P clock call (Suc idx) objs s1
                   in (Inr (idx, out) # rs, ev @ ev1 @ ev2, s2))))"

definition run_with_callback :: "'u intake \<Rightarrow> ('u, 's) pipeline \<Rightarrow> (nat \<Rightarrow> nat) \<Rightarrow> ('u outcome \<Rightarrow> py_error + unit) \<Rightarrow> bool \<Rightarrow>
    py_input list \<Rightarrow> 's \<Rightarrow> (py_error + 'u outcome list option) \<times> progress_event list \<times> 's" where
  "run_with_callback E P clock call retain inputs s =
     (let (rs, ev, s') = callback_results E P clock call 0 inputs s
      in (collect_outcomes retain (length inputs) rs, ev, s'))"

subsection \<open>Callbacks by source\<close>

type_synonym 'cb sink = "rstr \<rightharpoonup> 'cb"

definition sink_from_pairs :: "(rstr \<times> 'cb) list \<Rightarrow> 'cb sink" where
  "sink_from_pairs pairs = fold (\<lambda>(sid, cb) m. m(sid \<mapsto> cb)) pairs Map.empty"

definition sink_emit :: "'cb sink \<Rightarrow> progress_event \<Rightarrow> ('cb \<times> progress_event) list" where
  "sink_emit sink e = (case sink (pe_source_id e) of None \<Rightarrow> [] | Some cb \<Rightarrow> [(cb, e)])"

fun callback_ids :: "'u intake \<Rightarrow> (rstr \<times> 'cb) list \<Rightarrow> py_error + (rstr \<times> 'cb) list" where
  "callback_ids E [] = Inr []"
| "callback_ids E ((i, cb) # cbs) =
     bind_res (value_error_id E (str ''invalid source_id in callbacks: '') i)
       (\<lambda>sid. bind_res (callback_ids E cbs) (\<lambda>pairs. Inr ((sid, cb) # pairs)))"

text \<open>\<open>Pipeline::run\<close>; the events are listed with the callback that receives them.\<close>

definition pipeline_run :: "'u intake \<Rightarrow> ('u, 's) pipeline \<Rightarrow> (nat \<Rightarrow> nat) \<Rightarrow> py_input list \<Rightarrow> (rstr \<times> 'cb) list option \<Rightarrow>
    ('u outcome \<Rightarrow> py_error + unit) option \<Rightarrow> bool \<Rightarrow> 's \<Rightarrow>
    (py_error + 'u outcome list option) \<times> ('cb \<times> progress_event) list \<times> 's" where
  "pipeline_run E P clock inputs callbacks outcome_callback retain s =
     (case callback_ids E (case callbacks of Some cbs \<Rightarrow> cbs | None \<Rightarrow> []) of
        Inl e \<Rightarrow> (Inl e, [], s)
      | Inr pairs \<Rightarrow>
          (let sink = sink_from_pairs pairs
           in case outcome_callback of
                Some call \<Rightarrow>
                  (case run_with_callback E P clock call retain inputs s of
                     (r, ev, s') \<Rightarrow> (r, concat (map (sink_emit sink) ev), s'))
              | None \<Rightarrow>
                  (case run_eager E P clock inputs s of
                     (r, ev, s') \<Rightarrow> (map_sum id Some r, concat (map (sink_emit sink) ev), s'))))"

end
