(* ===== verification/IntakeLaws.thy ===== *)
theory IntakeLaws
  imports Intake
begin

text \<open>What \<open>Intake\<close> promises: identity from input to outcome, and the agreement of the two ways to run.\<close>

section \<open>Conversion keeps the identity\<close>

text \<open>
  An object whose parts agree: the identity of a typed input is the one its attribute shows, a string has no
  attributes, and an object with \<open>main\<close> and \<open>gold\<close> has no \<open>path\<close>.
\<close>

definition id_agrees :: "py_input \<Rightarrow> rstr option \<Rightarrow> bool" where
  "id_agrees obj typed = (case typed of None \<Rightarrow> True
     | Some i \<Rightarrow> source_id_try_new i = Inr i \<and> (case pi_attr obj (str ''source_id'') of None \<Rightarrow> True | Some s \<Rightarrow> s = i))"

definition coherent_input :: "py_input \<Rightarrow> bool" where
  "coherent_input obj \<longleftrightarrow>
     id_agrees obj (map_option mi_source_id (pi_media obj)) \<and> id_agrees obj (map_option ci_source_id (pi_chat obj)) \<and>
     id_agrees obj (map_option ai_source_id (pi_ai obj)) \<and> id_agrees obj (map_option pp_source_id (pi_paired obj)) \<and>
     (pi_string obj = None \<or> pi_attr obj = (\<lambda>_. None)) \<and>
     (pi_attr obj (str ''main'') = None \<or> pi_attr obj (str ''gold'') = None \<or> pi_attr obj (str ''path'') = None)"

lemma valid_id_Some: "valid_id s = Some sid \<longleftrightarrow> source_id_try_new s = Inr sid"
  by (auto simp: valid_id_def split: sum.splits)

lemma value_error_id_Inr: "value_error_id E m s = Inr sid \<longleftrightarrow> source_id_try_new s = Inr sid"
  by (simp add: value_error_id_def map_err_iff)

lemma load_chat_at_source: "load_chat_at E path sid = Inr c \<Longrightarrow> ch_source_id c = sid"
  by (auto simp: load_chat_at_def bind_res_Inr_iff map_err_iff chat_parse_Inr)

lemma load_chat_with_media_source: "load_chat_with_media E path sid m = Inr c \<Longrightarrow> ch_source_id c = sid"
  by (auto simp: load_chat_with_media_def bind_res_Inr_iff with_media_def dest!: load_chat_at_source split: option.splits)

lemma load_gold_value: "load_gold E main g = Inr v \<Longrightarrow> value_source_id v = ch_source_id main \<and> \<not> is_failed v"
  by (auto simp: load_gold_def bind_res_Inr_iff)

lemma chat_or_media_value: "chat_or_media E path sid = Inr v \<Longrightarrow> value_source_id v = sid \<and> \<not> is_failed v"
  by (auto simp: chat_or_media_def media_input_new_def bind_res_Inr_iff dest: load_chat_at_source split: if_splits)

lemmas loaded_sources = load_chat_at_source load_chat_with_media_source load_gold_value chat_or_media_value

text \<open>The typed inputs: the identity recovered is the one they carry.\<close>

lemma recover_typed:
  assumes "coherent_input obj" "first_some [map_option mi_source_id (pi_media obj), map_option ci_source_id (pi_chat obj),
      map_option ai_source_id (pi_ai obj), map_option pp_source_id (pi_paired obj)] = Some i"
  shows "recover_source_id obj = Some i"
  using assms
  by (cases "pi_attr obj (str ''source_id'')"; cases "pi_media obj"; cases "pi_chat obj"; cases "pi_ai obj"; cases "pi_paired obj")
     (auto simp: coherent_input_def id_agrees_def recover_source_id_def valid_id_def)

lemma attr_id_recovered:
  assumes "attr_id E obj path = Inr sid" "recover_source_id obj = Some i"
    and "pi_media obj = None" "pi_chat obj = None" "pi_ai obj = None" "pi_paired obj = None"
    and "first_some [pi_attr obj (str ''path''), pi_attr obj (str ''main''), pi_string obj] = Some path"
  shows "sid = i"
  using assms
  by (cases "pi_attr obj (str ''source_id'')"; cases "path_stem path")
     (auto simp: attr_id_def recover_source_id_def Let_def value_error_id_Inr valid_id_def stem_or_def split: sum.splits)

lemma converted_identity:
  assumes co: "coherent_input obj" and r: "recover_source_id obj = Some i" and c: "convert_py_input E obj = Inr v"
  shows "value_source_id v = i \<and> \<not> is_failed v"
proof (cases "pi_media obj = None \<and> pi_chat obj = None \<and> pi_ai obj = None \<and> pi_paired obj = None")
  case False
  have "value_source_id v = the (first_some [map_option mi_source_id (pi_media obj), map_option ci_source_id (pi_chat obj),
      map_option ai_source_id (pi_ai obj), map_option pp_source_id (pi_paired obj)]) \<and> \<not> is_failed v"
    using False c
    by (cases "pi_media obj"; cases "pi_chat obj"; cases "pi_ai obj"; cases "pi_paired obj")
       (auto simp: convert_py_input_def load_chat_input_def load_ai_chat_input_def convert_paired_def bind_res_Inr_iff
         split: if_splits dest!: loaded_sources)
  moreover have "first_some [map_option mi_source_id (pi_media obj), map_option ci_source_id (pi_chat obj),
      map_option ai_source_id (pi_ai obj), map_option pp_source_id (pi_paired obj)] \<noteq> None"
    using False by (cases "pi_media obj"; cases "pi_chat obj"; cases "pi_ai obj"; cases "pi_paired obj") auto
  ultimately show ?thesis using recover_typed [OF co] r by force
next
  case True
  show ?thesis
  proof (cases "pi_string obj")
    case (Some s)
    then have "pi_attr obj = (\<lambda>_. None)" using co by (simp add: coherent_input_def)
    then show ?thesis using Some True c r
      by (auto simp: convert_py_input_def media_from_string_def recover_source_id_def bind_res_Inr_iff value_error_id_Inr valid_id_def
          split: option.splits dest!: chat_or_media_value)
  next
    case None
    note attrs = attr_id_recovered [OF _ r] 
    have c': "convert_attrs E obj = Inr v" using True None c by (simp add: convert_py_input_def)
    show ?thesis
    proof (cases "pi_attr obj (str ''main'') = None \<or> pi_attr obj (str ''gold'') = None")
      case True': True
      then obtain path sid where p: "pi_attr obj (str ''path'') = Some path" "attr_id E obj path = Inr sid" "chat_or_media E path sid = Inr v"
        using c' by (auto simp: convert_attrs_def bind_res_Inr_iff split: option.splits)
      then show ?thesis using attrs [OF p(2)] True chat_or_media_value by force
    next
      case False
      then obtain m g sid d where p: "pi_attr obj (str ''main'') = Some m" "pi_attr obj (str ''gold'') = Some g"
          "attr_id E obj m = Inr sid" "load_chat_at E m sid = Inr d" "load_gold E d g = Inr v"
        using c' by (auto simp: convert_attrs_def bind_res_Inr_iff split: option.splits)
      moreover have "pi_attr obj (str ''path'') = None" using co p by (simp add: coherent_input_def)
      ultimately show ?thesis using attrs [OF p(3)] True load_chat_at_source load_gold_value by force
    qed
  qed
qed


text \<open>One input: whatever becomes of its conversion, it yields one value under its identity.\<close>

lemma converted_or_failed:
  assumes "coherent_input obj" "recover_source_id obj = Some i"
  obtains v ev where "convert_input_or_failure E obj = (Inr v, ev)" "value_source_id v = i"
proof (cases "convert_py_input E obj")
  case (Inl e)
  with assms that show ?thesis by (force simp: convert_input_or_failure_def Let_def)
next
  case (Inr v)
  with converted_identity [OF assms this] that show ?thesis by (simp add: convert_input_or_failure_def)
qed

lemma convert_all_sources:
  "list_all coherent_input objs \<Longrightarrow> list_all (\<lambda>obj. recover_source_id obj \<noteq> None) objs \<Longrightarrow>
     \<exists>vs ev. convert_all E objs = (Inr vs, ev) \<and> map value_source_id vs = map (the \<circ> recover_source_id) objs"
proof (induction objs)
  case (Cons obj objs)
  then obtain i where i: "recover_source_id obj = Some i" and co: "coherent_input obj" by auto
  obtain v ev where "convert_input_or_failure E obj = (Inr v, ev)" "value_source_id v = i"
    using converted_or_failed [OF co i] by blast
  with Cons i show ?case by fastforce
qed simp

section \<open>A run keeps the identity\<close>

text \<open>Every runner of the pipeline leaves the source of a value alone.\<close>

definition sourced_runners :: "('u, 's) pipeline \<Rightarrow> bool" where
  "sourced_runners P \<longleftrightarrow> (\<forall>t runner v s. pl_runners P t = Some runner \<longrightarrow> value_source_id (fst (snd (runner v s))) = value_source_id v)"

lemma sourced_runnersD: "sourced_runners P \<Longrightarrow> pl_runners P t = Some runner \<Longrightarrow> runner v s = (r, w, ev, s') \<Longrightarrow> value_source_id w = value_source_id v"
  unfolding sourced_runners_def by (metis fst_conv snd_conv)

lemma try_step_source:
  "sourced_runners P \<Longrightarrow> value_source_id (fst (try_step P t v s)) = value_source_id v"
  by (auto simp: try_step_def Let_def split: option.splits sum.splits prod.splits dest: sourced_runnersD)

lemma run_loop_source:
  "sourced_runners P \<Longrightarrow> value_source_id (fst (run_loop P ts v s)) = value_source_id v"
proof (induction ts arbitrary: v s)
  case (Cons t ts)
  show ?case using Cons.IH [OF Cons.prems] try_step_source [OF Cons.prems, of t v s]
    by (auto simp: Let_def split: prod.splits) (metis fst_conv)
qed simp

lemma stamped_source: "value_source_id (stamp_chats_in_value P secs v) = value_source_id v"
  by (induction v) (simp_all add: stamp_lines_def)

lemma run_one_source: "sourced_runners P \<Longrightarrow> value_source_id (fst (run_one P secs v s)) = value_source_id v"
  using run_loop_source [of P "pl_order P" v s]
  by (auto simp: run_one_def Let_def stamp_run_provenance_def stamped_source split: prod.splits)

lemma run_inner_sources:
  "sourced_runners P \<Longrightarrow> map value_source_id (fst (run_inner P clock idx vs s)) = map value_source_id vs"
proof (induction vs arbitrary: idx s)
  case (Cons v vs)
  show ?case using Cons.IH [OF Cons.prems] run_one_source [OF Cons.prems, of "clock idx" v s]
    by (auto simp: Let_def split: prod.splits) (metis fst_conv)+
qed simp

section \<open>The two ways to run\<close>

lemma place_outcomes_error: "place_outcomes os (map Inr rs @ [Inl e]) = Inl e"
  by (induction rs arbitrary: os) auto

lemma run_inner_length: "length (fst (run_inner P clock idx vs s)) = length vs"
  by (induction vs arbitrary: idx s) (auto simp: Let_def split: prod.splits, metis fst_conv)

lemma convert_all_length: "convert_all E objs = (Inr vs, ev) \<Longrightarrow> length vs = length objs"
  by (induction objs arbitrary: vs ev) (auto split: prod.splits sum.splits simp: map_sum_Inr_iff)


lemma two_ways:
  "case convert_all E objs of
     (Inr vs, ev) \<Rightarrow>
       (case run_inner P clock idx vs s of (ws, ev1, s1) \<Rightarrow>
         \<exists>ev2. callback_results E P clock (\<lambda>out. Inr ()) idx objs s = (map Inr (List.enumerate idx (map outcome_from_value ws)), ev2, s1)
           \<and> mset ev2 = mset (ev @ ev1))
   | (Inl e, ev) \<Rightarrow> (\<exists>rs ev2 s2. callback_results E P clock (\<lambda>out. Inr ()) idx objs s = (map Inr rs @ [Inl e], ev2, s2))"
proof (induction objs arbitrary: idx s)
  case (Cons obj objs)
  obtain r ev where c: "convert_input_or_failure E obj = (r, ev)" by force
  show ?case
  proof (cases r)
    case (Inl e)
    with c show ?thesis by (auto intro: exI [of _ "[]"])
  next
    case (Inr v)
    obtain w ev1 s1 where o: "run_one P (clock idx) v s = (w, ev1, s1)" using prod_cases3 by blast
    obtain r' ev' where c': "convert_all E objs = (r', ev')" by force
    note IH = Cons.IH [of "Suc idx" s1, unfolded c', simplified]
    show ?thesis
    proof (cases r')
      case (Inl e)
      then obtain rs ev2 s2 where "callback_results E P clock (\<lambda>out. Inr ()) (Suc idx) objs s1 = (map Inr rs @ [Inl e], ev2, s2)"
        using IH by auto
      then have "callback_results E P clock (\<lambda>out. Inr ()) idx (obj # objs) s
          = (map Inr ((idx, outcome_from_value w) # rs) @ [Inl e], ev @ ev1 @ ev2, s2)"
        using c Inr o by simp
      then show ?thesis using c Inr c' Inl by (auto simp del: callback_results.simps intro!: exI [of _ "(idx, outcome_from_value w) # rs"])
    next
      case vs: (Inr vs)
      obtain ws evs s2 where i: "run_inner P clock (Suc idx) vs s1 = (ws, evs, s2)" using prod_cases3 by blast
      with vs IH obtain ev2 where "callback_results E P clock (\<lambda>out. Inr ()) (Suc idx) objs s1
          = (map Inr (List.enumerate (Suc idx) (map outcome_from_value ws)), ev2, s2)" "mset ev2 = mset (ev' @ evs)" by auto
      then show ?thesis using c Inr c' vs i o by (auto simp: Let_def)
    qed
  qed
qed simp


text \<open>C36: The two ways to run a pipeline agree: the run that hands each outcome to a callback as soon as it is there, when the
  callback never raises and the outcomes are kept, returns what the run that converts every input first returns. Either both
  fail with the error of the first input that cannot be identified (and the first has then run nothing), or both
  return the same outcomes in the order of the inputs and leave the same engine and cache behind, and their events
  are the same but for the order.\<close>

theorem callback_run_agrees:
  "case run_eager E P clock inputs s of
     (Inr outs, ev, s') \<Rightarrow>
       \<exists>ev'. run_with_callback E P clock (\<lambda>out. Inr ()) True inputs s = (Inr (Some outs), ev', s') \<and> mset ev' = mset ev
   | (Inl e, ev, s') \<Rightarrow> fst (run_with_callback E P clock (\<lambda>out. Inr ()) True inputs s) = Inl e \<and> s' = s"
proof -
  obtain r ev where c: "convert_all E inputs = (r, ev)" by force
  note two = two_ways [where E = E and objs = inputs and P = P and clock = clock and idx = 0 and s = s, unfolded c, simplified]
  show ?thesis
  proof (cases r)
    case (Inl e)
    with two show ?thesis
      by (auto simp: run_eager_def c run_with_callback_def collect_outcomes_def place_outcomes_error)
  next
    case (Inr vs)
    obtain ws ev1 s1 where i: "run_inner P clock 0 vs s = (ws, ev1, s1)" using prod_cases3 by blast
    have "length ws = length inputs"
      using run_inner_length [of P clock 0 vs s] convert_all_length c Inr i by fastforce
    then have "collect_outcomes True (length inputs) (map Inr (List.enumerate 0 (map outcome_from_value ws))) =
        (Inr (Some (map outcome_from_value ws)) :: py_error + _)"
      using outcomes_in_input_order [of "List.enumerate 0 (map outcome_from_value ws)" "map outcome_from_value ws"] by simp
    with two show ?thesis by (auto simp: run_eager_def c Inr i run_with_callback_def)
  qed
qed

text \<open>C35: A run answers every input under its own identity: when each input is an object whose parts agree and from which an
  identity can be recovered, and the runners leave the source of a value alone, the run returns one outcome per input,
  in the order of the inputs, each with the identity recovered from its input, whether its conversion or any
  of its stages failed or not.\<close>

theorem run_answers_every_input:
  assumes "list_all coherent_input inputs" "list_all (\<lambda>obj. recover_source_id obj \<noteq> None) inputs" "sourced_runners P"
  shows "\<exists>outs ev s'. run_eager E P clock inputs s = (Inr outs, ev, s') \<and>
    map oc_source_id outs = map (the \<circ> recover_source_id) inputs"
proof -
  obtain vs ev where c: "convert_all E inputs = (Inr vs, ev)" "map value_source_id vs = map (the \<circ> recover_source_id) inputs"
    using convert_all_sources [OF assms(1,2)] by blast
  obtain ws ev1 s1 where i: "run_inner P clock 0 vs s = (ws, ev1, s1)" using prod_cases3 by blast
  then have "map value_source_id ws = map value_source_id vs" using run_inner_sources [OF assms(3), of clock 0 vs s] by simp
  with c i show ?thesis by (auto simp: run_eager_def outcome_from_value_def comp_def)
qed

text \<open>A recording given by its path, and a transcript that cannot be read.\<close>

definition sample_intake :: "unit intake" where
  "sample_intake = \<lparr>in_doc = \<lparr>dc_parse = \<lambda>v txt. Inr [], dc_to_chat = \<lambda>ls. [], dc_main_tier = \<lambda>ls. Inr (),
     dc_output = \<lambda>ls c. Inr (), dc_error_text = \<lambda>e. [], dc_languages = \<lambda>ls. []\<rparr>,
     in_read = \<lambda>p. Inl (str ''No such file''), in_audio_text = \<lambda>a. [], in_failure_text = \<lambda>m. m\<rparr>"

definition sample_object :: "rstr option \<Rightarrow> (rstr \<Rightarrow> rstr option) \<Rightarrow> py_input" where
  "sample_object text' attrs = \<lparr>pi_media = None, pi_chat = None, pi_ai = None, pi_paired = None, pi_string = text',
     pi_attr = attrs, pi_path_error = []\<rparr>"

definition sample_inputs :: "py_input list" where
  "sample_inputs = [sample_object (Some (str ''in/one.wav'')) (\<lambda>_. None),
     sample_object None ((\<lambda>_. None)(str ''path'' \<mapsto> str ''in/two.cha''))]"

lemma sample_inputs_coherent: "list_all coherent_input sample_inputs"
  by (simp add: sample_inputs_def sample_object_def coherent_input_def id_agrees_def str_def)

lemma sample_inputs_recovered: "map recover_source_id sample_inputs = [Some (str ''one''), Some (str ''two'')]"
  by code_simp

theorem run_answers_every_input_witness:
  "\<exists>outs ev s'. run_eager sample_intake sample_pipeline (\<lambda>i. i) sample_inputs (0 :: nat) = (Inr outs, ev, s') \<and>
    map oc_source_id outs = [str ''one'', str ''two'']"
proof -
  have "list_all (\<lambda>obj. recover_source_id obj \<noteq> None) sample_inputs"
    using sample_inputs_recovered by (auto simp: sample_inputs_def)
  moreover have "sourced_runners sample_pipeline" by (auto simp: sourced_runners_def sample_pipeline_def)
  ultimately have "\<exists>outs ev s'. run_eager sample_intake sample_pipeline (\<lambda>i. i) sample_inputs (0 :: nat) = (Inr outs, ev, s') \<and>
      map oc_source_id outs = map (the \<circ> recover_source_id) sample_inputs"
    by (intro run_answers_every_input sample_inputs_coherent)
  moreover have "map (the \<circ> recover_source_id) sample_inputs = [str ''one'', str ''two'']"
    using sample_inputs_recovered by (simp add: sample_inputs_def)
  ultimately show ?thesis by simp
qed


section \<open>A pipeline that is constructed can run\<close>

lemma first_unserved_None: "first_unserved served order = None \<longleftrightarrow> list_all served order"
  by (induction order) (auto simp: first_unserved_def split: list.splits)

lemma runners_of_lookup: "runners_of c order t = (if t \<in> set order then Some (c t) else None)"
proof -
  have "fold (\<lambda>t m. m(t := Some (c t))) order m t = (if t \<in> set order then Some (c t) else m t)" for m
    by (induction order arbitrary: m) auto
  then show ?thesis by (simp add: runners_of_def)
qed

text \<open>A task is served exactly when it has a backend name.\<close>

lemma register_all_names:
  "register_all bs tx en = Inr en' \<Longrightarrow> dom (en_routes en) = dom (en_backend_names en) \<Longrightarrow> dom (en_routes en') = dom (en_backend_names en')"
proof (induction bs arbitrary: tx en)
  case (Cons b bs)
  obtain w where b: "b = Inr w" using Cons.prems(1) by (cases b) auto
  obtain r en1 where r: "register w tx en = (r, en1)" by force
  have rest: "r = Inr ()" "register_all bs (Suc tx) en1 = Inr en'" using Cons.prems(1) b r by (cases r; simp)+
  then have "dom (en_routes en1) = dom (en_backend_names en1)" using Cons.prems(2) r by (auto simp: register_correct dom_def)
  with Cons.IH [OF rest(2)] show ?case .
qed simp

text \<open>C37: Construction of a pipeline, for every list of declared tasks and whatever order the hash containers are iterated in: it
  always ends; if it succeeds, the stages are the declared tasks, each once, and every stage has its canonical runner, a route to
  a backend and the name of that backend for its stamp; and it fails only when there are no workers, the cache or the runtime
  does not open, a backend is refused, or a declared task has no backend.\<close>

theorem construction_serves_every_stage:
  assumes "distinct nodes" "set nodes = expand_with_requires tasks" "distinct keys" "set keys = set nodes"
  shows "\<exists>r. pipeline_new C tasks nodes keys backends workers = Some r \<and>
    (case r of
       Inr (P, en, w) \<Rightarrow> w = workers \<and> 0 < workers \<and> distinct (pl_order P) \<and> set (pl_order P) = set tasks \<and>
         list_all (\<lambda>t. pl_runners P t = Some (cn_canonical_runner C t) \<and> serves en t \<and> pl_engine_name P t \<noteq> None) tasks
     | Inl e \<Rightarrow> workers = 0 \<or> cn_cache_open C \<noteq> Inr () \<or> cn_runtime_init C \<noteq> Inr () \<or>
         (case register_all backends 0 engine_new of Inl e' \<Rightarrow> True | Inr en \<Rightarrow> \<not> list_all (serves en) tasks))"
proof -
  obtain order where o: "topo_sort_stable tasks nodes keys = Some order" "greedy_order (rank_of tasks) (set tasks) order"
    using topo_sort_greedy [OF assms] by blast
  then have set_o: "distinct order" "set order = set tasks"
    by (simp_all add: greedy_order_def)
  have n0: "dom (en_routes engine_new) = dom (en_backend_names engine_new)" by (simp add: engine_new_def)
  show ?thesis
  proof (cases "workers = 0 \<or> cn_cache_open C \<noteq> Inr () \<or> cn_runtime_init C \<noteq> Inr ()")
    case True
    then show ?thesis using o by (auto simp: pipeline_new_def split: sum.splits)
  next
    case False
    then have new: "pipeline_new C tasks nodes keys backends workers =
      Some (bind_res (register_all backends 0 engine_new) (\<lambda>en.
         (case first_unserved (serves en) order of
            Some t \<Rightarrow> Inl (ValueError (str ''no backend registered for required task '' @ task_debug t))
          | None \<Rightarrow> Inr (\<lparr>pl_order = order, pl_runners = runners_of (cn_canonical_runner C) order,
                pl_gate = stage_gate_check (cn_doc C), pl_engine_name = en_backend_names en,
                pl_error_text = cn_error_text C, pl_sha = cn_sha C\<rparr>, en, workers))))"
      by (simp add: pipeline_new_def o)
    show ?thesis
    proof (cases "register_all backends 0 engine_new")
      case (Inl e)
      with new show ?thesis by simp
    next
      case (Inr en)
      have d: "dom (en_routes en) = dom (en_backend_names en)" by (rule register_all_names [OF Inr n0])
      show ?thesis
      proof (cases "first_unserved (serves en) order")
        case None
        then have "list_all (serves en) tasks" using set_o by (simp add: first_unserved_None list_all_iff)
        with new Inr None set_o d False show ?thesis by (auto simp: runners_of_lookup list_all_iff serves_def)
      next
        case (Some t)
        then have "\<not> list_all (serves en) tasks"
          using first_unserved_None [of "serves en" order] set_o by (simp add: list_all_iff)
        with new Inr Some show ?thesis by simp
      qed
    qed
  qed
qed

definition sample_construction :: "(unit, nat) construction" where
  "sample_construction = \<lparr>cn_cache_open = Inr (), cn_runtime_init = Inr (), cn_canonical_runner = \<lambda>t v s. (Inr (), v, [], s),
     cn_doc = in_doc sample_intake, cn_error_text = \<lambda>e. [], cn_sha = []\<rparr>"

theorem construction_serves_every_stage_witness:
  "\<exists>r. pipeline_new sample_construction [Translate] [Translate] [Translate] [Inr sample_backend] 8 = Some r"
  using construction_serves_every_stage [of "[Translate]" "[Translate]" "[Translate]" sample_construction "[Inr sample_backend]" 8]
  by (auto simp: expand_with_requires_def)

end
