(* ===== verification/CacheOpen.thy ===== *)
theory CacheOpen
  imports Engine
begin

text \<open>
  The life of the cache files: \<open>Cache::open\<close> with its registry of environments, the default path, \<open>nuke_cache\<close> and the
  specification of a cache, of engine \<^verbatim>\<open>cache.rs\<close>. What the file system and LMDB answer is given. An environment is
  the number of the database file it maps; removing the file does not unmap it.
\<close>

section \<open>Specification and paths\<close>

record cache_spec =
  cs_path :: rstr
  cs_policy :: cache_policy

text \<open>\<open>cache_dir\<close> is what the platform names, when it names one.\<close>

definition default_cache_path :: "rstr option \<Rightarrow> rstr" where
  "default_cache_path cache_dir =
     (case cache_dir of Some d \<Rightarrow> d | None \<Rightarrow> str ''.'') @ str ''/batchalign'' @ str ''/cache.lmdb''"

definition cache_spec_new :: "rstr option \<Rightarrow> rstr option \<Rightarrow> cache_policy \<Rightarrow> cache_spec" where
  "cache_spec_new cache_dir path policy =
     \<lparr>cs_path = (case path of Some p \<Rightarrow> p | None \<Rightarrow> default_cache_path cache_dir), cs_policy = policy\<rparr>"

definition cache_spec_bypass :: "rstr option \<Rightarrow> cache_spec" where
  "cache_spec_bypass cache_dir = \<lparr>cs_path = default_cache_path cache_dir, cs_policy = Bypass\<rparr>"

definition cache_spec_refresh :: "rstr option \<Rightarrow> cache_spec" where
  "cache_spec_refresh cache_dir = \<lparr>cs_path = default_cache_path cache_dir, cs_policy = Refresh\<rparr>"

definition cache_spec_default :: "rstr option \<Rightarrow> cache_spec" where
  "cache_spec_default cache_dir = \<lparr>cs_path = default_cache_path cache_dir, cs_policy = UseCache\<rparr>"

section \<open>Environments\<close>

record cache_fs =
  fs_create_dir :: "rstr \<Rightarrow> rstr option"
  fs_canonicalize :: "rstr \<Rightarrow> rstr + rstr"
  fs_open_fails :: "rstr \<Rightarrow> rstr option"
  fs_table_fails :: "nat \<Rightarrow> rstr option"
  fs_remove_fails :: "rstr \<Rightarrow> rstr option"

text \<open>The registry, the database file at each canonical path, the next file, and the paths that LMDB has opened.\<close>

record cache_world =
  cw_registry :: "rstr \<rightharpoonup> nat"
  cw_disk :: "rstr \<rightharpoonup> nat"
  cw_next :: nat
  cw_opened :: "rstr list"

record cache_handle =
  chn_env :: nat
  chn_policy :: cache_policy

definition fresh_process :: "(rstr \<rightharpoonup> nat) \<Rightarrow> nat \<Rightarrow> cache_world" where
  "fresh_process disk next_file = \<lparr>cw_registry = Map.empty, cw_disk = disk, cw_next = next_file, cw_opened = []\<rparr>"

text \<open>\<open>EnvOpenOptions::open\<close> maps the file at the path, and creates it when there is none.\<close>

definition lmdb_open :: "rstr \<Rightarrow> cache_world \<Rightarrow> nat \<times> cache_world" where
  "lmdb_open canonical w =
     (case cw_disk w canonical of
        Some file \<Rightarrow> (file, w\<lparr>cw_opened := cw_opened w @ [canonical]\<rparr>)
      | None \<Rightarrow> (cw_next w, w\<lparr>cw_disk := (cw_disk w)(canonical \<mapsto> cw_next w), cw_next := Suc (cw_next w),
                             cw_opened := cw_opened w @ [canonical]\<rparr>))"

definition registered_env :: "cache_fs \<Rightarrow> rstr \<Rightarrow> cache_world \<Rightarrow> (rstr + nat) \<times> cache_world" where
  "registered_env F canonical w =
     (case cw_registry w canonical of
        Some existing \<Rightarrow> (Inr existing, w)
      | None \<Rightarrow>
          (case fs_open_fails F canonical of
             Some e \<Rightarrow> (Inl (str ''cache: open LMDB at '' @ canonical), w)
           | None \<Rightarrow>
               (case lmdb_open canonical w of (env, w') \<Rightarrow>
                  (Inr env, w'\<lparr>cw_registry := (cw_registry w')(canonical \<mapsto> env)\<rparr>))))"

definition cache_open :: "cache_fs \<Rightarrow> rstr \<Rightarrow> cache_policy \<Rightarrow> cache_world \<Rightarrow> (rstr + cache_handle) \<times> cache_world" where
  "cache_open F path policy w =
     (case fs_create_dir F path of
        Some e \<Rightarrow> (Inl (str ''cache: create LMDB dir '' @ path), w)
      | None \<Rightarrow>
          (case fs_canonicalize F path of
             Inl e \<Rightarrow> (Inl (str ''cache: canonicalize '' @ path), w)
           | Inr canonical \<Rightarrow>
               (case registered_env F canonical w of
                  (Inl e, w') \<Rightarrow> (Inl e, w')
                | (Inr env, w') \<Rightarrow>
                    (case fs_table_fails F env of
                       Some e \<Rightarrow> (Inl e, w')
                     | None \<Rightarrow> (Inr \<lparr>chn_env = env, chn_policy = policy\<rparr>, w')))))"

definition open_from_spec :: "cache_fs \<Rightarrow> cache_spec \<Rightarrow> cache_world \<Rightarrow> (rstr + cache_handle) \<times> cache_world" where
  "open_from_spec F spec w = cache_open F (cs_path spec) (cs_policy spec) w"

text \<open>The default path is taken to be no symbolic link; the registry is left as it is.\<close>

definition nuke_cache :: "cache_fs \<Rightarrow> rstr option \<Rightarrow> cache_world \<Rightarrow> (rstr + unit) \<times> cache_world" where
  "nuke_cache F cache_dir w =
     (let path = default_cache_path cache_dir
      in if path \<in> dom (cw_disk w)
         then (case fs_remove_fails F path of
                 Some e \<Rightarrow> (Inl (str ''OSError: nuke_cache: '' @ e), w)
               | None \<Rightarrow> (Inr (), w\<lparr>cw_disk := (cw_disk w)(path := None)\<rparr>))
         else (Inr (), w))"

section \<open>One environment for each path\<close>

datatype cache_op = OpenCache rstr cache_policy | NukeCache

fun cache_op_step :: "cache_fs \<Rightarrow> rstr option \<Rightarrow> cache_op \<Rightarrow> cache_world \<Rightarrow> cache_world" where
  "cache_op_step F d (OpenCache path policy) w = snd (cache_open F path policy w)"
| "cache_op_step F d NukeCache w = snd (nuke_cache F d w)"

definition opens_ok :: "cache_world \<Rightarrow> bool" where
  "opens_ok w \<longleftrightarrow> distinct (cw_opened w) \<and> set (cw_opened w) = dom (cw_registry w)"

lemma registered_env_ok:
  "opens_ok w \<Longrightarrow> registered_env F canonical w = (r, w') \<Longrightarrow> opens_ok w'
     \<and> (\<forall>env. r = Inr env \<longrightarrow> cw_registry w' canonical = Some env)
     \<and> (\<forall>c env. cw_registry w c = Some env \<longrightarrow> cw_registry w' c = Some env)"
  by (auto simp: opens_ok_def registered_env_def lmdb_open_def split: option.splits)

lemma cache_open_ok:
  assumes "opens_ok w" "cache_open F path policy w = (r, w')"
  shows "opens_ok w' \<and> (\<forall>c env. cw_registry w c = Some env \<longrightarrow> cw_registry w' c = Some env) \<and>
    (\<forall>h. r = Inr h \<longrightarrow> chn_policy h = policy \<and> (\<exists>canonical. fs_canonicalize F path = Inr canonical \<and> cw_registry w' canonical = Some (chn_env h)))"
  using assms
  by (auto simp: cache_open_def split: option.splits sum.splits prod.splits dest: registered_env_ok [OF assms(1)])

lemma nuke_keeps_registry: "cw_registry (snd (nuke_cache F d w)) = cw_registry w \<and> cw_opened (snd (nuke_cache F d w)) = cw_opened w"
  by (simp add: nuke_cache_def Let_def split: option.splits)

lemma cache_op_step_ok:
  "opens_ok w \<Longrightarrow> opens_ok (cache_op_step F d a w) \<and> (\<forall>c env. cw_registry w c = Some env \<longrightarrow> cw_registry (cache_op_step F d a w) c = Some env)"
proof (cases a)
  case (OpenCache path policy)
  assume w: "opens_ok w"
  obtain r w' where "cache_open F path policy w = (r, w')" by force
  from cache_open_ok [OF w this] this OpenCache show ?thesis by simp
next
  case NukeCache
  assume "opens_ok w"
  then show ?thesis using NukeCache nuke_keeps_registry [of F d w] by (simp add: opens_ok_def)
qed

lemma cache_ops_ok:
  "opens_ok w \<Longrightarrow> opens_ok (fold (cache_op_step F d) ops w) \<and>
     (\<forall>c env. cw_registry w c = Some env \<longrightarrow> cw_registry (fold (cache_op_step F d) ops w) c = Some env)"
proof (induction ops arbitrary: w)
  case (Cons a ops)
  then show ?case using cache_op_step_ok [OF Cons.prems, of F d a] by simp
qed simp

lemma fresh_process_ok: "opens_ok (fresh_process disk n)"
  by (simp add: opens_ok_def fresh_process_def)

text \<open>LMDB allows one environment for a path in a process, and the registry keeps to it: whatever caches a process opens and
  removes, in any order and with whatever failures on the way, no canonical path is opened twice; and when an open succeeds and, after
  any further operations, another one on the same file does, under any name and policy, they share one environment.\<close>

lemma environments_are_shared:
  "let w = fold (cache_op_step F d) ops (fresh_process disk n)
   in distinct (cw_opened w) \<and>
      (case cache_open F path policy w of
         (Inl e, w1) \<Rightarrow> True
       | (Inr h, w1) \<Rightarrow>
           (case cache_open F path' policy' (fold (cache_op_step F d) ops' w1) of
              (Inl e, w2) \<Rightarrow> True
            | (Inr h', w2) \<Rightarrow> fs_canonicalize F path \<noteq> fs_canonicalize F path' \<or> chn_env h = chn_env h'))"
proof -
  define w where "w = fold (cache_op_step F d) ops (fresh_process disk n)"
  have w: "opens_ok w" unfolding w_def using cache_ops_ok [OF fresh_process_ok] by blast
  obtain r w1 where o: "cache_open F path policy w = (r, w1)" by force
  note first = cache_open_ok [OF w o]
  define v where "v = fold (cache_op_step F d) ops' w1"
  have v: "opens_ok v" "\<forall>c env. cw_registry w1 c = Some env \<longrightarrow> cw_registry v c = Some env"
    unfolding v_def using cache_ops_ok first by blast+
  obtain r' w2 where o': "cache_open F path' policy' v = (r', w2)" by force
  note second = cache_open_ok [OF v(1) o']
  have "chn_env h = chn_env h'" if e: "r = Inr h" "r' = Inr h'" "fs_canonicalize F path = fs_canonicalize F path'" for h h'
  proof -
    obtain c where c: "fs_canonicalize F path = Inr c" "cw_registry w1 c = Some (chn_env h)" using first e(1) by blast
    obtain c' where c': "fs_canonicalize F path' = Inr c'" "cw_registry w2 c' = Some (chn_env h')" using second e(2) by blast
    have "cw_registry w2 c = Some (chn_env h)" using c(2) v(2) second by blast
    with c c' e(3) show ?thesis by simp
  qed
  then have shared: "(case cache_open F path policy w of
         (Inl e, w1) \<Rightarrow> True
       | (Inr h, w1) \<Rightarrow>
           (case cache_open F path' policy' (fold (cache_op_step F d) ops' w1) of
              (Inl e, w2) \<Rightarrow> True
            | (Inr h', w2) \<Rightarrow> fs_canonicalize F path \<noteq> fs_canonicalize F path' \<or> chn_env h = chn_env h'))"
    unfolding o prod.case v_def [symmetric] o'
    by (cases r; cases r') (simp_all only: sum.case simp_thms, blast)
  have "distinct (cw_opened w)" using w by (simp only: opens_ok_def)
  with shared show ?thesis unfolding Let_def w_def by (rule conjI [rotated])
qed

text \<open>
  Removing the cache does not reach a process that has it open: a cache opened after the removal is the environment of the
  removed file, while the path holds no file.
\<close>

lemma removed_cache_stays_open:
  assumes "cw_registry w p = Some env" "p = default_cache_path d" "cw_disk w p = Some env" "fs_remove_fails F p = None"
    and "fs_create_dir F p = None" "fs_canonicalize F p = Inr p" "fs_table_fails F env = None"
  shows "\<exists>w1 w2. nuke_cache F d w = (Inr (), w1) \<and> cache_open F p policy w1 = (Inr \<lparr>chn_env = env, chn_policy = policy\<rparr>, w2) \<and> cw_disk w2 p = None"
  using assms by (auto simp: nuke_cache_def cache_open_def registered_env_def Let_def)

end
