(* ===== verification/BackendBridge.thy ===== *)
theory BackendBridge
  imports Intake MediaConvert Alignment
begin

text \<open>
  The backends as the engine sees them: engine \<^verbatim>\<open>backend_impl.rs\<close> (a native backend or a Python object), the constructor of
  \<^verbatim>\<open>native_backends/convert.rs\<close> and the aligner for Python of \<^verbatim>\<open>dp_py.rs\<close>. The steps of the interpreter (imports,
  \<^verbatim>\<open>json\<close>, the rebuilding of typed objects, the call itself) are given with their failures.
\<close>

section \<open>Python backends\<close>

text \<open>An exception: its text, and the parts of \<open>traceback.format_exception\<close> when that works.\<close>

record py_exception =
  px_text :: rstr
  px_traceback :: "rstr list option"

text \<open>
  \<open>'j\<close> is what \<open>json.loads\<close> gives, \<open>'p\<close> the rebuilt batch, \<open>'r\<close> what a backend returns, \<open>'t\<close> its
  tagged form.
\<close>

record ('i, 'o, 'j, 'p, 'r, 't) bridge =
  br_request_json :: "'i task_input list \<Rightarrow> rstr + rstr"
  br_import_json :: "rstr + unit"
  br_import_proto :: "rstr + unit"
  br_loads :: "rstr \<Rightarrow> rstr + 'j"
  br_rebuild :: "'j \<Rightarrow> rstr + 'p"
  br_progress_callable :: "rstr + unit"
  br_set_kwarg :: "rstr + unit"
  br_serialize_outputs :: "'r \<Rightarrow> rstr list \<Rightarrow> rstr + 't"
  br_dumps :: "'t \<Rightarrow> rstr + rstr"
  br_decode :: "rstr \<Rightarrow> rstr + 'o task_output list"
  br_verbose :: bool

record ('p, 'r) py_backend =
  pb_name :: rstr
  pb_tasks :: "task list"
  pb_max_size :: nat
  pb_window_ms :: nat
  pb_call :: "'p \<Rightarrow> py_exception + 'r"

fun input_tag :: "task \<Rightarrow> rstr" where
  "input_tag Ai = str ''Ai''"
| "input_tag Asr = str ''Asr''"
| "input_tag Fa = str ''Fa''"
| "input_tag Phonetic = str ''Phonetic''"
| "input_tag Speaker = str ''Speaker''"
| "input_tag UtSeg = str ''UtSeg''"
| "input_tag Utr = str ''Utr''"
| "input_tag Morphosyntax = str ''Morphosyntax''"
| "input_tag Translate = str ''Translate''"
| "input_tag Coref = str ''Coref''"
| "input_tag Compare = str ''Compare''"
| "input_tag Convert = str ''Convert''"

definition format_py_exception :: "rstr \<Rightarrow> py_exception \<Rightarrow> rstr" where
  "format_py_exception ctxt err =
     (let traceback = trim_end_matches is_whitespace (case px_traceback err of Some parts \<Rightarrow> concat parts | None \<Rightarrow> px_text err)
      in if traceback = [] then ctxt @ str '': '' @ px_text err
         else ctxt @ str '': '' @ px_text err @ [10] @ traceback)"

definition call_py_backend :: "('i, 'o, 'j, 'p, 'r, 't) bridge \<Rightarrow> ('p, 'r) py_backend \<Rightarrow> 'i task_input list \<Rightarrow> 'o task_output list ba_result" where
  "call_py_backend B h batch =
     bind_res (worker_err ''serialize TaskInput batch: '' (br_request_json B batch)) (\<lambda>request_json.
     bind_res (worker_err ''import json: '' (br_import_json B)) (\<lambda>_.
     bind_res (worker_err ''import batchalign._core.proto: '' (br_import_proto B)) (\<lambda>_.
     bind_res (worker_err ''json.loads on serialized batch: '' (br_loads B request_json)) (\<lambda>tagged_dicts.
     bind_res (worker_err ''rebuild_tagged_inputs: '' (br_rebuild B tagged_dicts)) (\<lambda>py_batch.
     bind_res (worker_err ''build progress callable: '' (br_progress_callable B)) (\<lambda>_.
     bind_res (worker_err ''set progress kwarg: '' (br_set_kwarg B)) (\<lambda>_.
     bind_res (map_err (\<lambda>e. WorkerError (if br_verbose B then format_py_exception (str ''Backend.call raised'') e
                 else str ''Backend.call raised: '' @ px_text e)) (pb_call h py_batch)) (\<lambda>result.
     bind_res (worker_err ''serialize_tagged_outputs: '' (br_serialize_outputs B result (map (\<lambda>t. input_tag (ti_task t)) batch)))
       (\<lambda>response_tagged.
     bind_res (worker_err ''json.dumps on backend response: '' (br_dumps B response_tagged)) (\<lambda>response_str.
     worker_err ''deserialize Vec<TaskOutput>: '' (br_decode B response_str)))))))))))"

section \<open>Either kind of backend\<close>

datatype ('i, 'o, 'p, 'r) backend_impl = NativeBackend "('i, 'o) backend" | PythonBackend "('p, 'r) py_backend"

text \<open>
  The object a pipeline is given: the backend in its capsule when it is a native wrapper, else its attributes. Reading an
  attribute can fail, and so can its conversion; \<open>bo_policy_typed\<close> is the policy when it is one of the
  engine's own.
\<close>

record ('i, 'o, 'p, 'r) backend_object =
  bo_capsule :: "('i, 'o) backend option"
  bo_name_attr :: "py_error + (rstr + rstr)"
  bo_policy_attr :: "py_error + unit"
  bo_policy_typed :: "(nat \<times> nat) option"
  bo_max_size :: "py_error + nat"
  bo_window_ms :: "py_error + nat"
  bo_helper :: "rstr + unit"
  bo_declared_tasks :: "py_error + (py_error + task) list"
  bo_call :: "'p \<Rightarrow> py_exception + 'r"

definition batch_policy_of :: "('i, 'o, 'p, 'r) backend_object \<Rightarrow> py_error + nat \<times> nat" where
  "batch_policy_of obj =
     (case bo_policy_typed obj of
        Some p \<Rightarrow> Inr p
      | None \<Rightarrow> bind_res (bo_max_size obj) (\<lambda>max_size. bind_res (bo_window_ms obj) (\<lambda>window_ms. Inr (max_size, window_ms))))"

fun extract_tasks :: "(py_error + task) list \<Rightarrow> py_error + task list" where
  "extract_tasks [] = Inr []"
| "extract_tasks (t # ts) = bind_res t (\<lambda>x. bind_res (extract_tasks ts) (\<lambda>xs. Inr (x # xs)))"

definition backend_from_py :: "('i, 'o, 'p, 'r) backend_object \<Rightarrow> py_error + ('i, 'o, 'p, 'r) backend_impl" where
  "backend_from_py obj =
     (case bo_capsule obj of
        Some b \<Rightarrow> Inr (NativeBackend b)
      | None \<Rightarrow>
          bind_res (bo_name_attr obj) (\<lambda>extracted.
          bind_res (map_err (\<lambda>e. RaisedError (str ''TypeError: backend.name must be str: '' @ e)) extracted) (\<lambda>nm.
          bind_res (bo_policy_attr obj) (\<lambda>_.
          bind_res (batch_policy_of obj) (\<lambda>(max_size, window_ms).
          bind_res (map_err (\<lambda>e. RaisedError (str ''ImportError: batchalign.backends.base.declared_tasks unavailable: '' @ e)) (bo_helper obj)) (\<lambda>_.
          bind_res (bo_declared_tasks obj) (\<lambda>list.
          bind_res (extract_tasks list) (\<lambda>tasks.
            Inr (PythonBackend \<lparr>pb_name = nm, pb_tasks = tasks, pb_max_size = max_size, pb_window_ms = window_ms,
              pb_call = bo_call obj\<rparr>)))))))))"

fun impl_name :: "('i, 'o, 'p, 'r) backend_impl \<Rightarrow> rstr" where
  "impl_name (NativeBackend b) = be_name b"
| "impl_name (PythonBackend h) = pb_name h"

fun impl_tasks :: "('i, 'o, 'p, 'r) backend_impl \<Rightarrow> task list" where
  "impl_tasks (NativeBackend b) = be_tasks b"
| "impl_tasks (PythonBackend h) = pb_tasks h"

fun impl_max_size :: "('i, 'o, 'p, 'r) backend_impl \<Rightarrow> nat" where
  "impl_max_size (NativeBackend b) = be_max_size b"
| "impl_max_size (PythonBackend h) = pb_max_size h"

text \<open>The progress handle only carries ticks back; a Python backend answers the same with or without it.\<close>

fun impl_call_with_progress :: "('i, 'o, 'j, 'p, 'r, 't) bridge \<Rightarrow> ('i, 'o, 'p, 'r) backend_impl \<Rightarrow> 'i task_input list \<Rightarrow> nat option \<Rightarrow>
    'o call_result" where
  "impl_call_with_progress B (NativeBackend b) batch progress = be_call b batch progress"
| "impl_call_with_progress B (PythonBackend h) batch progress = Returned (call_py_backend B h batch)"

definition engine_backend :: "('i, 'o, 'j, 'p, 'r, 't) bridge \<Rightarrow> (ba_error \<Rightarrow> rstr) \<Rightarrow> ('i, 'o, 'p, 'r) backend_impl \<Rightarrow> ('i, 'o) backend" where
  "engine_backend B error_text' impl =
     \<lparr>be_name = impl_name impl, be_tasks = impl_tasks impl, be_max_size = impl_max_size impl,
      be_call = impl_call_with_progress B impl, be_error_text = error_text'\<rparr>"

section \<open>The constructor of the conversion backend\<close>

definition convert_py_new :: "rstr \<Rightarrow> nat option \<Rightarrow> nat option \<Rightarrow> py_error + convert_backend" where
  "convert_py_new format mp3_bitrate_kbps mp3_sample_rate_hz =
     bind_res (map_err ValueError (media_format_from_str format)) (\<lambda>fmt.
       if mp3_bitrate_kbps = Some 0 then Inl (ValueError (str ''mp3_bitrate_kbps must be positive''))
       else if mp3_sample_rate_hz = Some 0 then Inl (ValueError (str ''mp3_sample_rate_hz must be positive''))
       else (case (mp3_bitrate_kbps, mp3_sample_rate_hz) of
           (Some bitrate, Some sample_rate) \<Rightarrow>
             if fmt = Mp3 then Inr (convert_backend_mp3 bitrate sample_rate)
             else Inl (ValueError (str ''MP3 encoding options are only valid for MP3 output''))
         | (None, None) \<Rightarrow> Inr (convert_backend_new fmt)
         | _ \<Rightarrow> Inl (ValueError (str ''mp3_bitrate_kbps and mp3_sample_rate_hz must be set together''))))"

definition encode_prepared :: "'e mp3_encoder \<Rightarrow> convert_backend \<Rightarrow> (ba_error \<Rightarrow> rstr) \<Rightarrow> u8 list \<Rightarrow> u32 \<Rightarrow> u16 \<Rightarrow> nat \<Rightarrow> (py_error + u8 list) option" where
  "encode_prepared M B error_text' pcm_f32le sample_rate channels frame_count =
     map_option (map_err (\<lambda>e. RuntimeError (error_text' e)))
       (convert_encode M B \<lparr>pa_pcm = pcm_f32le, pa_sample_rate = sample_rate, pa_channels = channels, pa_frame_count = frame_count\<rparr>)"

section \<open>The aligner for Python\<close>

datatype py_item = PyStr rstr | PyInt nat

fun py_row :: "align_result \<Rightarrow> (rstr \<times> py_item) list" where
  "py_row (Match k i j) = [(str ''type'', PyStr (str ''match'')), (str ''key'', PyStr k),
     (str ''payload_idx'', PyInt i), (str ''reference_idx'', PyInt j)]"
| "py_row (ExtraPayload k i) = [(str ''type'', PyStr (str ''extra_payload'')), (str ''key'', PyStr k), (str ''payload_idx'', PyInt i)]"
| "py_row (ExtraReference k j) = [(str ''type'', PyStr (str ''extra_reference'')), (str ''key'', PyStr k), (str ''reference_idx'', PyInt j)]"

definition dp_align :: "unicode \<Rightarrow> (rstr \<Rightarrow> rstr \<Rightarrow> rat) \<Rightarrow> rstr list \<Rightarrow> rstr list \<Rightarrow> bool \<Rightarrow> (rstr \<times> py_item) list list option" where
  "dp_align U jw payload reference case_insensitive =
     map_option (map py_row) (align U jw payload reference (if case_insensitive then CaseInsensitive else Exact))"

section \<open>Lemmas\<close>

lemma input_tag_debug: "input_tag t = task_debug t"
  by (cases t) simp_all

lemma worker_err_Inl: "worker_err m r = Inl e \<Longrightarrow> \<exists>d. e = WorkerError d"
  by (auto simp: worker_err_def split: sum.splits)

text \<open>Whatever goes wrong on the way through the interpreter, the engine sees a worker error.\<close>

lemma bridge_errors_are_worker_errors: "call_py_backend B h batch = Inl e \<Longrightarrow> \<exists>d. e = WorkerError d"
  unfolding call_py_backend_def bind_res_Inl_iff by (auto simp: map_err_iff dest: worker_err_Inl)

text \<open>Both kinds of object end as a backend of the engine, a native one unchanged but for the rendering of its errors.\<close>

lemma native_backend_kept: "bo_capsule obj = Some b \<Longrightarrow> backend_from_py obj = Inr impl \<Longrightarrow>
    engine_backend B (be_error_text b) impl = b"
  by (auto simp: backend_from_py_def engine_backend_def fun_eq_iff intro!: backend.equality)

text \<open>The conversion backend never carries a zero rate, and carries rates only for MP3.\<close>

lemma convert_py_new_rates:
  "convert_py_new f b r = Inr B \<Longrightarrow>
     (cb_bitrate B = None \<and> cb_sample_rate B = None \<and> b = None \<and> r = None) \<or>
     (\<exists>x y. cb_bitrate B = Some x \<and> cb_sample_rate B = Some y \<and> 0 < x \<and> 0 < y \<and> cb_format B = Mp3 \<and> b = Some x \<and> r = Some y)"
  by (auto simp: convert_py_new_def bind_res_Inr_iff convert_backend_new_def convert_backend_mp3_def Let_def
      split: if_splits option.splits)

text \<open>What Python reads back from the rows is the alignment.\<close>

definition dp_read :: "(rstr \<times> py_item) list \<Rightarrow> align_result option" where
  "dp_read row =
     (case (map_of row (str ''type''), map_of row (str ''key''), map_of row (str ''payload_idx''), map_of row (str ''reference_idx'')) of
        (Some (PyStr t), Some (PyStr k), Some (PyInt i), Some (PyInt j)) \<Rightarrow> if t = str ''match'' then Some (Match k i j) else None
      | (Some (PyStr t), Some (PyStr k), Some (PyInt i), None) \<Rightarrow> if t = str ''extra_payload'' then Some (ExtraPayload k i) else None
      | (Some (PyStr t), Some (PyStr k), None, Some (PyInt j)) \<Rightarrow> if t = str ''extra_reference'' then Some (ExtraReference k j) else None
      | _ \<Rightarrow> None)"

lemma dp_read_py_row: "dp_read (py_row r) = Some r"
  by (cases r) (simp_all add: dp_read_def str_def)

lemma dp_align_returns:
  "\<exists>rows out. dp_align U jw payload reference ci = Some rows \<and>
     align U jw payload reference (if ci then CaseInsensitive else Exact) = Some out \<and> map dp_read rows = map Some out"
proof -
  obtain out where "align U jw payload reference (if ci then CaseInsensitive else Exact) = Some out"
    using align_generic_correct [of "str_matches U jw (if ci then CaseInsensitive else Exact)" str_to_key payload reference]
    unfolding align_def by blast
  then show ?thesis by (simp add: dp_align_def dp_read_py_row comp_def)
qed

end
