(* ===== verification/PyChat.thy ===== *)
theory PyChat
  imports ChatDoc
begin

text \<open>
  The editable documents that Python works with: core \<^verbatim>\<open>pychat/\<close>. An utterance is an object of its own, shared between
  Python and the documents that hold it, so a document is a list of entries that refer to objects by number and the
  objects live in a store. Parsing, validation and serialization are the document crate, a record of functions.
\<close>

section \<open>Data\<close>

datatype chat_error = ChatValueError rstr | ChatKeyError rstr | ChatIndexError rstr

record py_id =
  pid_languages :: "rstr list"
  pid_corpus :: rstr
  pid_code :: rstr
  pid_role :: rstr
  pid_rest :: rstr

record py_speaker =
  ps_code :: rstr
  ps_name :: "rstr option"
  ps_role :: rstr
  ps_id :: py_id

datatype py_media_type = AudioType | VideoType | MissingType

record py_media =
  pm_filename :: rstr
  pm_type :: py_media_type
  pm_status :: "media_status option"

record py_tier =
  tr_kind :: rstr
  tr_chat :: rstr

text \<open>
  An utterance of the document crate: its content without language code and bullet is \<open>'c\<close>; the language of the
  utterance and those of its words are computed by validation.
\<close>

record 'c py_ast =
  pa_speaker :: rstr
  pa_language_code :: "rstr option"
  pa_content :: 'c
  pa_bullet :: "(nat \<times> nat) option"
  pa_utterance_language :: "rstr option"
  pa_word_languages :: "rstr list list option"
  pa_tiers :: "py_tier list"

record 'c py_utterance =
  pu_speaker :: py_speaker
  pu_ast :: "'c py_ast"

datatype py_header =
    PhUtf8 | PhBegin | PhEnd
  | PhLanguages "rstr list"
  | PhParticipants "(rstr \<times> rstr option \<times> rstr) list"
  | PhId py_id
  | PhMedia py_media
  | PhOther rstr

datatype 'c py_line = PyHeader py_header | PyUtterance "'c py_ast"

record 'c parsed_doc =
  dd_lines :: "'c py_line list"
  dd_participants :: "rstr \<rightharpoonup> py_speaker"

text \<open>A message of the validator; \<open>vm_missing_header\<close> tells whether its code is \<open>MissingRequiredHeader\<close>.\<close>

record validation_message =
  vm_missing_header :: bool
  vm_is_error :: bool
  vm_message :: rstr
  vm_text :: rstr

record 'c chat_crate =
  cc_parse_and_validate :: "rstr \<Rightarrow> rstr + 'c parsed_doc"
  cc_validate :: "bool \<Rightarrow> 'c parsed_doc \<Rightarrow> 'c parsed_doc \<times> validation_message list"
  cc_file_string :: "'c py_line list \<Rightarrow> rstr"
  cc_header_string :: "py_header \<Rightarrow> rstr"
  cc_utterance_string :: "'c py_ast \<Rightarrow> rstr"
  cc_main_string :: "'c py_ast \<Rightarrow> rstr"
  cc_content_string :: "rstr option \<Rightarrow> 'c \<Rightarrow> rstr"
  cc_language_code :: "rstr \<Rightarrow> rstr + rstr"
  cc_media_filename :: "rstr \<Rightarrow> rstr + rstr"
  cc_words :: "'c \<Rightarrow> rstr list"

section \<open>Utilities\<close>

fun is_py_utterance :: "'c py_line \<Rightarrow> bool" where
  "is_py_utterance (PyUtterance u) = True"
| "is_py_utterance (PyHeader h) = False"

definition draft_header :: "bool \<Rightarrow> validation_message \<Rightarrow> bool" where
  "draft_header no_utts m \<longleftrightarrow> no_utts \<and> vm_missing_header m \<and>
     (contains (str ''@Languages'') (vm_message m) \<or> contains (str ''@Participants'') (vm_message m))"

definition parse_document :: "'c chat_crate \<Rightarrow> bool \<Rightarrow> rstr \<Rightarrow> chat_error + 'c parsed_doc" where
  "parse_document C alignment txt =
     bind_res (map_err ChatValueError (cc_parse_and_validate C txt)) (\<lambda>ast.
       let no_utts = \<not> list_ex is_py_utterance (dd_lines ast);
           (ast', messages) = cc_validate C alignment ast;
           errors = filter (\<lambda>m. vm_is_error m \<and> \<not> draft_header no_utts m) messages
       in if errors \<noteq> [] then Inl (ChatValueError (join [10] (map vm_text errors))) else Inr ast')"

definition is_control_char :: "rchar \<Rightarrow> bool" where
  "is_control_char c \<longleftrightarrow> (0 \<le> c \<and> c < 32) \<or> (127 \<le> c \<and> c < 160)"

definition validate_inline :: "rstr \<Rightarrow> chat_error + unit" where
  "validate_inline s =
     (if list_ex is_control_char s then Inl (ChatValueError (str ''CHAT inline values cannot contain control characters'')) else Inr ())"

definition sequence_index :: "int \<Rightarrow> nat \<Rightarrow> chat_error + nat" where
  "sequence_index index len =
     (let i = (if index < 0 then int len + index else index)
      in if i < 0 \<or> int len \<le> i then Inl (ChatIndexError (str ''utterance index out of range'')) else Inr (nat i))"

definition push_new :: "'a list \<Rightarrow> 'a \<Rightarrow> 'a list" where
  "push_new xs x = (if x \<in> set xs then xs else xs @ [x])"

definition utterance_languages :: "'c py_ast \<Rightarrow> rstr list" where
  "utterance_languages u =
     (let langs = (case (case pa_language_code u of Some l \<Rightarrow> Some l | None \<Rightarrow> pa_utterance_language u) of Some l \<Rightarrow> [l] | None \<Rightarrow> [])
      in case pa_word_languages u of Some words \<Rightarrow> foldl push_new langs (concat words) | None \<Rightarrow> langs)"

section \<open>Speakers and media\<close>

definition participant_entry_of :: "py_speaker \<Rightarrow> rstr \<times> rstr option \<times> rstr" where
  "participant_entry_of s = (ps_code s, ps_name s, ps_role s)"

definition participant_headers :: "py_speaker list \<Rightarrow> rstr list \<Rightarrow> py_header list" where
  "participant_headers speakers additional =
     (let languages = foldl push_new (foldl push_new [] (concat (map (\<lambda>s. pid_languages (ps_id s)) speakers))) additional
      in [PhUtf8, PhBegin] @
         (if speakers = [] then []
          else [PhLanguages languages, PhParticipants (map participant_entry_of speakers)] @ map (\<lambda>s. PhId (ps_id s)) speakers))"

definition header_text :: "'c chat_crate \<Rightarrow> py_speaker list \<Rightarrow> rstr list \<Rightarrow> rstr" where
  "header_text C speakers additional = join [10] (map (cc_header_string C) (participant_headers speakers additional))"

fun check_speaker_fields :: "rstr list \<Rightarrow> chat_error + unit" where
  "check_speaker_fields [] = Inr ()"
| "check_speaker_fields (v # vs) =
     bind_res (validate_inline v) (\<lambda>_.
       if 124 \<in> set v then Inl (ChatValueError (str ''speaker fields cannot contain pipes'')) else check_speaker_fields vs)"

fun language_codes :: "'c chat_crate \<Rightarrow> rstr list \<Rightarrow> rstr + rstr list" where
  "language_codes C [] = Inr []"
| "language_codes C (l # ls) = bind_res (cc_language_code C l) (\<lambda>x. bind_res (language_codes C ls) (\<lambda>xs. Inr (x # xs)))"

text \<open>\<open>language\<close> is a string or a list of strings, here always the list.\<close>

definition speaker_new :: "'c chat_crate \<Rightarrow> rstr \<Rightarrow> rstr list \<Rightarrow> rstr \<Rightarrow> rstr \<Rightarrow> rstr option \<Rightarrow> chat_error + py_speaker" where
  "speaker_new C code language corpus role nm =
     bind_res (check_speaker_fields ([code, corpus, role] @ (case nm of Some n \<Rightarrow> [n] | None \<Rightarrow> []))) (\<lambda>_.
     bind_res (map_err ChatValueError (language_codes C language)) (\<lambda>languages.
       let speaker = \<lparr>ps_code = code, ps_name = nm, ps_role = role,
             ps_id = \<lparr>pid_languages = languages, pid_corpus = corpus, pid_code = code, pid_role = role, pid_rest = []\<rparr>\<rparr>;
           txt = header_text C [speaker] [] @ [10] @ str ''*'' @ code @ str '':'' @ [9] @ str ''xxx .'' @ [10] @ str ''@End'' @ [10]
       in bind_res (parse_document C True txt) (\<lambda>_. Inr speaker)))"

definition quoted :: "string \<Rightarrow> rstr" where
  "quoted s = [39] @ str s @ [39]"

definition media_new :: "'c chat_crate \<Rightarrow> rstr \<Rightarrow> rstr \<Rightarrow> rstr option \<Rightarrow> chat_error + py_media" where
  "media_new C filename media_type status =
     bind_res (map_err ChatValueError (cc_media_filename C filename)) (\<lambda>f.
     bind_res (if media_type = str ''audio'' then Inr AudioType
               else if media_type = str ''video'' then Inr VideoType
               else if media_type = str ''missing'' then Inr MissingType
               else Inl (ChatValueError (str ''media_type must be '' @ quoted ''audio'' @ str '', '' @ quoted ''video'' @ str '', or '' @ quoted ''missing''))) (\<lambda>t.
     bind_res (case status of
                 None \<Rightarrow> Inr None
               | Some s \<Rightarrow>
                   if s = str ''missing'' then Inr (Some Missing)
                   else if s = str ''unlinked'' then Inr (Some Unlinked)
                   else if s = str ''notrans'' then Inr (Some Notrans)
                   else Inl (ChatValueError (str ''status must be None, '' @ quoted ''missing'' @ str '', '' @ quoted ''unlinked'' @ str '', or '' @ quoted ''notrans''))) (\<lambda>st.
       Inr \<lparr>pm_filename = f, pm_type = t, pm_status = st\<rparr>)))"

section \<open>Utterances\<close>

definition END_LINE :: rstr where "END_LINE = str ''@End'' @ [10]"

text \<open>The first line of a document that is an utterance.\<close>

definition first_py_utterance :: "'c py_line list \<Rightarrow> 'c py_ast option" where
  "first_py_utterance ls = (case filter is_py_utterance ls of PyUtterance u # rest \<Rightarrow> Some u | other \<Rightarrow> None)"

text \<open>Every edit is validated as a document of one utterance; only what validation computes is taken over from it.\<close>

definition take_languages :: "'c py_line list \<Rightarrow> 'c py_ast \<Rightarrow> 'c py_ast" where
  "take_languages ls u = foldl (\<lambda>u l. case l of
       PyUtterance v \<Rightarrow> u\<lparr>pa_utterance_language := pa_utterance_language v, pa_word_languages := pa_word_languages v\<rparr>
     | PyHeader h \<Rightarrow> u) u ls"

definition utterance_from_ast :: "'c chat_crate \<Rightarrow> py_speaker \<Rightarrow> 'c py_ast \<Rightarrow> chat_error + 'c py_utterance" where
  "utterance_from_ast C speaker u =
     (let txt = header_text C [speaker] (utterance_languages u) @
            (if pa_bullet u \<noteq> None then [10] @ str ''@Media:'' @ [9] @ str ''python, audio'' @ [10]
             else [10] @ str ''@Media:'' @ [9] @ str ''python, audio, unlinked'' @ [10]) @
            cc_utterance_string C u @ END_LINE
      in bind_res (parse_document C True txt) (\<lambda>parsed.
           Inr \<lparr>pu_speaker = speaker, pu_ast = take_languages (dd_lines parsed) u\<rparr>))"

definition utterance_timing :: "'c py_utterance \<Rightarrow> (nat \<times> nat) option" where
  "utterance_timing u = pa_bullet (pu_ast u)"

definition set_timing :: "'c chat_crate \<Rightarrow> (nat \<times> nat) option \<Rightarrow> 'c py_utterance \<Rightarrow> chat_error + 'c py_utterance" where
  "set_timing C timing u =
     (if (case timing of Some (start, end') \<Rightarrow> end' \<le> start | None \<Rightarrow> False)
      then Inl (ChatValueError (str ''timing must have start < end''))
      else utterance_from_ast C (pu_speaker u) ((pu_ast u)\<lparr>pa_bullet := timing\<rparr>))"

definition utterance_new :: "'c chat_crate \<Rightarrow> py_speaker \<Rightarrow> rstr \<Rightarrow> (nat \<times> nat) option \<Rightarrow> chat_error + 'c py_utterance" where
  "utterance_new C speaker txt timing =
     bind_res (validate_inline txt) (\<lambda>_.
       let source = header_text C [speaker] [] @ [10] @ str ''*'' @ ps_code speaker @ str '':'' @ [9] @ txt @ [10] @ END_LINE
       in bind_res (parse_document C True source) (\<lambda>parsed.
            case first_py_utterance (dd_lines parsed) of
              None \<Rightarrow> Inl (ChatValueError (str ''text must contain one CHAT utterance''))
            | Some u \<Rightarrow> set_timing C timing \<lparr>pu_speaker = speaker, pu_ast = u\<rparr>))"

definition set_speaker :: "'c chat_crate \<Rightarrow> py_speaker \<Rightarrow> 'c py_utterance \<Rightarrow> chat_error + 'c py_utterance" where
  "set_speaker C speaker u = utterance_from_ast C speaker ((pu_ast u)\<lparr>pa_speaker := ps_code speaker\<rparr>)"

definition utterance_text :: "'c chat_crate \<Rightarrow> 'c py_utterance \<Rightarrow> rstr" where
  "utterance_text C u = cc_content_string C (pa_language_code (pu_ast u)) (pa_content (pu_ast u))"

text \<open>\<open>ast.main\<close> is the speaker, the content, its language code and the bullet.\<close>

definition replace_main :: "'c py_ast \<Rightarrow> 'c py_ast \<Rightarrow> 'c py_ast" where
  "replace_main u v = u\<lparr>pa_speaker := pa_speaker v, pa_language_code := pa_language_code v, pa_content := pa_content v, pa_bullet := pa_bullet v\<rparr>"

definition set_text :: "'c chat_crate \<Rightarrow> rstr \<Rightarrow> 'c py_utterance \<Rightarrow> chat_error + 'c py_utterance" where
  "set_text C txt u =
     bind_res (utterance_new C (pu_speaker u) txt (utterance_timing u)) (\<lambda>replacement.
       utterance_from_ast C (pu_speaker u) (replace_main (pu_ast u) (pu_ast replacement)))"

definition py_words :: "'c chat_crate \<Rightarrow> 'c py_utterance \<Rightarrow> rstr list" where
  "py_words C u = cc_words C (pa_content (pu_ast u))"

subsection \<open>Dependent tiers\<close>

definition has_kind :: "rstr \<Rightarrow> py_tier \<Rightarrow> bool" where
  "has_kind k t \<longleftrightarrow> tr_kind t = k"

fun after_colon :: "rstr \<Rightarrow> rstr option" where
  "after_colon [] = None"
| "after_colon (c # cs) = (if c = 58 then Some cs else after_colon cs)"

definition tier_get :: "rstr \<Rightarrow> 'c py_utterance \<Rightarrow> chat_error + rstr" where
  "tier_get k u =
     (case find (has_kind k) (pa_tiers (pu_ast u)) of
        None \<Rightarrow> Inl (ChatKeyError k)
      | Some t \<Rightarrow> Inr (case after_colon (tr_chat t) of Some v \<Rightarrow> trim_start_matches (\<lambda>c. c = 9) v | None \<Rightarrow> []))"

definition tier_keys :: "'c py_utterance \<Rightarrow> rstr list" where
  "tier_keys u = map tr_kind (pa_tiers (pu_ast u))"

definition valid_tier_key :: "rstr \<Rightarrow> bool" where
  "valid_tier_key k \<longleftrightarrow> k \<noteq> [] \<and> list_all (\<lambda>c. is_ascii_lower c \<or> is_ascii_digit c) k"

definition put_tier :: "rstr \<Rightarrow> py_tier \<Rightarrow> py_tier list \<Rightarrow> py_tier list" where
  "put_tier k t tiers = (case position (has_kind k) tiers of Some i \<Rightarrow> tiers[i := t] | None \<Rightarrow> tiers @ [t])"

text \<open>\<open>find_map\<close>: the first tier of the first utterance that has one.\<close>

definition first_tier :: "'c py_line list \<Rightarrow> py_tier option" where
  "first_tier ls = (case concat (map (\<lambda>l. case l of PyUtterance u \<Rightarrow> pa_tiers u | PyHeader h \<Rightarrow> []) ls) of t # ts \<Rightarrow> Some t | [] \<Rightarrow> None)"

definition tier_set :: "'c chat_crate \<Rightarrow> rstr \<Rightarrow> rstr \<Rightarrow> 'c py_utterance \<Rightarrow> chat_error + 'c py_utterance" where
  "tier_set C k v u =
     bind_res (validate_inline v) (\<lambda>_.
       if \<not> valid_tier_key k then Inl (ChatValueError (str ''tier key must be a label such as '' @ quoted ''pho'' @ str '' without '' @ quoted ''%''))
       else
         (let source = header_text C [pu_speaker u] (utterance_languages (pu_ast u)) @
                [10] @ str ''@Media:'' @ [9] @ str ''python, audio'' @ [10] @ cc_main_string C (pu_ast u) @
                [10] @ str ''%'' @ k @ str '':'' @ [9] @ v @ [10] @ END_LINE
          in bind_res (parse_document C False source) (\<lambda>parsed.
               case first_tier (dd_lines parsed) of
                 Some t \<Rightarrow> utterance_from_ast C (pu_speaker u) ((pu_ast u)\<lparr>pa_tiers := put_tier k t (pa_tiers (pu_ast u))\<rparr>)
               | None \<Rightarrow> Inl (ChatValueError (str ''expected one dependent tier'')))))"

definition tier_del :: "'c chat_crate \<Rightarrow> rstr \<Rightarrow> 'c py_utterance \<Rightarrow> chat_error + 'c py_utterance" where
  "tier_del C k u =
     (case position (has_kind k) (pa_tiers (pu_ast u)) of
        None \<Rightarrow> Inl (ChatKeyError k)
      | Some i \<Rightarrow> utterance_from_ast C (pu_speaker u)
          ((pu_ast u)\<lparr>pa_tiers := take i (pa_tiers (pu_ast u)) @ drop (Suc i) (pa_tiers (pu_ast u))\<rparr>))"

definition tier_len :: "'c py_utterance \<Rightarrow> nat" where
  "tier_len u = length (pa_tiers (pu_ast u))"

section \<open>Documents\<close>

text \<open>The store of utterance objects, and the entries of a document.\<close>

record 'c py_store =
  st_objects :: "nat \<rightharpoonup> 'c py_utterance"
  st_next :: nat

datatype entry = EHeader py_header | EUtterance nat

fun is_utterance_entry :: "entry \<Rightarrow> bool" where
  "is_utterance_entry (EUtterance i) = True"
| "is_utterance_entry (EHeader h) = False"

type_synonym 'c objects = "nat \<Rightarrow> 'c py_utterance"

text \<open>A reference always points to an object, so the editing functions take the store as a total function.\<close>

definition store_objects :: "'c py_store \<Rightarrow> 'c objects" where
  "store_objects S i = the (st_objects S i)"

definition positions :: "entry list \<Rightarrow> nat list" where
  "positions es = filter (\<lambda>i. is_utterance_entry (es ! i)) [0..<length es]"

definition conflict_error :: "rstr \<Rightarrow> chat_error" where
  "conflict_error code = ChatValueError (str ''conflicting metadata for speaker '' @ code)"

fun collect_speakers :: "'c objects \<Rightarrow> entry list \<Rightarrow> py_speaker list \<Rightarrow> chat_error + py_speaker list" where
  "collect_speakers G [] speakers = Inr speakers"
| "collect_speakers G (EHeader h # es) speakers = collect_speakers G es speakers"
| "collect_speakers G (EUtterance i # es) speakers =
     (let speaker = pu_speaker (G i)
      in case find (\<lambda>s. ps_code s = ps_code speaker) speakers of
           Some existing \<Rightarrow>
             if existing \<noteq> speaker then Inl (conflict_error (ps_code speaker)) else collect_speakers G es speakers
         | None \<Rightarrow> collect_speakers G es (speakers @ [speaker]))"

definition doc_speakers :: "'c objects \<Rightarrow> entry list \<Rightarrow> chat_error + py_speaker list" where
  "doc_speakers G es = collect_speakers G es []"

definition doc_languages :: "'c objects \<Rightarrow> entry list \<Rightarrow> chat_error + rstr list" where
  "doc_languages G es =
     bind_res (doc_speakers G es) (\<lambda>speakers.
       Inr (foldl push_new (foldl push_new [] (concat (map (\<lambda>s. pid_languages (ps_id s)) speakers)))
              (concat (map (\<lambda>e. case e of EUtterance i \<Rightarrow> utterance_languages (pu_ast (G i)) | EHeader h \<Rightarrow> []) es))))"

definition doc_corpora :: "'c objects \<Rightarrow> entry list \<Rightarrow> chat_error + rstr list" where
  "doc_corpora G es =
     bind_res (doc_speakers G es) (\<lambda>speakers. Inr (foldl push_new [] (map (\<lambda>s. pid_corpus (ps_id s)) speakers)))"

subsection \<open>Editing\<close>

text \<open>The error is returned with the entries as they are afterwards.\<close>

definition coll_append :: "'c objects \<Rightarrow> nat \<Rightarrow> entry list \<Rightarrow> (chat_error + unit) \<times> entry list" where
  "coll_append G u es =
     (let es' = es @ [EUtterance u]
      in case doc_speakers G es' of Inl e \<Rightarrow> (Inl e, butlast es') | Inr s \<Rightarrow> (Inr (), es'))"

definition remove_at :: "nat \<Rightarrow> 'a list \<Rightarrow> 'a list" where
  "remove_at i xs = take i xs @ drop (Suc i) xs"

definition insert_index :: "int \<Rightarrow> nat \<Rightarrow> nat" where
  "insert_index index len = nat (if index < 0 then max (int len + index) 0 else min index (int len))"

definition coll_insert :: "'c objects \<Rightarrow> int \<Rightarrow> nat \<Rightarrow> entry list \<Rightarrow> (chat_error + unit) \<times> entry list" where
  "coll_insert G index u es =
     (let ps = positions es; i = insert_index index (length ps);
          position' = (if i < length ps then ps ! i else length es);
          es' = insert_at position' (EUtterance u) es
      in case doc_speakers G es' of Inl e \<Rightarrow> (Inl e, remove_at position' es') | Inr s \<Rightarrow> (Inr (), es'))"

definition coll_setitem :: "'c objects \<Rightarrow> int \<Rightarrow> nat \<Rightarrow> entry list \<Rightarrow> (chat_error + unit) \<times> entry list" where
  "coll_setitem G index u es =
     (let ps = positions es
      in case sequence_index index (length ps) of
           Inl e \<Rightarrow> (Inl e, es)
         | Inr i \<Rightarrow>
             (let p = ps ! i; previous = es ! p; es' = es[p := EUtterance u]
              in case doc_speakers G es' of Inl e \<Rightarrow> (Inl e, es'[p := previous]) | Inr s \<Rightarrow> (Inr (), es')))"

definition coll_delitem :: "int \<Rightarrow> entry list \<Rightarrow> (chat_error + unit) \<times> entry list" where
  "coll_delitem index es =
     (let ps = positions es
      in case sequence_index index (length ps) of
           Inl e \<Rightarrow> (Inl e, es)
         | Inr i \<Rightarrow> (Inr (), remove_at (ps ! i) es))"

text \<open>The arm for a header is \<open>unreachable!\<close>: \<open>None\<close>.\<close>

definition coll_pop :: "int \<Rightarrow> entry list \<Rightarrow> (chat_error + nat option) \<times> entry list" where
  "coll_pop index es =
     (let ps = positions es
      in case sequence_index index (length ps) of
           Inl e \<Rightarrow> (Inl e, es)
         | Inr i \<Rightarrow> (Inr (case es ! (ps ! i) of EUtterance u \<Rightarrow> Some u | EHeader h \<Rightarrow> None), remove_at (ps ! i) es))"

definition coll_clear :: "entry list \<Rightarrow> entry list" where
  "coll_clear es = filter (\<lambda>e. \<not> is_utterance_entry e) es"

definition coll_list :: "entry list \<Rightarrow> nat list" where
  "coll_list es = List.map_filter (\<lambda>e. case e of EUtterance i \<Rightarrow> Some i | EHeader h \<Rightarrow> None) es"

text \<open>\<open>__getitem__\<close> and \<open>__iter__\<close> go through a Python list of the utterances; an index is one of that list, slices are left to it.\<close>

definition coll_getitem :: "int \<Rightarrow> entry list \<Rightarrow> chat_error + nat" where
  "coll_getitem index es =
     (let xs = coll_list es; i = (if index < 0 then int (length xs) + index else index)
      in if i < 0 \<or> int (length xs) \<le> i then Inl (ChatIndexError (str ''list index out of range'')) else Inr (xs ! nat i))"

definition coll_len :: "entry list \<Rightarrow> nat" where
  "coll_len es = length (positions es)"

subsection \<open>Reading and writing\<close>

fun derived_header :: "py_header \<Rightarrow> bool" where
  "derived_header PhUtf8 = True"
| "derived_header PhBegin = True"
| "derived_header PhEnd = True"
| "derived_header (PhLanguages ls) = True"
| "derived_header (PhParticipants ps) = True"
| "derived_header (PhId i) = True"
| "derived_header (PhMedia m) = False"
| "derived_header (PhOther s) = False"

definition store_new :: "'c py_utterance \<Rightarrow> 'c py_store \<Rightarrow> nat \<times> 'c py_store" where
  "store_new u S = (st_next S, \<lparr>st_objects = (st_objects S)(st_next S \<mapsto> u), st_next = Suc (st_next S)\<rparr>)"

fun read_entries :: "'c parsed_doc \<Rightarrow> 'c py_line list \<Rightarrow> 'c py_store \<Rightarrow> (chat_error + entry list) \<times> 'c py_store" where
  "read_entries D [] S = (Inr [], S)"
| "read_entries D (PyUtterance u # ls) S =
     (case dd_participants D (pa_speaker u) of
        None \<Rightarrow> (Inl (ChatValueError (str ''utterance speaker has no participant metadata'')), S)
      | Some participant \<Rightarrow>
          (case store_new \<lparr>pu_speaker = participant, pu_ast = u\<rparr> S of (i, S1) \<Rightarrow>
            (case read_entries D ls S1 of (r, S2) \<Rightarrow> (map_sum id (\<lambda>es. EUtterance i # es) r, S2))))"
| "read_entries D (PyHeader h # ls) S =
     (if derived_header h then read_entries D ls S
      else (case read_entries D ls S of (r, S2) \<Rightarrow> (map_sum id (\<lambda>es. EHeader h # es) r, S2)))"

datatype text_or_lines = PyText rstr | PyLines "rstr list"

definition input_text :: "text_or_lines \<Rightarrow> rstr" where
  "input_text t = (case t of
     PyText s \<Rightarrow> s
   | PyLines ls \<Rightarrow> join [10] (map (trim_end_matches (\<lambda>c. c = 13 \<or> c = 10)) ls) @ [10])"

definition has_header :: "py_header \<Rightarrow> 'c py_line list \<Rightarrow> bool" where
  "has_header h ls \<longleftrightarrow> list_ex (\<lambda>l. case l of PyHeader h' \<Rightarrow> h' = h | PyUtterance u \<Rightarrow> False) ls"

definition doc_new :: "entry list" where
  "doc_new = []"

definition doc_parse :: "'c chat_crate \<Rightarrow> text_or_lines \<Rightarrow> 'c py_store \<Rightarrow> (chat_error + entry list) \<times> 'c py_store" where
  "doc_parse C t S =
     (case parse_document C True (input_text t) of
        Inl e \<Rightarrow> (Inl e, S)
      | Inr D \<Rightarrow>
          if \<not> has_header PhBegin (dd_lines D) \<or> \<not> has_header PhEnd (dd_lines D)
          then (Inl (ChatValueError (str ''CHAT requires @Begin and @End headers'')), S)
          else read_entries D (dd_lines D) S)"

fun is_media_entry :: "entry \<Rightarrow> bool" where
  "is_media_entry (EHeader (PhMedia m)) = True"
| "is_media_entry e = False"

definition doc_media :: "entry list \<Rightarrow> py_media option" where
  "doc_media es = (case find is_media_entry es of Some (EHeader (PhMedia m)) \<Rightarrow> Some m | other \<Rightarrow> None)"

definition doc_set_media :: "py_media option \<Rightarrow> entry list \<Rightarrow> entry list" where
  "doc_set_media media es =
     (case (position is_media_entry es, media) of
        (Some i, Some m) \<Rightarrow> es[i := EHeader (PhMedia m)]
      | (Some i, None) \<Rightarrow> remove_at i es
      | (None, Some m) \<Rightarrow> EHeader (PhMedia m) # es
      | (None, None) \<Rightarrow> es)"

text \<open>An utterance in another language than the first of the document is written with its code.\<close>

definition mark_language :: "rstr list \<Rightarrow> 'c py_ast \<Rightarrow> 'c py_ast" where
  "mark_language languages u =
     (case pa_utterance_language u of
        Some l \<Rightarrow> if languages \<noteq> [] \<and> l = hd languages then u else u\<lparr>pa_language_code := Some l\<rparr>
      | None \<Rightarrow> u)"

definition written_line :: "'c objects \<Rightarrow> rstr list \<Rightarrow> entry \<Rightarrow> 'c py_line" where
  "written_line G languages e = (case e of
     EHeader h \<Rightarrow> PyHeader h
   | EUtterance i \<Rightarrow> PyUtterance (mark_language languages (pu_ast (G i))))"

definition written_lines :: "'c objects \<Rightarrow> py_speaker list \<Rightarrow> rstr list \<Rightarrow> entry list \<Rightarrow> 'c py_line list" where
  "written_lines G speakers languages es =
     map PyHeader (participant_headers speakers languages) @ map (written_line G languages) es @ [PyHeader PhEnd]"

definition doc_stringify :: "'c chat_crate \<Rightarrow> 'c objects \<Rightarrow> entry list \<Rightarrow> chat_error + rstr" where
  "doc_stringify C G es =
     bind_res (doc_speakers G es) (\<lambda>speakers.
     bind_res (doc_languages G es) (\<lambda>languages.
       let txt = cc_file_string C (written_lines G speakers languages es)
       in bind_res (parse_document C True txt) (\<lambda>_. Inr txt)))"

text \<open>\<open>write\<close> and \<open>read\<close> go through an open stream, here the text that is passed.\<close>

definition doc_write :: "'c chat_crate \<Rightarrow> 'c objects \<Rightarrow> entry list \<Rightarrow> rstr \<Rightarrow> (chat_error + unit) \<times> rstr" where
  "doc_write C G es stream =
     (case doc_stringify C G es of Inl e \<Rightarrow> (Inl e, stream) | Inr txt \<Rightarrow> (Inr (), stream @ txt))"

end
