(* ===== verification/PyChatLaws.thy ===== *)
theory PyChatLaws
  imports PyChat
begin

text \<open>
  What \<open>PyChat\<close> promises: a document behaves as the list of its utterances, edits keep the metadata of
  the speakers free of conflicts, a document that is written reads back, and what an edit of an utterance changes.
\<close>

section \<open>Places of the utterances\<close>

lemma coll_list_simps [simp]:
  "coll_list [] = []" "coll_list (EUtterance u # es) = u # coll_list es" "coll_list (EHeader h # es) = coll_list es"
  by (simp_all add: coll_list_def List.map_filter_simps)

lemma coll_list_append [simp]: "coll_list (as @ bs) = coll_list as @ coll_list bs"
  by (simp add: coll_list_def List.map_filter_def)

lemma coll_clear_simps [simp]:
  "coll_clear [] = []" "coll_clear (EUtterance u # es) = coll_clear es" "coll_clear (EHeader h # es) = EHeader h # coll_clear es"
  "coll_clear (as @ bs) = coll_clear as @ coll_clear bs"
  by (simp_all add: coll_clear_def)

lemma positions_Nil [simp]: "positions [] = []"
  by (simp add: positions_def)

lemma positions_Cons [simp]:
  "positions (e # es) = (if is_utterance_entry e then [0] else []) @ map Suc (positions es)"
proof -
  have "[0..<length (e # es)] = 0 # map Suc [0..<length es]" by (simp add: upt_conv_Cons map_Suc_upt del: upt_Suc)
  then show ?thesis by (simp add: positions_def filter_map comp_def)
qed

lemma length_positions [simp]: "length (positions es) = length (coll_list es)"
  by (induction es) (auto elim: is_utterance_entry.elims)

lemma positions_split:
  "i < length (coll_list es) \<Longrightarrow>
     \<exists>as u bs. es = as @ EUtterance u # bs \<and> positions es ! i = length as \<and> length (coll_list as) = i"
proof (induction es arbitrary: i)
  case (Cons e es)
  show ?case
  proof (cases e)
    case (EHeader h)
    then obtain as u bs where "es = as @ EUtterance u # bs" "positions es ! i = length as" "length (coll_list as) = i"
      using Cons.IH [of i] Cons.prems by auto
    then show ?thesis using EHeader Cons.prems by (intro exI [of _ "e # as"]) auto
  next
    case (EUtterance u)
    show ?thesis
    proof (cases i)
      case 0
      then show ?thesis using EUtterance by (intro exI [of _ "[]"]) simp
    next
      case (Suc j)
      then obtain as v bs where "es = as @ EUtterance v # bs" "positions es ! j = length as" "length (coll_list as) = j"
        using Cons.IH [of j] Cons.prems EUtterance by auto
      then show ?thesis using EUtterance Suc Cons.prems by (intro exI [of _ "e # as"]) auto
    qed
  qed
qed simp

text \<open>Python's rule for an index of a sequence.\<close>

lemma sequence_index_Inr:
  "sequence_index index len = Inr k \<longleftrightarrow> - int len \<le> index \<and> index < int len \<and> k = nat (index mod int len)"
proof (cases "index < 0")
  case True
  have "(index mod int len) = int len + index" if "- int len \<le> index"
    using True that by (metis add.commute add_increasing2 add_less_same_cancel1 minus_le_iff mod_add_self2 mod_pos_pos_trivial
        add.left_inverse add_mono_thms_linordered_semiring(3) neg_0_le_iff_le of_nat_0_le_iff)
  with True show ?thesis by (auto simp: sequence_index_def Let_def)
next
  case False
  then show ?thesis by (auto simp: sequence_index_def Let_def)
qed

lemma sequence_index_less: "sequence_index index len = Inr k \<Longrightarrow> k < len"
  by (auto simp: sequence_index_def Let_def split: if_splits)

section \<open>Speakers\<close>

definition speakers_in :: "'c objects \<Rightarrow> entry list \<Rightarrow> py_speaker list" where
  "speakers_in G es = map (\<lambda>i. pu_speaker (G i)) (coll_list es)"

lemma speakers_in_simps [simp]:
  "speakers_in G [] = []" "speakers_in G (EUtterance u # es) = pu_speaker (G u) # speakers_in G es"
  "speakers_in G (EHeader h # es) = speakers_in G es" "speakers_in G (as @ bs) = speakers_in G as @ speakers_in G bs"
  by (simp_all add: speakers_in_def)

definition agree :: "py_speaker set \<Rightarrow> bool" where
  "agree S \<longleftrightarrow> inj_on ps_code S"

definition speakers_agree :: "'c objects \<Rightarrow> entry list \<Rightarrow> bool" where
  "speakers_agree G es \<longleftrightarrow> agree (set (speakers_in G es))"

text \<open>Two of the utterances have speakers with the same code and different metadata.\<close>

definition speaker_conflict :: "'c objects \<Rightarrow> nat list \<Rightarrow> rstr \<Rightarrow> bool" where
  "speaker_conflict G us code \<longleftrightarrow> (\<exists>i j. i \<in> set us \<and> j \<in> set us \<and> ps_code (pu_speaker (G i)) = code \<and>
     ps_code (pu_speaker (G j)) = code \<and> pu_speaker (G i) \<noteq> pu_speaker (G j))"

lemma find_code: "find (\<lambda>s. ps_code s = c) ss = Some s \<Longrightarrow> s \<in> set ss \<and> ps_code s = c"
  by (auto simp: find_Some_iff)

lemma find_code_None: "find (\<lambda>s. ps_code s = c) ss = None \<longleftrightarrow> c \<notin> ps_code ` set ss"
  by (auto simp: find_None_iff)

lemma collect_speakers_Inr:
  "collect_speakers G es acc = Inr ss \<Longrightarrow> distinct (map ps_code acc) \<Longrightarrow>
     distinct (map ps_code ss) \<and> set ss = set acc \<union> set (speakers_in G es)"
proof (induction G es acc rule: collect_speakers.induct)
  case (3 G i es speakers)
  show ?case
  proof (cases "find (\<lambda>s. ps_code s = ps_code (pu_speaker (G i))) speakers")
    case None
    then have "ps_code (pu_speaker (G i)) \<notin> ps_code ` set speakers" unfolding find_code_None .
    then have "distinct (map ps_code (speakers @ [pu_speaker (G i)]))" using 3 by simp
    moreover have "collect_speakers G es (speakers @ [pu_speaker (G i)]) = Inr ss" using 3 None by (simp add: Let_def)
    ultimately show ?thesis using 3(1) None by auto
  next
    case (Some a)
    then show ?thesis using 3 find_code [OF Some] by (auto simp: Let_def split: if_splits)
  qed
qed auto

lemma collect_speakers_Inl:
  "collect_speakers G es acc = Inl e \<Longrightarrow> \<exists>x y. x \<in> set acc \<union> set (speakers_in G es) \<and> y \<in> set (speakers_in G es) \<and>
     ps_code x = ps_code y \<and> x \<noteq> y \<and> e = conflict_error (ps_code x)"
proof (induction G es acc rule: collect_speakers.induct)
  case (3 G i es speakers)
  show ?case
  proof (cases "find (\<lambda>s. ps_code s = ps_code (pu_speaker (G i))) speakers")
    case None
    then have "collect_speakers G es (speakers @ [pu_speaker (G i)]) = Inl e" using 3 by (simp add: Let_def)
    from 3(1) [OF refl None this] show ?thesis by auto
  next
    case (Some a)
    note a = find_code [OF Some]
    show ?thesis
    proof (cases "a = pu_speaker (G i)")
      case True
      then have "collect_speakers G es speakers = Inl e" using 3 Some by (simp add: Let_def)
      from 3(2) [OF refl Some _ this] True show ?thesis by auto
    next
      case False
      then have "e = conflict_error (ps_code a)" using 3 Some a by (simp add: Let_def)
      with a False show ?thesis by (intro exI [of _ a] exI [of _ "pu_speaker (G i)"]) simp
    qed
  qed
qed auto

lemma doc_speakers_Inr: "doc_speakers G es = Inr ss \<Longrightarrow> distinct (map ps_code ss) \<and> set ss = set (speakers_in G es)"
  using collect_speakers_Inr [of G es "[]" ss] by (simp add: doc_speakers_def)

lemma doc_speakers_Inl: "doc_speakers G es = Inl e \<Longrightarrow> \<exists>code. e = conflict_error code \<and> speaker_conflict G (coll_list es) code"
proof -
  assume "doc_speakers G es = Inl e"
  then obtain x y where "x \<in> set (speakers_in G es)" "y \<in> set (speakers_in G es)" "ps_code x = ps_code y" "x \<noteq> y"
      and e: "e = conflict_error (ps_code x)"
    using collect_speakers_Inl [of G es "[]" e] by (auto simp: doc_speakers_def)
  then obtain i j where "i \<in> set (coll_list es)" "j \<in> set (coll_list es)" "x = pu_speaker (G i)" "y = pu_speaker (G j)"
      "ps_code x = ps_code y" "x \<noteq> y" by (auto simp: speakers_in_def)
  then have "speaker_conflict G (coll_list es) (ps_code x)"
    unfolding speaker_conflict_def by (intro exI [of _ i] exI [of _ j]) simp
  with e show ?thesis by blast
qed

lemma conflict_disagrees: "speaker_conflict G (coll_list es) code \<Longrightarrow> \<not> speakers_agree G es"
  unfolding speaker_conflict_def speakers_agree_def agree_def speakers_in_def inj_on_def by fastforce

lemma doc_speakers_agree: "doc_speakers G es = Inr ss \<Longrightarrow> speakers_agree G es"
  unfolding speakers_agree_def agree_def by (metis doc_speakers_Inr distinct_map)

text \<open>A document has speakers exactly when their metadata agree.\<close>

lemma doc_speakers_iff: "(\<exists>ss. doc_speakers G es = Inr ss) \<longleftrightarrow> speakers_agree G es"
  using doc_speakers_Inl conflict_disagrees doc_speakers_agree by (cases "doc_speakers G es") fastforce+

section \<open>Edits\<close>

datatype edit = EdAppend nat | EdInsert int nat | EdSet int nat | EdDel int | EdPop int | EdClear

fun edit_entries :: "'c objects \<Rightarrow> edit \<Rightarrow> entry list \<Rightarrow> (chat_error + nat option) \<times> entry list" where
  "edit_entries G (EdAppend u) es = map_prod (map_sum id (\<lambda>_. None)) id (coll_append G u es)"
| "edit_entries G (EdInsert i u) es = map_prod (map_sum id (\<lambda>_. None)) id (coll_insert G i u es)"
| "edit_entries G (EdSet i u) es = map_prod (map_sum id (\<lambda>_. None)) id (coll_setitem G i u es)"
| "edit_entries G (EdDel i) es = map_prod (map_sum id (\<lambda>_. None)) id (coll_delitem i es)"
| "edit_entries G (EdPop i) es = coll_pop i es"
| "edit_entries G EdClear es = (Inr None, coll_clear es)"

text \<open>The same edit of a Python list; \<open>None\<close> is its \<open>IndexError\<close>.\<close>

definition list_index :: "int \<Rightarrow> 'a list \<Rightarrow> nat option" where
  "list_index i xs = (if - int (length xs) \<le> i \<and> i < int (length xs) then Some (nat (i mod int (length xs))) else None)"

fun edit_list :: "edit \<Rightarrow> nat list \<Rightarrow> (nat option \<times> nat list) option" where
  "edit_list (EdAppend u) xs = Some (None, xs @ [u])"
| "edit_list (EdInsert i u) xs =
     (let k = nat (if i < 0 then max 0 (i + int (length xs)) else min i (int (length xs))) in Some (None, take k xs @ u # drop k xs))"
| "edit_list (EdSet i u) xs = map_option (\<lambda>k. (None, xs[k := u])) (list_index i xs)"
| "edit_list (EdDel i) xs = map_option (\<lambda>k. (None, take k xs @ drop (Suc k) xs)) (list_index i xs)"
| "edit_list (EdPop i) xs = map_option (\<lambda>k. (Some (xs ! k), take k xs @ drop (Suc k) xs)) (list_index i xs)"
| "edit_list EdClear xs = Some (None, [])"

lemma sequence_index_list:
  "sequence_index i (length xs) = (case list_index i xs of Some k \<Rightarrow> Inr k | None \<Rightarrow> Inl (ChatIndexError (str ''utterance index out of range'')))"
proof (cases "sequence_index i (length xs)")
  case (Inr k)
  then show ?thesis by (auto simp: sequence_index_Inr list_index_def)
next
  case (Inl e)
  then have "list_index i xs = None"
    using sequence_index_Inr [of i "length xs"] by (auto simp: list_index_def)
  with Inl show ?thesis by (auto simp: sequence_index_def Let_def split: if_splits)
qed

lemma list_index_less: "list_index i xs = Some k \<Longrightarrow> k < length xs"
  using sequence_index_list [of i xs] sequence_index_less [of i "length xs" k] by simp

lemma list_index_positions [simp]: "list_index i (positions es) = list_index i (coll_list es)"
  by (simp add: list_index_def)

lemma remove_at_length [simp]: "remove_at (length as) (as @ x # bs) = as @ bs"
  by (simp add: remove_at_def)

lemma insert_at_length [simp]: "insert_at (length as) x (as @ bs) = as @ x # bs"
  by (simp add: insert_at_def)

lemma agree_subset: "agree T \<Longrightarrow> S \<subseteq> T \<Longrightarrow> agree S"
  unfolding agree_def by (rule inj_on_subset)

text \<open>What an edit must do to the entries.\<close>

definition edit_ok :: "'c objects \<Rightarrow> edit \<Rightarrow> entry list \<Rightarrow> (chat_error + nat option) \<times> entry list \<Rightarrow> bool" where
  "edit_ok G e es res = (case res of
     (Inr r, es') \<Rightarrow> edit_list e (coll_list es) = Some (r, coll_list es') \<and> coll_clear es' = coll_clear es \<and> speakers_agree G es'
   | (Inl err, es') \<Rightarrow> es' = es \<and> (case edit_list e (coll_list es) of
         None \<Rightarrow> err = ChatIndexError (str ''utterance index out of range'')
       | Some (r, us) \<Rightarrow> \<exists>code. err = conflict_error code \<and> speaker_conflict G us code))"

lemma edit_ok_append: "edit_ok G (EdAppend u) es (edit_entries G (EdAppend u) es)"
  using doc_speakers_Inl [of G "es @ [EUtterance u]"] doc_speakers_agree [of G "es @ [EUtterance u]"]
  by (auto simp: edit_ok_def coll_append_def Let_def split: sum.splits)

lemma edit_ok_insert: "edit_ok G (EdInsert i u) es (edit_entries G (EdInsert i u) es)"
proof -
  define k where "k = insert_index i (length (coll_list es))"
  have k: "k = nat (if i < 0 then max 0 (i + int (length (coll_list es))) else min i (int (length (coll_list es))))"
    by (simp add: k_def insert_index_def max.commute add.commute)
  obtain as bs where es: "es = as @ bs" and p: "(if k < length (coll_list es) then positions es ! k else length es) = length as"
    and c: "coll_list as = take k (coll_list es)" "coll_list bs = drop k (coll_list es)"
  proof (cases "k < length (coll_list es)")
    case True
    from positions_split [OF this] obtain as v bs where "es = as @ EUtterance v # bs" "positions es ! k = length as" "length (coll_list as) = k"
      by blast
    then show ?thesis using True by (intro that [of as "EUtterance v # bs"]) auto
  next
    case False
    then show ?thesis by (intro that [of es "[]"]) auto
  qed
  have e: "coll_insert G i u es = (case doc_speakers G (as @ EUtterance u # bs) of
      Inl e \<Rightarrow> (Inl e, es) | Inr s \<Rightarrow> (Inr (), as @ EUtterance u # bs))"
  proof -
    have "coll_insert G i u es = (case doc_speakers G (insert_at (length as) (EUtterance u) es) of
        Inl e \<Rightarrow> (Inl e, remove_at (length as) (insert_at (length as) (EUtterance u) es))
      | Inr s \<Rightarrow> (Inr (), insert_at (length as) (EUtterance u) es))"
      by (simp only: coll_insert_def Let_def length_positions k_def [symmetric] p)
    then show ?thesis unfolding es by (simp cong: sum.case_cong)
  qed
  have l: "edit_list (EdInsert i u) (coll_list es) = Some (None, coll_list as @ u # coll_list bs)"
    by (simp add: Let_def k [symmetric] c)
  show ?thesis
    using doc_speakers_Inl [of G "as @ EUtterance u # bs"] doc_speakers_agree [of G "as @ EUtterance u # bs"]
    unfolding edit_ok_def edit_entries.simps e l by (auto simp: es split: sum.splits)
qed

text \<open>The three edits at an index.\<close>

lemma index_split:
  assumes "list_index i (coll_list es) = Some k"
  obtains as u bs where "es = as @ EUtterance u # bs" "positions es ! k = length as" "length (coll_list as) = k"
  using positions_split [OF list_index_less [OF assms]] by blast

lemma edit_ok_set: "edit_ok G (EdSet i u) es (edit_entries G (EdSet i u) es)"
proof (cases "list_index i (coll_list es)")
  case None
  then show ?thesis by (simp add: edit_ok_def coll_setitem_def sequence_index_list Let_def)
next
  case (Some k)
  then obtain as v bs where s: "es = as @ EUtterance v # bs" "positions es ! k = length as" "length (coll_list as) = k"
    by (rule index_split)
  have e: "coll_setitem G i u es = (case doc_speakers G (as @ EUtterance u # bs) of
      Inl e \<Rightarrow> (Inl e, es) | Inr s \<Rightarrow> (Inr (), as @ EUtterance u # bs))"
    using Some s by (simp add: coll_setitem_def sequence_index_list Let_def del: positions_Cons cong: sum.case_cong)
  show ?thesis
    using doc_speakers_Inl [of G "as @ EUtterance u # bs"] doc_speakers_agree [of G "as @ EUtterance u # bs"] Some
    unfolding edit_ok_def edit_entries.simps e by (auto simp: s(1) s(3) [symmetric] split: sum.splits)
qed

lemma edit_ok_del:
  assumes "speakers_agree G es"
  shows "edit_ok G (EdDel i) es (edit_entries G (EdDel i) es) \<and> edit_ok G (EdPop i) es (edit_entries G (EdPop i) es)"
proof (cases "list_index i (coll_list es)")
  case None
  then show ?thesis by (simp add: edit_ok_def coll_delitem_def coll_pop_def sequence_index_list Let_def)
next
  case (Some k)
  then obtain as v bs where s: "es = as @ EUtterance v # bs" "positions es ! k = length as" "length (coll_list as) = k"
    by (rule index_split)
  have "speakers_agree G (as @ bs)"
    using assms unfolding speakers_agree_def s(1) by (rule agree_subset) auto
  then show ?thesis using Some s(2)
    by (simp add: edit_ok_def coll_delitem_def coll_pop_def sequence_index_list Let_def s(1) s(3) [symmetric])
qed

lemma edit_ok_clear: "edit_ok G EdClear es (edit_entries G EdClear es)"
proof -
  have "coll_list (coll_clear es) = []" "coll_clear (coll_clear es) = coll_clear es"
    by (induction es) (auto simp: coll_clear_def elim: is_utterance_entry.elims)
  then show ?thesis by (simp add: edit_ok_def speakers_agree_def speakers_in_def agree_def)
qed

lemma edits_ok:
  assumes "speakers_agree G es"
  shows "edit_ok G e es (edit_entries G e es)"
  using edit_ok_append edit_ok_insert edit_ok_set edit_ok_del [OF assms] edit_ok_clear by (cases e) blast+

text \<open>C38: A document whose speakers agree is, under every edit, the Python list of its utterances: an edit that succeeds does to that list
  what the same operation does to a list, keeps the other headers and their order, and leaves a document whose
  speakers agree; an edit that fails leaves the document as it was, and fails for an index that a list would
  refuse, or for a code under which the edited list would have two utterances whose speakers differ in their metadata: the
  error names that code.\<close>

theorem edits_refine_list:
  assumes "speakers_agree G es"
  shows "case edit_entries G e es of
      (Inr r, es') \<Rightarrow> edit_list e (coll_list es) = Some (r, coll_list es') \<and> coll_clear es' = coll_clear es \<and> speakers_agree G es'
    | (Inl err, es') \<Rightarrow> es' = es \<and> (case edit_list e (coll_list es) of
          None \<Rightarrow> err = ChatIndexError (str ''utterance index out of range'')
        | Some (r, us) \<Rightarrow> \<exists>code. err = conflict_error code \<and> speaker_conflict G us code)"
  using edits_ok [OF assms] unfolding edit_ok_def .


definition sample_speaker :: "rstr \<Rightarrow> rstr \<Rightarrow> py_speaker" where
  "sample_speaker code corpus = \<lparr>ps_code = code, ps_name = None, ps_role = str ''Participant'',
     ps_id = \<lparr>pid_languages = [str ''eng''], pid_corpus = corpus, pid_code = code, pid_role = str ''Participant'', pid_rest = []\<rparr>\<rparr>"

definition sample_ast :: "rstr \<Rightarrow> unit py_ast" where
  "sample_ast code = \<lparr>pa_speaker = code, pa_language_code = None, pa_content = (), pa_bullet = None,
     pa_utterance_language = Some (str ''eng''), pa_word_languages = None, pa_tiers = []\<rparr>"

text \<open>Objects 0 and 1 are of one speaker; object 2 has the code of the first under another corpus.\<close>

definition sample_objects :: "unit objects" where
  "sample_objects i =
     (if i < 2 then \<lparr>pu_speaker = sample_speaker (str ''CHI'') (str ''a''), pu_ast = sample_ast (str ''CHI'')\<rparr>
      else \<lparr>pu_speaker = sample_speaker (str ''CHI'') (str ''b''), pu_ast = sample_ast (str ''CHI'')\<rparr>)"

theorem edits_refine_list_witness:
  "edit_list (EdPop (-1)) (coll_list [EUtterance 0, EHeader (PhOther []), EUtterance 1]) = Some (Some 1, [0])
   \<and> snd (edit_entries sample_objects (EdPop (-1)) [EUtterance 0, EHeader (PhOther []), EUtterance 1]) = [EUtterance 0, EHeader (PhOther [])]"
proof -
  have "speakers_agree sample_objects [EUtterance 0, EHeader (PhOther []), EUtterance 1]"
    by (simp add: speakers_agree_def agree_def sample_objects_def)
  from edits_refine_list [OF this, of "EdPop (-1)"] show ?thesis
    by (simp add: coll_pop_def sequence_index_def remove_at_def list_index_def Let_def)
qed

section \<open>Reading back\<close>

text \<open>Objects that are read get fresh numbers, and the objects that were there stay.\<close>

lemma read_entries_store:
  "read_entries D ls S = (r, S') \<Longrightarrow> st_next S \<le> st_next S' \<and> (\<forall>j < st_next S. st_objects S' j = st_objects S j)"
proof (induction ls arbitrary: S r S')
  case (Cons l ls)
  show ?case
  proof (cases l)
    case (PyHeader h)
    then show ?thesis using Cons by (auto split: if_splits prod.splits)
  next
    case (PyUtterance u)
    show ?thesis
    proof (cases "dd_participants D (pa_speaker u)")
      case None
      then show ?thesis using Cons.prems PyUtterance by simp
    next
      case (Some s)
      obtain r' where "read_entries D ls (snd (store_new \<lparr>pu_speaker = s, pu_ast = u\<rparr> S)) = (r', S')"
        using Cons.prems PyUtterance Some by (auto simp: store_new_def split: prod.splits)
      from Cons.IH [OF this] show ?thesis by (auto simp: store_new_def)
    qed
  qed
qed simp

text \<open>An entry with its object, and the lines that are read as such.\<close>

definition entry_view :: "'c objects \<Rightarrow> entry \<Rightarrow> py_header + 'c py_utterance" where
  "entry_view G e = (case e of EHeader h \<Rightarrow> Inl h | EUtterance i \<Rightarrow> Inr (G i))"

lemma entry_view_simps [simp]: "entry_view G (EHeader h) = Inl h" "entry_view G (EUtterance i) = Inr (G i)"
  by (simp_all add: entry_view_def)

fun line_view :: "'c parsed_doc \<Rightarrow> 'c py_line \<Rightarrow> (py_header + 'c py_utterance) list" where
  "line_view D (PyHeader h) = (if derived_header h then [] else [Inl h])"
| "line_view D (PyUtterance u) = [Inr \<lparr>pu_speaker = the (dd_participants D (pa_speaker u)), pu_ast = u\<rparr>]"

definition declared_lines :: "'c parsed_doc \<Rightarrow> 'c py_line list \<Rightarrow> bool" where
  "declared_lines D ls \<longleftrightarrow> list_all (\<lambda>l. case l of PyUtterance u \<Rightarrow> dd_participants D (pa_speaker u) \<noteq> None | PyHeader h \<Rightarrow> True) ls"

lemma declared_lines_simps [simp]:
  "declared_lines D []" "declared_lines D (PyHeader h # ls) = declared_lines D ls"
  "declared_lines D (PyUtterance u # ls) \<longleftrightarrow> dd_participants D (pa_speaker u) \<noteq> None \<and> declared_lines D ls"
  "declared_lines D (ls @ ms) \<longleftrightarrow> declared_lines D ls \<and> declared_lines D ms"
  by (simp_all add: declared_lines_def)

lemma declared_headers [simp]: "declared_lines D (map PyHeader hs)"
  by (induction hs) simp_all

lemma read_entries_view:
  "declared_lines D ls \<Longrightarrow> \<exists>es S'. read_entries D ls S = (Inr es, S') \<and>
     map (entry_view (store_objects S')) es = concat (map (line_view D) ls)"
proof (induction ls arbitrary: S)
  case (Cons l ls)
  have d: "declared_lines D ls" using Cons.prems by (cases l) simp_all
  show ?case
  proof (cases l)
    case (PyHeader h)
    then show ?thesis using Cons.IH [OF d, of S] by auto
  next
    case (PyUtterance u)
    then obtain s where s: "dd_participants D (pa_speaker u) = Some s" using Cons.prems by auto
    obtain i S1 where n: "store_new \<lparr>pu_speaker = s, pu_ast = u\<rparr> S = (i, S1)" by force
    obtain es S' where r: "read_entries D ls S1 = (Inr es, S')"
      and v: "map (entry_view (store_objects S')) es = concat (map (line_view D) ls)" using Cons.IH [OF d] by blast
    have "st_objects S1 i = Some \<lparr>pu_speaker = s, pu_ast = u\<rparr>" "i < st_next S1" using n by (auto simp: store_new_def)
    then have "store_objects S' i = \<lparr>pu_speaker = s, pu_ast = u\<rparr>"
      using read_entries_store [OF r] by (simp add: store_objects_def)
    then show ?thesis using PyUtterance s n r v by simp
  qed
qed simp

text \<open>
  The view of a document that is read back: an utterance in another language than the first of the document has the code of
  that language, any other one the code it had; nothing else of it is changed.
\<close>

definition read_view :: "'c objects \<Rightarrow> rstr list \<Rightarrow> entry \<Rightarrow> py_header + 'c py_utterance" where
  "read_view G languages e = (case e of
     EHeader h \<Rightarrow> Inl h
   | EUtterance i \<Rightarrow> Inr \<lparr>pu_speaker = pu_speaker (G i),
       pu_ast = (pu_ast (G i))\<lparr>pa_language_code :=
         (if pa_utterance_language (pu_ast (G i)) \<in> insert None (Some ` set (take 1 languages))
          then pa_language_code (pu_ast (G i)) else pa_utterance_language (pu_ast (G i)))\<rparr>\<rparr>)"

lemma mark_language_code:
  "mark_language languages u = u\<lparr>pa_language_code :=
     (if pa_utterance_language u \<in> insert None (Some ` set (take 1 languages)) then pa_language_code u else pa_utterance_language u)\<rparr>"
  by (cases languages) (auto simp: mark_language_def split: option.split)

lemma written_simps [simp]:
  "written_line G languages (EHeader h) = PyHeader h" "read_view G languages (EHeader h) = Inl h"
  "written_line G languages (EUtterance i) = PyUtterance (mark_language languages (pu_ast (G i)))"
  "read_view G languages (EUtterance i) = Inr \<lparr>pu_speaker = pu_speaker (G i), pu_ast = mark_language languages (pu_ast (G i))\<rparr>"
  by (simp_all add: written_line_def read_view_def mark_language_code)

lemma mark_language_speaker [simp]: "pa_speaker (mark_language languages u) = pa_speaker u"
  by (simp add: mark_language_def split: option.split)

lemma participant_headers_derived: "list_all derived_header (participant_headers speakers languages)"
  by (simp add: participant_headers_def Let_def list_all_iff)

lemma headers_unread: "list_all derived_header hs \<Longrightarrow> concat (map (line_view D) (map PyHeader hs)) = []"
  by (induction hs) auto

text \<open>
  What a document needs to be written: no header that is derived, utterances that carry the code of their speaker, and speakers
  whose code is that of their \<^verbatim>\<open>@ID\<close>, as every speaker that is made is (\<open>speaker_new_code\<close>).
\<close>

definition writable :: "'c objects \<Rightarrow> entry list \<Rightarrow> bool" where
  "writable G es \<longleftrightarrow> list_all (\<lambda>e. case e of EHeader h \<Rightarrow> \<not> derived_header h
     | EUtterance i \<Rightarrow> pa_speaker (pu_ast (G i)) = ps_code (pu_speaker (G i)) \<and>
         pid_code (ps_id (pu_speaker (G i))) = ps_code (pu_speaker (G i))) es"

lemma speaker_new_code: "speaker_new C code language corpus role nm = Inr s \<Longrightarrow> pid_code (ps_id s) = ps_code s"
  by (auto simp: speaker_new_def bind_res_Inr_iff Let_def)

lemma writable_speakers: "writable G es \<Longrightarrow> s \<in> set (speakers_in G es) \<Longrightarrow> pid_code (ps_id s) = ps_code s"
  by (induction es) (auto simp: writable_def split: entry.splits)

text \<open>
  The participants that the headers of a document declare: a code has the name and the role of its entry in \<^verbatim>\<open>@Participants\<close>
  and the metadata of its \<^verbatim>\<open>@ID\<close>; without either it has none.
\<close>

definition participant_entries :: "'c py_line list \<Rightarrow> (rstr \<times> rstr option \<times> rstr) list" where
  "participant_entries ls = concat (map (\<lambda>l. case l of PyHeader (PhParticipants ps) \<Rightarrow> ps | _ \<Rightarrow> []) ls)"

definition id_headers :: "'c py_line list \<Rightarrow> py_id list" where
  "id_headers ls = concat (map (\<lambda>l. case l of PyHeader (PhId i) \<Rightarrow> [i] | _ \<Rightarrow> []) ls)"

definition declared_participants :: "'c py_line list \<Rightarrow> rstr \<rightharpoonup> py_speaker" where
  "declared_participants ls code =
     (case (find (\<lambda>p. fst p = code) (participant_entries ls), find (\<lambda>i. pid_code i = code) (id_headers ls)) of
        (Some (c, nm, role), Some i) \<Rightarrow> Some \<lparr>ps_code = code, ps_name = nm, ps_role = role, ps_id = i\<rparr>
      | _ \<Rightarrow> None)"

text \<open>
  What is asked of the parser and the serializer for a list of lines: when the text of the lines is accepted, the lines are read in
  it, with the participants their headers declare.
\<close>

definition reads_lines :: "'c chat_crate \<Rightarrow> 'c py_line list \<Rightarrow> bool" where
  "reads_lines C ls \<longleftrightarrow> (\<forall>D. parse_document C True (cc_file_string C ls) = Inr D \<longrightarrow>
     dd_lines D = ls \<and> dd_participants D = declared_participants ls)"

lemma written_declarations:
  assumes "writable G es"
  shows "participant_entries (written_lines G speakers languages es) = map participant_entry_of speakers"
    and "id_headers (written_lines G speakers languages es) = map ps_id speakers"
proof -
  have entries: "participant_entries (map (written_line G languages) es) = []" "id_headers (map (written_line G languages) es) = []"
    using assms by (induction es) (auto simp: participant_entries_def id_headers_def writable_def split: entry.splits py_header.splits)
  have ids: "participant_entries (map (\<lambda>s. PyHeader (PhId (ps_id s))) speakers) = []"
    "id_headers (map (\<lambda>s. PyHeader (PhId (ps_id s))) speakers) = map ps_id speakers" for speakers
    by (induction speakers) (simp_all add: participant_entries_def id_headers_def)
  have split: "participant_entries (as @ bs) = participant_entries as @ participant_entries bs"
    "id_headers (as @ bs) = id_headers as @ id_headers bs" for as bs :: "'a py_line list"
    by (simp_all add: participant_entries_def id_headers_def)
  have one: "participant_entries [PyHeader h :: 'a py_line] = (case h of PhParticipants ps \<Rightarrow> ps | _ \<Rightarrow> [])"
    "id_headers [PyHeader h :: 'a py_line] = (case h of PhId i \<Rightarrow> [i] | _ \<Rightarrow> [])" for h
    by (simp_all add: participant_entries_def id_headers_def)
  have nil: "participant_entries ([] :: 'a py_line list) = []" "id_headers ([] :: 'a py_line list) = []"
    by (simp_all add: participant_entries_def id_headers_def)
  have cons: "participant_entries (PyHeader h # ls) = (case h of PhParticipants ps \<Rightarrow> ps | _ \<Rightarrow> []) @ participant_entries ls"
    "id_headers (PyHeader h # ls) = (case h of PhId i \<Rightarrow> [i] | _ \<Rightarrow> []) @ id_headers ls" for h and ls :: "'a py_line list"
    by (simp_all add: participant_entries_def id_headers_def)
  show "participant_entries (written_lines G speakers languages es) = map participant_entry_of speakers"
    by (simp add: written_lines_def participant_headers_def Let_def split cons nil one entries ids o_def)
  show "id_headers (written_lines G speakers languages es) = map ps_id speakers"
    by (simp add: written_lines_def participant_headers_def Let_def split cons nil one entries ids o_def)
qed

lemma find_by_code:
  assumes "distinct (map f xs)" and "x \<in> set xs"
  shows "find (\<lambda>y. f y = f x) xs = Some x"
  using assms by (induction xs) auto

lemma written_participants:
  assumes "writable G es" and "distinct (map ps_code speakers)" and "set speakers = set (speakers_in G es)" and "s \<in> set speakers"
  shows "declared_participants (written_lines G speakers languages es) (ps_code s) = Some s"
proof -
  have "map pid_code (map ps_id speakers) = map ps_code speakers"
    using writable_speakers [OF assms(1)] assms(3) by simp
  then have "find (\<lambda>i. pid_code i = pid_code (ps_id s)) (map ps_id speakers) = Some (ps_id s)"
    using assms(2,4) by (intro find_by_code) (simp_all only: list.set_map image_eqI)
  moreover have "find (\<lambda>p. fst p = fst (participant_entry_of s)) (map participant_entry_of speakers) = Some (participant_entry_of s)"
    using assms(2,4) by (intro find_by_code) (simp_all add: participant_entry_of_def o_def)
  moreover have "pid_code (ps_id s) = ps_code s" using writable_speakers [OF assms(1)] assms(3,4) by simp
  ultimately show ?thesis
    by (simp add: declared_participants_def written_declarations [OF assms(1)] participant_entry_of_def)
qed

text \<open>The speakers of a document are those of its view.\<close>

fun gather :: "py_speaker list \<Rightarrow> py_speaker list \<Rightarrow> chat_error + py_speaker list" where
  "gather [] acc = Inr acc"
| "gather (s # ss) acc = (case find (\<lambda>x. ps_code x = ps_code s) acc of
     Some x \<Rightarrow> if x \<noteq> s then Inl (conflict_error (ps_code s)) else gather ss acc
   | None \<Rightarrow> gather ss (acc @ [s]))"

lemma collect_gather: "collect_speakers G es acc = gather (speakers_in G es) acc"
  by (induction G es acc rule: collect_speakers.induct) (auto simp: Let_def split: option.split)

lemma view_speakers:
  "map (entry_view G') es' = map (read_view G languages) es \<Longrightarrow> speakers_in G' es' = speakers_in G es"
proof (induction es arbitrary: es')
  case (Cons e es)
  then obtain f fs where f: "es' = f # fs" "entry_view G' f = read_view G languages e"
    "map (entry_view G') fs = map (read_view G languages) es" by auto
  then show ?case using Cons.IH [OF f(3)] by (cases e; cases f) auto
qed simp

lemma written_entry_view:
  assumes "writable G es" "list_all (\<lambda>s. dd_participants D (ps_code s) = Some s) (speakers_in G es)"
  shows "declared_lines D (map (written_line G languages) es) \<and>
    concat (map (line_view D) (map (written_line G languages) es)) = map (read_view G languages) es"
  using assms
proof (induction es)
  case (Cons e es)
  have IH: "writable G es \<Longrightarrow> list_all (\<lambda>s. dd_participants D (ps_code s) = Some s) (speakers_in G es) \<Longrightarrow>
      declared_lines D (map (written_line G languages) es) \<and>
      concat (map (line_view D) (map (written_line G languages) es)) = map (read_view G languages) es" by (rule Cons.IH)
  have w: "writable G es" using Cons.prems(1) by (simp add: writable_def)
  show ?case
  proof (cases e)
    case (EHeader h)
    then show ?thesis using IH [OF w] Cons.prems by (simp add: writable_def)
  next
    case (EUtterance i)
    have p: "dd_participants D (pa_speaker (pu_ast (G i))) = Some (pu_speaker (G i))"
      using Cons.prems EUtterance by (simp add: writable_def)
    then show ?thesis using IH [OF w] Cons.prems EUtterance by simp
  qed
qed simp

lemma has_header_written:
  "has_header PhBegin (written_lines G speakers languages es) \<and> has_header PhEnd (written_lines G speakers languages es)"
  by (simp add: has_header_def written_lines_def participant_headers_def Let_def)

text \<open>C39: A document that is written can be read back: when the text of a document is made, it parses and validates; and when the
  parser reads in the text of the lines those lines, with the participants that their headers declare, reading the text gives a
  document with the same speakers and with the same entries in the same order, each utterance with its speaker, its content, its
  timing and its tiers, except that an utterance in another language than the first now carries the code of its language.\<close>

theorem document_reads_back:
  assumes made: "doc_stringify C G es = Inr txt" and w: "writable G es"
    and sp: "doc_speakers G es = Inr speakers" and la: "doc_languages G es = Inr languages"
    and reads: "reads_lines C (written_lines G speakers languages es)"
  shows "\<exists>es' S'. doc_parse C (PyText txt) S = (Inr es', S') \<and> doc_speakers (store_objects S') es' = Inr speakers \<and>
    map (entry_view (store_objects S')) es' = map (read_view G languages) es"
proof -
  let ?ls = "written_lines G speakers languages es"
  obtain D where D: "parse_document C True txt = Inr D" and wrote: "txt = cc_file_string C ?ls"
    using made unfolding doc_stringify_def sp la bind_res_Inr_iff Let_def by blast
  have lines: "dd_lines D = ?ls" and participants: "dd_participants D = declared_participants ?ls"
    using reads D unfolding reads_lines_def wrote by blast+
  note speakers = doc_speakers_Inr [OF sp]
  have "list_all (\<lambda>s. dd_participants D (ps_code s) = Some s) (speakers_in G es)"
    using written_participants [OF w, of speakers] speakers by (simp add: list_all_iff participants)
  note view = written_entry_view [OF w this, of languages]
  have "declared_lines D (dd_lines D)"
    using view unfolding lines written_lines_def by simp
  then obtain es' S' where r: "read_entries D (dd_lines D) S = (Inr es', S')"
      "map (entry_view (store_objects S')) es' = concat (map (line_view D) (dd_lines D))"
    using read_entries_view by blast
  have "concat (map (line_view D) (dd_lines D)) = map (read_view G languages) es"
    using view headers_unread [OF participant_headers_derived, of D speakers languages]
    unfolding lines written_lines_def by (simp del: map_map)
  with r have v: "map (entry_view (store_objects S')) es' = map (read_view G languages) es" by simp
  have "doc_speakers (store_objects S') es' = Inr speakers"
    using sp by (simp add: doc_speakers_def collect_gather view_speakers [OF v])
  with r v show ?thesis
    using D has_header_written [of G speakers languages es] lines by (simp add: doc_parse_def input_text_def)
qed

text \<open>A crate that has read one document: two speakers, of which the second speaks Spanish in a document whose first language is English.\<close>

definition bilingual_objects :: "unit objects" where
  "bilingual_objects i =
     (if i = 0 then \<lparr>pu_speaker = sample_speaker (str ''CHI'') (str ''a''), pu_ast = sample_ast (str ''CHI'')\<rparr>
      else \<lparr>pu_speaker = sample_speaker (str ''MOT'') (str ''b''),
        pu_ast = (sample_ast (str ''MOT''))\<lparr>pa_utterance_language := Some (str ''spa'')\<rparr>\<rparr>)"

definition bilingual_speakers :: "py_speaker list" where
  "bilingual_speakers = [sample_speaker (str ''CHI'') (str ''a''), sample_speaker (str ''MOT'') (str ''b'')]"

definition sample_entries :: "entry list" where
  "sample_entries = [EHeader (PhOther (str ''@Comment'')), EUtterance 0, EUtterance 1]"

definition sample_doc :: "unit parsed_doc" where
  "sample_doc = (let ls = written_lines bilingual_objects bilingual_speakers [str ''eng'', str ''spa''] sample_entries
     in \<lparr>dd_lines = ls, dd_participants = declared_participants ls\<rparr>)"

definition sample_crate :: "unit chat_crate" where
  "sample_crate = \<lparr>cc_parse_and_validate = (\<lambda>txt. if txt = str ''sample'' then Inr sample_doc else Inl []),
     cc_validate = (\<lambda>al D. (D, [])), cc_file_string = (\<lambda>ls. if ls = dd_lines sample_doc then str ''sample'' else []),
     cc_header_string = (\<lambda>h. []), cc_utterance_string = (\<lambda>u. []),
     cc_main_string = (\<lambda>u. []), cc_content_string = (\<lambda>l c. []), cc_language_code = Inr, cc_media_filename = Inr, cc_words = (\<lambda>c. [])\<rparr>"

lemma sample_parse: "parse_document sample_crate al (str ''sample'') = Inr sample_doc"
  by (simp add: parse_document_def sample_crate_def map_err_def bind_res_def Let_def)

lemma sample_lines_written:
  "cc_file_string sample_crate (written_lines bilingual_objects bilingual_speakers [str ''eng'', str ''spa''] sample_entries) = str ''sample''"
  by (simp add: sample_crate_def sample_doc_def Let_def)

lemma sample_reads: "reads_lines sample_crate (written_lines bilingual_objects bilingual_speakers [str ''eng'', str ''spa''] sample_entries)"
  by (simp add: reads_lines_def sample_lines_written sample_parse) (simp add: sample_doc_def Let_def)

lemma sample_document:
  "doc_speakers bilingual_objects sample_entries = Inr bilingual_speakers"
  "doc_languages bilingual_objects sample_entries = Inr [str ''eng'', str ''spa'']"
  "writable bilingual_objects sample_entries"
  by (simp_all add: doc_speakers_def doc_languages_def sample_entries_def bilingual_objects_def bilingual_speakers_def sample_speaker_def
      sample_ast_def utterance_languages_def push_new_def writable_def str_def bind_res_def Let_def)

theorem document_reads_back_witness:
  "\<exists>es' S'. doc_parse sample_crate (PyText (str ''sample'')) \<lparr>st_objects = Map.empty, st_next = 0\<rparr> = (Inr es', S') \<and>
    doc_speakers (store_objects S') es' = Inr bilingual_speakers \<and>
    map (entry_view (store_objects S')) es' = [Inl (PhOther (str ''@Comment'')), Inr (bilingual_objects 0),
      Inr ((bilingual_objects 1)\<lparr>pu_ast := (pu_ast (bilingual_objects 1))\<lparr>pa_language_code := Some (str ''spa'')\<rparr>\<rparr>)]"
proof -
  have "doc_stringify sample_crate bilingual_objects sample_entries = Inr (str ''sample'')"
    by (simp add: doc_stringify_def sample_document bind_res_def sample_lines_written sample_parse Let_def)
  from document_reads_back [OF this sample_document(3,1,2) sample_reads, of "\<lparr>st_objects = Map.empty, st_next = 0\<rparr>"]
  show ?thesis
    by (simp add: sample_entries_def bilingual_objects_def mark_language_def sample_ast_def str_def)
qed


section \<open>Utterances\<close>

lemma take_languages_keeps:
  "pa_speaker (take_languages ls u) = pa_speaker u \<and> pa_language_code (take_languages ls u) = pa_language_code u \<and>
   pa_content (take_languages ls u) = pa_content u \<and> pa_bullet (take_languages ls u) = pa_bullet u \<and> pa_tiers (take_languages ls u) = pa_tiers u"
proof (induction ls arbitrary: u)
  case (Cons l ls)
  show ?case
  proof (cases l)
    case (PyUtterance v)
    then show ?thesis
      using Cons.IH [of "u\<lparr>pa_utterance_language := pa_utterance_language v, pa_word_languages := pa_word_languages v\<rparr>"]
      by (simp add: take_languages_def)
  next
    case (PyHeader h)
    then show ?thesis using Cons.IH [of u] by (simp add: take_languages_def)
  qed
qed (simp add: take_languages_def)

text \<open>An edit changes nothing but what it is given, and the languages, which validation computes.\<close>

lemma utterance_from_ast_keeps:
  assumes "utterance_from_ast C s u = Inr v"
  shows "pu_speaker v = s \<and> pa_speaker (pu_ast v) = pa_speaker u \<and> pa_language_code (pu_ast v) = pa_language_code u \<and>
    pa_content (pu_ast v) = pa_content u \<and> pa_bullet (pu_ast v) = pa_bullet u \<and> pa_tiers (pu_ast v) = pa_tiers u"
  using assms by (auto simp: utterance_from_ast_def Let_def bind_res_Inr_iff take_languages_keeps)

lemma set_timing_keeps:
  assumes "set_timing C timing u = Inr v"
  shows "utterance_timing v = timing \<and> pu_speaker v = pu_speaker u \<and> utterance_text C v = utterance_text C u \<and> tier_keys v = tier_keys u"
  using assms
  by (auto simp: set_timing_def utterance_timing_def utterance_text_def tier_keys_def dest!: utterance_from_ast_keeps split: if_splits)

lemma set_speaker_keeps:
  assumes "set_speaker C s u = Inr v"
  shows "pu_speaker v = s \<and> pa_speaker (pu_ast v) = ps_code s \<and> utterance_timing v = utterance_timing u \<and>
    utterance_text C v = utterance_text C u \<and> tier_keys v = tier_keys u"
  using utterance_from_ast_keeps [OF assms [unfolded set_speaker_def]]
  by (simp add: utterance_timing_def utterance_text_def tier_keys_def)

lemma utterance_new_timing: "utterance_new C s t timing = Inr v \<Longrightarrow> utterance_timing v = timing \<and> pu_speaker v = s"
  by (auto simp: utterance_new_def Let_def bind_res_Inr_iff split: option.splits dest!: set_timing_keeps)

text \<open>A new text keeps the timing, the speaker and the tiers.\<close>

lemma set_text_keeps:
  assumes "set_text C t u = Inr v"
  shows "utterance_timing v = utterance_timing u \<and> pu_speaker v = pu_speaker u \<and> tier_keys v = tier_keys u"
proof -
  obtain r where r: "utterance_new C (pu_speaker u) t (utterance_timing u) = Inr r"
      "utterance_from_ast C (pu_speaker u) (replace_main (pu_ast u) (pu_ast r)) = Inr v"
    using assms by (auto simp: set_text_def bind_res_Inr_iff)
  show ?thesis using utterance_new_timing [OF r(1)] utterance_from_ast_keeps [OF r(2)]
    by (simp add: utterance_timing_def tier_keys_def replace_main_def)
qed

text \<open>A tier is put in the place of the one of its kind, or at the end; the others stay as they are.\<close>

lemma find_put_tier:
  assumes "tr_kind t = k"
  shows "find (has_kind k') (put_tier k t ts) = (if k' = k then Some t else find (has_kind k') ts)"
proof (cases "position (has_kind k) ts")
  case None
  then have "find (has_kind k) ts = None" by (simp add: position_None find_None_iff)
  then have "find (has_kind k) (ts @ [t]) = Some t" "k' \<noteq> k \<Longrightarrow> find (has_kind k') (ts @ [t]) = find (has_kind k') ts"
    using assms by (induction ts) (auto simp: has_kind_def split: if_splits)
  with None show ?thesis by (auto simp: put_tier_def)
next
  case (Some i)
  have "find (has_kind k') (ts[i := t]) = (if k' = k then Some t else find (has_kind k') ts)"
    using Some
  proof (induction ts arbitrary: i)
    case (Cons x ts)
    have kinds: "has_kind a t \<longleftrightarrow> a = k" "has_kind a x \<longleftrightarrow> a = tr_kind x" for a
      using assms by (auto simp: has_kind_def)
    show ?case using Cons by (cases "has_kind k x") (auto simp: kinds)
  qed simp
  with Some show ?thesis by (simp add: put_tier_def)
qed

text \<open>
  The objects are shared: a document does not see an edit of one of its utterances, so a speaker that changes there can be in
  conflict with another utterance; the document then has no list of speakers and no text until it is mended.
\<close>

lemma shared_utterance_conflict:
  "doc_speakers sample_objects [EUtterance 0, EUtterance 1] = Inr [sample_speaker (str ''CHI'') (str ''a'')]"
  "doc_speakers (sample_objects(1 := sample_objects 2)) [EUtterance 0, EUtterance 1] = Inl (conflict_error (str ''CHI''))"
  by (simp_all add: doc_speakers_def sample_objects_def sample_speaker_def str_def)

end
