(* ===== verification/CacheKeys.thy ===== *)
theory CacheKeys
  imports Engine AiRunner FaTiming PhoneticRunner UtsegRunner MorRunner TierRunners CompareReport MediaConvert
begin

text \<open>
  What a request contributes to the key of the result cache: core \<^verbatim>\<open>cache.rs\<close> and the \<open>CacheKey\<close>
  implementations of \<^verbatim>\<open>proto/\<close>, one definition per implementation, over the closed union \<open>TaskInput\<close> of \<^verbatim>\<open>base.rs\<close>. A key view
  is a JSON value with the fields in the order of the code; the JSON writer, the Base64 of the audio and BLAKE3 are given. The
  confidence of a word is a number (not the NaN, which is written as null).
  The last section states what the keys promise: two requests share a key iff they ask for the same computation.
\<close>

section \<open>The requests\<close>

datatype jvalue = VNull | VBool bool | VNat nat | VFloat rat | VStr rstr | VArray "jvalue list" | VObject "(rstr \<times> jvalue) list"

record asr_options =
  ao_num_speakers :: u32
  ao_prompt :: "rstr option"
  ao_extras :: jvalue

record asr_request =
  aq_source_id :: rstr
  aq_audio :: prepared_audio
  aq_language :: language_spec
  aq_options :: asr_options

record speaker_request =
  sq_source_id :: rstr
  sq_audio :: prepared_audio
  sq_num_speakers :: u32

record phonetic_request =
  pq_source_id :: rstr
  pq_audio :: prepared_audio
  pq_language :: rstr
  pq_utterances :: "phonetic_utterance list"

record convert_request =
  cq_source_id :: rstr
  cq_audio :: prepared_audio

text \<open>\<open>UtrInput\<close> is a transparent wrapper of \<open>AsrInput\<close>: the constructor \<open>UtrRequest\<close> stands for both.\<close>

datatype request =
    AiRequest ai_input
  | AsrRequest asr_request
  | FaRequest "prepared_audio fa_input"
  | PhoneticRequest phonetic_request
  | SpeakerRequest speaker_request
  | UtsegRequest utseg_input
  | UtrRequest asr_request
  | MorRequest mor_input
  | TranslateRequest translate_input
  | CorefRequest coref_input
  | CompareRequest compare_input
  | ConvertRequest convert_request

fun request_task :: "request \<Rightarrow> task" where
  "request_task (AiRequest i) = Ai"
| "request_task (AsrRequest i) = Asr"
| "request_task (FaRequest i) = Fa"
| "request_task (PhoneticRequest i) = Phonetic"
| "request_task (SpeakerRequest i) = Speaker"
| "request_task (UtsegRequest i) = UtSeg"
| "request_task (UtrRequest i) = Utr"
| "request_task (MorRequest i) = Morphosyntax"
| "request_task (TranslateRequest i) = Translate"
| "request_task (CorefRequest i) = Coref"
| "request_task (CompareRequest i) = Compare"
| "request_task (ConvertRequest i) = Convert"

fun request_source_id :: "request \<Rightarrow> rstr" where
  "request_source_id (AiRequest i) = aj_source_id i"
| "request_source_id (AsrRequest i) = aq_source_id i"
| "request_source_id (FaRequest i) = fi_source_id i"
| "request_source_id (PhoneticRequest i) = pq_source_id i"
| "request_source_id (SpeakerRequest i) = sq_source_id i"
| "request_source_id (UtsegRequest i) = UtsegRunner.ui_source_id i"
| "request_source_id (UtrRequest i) = aq_source_id i"
| "request_source_id (MorRequest i) = mx_source_id i"
| "request_source_id (TranslateRequest i) = tr_source_id i"
| "request_source_id (CorefRequest i) = TierRunners.co_source_id i"
| "request_source_id (CompareRequest i) = ci_source_id i"
| "request_source_id (ConvertRequest i) = cq_source_id i"

text \<open>The request as the engine sees it.\<close>

definition task_request :: "request \<Rightarrow> request task_input" where
  "task_request r = \<lparr>ti_task = request_task r, ti_source_id = request_source_id r, ti_payload = r\<rparr>"

section \<open>Views\<close>

text \<open>\<open>ke_base64\<close> is the Base64 text of the audio bytes, \<open>ke_to_vec\<close> is \<open>serde_json::to_vec\<close>.\<close>

record key_env =
  ke_base64 :: "u8 list \<Rightarrow> rstr"
  ke_to_vec :: "jvalue \<Rightarrow> rstr option"

definition strings_json :: "rstr list \<Rightarrow> jvalue" where
  "strings_json ss = VArray (map VStr ss)"

fun option_json :: "('a \<Rightarrow> jvalue) \<Rightarrow> 'a option \<Rightarrow> jvalue" where
  "option_json f None = VNull"
| "option_json f (Some x) = f x"

fun language_json :: "language_spec \<Rightarrow> jvalue" where
  "language_json LangAuto = VObject [(str ''kind'', VStr (str ''auto''))]"
| "language_json (LangCode c) = VObject [(str ''kind'', VStr (str ''code'')), (str ''value'', VStr c)]"
| "language_json LangPerFile = VObject [(str ''kind'', VStr (str ''per_file''))]"

definition audio_json :: "key_env \<Rightarrow> prepared_audio \<Rightarrow> jvalue" where
  "audio_json K a = VObject [
     (str ''pcm_f32le'', VStr (ke_base64 K (pa_pcm a))),
     (str ''sample_rate'', VNat (unat (pa_sample_rate a))),
     (str ''channels'', VNat (unat (pa_channels a))),
     (str ''frame_count'', VNat (pa_frame_count a))]"

definition options_json :: "asr_options \<Rightarrow> jvalue" where
  "options_json opts = VObject [
     (str ''num_speakers'', VNat (unat (ao_num_speakers opts))),
     (str ''prompt'', option_json VStr (ao_prompt opts)),
     (str ''extras'', ao_extras opts)]"

definition word_json :: "timed_word \<Rightarrow> jvalue" where
  "word_json w = VObject [
     (str ''text'', VStr (tw_text w)),
     (str ''start_ms'', VNat (tw_start w)),
     (str ''end_ms'', VNat (tw_end w)),
     (str ''confidence'', option_json VFloat (tw_confidence w))]"

definition segment_json :: "segment \<Rightarrow> jvalue" where
  "segment_json s = VObject [
     (str ''start_ms'', VNat (sg_start s)),
     (str ''end_ms'', VNat (sg_end s)),
     (str ''text'', VStr (sg_text s)),
     (str ''speaker'', option_json VStr (sg_speaker s)),
     (str ''words'', VArray (map word_json (sg_words s)))]"

definition ai_utterance_json :: "ai_utterance \<Rightarrow> jvalue" where
  "ai_utterance_json u = VObject [
     (str ''index'', VNat (av_index u)),
     (str ''chat'', VStr (av_chat u)),
     (str ''context'', strings_json (av_context u))]"

definition unit_json :: "phonetic_unit \<Rightarrow> jvalue" where
  "unit_json u = VObject [(str ''text'', VStr (pu_text u)), (str ''pause'', VBool (pu_pause u))]"

definition phonetic_json :: "phonetic_utterance \<Rightarrow> jvalue" where
  "phonetic_json u = VObject [
     (str ''index'', VNat (ph_index u)),
     (str ''start_ms'', VNat (ph_start u)),
     (str ''end_ms'', VNat (ph_end u)),
     (str ''units'', VArray (map unit_json (ph_units u)))]"

section \<open>Key views\<close>

definition ai_key :: "ai_input \<Rightarrow> jvalue" where
  "ai_key i = VObject [
     (str ''instruction'', VStr (aj_instruction i)),
     (str ''utterances'', VArray (map ai_utterance_json (aj_utterances i)))]"

definition asr_key :: "key_env \<Rightarrow> asr_request \<Rightarrow> jvalue" where
  "asr_key K i = VObject [
     (str ''audio'', audio_json K (aq_audio i)),
     (str ''language'', language_json (aq_language i)),
     (str ''options'', options_json (aq_options i))]"

definition fa_utterance_key :: "segment \<Rightarrow> jvalue" where
  "fa_utterance_key u = VObject [
     (str ''text'', VStr (sg_text u)),
     (str ''speaker'', option_json VStr (sg_speaker u)),
     (str ''words'', strings_json (map tw_text (sg_words u)))]"

definition fa_key :: "key_env \<Rightarrow> prepared_audio fa_input \<Rightarrow> jvalue" where
  "fa_key K i = VObject [
     (str ''audio'', audio_json K (fi_audio i)),
     (str ''utterances'', VArray (map fa_utterance_key (fi_utterances i))),
     (str ''language'', language_json (fi_language i))]"

definition phonetic_key :: "key_env \<Rightarrow> phonetic_request \<Rightarrow> jvalue" where
  "phonetic_key K i = VArray [audio_json K (pq_audio i), VStr (pq_language i),
     VArray (map phonetic_json (pq_utterances i))]"

definition speaker_key :: "key_env \<Rightarrow> speaker_request \<Rightarrow> jvalue" where
  "speaker_key K i = VObject [
     (str ''audio'', audio_json K (sq_audio i)),
     (str ''num_speakers'', VNat (unat (sq_num_speakers i)))]"

definition utseg_key :: "utseg_input \<Rightarrow> jvalue" where
  "utseg_key i = VObject [
     (str ''segments'', VArray (map segment_json (UtsegRunner.ui_segments i))),
     (str ''language'', language_json (UtsegRunner.ui_language i)),
     (str ''stanza_fallback'', VBool (UtsegRunner.ui_stanza_fallback i))]"

definition mor_key :: "mor_input \<Rightarrow> jvalue" where
  "mor_key i = VObject [
     (str ''language'', language_json (mx_language i)),
     (str ''tokens'', strings_json (mx_tokens i)),
     (str ''retokenize'', VBool (mx_retokenize i)),
     (str ''text'', VStr (mx_text i))]"

definition translate_key :: "translate_input \<Rightarrow> jvalue" where
  "translate_key i = VObject [
     (str ''utterances'', strings_json (tr_utterances i)),
     (str ''source'', language_json (tr_source i)),
     (str ''target'', VStr (tr_target i))]"

definition coref_key :: "coref_input \<Rightarrow> jvalue" where
  "coref_key i = VObject [
     (str ''utterances'', strings_json (co_utterances i)),
     (str ''speakers'', strings_json (co_speakers i))]"

definition compare_key :: "compare_input \<Rightarrow> jvalue" where
  "compare_key i = VObject [
     (str ''main_chat'', VStr (ci_main_chat i)),
     (str ''gold_chat'', VStr (ci_gold_chat i))]"

definition convert_key :: "key_env \<Rightarrow> convert_request \<Rightarrow> jvalue" where
  "convert_key K i = audio_json K (cq_audio i)"

section \<open>The bytes that are hashed\<close>

text \<open>A value that cannot be written is a fixed text that no JSON starts with.\<close>

definition hash_serialized :: "key_env \<Rightarrow> jvalue \<Rightarrow> rstr" where
  "hash_serialized K v =
     (case ke_to_vec K v of Some bytes \<Rightarrow> bytes | None \<Rightarrow> [0] @ str ''__cache_key_serialize_failed__'' @ [0])"

definition utr_bytes :: "key_env \<Rightarrow> asr_request \<Rightarrow> rstr" where
  "utr_bytes K i = str ''utr_asr'' @ hash_serialized K (asr_key K i)"

fun key_view :: "key_env \<Rightarrow> request \<Rightarrow> jvalue" where
  "key_view K (AiRequest i) = ai_key i"
| "key_view K (AsrRequest i) = asr_key K i"
| "key_view K (FaRequest i) = fa_key K i"
| "key_view K (PhoneticRequest i) = phonetic_key K i"
| "key_view K (SpeakerRequest i) = speaker_key K i"
| "key_view K (UtsegRequest i) = utseg_key i"
| "key_view K (UtrRequest i) = asr_key K i"
| "key_view K (MorRequest i) = mor_key i"
| "key_view K (TranslateRequest i) = translate_key i"
| "key_view K (CorefRequest i) = coref_key i"
| "key_view K (CompareRequest i) = compare_key i"
| "key_view K (ConvertRequest i) = convert_key K i"

fun request_bytes :: "key_env \<Rightarrow> request \<Rightarrow> rstr" where
  "request_bytes K (UtrRequest i) = utr_bytes K i"
| "request_bytes K r = hash_serialized K (key_view K r)"

section \<open>What the keys promise\<close>

text \<open>
  The computation a request asks for: the request without what only routes its answer (the source and, for morphosyntax, the
  number of the utterance) and, for forced alignment, without the times and confidences that the runner itself writes back.
\<close>

definition without_times :: "segment \<Rightarrow> segment" where
  "without_times s = s\<lparr>sg_start := 0, sg_end := 0,
     sg_words := map (\<lambda>w. w\<lparr>tw_start := 0, tw_end := 0, tw_confidence := None\<rparr>) (sg_words s)\<rparr>"

fun computation :: "request \<Rightarrow> request" where
  "computation (AiRequest i) = AiRequest (i\<lparr>aj_source_id := []\<rparr>)"
| "computation (AsrRequest i) = AsrRequest (i\<lparr>aq_source_id := []\<rparr>)"
| "computation (FaRequest i) = FaRequest (i\<lparr>fi_source_id := [], fi_utterances := map without_times (fi_utterances i)\<rparr>)"
| "computation (PhoneticRequest i) = PhoneticRequest (i\<lparr>pq_source_id := []\<rparr>)"
| "computation (SpeakerRequest i) = SpeakerRequest (i\<lparr>sq_source_id := []\<rparr>)"
| "computation (UtsegRequest i) = UtsegRequest (UtsegRunner.ui_source_id_update (\<lambda>_. []) i)"
| "computation (UtrRequest i) = UtrRequest (i\<lparr>aq_source_id := []\<rparr>)"
| "computation (MorRequest i) = MorRequest (i\<lparr>mx_source_id := [], mx_utterance_id := 0\<rparr>)"
| "computation (TranslateRequest i) = TranslateRequest (i\<lparr>tr_source_id := []\<rparr>)"
| "computation (CorefRequest i) = CorefRequest (TierRunners.co_source_id_update (\<lambda>_. []) i)"
| "computation (CompareRequest i) = CompareRequest (i\<lparr>ci_source_id := []\<rparr>)"
| "computation (ConvertRequest i) = ConvertRequest (i\<lparr>cq_source_id := []\<rparr>)"

text \<open>The cache environment of the engine on these requests.\<close>

definition keyed_by :: "key_env \<Rightarrow> (request, 'o) cache_env \<Rightarrow> bool" where
  "keyed_by K E \<longleftrightarrow> (\<forall>r. ce_input_bytes E (task_request r) = request_bytes K r)"

definition hashed_text :: "key_env \<Rightarrow> (request, 'o) cache_env \<Rightarrow> rstr \<Rightarrow> request \<Rightarrow> rstr" where
  "hashed_text K E backend r = key_namespace E (request_task r) backend @ request_bytes K r"

definition request_key :: "(request, 'o) cache_env \<Rightarrow> rstr \<Rightarrow> request \<Rightarrow> rstr" where
  "request_key E backend r = cache_key E (request_task r) backend (task_request r)"

lemma request_key_hashed: "keyed_by K E \<Longrightarrow> request_key E backend r = ce_hash E (hashed_text K E backend r)"
  by (simp add: request_key_def cache_key_def hashed_text_def keyed_by_def)

subsection \<open>The views tell different values apart\<close>

lemma map_eq_iff:
  assumes "\<And>x y. f x = f y \<longleftrightarrow> g x = g y"
  shows "map f xs = map f ys \<longleftrightarrow> map g xs = map g ys"
proof (induction xs arbitrary: ys)
  case Nil
  show ?case by (metis list.map_disc_iff list.simps(8))
next
  case (Cons x xs)
  show ?case by (cases ys) (simp_all add: Cons assms)
qed

lemma map_eq_map: "(\<And>x y. f x = f y \<longleftrightarrow> x = y) \<Longrightarrow> map f xs = map f ys \<longleftrightarrow> xs = ys"
  using map_eq_iff [of f "\<lambda>x. x" xs ys] by simp

lemma strings_json_eq [simp]: "strings_json xs = strings_json ys \<longleftrightarrow> xs = ys"
  by (simp add: strings_json_def map_eq_map)

lemma option_json_eq [simp]:
  "option_json VStr p = option_json VStr q \<longleftrightarrow> p = q" "option_json VFloat x = option_json VFloat y \<longleftrightarrow> x = y"
  by (cases p; cases q; simp; fail)+ (cases x; cases y; simp)

lemma language_json_eq [simp]: "language_json a = language_json b \<longleftrightarrow> a = b"
  by (cases a; cases b) (simp_all add: str_def)

lemma audio_json_eq:
  assumes "inj (ke_base64 K)"
  shows "audio_json K a = audio_json K b \<longleftrightarrow> a = b"
  using assms by (cases a; cases b) (simp add: audio_json_def inj_eq)

lemma unat_eq [simp]: "unat a = unat b \<longleftrightarrow> a = b"
  by (simp add: word_unat_eq_iff)

lemma options_json_eq [simp]: "options_json a = options_json b \<longleftrightarrow> a = b"
  by (cases a; cases b) (simp add: options_json_def)

lemma word_json_eq [simp]: "word_json a = word_json b \<longleftrightarrow> a = b"
  by (cases a; cases b) (simp add: word_json_def)

lemma segment_json_eq [simp]: "segment_json a = segment_json b \<longleftrightarrow> a = b"
  by (cases a; cases b) (simp add: segment_json_def map_eq_map)

lemma ai_utterance_json_eq [simp]: "ai_utterance_json a = ai_utterance_json b \<longleftrightarrow> a = b"
  by (cases a; cases b) (simp add: ai_utterance_json_def)

lemma unit_json_eq [simp]: "unit_json a = unit_json b \<longleftrightarrow> a = b"
  by (cases a; cases b) (simp add: unit_json_def)

lemma phonetic_json_eq [simp]: "phonetic_json a = phonetic_json b \<longleftrightarrow> a = b"
  by (cases a; cases b) (simp add: phonetic_json_def map_eq_map)

lemma timeless_word_eq:
  "w\<lparr>tw_start := 0, tw_end := 0, tw_confidence := None\<rparr> = v\<lparr>tw_start := 0, tw_end := 0, tw_confidence := None\<rparr> \<longleftrightarrow>
   tw_text w = tw_text v" for w v :: timed_word
  by (cases w; cases v) simp

lemma fa_utterance_key_eq: "fa_utterance_key a = fa_utterance_key b \<longleftrightarrow> without_times a = without_times b"
  by (cases a; cases b)
    (simp add: fa_utterance_key_def without_times_def map_eq_iff [where f = tw_text, OF timeless_word_eq [symmetric]])

lemma ai_key_eq:
  "ai_key a = ai_key b \<longleftrightarrow> a\<lparr>aj_source_id := []\<rparr> = b\<lparr>aj_source_id := []\<rparr>"
  by (cases a; cases b) (simp add: ai_key_def map_eq_map)

lemma asr_key_eq:
  assumes "inj (ke_base64 K)"
  shows "asr_key K a = asr_key K b \<longleftrightarrow> a\<lparr>aq_source_id := []\<rparr> = b\<lparr>aq_source_id := []\<rparr>"
  by (cases a; cases b) (simp add: asr_key_def audio_json_eq [OF assms])

lemma fa_key_eq:
  assumes "inj (ke_base64 K)"
  shows "fa_key K a = fa_key K b \<longleftrightarrow> a\<lparr>fi_source_id := [], fi_utterances := map without_times (fi_utterances a)\<rparr> = b\<lparr>fi_source_id := [], fi_utterances := map without_times (fi_utterances b)\<rparr>"
  by (cases a; cases b) (simp add: fa_key_def audio_json_eq [OF assms] map_eq_iff [OF fa_utterance_key_eq])

lemma phonetic_key_eq:
  assumes "inj (ke_base64 K)"
  shows "phonetic_key K a = phonetic_key K b \<longleftrightarrow> a\<lparr>pq_source_id := []\<rparr> = b\<lparr>pq_source_id := []\<rparr>"
  by (cases a; cases b) (simp add: phonetic_key_def audio_json_eq [OF assms] map_eq_map)

lemma speaker_key_eq:
  assumes "inj (ke_base64 K)"
  shows "speaker_key K a = speaker_key K b \<longleftrightarrow> a\<lparr>sq_source_id := []\<rparr> = b\<lparr>sq_source_id := []\<rparr>"
  by (cases a; cases b) (simp add: speaker_key_def audio_json_eq [OF assms])

lemma utseg_key_eq:
  "utseg_key a = utseg_key b \<longleftrightarrow> UtsegRunner.ui_source_id_update (\<lambda>_. []) a = UtsegRunner.ui_source_id_update (\<lambda>_. []) b"
  by (cases a; cases b) (simp add: utseg_key_def map_eq_map)

lemma mor_key_eq:
  "mor_key a = mor_key b \<longleftrightarrow> a\<lparr>mx_source_id := [], mx_utterance_id := 0\<rparr> = b\<lparr>mx_source_id := [], mx_utterance_id := 0\<rparr>"
  by (cases a; cases b) (simp add: mor_key_def)

lemma translate_key_eq:
  "translate_key a = translate_key b \<longleftrightarrow> a\<lparr>tr_source_id := []\<rparr> = b\<lparr>tr_source_id := []\<rparr>"
  by (cases a; cases b) (simp add: translate_key_def)

lemma coref_key_eq:
  "coref_key a = coref_key b \<longleftrightarrow> TierRunners.co_source_id_update (\<lambda>_. []) a = TierRunners.co_source_id_update (\<lambda>_. []) b"
  by (cases a; cases b) (simp add: coref_key_def)

lemma compare_key_eq:
  "compare_key a = compare_key b \<longleftrightarrow> a\<lparr>ci_source_id := []\<rparr> = b\<lparr>ci_source_id := []\<rparr>"
  by (cases a; cases b) (simp add: compare_key_def)

lemma convert_key_eq:
  assumes "inj (ke_base64 K)"
  shows "convert_key K a = convert_key K b \<longleftrightarrow> a\<lparr>cq_source_id := []\<rparr> = b\<lparr>cq_source_id := []\<rparr>"
  by (cases a; cases b) (simp add: convert_key_def audio_json_eq [OF assms])

lemmas key_eq = ai_key_eq utseg_key_eq mor_key_eq translate_key_eq coref_key_eq compare_key_eq

text \<open>Within one task the view determines the computation, and the computation the view.\<close>

lemma key_view_computation:
  assumes "inj (ke_base64 K)" and "request_task r = request_task r'"
  shows "key_view K r = key_view K r' \<longleftrightarrow> computation r = computation r'"
  using assms(2)
  by (cases r; cases r') (simp_all add: key_eq asr_key_eq [OF assms(1)] fa_key_eq [OF assms(1)] phonetic_key_eq [OF assms(1)] speaker_key_eq [OF assms(1)] convert_key_eq [OF assms(1)])

lemma computation_task: "computation r = computation r' \<Longrightarrow> request_task r = request_task r'"
  by (cases r; cases r') simp_all

lemma request_bytes_eq:
  assumes "request_task r = request_task r'" and "ke_to_vec K (key_view K r) \<noteq> None" and "ke_to_vec K (key_view K r') \<noteq> None"
  shows "request_bytes K r = request_bytes K r' \<longleftrightarrow> ke_to_vec K (key_view K r) = ke_to_vec K (key_view K r')"
  using assms by (cases r; cases r') (auto simp: hash_serialized_def utr_bytes_def)

text \<open>The task can be read off the hashed text: no name of a task has a bar in it.\<close>

lemma append_bar_eq:
  assumes "c \<notin> set x" and "c \<notin> set y"
  shows "x @ c # s = y @ c # s' \<longleftrightarrow> x = y \<and> s = s'"
  using assms
proof (induction x arbitrary: y)
  case Nil
  then show ?case by (cases y) auto
next
  case (Cons d x)
  then show ?case by (cases y) auto
qed

lemma task_debug_no_bar: "124 \<notin> set (task_debug t)"
  by (cases t) (simp_all add: str_def)

lemma task_debug_eq: "task_debug t = task_debug t' \<longleftrightarrow> t = t'"
  by (cases t; cases t') (simp_all add: str_def)

lemma hashed_text_eq:
  "hashed_text K E backend r = hashed_text K E backend r' \<longleftrightarrow>
   request_task r = request_task r' \<and> request_bytes K r = request_bytes K r'"
proof -
  have bar: "str ''|'' = [124]" by (simp add: str_def)
  show ?thesis
    by (simp add: hashed_text_def key_namespace_def bar append_bar_eq task_debug_no_bar task_debug_eq)
qed

text \<open>Requests for the same computation share their key, whatever the writer and the hash do.\<close>

lemma fa_utterance_key_without_times [simp]: "fa_utterance_key (without_times s) = fa_utterance_key s"
  by (simp add: fa_utterance_key_eq [symmetric] fa_utterance_key_def without_times_def comp_def)

lemma request_bytes_computation: "request_bytes K (computation r) = request_bytes K r"
  by (cases r)
    (simp_all add: utr_bytes_def ai_key_def asr_key_def fa_key_def phonetic_key_def speaker_key_def utseg_key_def
       mor_key_def translate_key_def coref_key_def compare_key_def convert_key_def comp_def)

lemma same_computation_same_key:
  assumes "keyed_by K E" and "computation r = computation r'"
  shows "request_key E backend r = request_key E backend r'"
proof -
  have "request_bytes K r = request_bytes K r'"
    using request_bytes_computation [of K r] request_bytes_computation [of K r'] assms(2) by simp
  then have "hashed_text K E backend r = hashed_text K E backend r'"
    by (simp add: hashed_text_eq computation_task [OF assms(2)])
  then show ?thesis by (simp add: request_key_hashed [OF assms(1)])
qed

text \<open>
  So an answer computed for one file is found for another with the same texts, and the times that forced alignment writes back
  do not hide the answer of an earlier run.
\<close>

lemma compare_key_ignores_source:
  "keyed_by K E \<Longrightarrow> request_key E backend (CompareRequest (i\<lparr>ci_source_id := s\<rparr>)) = request_key E backend (CompareRequest i)"
  by (rule same_computation_same_key) simp_all

lemma fa_key_ignores_timing:
  assumes "keyed_by K E"
    and "map (\<lambda>u. (sg_text u, sg_speaker u, map tw_text (sg_words u))) us =
      map (\<lambda>u. (sg_text u, sg_speaker u, map tw_text (sg_words u))) (fi_utterances i)"
  shows "request_key E backend (FaRequest (i\<lparr>fi_utterances := us\<rparr>)) = request_key E backend (FaRequest i)"
proof (rule same_computation_same_key [OF assms(1)])
  have view: "(sg_text a, sg_speaker a, map tw_text (sg_words a)) = (sg_text b, sg_speaker b, map tw_text (sg_words b)) \<longleftrightarrow>
      without_times a = without_times b" for a b :: segment
    by (cases a; cases b) (simp add: without_times_def map_eq_iff [where f = tw_text, OF timeless_word_eq [symmetric]])
  show "computation (FaRequest (i\<lparr>fi_utterances := us\<rparr>)) = computation (FaRequest i)"
    using assms(2) map_eq_iff [where g = without_times, OF view] by simp
qed

text \<open>C40: The result cache identifies computations. Two requests for one backend share their key iff they ask for the same
  computation: the same task on the same content, whatever file they come from, whatever utterance slot a morphosyntax request names and
  whatever earlier timing one of forced alignment carries (the utterance index of the edits and of phonetics is content). BLAKE3 and the JSON writer are only asked to tell the texts of the requests at hand apart.\<close>

theorem cache_key_is_computation:
  assumes keyed: "keyed_by K E" and base64: "inj (ke_base64 K)"
    and written: "\<forall>r\<in>R. ke_to_vec K (key_view K r) \<noteq> None"
    and writer: "inj_on (ke_to_vec K) (key_view K ` R)"
    and hash: "inj_on (ce_hash E) (hashed_text K E backend ` R)"
    and r: "r \<in> R" "r' \<in> R"
  shows "request_key E backend r = request_key E backend r' \<longleftrightarrow> computation r = computation r'"
proof
  assume "request_key E backend r = request_key E backend r'"
  then have "hashed_text K E backend r = hashed_text K E backend r'"
    unfolding request_key_hashed [OF keyed] using inj_on_eq_iff [OF hash] r by blast
  then have t: "request_task r = request_task r'" and b: "request_bytes K r = request_bytes K r'"
    by (simp_all add: hashed_text_eq)
  have "ke_to_vec K (key_view K r) = ke_to_vec K (key_view K r')"
    using b request_bytes_eq [OF t] written r by blast
  then have "key_view K r = key_view K r'" using inj_on_eq_iff [OF writer] r by blast
  then show "computation r = computation r'" using key_view_computation [OF base64 t] by blast
next
  assume "computation r = computation r'"
  then show "request_key E backend r = request_key E backend r'" by (rule same_computation_same_key [OF keyed])
qed

text \<open>Four requests: one text from two files, another text, and two tasks on one recording.\<close>

definition sample_keys :: key_env where
  "sample_keys = \<lparr>ke_base64 = map uint,
     ke_to_vec = (\<lambda>v. Some (case v of VObject ((_, VStr s) # _) \<Rightarrow> s | _ \<Rightarrow> []))\<rparr>"

definition sample_cache :: "(request, unit) cache_env" where
  "sample_cache = \<lparr>ce_hash = (\<lambda>s. s), ce_build = [], ce_input_bytes = (\<lambda>i. request_bytes sample_keys (ti_payload i)),
     ce_serialize = (\<lambda>_. None), ce_deserialize = (\<lambda>_. None)\<rparr>"

definition sample_compare :: "rstr \<Rightarrow> rstr \<Rightarrow> request" where
  "sample_compare source main = CompareRequest \<lparr>ci_source_id = source, ci_main_chat = main, ci_gold_chat = []\<rparr>"

definition sample_asr :: asr_request where
  "sample_asr = \<lparr>aq_source_id = [], aq_audio = \<lparr>pa_pcm = [], pa_sample_rate = 16000, pa_channels = 1, pa_frame_count = 0\<rparr>,
     aq_language = LangAuto, aq_options = \<lparr>ao_num_speakers = 0, ao_prompt = None, ao_extras = VNull\<rparr>\<rparr>"

theorem cache_key_is_computation_witness:
  "request_key sample_cache [] (sample_compare [97] [1]) = request_key sample_cache [] (sample_compare [98] [1]) \<and>
   request_key sample_cache [] (sample_compare [97] [1]) \<noteq> request_key sample_cache [] (sample_compare [97] [2]) \<and>
   request_key sample_cache [] (AsrRequest sample_asr) \<noteq> request_key sample_cache [] (UtrRequest sample_asr)"
proof -
  define R where "R = {sample_compare [97] [1], sample_compare [98] [1], sample_compare [97] [2],
    AsrRequest sample_asr, UtrRequest sample_asr}"
  have "keyed_by sample_keys sample_cache" by (simp add: keyed_by_def sample_cache_def task_request_def)
  moreover have "inj (ke_base64 sample_keys)"
  proof -
    have "inj (uint :: u8 \<Rightarrow> int)" by (simp add: inj_def word_uint_eq_iff)
    then show ?thesis by (simp add: sample_keys_def inj_mapI)
  qed
  moreover have "\<forall>r\<in>R. ke_to_vec sample_keys (key_view sample_keys r) \<noteq> None" by (simp add: sample_keys_def)
  moreover have "inj_on (ke_to_vec sample_keys) (key_view sample_keys ` R)"
    by (simp add: R_def sample_keys_def sample_compare_def sample_asr_def compare_key_def asr_key_def audio_json_def)
  moreover have "inj_on (ce_hash sample_cache) (hashed_text sample_keys sample_cache [] ` R)"
    by (simp add: sample_cache_def inj_on_def)
  ultimately have key: "request_key sample_cache [] r = request_key sample_cache [] r' \<longleftrightarrow> computation r = computation r'"
    if "r \<in> R" "r' \<in> R" for r r'
    using that by (rule cache_key_is_computation)
  show ?thesis by (simp add: key R_def) (simp add: sample_compare_def)
qed

end
