(* ===== verification/CompareBackend.thy ===== *)
theory CompareBackend
  imports CompareReport Engine StageGates
begin

text \<open>
  The comparison as a backend of the engine: \<open>parse_chat\<close>, the construction and \<open>call\<close> of \<^verbatim>\<open>backends/compare.rs\<close>
  around the pair algorithm of \<open>CompareReport\<close>. The document crate is the record of \<open>StageGates\<close>.
\<close>

section \<open>Parsing\<close>

text \<open>
  The validator's messages are joined as they are; a document that a runner parses has a line break before them
  (\<open>parse_error\<close>). \<open>validate_into\<close> only reports to a collector that is dropped.
\<close>

fun compare_parse_error :: "transform_error \<Rightarrow> ba_error" where
  "compare_parse_error (TransformParse errs) = ParseError errs"
| "compare_parse_error (TransformValidation errs) = ValidationError (join [10] errs)"
| "compare_parse_error (TransformOther other) = InternalError (str ''pipeline: '' @ other)"

definition parse_lenient :: "cmp_utterance doc_crate \<Rightarrow> rstr \<Rightarrow> cmp_utterance line list ba_result" where
  "parse_lenient D input = map_err compare_parse_error (dc_parse D False input)"

section \<open>The backend\<close>

fun compare_call :: "(compare_input \<Rightarrow> compare_output ba_result) \<Rightarrow> compare_input task_input list \<Rightarrow>
    compare_output task_output list ba_result" where
  "compare_call one [] = Inr []"
| "compare_call one (input # batch) =
     (if ti_task input \<noteq> Compare
      then Inl (InternalError (str ''CompareBackend received non-Compare input: '' @ task_debug (ti_task input)))
      else bind_res (one (ti_payload input)) (\<lambda>out.
           bind_res (compare_call one batch) (\<lambda>outputs. Inr (\<lparr>to_task = Compare, to_payload = out\<rparr> # outputs))))"

definition compare_backend :: "(ba_error \<Rightarrow> rstr) \<Rightarrow> (compare_input \<Rightarrow> compare_output ba_result) \<Rightarrow>
    (compare_input, compare_output) backend" where
  "compare_backend error_text' one =
     \<lparr>be_name = str ''compare:rust:v3.2'', be_tasks = [Compare], be_max_size = 32,
      be_call = (\<lambda>batch progress. Returned (compare_call one batch)), be_error_text = error_text'\<rparr>"

text \<open>The pair algorithm with the parser and the writer of the document crate.\<close>

definition compare_pair :: "unicode \<Rightarrow> (rstr \<Rightarrow> bool) \<Rightarrow> (rat \<Rightarrow> rstr) \<Rightarrow> (ba_error \<Rightarrow> rstr) \<Rightarrow> cmp_utterance doc_crate \<Rightarrow>
    compare_input \<Rightarrow> compare_output ba_result" where
  "compare_pair U ne_ok fmt4 error_text' D input =
     compare_one U ne_ok fmt4 (parse_lenient D) (dc_to_chat D) error_text' input"

section \<open>Lemmas\<close>

text \<open>A batch that succeeds is answered pair by pair and in order.\<close>

lemma compare_call_Inr:
  "compare_call one batch = Inr outputs \<Longrightarrow>
     list_all2 (\<lambda>input out. ti_task input = Compare \<and> to_task out = Compare \<and> one (ti_payload input) = Inr (to_payload out))
       batch outputs"
  by (induction batch arbitrary: outputs) (auto simp: bind_res_Inr_iff split: if_splits)

text \<open>A batch fails with the error of its first bad pair, whatever comes after it.\<close>

lemma compare_call_first_error:
  assumes "list_all (\<lambda>input. ti_task input = Compare \<and> (\<exists>out. one (ti_payload input) = Inr out)) good"
    and "ti_task bad = Compare" and "one (ti_payload bad) = Inl e"
  shows "compare_call one (good @ bad # later) = Inl e"
  using assms(1) by (induction good) (auto simp: assms(2,3) bind_res_Inl_iff)

text \<open>So the batcher never sees a batch of the wrong length from this backend, and one bad document fails its whole batch.\<close>

lemma compare_batch_replies:
  assumes "distribute E (compare_backend et one) fresh (be_call (compare_backend et one) (map bi_input fresh) p) c = (replies, c')"
  shows "(\<exists>e. compare_call one (map bi_input fresh) = Inl e \<and> replies = fail_all (str ''backend error: '' @ et e) fresh \<and> c' = c) \<or>
    list_all2 (\<lambda>it (i, answer). i = bi_id it \<and>
      (\<exists>out. answer = Inr \<lparr>to_task = Compare, to_payload = out\<rparr> \<and> one (ti_payload (bi_input it)) = Inr out)) fresh replies"
proof (cases "compare_call one (map bi_input fresh)")
  case (Inl e)
  with assms show ?thesis by (simp add: distribute_def compare_backend_def)
next
  case (Inr outputs)
  from compare_call_Inr [OF this] have all2: "list_all2 (\<lambda>it out. to_task out = Compare \<and>
      one (ti_payload (bi_input it)) = Inr (to_payload out)) fresh outputs"
    by (auto simp: list_all2_map1 elim: list_all2_mono)
  then have "length outputs = length fresh" by (simp add: list_all2_lengthD)
  with Inr assms have "replies = map (\<lambda>(it, out). (bi_id it, Inr out)) (zip fresh outputs)"
    by (simp add: distribute_def compare_backend_def)
  with all2 show ?thesis
    by (auto simp: list_all2_conv_all_nth intro!: task_output.equality)
qed

end
