(* ===== verification/DesktopDaemon.thy ===== *)
theory DesktopDaemon
  imports NumTable SortedMap
begin

text \<open>
  The desktop application (\<^verbatim>\<open>src/apps/batchalign/batchalign-gui/src-tauri/src/\<close>), the parts without a life of their own:
  \<^verbatim>\<open>daemon_protocol.rs\<close> reads the port of the daemon from its output and keeps the tail of it, \<^verbatim>\<open>daemon_http.rs\<close> relays one
  request, and the folder listing of \<^verbatim>\<open>commands.rs\<close> finds the inputs of a recipe. The HTTP client, JSON and the walk over the
  file system are arguments.
\<close>

section \<open>The announcement of the port\<close>

text \<open>\<open>str::split_once\<close>: the text before and after the first occurrence.\<close>

fun split_once :: "rstr \<Rightarrow> rstr \<Rightarrow> (rstr \<times> rstr) option" where
  "split_once p [] = (if p = [] then Some ([], []) else None)"
| "split_once p (c # s) =
     (if starts_with p (c # s) then Some ([], drop (length p) (c # s))
      else map_option (\<lambda>(a, b). (c # a, b)) (split_once p s))"

definition or_else :: "'a option \<Rightarrow> 'a option \<Rightarrow> 'a option" where
  "or_else a b = (case a of None \<Rightarrow> b | Some x \<Rightarrow> Some x)"

definition loopback_rest :: "rstr \<Rightarrow> rstr option" where
  "loopback_rest address =
     (case List.map_filter (\<lambda>host. strip_prefix host address) [str ''127.0.0.1:'', str ''localhost:'', str ''[::1]:''] of
        [] \<Rightarrow> None
      | rest # others \<Rightarrow> Some rest)"

definition uvicorn_port :: "rstr \<Rightarrow> nat option" where
  "uvicorn_port line =
     Option.bind (split_once (str ''Uvicorn running on '') line) (\<lambda>(before, address).
     Option.bind (or_else (strip_prefix (str ''http://'') address) (strip_prefix (str ''https://'') address)) (\<lambda>address.
     Option.bind (loopback_rest address) (\<lambda>rest.
       let digits = takeWhile is_ascii_digit rest; after = dropWhile is_ascii_digit rest in
       if digits = [] \<or> (after \<noteq> [] \<and> \<not> is_whitespace (hd after) \<and> hd after \<noteq> 47) then None
       else parse_unsigned 16 digits)))"

definition parse_port :: "rstr \<Rightarrow> nat option" where
  "parse_port line =
     Option.bind (case strip_prefix (str ''DAEMON_PORT='') line of
         Some rest \<Rightarrow> parse_unsigned 16 (trim rest)
       | None \<Rightarrow> uvicorn_port line)
       (\<lambda>port. if port \<noteq> 0 then Some port else None)"

section \<open>The tail of the output\<close>

definition push_tail :: "rstr list \<Rightarrow> rstr \<Rightarrow> rstr list" where
  "push_tail tail t =
     (let trimmed = trim_end_matches is_whitespace t in
      if trimmed = [] then tail
      else let pushed = tail @ [take 1024 trimmed] in if 40 < length pushed then tl pushed else pushed)"

section \<open>One request\<close>

text \<open>
  \<open>ht_send\<close> is the client: a transport error, or the status with its reason, whether it is a success, and the body. \<open>ht_lossy\<close>
  and \<open>ht_json\<close> read a body as text and as JSON.
\<close>

record ('b, 'j) http_env =
  ht_send :: "rstr \<Rightarrow> nat \<Rightarrow> rstr \<Rightarrow> 'j option \<Rightarrow> rstr + (rstr \<times> bool \<times> 'b list)"
  ht_lossy :: "'b list \<Rightarrow> rstr"
  ht_json :: "'b list \<Rightarrow> rstr + 'j"
  ht_null :: 'j

definition http_methods :: "rstr list" where
  "http_methods = [str ''GET'', str ''POST'', str ''PUT'', str ''DELETE'']"

definition http_request :: "('b, 'j) http_env \<Rightarrow> nat \<Rightarrow> rstr \<Rightarrow> rstr \<Rightarrow> 'j option \<Rightarrow> rstr + 'j" where
  "http_request H port method path body =
     (if \<not> starts_with (str ''/'') path \<or> starts_with (str ''//'') path
      then Inl (str ''daemon request path must start with a single /'')
      else if \<not> mem method http_methods then Inl (str ''unsupported method '' @ method)
      else case ht_send H method port path body of
          Inl e \<Rightarrow> Inl (method @ str '' '' @ path @ str '': '' @ e)
        | Inr (status, success, bytes) \<Rightarrow>
            if \<not> success then Inl (method @ str '' '' @ path @ [32, 8594, 32] @ status @ str '': '' @ ht_lossy H bytes)
            else if bytes = [] then Inr (ht_null H)
            else case ht_json H bytes of Inl e \<Rightarrow> Inl (str ''invalid JSON from daemon: '' @ e) | Inr j \<Rightarrow> Inr j)"

section \<open>The inputs in a folder\<close>

datatype file_kind = MediaFiles | ChatFiles | PairedFiles | AnyFiles

text \<open>An entry of the walk: whether it is a file, its path below the folder, its name if it is text, and its size.\<close>

record walk_entry =
  we_is_file :: bool
  we_relative :: rstr
  we_name :: "rstr option"
  we_size :: "rstr + nat"

record folder_file =
  ff_source_id :: rstr
  ff_stem :: rstr
  ff_filename :: rstr
  ff_size :: nat
  ff_chat :: bool

definition AUDIO_EXTS :: "rstr list" where
  "AUDIO_EXTS = [str ''wav'', str ''mp3'', str ''m4a'', str ''flac'', str ''ogg'', str ''mp4'', str ''mov'', str ''m4v'']"

definition CHAT_EXTS :: "rstr list" where
  "CHAT_EXTS = [str ''cha'', str ''chat'']"

text \<open>\<open>Some True\<close> for a transcript, \<open>Some False\<close> for a recording, \<open>None\<close> for what is skipped.\<close>

definition entry_kind :: "walk_entry \<Rightarrow> bool option" where
  "entry_kind e =
     (if \<not> we_is_file e \<or> (case we_name e of Some n \<Rightarrow> starts_with (str ''.'') n | None \<Rightarrow> False) then None
      else
        let ext = (case Option.bind (we_name e) file_extension of Some x \<Rightarrow> to_ascii_lowercase x | None \<Rightarrow> [])
        in if mem ext AUDIO_EXTS then Some False else if mem ext CHAT_EXTS then Some True else None)"

definition entry_file :: "walk_entry \<Rightarrow> nat \<Rightarrow> bool \<Rightarrow> folder_file" where
  "entry_file e nbytes chat =
     \<lparr>ff_source_id = we_relative e, ff_stem = (case we_name e of Some n \<Rightarrow> file_stem n | None \<Rightarrow> []),
      ff_filename = (case we_name e of Some n \<Rightarrow> n | None \<Rightarrow> []), ff_size = nbytes, ff_chat = chat\<rparr>"

fun scan_entries :: "walk_entry list \<Rightarrow> folder_file list \<Rightarrow> rstr + folder_file list" where
  "scan_entries [] found = Inr found"
| "scan_entries (e # entries) found =
     (case entry_kind e of
        None \<Rightarrow> scan_entries entries found
      | Some chat \<Rightarrow> (case we_size e of Inl m \<Rightarrow> Inl m | Inr nbytes \<Rightarrow> scan_entries entries (found @ [entry_file e nbytes chat])))"

definition select_files :: "file_kind \<Rightarrow> folder_file list \<Rightarrow> folder_file list" where
  "select_files kind files =
     (case kind of
        AnyFiles \<Rightarrow> files
      | MediaFiles \<Rightarrow> filter (\<lambda>f. \<not> ff_chat f) files
      | ChatFiles \<Rightarrow> filter ff_chat files
      | PairedFiles \<Rightarrow>
          let media_stems = map ff_stem (filter (\<lambda>f. \<not> ff_chat f) files); chat_stems = map ff_stem (filter ff_chat files)
          in filter (\<lambda>f. mem (ff_stem f) media_stems \<and> mem (ff_stem f) chat_stems) files)"

definition list_folder_files :: "bool \<Rightarrow> rstr \<Rightarrow> walk_entry list \<Rightarrow> file_kind option \<Rightarrow> rstr + folder_file list" where
  "list_folder_files is_dir path entries kind =
     (if \<not> is_dir then Inl (str ''not a directory: '' @ path)
      else bind_res (scan_entries entries []) (\<lambda>all.
        Inr (select_files (case kind of Some k \<Rightarrow> k | None \<Rightarrow> AnyFiles) (sort_key ff_source_id all))))"

section \<open>What is announced is understood\<close>

lemma trim_digits: "list_all is_ascii_digit s \<Longrightarrow> trim s = s"
proof -
  assume d: "list_all is_ascii_digit s"
  have none: "\<not> is_whitespace c" if "is_ascii_digit c" for c
    using that by (auto simp: is_ascii_digit_def is_whitespace_def)
  have "dropWhile is_whitespace t = t" if "list_all is_ascii_digit t" for t
    using that none by (cases t) auto
  then show "trim s = s"
    using d by (simp add: trim_def trim_matches_def trim_start_matches_def trim_end_matches_def list_all_iff)
qed

lemma parse_unsigned_bound: "parse_unsigned w s = Some n \<Longrightarrow> n < 2 ^ w"
  by (auto simp: parse_unsigned_def Let_def split: if_splits)

lemma parse_port_range: "parse_port line = Some p \<Longrightarrow> 0 < p \<and> p < 65536"
  using parse_unsigned_bound [where w = 16]
  by (fastforce simp: parse_port_def uvicorn_port_def Let_def bind_eq_Some_conv split: option.splits if_splits)

lemma parse_port_announced: "parse_port (str ''DAEMON_PORT='' @ nat_to_string p) = (if 0 < p \<and> p < 65536 then Some p else None)"
proof -
  have strip: "strip_prefix (str ''DAEMON_PORT='') (str ''DAEMON_PORT='' @ s) = Some s" for s
    by (simp add: strip_prefix_def starts_with_append)
  have "parse_unsigned 16 (nat_to_string p) = (if p < 65536 then Some p else None)"
    using parse_to_string [of p 16] digits_value_to_string [of p] nat_to_string_digits [of p]
    by (cases "nat_to_string p") (auto simp: parse_unsigned_def Let_def is_ascii_digit_def)
  then show ?thesis using nat_to_string_digits [of p] unfolding parse_port_def strip by (simp add: trim_digits)
qed

text \<open>Every port a daemon can announce is understood and nothing else is taken for one: the announcement of a number is
  read as that number exactly when it is a TCP port that is not 0, and whatever the line, a port that is read is
  between 1 and 65535.\<close>

lemma parse_port_correct:
  "parse_port (str ''DAEMON_PORT='' @ nat_to_string p) = (if 0 < p \<and> p < 65536 then Some p else None) \<and>
   (case parse_port line of Some q \<Rightarrow> 0 < q \<and> q < 65536 | None \<Rightarrow> True)"
  using parse_port_announced [of p] parse_port_range [of line] by (simp split: option.split)

lemma push_tail_bounded:
  "length tail \<le> 40 \<Longrightarrow> list_all (\<lambda>l. l \<noteq> [] \<and> length l \<le> 1024) tail \<Longrightarrow>
   length (push_tail tail t) \<le> 40 \<and> list_all (\<lambda>l. l \<noteq> [] \<and> length l \<le> 1024) (push_tail tail t)"
  by (cases tail) (auto simp: push_tail_def Let_def)

lemma tail_bounded:
  "length (fold (\<lambda>t tail. push_tail tail t) output_lines []) \<le> 40 \<and>
   list_all (\<lambda>l. l \<noteq> [] \<and> length l \<le> 1024) (fold (\<lambda>t tail. push_tail tail t) output_lines [])"
proof -
  have "length tail \<le> 40 \<and> list_all (\<lambda>l. l \<noteq> [] \<and> length l \<le> 1024) tail \<Longrightarrow>
      length (fold (\<lambda>t tail. push_tail tail t) ls tail) \<le> 40 \<and>
      list_all (\<lambda>l. l \<noteq> [] \<and> length l \<le> 1024) (fold (\<lambda>t tail. push_tail tail t) ls tail)" for ls tail
    by (induction ls arbitrary: tail) (simp_all add: push_tail_bounded)
  then show ?thesis by simp
qed

section \<open>What a listing holds\<close>

definition listed_as :: "folder_file \<Rightarrow> walk_entry \<Rightarrow> bool" where
  "listed_as f e \<longleftrightarrow> ff_source_id f = we_relative e \<and> entry_kind e = Some (ff_chat f)"

lemma scan_entries_files:
  "scan_entries entries found = Inr all \<Longrightarrow>
   \<exists>more. all = found @ more \<and> list_all2 listed_as more (filter (\<lambda>e. entry_kind e \<noteq> None) entries)"
proof (induction entries arbitrary: found)
  case (Cons e entries)
  show ?case
  proof (cases "entry_kind e")
    case None
    then show ?thesis using Cons by simp
  next
    case (Some chat)
    then obtain n where n: "we_size e = Inr n" using Cons.prems by (cases "we_size e") auto
    then obtain more where more: "all = (found @ [entry_file e n chat]) @ more"
        "list_all2 listed_as more (filter (\<lambda>e. entry_kind e \<noteq> None) entries)"
      using Cons.IH [of "found @ [entry_file e n chat]"] Cons.prems Some by auto
    have "all = found @ entry_file e n chat # more" using more(1) by simp
    moreover have "listed_as (entry_file e n chat) e" using Some by (simp add: listed_as_def entry_file_def)
    ultimately show ?thesis using more(2) Some by (intro exI [of _ "entry_file e n chat # more"]) simp
  qed
qed simp

lemma select_files_paired:
  "f \<in> set (select_files PairedFiles files) \<longleftrightarrow> f \<in> set files \<and>
     (\<exists>m \<in> set files. \<not> ff_chat m \<and> ff_stem m = ff_stem f) \<and> (\<exists>c \<in> set files. ff_chat c \<and> ff_stem c = ff_stem f)"
  by (force simp: select_files_def Let_def image_iff)

lemma select_files_sorted: "sorted (map ff_source_id files) \<Longrightarrow> sorted (map ff_source_id (select_files kind files))"
  by (cases kind) (simp_all add: select_files_def Let_def sorted_filter)

end
