(* ===== verification/DesktopLife.thy ===== *)
theory DesktopLife
  imports DesktopDaemon
begin

text \<open>
  The desktop application, the parts with a life of their own: \<^verbatim>\<open>state.rs\<close> and \<^verbatim>\<open>daemon.rs\<close> start one daemon, watch it and
  report its failure; \<^verbatim>\<open>events.rs\<close> relays the progress of a batch through one pump at a time. The threads are steps of a
  relation: each step is what one task does between two points where another can run.
\<close>

section \<open>Pumps\<close>

text \<open>The identity of a pump is a fresh number; \<open>pt_cancelled\<close> lists the pumps that were sent the cancellation.\<close>

record pump_table =
  pt_slots :: "rstr \<rightharpoonup> nat"
  pt_next :: nat
  pt_cancelled :: "nat list"

definition register_pump :: "rstr \<Rightarrow> pump_table \<Rightarrow> nat \<times> pump_table" where
  "register_pump batch T =
     (pt_next T, T\<lparr>pt_slots := (pt_slots T)(batch \<mapsto> pt_next T), pt_next := Suc (pt_next T),
        pt_cancelled := pt_cancelled T @ (case pt_slots T batch of Some previous \<Rightarrow> [previous] | None \<Rightarrow> [])\<rparr>)"

definition finish_pump :: "rstr \<Rightarrow> nat \<Rightarrow> pump_table \<Rightarrow> pump_table" where
  "finish_pump batch identity T =
     (if pt_slots T batch = Some identity then T\<lparr>pt_slots := (pt_slots T)(batch := None)\<rparr> else T)"

datatype pump_op = RegisterPump rstr | FinishPump rstr nat

fun pump_step :: "pump_op \<Rightarrow> pump_table \<Rightarrow> pump_table" where
  "pump_step (RegisterPump batch) T = snd (register_pump batch T)"
| "pump_step (FinishPump batch identity) T = finish_pump batch identity T"

definition no_pumps :: pump_table where
  "no_pumps = \<lparr>pt_slots = Map.empty, pt_next = 0, pt_cancelled = []\<rparr>"

definition pumps_ok :: "pump_table \<Rightarrow> bool" where
  "pumps_ok T \<longleftrightarrow> inj_on (pt_slots T) (dom (pt_slots T)) \<and> distinct (pt_cancelled T) \<and>
     ran (pt_slots T) \<inter> set (pt_cancelled T) = {} \<and> ran (pt_slots T) \<union> set (pt_cancelled T) \<subseteq> {..<pt_next T}"

lemma pumps_okI:
  assumes "\<And>a b i. pt_slots T a = Some i \<Longrightarrow> pt_slots T b = Some i \<Longrightarrow> a = b" and "distinct (pt_cancelled T)"
    and "\<And>a i. pt_slots T a = Some i \<Longrightarrow> i \<notin> set (pt_cancelled T) \<and> i < pt_next T"
    and "\<And>i. i \<in> set (pt_cancelled T) \<Longrightarrow> i < pt_next T"
  shows "pumps_ok T"
  using assms unfolding pumps_ok_def inj_on_def dom_def ran_def by auto

lemma pumps_okD:
  assumes "pumps_ok T"
  shows "pt_slots T a = Some i \<Longrightarrow> pt_slots T b = Some i \<Longrightarrow> a = b" "distinct (pt_cancelled T)"
    "pt_slots T a = Some i \<Longrightarrow> i \<notin> set (pt_cancelled T) \<and> i < pt_next T" "i \<in> set (pt_cancelled T) \<Longrightarrow> i < pt_next T"
  using assms unfolding pumps_ok_def inj_on_def dom_def ran_def by auto

lemma register_pump_simps:
  "pt_slots (snd (register_pump batch T)) = (pt_slots T)(batch \<mapsto> pt_next T)"
  "pt_next (snd (register_pump batch T)) = Suc (pt_next T)"
  "pt_cancelled (snd (register_pump batch T)) =
     pt_cancelled T @ (case pt_slots T batch of Some previous \<Rightarrow> [previous] | None \<Rightarrow> [])"
  by (simp_all add: register_pump_def)

lemma register_pump_ok:
  assumes "pumps_ok T"
  shows "pumps_ok (snd (register_pump batch T))"
proof (rule pumps_okI; (unfold register_pump_simps)?)
  note d = pumps_okD [OF assms]
  show "distinct (pt_cancelled T @ (case pt_slots T batch of Some previous \<Rightarrow> [previous] | None \<Rightarrow> []))"
    using d(2) d(3) [of batch] by (auto split: option.split)
  show "i < Suc (pt_next T)" if "i \<in> set (pt_cancelled T @ (case pt_slots T batch of Some previous \<Rightarrow> [previous] | None \<Rightarrow> []))" for i
    using that d(3) [of batch i] d(4) [of i] by (auto simp: less_Suc_eq split: option.splits)
  show "i \<notin> set (pt_cancelled T @ (case pt_slots T batch of Some previous \<Rightarrow> [previous] | None \<Rightarrow> [])) \<and> i < Suc (pt_next T)"
    if "((pt_slots T)(batch \<mapsto> pt_next T)) a = Some i" for a i
  proof (cases "a = batch")
    case True
    then have "i = pt_next T" using that by simp
    then show ?thesis using d(3) [of batch i] d(4) [of i] by (auto split: option.splits)
  next
    case False
    then have "pt_slots T a = Some i" using that by simp
    then show ?thesis using False d(1) [of a i batch] d(3) [of a i] by (auto split: option.splits)
  qed
  show "a = b" if "((pt_slots T)(batch \<mapsto> pt_next T)) a = Some i" "((pt_slots T)(batch \<mapsto> pt_next T)) b = Some i" for a b i
    using that d(1) [of a i b] d(3) [of a i] d(3) [of b i] by (auto split: if_splits)
qed

lemma finish_pump_ok: "pumps_ok T \<Longrightarrow> pumps_ok (finish_pump batch identity T)"
  by (rule pumps_okI) (auto simp: finish_pump_def dest: pumps_okD split: if_splits)

lemma pump_run_ok: "pumps_ok T \<Longrightarrow> pumps_ok (fold pump_step ops T)"
proof (induction ops arbitrary: T)
  case (Cons op ops)
  then show ?case by (cases op) (simp_all add: register_pump_ok finish_pump_ok)
qed simp

lemma finish_cancelled: "pumps_ok T \<Longrightarrow> set is \<subseteq> set (pt_cancelled T) \<Longrightarrow> fold (finish_pump batch) is T = T"
proof (induction "is")
  case (Cons i "is")
  then have "pt_slots T batch \<noteq> Some i" using pumps_okD(3) [of T batch i] by auto
  then have "finish_pump batch i T = T" by (simp add: finish_pump_def)
  then show ?case using Cons by simp
qed simp

text \<open>One pump at a time relays a batch: after any registrations and clean-ups, in any order and with any identities, no two
  batches share a pump, a pump is cancelled at most once and never while it is the current one, and the clean-up of
  every replaced pump, however late, changes nothing.\<close>

lemma pumps_replace_cleanly:
  "pumps_ok (fold pump_step ops no_pumps) \<and>
   fold (finish_pump batch) (pt_cancelled (fold pump_step ops no_pumps)) (fold pump_step ops no_pumps) = fold pump_step ops no_pumps"
proof -
  have "pumps_ok no_pumps" by (simp add: pumps_ok_def no_pumps_def)
  then have "pumps_ok (fold pump_step ops no_pumps)" by (rule pump_run_ok)
  then show ?thesis using finish_cancelled by blast
qed

section \<open>The state of the application\<close>

text \<open>\<open>as_down\<close> holds the handles whose shutdown was signalled, \<open>as_killed\<close> the processes that were stopped.\<close>

record daemon_handle =
  dh_port :: nat
  dh_id :: nat

record app_state =
  as_daemon :: "daemon_handle option"
  as_spawning :: bool
  as_child :: "nat option"
  as_error :: "rstr option"
  as_down :: "nat set"
  as_killed :: "nat set"

definition new_state :: app_state where
  "new_state = \<lparr>as_daemon = None, as_spawning = False, as_child = None, as_error = None, as_down = {}, as_killed = {}\<rparr>"

definition set_child :: "nat \<Rightarrow> app_state \<Rightarrow> app_state" where
  "set_child c s = s\<lparr>as_child := Some c\<rparr>"

definition stop_child :: "app_state \<Rightarrow> app_state" where
  "stop_child s = (case as_child s of Some c \<Rightarrow> s\<lparr>as_child := None, as_killed := insert c (as_killed s)\<rparr> | None \<Rightarrow> s)"

definition clear_startup_error :: "app_state \<Rightarrow> app_state" where
  "clear_startup_error s = s\<lparr>as_error := None\<rparr>"

text \<open>
  \<open>failed\<close> is four writes that other threads can come between: the reason is recorded, the handle is taken out, the one that
  was there is told to shut down, and the latch is given back.
\<close>

definition record_error :: "rstr \<Rightarrow> app_state \<Rightarrow> app_state" where
  "record_error reason s = s\<lparr>as_error := Some reason\<rparr>"

definition clear_daemon :: "app_state \<Rightarrow> app_state" where
  "clear_daemon s = s\<lparr>as_daemon := None\<rparr>"

definition signal_shutdown :: "nat \<Rightarrow> app_state \<Rightarrow> app_state" where
  "signal_shutdown h s = s\<lparr>as_down := insert h (as_down s)\<rparr>"

definition release_latch :: "app_state \<Rightarrow> app_state" where
  "release_latch s = s\<lparr>as_spawning := False\<rparr>"

definition daemon_port :: "app_state \<Rightarrow> nat option" where
  "daemon_port s = map_option dh_port (as_daemon s)"

definition set_daemon :: "daemon_handle \<Rightarrow> app_state \<Rightarrow> app_state" where
  "set_daemon h s = s\<lparr>as_daemon := Some h\<rparr>"

section \<open>Waiting for the port\<close>

text \<open>
  What the process says: lines, an error, its exit with the rendering of its code, the end of the channel. A poll without an
  event changes nothing and is left out; the end of the list is the deadline.
\<close>

datatype command_event = StdoutLine rstr | StderrLine rstr | CommandFailed rstr | Terminated rstr | ChannelClosed | OtherEvent

datatype daemon_error = SpawnFailed rstr | EarlyExit rstr | PortTimeout rstr

definition daemon_error_text :: "daemon_error \<Rightarrow> rstr" where
  "daemon_error_text e =
     (case e of
        SpawnFailed m \<Rightarrow> str ''failed to spawn sidecar: '' @ m
      | EarlyExit m \<Rightarrow> str ''daemon exited before announcing port: '' @ m
      | PortTimeout m \<Rightarrow> str ''daemon did not announce port within 15 minutes. Last output:'' @ [10] @ m)"

fun wait_for_port :: "command_event list \<Rightarrow> rstr list \<Rightarrow> rstr list \<Rightarrow> (daemon_error + nat) \<times> rstr list" where
  "wait_for_port [] tail progress = (Inl (PortTimeout (join [10] tail)), progress)"
| "wait_for_port (StdoutLine t # events) tail progress =
     (let trimmed = trim t; progress = (if trimmed = [] then progress else progress @ [trimmed]) in
      case parse_port trimmed of
        Some port \<Rightarrow> (Inr port, progress)
      | None \<Rightarrow> wait_for_port events (push_tail tail t) progress)"
| "wait_for_port (StderrLine t # events) tail progress =
     (let trimmed = trim_end_matches is_whitespace t; progress = (if trimmed = [] then progress else progress @ [trimmed]) in
      case parse_port trimmed of
        Some port \<Rightarrow> (Inr port, progress)
      | None \<Rightarrow> wait_for_port events (push_tail tail t) progress)"
| "wait_for_port (CommandFailed e # events) tail progress =
     (Inl (EarlyExit (e @ str ''. last output:'' @ [10] @ join [10] tail)), progress)"
| "wait_for_port (Terminated code # events) tail progress =
     (Inl (EarlyExit (str ''daemon exited (code='' @ code @ str '') before announcing port. last output:'' @ [10] @ join [10] tail)), progress)"
| "wait_for_port (ChannelClosed # events) tail progress =
     (Inl (EarlyExit (str ''stdout closed before announcing port. last output:'' @ [10] @ join [10] tail)), progress)"
| "wait_for_port (OtherEvent # events) tail progress = wait_for_port events tail progress"

lemma wait_for_port_range: "fst (wait_for_port events tail progress) = Inr p \<Longrightarrow> 0 < p \<and> p < 65536"
  by (induction events tail progress rule: wait_for_port.induct)
     (auto simp: Let_def parse_port_range split: option.splits)

section \<open>Asking for the daemon\<close>

datatype ensure_answer = DaemonPort nat | StartupFailed rstr | SpawnDaemon

definition ensure_begin :: "app_state \<Rightarrow> ensure_answer" where
  "ensure_begin s =
     (case daemon_port s of
        Some port \<Rightarrow> DaemonPort port
      | None \<Rightarrow> (case as_error s of Some reason \<Rightarrow> StartupFailed reason | None \<Rightarrow> SpawnDaemon))"

text \<open>The states that the polls of the five seconds find.\<close>

fun ensure_poll :: "app_state list \<Rightarrow> rstr + nat" where
  "ensure_poll [] = Inl (str ''daemon still starting; listen for `daemon-ready`'')"
| "ensure_poll (s # states) =
     (case ensure_begin s of
        DaemonPort port \<Rightarrow> Inr port
      | StartupFailed reason \<Rightarrow> Inl reason
      | SpawnDaemon \<Rightarrow> ensure_poll states)"

lemma ensure_never_retries: "ensure_begin (clear_daemon (record_error reason s)) = StartupFailed reason"
  by (simp add: ensure_begin_def record_error_def clear_daemon_def daemon_port_def)

section \<open>Requests and progress\<close>

text \<open>\<open>interrupted\<close> says that the shutdown is signalled before the answer is there; the signal has priority.\<close>

definition daemon_request :: "('b, 'j) http_env \<Rightarrow> app_state \<Rightarrow> bool \<Rightarrow> rstr \<Rightarrow> rstr \<Rightarrow> 'j option \<Rightarrow> rstr + 'j" where
  "daemon_request H s interrupted method path body =
     (case as_daemon s of
        None \<Rightarrow> Inl (str ''daemon not ready'')
      | Some h \<Rightarrow>
          if dh_id h \<in> as_down s then Inl (str ''daemon stopped'')
          else if interrupted then Inl (str ''daemon stopped during request'')
          else http_request H (dh_port h) method path body)"

datatype sse_event = SseFailed | SseEvent rstr rstr

text \<open>The payloads that are emitted: the progress events whose data is JSON, up to the end, a failure or \<open>done\<close>.\<close>

fun relay_events :: "(rstr \<Rightarrow> 'j option) \<Rightarrow> sse_event list \<Rightarrow> 'j list" where
  "relay_events json [] = []"
| "relay_events json (SseFailed # events) = []"
| "relay_events json (SseEvent name data # events) =
     (if name = str ''done'' then []
      else if name \<noteq> str ''progress'' then relay_events json events
      else (case json data of Some parsed \<Rightarrow> [parsed] | None \<Rightarrow> []) @ relay_events json events)"

section \<open>The life of the daemon\<close>

text \<open>
  A startup task after it has taken the latch: it clears the error, launches the process, registers it, waits for the port,
  registers the daemon, watches the process, and when that ends it stops the process and reports. Every write to the shared
  state is a step of its own. In \<open>Stopping\<close>, \<open>Recording\<close> and \<open>Clearing\<close> the first flag says that the task has registered a
  daemon, the second that it looks once more, after the report, whether a daemon is registered. \<open>Leaving\<close> is that last look:
  \<open>Leaving False\<close> comes from the end of the output and still owns the latch, \<open>Leaving True\<close> comes after a report.
\<close>

datatype startup_task =
    Latched
  | Launching
  | Launched nat
  | Waiting
  | Watching
  | Stopping rstr bool bool
  | Recording rstr bool bool
  | Clearing bool bool
  | Signalling nat bool
  | Unlatching bool
  | Leaving bool

fun holds_latch :: "startup_task \<Rightarrow> bool" where
  "holds_latch (Leaving reported) = (\<not> reported)"
| "holds_latch t = True"

fun has_child :: "startup_task \<Rightarrow> bool" where
  "has_child Waiting = True"
| "has_child Watching = True"
| "has_child (Stopping reason d look) = True"
| "has_child (Leaving reported) = (\<not> reported)"
| "has_child t = False"

fun has_daemon :: "startup_task \<Rightarrow> bool" where
  "has_daemon Watching = True"
| "has_daemon (Stopping reason d look) = d"
| "has_daemon (Recording reason d look) = d"
| "has_daemon (Clearing d look) = d"
| "has_daemon (Leaving reported) = (\<not> reported)"
| "has_daemon t = False"

text \<open>A process that is launched and not yet registered, and a handle that is taken out and not yet told.\<close>

fun loose_child :: "startup_task \<Rightarrow> nat set" where
  "loose_child (Launched c) = {c}"
| "loose_child t = {}"

fun loose_handle :: "startup_task \<Rightarrow> nat set" where
  "loose_handle (Signalling h look) = {h}"
| "loose_handle t = {}"

text \<open>
  \<open>w_asking\<close> counts the calls of \<open>ensure\<close> that have found no daemon and have not yet looked for an error, \<open>w_callers\<close> the
  callers of \<open>spawn\<close> that have not reached the latch: the one of the set-up, and every \<open>ensure\<close> that found no error
  either. \<open>w_next\<close> numbers processes and handles, \<open>w_launched\<close> and \<open>w_handles\<close> are those there have been.
\<close>

record world =
  w_app :: app_state
  w_tasks :: "startup_task list"
  w_asking :: nat
  w_callers :: nat
  w_next :: nat
  w_launched :: "nat set"
  w_handles :: "nat set"

definition first_world :: world where
  "first_world = \<lparr>w_app = new_state, w_tasks = [], w_asking = 0, w_callers = 1, w_next = 0, w_launched = {}, w_handles = {}\<rparr>"

definition with_app :: "(app_state \<Rightarrow> app_state) \<Rightarrow> startup_task list \<Rightarrow> world \<Rightarrow> world" where
  "with_app f ts w = w\<lparr>w_app := f (w_app w), w_tasks := ts\<rparr>"

definition take_latch :: "app_state \<Rightarrow> app_state" where
  "take_latch s = s\<lparr>as_spawning := True\<rparr>"

definition launch :: "startup_task list \<Rightarrow> startup_task list \<Rightarrow> world \<Rightarrow> world" where
  "launch xs ys w = w\<lparr>w_tasks := xs @ Launched (w_next w) # ys, w_launched := insert (w_next w) (w_launched w),
     w_next := Suc (w_next w)\<rparr>"

definition announce :: "nat \<Rightarrow> startup_task list \<Rightarrow> world \<Rightarrow> world" where
  "announce port ts w = with_app (set_daemon \<lparr>dh_port = port, dh_id = w_next w\<rparr>) ts
     (w\<lparr>w_handles := insert (w_next w) (w_handles w), w_next := Suc (w_next w)\<rparr>)"

text \<open>What a task does after \<open>swap(None)\<close> has given it the old handle, and after it has given back the latch.\<close>

fun after_swap :: "daemon_handle option \<Rightarrow> bool \<Rightarrow> startup_task" where
  "after_swap (Some h) look = Signalling (dh_id h) look"
| "after_swap None look = Unlatching look"

fun after_report :: "bool \<Rightarrow> startup_task list" where
  "after_report look = (if look then [Leaving True] else [])"

text \<open>The exit handler of the application, which runs at any moment and more than once.\<close>

definition exit_requested :: "world \<Rightarrow> world" where
  "exit_requested w = w\<lparr>w_app := stop_child (w_app w)\<rparr>"

text \<open>\<open>late\<close> says whether the last look of a task that has reported already may find the daemon of another one.\<close>

inductive life_step :: "bool \<Rightarrow> world \<Rightarrow> world \<Rightarrow> bool" for late :: bool where
  ensure_asks: "daemon_port (w_app w) = None \<Longrightarrow> life_step late w (w\<lparr>w_asking := Suc (w_asking w)\<rparr>)"
| ensure_calls: "w_asking w = Suc n \<Longrightarrow> as_error (w_app w) = None \<Longrightarrow>
    life_step late w (w\<lparr>w_asking := n, w_callers := Suc (w_callers w)\<rparr>)"
| ensure_answers: "w_asking w = Suc n \<Longrightarrow> as_error (w_app w) \<noteq> None \<Longrightarrow> life_step late w (w\<lparr>w_asking := n\<rparr>)"
| latch_taken: "w_callers w = Suc n \<Longrightarrow> \<not> as_spawning (w_app w) \<Longrightarrow>
    life_step late w (with_app take_latch (Latched # w_tasks w) (w\<lparr>w_callers := n\<rparr>))"
| latch_lost: "w_callers w = Suc n \<Longrightarrow> as_spawning (w_app w) \<Longrightarrow> life_step late w (w\<lparr>w_callers := n\<rparr>)"
| clear_error: "w_tasks w = xs @ Latched # ys \<Longrightarrow> life_step late w (with_app clear_startup_error (xs @ Launching # ys) w)"
| not_launched: "w_tasks w = xs @ Launching # ys \<Longrightarrow>
    life_step late w (with_app (\<lambda>s. s) (xs @ Recording reason False False # ys) w)"
| launched: "w_tasks w = xs @ Launching # ys \<Longrightarrow> life_step late w (launch xs ys w)"
| registered: "w_tasks w = xs @ Launched c # ys \<Longrightarrow> life_step late w (with_app (set_child c) (xs @ Waiting # ys) w)"
| gave_up: "w_tasks w = xs @ Waiting # ys \<Longrightarrow>
    life_step late w (with_app (\<lambda>s. s) (xs @ Stopping reason False False # ys) w)"
| announced: "w_tasks w = xs @ Waiting # ys \<Longrightarrow> life_step late w (announce port (xs @ Watching # ys) w)"
| exited: "w_tasks w = xs @ Watching # ys \<Longrightarrow>
    life_step late w (with_app (\<lambda>s. s) (xs @ Stopping reason True True # ys) w)"
| channel_closed: "w_tasks w = xs @ Watching # ys \<Longrightarrow> life_step late w (with_app (\<lambda>s. s) (xs @ Leaving False # ys) w)"
| child_stopped: "w_tasks w = xs @ Stopping reason d look # ys \<Longrightarrow>
    life_step late w (with_app stop_child (xs @ Recording reason d look # ys) w)"
| error_recorded: "w_tasks w = xs @ Recording reason d look # ys \<Longrightarrow>
    life_step late w (with_app (record_error reason) (xs @ Clearing d look # ys) w)"
| daemon_cleared: "w_tasks w = xs @ Clearing d look # ys \<Longrightarrow>
    life_step late w (with_app clear_daemon (xs @ after_swap (as_daemon (w_app w)) look # ys) w)"
| shutdown_signalled: "w_tasks w = xs @ Signalling h look # ys \<Longrightarrow>
    life_step late w (with_app (signal_shutdown h) (xs @ Unlatching look # ys) w)"
| latch_released: "w_tasks w = xs @ Unlatching look # ys \<Longrightarrow>
    life_step late w (with_app release_latch (xs @ after_report look @ ys) w)"
| left_quietly: "w_tasks w = xs @ Leaving reported # ys \<Longrightarrow> daemon_port (w_app w) = None \<Longrightarrow>
    life_step late w (with_app (\<lambda>s. s) (xs @ ys) w)"
| left_reporting: "w_tasks w = xs @ Leaving reported # ys \<Longrightarrow> daemon_port (w_app w) \<noteq> None \<Longrightarrow> late \<or> \<not> reported \<Longrightarrow>
    life_step late w (with_app (\<lambda>s. s)
      (xs @ Stopping (str ''daemon output channel closed unexpectedly'') True False # ys) w)"
| exiting: "life_step late w (exit_requested w)"

inductive life :: "bool \<Rightarrow> world \<Rightarrow> bool" for late :: bool where
  life_first: "life late first_world"
| life_next: "life late w \<Longrightarrow> life_step late w w' \<Longrightarrow> life late w'"

inductive_cases life_stepE: "life_step late w w'"

section \<open>One daemon at a time\<close>

text \<open>
  At most one task owns the latch, and exactly when it is taken. A process that was launched is stopped, registered, or about
  to be registered by the owner; it is registered only by the owner, between launch and stop. A handle is registered exactly
  from the owner's announcement to its report, and every other handle was told to shut down or is about to be.
\<close>

definition one_daemon :: "world \<Rightarrow> bool" where
  "one_daemon w \<longleftrightarrow>
     (let s = w_app w; owners = filter holds_latch (w_tasks w) in
       length owners = (if as_spawning s then 1 else 0) \<and>
       (as_child s \<noteq> None \<longrightarrow> list_ex has_child owners) \<and>
       (as_daemon s \<noteq> None) = list_ex has_daemon owners \<and>
       w_launched w = as_killed s \<union> set_option (as_child s) \<union> \<Union> (set (map loose_child owners)) \<and>
       w_handles w = as_down s \<union> dh_id ` set_option (as_daemon s) \<union> \<Union> (set (map loose_handle owners)))"

lemma owner_facts:
  assumes "one_daemon w" and "w_tasks w = xs @ t # ys" and "holds_latch t"
  shows "filter holds_latch xs = []" "filter holds_latch ys = []" "as_spawning (w_app w)"
    "as_child (w_app w) \<noteq> None \<longrightarrow> has_child t" "(as_daemon (w_app w) \<noteq> None) = has_daemon t"
    "w_launched w = as_killed (w_app w) \<union> set_option (as_child (w_app w)) \<union> loose_child t"
    "w_handles w = as_down (w_app w) \<union> dh_id ` set_option (as_daemon (w_app w)) \<union> loose_handle t"
proof -
  have len: "length (filter holds_latch (xs @ t # ys)) = (if as_spawning (w_app w) then 1 else 0)"
    using assms(1,2) by (simp add: one_daemon_def Let_def)
  then show f: "filter holds_latch xs = []" "filter holds_latch ys = []" "as_spawning (w_app w)"
    using assms(3) by (auto split: if_splits)
  then have "filter holds_latch (w_tasks w) = [t]" using assms(2,3) by simp
  then show "as_child (w_app w) \<noteq> None \<longrightarrow> has_child t" "(as_daemon (w_app w) \<noteq> None) = has_daemon t"
    "w_launched w = as_killed (w_app w) \<union> set_option (as_child (w_app w)) \<union> loose_child t"
    "w_handles w = as_down (w_app w) \<union> dh_id ` set_option (as_daemon (w_app w)) \<union> loose_handle t"
    using assms(1) by (simp_all add: one_daemon_def Let_def)
qed

lemma no_owner:
  assumes "one_daemon w" and "\<not> as_spawning (w_app w)"
  shows "filter holds_latch (w_tasks w) = []" "as_child (w_app w) = None" "as_daemon (w_app w) = None"
    "w_launched w = as_killed (w_app w)" "w_handles w = as_down (w_app w)"
proof -
  show f: "filter holds_latch (w_tasks w) = []" using assms by (simp add: one_daemon_def Let_def)
  then show c: "as_child (w_app w) = None" and d: "as_daemon (w_app w) = None"
    using assms(1) unfolding one_daemon_def Let_def f by simp_all
  show "w_launched w = as_killed (w_app w)" "w_handles w = as_down (w_app w)"
    using assms(1) unfolding one_daemon_def Let_def c d f by simp_all
qed

text \<open>A step of the owner from \<open>t\<close> to another state of the owner keeps the invariant when the facts about \<open>t\<close> carry over.\<close>

lemma owner_goes_on:
  assumes "filter holds_latch xs = []" "filter holds_latch ys = []" "w_tasks w = xs @ t # ys" "holds_latch t" "as_spawning (w_app w)"
    and "as_child (w_app w) \<noteq> None \<longrightarrow> has_child t" and "(as_daemon (w_app w) \<noteq> None) = has_daemon t"
    and "w_launched w = as_killed (w_app w) \<union> set_option (as_child (w_app w)) \<union> loose_child t"
    and "w_handles w = as_down (w_app w) \<union> dh_id ` set_option (as_daemon (w_app w)) \<union> loose_handle t"
  shows "one_daemon w"
  using assms by (simp add: one_daemon_def)

lemma one_daemon_first: "one_daemon first_world"
  by (simp add: one_daemon_def first_world_def new_state_def Let_def)

lemmas app_defs = with_app_def take_latch_def clear_startup_error_def launch_def announce_def stop_child_def record_error_def
  clear_daemon_def signal_shutdown_def release_latch_def set_child_def set_daemon_def daemon_port_def exit_requested_def

lemma one_daemon_step: "life_step False w w' \<Longrightarrow> one_daemon w \<Longrightarrow> one_daemon w'"
proof (induction rule: life_step.induct)
  case (ensure_asks w)
  then show ?case by (simp add: one_daemon_def)
next
  case (ensure_calls w n)
  then show ?case by (simp add: one_daemon_def)
next
  case (ensure_answers w n)
  then show ?case by (simp add: one_daemon_def)
next
  case (latch_taken w n)
  show ?case using no_owner [OF latch_taken(3) latch_taken(2)] by (simp add: one_daemon_def Let_def app_defs)
next
  case (latch_lost w n)
  then show ?case by (simp add: one_daemon_def)
next
  case (clear_error w xs ys)
  note f = owner_facts [OF clear_error(2,1)]
  show ?case by (rule owner_goes_on [of xs ys _ Launching]) (use f in \<open>simp_all add: app_defs\<close>)
next
  case (not_launched w xs ys reason)
  note f = owner_facts [OF not_launched(2,1)]
  show ?case by (rule owner_goes_on [of xs ys _ "Recording reason False False"]) (use f in \<open>simp_all add: app_defs\<close>)
next
  case (launched w xs ys)
  note f = owner_facts [OF launched(2,1)]
  show ?case by (rule owner_goes_on [of xs ys _ "Launched (w_next w)"]) (use f in \<open>simp_all add: app_defs\<close>)
next
  case (registered w xs c ys)
  note f = owner_facts [OF registered(2,1)]
  show ?case by (rule owner_goes_on [of xs ys _ Waiting]) (use f in \<open>simp_all add: app_defs\<close>)
next
  case (gave_up w xs ys reason)
  note f = owner_facts [OF gave_up(2,1)]
  show ?case by (rule owner_goes_on [of xs ys _ "Stopping reason False False"]) (use f in \<open>simp_all add: app_defs\<close>)
next
  case (announced w xs ys port)
  note f = owner_facts [OF announced(2,1)]
  show ?case by (rule owner_goes_on [of xs ys _ Watching]) (use f in \<open>simp_all add: app_defs\<close>)
next
  case (exited w xs ys reason)
  note f = owner_facts [OF exited(2,1)]
  show ?case by (rule owner_goes_on [of xs ys _ "Stopping reason True True"]) (use f in \<open>simp_all add: app_defs\<close>)
next
  case (channel_closed w xs ys)
  note f = owner_facts [OF channel_closed(2,1)]
  show ?case by (rule owner_goes_on [of xs ys _ "Leaving False"]) (use f in \<open>simp_all add: app_defs\<close>)
next
  case (child_stopped w xs reason d look ys)
  note f = owner_facts [OF child_stopped(2,1)]
  show ?case
    by (rule owner_goes_on [of xs ys _ "Recording reason d look"]) (use f in \<open>auto simp: app_defs split: option.split\<close>)
next
  case (error_recorded w xs reason d look ys)
  note f = owner_facts [OF error_recorded(2,1)]
  show ?case by (rule owner_goes_on [of xs ys _ "Clearing d look"]) (use f in \<open>simp_all add: app_defs\<close>)
next
  case (daemon_cleared w xs d look ys)
  note f = owner_facts [OF daemon_cleared(2,1)]
  show ?case
    by (rule owner_goes_on [of xs ys _ "after_swap (as_daemon (w_app w)) look"])
      (cases "as_daemon (w_app w)"; use f in \<open>simp_all add: app_defs\<close>)+
next
  case (shutdown_signalled w xs h look ys)
  note f = owner_facts [OF shutdown_signalled(2,1)]
  show ?case by (rule owner_goes_on [of xs ys _ "Unlatching look"]) (use f in \<open>simp_all add: app_defs\<close>)
next
  case (latch_released w xs look ys)
  show ?case using owner_facts [OF latch_released(2,1)] by (simp add: one_daemon_def Let_def app_defs)
next
  case (left_quietly w xs reported ys)
  show ?case
  proof (cases reported)
    case True
    then show ?thesis using left_quietly by (simp add: one_daemon_def Let_def app_defs)
  next
    case False
    then show ?thesis using left_quietly(2) owner_facts(5) [OF left_quietly(3,1)] by (simp add: app_defs)
  qed
next
  case (left_reporting w xs reported ys)
  then have "holds_latch (Leaving reported)" by simp
  note f = owner_facts [OF left_reporting(4,1) this]
  show ?case
    by (rule owner_goes_on [of xs ys _ "Stopping (str ''daemon output channel closed unexpectedly'') True False"])
      (use f left_reporting(3) in \<open>simp_all add: app_defs\<close>)
next
  case (exiting w)
  then show ?case by (auto simp: one_daemon_def Let_def app_defs split: option.split)
qed

lemma one_process:
  assumes "one_daemon w"
  shows "\<exists>c. w_launched w - as_killed (w_app w) \<subseteq> {c}"
proof (cases "as_spawning (w_app w)")
  case False
  then show ?thesis using no_owner(4) [OF assms] by simp
next
  case True
  then have "length (filter holds_latch (w_tasks w)) = 1" using assms by (simp add: one_daemon_def Let_def)
  then obtain t where t: "filter holds_latch (w_tasks w) = [t]" by (auto simp: length_Suc_conv)
  then have "w_launched w = as_killed (w_app w) \<union> set_option (as_child (w_app w)) \<union> loose_child t"
    "as_child (w_app w) \<noteq> None \<longrightarrow> has_child t"
    using assms by (simp_all add: one_daemon_def Let_def)
  then show ?thesis by (cases t; cases "as_child (w_app w)") auto
qed

text \<open>C34: One daemon at a time: as long as no task finds, after its own report, the daemon of a later one, whatever the order in
  which callers, startups, exits, the separate writes of a report and the exit handler of the application run, the latch is
  taken exactly when one task owns it; at most one process that was launched has not been stopped, and it is registered or
  about to be by that task; a daemon is registered only by that task, from its announcement to its report; and every
  other handle has been told to shut down, or is about to be by that task.\<close>

theorem latch_keeps_one_daemon:
  assumes "life False w"
  shows "one_daemon w \<and> (\<exists>c. w_launched w - as_killed (w_app w) \<subseteq> {c})"
proof -
  have "one_daemon w" using assms by induction (auto intro: one_daemon_first one_daemon_step)
  then show ?thesis using one_process by blast
qed

subsection \<open>Runs\<close>

text \<open>A caller that takes the latch and starts a daemon, and a task that stops and reports, without interruption.\<close>

definition startup_run :: "nat \<Rightarrow> nat \<Rightarrow> world \<Rightarrow> world" where
  "startup_run port n w =
     (let ts = w_tasks w;
          w1 = with_app take_latch (Latched # ts) (w\<lparr>w_callers := n\<rparr>);
          w2 = with_app clear_startup_error (Launching # ts) w1;
          w3 = launch [] ts w2;
          w4 = with_app (set_child (w_next w)) (Waiting # ts) w3
      in announce port (Watching # ts) w4)"

lemma life_startup:
  assumes "life late w" and "w_callers w = Suc n" and "\<not> as_spawning (w_app w)"
  shows "life late (startup_run port n w)"
proof -
  let ?ts = "w_tasks w"
  let ?w1 = "with_app take_latch (Latched # ?ts) (w\<lparr>w_callers := n\<rparr>)"
  have 1: "life late ?w1" by (rule life_next [OF assms(1) latch_taken [OF assms(2,3)]])
  let ?w2 = "with_app clear_startup_error (Launching # ?ts) ?w1"
  have 2: "life late ?w2" using life_next [OF 1 clear_error [of ?w1 "[]" ?ts]] by (simp add: with_app_def)
  let ?w3 = "launch [] ?ts ?w2"
  have 3: "life late ?w3" using life_next [OF 2 launched [of ?w2 "[]" ?ts]] by (simp add: with_app_def)
  let ?w4 = "with_app (set_child (w_next w)) (Waiting # ?ts) ?w3"
  have 4: "life late ?w4"
    using life_next [OF 3 registered [of ?w3 "[]" "w_next w" ?ts]] by (simp add: with_app_def launch_def)
  show ?thesis unfolding startup_run_def Let_def
    using life_next [OF 4 announced [of ?w4 "[]" ?ts _ port]] by (simp add: with_app_def)
qed

definition report_run :: "rstr \<Rightarrow> nat \<Rightarrow> bool \<Rightarrow> startup_task list \<Rightarrow> startup_task list \<Rightarrow> world \<Rightarrow> world" where
  "report_run reason h look xs ys w =
     with_app (\<lambda>s. release_latch (signal_shutdown h (clear_daemon (record_error reason (stop_child s))))) (xs @ after_report look @ ys) w"

lemma life_report:
  assumes "life late w" and "w_tasks w = xs @ Stopping reason d look # ys" and "as_daemon (w_app w) = Some h"
  shows "life late (report_run reason (dh_id h) look xs ys w)"
proof -
  let ?w1 = "with_app stop_child (xs @ Recording reason d look # ys) w"
  have 1: "life late ?w1" by (rule life_next [OF assms(1) child_stopped [OF assms(2)]])
  let ?w2 = "with_app (record_error reason) (xs @ Clearing d look # ys) ?w1"
  have 2: "life late ?w2" by (rule life_next [OF 1 error_recorded]) (simp add: with_app_def)
  have h: "as_daemon (w_app ?w2) = Some h"
    using assms(3) by (simp add: with_app_def record_error_def stop_child_def split: option.split)
  let ?w3 = "with_app clear_daemon (xs @ Signalling (dh_id h) look # ys) ?w2"
  have 3: "life late ?w3" using life_next [OF 2 daemon_cleared [of ?w2 xs d look ys]] h by (simp add: with_app_def)
  let ?w4 = "with_app (signal_shutdown (dh_id h)) (xs @ Unlatching look # ys) ?w3"
  have 4: "life late ?w4" by (rule life_next [OF 3 shutdown_signalled]) (simp add: with_app_def)
  have "life late (with_app release_latch (xs @ after_report look @ ys) ?w4)"
    by (rule life_next [OF 4 latch_released]) (simp add: with_app_def)
  then show ?thesis by (simp add: report_run_def with_app_def)
qed

definition started :: world where
  "started = startup_run 8000 0 first_world"

lemma life_started: "life late started"
  unfolding started_def by (rule life_startup [OF life_first]) (simp_all add: first_world_def new_state_def)

text \<open>The exit handler stops the process of a daemon that stays registered until its task has seen the exit.\<close>

theorem latch_keeps_one_daemon_witness:
  "one_daemon (exit_requested started) \<and> (\<exists>c. w_launched (exit_requested started) - as_killed (w_app (exit_requested started)) \<subseteq> {c})"
  by (rule latch_keeps_one_daemon) (rule life_next [OF life_started exiting])

lemma registered_without_process:
  "\<exists>w. life late w \<and> daemon_port (w_app w) = Some 8000 \<and> w_launched w = as_killed (w_app w) \<and> as_child (w_app w) = None"
  by (intro exI [of _ "exit_requested started"] conjI life_next [OF life_started exiting])
    (simp_all add: started_def startup_run_def first_world_def new_state_def app_defs)

text \<open>
  The restriction is needed: a caller that passed the checks of \<open>ensure\<close> before a failure can take the latch after it, and if
  the task that reported the failure looks only when the next daemon is registered, it stops the process of that one and
  gives back a latch that is not its own: a task then watches a daemon that is stopped, with the latch free.
\<close>

lemma late_look_stops_the_next_daemon:
  "\<exists>w. life True w \<and> w_tasks w = [Watching] \<and> \<not> as_spawning (w_app w) \<and> daemon_port (w_app w) = None \<and> w_launched w = as_killed (w_app w)"
proof -
  let ?v = "first_world\<lparr>w_asking := 1\<rparr>" and ?w0 = "first_world\<lparr>w_callers := 2\<rparr>"
  have "life True ?v"
    using life_next [OF life_first ensure_asks [of first_world]] by (simp add: first_world_def new_state_def daemon_port_def)
  from life_next [OF this ensure_calls [of ?v 0]] have 0: "life True ?w0"
    by (simp add: first_world_def new_state_def numeral_2_eq_2)
  let ?w1 = "startup_run 8000 1 ?w0"
  have 1: "life True ?w1" by (rule life_startup [OF 0]) (simp_all add: first_world_def new_state_def)
  let ?w2 = "with_app (\<lambda>s. s) [Stopping [] True True] ?w1"
  have 2: "life True ?w2"
    using life_next [OF 1 exited [of ?w1 "[]" "[]" _ "[]"]] by (simp add: startup_run_def first_world_def app_defs)
  let ?w3 = "report_run [] 1 True [] [] ?w2"
  have 3: "life True ?w3"
    using life_report [OF 2, of "[]" "[]" True True "[]" "\<lparr>dh_port = 8000, dh_id = 1\<rparr>"]
    by (simp add: startup_run_def first_world_def app_defs)
  let ?w4 = "startup_run 8001 0 ?w3"
  have 4: "life True ?w4"
    by (rule life_startup [OF 3]) (simp_all add: startup_run_def report_run_def first_world_def app_defs)
  let ?m = "str ''daemon output channel closed unexpectedly''"
  let ?w5 = "with_app (\<lambda>s. s) [Watching, Stopping ?m True False] ?w4"
  have 5: "life True ?w5"
    using life_next [OF 4 left_reporting [of ?w4 "[Watching]" True "[]"]]
    by (simp add: startup_run_def report_run_def first_world_def app_defs)
  have "life True (report_run ?m 3 False [Watching] [] ?w5)"
    using life_report [OF 5, of "[Watching]" ?m True False "[]" "\<lparr>dh_port = 8001, dh_id = 3\<rparr>"]
    by (simp add: startup_run_def report_run_def first_world_def app_defs)
  moreover have "w_launched ?w5 = {0, 2}" "as_killed (w_app (report_run ?m 3 False [Watching] [] ?w5)) = {0, 2}"
    by (auto simp: startup_run_def report_run_def first_world_def new_state_def app_defs)
  ultimately show ?thesis
    by (intro exI [of _ "report_run ?m 3 False [Watching] [] ?w5"])
      (simp add: report_run_def with_app_def release_latch_def signal_shutdown_def clear_daemon_def daemon_port_def)
qed

end
