(* ===== verification/Spec2Isabelle.thy ===== *)
theory Spec2Isabelle
  imports CompareReport Pipeline Engine UtrTwoPass RunnerContract CompareRunner LangDetect AudioPrep IntakeLaws CacheOpen BackendBridge PyChatLaws CacheKeys CompareBackend DesktopLife
begin

text \<open>
  Batchalign processes CHAT transcripts and recordings. An input (a media file, a document, a pair of
  documents) becomes a value; a pipeline sends it through a sequence of stages in the order the task graph
  demands; a stage asks a backend through the engine, which batches requests and caches results, and writes
  the answer into the document; the outcome is written once. A desktop application starts a daemon that runs
  the pipelines and relays its events. The Rust crates under \<^verbatim>\<open>src/crates/batchalign/\<close> and the crate of the
  application are the subject: \<^verbatim>\<open>batchalign-core\<close> (below core), \<^verbatim>\<open>batchalign-engine\<close> (below engine) and
  \<^verbatim>\<open>src/apps/batchalign/batchalign-gui/src-tauri\<close> (below gui).

  \<^bold>\<open>Theories and sources.\<close>
  \<^item> \<open>Prelude\<close>: Rust characters and strings (\<open>rchar\<close>, \<open>rstr\<close>), the string operations of the standard library, and
    lemmas on lists that several theories use. \<open>SortedMap\<close>: the \<open>BTreeMap\<close> as an association list.
  \<^item> \<open>EditDistance\<close>, \<open>Alignment\<close>: core \<^verbatim>\<open>alignment/mod.rs\<close>. The edit-distance recursion is the specification; the
    full table, the linear-space rows and Hirschberg's divide and conquer are shown equal to it in cost, and every
    result is an alignment of its inputs.
  \<^item> \<open>CompareAlign\<close>, \<open>CompareWindows\<close>, \<open>CompareReport\<close>: core \<^verbatim>\<open>backends/compare.rs\<close>: tokens, utterance windows,
    Levenshtein alignment (optimal), error counts (they add up), rates and the tiers that are written.
    \<open>CompareBackend\<close>: the backend around it, which answers a batch pair by pair or fails with its first error.
  \<^item> \<open>ChatDoc\<close>: core \<^verbatim>\<open>utils.rs\<close>: errors, source ids, the provenance comment and its date.
  \<^item> \<open>AsrPrepare\<close>, \<open>AsrCleanup\<close>, \<open>AsrUtterance\<close>: core \<^verbatim>\<open>asr/\<close>: from raw monologues to utterances, one
    definition per pass in the order of \<open>process_raw_asr\<close>, which ends and yields well-formed utterances.
  \<^item> \<open>NumTable\<close>, \<open>NumText\<close>, \<open>NumChinese\<close>: core \<^verbatim>\<open>asr/num2text/\<close> and \<^verbatim>\<open>asr/num2chinese.rs\<close>: the rules of a language and
    their checks, the cardinals (the words add up to the number) and the Chinese numerals (they read back).
  \<^item> \<open>LangDetect\<close>: core \<^verbatim>\<open>asr/lang_detect.rs\<close>. \<open>ChatBuild\<close>: core \<^verbatim>\<open>asr/chat/\<close>: a transcript description becomes
    headers and utterances.
  \<^item> \<open>AudioPrep\<close>: the decoding loop of core \<^verbatim>\<open>utils.rs\<close>. \<open>FloatRound\<close>: rounding to \<^verbatim>\<open>f32\<close> and \<^verbatim>\<open>f64\<close>. \<open>MediaConvert\<close>,
    \<open>MediaConvertLaws\<close>: core
    \<^verbatim>\<open>backends/convert.rs\<close> and its runner: mixing, resampling, quantization, and the WAV file, which reads back.
  \<^item> \<open>Tasks\<close>, \<open>TaskOrder\<close>, \<open>Pipeline\<close>: core \<^verbatim>\<open>base.rs\<close>, \<^verbatim>\<open>metrics.rs\<close> and engine \<^verbatim>\<open>pipeline.rs\<close>: tasks and
    values, stage order, the run of one input as a loop with explicit failures, and progress events.
    \<open>StageGates\<close>: the checks of core \<^verbatim>\<open>base.rs\<close> before and after a stage, which the run takes as arguments.
  \<^item> \<open>Intake\<close>, \<open>IntakeLaws\<close>: how engine \<^verbatim>\<open>pipeline.rs\<close> is constructed and fed: the conversion of inputs, the two
    ways to run and the callbacks. Every input gets one answer, in order, and both ways give the same answers.
  \<^item> \<open>Engine\<close>: engine \<^verbatim>\<open>engine.rs\<close>, \<^verbatim>\<open>batcher.rs\<close>, \<^verbatim>\<open>cache.rs\<close>: registration and dispatch, the batcher as a
    transition function on queue, cache and replies (every reply genuine, none twice, all served).
    \<open>CacheOpen\<close>: the cache files and the registry of open environments. \<open>CacheKeys\<close>: core \<^verbatim>\<open>cache.rs\<close>, the requests of
    core \<^verbatim>\<open>proto/\<close> and what each contributes to its key: equal keys are equal computations.
  \<^item> \<open>BackendBridge\<close>: engine \<^verbatim>\<open>backend_impl.rs\<close>, \<^verbatim>\<open>native_backends/convert.rs\<close> and \<^verbatim>\<open>dp_py.rs\<close>: backends written in
    Python. \<open>PyChat\<close>, \<open>PyChatLaws\<close>: core \<^verbatim>\<open>pychat/\<close>: documents edited from Python, whose edits refine those of a
    list and whose text reads back.
  \<^item> \<open>Outcomes\<close>: engine \<^verbatim>\<open>py_outcome.rs\<close> and \<^verbatim>\<open>metrics_writer.rs\<close>: what is written of an outcome; the two CSV writers agree.
  \<^item> \<open>Timing\<close>, \<open>FaTiming\<close>, \<open>FaReuse\<close>, \<open>FaRepair\<close>, \<open>FaRun\<close>: core \<^verbatim>\<open>taskrunners/fa.rs\<close>: forced alignment.
  \<^item> \<open>Decisions\<close>: core \<^verbatim>\<open>decisions.rs\<close>: review records and the tiers they become.
  \<^item> \<open>UtrStrategy\<close>, \<open>UtrRecovery\<close>, \<open>UtrTwoPass\<close>: core \<^verbatim>\<open>taskrunners/utr/\<close>: utterance timing from ASR words.
  \<^item> \<open>Segmentation\<close>, \<open>SegmentationLaws\<close>, \<open>SegmentationWor\<close>: core \<^verbatim>\<open>segmentation/mod.rs\<close>: the split of an
    utterance into several, which keeps its content and its timing and follows the tier policy.
  \<^item> The other runners of core \<^verbatim>\<open>taskrunners/\<close>, each with its request, the checks of the answer, the write into the
    document and the runner with its events: \<open>AsrRunner\<close>, \<open>AsrRunnerLaws\<close> (\<^verbatim>\<open>asr.rs\<close>), \<open>UtsegRunner\<close>,
    \<open>UtsegRunnerLaws\<close> (\<^verbatim>\<open>utseg.rs\<close>), \<open>SpeakerRunner\<close>, \<open>SpeakerRunnerLaws\<close> (\<^verbatim>\<open>speaker.rs\<close>), \<open>TierRunners\<close>
    (\<^verbatim>\<open>translate.rs\<close>, \<^verbatim>\<open>coref.rs\<close>), \<open>PhoneticRunner\<close>, \<open>MorRunner\<close>, \<open>MorRunnerLaws\<close> (\<^verbatim>\<open>morphosyntax.rs\<close>), \<open>AiRunner\<close>,
    \<open>CompareRunner\<close>. Their lemmas say what a successful answer writes, what stays as it was, and which
    answers are refused. \<open>RunnerContract\<close> states what the pipeline relies on as the locale \<open>stage_runner\<close> and
    interprets it for the nine
    runners that keep it; it also says what those of ASR, comparison and conversion do.
  \<^item> \<open>DesktopDaemon\<close>, \<open>DesktopLife\<close>: gui \<^verbatim>\<open>daemon.rs\<close>, \<^verbatim>\<open>daemon_http.rs\<close>, \<^verbatim>\<open>state.rs\<close>, \<^verbatim>\<open>events.rs\<close>, \<^verbatim>\<open>commands.rs\<close>: the
    announcement of the port, the wait for it, requests, event pumps and the folder listing. The life of the daemon
    is the step relation \<open>life_step\<close>, one step for each write to the shared state by the startup task, the watcher, the commands
    and the exit handler of \<^verbatim>\<open>lib.rs\<close>; the latch keeps at most one daemon in every reachable state.

  \<^bold>\<open>Conventions.\<close> A struct is a record, an enum a datatype, \<open>Result\<close> a sum with the error on the left, \<open>HashMap\<close> a map
  or, where its order is observable, an association list. Code that mutates through \<open>&mut\<close> returns the new state, also
  next to an error. Milliseconds and indices (\<open>u64\<close>, \<open>usize\<close>) are natural numbers, with \<open>saturating_sub\<close> the
  subtraction of the naturals; the values lie far below the range of the type. Floating-point scores and
  times are exact rationals; audio samples are numbers of the format, and every operation on them is rounded
  (\<open>FloatRound\<close>). A definition that can panic returns an option whose \<open>None\<close> is the panic.
  What is not code of this repository is an argument of the definitions that use it: the Unicode tables beyond
  ASCII, the document crate (the CHAT parser, serializer, validator and walks over words and bullets), Jaro-Winkler
  similarity, language detection by trigrams, the MP3 encoder, the packets a media reader yields, the joining of
  concurrent futures, hashing, JSON, LMDB, HTTP, the file system, the windows of the application and the backends.
  Loops that need not end on the face of it are \<open>partial_function (option)\<close> (\<open>scan_parts\<close>, \<open>topo_loop\<close>) or return
  an option (\<open>align\<close>), each with a theorem that the result exists.

  \<^bold>\<open>Not modelled.\<close> The registration of classes and modules with the interpreter (core \<^verbatim>\<open>python.rs\<close>, engine \<^verbatim>\<open>python.rs\<close>,
  \<^verbatim>\<open>native_backends/mod.rs\<close>); schema emission (core \<^verbatim>\<open>proto/mod.rs\<close>); build scripts; the
  embedded number tables; tracing and debug snapshots; the runtime (tokio, signals): batcher, pipeline and desktop
  are modelled as the sequence of their steps, not as threads.
\<close>

end
